(* ===== verification/Prelude.thy ===== *)
theory Prelude
  imports "HOL-Library.Word" "HOL-Library.Char_ord"
begin

section \<open>Shared types, outcomes of kernel code, arrays\<close>

text \<open>
  What every component of the development uses: the machine integers, the outcome type of
  C code that may stop the kernel, the sequencing of such code, bounds-checked array access,
  the error numbers of \<open>libc/include/errno.h\<close>, and the generic lemmas on lists and words
  that the component proofs share.

  A call either returns a value (\<open>Inr\<close>) or stops (\<open>Inl\<close>). It stops with
  \<open>Panic\<close> where the source calls \<open>panic(...)\<close> or raises a CPU exception in kernel
  mode, and with \<open>Fault\<close> where the source has undefined behaviour: a read or write outside
  an array, a null or dangling pointer, a signed overflow. Nothing is ever proved from the
  unspecified value of \<open>xs ! i\<close> out of range: every access goes through
  \<open>aget\<close> and \<open>aset\<close>.
\<close>

unbundle bit_operations_syntax

type_synonym u8 = "8 word"
type_synonym u16 = "16 word"
type_synonym u32 = "32 word"

datatype stop = Panic string | Fault string

type_synonym 'a res = "stop + 'a"

named_theorems res_simps \<open>rewriting of outcomes of kernel code\<close>

definition rbind :: "'a res \<Rightarrow> ('a \<Rightarrow> 'b res) \<Rightarrow> 'b res" where
  "rbind r f = (case r of Inl e \<Rightarrow> Inl e | Inr x \<Rightarrow> f x)"

lemma rbind_Inr [simp, res_simps]: "rbind (Inr x) f = f x"
  by (simp add: rbind_def)

lemma rbind_Inl [simp, res_simps]: "rbind (Inl e) f = Inl e"
  by (simp add: rbind_def)

lemma rbind_eq_Inr [res_simps]: "rbind r f = Inr y \<longleftrightarrow> (\<exists>x. r = Inr x \<and> f x = Inr y)"
  by (cases r) (auto simp: rbind_def)

lemma rbind_eq_Inl [res_simps]:
  "rbind r f = Inl e \<longleftrightarrow> r = Inl e \<or> (\<exists>x. r = Inr x \<and> f x = Inl e)"
  by (cases r) (auto simp: rbind_def)

lemma rbind_cong [fundef_cong]:
  "r = r' \<Longrightarrow> (\<And>x. r' = Inr x \<Longrightarrow> f x = g x) \<Longrightarrow> rbind r f = rbind r' g"
  by (cases r') (auto simp: rbind_def)

lemma rbind_assoc: "rbind (rbind r f) g = rbind r (\<lambda>x. rbind (f x) g)"
  by (cases r) (auto simp: rbind_def)

lemma rbind_InrE:
  assumes "rbind r f = Inr y"
  obtains x where "r = Inr x" "f x = Inr y"
  using assms by (auto simp: rbind_eq_Inr)

text \<open>\<open>ok r\<close>: the call returns.\<close>

definition ok :: "'a res \<Rightarrow> bool" where
  "ok r = (case r of Inl e \<Rightarrow> False | Inr x \<Rightarrow> True)"

lemma ok_simps [simp]: "ok (Inr x)" "\<not> ok (Inl e)"
  by (simp_all add: ok_def)

lemma ok_iff: "ok r \<longleftrightarrow> (\<exists>x. r = Inr x)"
  by (cases r) auto

subsection \<open>Arrays\<close>

definition aget :: "string \<Rightarrow> 'a list \<Rightarrow> nat \<Rightarrow> 'a res" where
  "aget what xs i = (if i < length xs then Inr (xs ! i) else Inl (Fault what))"

definition aset :: "string \<Rightarrow> 'a list \<Rightarrow> nat \<Rightarrow> 'a \<Rightarrow> 'a list res" where
  "aset what xs i x = (if i < length xs then Inr (xs[i := x]) else Inl (Fault what))"

lemma aget_Inr [res_simps]: "aget w xs i = Inr x \<longleftrightarrow> i < length xs \<and> x = xs ! i"
  by (auto simp: aget_def)

lemma aset_Inr [res_simps]: "aset w xs i x = Inr ys \<longleftrightarrow> i < length xs \<and> ys = xs[i := x]"
  by (auto simp: aset_def)

lemma aget_ok [simp]: "i < length xs \<Longrightarrow> aget w xs i = Inr (xs ! i)"
  by (simp add: aget_def)

lemma aset_ok [simp]: "i < length xs \<Longrightarrow> aset w xs i x = Inr (xs[i := x])"
  by (simp add: aset_def)

lemma aset_middle: "n = length a \<Longrightarrow> aset w (a @ x # b) n y = Inr (a @ y # b)"
  by (simp add: aset_def list_update_append)

text \<open>Dereferencing a pointer that may be null: \<open>None\<close> is the null pointer.\<close>

definition deref :: "string \<Rightarrow> 'a option \<Rightarrow> 'a res" where
  "deref what p = (case p of None \<Rightarrow> Inl (Fault what) | Some x \<Rightarrow> Inr x)"

lemma deref_simps [simp, res_simps]: "deref w (Some x) = Inr x" "deref w None = Inl (Fault w)"
  by (simp_all add: deref_def)

lemma deref_Inr [res_simps]: "deref w p = Inr x \<longleftrightarrow> p = Some x"
  by (cases p) (auto simp: deref_def)

subsection \<open>Error numbers\<close>

text \<open>\<open>libc/include/errno.h\<close>. Kernel calls return the negated number.\<close>

abbreviation (input) ENOSYS :: int where "ENOSYS \<equiv> 1"
abbreviation (input) ENOENT :: int where "ENOENT \<equiv> 2"
abbreviation (input) ENOMEM :: int where "ENOMEM \<equiv> 3"
abbreviation (input) EACCES :: int where "EACCES \<equiv> 4"
abbreviation (input) EEXIST :: int where "EEXIST \<equiv> 5"
abbreviation (input) EAGAIN :: int where "EAGAIN \<equiv> 6"
abbreviation (input) EFAULT :: int where "EFAULT \<equiv> 7"
abbreviation (input) EINVAL :: int where "EINVAL \<equiv> 8"
abbreviation (input) EOWNERDEAD :: int where "EOWNERDEAD \<equiv> 9"
abbreviation (input) ESRCH :: int where "ESRCH \<equiv> 10"
abbreviation (input) EBADF :: int where "EBADF \<equiv> 11"
abbreviation (input) ENAMETOOLONG :: int where "ENAMETOOLONG \<equiv> 12"
abbreviation (input) ENOSPC :: int where "ENOSPC \<equiv> 13"
abbreviation (input) EMSGSIZE :: int where "EMSGSIZE \<equiv> 14"
abbreviation (input) E2BIG :: int where "E2BIG \<equiv> 15"

subsection \<open>Lists\<close>

lemma take_Suc_update: "i < length xs \<Longrightarrow> take (Suc i) (xs[i := x]) = take i xs @ [x]"
  by (simp add: take_Suc_conv_app_nth)

lemma takeWhile_append_stop: "\<forall>x\<in>set xs. P x \<Longrightarrow> \<not> P y \<Longrightarrow> takeWhile P (xs @ y # ys) = xs"
  by (induction xs) auto

lemma list_update_append2: "(xs @ y # ys)[length xs := z] = xs @ z # ys"
  by simp

subsection \<open>Words\<close>

lemma unat_drop_bit_div: "unat (drop_bit n (w :: 'a::len word)) = unat w div 2 ^ n"
proof -
  have "unat (drop_bit n w) = drop_bit n (unat w)"
    by (simp add: unsigned_drop_bit_eq take_bit_nat_eq_self)
  then show ?thesis by (simp only: drop_bit_eq_div)
qed

lemma unat_and_mask: "unat (w AND mask n :: 'a::len word) = unat w mod 2 ^ n"
proof -
  have "unat (take_bit n w) = take_bit n (unat w)"
    by (rule unsigned_take_bit_eq)
  then show ?thesis by (simp flip: take_bit_eq_mask take_bit_eq_mod)
qed

lemma unat_u32_less [simp]: "unat (w :: u32) < 4294967296"
  using unsigned_less [of w] by simp

lemma unat_small: "n < 2 ^ 32 \<Longrightarrow> unat (of_nat n :: u32) = n"
  by (simp add: unat_of_nat)

lemma word_of_unat: "unat (x :: u32) = k \<Longrightarrow> x = of_nat k"
  by auto

end
