(* ===== verification/Mem.thy ===== *)
theory Mem
  imports Prelude
begin

section \<open>Physical memory and the MMU\<close>

text \<open>
  The memory the kernel runs on: physical dwords, the page directory register, and the page
  walk of an i386 in 32-bit paging mode with \<open>CR0.WP\<close> set, as \<open>boot.S\<close> sets it up. The
  record also holds the variables of \<open>pmm.c\<close> and \<open>vmm.c\<close>: the stack of free page frames and
  the end of the mapped kernel memory.

  Memory is dword-granular: \<open>phys m a\<close> is the dword at the 4-aligned physical address
  \<open>a\<close>, little endian. Page tables are only ever read and written by dwords; bytes are
  extracted from their dword. The translation lookaside buffer is not modelled: the code
  invalidates the page it changed, so a walk of the tables is what the CPU uses.
\<close>

record mem =
  phys :: "u32 \<Rightarrow> u32"
  cr3 :: u32
  pmem_stack :: "nat \<Rightarrow> u32"
  pmem_stack_top :: nat
  pmem_stack_size :: nat
  end_mapped_kmemory :: u32
  kernel_end :: u32

subsection \<open>Address arithmetic\<close>

definition pdi :: "u32 \<Rightarrow> u32" where "pdi va = drop_bit 22 va"

definition pti :: "u32 \<Rightarrow> u32" where "pti va = drop_bit 12 va AND 0x3FF"

definition frame :: "u32 \<Rightarrow> u32" where "frame e = e AND NOT 0xFFF"

definition offset :: "u32 \<Rightarrow> u32" where "offset va = va AND 0xFFF"

lemma unat_pdi: "unat (pdi va) = unat va div 4194304"
  by (simp add: pdi_def unat_drop_bit_div)

lemma unat_pti: "unat (pti va) = unat va div 4096 mod 1024"
  using unat_and_mask [of "drop_bit 12 va" 10]
  by (simp add: pti_def unat_drop_bit_div mask_eq_exp_minus_1)

lemma unat_offset: "unat (offset va) = unat va mod 4096"
  using unat_and_mask [of va 12] by (simp add: offset_def mask_eq_exp_minus_1)

lemma frame_offset: "frame va + offset va = va"
proof -
  have "frame va AND offset va = va AND (NOT 0xFFF AND 0xFFF)"
    by (simp only: frame_def offset_def and.assoc and.left_commute and.left_idem)
  moreover have "frame va OR offset va = va AND (NOT 0xFFF OR 0xFFF)"
    by (simp only: frame_def offset_def bit.conj_disj_distrib)
  ultimately show ?thesis by (simp add: disjunctive_add_eq_or)
qed

lemma unat_frame: "unat (frame va) = unat va - unat va mod 4096"
proof -
  have "offset va \<le> va" by (simp add: word_le_nat_alt unat_offset)
  moreover have "frame va = va - offset va" using frame_offset [of va] by (simp add: eq_diff_eq)
  ultimately show ?thesis by (simp add: unat_sub unat_offset)
qed

definition aligned :: "u32 \<Rightarrow> bool" where "aligned a \<longleftrightarrow> frame a = a"

lemma aligned_iff: "aligned a \<longleftrightarrow> unat a mod 4096 = 0"
proof -
  have "aligned a \<longleftrightarrow> unat (frame a) = unat a" by (simp add: aligned_def word_unat_eq_iff)
  also have "\<dots> \<longleftrightarrow> unat a mod 4096 = 0"
    using mod_less_eq_dividend [of "unat a" 4096] by (simp add: unat_frame) linarith
  finally show ?thesis .
qed

lemma aligned_frame [simp]: "aligned (frame a)"
proof -
  have "(n - n mod 4096) mod 4096 = 0" for n :: nat
    by (simp add: minus_mod_eq_mult_div)
  then show ?thesis by (simp add: aligned_iff unat_frame)
qed

lemma frame_frame [simp]: "frame (frame a) = frame a"
  using aligned_frame [of a] by (simp add: aligned_def)

lemma unat_plus_small:
  assumes "aligned a" "unat b < 4096"
  shows "unat (a + b) = unat a + unat b"
proof -
  have "unat a mod 4096 = 0" using assms(1) by (simp add: aligned_iff)
  then obtain k where k: "unat a = 4096 * k" by (auto elim: dvdE)
  have "unat a < 4294967296" by simp
  with k have "k < 1048576" by simp
  with k assms(2) have "unat a + unat b < 4294967296" by linarith
  then show ?thesis by (simp add: unat_word_ariths)
qed

lemma frame_plus:
  assumes "aligned a" "unat b < 4096"
  shows "frame (a + b) = a"
proof -
  have "unat a mod 4096 = 0" using assms(1) by (simp add: aligned_iff)
  then obtain k where k: "unat a = 4096 * k" by (auto elim: dvdE)
  then have "unat (frame (a + b)) = unat a"
    using assms(2) unat_plus_small [OF assms] by (simp add: unat_frame)
  then show ?thesis by (simp add: word_unat_eq_iff)
qed

lemma offset_plus: "aligned a \<Longrightarrow> unat b < 4096 \<Longrightarrow> offset (a + b) = b"
  using frame_plus [of a b] frame_offset [of "a + b"] by simp

subsection \<open>The page walk\<close>

text \<open>Entry \<open>i\<close> of the page directory \<open>cr3\<close> points to and entry \<open>j\<close> of a table.\<close>

definition pde_addr :: "mem \<Rightarrow> u32 \<Rightarrow> u32" where
  "pde_addr m va = frame (cr3 m) + 4 * pdi va"

definition pde :: "mem \<Rightarrow> u32 \<Rightarrow> u32" where
  "pde m va = phys m (pde_addr m va)"

definition pte_addr :: "mem \<Rightarrow> u32 \<Rightarrow> u32" where
  "pte_addr m va = frame (pde m va) + 4 * pti va"

definition pte :: "mem \<Rightarrow> u32 \<Rightarrow> u32" where
  "pte m va = phys m (pte_addr m va)"

text \<open>
  \<open>walk m bits va\<close>: the physical address of \<open>va\<close> when both levels have all of
  \<open>bits\<close> set: 1 for a read in ring 0, 3 for a write in ring 0 (\<open>CR0.WP\<close>), 5 and 7 for a
  read and a write in ring 3.
\<close>

definition walk :: "mem \<Rightarrow> u32 \<Rightarrow> u32 \<Rightarrow> u32 option" where
  "walk m bits va =
     (if pde m va AND bits = bits \<and> pte m va AND bits = bits
      then Some (frame (pte m va) + offset va) else None)"

abbreviation (input) translate :: "mem \<Rightarrow> u32 \<Rightarrow> u32 option" where
  "translate m va \<equiv> walk m 1 va"

text \<open>
  Dword accesses of kernel code at 4-aligned virtual addresses. An access the walk refuses
  is a page fault, and the handler in \<open>exceptionx86.c\<close> panics on a fault in kernel mode.
\<close>

definition vread32 :: "mem \<Rightarrow> u32 \<Rightarrow> u32 res" where
  "vread32 m va =
     (case walk m 1 va of None \<Rightarrow> Inl (Panic ''Page Fault'') | Some pa \<Rightarrow> Inr (phys m pa))"

definition vwrite32 :: "mem \<Rightarrow> u32 \<Rightarrow> u32 \<Rightarrow> mem res" where
  "vwrite32 m va x =
     (case walk m 3 va of None \<Rightarrow> Inl (Panic ''Page Fault'')
      | Some pa \<Rightarrow> Inr (m\<lparr>phys := (phys m)(pa := x)\<rparr>))"

text \<open>\<open>memset(va, 0, 4 * n)\<close> on \<open>n\<close> dwords.\<close>

primrec vzero :: "mem \<Rightarrow> u32 \<Rightarrow> nat \<Rightarrow> mem res" where
  "vzero m va 0 = Inr m"
| "vzero m va (Suc n) = rbind (vwrite32 m va 0) (\<lambda>m. vzero m (va + 4) n)"

lemma walk_mono: "walk m 3 va = Some pa \<Longrightarrow> walk m 1 va = Some pa"
proof -
  have "e AND 1 = 1" if "e AND 3 = 3" for e :: u32
  proof -
    have "e AND (3 AND 1) = 3 AND 1" by (simp only: that flip: and.assoc)
    then show ?thesis by simp
  qed
  then show "walk m 3 va = Some pa \<Longrightarrow> walk m 1 va = Some pa"
    by (auto simp: walk_def split: if_splits)
qed

subsection \<open>The recursive mapping\<close>

text \<open>
  The last directory entry of every address space points to the directory itself
  (\<open>boot.S\<close>, \<open>sched_set_cr3\<close>). Then \<open>0xFFFFF000\<close> shows the directory and
  \<open>0xFFC00000\<close> all page tables, one after the other.
\<close>

definition PD :: u32 where "PD = 0xFFFFF000"

definition PT :: u32 where "PT = 0xFFC00000"

definition self_mapped :: "mem \<Rightarrow> bool" where
  "self_mapped m \<longleftrightarrow>
     frame (phys m (frame (cr3 m) + 4092)) = frame (cr3 m) \<and>
     phys m (frame (cr3 m) + 4092) AND 3 = 3"

lemma pdi_less: "unat (pdi va) < 1024"
  using unat_u32_less [of va] unfolding unat_pdi by (rule less_mult_imp_div_less [OF order.strict_trans2]) simp

lemma pti_less: "unat (pti va) < 1024"
  by (simp add: unat_pti)

lemma unat_times4: "unat (i :: u32) < 1024 \<Longrightarrow> unat (4 * i) = 4 * unat i"
  by (simp add: unat_word_ariths)

lemma unat_offset_less: "unat (offset va) < 4096"
  by (simp add: unat_offset)

lemma page_split:
  assumes "unat va = 4096 * k + r" "r < 4096"
  shows "unat (pdi va) = k div 1024" "unat (pti va) = k mod 1024" "unat (offset va) = r"
proof -
  have k: "unat va div 4096 = k" and r: "unat va mod 4096 = r" using assms by simp_all
  have "unat va div 4194304 = unat va div 4096 div 1024"
    by (simp flip: div_mult2_eq)
  with k r show "unat (pdi va) = k div 1024" "unat (pti va) = k mod 1024" "unat (offset va) = r"
    by (simp_all add: unat_pdi unat_pti unat_offset)
qed

lemma unat_PD_entry:
  assumes "unat (i :: u32) < 1024"
  shows "unat (PD + 4 * i) = 4096 * 1048575 + 4 * unat i"
proof -
  have "aligned PD" by (simp add: aligned_iff PD_def)
  then show ?thesis
    using assms unat_plus_small [of PD "4 * i"] by (simp add: unat_times4 PD_def)
qed

lemma unat_PT_entry:
  assumes "unat (i :: u32) < 1024" "unat (j :: u32) < 1024"
  shows "unat (PT + 0x1000 * i + 4 * j) = 4096 * (1047552 + unat i) + 4 * unat j"
proof -
  have i: "unat (0x1000 * i) = 4096 * unat i" using assms(1) by (simp add: unat_word_ariths)
  have "unat (PT + 0x1000 * i) = (4290772992 + unat (0x1000 * i)) mod 4294967296"
    by (subst unat_word_ariths(1)) (simp add: PT_def)
  with i assms(1) have b: "unat (PT + 0x1000 * i) = 4096 * (1047552 + unat i)" by simp
  then have "aligned (PT + 0x1000 * i)" by (simp add: aligned_iff)
  then show ?thesis
    using assms(2) b unat_plus_small [of "PT + 0x1000 * i" "4 * j"] by (simp add: unat_times4)
qed

lemma PD_entry:
  assumes "unat (i :: u32) < 1024"
  shows "pdi (PD + 4 * i) = 1023" "pti (PD + 4 * i) = 1023" "offset (PD + 4 * i) = 4 * i"
  using assms page_split [OF unat_PD_entry [OF assms]]
  by (simp_all add: word_unat_eq_iff unat_times4)

lemma PT_entry:
  assumes "unat (i :: u32) < 1024" "unat (j :: u32) < 1024"
  shows "pdi (PT + 0x1000 * i + 4 * j) = 1023" "pti (PT + 0x1000 * i + 4 * j) = i"
    "offset (PT + 0x1000 * i + 4 * j) = 4 * j"
proof -
  have "(1047552 + a) div 1024 = 1023" "(1047552 + a) mod 1024 = a" if "a < 1024" for a :: nat
  proof -
    have e: "1047552 + a = 1024 * 1023 + a" by simp
    have "(1047552 + a) mod 1024 = (1047552 mod 1024 + a) mod 1024"
      by (rule mod_add_left_eq [symmetric])
    with that show "(1047552 + a) mod 1024 = a" by simp
    show "(1047552 + a) div 1024 = 1023" unfolding e using that by simp
  qed
  from this [OF assms(1)] show "pdi (PT + 0x1000 * i + 4 * j) = 1023"
    "pti (PT + 0x1000 * i + 4 * j) = i" "offset (PT + 0x1000 * i + 4 * j) = 4 * j"
    using assms page_split [OF unat_PT_entry [OF assms]]
    by (simp_all add: word_unat_eq_iff unat_times4)
qed

lemma pde_addr_1023: "pdi va = 1023 \<Longrightarrow> pde_addr m va = frame (cr3 m) + 4092"
  by (simp add: pde_addr_def)

lemma bits_sub:
  assumes "b = 1 \<or> b = 3" "(e :: u32) AND 3 = 3"
  shows "e AND b = b"
proof -
  have "e AND (3 AND b) = 3 AND b" by (simp only: assms(2) flip: and.assoc)
  with assms(1) show ?thesis by auto
qed

lemma walk_PD:
  assumes "self_mapped m" "b = 1 \<or> b = 3"
  shows "walk m b (PD + 4 * pdi va) = Some (pde_addr m va)"
  using assms(1) pdi_less [of va] bits_sub [OF assms(2)]
  by (simp add: walk_def pte_def pte_addr_def pde_def pde_addr_def PD_entry self_mapped_def)

lemma walk_PT:
  assumes "self_mapped m" "b = 1 \<or> b = 3"
  shows "walk m b (PT + 0x1000 * pdi va + 4 * pti va) =
    (if pde m va AND b = b then Some (pte_addr m va) else None)"
  using assms(1) pdi_less [of va] pti_less [of va] bits_sub [OF assms(2)]
  by (simp add: walk_def pte_def pte_addr_def pde_def pde_addr_def PT_entry self_mapped_def)

lemma vread_PD: "self_mapped m \<Longrightarrow> vread32 m (PD + 4 * pdi va) = Inr (pde m va)"
  by (simp add: vread32_def walk_PD pde_def)

lemma vread_PT:
  "self_mapped m \<Longrightarrow> vread32 m (PT + 0x1000 * pdi va + 4 * pti va) =
    (if pde m va AND 1 = 1 then Inr (pte m va) else Inl (Panic ''Page Fault''))"
  by (simp add: vread32_def walk_PT pte_def)

lemma vwrite_PD:
  "self_mapped m \<Longrightarrow> vwrite32 m (PD + 4 * pdi va) x = Inr (m\<lparr>phys := (phys m)(pde_addr m va := x)\<rparr>)"
  by (simp add: vwrite32_def walk_PD)

lemma vwrite_PT:
  "self_mapped m \<Longrightarrow> vwrite32 m (PT + 0x1000 * pdi va + 4 * pti va) x =
    (if pde m va AND 3 = 3 then Inr (m\<lparr>phys := (phys m)(pte_addr m va := x)\<rparr>)
     else Inl (Panic ''Page Fault''))"
  by (simp add: vwrite32_def walk_PT)

end
