(* ===== verification/Pmm.thy ===== *)
theory Pmm
  imports Mem
begin

section \<open>The physical memory manager\<close>

text \<open>
  \<open>kernel/kernel/mem/pmm.c\<close>: the free page frames are a stack, an array of
  \<open>MAX_PAGES = 2^20\<close> frame addresses with a top index, filled at boot from the multiboot
  memory map. \<open>free_pages\<close> is the abstract view, the list of free frames with the next one
  to hand out last.
\<close>

definition MAX_PAGES :: nat where "MAX_PAGES = 1024 * 1024"

definition pmm_available :: "mem \<Rightarrow> nat" where
  "pmm_available m = pmem_stack_top m"

definition pmm_used :: "mem \<Rightarrow> u32" where
  "pmm_used m = (of_nat (pmem_stack_size m) + (kernel_end m - 0xC0000000) div 4096)
     - of_nat (pmem_stack_top m)"

definition pmm_used_alloc :: "mem \<Rightarrow> u32" where
  "pmm_used_alloc m = of_nat (pmem_stack_size m) - of_nat (pmem_stack_top m)"

definition pmm_alloc_page :: "mem \<Rightarrow> (u32 \<times> mem) res" where
  "pmm_alloc_page m =
     (if pmem_stack_top m = 0 then Inl (Panic ''Out of physical memory'')
      else if MAX_PAGES < pmem_stack_top m then Inl (Fault ''pmem_stack'')
      else let m = m\<lparr>pmem_stack_top := pmem_stack_top m - 1\<rparr> in
        Inr (pmem_stack m (pmem_stack_top m), m))"

definition pmm_free_page :: "mem \<Rightarrow> u32 \<Rightarrow> mem res" where
  "pmm_free_page m paddr =
     (if pmem_stack_top m < MAX_PAGES
      then Inr (m\<lparr>pmem_stack := (pmem_stack m)(pmem_stack_top m := paddr),
                  pmem_stack_top := pmem_stack_top m + 1\<rparr>)
      else Inl (Fault ''pmem_stack''))"

text \<open>
  \<open>pmm_init\<close>. The inner loop runs over the block in steps of a page, the outer one over the
  entries of the memory map, read from memory as the bootloader left it: \<open>size\<close>,
  \<open>addr_low\<close>, \<open>addr_high\<close>, \<open>len_low\<close>, \<open>len_high\<close>, \<open>type\<close>, 24 bytes. Both counters are
  unsigned ints; where one would wrap around the loop restarts and never ends in the source,
  which is a fault here.
\<close>

function pmm_init_block :: "mem \<Rightarrow> u32 \<Rightarrow> nat \<Rightarrow> nat \<Rightarrow> mem res" where
  "pmm_init_block m addr_low len_low j =
     (if j < len_low then
        rbind (if addr_low + of_nat j > kernel_end m - 0xC0000000
               then pmm_free_page m (addr_low + of_nat j) else Inr m) (\<lambda>m.
        if j + 4096 < 2 ^ 32 then pmm_init_block m addr_low len_low (j + 4096)
        else Inl (Fault ''pmm_init wraps around''))
      else Inr m)"
  by pat_completeness auto
termination by (relation "measure (\<lambda>(m, a, len, j). len - j)") auto

declare pmm_init_block.simps [simp del]

function pmm_init_map :: "mem \<Rightarrow> u32 \<Rightarrow> nat \<Rightarrow> nat \<Rightarrow> mem res" where
  "pmm_init_map m mmap_addr mmap_length i =
     (if i < mmap_length then
        let mmmt = mmap_addr + of_nat i + 0xC0000000 in
        rbind (vread32 m (mmmt + 20)) (\<lambda>type.
        rbind (if type = 1 then
                 rbind (vread32 m (mmmt + 4)) (\<lambda>addr_low.
                 rbind (vread32 m (mmmt + 12)) (\<lambda>len_low.
                 pmm_init_block m addr_low (unat len_low) 0))
               else Inr m) (\<lambda>m.
        if i + 24 < 2 ^ 32 then pmm_init_map m mmap_addr mmap_length (i + 24)
        else Inl (Fault ''pmm_init wraps around'')))
      else Inr m)"
  by pat_completeness auto
termination by (relation "measure (\<lambda>(m, a, len, i). len - i)") auto

declare pmm_init_map.simps [simp del]

definition pmm_init :: "mem \<Rightarrow> u32 \<Rightarrow> u32 \<Rightarrow> mem res" where
  "pmm_init m mmap_addr mmap_length =
     rbind (pmm_init_map m mmap_addr (unat mmap_length) 0) (\<lambda>m.
     Inr (m\<lparr>pmem_stack_size := pmem_stack_top m\<rparr>))"

subsection \<open>The allocator as a stack of frames\<close>

definition free_pages :: "mem \<Rightarrow> u32 list" where
  "free_pages m = map (pmem_stack m) [0..<pmem_stack_top m]"

text \<open>Everything but the allocator's own variables is left alone.\<close>

definition same_memory :: "mem \<Rightarrow> mem \<Rightarrow> bool" where
  "same_memory m m' \<longleftrightarrow> phys m' = phys m \<and> cr3 m' = cr3 m \<and>
     end_mapped_kmemory m' = end_mapped_kmemory m \<and> kernel_end m' = kernel_end m"

lemma length_free_pages [simp]: "length (free_pages m) = pmem_stack_top m"
  by (simp add: free_pages_def)

lemma free_pages_cong:
  "pmem_stack m' = pmem_stack m \<Longrightarrow> pmem_stack_top m' = pmem_stack_top m \<Longrightarrow> free_pages m' = free_pages m"
  by (simp add: free_pages_def)

lemma same_memory_refl [simp]: "same_memory m m"
  by (simp add: same_memory_def)

lemma same_memory_trans: "same_memory a b \<Longrightarrow> same_memory b c \<Longrightarrow> same_memory a c"
  by (simp add: same_memory_def)

lemma walk_cong: "phys m' = phys m \<Longrightarrow> cr3 m' = cr3 m \<Longrightarrow> walk m' b va = walk m b va"
  by (simp add: walk_def pte_def pte_addr_def pde_def pde_addr_def)

lemma pmm_alloc_page_Inr:
  assumes "pmm_alloc_page m = Inr (p, m')"
  shows "free_pages m = free_pages m' @ [p]" "same_memory m m'"
    "pmem_stack_top m = Suc (pmem_stack_top m')" "pmem_stack_size m' = pmem_stack_size m"
  using assms
  by (auto simp: pmm_alloc_page_def Let_def free_pages_def same_memory_def split: if_splits
      simp flip: upt_Suc_append)
    (cases "pmem_stack_top m"; simp)+

lemma pmm_alloc_page_ok:
  "0 < pmem_stack_top m \<Longrightarrow> pmem_stack_top m \<le> MAX_PAGES \<Longrightarrow>
   pmm_alloc_page m = Inr (last (free_pages m), m\<lparr>pmem_stack_top := pmem_stack_top m - 1\<rparr>)"
  by (simp add: pmm_alloc_page_def Let_def free_pages_def last_map)

lemma pmm_free_page_Inr:
  "pmm_free_page m p = Inr m' \<Longrightarrow> free_pages m' = free_pages m @ [p] \<and> same_memory m m' \<and>
     pmem_stack_top m' = Suc (pmem_stack_top m) \<and> pmem_stack_size m' = pmem_stack_size m"
  by (auto simp: pmm_free_page_def free_pages_def same_memory_def split: if_splits)

lemma pmm_free_page_ok: "ok (pmm_free_page m p) \<longleftrightarrow> pmem_stack_top m < MAX_PAGES"
  by (simp add: pmm_free_page_def)

subsection \<open>The pages the boot memory map gives\<close>

text \<open>The frames of one available block, in the order they are pushed.\<close>

definition block_pages :: "u32 \<Rightarrow> u32 \<Rightarrow> nat \<Rightarrow> nat \<Rightarrow> u32 list" where
  "block_pages kend addr_low len_low j =
     filter (\<lambda>p. kend < p) (map (\<lambda>k. addr_low + of_nat (j + 4096 * k)) [0..<(len_low - j + 4095) div 4096])"

lemma block_pages_end: "len \<le> j \<Longrightarrow> block_pages kend a len j = []"
  by (simp add: block_pages_def)

lemma block_pages_step:
  assumes "j < len"
  shows "block_pages kend a len j =
    (if kend < a + of_nat j then [a + of_nat j] else []) @ block_pages kend a len (j + 4096)"
proof -
  have "(len - j + 4095) div 4096 = Suc ((len - (j + 4096) + 4095) div 4096)"
  proof (cases "len - j \<le> 4096")
    case True
    then have "len - (j + 4096) = 0" "len - j + 4095 = 4096 * 1 + (len - j - 1)" "len - j - 1 < 4096"
      using assms by simp_all
    then show ?thesis by (simp only:) simp
  next
    case False
    have "len - j + 4095 = (len - (j + 4096) + 4095) + 4096" using False by simp
    then show ?thesis by (simp only: div_add_self2)
  qed
  moreover have "map (\<lambda>k. a + of_nat (j + 4096 * k)) [0..<Suc n] =
      (a + of_nat j) # map (\<lambda>k. a + of_nat (j + 4096 + 4096 * k)) [0..<n]" for n
    by (simp add: upt_rec [of 0] map_Suc_upt [symmetric] algebra_simps del: upt_Suc)
  ultimately show ?thesis
    unfolding block_pages_def by (simp only: filter.simps if_True if_False split: if_split) simp
qed

lemma pmm_init_block_Inr:
  assumes "pmm_init_block m a len j = Inr m'"
  shows "free_pages m' = free_pages m @ block_pages (kernel_end m - 0xC0000000) a len j \<and>
    same_memory m m'"
  using assms
proof (induction m a len j rule: pmm_init_block.induct)
  case (1 m a len j)
  let ?p = "a + of_nat j"
  show ?case
  proof (cases "j < len")
    case False
    with "1.prems" show ?thesis by (simp add: pmm_init_block.simps block_pages_end)
  next
    case True
    from "1.prems" True obtain m1 where m1:
      "(if kernel_end m - 0xC0000000 < ?p then pmm_free_page m ?p else Inr m) = Inr m1"
      "pmm_init_block m1 a len (j + 4096) = Inr m'" "j + 4096 < 2 ^ 32"
      by (subst (asm) pmm_init_block.simps) (auto simp: rbind_eq_Inr split: if_splits)
    have step: "free_pages m1 = free_pages m @ (if kernel_end m - 0xC0000000 < ?p then [?p] else [])"
      "same_memory m m1"
      using m1(1) pmm_free_page_Inr [of m ?p m1] by (auto split: if_splits)
    from "1.IH" [OF True m1(1) m1(3) m1(2)] step
    show ?thesis
      using True by (auto simp: block_pages_step same_memory_def)
  qed
qed

text \<open>
  The map, read entry by entry. The entries of type 1 give their blocks; filling the stack
  does not change memory, so all entries are read from the memory the bootloader left.
\<close>

function map_pages :: "mem \<Rightarrow> u32 \<Rightarrow> nat \<Rightarrow> nat \<Rightarrow> u32 list" where
  "map_pages m mmap_addr len i =
     (if i < len then
        let mmmt = mmap_addr + of_nat i + 0xC0000000;
            rd = (\<lambda>a. case vread32 m a of Inr x \<Rightarrow> x | Inl e \<Rightarrow> 0) in
        (if rd (mmmt + 20) = 1
         then block_pages (kernel_end m - 0xC0000000) (rd (mmmt + 4)) (unat (rd (mmmt + 12))) 0
         else []) @ map_pages m mmap_addr len (i + 24)
      else [])"
  by pat_completeness auto
termination by (relation "measure (\<lambda>(m, a, len, i). len - i)") auto

declare map_pages.simps [simp del]

lemma vread32_cong: "same_memory m m' \<Longrightarrow> vread32 m' a = vread32 m a"
  by (auto simp: vread32_def same_memory_def walk_cong [of m' m] split: option.splits)

lemma map_pages_cong: "same_memory m m' \<Longrightarrow> map_pages m' a len i = map_pages m a len i"
proof (induction m a len i rule: map_pages.induct)
  case (1 m a len i)
  then show ?case
    by (subst (1 2) map_pages.simps) (simp add: vread32_cong Let_def, simp add: same_memory_def)
qed

lemma pmm_init_map_Inr:
  assumes "pmm_init_map m a len i = Inr m'"
  shows "free_pages m' = free_pages m @ map_pages m a len i \<and> same_memory m m'"
  using assms
proof (induction m a len i rule: pmm_init_map.induct)
  case (1 m a len i)
  let ?e = "a + of_nat i + 0xC0000000"
  show ?case
  proof (cases "i < len")
    case False
    with "1.prems" show ?thesis by (simp add: pmm_init_map.simps map_pages.simps)
  next
    case True
    from "1.prems" True obtain ty m1 where ty: "vread32 m (?e + 20) = Inr ty" and
      m1: "(if ty = 1 then rbind (vread32 m (?e + 4)) (\<lambda>addr_low.
             rbind (vread32 m (?e + 12)) (\<lambda>len_low. pmm_init_block m addr_low (unat len_low) 0))
            else Inr m) = Inr m1" and
      rest: "pmm_init_map m1 a len (i + 24) = Inr m'" "i + 24 < 2 ^ 32"
      by (subst (asm) pmm_init_map.simps) (auto simp: rbind_eq_Inr Let_def split: if_splits)
    have step: "free_pages m1 = free_pages m @ (if ty = 1 then
          block_pages (kernel_end m - 0xC0000000) (case vread32 m (?e + 4) of Inr x \<Rightarrow> x | Inl e \<Rightarrow> 0)
            (unat (case vread32 m (?e + 12) of Inr x \<Rightarrow> x | Inl e \<Rightarrow> 0)) 0 else []) \<and> same_memory m m1"
      using m1 by (auto simp: rbind_eq_Inr dest: pmm_init_block_Inr split: if_splits)
    have IH: "free_pages m' = free_pages m1 @ map_pages m1 a len (i + 24) \<and> same_memory m1 m'"
      using "1.IH" [OF True refl ty m1 rest(2) rest(1)] .
    have "map_pages m1 a len (i + 24) = map_pages m a len (i + 24)"
      using step by (simp add: map_pages_cong)
    moreover have "same_memory m m'" using step IH by (auto intro: same_memory_trans)
    ultimately show ?thesis
      using IH step True ty by (simp add: map_pages.simps [of m a len i] Let_def)
  qed
qed

lemma map_pages_above: "p \<in> set (map_pages m a len i) \<Longrightarrow> kernel_end m - 0xC0000000 < p"
proof (induction m a len i rule: map_pages.induct)
  case (1 m a len i)
  then show ?case
    by (subst (asm) map_pages.simps) (auto simp: Let_def block_pages_def split: if_splits)
qed

subsection \<open>The allocator's contract\<close>

text \<open>
  What the virtual memory manager relies on: frames are handed out and taken back last in,
  first out. \<open>frames\<close> is the abstract list of free frames, \<open>cap\<close> the capacity of the
  array behind it.
\<close>

locale frame_stack =
  fixes alloc :: "'m \<Rightarrow> (u32 \<times> 'm) res"
    and free :: "'m \<Rightarrow> u32 \<Rightarrow> 'm res"
    and frames :: "'m \<Rightarrow> u32 list"
    and cap :: nat
  assumes alloc_pops: "alloc m = Inr (p, m') \<Longrightarrow> frames m = frames m' @ [p]"
    and free_pushes: "free m p = Inr m' \<Longrightarrow> frames m' = frames m @ [p]"
    and alloc_returns: "frames m \<noteq> [] \<Longrightarrow> length (frames m) \<le> cap \<Longrightarrow> ok (alloc m)"
    and free_returns: "length (frames m) < cap \<Longrightarrow> ok (free m p)"
begin

lemma free_then_alloc:
  assumes "free m p = Inr m1" "alloc m1 = Inr (q, m2)"
  shows "q = p \<and> frames m2 = frames m"
  using free_pushes [OF assms(1)] alloc_pops [OF assms(2)] by simp

lemma alloc_then_free:
  assumes "alloc m = Inr (p, m1)" "free m1 p = Inr m2"
  shows "frames m2 = frames m"
  using alloc_pops [OF assms(1)] free_pushes [OF assms(2)] by simp

lemma alloc_distinct:
  assumes "alloc m = Inr (p, m')" "distinct (frames m)"
  shows "p \<in> set (frames m)" "p \<notin> set (frames m')" "distinct (frames m')"
  using alloc_pops [OF assms(1)] assms(2) by auto

lemma free_distinct:
  assumes "free m p = Inr m'" "distinct (frames m)" "p \<notin> set (frames m)"
  shows "distinct (frames m')"
  using free_pushes [OF assms(1)] assms(2,3) by simp

lemma free_alloc_returns:
  assumes "length (frames m) < cap"
  shows "\<exists>m1 q m2. free m p = Inr m1 \<and> alloc m1 = Inr (q, m2)"
proof -
  obtain m1 where m1: "free m p = Inr m1" using free_returns [OF assms] by (auto simp: ok_iff)
  then have "frames m1 = frames m @ [p]" by (rule free_pushes)
  then have "ok (alloc m1)" using assms by (intro alloc_returns) auto
  with m1 show ?thesis by (auto simp: ok_iff)
qed

end

interpretation pmm: frame_stack pmm_alloc_page pmm_free_page free_pages MAX_PAGES
proof
  show "free_pages m = free_pages m' @ [p]" if "pmm_alloc_page m = Inr (p, m')" for m p m'
    using that by (rule pmm_alloc_page_Inr)
  show "free_pages m' = free_pages m @ [p]" if "pmm_free_page m p = Inr m'" for m p m'
    using pmm_free_page_Inr [OF that] by simp
  show "ok (pmm_alloc_page m)" if "free_pages m \<noteq> []" "length (free_pages m) \<le> MAX_PAGES" for m
    using that by (simp add: pmm_alloc_page_def Let_def) (simp add: free_pages_def)
  show "ok (pmm_free_page m p)" if "length (free_pages m) < MAX_PAGES" for m p
    using that by (simp add: pmm_free_page_ok)
qed

section \<open>Properties\<close>

text \<open>
  A machine for the witnesses: the directory in frame \<open>0x1000\<close> maps itself and the page at
  \<open>0xC0000000\<close>, where the bootloader left a memory map of one available block of two pages.
\<close>

definition boot_mem :: mem where
  "boot_mem = \<lparr>phys = (\<lambda>_. 0)(0x1FFC := 0x1003, 0x1C00 := 0x2003, 0x2000 := 0x5003,
       0x5004 := 0x100000, 0x500C := 0x2000, 0x5014 := 1),
     cr3 = 0x1000, pmem_stack = (\<lambda>_. 0), pmem_stack_top = 0, pmem_stack_size = 0,
     end_mapped_kmemory = 0xC0C00000, kernel_end = 0xC0010000\<rparr>"


lemma boot_mem_map: "pmm_init boot_mem 0 24 = Inr (boot_mem\<lparr>
    pmem_stack := (\<lambda>_. 0)(0 := 0x100000, 1 := 0x101000), pmem_stack_top := 2, pmem_stack_size := 2\<rparr>)"
  by (simp add: pmm_init_def pmm_init_map.simps pmm_init_block.simps pmm_free_page_def MAX_PAGES_def
      boot_mem_def vread32_def walk_def pte_def pte_addr_def pde_def pde_addr_def pdi_def pti_def
      frame_def offset_def Let_def drop_bit_word_numeral fun_upd_twist)


text \<open>
  The frame allocator is last in, first out and never hands out a frame that is still
  free: a frame given back to a free list without duplicates is accepted as long as the array
  has room, is the next frame allocated, and is then no longer in the free list, which is as
  before.
\<close>

theorem pmm_free_alloc:
  assumes "length (free_pages m) < MAX_PAGES" "distinct (free_pages m)" "p \<notin> set (free_pages m)"
  shows "\<exists>m1 m2. pmm_free_page m p = Inr m1 \<and> distinct (free_pages m1) \<and>
    pmm_alloc_page m1 = Inr (p, m2) \<and> free_pages m2 = free_pages m \<and> p \<notin> set (free_pages m2)"
proof -
  obtain m1 q m2 where "pmm_free_page m p = Inr m1" "pmm_alloc_page m1 = Inr (q, m2)"
    using pmm.free_alloc_returns [OF assms(1)] by blast
  then show ?thesis
    using pmm.free_then_alloc pmm.free_distinct [OF _ assms(2,3)] assms(3) by metis
qed

lemma pmm_free_alloc_witness:
  "\<exists>m1 m2. pmm_free_page boot_mem 0x7000 = Inr m1 \<and> distinct (free_pages m1) \<and>
    pmm_alloc_page m1 = Inr (0x7000, m2) \<and> free_pages m2 = [] \<and> (0x7000 :: u32) \<notin> set (free_pages m2)"
proof -
  have "free_pages boot_mem = []" by (simp add: free_pages_def boot_mem_def)
  then show ?thesis using pmm_free_alloc [of boot_mem "0x7000"] by (simp add: MAX_PAGES_def)
qed

end
