(* ===== verification/Vmm.thy ===== *)
theory Vmm
  imports Pmm
begin

section \<open>The virtual memory manager\<close>

text \<open>
  \<open>kernel/kernel/mem/vmm.c\<close> and the page-level back end of the kernel heap,
  \<open>liballoc-vmm.c\<close>. All page-table accesses go through the recursive mapping, so they are
  virtual accesses that may fault. \<open>vmm_map_page\<close> takes a page for a missing page table from
  \<open>liballoc_alloc(1)\<close>, which maps that page with \<open>vmm_map_page\<close> again: the recursion is
  bounded by fuel, and \<open>map_page_enough_fuel\<close> shows that one level more than the number of
  free frames is enough, as every level takes a frame.

  Pointers are 32-bit addresses, \<open>0\<close> is \<open>NULL\<close>.
\<close>

definition KERNEL_START :: u32 where "KERNEL_START = 0xC0000000"

definition pd_entry :: "u32 \<Rightarrow> u32" where
  "pd_entry va = PD + 4 * pdi va"

definition pt_entry :: "u32 \<Rightarrow> u32" where
  "pt_entry va = PT + 0x1000 * pdi va + 4 * pti va"

definition vmm_get_physaddr :: "mem \<Rightarrow> u32 \<Rightarrow> u32 res" where
  "vmm_get_physaddr m va =
     rbind (vread32 m (pd_entry va)) (\<lambda>d.
     if d AND 1 = 0 then Inr 0
     else rbind (vread32 m (pt_entry va)) (\<lambda>t.
       if t AND 1 = 0 then Inr 0 else Inr (frame t + offset va)))"

text \<open>The loop of \<open>vmm_user_range_writable\<close>: an address space has \<open>2^20\<close> pages.\<close>

fun range_loop :: "nat \<Rightarrow> mem \<Rightarrow> u32 \<Rightarrow> u32 \<Rightarrow> bool res" where
  "range_loop 0 m page stop_page = Inl (Fault ''vmm_user_range_writable: fuel'')"
| "range_loop (Suc n) m page stop_page =
     rbind (vread32 m (pd_entry page)) (\<lambda>d.
     if d AND 7 \<noteq> 7 then Inr False
     else rbind (vread32 m (pt_entry page)) (\<lambda>t.
       if t AND 7 \<noteq> 7 then Inr False
       else if page = stop_page then Inr True
       else range_loop n m (page + 0x1000) stop_page))"

definition vmm_user_range_writable :: "mem \<Rightarrow> u32 \<Rightarrow> u32 \<Rightarrow> bool res" where
  "vmm_user_range_writable m va sz =
     (if sz = 0 then Inr True
      else if va \<ge> KERNEL_START then Inr False
      else if sz > KERNEL_START - va then Inr False
      else range_loop (2 ^ 20) m (frame va) (frame (va + sz - 1)))"

text \<open>
  The loop of \<open>vmm_map_pages_k\<close>, over the page mapper it calls: \<open>False\<close> for the early
  return of \<open>NULL\<close>.
\<close>

type_synonym mapper = "mem \<Rightarrow> u32 \<Rightarrow> u32 \<Rightarrow> u32 \<Rightarrow> bool \<Rightarrow> (int \<times> mem) res"

primrec map_k_loop :: "mapper \<Rightarrow> mem \<Rightarrow> u32 list \<Rightarrow> (bool \<times> mem) res" where
  "map_k_loop mp m [] = Inr (True, m)"
| "map_k_loop mp m (p # pages) =
     rbind (mp m p (end_mapped_kmemory m) 0x3 False) (\<lambda>(r, m).
     if r = -1 then Inr (False, m)
     else let m = m\<lparr>end_mapped_kmemory := end_mapped_kmemory m + 0x1000\<rparr> in
       if end_mapped_kmemory m \<ge> 0xFFC00000 then Inl (Panic ''Out of virtual memory'')
       else map_k_loop mp m pages)"

definition map_pages_k_with :: "mapper \<Rightarrow> mem \<Rightarrow> u32 list \<Rightarrow> (u32 \<times> mem) res" where
  "map_pages_k_with mp m pages =
     (let startblock = end_mapped_kmemory m in
      rbind (map_k_loop mp m pages) (\<lambda>(done, m). Inr (if done then startblock else 0, m)))"

text \<open>\<open>liballoc_alloc\<close> up to 1024 pages: take the frames, then map them.\<close>

primrec alloc_frames :: "mem \<Rightarrow> nat \<Rightarrow> (u32 list \<times> mem) res" where
  "alloc_frames m 0 = Inr ([], m)"
| "alloc_frames m (Suc n) =
     rbind (pmm_alloc_page m) (\<lambda>(p, m).
     rbind (alloc_frames m n) (\<lambda>(ps, m). Inr (p # ps, m)))"

definition alloc_with :: "mapper \<Rightarrow> mem \<Rightarrow> nat \<Rightarrow> (u32 \<times> mem) res" where
  "alloc_with mp m pages =
     (if pages < 1 then Inr (0, m)
      else rbind (alloc_frames m pages) (\<lambda>(addr, m). map_pages_k_with mp m addr))"

primrec map_page_fuel :: "nat \<Rightarrow> mapper" where
  "map_page_fuel 0 m physaddr va flags overwrite = Inl (Fault ''vmm_map_page: fuel'')"
| "map_page_fuel (Suc n) m physaddr va flags overwrite =
     rbind (vread32 m (pd_entry va)) (\<lambda>d.
     rbind (if d AND 1 = 0 then
              rbind (alloc_with (map_page_fuel n) m 1) (\<lambda>(newptaddr, m).
              rbind (vzero m newptaddr 1024) (\<lambda>m.
              rbind (vmm_get_physaddr m newptaddr) (\<lambda>p.
              vwrite32 m (pd_entry va) (p OR 0x7))))
            else Inr m) (\<lambda>m.
     rbind (vread32 m (pt_entry va)) (\<lambda>t.
     if t AND 1 = 1 \<and> \<not> overwrite then Inr (-1, m)
     else rbind (vwrite32 m (pt_entry va) (physaddr OR (flags AND 0xFFF) OR 1)) (\<lambda>m.
       Inr (0, m)))))"

definition vmm_map_page :: mapper where
  "vmm_map_page m = map_page_fuel (Suc (pmem_stack_top m)) m"

definition vmm_map_pages_k :: "mem \<Rightarrow> u32 list \<Rightarrow> (u32 \<times> mem) res" where
  "vmm_map_pages_k m pages = map_pages_k_with vmm_map_page m pages"

definition liballoc_alloc_1024 :: "mem \<Rightarrow> nat \<Rightarrow> (u32 \<times> mem) res" where
  "liballoc_alloc_1024 m pages = alloc_with vmm_map_page m pages"

text \<open>More than 1024 pages: chunks of 1024 one after the other, then the remainder.\<close>

primrec alloc_chunks :: "mem \<Rightarrow> nat \<Rightarrow> mem res" where
  "alloc_chunks m 0 = Inr m"
| "alloc_chunks m (Suc n) = rbind (liballoc_alloc_1024 m 1024) (\<lambda>(p, m). alloc_chunks m n)"

definition liballoc_alloc :: "mem \<Rightarrow> nat \<Rightarrow> (u32 \<times> mem) res" where
  "liballoc_alloc m pages =
     (if pages > 1024 then
        rbind (liballoc_alloc_1024 m 1024) (\<lambda>(start, m).
        rbind (alloc_chunks m (pages div 1024 - 1)) (\<lambda>m.
        rbind (liballoc_alloc_1024 m (pages mod 1024)) (\<lambda>(p, m). Inr (start, m))))
      else liballoc_alloc_1024 m pages)"

definition vmm_unmap_page :: "mem \<Rightarrow> u32 \<Rightarrow> (int \<times> mem) res" where
  "vmm_unmap_page m va =
     rbind (vread32 m (pd_entry va)) (\<lambda>d.
     if d AND 1 = 0 then Inr (0, m)
     else rbind (vread32 m (pt_entry va)) (\<lambda>t.
       if t AND 1 = 0 then Inr (0, m)
       else rbind (vwrite32 m (pt_entry va) 0) (\<lambda>m. Inr (1, m))))"

primrec free_loop :: "mem \<Rightarrow> u32 \<Rightarrow> nat \<Rightarrow> (int \<times> mem) res" where
  "free_loop m addr 0 = Inr (0, m)"
| "free_loop m addr (Suc n) =
     rbind (vmm_get_physaddr m addr) (\<lambda>physaddr.
     if physaddr = 0 then Inr (1, m)
     else rbind (pmm_free_page m physaddr) (\<lambda>m.
       rbind (vmm_unmap_page m addr) (\<lambda>(r, m).
       if r = 0 then Inr (1, m) else free_loop m (addr + 0x1000) n)))"

definition liballoc_free :: "mem \<Rightarrow> u32 \<Rightarrow> nat \<Rightarrow> (int \<times> mem) res" where
  "liballoc_free m addr pages = free_loop m addr pages"

text \<open>The heap lock of \<open>liballoc-vmm.c\<close>: the returned number and the lock variable.\<close>

definition liballoc_lock :: "bool \<Rightarrow> int \<times> bool" where
  "liballoc_lock lock = (if \<not> lock then (0, True) else (1, lock))"

definition liballoc_unlock :: "bool \<Rightarrow> int \<times> bool" where
  "liballoc_unlock lock = (if lock then (0, False) else (1, lock))"

text \<open>
  \<open>vmm_map_pages_u\<close> maps at the program break of a process and goes on after a failure;
  the result is the start of the block or \<open>NULL\<close>, and the new break.
\<close>

primrec map_u_loop :: "mem \<Rightarrow> u32 \<Rightarrow> u32 \<Rightarrow> u32 list \<Rightarrow> (u32 \<times> u32 \<times> mem) res" where
  "map_u_loop m startblock pgbrk [] = Inr (startblock, pgbrk, m)"
| "map_u_loop m startblock pgbrk (p # pages) =
     rbind (vmm_map_page m p pgbrk 0x7 False) (\<lambda>(r, m).
     let startblock = (if r = -1 then 0 else startblock);
         pgbrk = pgbrk + 0x1000;
         startblock = (if pgbrk \<ge> 0xC0000000 then 0 else startblock) in
     map_u_loop m startblock pgbrk pages)"

definition vmm_map_pages_u :: "mem \<Rightarrow> u32 list \<Rightarrow> u32 \<Rightarrow> (u32 \<times> u32 \<times> mem) res" where
  "vmm_map_pages_u m pages pgbrk = map_u_loop m pgbrk pgbrk pages"

primrec map_loc_loop :: "mem \<Rightarrow> u32 list \<Rightarrow> u32 \<Rightarrow> u32 \<Rightarrow> (bool \<times> mem) res" where
  "map_loc_loop m [] loc flags = Inr (True, m)"
| "map_loc_loop m (p # pages) loc flags =
     rbind (vmm_map_page m p loc flags False) (\<lambda>(r, m).
     if r = -1 then Inr (False, m)
     else if loc + 0x1000 \<ge> 0xFFC00000 then Inr (False, m)
     else map_loc_loop m pages (loc + 0x1000) flags)"

definition vmm_map_pages_loc :: "mem \<Rightarrow> u32 list \<Rightarrow> u32 \<Rightarrow> u32 \<Rightarrow> (u32 \<times> mem) res" where
  "vmm_map_pages_loc m pages loc flags =
     rbind (map_loc_loop m pages loc flags) (\<lambda>(done, m). Inr (if done then loc else 0, m))"

text \<open>The page table of a thread's stack: the pointer stored in \<open>thread->stackpt\<close>.\<close>

definition vmm_map_stack :: "mem \<Rightarrow> (u32 \<times> mem) res" where
  "vmm_map_stack m =
     rbind (liballoc_alloc m 1) (\<lambda>(newptaddr, m).
     rbind (vzero m newptaddr 1024) (\<lambda>m. Inr (newptaddr, m)))"

text \<open>\<open>vmm_switch_stack\<close>, on the directory of the thread's process and the thread's fields.\<close>

definition vmm_switch_stack :: "mem \<Rightarrow> u32 \<Rightarrow> u32 \<Rightarrow> u32 \<Rightarrow> mem res" where
  "vmm_switch_stack m cr3_virt stackpdi stackpt =
     rbind (vmm_get_physaddr m stackpt) (\<lambda>p.
     vwrite32 m (cr3_virt + 4 * stackpdi) (p OR 0x7))"

text \<open>\<open>vmm_init\<close> enters the kernel page tables 3 to 254 at directory entries 771 to 1022.\<close>

primrec vmm_init_loop :: "mem \<Rightarrow> u32 \<Rightarrow> nat list \<Rightarrow> mem res" where
  "vmm_init_loop m pagetable [] = Inr m"
| "vmm_init_loop m pagetable (i # is) =
     rbind (vwrite32 m (PD + 4 * of_nat (i + 768)) (pagetable + 0x1000 * of_nat i + 0x3)) (\<lambda>m.
     vmm_init_loop m pagetable is)"

definition vmm_init :: "mem \<Rightarrow> u32 \<Rightarrow> mem res" where
  "vmm_init m pagetable = vmm_init_loop m pagetable [3..<255]"

subsection \<open>The code's walk is the MMU's walk\<close>

lemma and_1_cases: "(e :: u32) AND 1 = 0 \<longleftrightarrow> e AND 1 \<noteq> 1"
  by (simp add: and_one_eq odd_iff_mod_2_eq_one)

lemma pd_read: "self_mapped m \<Longrightarrow> vread32 m (pd_entry va) = Inr (pde m va)"
  by (simp add: pd_entry_def vread_PD)

lemma pt_read: "self_mapped m \<Longrightarrow> pde m va AND 1 = 1 \<Longrightarrow> vread32 m (pt_entry va) = Inr (pte m va)"
  by (simp add: pt_entry_def vread_PT)

lemma get_physaddr_eq:
  assumes "self_mapped m"
  shows "vmm_get_physaddr m va = Inr (case walk m 1 va of None \<Rightarrow> 0 | Some pa \<Rightarrow> pa)"
proof (cases "pde m va AND 1 = 1")
  case True
  with assms show ?thesis
    by (simp add: vmm_get_physaddr_def pd_read pt_read walk_def and_1_cases)
next
  case False
  with assms show ?thesis
    by (simp add: vmm_get_physaddr_def pd_read walk_def and_1_cases)
qed

subsection \<open>User ranges\<close>

lemma and_7_1: "(e :: u32) AND 7 = 7 \<Longrightarrow> e AND 1 = 1"
proof -
  assume e: "e AND 7 = 7"
  have "e AND (7 AND 1) = 7 AND 1" by (simp only: e flip: and.assoc)
  then show ?thesis by simp
qed

text \<open>The user-writable bits of a page do not depend on the offset in the page.\<close>

lemma pdi_frame [simp]: "pdi (frame a) = pdi a"
proof -
  have "unat (frame a) = 4096 * (unat a div 4096) + 0"
    by (simp add: unat_frame minus_mod_eq_mult_div)
  from page_split [OF this] have "unat (pdi (frame a)) = unat a div 4096 div 1024" by simp
  then show ?thesis by (simp add: word_unat_eq_iff unat_pdi flip: div_mult2_eq)
qed

lemma pti_frame [simp]: "pti (frame a) = pti a"
proof -
  have "unat (frame a) = 4096 * (unat a div 4096) + 0"
    by (simp add: unat_frame minus_mod_eq_mult_div)
  from page_split [OF this] show ?thesis by (simp add: word_unat_eq_iff unat_pti)
qed

definition page_ok :: "mem \<Rightarrow> u32 \<Rightarrow> bool" where
  "page_ok m a \<longleftrightarrow> pde m a AND 7 = 7 \<and> pte m a AND 7 = 7"

lemma page_ok_frame [simp]: "page_ok m (frame a) = page_ok m a"
  by (simp add: page_ok_def pde_def pte_def pte_addr_def pde_addr_def)

lemma page_ok_walk: "page_ok m a \<longleftrightarrow> walk m 7 a \<noteq> None"
  by (simp add: page_ok_def walk_def)

lemma range_loop_eq:
  assumes "self_mapped m" "k < n" "k < 2 ^ 20"
  shows "range_loop n m page (page + 0x1000 * of_nat k) =
    Inr (\<forall>i\<le>k. page_ok m (page + 0x1000 * of_nat i))"
  using assms(2,3)
proof (induction k arbitrary: page n)
  case 0
  then obtain n' where n: "n = Suc n'" by (cases n) auto
  show ?case
    using assms(1) and_7_1 [of "pde m page"]
    by (auto simp: n pd_read pt_read page_ok_def)
next
  case (Suc k)
  then obtain n' where n: "n = Suc n'" "k < n'" by (cases n) auto
  have ne: "page \<noteq> page + 0x1000 * of_nat (Suc k)"
  proof
    assume "page = page + 0x1000 * of_nat (Suc k)"
    then have "0x1000 * of_nat (Suc k) = (0 :: u32)"
      by (metis add.right_neutral add_left_cancel)
    then have "unat (0x1000 * of_nat (Suc k) :: u32) = 0" by simp
    moreover have "unat (0x1000 * of_nat (Suc k) :: u32) = 4096 * Suc k"
      using Suc.prems(2) by (simp add: unat_word_ariths unat_of_nat del: of_nat_Suc)
    ultimately show False by simp
  qed
  have stop: "page + 0x1000 * of_nat (Suc k) = (page + 0x1000) + 0x1000 * of_nat k"
    by (simp add: algebra_simps)
  have IH: "range_loop n' m (page + 0x1000) (page + 0x1000 + 0x1000 * of_nat k) =
      Inr (\<forall>i\<le>k. page_ok m (page + 0x1000 + 0x1000 * of_nat i))"
    using Suc.IH [of n' "page + 0x1000"] Suc.prems n by simp
  have split: "(\<forall>i\<le>Suc k. page_ok m (page + 0x1000 * of_nat i)) \<longleftrightarrow>
      page_ok m page \<and> (\<forall>i\<le>k. page_ok m (page + 0x1000 + 0x1000 * of_nat i))"
  proof -
    have "(\<forall>i\<le>Suc k. P i) \<longleftrightarrow> P 0 \<and> (\<forall>i\<le>k. P (Suc i))" for P :: "nat \<Rightarrow> bool"
      by (metis Suc_le_mono le_Suc_eq le0 not0_implies_Suc)
    from this [of "\<lambda>i. page_ok m (page + 0x1000 * of_nat i)"] show ?thesis
      by (simp add: algebra_simps)
  qed
  show ?case
    unfolding split
    using assms(1) ne IH and_7_1 [of "pde m page"]
    unfolding stop n(1) by (auto simp: pd_read pt_read page_ok_def)
qed

lemma frame_eq_page:
  "frame a = frame b + 0x1000 * of_nat k \<longleftrightarrow> unat a div 4096 = unat b div 4096 + k"
  if "unat b div 4096 + k < 2 ^ 20"
proof -
  have f: "unat (frame x) = 4096 * (unat x div 4096)" for x
    by (simp add: unat_frame minus_mod_eq_mult_div)
  have k: "unat (0x1000 * of_nat k :: u32) = 4096 * k"
    using that by (simp add: unat_word_ariths unat_of_nat)
  have "unat (frame b + 0x1000 * of_nat k) = 4096 * (unat b div 4096 + k)"
    using that by (subst unat_word_ariths(1)) (simp add: f k)
  then show ?thesis by (simp only: word_unat_eq_iff f nat_mult_eq_cancel_disj) simp
qed

lemma user_range_eq:
  assumes "self_mapped m"
  shows "vmm_user_range_writable m va n =
    Inr (n = 0 \<or> unat va + unat n \<le> unat KERNEL_START \<and>
      (\<forall>a. unat va \<le> unat a \<and> unat a < unat va + unat n \<longrightarrow> walk m 7 a \<noteq> None))"
proof -
  have ks: "unat KERNEL_START = 3221225472" by (simp add: KERNEL_START_def)
  consider "n = 0" | "va \<ge> KERNEL_START" "n \<noteq> 0" | "va < KERNEL_START" "n > KERNEL_START - va" "n \<noteq> 0"
    | "n \<noteq> 0" "va < KERNEL_START" "n \<le> KERNEL_START - va" by fastforce
  then show ?thesis
  proof cases
    case 2
    then have "unat n \<noteq> 0" by (simp add: unat_eq_0)
    with 2 show ?thesis by (simp add: vmm_user_range_writable_def word_le_nat_alt)
  next
    case 3
    then have "unat (KERNEL_START - va) = unat KERNEL_START - unat va"
      by (simp add: unat_sub word_less_nat_alt word_le_nat_alt)
    with 3 have "\<not> unat va + unat n \<le> unat KERNEL_START"
      by (simp add: word_less_nat_alt)
    with 3 show ?thesis by (simp add: vmm_user_range_writable_def not_le)
  next
    case 4
    let ?l = "va + n - 1"
    have n0: "0 < unat n" using 4(1) by (simp add: unat_gt_0)
    have "unat (KERNEL_START - va) = unat KERNEL_START - unat va"
      using 4 by (simp add: unat_sub word_less_nat_alt word_le_nat_alt)
    then have le: "unat va + unat n \<le> 3221225472"
      using 4 ks by (simp add: word_less_nat_alt word_le_nat_alt)
    have "unat (va + n) = unat va + unat n" using le by (simp add: unat_word_ariths)
    moreover have "1 \<le> va + n" using n0 \<open>unat (va + n) = _\<close> by (simp add: word_le_nat_alt)
    ultimately have l: "unat ?l = unat va + unat n - 1" by (simp add: unat_sub)
    let ?k = "unat ?l div 4096 - unat va div 4096"
    have mono: "unat va div 4096 \<le> unat ?l div 4096" using l n0 by (simp add: div_le_mono)
    have lim: "unat ?l div 4096 < 2 ^ 20" using le l by (simp add: less_mult_imp_div_less)
    have fl: "frame ?l = frame va + 0x1000 * of_nat ?k"
      using mono lim by (subst frame_eq_page) auto
    have loop: "vmm_user_range_writable m va n =
        Inr (\<forall>i\<le>?k. page_ok m (frame va + 0x1000 * of_nat i))"
    proof -
      have "\<not> KERNEL_START \<le> va" "\<not> KERNEL_START - va < n" using 4 by auto
      moreover have "?k < 2 ^ 20" using lim by simp
      ultimately show ?thesis
        using 4(1) range_loop_eq [OF assms \<open>?k < 2 ^ 20\<close> \<open>?k < 2 ^ 20\<close>, of "frame va"]
        by (simp add: vmm_user_range_writable_def fl)
    qed
    have "(\<forall>i\<le>?k. page_ok m (frame va + 0x1000 * of_nat i)) \<longleftrightarrow>
        (\<forall>a. unat va \<le> unat a \<and> unat a < unat va + unat n \<longrightarrow> page_ok m a)" (is "?L = ?R")
    proof
      assume L: ?L
      show ?R
      proof (intro allI impI)
        fix a :: u32
        assume a: "unat va \<le> unat a \<and> unat a < unat va + unat n"
        let ?i = "unat a div 4096 - unat va div 4096"
        have lo: "unat va div 4096 \<le> unat a div 4096" using a by (simp add: div_le_mono)
        have hi: "unat a div 4096 \<le> unat ?l div 4096" using a l by (intro div_le_mono) linarith
        have "frame a = frame va + 0x1000 * of_nat ?i"
          using lo hi lim by (subst frame_eq_page) auto
        moreover have "?i \<le> ?k" using hi by simp
        ultimately have "page_ok m (frame a)" using L by simp
        then show "page_ok m a" by simp
      qed
    next
      assume R: ?R
      show ?L
      proof (intro allI impI)
        fix i assume i: "i \<le> ?k"
        let ?p = "unat va div 4096 + i"
        define a where "a = (if i = 0 then va else of_nat (4096 * ?p) :: u32)"
        have pl: "?p \<le> unat ?l div 4096" using i mono by simp
        have ua: "unat a = (if i = 0 then unat va else 4096 * ?p)"
        proof -
          have "unat (of_nat (4096 * ?p) :: u32) = 4096 * ?p"
            using pl lim by (simp only: unat_of_nat) simp
          then show ?thesis by (simp add: a_def)
        qed
        have "4096 * ?p \<le> 4096 * (unat ?l div 4096)" using pl by (rule mult_le_mono2)
        also have "\<dots> \<le> unat ?l" by simp
        finally have up: "4096 * ?p \<le> unat ?l" .
        have "unat va < 4096 * (unat va div 4096) + 4096"
          using div_mult_mod_eq [of "unat va" 4096] mod_less_divisor [of 4096 "unat va"] by linarith
        then have "0 < i \<Longrightarrow> unat va \<le> 4096 * ?p" by (simp only: distrib_left)
        with up n0 have "unat va \<le> unat a \<and> unat a < unat va + unat n"
          unfolding ua l by (cases "i = 0") simp_all
        then have "page_ok m a" using R by blast
        moreover have "frame a = frame va + 0x1000 * of_nat i"
          using pl lim by (subst frame_eq_page) (auto simp: ua)
        ultimately show "page_ok m (frame va + 0x1000 * of_nat i)" by (metis page_ok_frame)
      qed
    qed
    with loop le ks show ?thesis using 4 by (simp add: page_ok_walk)
  qed (simp add: vmm_user_range_writable_def)
qed

end
