(* ===== verification/Paging.thy ===== *)
theory Paging
  imports Vmm
begin

section \<open>Mapping and unmapping pages\<close>

text \<open>
  What the page-table operations of \<open>vmm.c\<close> do to the address space, as the MMU sees it.
  The invariant \<open>paging\<close> says that the directory maps itself and that no frame serves as
  two page tables; it makes a page-table write local to one page.
\<close>

definition dir :: "mem \<Rightarrow> u32 \<Rightarrow> u32" where
  "dir m i = phys m (frame (cr3 m) + 4 * i)"

definition paging :: "mem \<Rightarrow> bool" where
  "paging m \<longleftrightarrow> self_mapped m \<and>
     (\<forall>i j. unat i < 1024 \<and> unat j < 1024 \<and> dir m i AND 1 = 1 \<and> dir m j AND 1 = 1 \<and>
        frame (dir m i) = frame (dir m j) \<longrightarrow> i = j)"

text \<open>The frames a page walk can read.\<close>

definition table_frame :: "mem \<Rightarrow> u32 \<Rightarrow> bool" where
  "table_frame m f \<longleftrightarrow> f = frame (cr3 m) \<or> (\<exists>i. unat i < 1024 \<and> dir m i AND 1 = 1 \<and> f = frame (dir m i))"

lemma pde_dir: "pde m va = dir m (pdi va)"
  by (simp add: pde_def pde_addr_def dir_def)

lemma paging_self: "paging m \<Longrightarrow> self_mapped m"
  by (simp add: paging_def)

lemma dir_1023: "self_mapped m \<Longrightarrow> frame (dir m 1023) = frame (cr3 m) \<and> dir m 1023 AND 1 = 1"
  using bits_sub [of 1 "dir m 1023"] by (simp add: self_mapped_def dir_def)

lemma self_mapped_dir:
  "self_mapped m \<longleftrightarrow> frame (dir m 1023) = frame (cr3 m) \<and> dir m 1023 AND 3 = 3"
  by (simp add: self_mapped_def dir_def)

lemma paging_inj:
  "paging m \<Longrightarrow> unat i < 1024 \<Longrightarrow> unat j < 1024 \<Longrightarrow> dir m i AND 1 = 1 \<Longrightarrow> dir m j AND 1 = 1 \<Longrightarrow>
   frame (dir m i) = frame (dir m j) \<Longrightarrow> i = j"
  unfolding paging_def by blast

lemma paging_not_cr3:
  assumes "paging m" "unat i < 1024" "dir m i AND 1 = 1" "i \<noteq> 1023"
  shows "frame (dir m i) \<noteq> frame (cr3 m)"
  using paging_inj [OF assms(1,2), of 1023] dir_1023 [OF paging_self [OF assms(1)]] assms(3,4)
  by auto

lemma entry_frame: "unat i < 1024 \<Longrightarrow> frame (frame e + 4 * i) = frame e"
  by (rule frame_plus) (simp_all add: unat_times4)

lemma entry_offset: "unat i < 1024 \<Longrightarrow> offset (frame e + 4 * i) = 4 * i"
  by (rule offset_plus) (simp_all add: unat_times4)

lemma entry_inj:
  assumes "unat i < 1024" "unat j < 1024" "frame d + 4 * i = frame e + 4 * j"
  shows "frame d = frame e \<and> i = j"
proof -
  have "frame d = frame e" using entry_frame [OF assms(1), of d] entry_frame [OF assms(2), of e] assms(3) by simp
  moreover have "4 * i = 4 * j"
    using entry_offset [OF assms(1), of d] entry_offset [OF assms(2), of e] assms(3) by simp
  then have "unat i = unat j" using unat_times4 [OF assms(1)] unat_times4 [OF assms(2)] by simp
  ultimately show ?thesis by (simp add: word_unat_eq_iff)
qed

lemma same_page: "pdi a = pdi b \<Longrightarrow> pti a = pti b \<Longrightarrow> frame a = frame b"
proof -
  assume eq: "pdi a = pdi b" "pti a = pti b"
  have d: "unat x div 4096 = 1024 * unat (pdi x) + unat (pti x)" for x
  proof -
    have "unat (pdi x) = unat x div 4096 div 1024" by (simp add: unat_pdi flip: div_mult2_eq)
    then show ?thesis by (simp add: unat_pti)
  qed
  have "unat (frame x) = 4096 * (unat x div 4096)" for x
    by (simp add: unat_frame minus_mod_eq_mult_div)
  with d [of a] d [of b] eq show ?thesis by (simp add: word_unat_eq_iff)
qed

lemma bit_0: "b AND 1 = 1 \<Longrightarrow> (e :: u32) AND b = b \<Longrightarrow> e AND 1 = 1"
  by (metis and.assoc)

text \<open>A walk only reads the directory and the present tables.\<close>

lemma walk_frames:
  assumes "cr3 m' = cr3 m" "\<And>a. table_frame m (frame a) \<Longrightarrow> phys m' a = phys m a"
  shows "unat i < 1024 \<Longrightarrow> dir m' i = dir m i"
    and "b AND 1 = 1 \<Longrightarrow> walk m' b va = walk m b va"
    and "paging m \<Longrightarrow> paging m'"
proof -
  show dir: "dir m' i = dir m i" if "unat i < 1024" for i
    using that assms by (simp add: dir_def table_frame_def entry_frame)
  have pde: "pde m' va = pde m va" for va by (simp add: pde_dir dir pdi_less)
  have pte: "pte m' va = pte m va" if "pde m va AND 1 = 1" for va
  proof -
    have "table_frame m (frame (pte_addr m va))"
      using that pdi_less [of va] pti_less [of va]
      by (auto simp: table_frame_def pte_addr_def entry_frame pde_dir)
    with assms(2) pde show ?thesis by (simp add: pte_def pte_addr_def)
  qed
  show "walk m' b va = walk m b va" if "b AND 1 = 1"
    using pde pte bit_0 [OF that, of "pde m va"] by (auto simp: walk_def)
  have "dir m' 1023 = dir m 1023" by (rule dir) simp
  then show "paging m'" if "paging m"
    unfolding paging_def
  proof (intro conjI allI impI)
    show "self_mapped m'"
      using paging_self [OF that] \<open>dir m' 1023 = dir m 1023\<close> assms(1) by (simp only: self_mapped_dir)
    fix i j
    assume ij: "unat i < 1024 \<and> unat j < 1024 \<and> dir m' i AND 1 = 1 \<and> dir m' j AND 1 = 1 \<and>
      frame (dir m' i) = frame (dir m' j)"
    then have "dir m' i = dir m i" "dir m' j = dir m j" by (simp_all only: dir)
    with ij show "i = j" using paging_inj [OF that, of i j] by simp
  qed
qed

subsection \<open>Writing a page-table entry\<close>

definition set_pte :: "mem \<Rightarrow> u32 \<Rightarrow> u32 \<Rightarrow> mem" where
  "set_pte m va x = m\<lparr>phys := (phys m)(pte_addr m va := x)\<rparr>"

lemma set_pte_simps [simp]:
  "cr3 (set_pte m va x) = cr3 m" "end_mapped_kmemory (set_pte m va x) = end_mapped_kmemory m"
  "pmem_stack_top (set_pte m va x) = pmem_stack_top m" "free_pages (set_pte m va x) = free_pages m"
  by (simp_all add: set_pte_def free_pages_def)

lemma set_pte_dir:
  assumes "paging m" "pdi va \<noteq> 1023" "pde m va AND 1 = 1" "unat i < 1024"
  shows "dir (set_pte m va x) i = dir m i"
proof -
  have "frame (cr3 m) + 4 * i \<noteq> pte_addr m va"
  proof
    assume "frame (cr3 m) + 4 * i = pte_addr m va"
    then have "frame (cr3 m) = frame (pde m va)"
      using entry_inj [of i "pti va" "cr3 m" "pde m va"] assms(4) pti_less [of va]
      by (simp add: pte_addr_def)
    with assms paging_not_cr3 [of m "pdi va"] pdi_less [of va] show False by (simp add: pde_dir)
  qed
  then show ?thesis by (simp add: dir_def set_pte_def)
qed

lemma set_pte_pte:
  assumes "paging m" "pdi va \<noteq> 1023" "pde m va AND 1 = 1" "pde m va' AND 1 = 1"
  shows "pte (set_pte m va x) va' = (if frame va' = frame va then x else pte m va')"
proof -
  have d: "pde (set_pte m va x) va' = pde m va'"
    using assms set_pte_dir pdi_less [of va'] by (simp add: pde_dir)
  have "pte_addr m va' = pte_addr m va \<longleftrightarrow> frame va' = frame va"
  proof
    assume "pte_addr m va' = pte_addr m va"
    then have "frame (pde m va') = frame (pde m va) \<and> pti va' = pti va"
      using entry_inj [OF pti_less pti_less] by (simp add: pte_addr_def)
    moreover from this have "pdi va' = pdi va"
      using paging_inj [OF assms(1) pdi_less pdi_less, of va' va] assms(3,4) by (simp add: pde_dir)
    ultimately show "frame va' = frame va" by (intro same_page) simp_all
  next
    assume "frame va' = frame va"
    then have "pdi va' = pdi va" "pti va' = pti va" by (metis pdi_frame, metis pti_frame)
    then show "pte_addr m va' = pte_addr m va" by (simp add: pte_addr_def pde_dir)
  qed
  moreover have "pte_addr (set_pte m va x) va' = pte_addr m va'" by (simp add: pte_addr_def d)
  ultimately show ?thesis by (simp add: pte_def) (simp add: set_pte_def)
qed

lemma set_pte_paging:
  assumes "paging m" "pdi va \<noteq> 1023" "pde m va AND 1 = 1"
  shows "paging (set_pte m va x)"
proof -
  have d: "unat i < 1024 \<Longrightarrow> dir (set_pte m va x) i = dir m i" for i
    by (rule set_pte_dir [OF assms])
  show ?thesis
    unfolding paging_def
  proof (intro conjI allI impI)
    show "self_mapped (set_pte m va x)"
      using paging_self [OF assms(1)] d [of 1023] by (simp add: self_mapped_dir)
    fix i j
    assume ij: "unat i < 1024 \<and> unat j < 1024 \<and> dir (set_pte m va x) i AND 1 = 1 \<and>
      dir (set_pte m va x) j AND 1 = 1 \<and> frame (dir (set_pte m va x) i) = frame (dir (set_pte m va x) j)"
    then show "i = j" using paging_inj [OF assms(1), of i j] d [of i] d [of j] by simp
  qed
qed

lemma set_pte_walk:
  assumes "paging m" "pdi va \<noteq> 1023" "pde m va AND 1 = 1" "b AND 1 = 1"
  shows "walk (set_pte m va x) b va' =
    (if frame va' = frame va then
       if pde m va AND b = b \<and> x AND b = b then Some (frame x + offset va') else None
     else walk m b va')"
proof -
  have d: "pde (set_pte m va x) va' = pde m va'"
    using assms set_pte_dir pdi_less [of va'] by (simp add: pde_dir)
  show ?thesis
  proof (cases "pde m va' AND b = b")
    case True
    then have "pde m va' AND 1 = 1" using assms(4) bit_0 by blast
    then have p: "pte (set_pte m va x) va' = (if frame va' = frame va then x else pte m va')"
      by (rule set_pte_pte [OF assms(1-3)])
    have "frame va' = frame va \<Longrightarrow> pde m va = pde m va'"
      by (metis pde_dir pdi_frame)
    with True d p show ?thesis by (auto simp: walk_def)
  next
    case False
    have "frame va' = frame va \<Longrightarrow> pde m va = pde m va'"
      by (metis pde_dir pdi_frame)
    with False d show ?thesis by (auto simp: walk_def)
  qed
qed

subsection \<open>Mapping a page whose table exists\<close>

definition new_pte :: "u32 \<Rightarrow> u32 \<Rightarrow> u32" where
  "new_pte physaddr flags = physaddr OR (flags AND 0xFFF) OR 1"

lemma frame_new_pte [simp]: "frame (new_pte physaddr flags) = frame physaddr"
proof -
  have "frame (new_pte physaddr flags) = frame physaddr OR ((flags AND 0xFFF) AND NOT 0xFFF) OR (1 AND NOT 0xFFF)"
    by (simp only: frame_def new_pte_def bit.conj_disj_distrib2)
  also have "(flags AND 0xFFF) AND NOT 0xFFF = (0 :: u32)" by (simp add: and.assoc)
  finally show ?thesis by simp
qed

lemma new_pte_present [simp]: "new_pte physaddr flags AND 1 = 1"
  by (rule bit_word_eqI) (auto simp: new_pte_def bit_and_iff bit_or_iff bit_1_iff)

lemma pt_write:
  "self_mapped m \<Longrightarrow> pde m va AND 3 = 3 \<Longrightarrow> vwrite32 m (pt_entry va) x = Inr (set_pte m va x)"
  by (simp add: pt_entry_def vwrite_PT set_pte_def)

lemma map_page_present:
  assumes "paging m" "pdi va \<noteq> 1023" "pde m va AND 3 = 3"
  shows "map_page_fuel (Suc n) m physaddr va flags overwrite =
    (if pte m va AND 1 = 1 \<and> \<not> overwrite then Inr (-1, m)
     else Inr (0, set_pte m va (new_pte physaddr flags)))"
proof -
  have p: "pde m va AND 1 = 1" using assms(3) bits_sub by blast
  show ?thesis
    using paging_self [OF assms(1)] assms(3) p
    by (simp add: pd_read pt_read pt_write new_pte_def)
qed

lemma vmm_map_page_present:
  assumes "paging m" "pdi va \<noteq> 1023" "pde m va AND 3 = 3"
  shows "vmm_map_page m physaddr va flags overwrite =
    (if pte m va AND 1 = 1 \<and> \<not> overwrite then Inr (-1, m)
     else Inr (0, set_pte m va (new_pte physaddr flags)))"
  unfolding vmm_map_page_def by (rule map_page_present [OF assms])

lemma unmap_page_eq:
  assumes "paging m" "pdi va \<noteq> 1023" "pde m va AND 1 = 1 \<longrightarrow> pde m va AND 3 = 3"
  shows "vmm_unmap_page m va =
    (if walk m 1 va = None then Inr (0, m) else Inr (1, set_pte m va 0))"
proof (cases "pde m va AND 1 = 1")
  case True
  then show ?thesis
    using paging_self [OF assms(1)] assms(3)
    by (simp add: vmm_unmap_page_def pd_read pt_read and_1_cases walk_def pt_write)
next
  case False
  then show ?thesis
    using paging_self [OF assms(1)]
    by (simp add: vmm_unmap_page_def pd_read and_1_cases walk_def)
qed

subsection \<open>Fuel\<close>

lemma alloc_with_1:
  "alloc_with mp m 1 = rbind (pmm_alloc_page m) (\<lambda>(p, m). map_pages_k_with mp m [p])"
proof -
  have "rbind (rbind r (\<lambda>(p, m). Inr ([p], m))) (\<lambda>(a, m). f a m) = rbind r (\<lambda>(p, m). f [p] m)"
    for r :: "(u32 \<times> mem) res" and f :: "u32 list \<Rightarrow> mem \<Rightarrow> (u32 \<times> mem) res"
    by (cases r) auto
  then show ?thesis by (simp add: alloc_with_def)
qed

lemma map_page_fuel_Suc:
  "pmem_stack_top m < n \<Longrightarrow> map_page_fuel (Suc n) m = map_page_fuel n m"
proof (induction n arbitrary: m)
  case (Suc n)
  have "alloc_with (map_page_fuel (Suc n)) m 1 = alloc_with (map_page_fuel n) m 1"
    unfolding alloc_with_1
  proof (rule rbind_cong [OF refl])
    fix x assume "pmm_alloc_page m = Inr x"
    moreover obtain p m1 where x: "x = (p, m1)" by (cases x)
    ultimately have "pmem_stack_top m = Suc (pmem_stack_top m1)" by (simp add: pmm_alloc_page_Inr)
    with Suc.prems have "map_page_fuel (Suc n) m1 = map_page_fuel n m1" by (intro Suc.IH) simp
    then show "(case x of (p, m) \<Rightarrow> map_pages_k_with (map_page_fuel (Suc n)) m [p]) =
        (case x of (p, m) \<Rightarrow> map_pages_k_with (map_page_fuel n) m [p])"
      by (simp only: x prod.case map_pages_k_with_def map_k_loop.simps)
  qed
  then show ?case by (intro ext) (simp only: map_page_fuel.simps)
qed simp

lemma map_page_enough_fuel: "pmem_stack_top m < n \<Longrightarrow> map_page_fuel n m = vmm_map_page m"
proof (induction n)
  case (Suc n)
  show ?case
  proof (cases "pmem_stack_top m = n")
    case True
    then show ?thesis by (simp only: vmm_map_page_def)
  next
    case False
    with Suc have "map_page_fuel n m = vmm_map_page m" by simp
    with False Suc.prems show ?thesis using map_page_fuel_Suc [of m n] by simp
  qed
qed simp

definition out_of_fuel :: "'a res \<Rightarrow> bool" where
  "out_of_fuel r \<longleftrightarrow> r = Inl (Fault ''vmm_map_page: fuel'')"

lemma out_of_fuel_rbind:
  "out_of_fuel (rbind r f) \<longleftrightarrow> out_of_fuel r \<or> (\<exists>x. r = Inr x \<and> out_of_fuel (f x))"
  by (cases r) (auto simp: out_of_fuel_def)

lemma out_of_fuel_simps [simp]:
  "\<not> out_of_fuel (Inr x)" "\<not> out_of_fuel (Inl (Panic s))" "\<not> out_of_fuel (vread32 m a)"
  "\<not> out_of_fuel (vwrite32 m a y)" "\<not> out_of_fuel (pmm_alloc_page m)"
  by (auto simp: out_of_fuel_def vread32_def vwrite32_def pmm_alloc_page_def Let_def split: option.splits)

lemma vzero_fuel [simp]: "\<not> out_of_fuel (vzero m a k)"
  by (induction k arbitrary: m a) (auto simp: out_of_fuel_rbind)

lemma get_physaddr_fuel [simp]: "\<not> out_of_fuel (vmm_get_physaddr m a)"
  by (auto simp: vmm_get_physaddr_def out_of_fuel_rbind)

lemma map_page_fuel_never:
  "pmem_stack_top m < n \<Longrightarrow> \<not> out_of_fuel (map_page_fuel n m physaddr va flags overwrite)"
proof (induction n arbitrary: m physaddr va flags overwrite)
  case (Suc n)
  have "\<not> out_of_fuel (alloc_with (map_page_fuel n) m 1)"
  proof
    assume "out_of_fuel (alloc_with (map_page_fuel n) m 1)"
    then obtain p m1 where p: "pmm_alloc_page m = Inr (p, m1)"
      "out_of_fuel (map_pages_k_with (map_page_fuel n) m1 [p])"
      unfolding alloc_with_1 out_of_fuel_rbind by auto
    then have "pmem_stack_top m1 < n" using Suc.prems by (simp add: pmm_alloc_page_Inr)
    from Suc.IH [OF this] p(2) show False
      by (auto simp: map_pages_k_with_def Let_def out_of_fuel_rbind split: if_splits)
  qed
  then show ?case by (auto simp: out_of_fuel_rbind split: if_splits)
qed simp

subsection \<open>Clearing a fresh frame\<close>

definition clear :: "mem \<Rightarrow> u32 \<Rightarrow> nat \<Rightarrow> nat \<Rightarrow> mem" where
  "clear m p k n =
     m\<lparr>phys := \<lambda>a. if a \<in> (\<lambda>i. p + 4 * of_nat i) ` {k..<k + n} then 0 else phys m a\<rparr>"

lemma clear_0: "clear m p k 0 = m"
  by (simp add: clear_def)

lemma clear_step:
  "clear (m\<lparr>phys := (phys m)(p + 4 * of_nat k := 0)\<rparr>) p (Suc k) n = clear m p k (Suc n)"
proof -
  let ?f = "\<lambda>i. p + 4 * of_nat i :: u32"
  have "{k..<k + Suc n} = insert k {Suc k..<Suc k + n}" by auto
  then have "?f ` {k..<k + Suc n} = insert (?f k) (?f ` {Suc k..<Suc k + n})"
    by (simp only: image_insert)
  then show ?thesis
    unfolding clear_def by (simp only:) (simp add: fun_upd_def fun_eq_iff)
qed

lemma of_nat_index: "k < 1024 \<Longrightarrow> unat (of_nat k :: u32) = k"
  by (simp add: unat_of_nat)

lemma clear_other: "frame a \<noteq> p \<Longrightarrow> aligned p \<Longrightarrow> k + n \<le> 1024 \<Longrightarrow> phys (clear m p k n) a = phys m a"
proof -
  assume a: "frame a \<noteq> p" "aligned p" "k + n \<le> 1024"
  have "frame (p + 4 * of_nat i) = p" if "i < k + n" for i
    using that a entry_frame [of "of_nat i" p] by (simp add: of_nat_index aligned_def)
  with a(1) show ?thesis by (auto simp: clear_def)
qed

lemma clear_fields [simp]:
  "cr3 (clear m p k n) = cr3 m" "end_mapped_kmemory (clear m p k n) = end_mapped_kmemory m"
  "pmem_stack_top (clear m p k n) = pmem_stack_top m"
  by (simp_all add: clear_def)

lemma vzero_clear:
  assumes "aligned va" "aligned p" "k + n \<le> 1024" "walk m 3 va = Some p" "\<not> table_frame m p"
  shows "vzero m (va + 4 * of_nat k) n = Inr (clear m p k n)"
  using assms(3-)
proof (induction n arbitrary: m k)
  case 0
  then show ?case by (simp add: clear_0)
next
  case (Suc n)
  then have k: "unat (of_nat k :: u32) < 1024" by (simp add: of_nat_index)
  let ?a = "va + 4 * of_nat k"
  have fa: "frame ?a = va" "offset ?a = 4 * of_nat k"
    using k entry_frame [of "of_nat k" va] entry_offset [of "of_nat k" va] assms(1)
    by (simp_all add: aligned_def)
  then have "pdi ?a = pdi va" "pti ?a = pti va" by (metis pdi_frame, metis pti_frame)
  moreover have "offset va = 0" using assms(1) frame_offset [of va] by (simp add: aligned_def)
  ultimately have "walk m 3 ?a = Some (p + 4 * of_nat k)"
    using Suc.prems(2) fa by (auto simp: walk_def pte_def pte_addr_def pde_def pde_addr_def split: if_splits)
  then have w: "vwrite32 m ?a 0 = Inr (m\<lparr>phys := (phys m)(p + 4 * of_nat k := 0)\<rparr>)" (is "_ = Inr ?m")
    by (simp add: vwrite32_def)
  have p: "frame (p + 4 * of_nat k) = p"
    using k entry_frame [of "of_nat k" p] assms(2) by (simp add: aligned_def)
  have same: "phys ?m a = phys m a" if "table_frame m (frame a)" for a
    using that Suc.prems(3) p by auto
  have cr3: "cr3 ?m = cr3 m" by simp
  have "table_frame ?m p \<longleftrightarrow> table_frame m p"
    using walk_frames(1) [OF cr3 same] by (simp add: table_frame_def cong: conj_cong)
  moreover have "walk ?m 3 va = Some p"
    using walk_frames(2) [OF cr3 same, of 3 va] Suc.prems(2) by simp
  ultimately have "vzero ?m (va + 4 * of_nat (Suc k)) n = Inr (clear ?m p (Suc k) n)"
    using Suc.prems by (intro Suc.IH) auto
  moreover have "va + 4 * of_nat (Suc k) = ?a + 4" by simp
  ultimately show ?case using w by (simp only: vzero.simps clear_step rbind_Inr)
qed

subsection \<open>Entering a fresh page table in the directory\<close>

definition set_pde :: "mem \<Rightarrow> u32 \<Rightarrow> u32 \<Rightarrow> mem" where
  "set_pde m va x = m\<lparr>phys := (phys m)(pde_addr m va := x)\<rparr>"

lemma set_pde_dir:
  "unat i < 1024 \<Longrightarrow> dir (set_pde m va e) i = (if i = pdi va then e else dir m i)"
  using entry_inj [of i "pdi va" "cr3 m" "cr3 m"] pdi_less [of va]
  by (auto simp: dir_def set_pde_def pde_addr_def)

lemma set_pde_fresh:
  assumes "paging m" "pde m va AND 1 \<noteq> 1" "\<not> table_frame m p" "frame e = p" "e AND 1 = 1"
    and zero: "\<And>i. unat i < 1024 \<Longrightarrow> phys m (p + 4 * i) = 0"
  shows "paging (set_pde m va e)"
    and "pte (set_pde m va e) va = 0"
    and "b AND 1 = 1 \<Longrightarrow> pdi va' \<noteq> 1023 \<Longrightarrow> walk (set_pde m va e) b va' = walk m b va'"
proof -
  have self: "self_mapped m" by (rule paging_self [OF assms(1)])
  have np: "pdi va \<noteq> 1023" using assms(2) dir_1023 [OF self] by (auto simp: pde_dir)
  have d: "unat i < 1024 \<Longrightarrow> dir (set_pde m va e) i = (if i = pdi va then e else dir m i)" for i
    by (rule set_pde_dir)
  have fresh: "unat i < 1024 \<Longrightarrow> dir m i AND 1 = 1 \<Longrightarrow> frame (dir m i) \<noteq> p" for i
    using assms(3) by (auto simp: table_frame_def)
  have cr3: "frame (cr3 m) \<noteq> p" using assms(3) by (auto simp: table_frame_def)
  show "paging (set_pde m va e)"
    unfolding paging_def
  proof (intro conjI allI impI)
    show "self_mapped (set_pde m va e)"
      using self np d [of 1023] by (simp add: self_mapped_dir set_pde_def)
    fix i j
    assume ij: "unat i < 1024 \<and> unat j < 1024 \<and> dir (set_pde m va e) i AND 1 = 1 \<and>
      dir (set_pde m va e) j AND 1 = 1 \<and> frame (dir (set_pde m va e) i) = frame (dir (set_pde m va e) j)"
    then show "i = j"
      using paging_inj [OF assms(1), of i j] fresh [of i] fresh [of j] d [of i] d [of j] assms(4)
      by (auto split: if_splits)
  qed
  have keep: "phys (set_pde m va e) a = phys m a" if "frame a \<noteq> frame (cr3 m)" for a
    using that entry_frame [OF pdi_less, of "cr3 m" va] by (auto simp: set_pde_def pde_addr_def)
  have pfr: "frame (p + 4 * pti x) = p" for x
    using entry_frame [OF pti_less, of e x] assms(4) by simp
  show pte0: "pte (set_pde m va e) va = 0"
    using keep [of "p + 4 * pti va"] zero [OF pti_less, of va] pfr [of va] cr3 d [OF pdi_less, of va] assms(4)
    by (simp add: pte_def pte_addr_def pde_dir)
  show "walk (set_pde m va e) b va' = walk m b va'" if "b AND 1 = 1" "pdi va' \<noteq> 1023"
  proof (cases "pdi va' = pdi va")
    case True
    have "pte (set_pde m va e) va' = 0"
      using keep [of "p + 4 * pti va'"] zero [OF pti_less, of va'] pfr [of va'] cr3
        d [OF pdi_less, of va'] assms(4) True
      by (simp add: pte_def pte_addr_def pde_dir)
    moreover have "b \<noteq> 0" using that by auto
    moreover have "pde m va' AND b \<noteq> b"
      using assms(2) True bit_0 [OF that(1), of "pde m va'"] by (auto simp: pde_dir)
    ultimately show ?thesis by (simp add: walk_def)
  next
    case False
    have pd: "pde (set_pde m va e) va' = pde m va'" using False d [OF pdi_less, of va'] by (simp add: pde_dir)
    have "pte (set_pde m va e) va' = pte m va'" if "pde m va' AND 1 = 1"
    proof -
      have "frame (pde m va') \<noteq> frame (cr3 m)"
        using paging_not_cr3 [OF assms(1) pdi_less] that \<open>pdi va' \<noteq> 1023\<close> by (simp add: pde_dir)
      then have "frame (pte_addr m va') \<noteq> frame (cr3 m)"
        by (simp add: pte_addr_def entry_frame pti_less)
      then show ?thesis using keep pd by (simp add: pte_def pte_addr_def)
    qed
    then show ?thesis using pd bit_0 [OF that(1), of "pde m va'"] by (auto simp: walk_def)
  qed
qed

subsection \<open>Mapping a page whose table does not exist yet\<close>

text \<open>
  What the kernel guarantees when it maps a page: the next kernel page to map is free and its
  table is present (\<open>boot.S\<close> and \<open>vmm_init\<close> enter all kernel tables), and the
  free frame on top of the stack is a frame no table lives in.
\<close>

definition map_ready :: "mem \<Rightarrow> bool" where
  "map_ready m \<longleftrightarrow> paging m \<and> 0 < pmem_stack_top m \<and> pmem_stack_top m \<le> MAX_PAGES \<and>
     aligned (last (free_pages m)) \<and> \<not> table_frame m (last (free_pages m)) \<and>
     aligned (end_mapped_kmemory m) \<and> pdi (end_mapped_kmemory m) \<noteq> 1023 \<and>
     pde m (end_mapped_kmemory m) AND 3 = 3 \<and> pte m (end_mapped_kmemory m) AND 1 \<noteq> 1 \<and>
     end_mapped_kmemory m + 0x1000 < 0xFFC00000"

definition grown :: "mem \<Rightarrow> mem" where
  "grown m = (set_pte (m\<lparr>pmem_stack_top := pmem_stack_top m - 1\<rparr>) (end_mapped_kmemory m)
       (new_pte (last (free_pages m)) 3))\<lparr>end_mapped_kmemory := end_mapped_kmemory m + 0x1000\<rparr>"

lemma dir_cong: "phys m' = phys m \<Longrightarrow> cr3 m' = cr3 m \<Longrightarrow> dir m' i = dir m i"
  by (simp add: dir_def)

lemma paging_cong: "phys m' = phys m \<Longrightarrow> cr3 m' = cr3 m \<Longrightarrow> paging m' = paging m"
  by (simp add: paging_def self_mapped_def dir_def)

lemma pde_pte_cong:
  "phys m' = phys m \<Longrightarrow> cr3 m' = cr3 m \<Longrightarrow> pde m' va = pde m va"
  "phys m' = phys m \<Longrightarrow> cr3 m' = cr3 m \<Longrightarrow> pte m' va = pte m va"
  "phys m' = phys m \<Longrightarrow> cr3 m' = cr3 m \<Longrightarrow> table_frame m' f = table_frame m f"
  by (simp_all add: pde_def pte_def pte_addr_def pde_addr_def table_frame_def dir_def)

lemma stack_top_simps [simp]:
  "paging (m\<lparr>pmem_stack_top := t\<rparr>) = paging m" "pde (m\<lparr>pmem_stack_top := t\<rparr>) va = pde m va"
  "pte (m\<lparr>pmem_stack_top := t\<rparr>) va = pte m va" "walk (m\<lparr>pmem_stack_top := t\<rparr>) b va = walk m b va"
  "dir (m\<lparr>pmem_stack_top := t\<rparr>) i = dir m i"
  by (rule paging_cong pde_pte_cong(1,2) walk_cong dir_cong; simp)+

lemma alloc_one:
  assumes "map_ready m"
  shows "alloc_with (map_page_fuel (Suc n)) m 1 = Inr (end_mapped_kmemory m, grown m)"
proof -
  let ?m1 = "m\<lparr>pmem_stack_top := pmem_stack_top m - 1\<rparr>" and ?e = "end_mapped_kmemory m"
  let ?p = "last (free_pages m)"
  have al: "pmm_alloc_page m = Inr (?p, ?m1)"
    using assms by (intro pmm_alloc_page_ok) (simp_all add: map_ready_def)
  have "map_page_fuel (Suc n) ?m1 ?p ?e 3 False = Inr (0, set_pte ?m1 ?e (new_pte ?p 3))"
    using assms by (subst map_page_present)
      (simp_all add: map_ready_def)
  then show ?thesis
    using assms unfolding alloc_with_1 al
    by (simp add: map_pages_k_with_def Let_def grown_def map_ready_def not_le del: map_page_fuel.simps)
qed

lemma grown_walk:
  assumes "map_ready m" "b AND 1 = 1"
  shows "paging (grown m)"
    and "walk (grown m) b va = (if frame va = end_mapped_kmemory m then
        if pde m (end_mapped_kmemory m) AND b = b \<and> new_pte (last (free_pages m)) 3 AND b = b
        then Some (last (free_pages m) + offset va) else None else walk m b va)"
    and "unat i < 1024 \<Longrightarrow> dir (grown m) i = dir m i" and "cr3 (grown m) = cr3 m"
proof -
  let ?m1 = "m\<lparr>pmem_stack_top := pmem_stack_top m - 1\<rparr>" and ?e = "end_mapped_kmemory m"
  let ?p = "last (free_pages m)"
  have p: "paging ?m1" "pdi ?e \<noteq> 1023" "pde ?m1 ?e AND 1 = 1"
    using assms bits_sub [of 1 "pde m ?e"]
    by (auto simp: map_ready_def)
  have ph: "phys (grown m) = phys (set_pte ?m1 ?e (new_pte ?p 3))" "cr3 (grown m) = cr3 m"
    by (simp_all add: grown_def)
  show "cr3 (grown m) = cr3 m" by (rule ph(2))
  show "paging (grown m)"
    using set_pte_paging [OF p] ph by (simp add: paging_cong [of "grown m" "set_pte ?m1 ?e (new_pte ?p 3)"])
  show "unat i < 1024 \<Longrightarrow> dir (grown m) i = dir m i"
    using set_pte_dir [OF p, of i "new_pte ?p 3"] ph
    by (simp add: dir_cong [of "grown m" "set_pte ?m1 ?e (new_pte ?p 3)"])
  have "walk (grown m) b va = walk (set_pte ?m1 ?e (new_pte ?p 3)) b va"
    by (rule walk_cong) (simp_all add: ph)
  moreover have "frame ?e = ?e" "frame ?p = ?p" using assms(1) by (simp_all add: map_ready_def aligned_def)
  ultimately show "walk (grown m) b va = (if frame va = ?e then
        if pde m ?e AND b = b \<and> new_pte ?p 3 AND b = b
        then Some (?p + offset va) else None else walk m b va)"
    using set_pte_walk [OF p assms(2)] by simp
qed

lemma grown_table_frame: "map_ready m \<Longrightarrow> table_frame (grown m) f = table_frame m f"
proof -
  assume m: "map_ready m"
  have "(1 :: u32) AND 1 = 1" by simp
  note g = grown_walk [OF m this]
  show ?thesis using g(3,4) by (auto simp: table_frame_def)
qed

lemma frame_or_7 [simp]: "frame (p OR 7) = frame p"
  by (simp add: frame_def bit.conj_disj_distrib2)

lemma and_or_absorb: "(x AND b) OR b = (b :: u32)"
  by (rule bit_word_eqI) (auto simp: bit_and_iff bit_or_iff)

lemma or_7_bits: "((p :: u32) OR 7) AND 3 = 3" "(p OR 7) AND 1 = 1"
  by (simp_all add: bit.conj_disj_distrib2 and_or_absorb)

text \<open>The state after the page table was taken, cleared and entered.\<close>

definition with_table :: "mem \<Rightarrow> u32 \<Rightarrow> mem" where
  "with_table m va = (let p = last (free_pages m) in set_pde (clear (grown m) p 0 1024) va (p OR 7))"

lemma cleared_page:
  assumes "map_ready m"
  defines "p \<equiv> last (free_pages m)"
  defines "c \<equiv> clear (grown m) p 0 1024"
  shows "vzero (grown m) (end_mapped_kmemory m) 1024 = Inr c"
    and "paging c"
    and "b AND 1 = 1 \<Longrightarrow> walk c b va' = walk (grown m) b va'"
    and "unat i < 1024 \<Longrightarrow> dir c i = dir m i"
    and "unat i < 1024 \<Longrightarrow> phys c (p + 4 * i) = 0"
    and "table_frame c f = table_frame m f"
proof -
  have m: "aligned p" "\<not> table_frame m p" "aligned (end_mapped_kmemory m)"
    "pde m (end_mapped_kmemory m) AND 3 = 3"
    using assms(1) by (simp_all add: map_ready_def p_def)
  have b3: "(3 :: u32) AND 1 = 1" and b1: "(1 :: u32) AND 1 = 1" by simp_all
  have n3: "new_pte p 3 AND 3 = 3"
  proof -
    have "new_pte p 3 = p OR 3" by (simp add: new_pte_def or.assoc)
    then show ?thesis by (simp add: bit.conj_disj_distrib2 and_or_absorb)
  qed
  have off: "offset (end_mapped_kmemory m) = 0"
    using m(3) frame_offset [of "end_mapped_kmemory m"] by (simp add: aligned_def)
  have w: "walk (grown m) 3 (end_mapped_kmemory m) = Some p"
    using grown_walk(2) [OF assms(1) b3] m n3 off by (simp add: aligned_def p_def)
  have nt: "\<not> table_frame (grown m) p" using m(2) grown_table_frame [OF assms(1)] by simp
  show "vzero (grown m) (end_mapped_kmemory m) 1024 = Inr c"
    using vzero_clear [OF m(3,1) _ w nt, of 0 1024] by (simp add: c_def)
  have same: "phys c a = phys (grown m) a" if "table_frame (grown m) (frame a)" for a
    using that nt m(1) by (auto simp: c_def intro!: clear_other)
  have cr3: "cr3 c = cr3 (grown m)" by (simp add: c_def)
  show "paging c" by (rule walk_frames(3) [OF cr3 same grown_walk(1) [OF assms(1) b1]])
  show "b AND 1 = 1 \<Longrightarrow> walk c b va' = walk (grown m) b va'" by (rule walk_frames(2) [OF cr3 same])
  have d: "unat i < 1024 \<Longrightarrow> dir c i = dir m i" for i
    using walk_frames(1) [OF cr3 same] grown_walk(3) [OF assms(1) b1] by simp
  show "unat i < 1024 \<Longrightarrow> dir c i = dir m i" by (rule d)
  show "unat i < 1024 \<Longrightarrow> phys c (p + 4 * i) = 0"
  proof -
    assume "unat i < 1024"
    then have "p + 4 * i \<in> (\<lambda>i. p + 4 * of_nat i) ` {0..<0 + 1024}"
      by (intro image_eqI [of _ _ "unat i"]) simp_all
    then show ?thesis by (simp add: c_def clear_def)
  qed
  show "table_frame c f = table_frame m f"
    using d cr3 grown_walk(4) [OF assms(1) b1] by (auto simp: table_frame_def)
qed

lemma map_page_new_table_steps:
  assumes "map_ready m" "pde m va AND 1 \<noteq> 1"
  shows "vmm_map_page m physaddr va flags overwrite =
      Inr (0, set_pte (with_table m va) va (new_pte physaddr flags))"
    and "paging (with_table m va)" and "pdi va \<noteq> 1023" and "pde (with_table m va) va = last (free_pages m) OR 7"
    and "b AND 1 = 1 \<Longrightarrow> pdi va' \<noteq> 1023 \<Longrightarrow> walk (with_table m va) b va' = walk (grown m) b va'"
proof -
  let ?p = "last (free_pages m)" and ?e = "end_mapped_kmemory m"
  let ?c = "clear (grown m) ?p 0 1024"
  note c = cleared_page [OF assms(1)]
  have m: "aligned ?p" "\<not> table_frame m ?p" "0 < pmem_stack_top m" "self_mapped m" "frame ?e = ?e" "frame ?p = ?p"
    "pde m ?e AND 3 = 3"
    using assms(1) by (simp_all add: map_ready_def paging_self aligned_def)
  show n: "pdi va \<noteq> 1023" using assms(2) dir_1023 [OF m(4)] by (auto simp: pde_dir)
  have cs: "self_mapped ?c" by (rule paging_self [OF c(2)])
  have cp: "pde ?c va AND 1 \<noteq> 1" using assms(2) c(4) [OF pdi_less] by (simp add: pde_dir)
  have "\<not> table_frame ?c ?p" using c(6) m(2) by simp
  note s = set_pde_fresh [OF c(2) cp this, of "?p OR 7", simplified, OF m(6) or_7_bits(2) c(5)]
  show wt: "paging (with_table m va)" using s(1) by (simp add: with_table_def Let_def)
  show pd: "pde (with_table m va) va = ?p OR 7"
    by (simp add: with_table_def Let_def pde_dir set_pde_dir pdi_less)
  show "b AND 1 = 1 \<Longrightarrow> pdi va' \<noteq> 1023 \<Longrightarrow> walk (with_table m va) b va' = walk (grown m) b va'"
    using s(3) c(3) by (simp add: with_table_def Let_def)
  obtain k where k: "pmem_stack_top m = Suc k" using m(3) by (cases "pmem_stack_top m") auto
  have "(1 :: u32) AND 1 = 1" by simp
  note g1 = grown_walk(2) [OF assms(1) this]
  have phys: "vmm_get_physaddr ?c ?e = Inr ?p"
    using get_physaddr_eq [OF cs] c(3) [of 1 ?e] g1 [of ?e] m frame_offset [of ?e] bits_sub [of 1 "pde m ?e"]
    by simp
  have wr: "vwrite32 ?c (pd_entry va) (?p OR 7) = Inr (with_table m va)"
    using vwrite_PD [OF cs] by (simp add: pd_entry_def with_table_def Let_def set_pde_def)
  have "pte (with_table m va) va = 0" using s(2) by (simp add: with_table_def Let_def)
  then show "vmm_map_page m physaddr va flags overwrite =
      Inr (0, set_pte (with_table m va) va (new_pte physaddr flags))"
    using m(4) assms(2) paging_self [OF wt] pd or_7_bits [of ?p] phys wr c(1)
      alloc_one [OF assms(1), of k]
    unfolding vmm_map_page_def k map_page_fuel.simps(2) [of "Suc k"]
    by (simp add: pd_read pt_read pt_write and_1_cases new_pte_def del: map_page_fuel.simps)
qed

declare map_page_fuel.simps [simp del]

section \<open>Properties\<close>

text \<open>
  A machine for the witnesses: \<open>boot_mem\<close> with free frames, the kernel page table
  \<open>0x4000\<close> at directory entry 771, where \<open>end_mapped_kmemory\<close> points, and a user table
  \<open>0x3000\<close> with one writable page at \<open>0x08000000\<close>.
\<close>

definition run_mem :: mem where
  "run_mem = boot_mem\<lparr>
     phys := (phys boot_mem)(0x1C0C := 0x4003, 0x1080 := 0x3007, 0x3000 := 0x6007),
     pmem_stack := (\<lambda>_. 0)(0 := 0x100000, 1 := 0x101000), pmem_stack_top := 2, pmem_stack_size := 2\<rparr>"

lemmas eval_mem = run_mem_def boot_mem_def walk_def pte_def pte_addr_def pde_def pde_addr_def pdi_def
  pti_def frame_def offset_def drop_bit_word_numeral self_mapped_def

lemma run_mem_self: "self_mapped run_mem"
  by (simp add: eval_mem)

text \<open>
  C35: In every address space that maps its own directory, \<open>vmm_get_physaddr\<close>, which reads
  the tables through the recursive mapping, never faults and returns the address the MMU
  translates to, and 0 exactly where the MMU finds no page (or a page at physical 0).
\<close>

theorem vmm_get_physaddr_mmu:
  assumes "self_mapped m"
  shows "vmm_get_physaddr m va = Inr (case translate m va of None \<Rightarrow> 0 | Some pa \<Rightarrow> pa)"
  using assms by (rule get_physaddr_eq)

lemma vmm_get_physaddr_mmu_witness: "vmm_get_physaddr run_mem 0x08000123 = Inr 0x6123"
  using vmm_get_physaddr_mmu [OF run_mem_self, of "0x08000123"] by (simp add: eval_mem)

text \<open>
  C27: \<open>vmm_user_range_writable\<close> answers yes exactly when the range is empty, or does not
  wrap around, ends at or below \<open>KERNEL_START\<close>, and every one of its addresses is on a page
  that user mode may write. The loop ends within the \<open>2^20\<close> pages of an address space.
\<close>

theorem vmm_user_range_writable_iff:
  assumes "self_mapped m"
  shows "vmm_user_range_writable m va n =
    Inr (n = 0 \<or> unat va + unat n \<le> unat KERNEL_START \<and>
      (\<forall>a. unat va \<le> unat a \<and> unat a < unat va + unat n \<longrightarrow> walk m 7 a \<noteq> None))"
  using assms by (rule user_range_eq)

lemma vmm_user_range_writable_iff_witness:
  "vmm_user_range_writable run_mem 0x08000FFF 2 = Inr False"
proof -
  have "walk run_mem 7 0x08001000 = None" by (simp add: eval_mem)
  then have "\<exists>a. unat (0x08000FFF :: u32) \<le> unat a \<and> unat a < unat (0x08000FFF :: u32) + unat (2 :: u32) \<and>
      walk run_mem 7 a = None"
    by (intro exI [of _ "0x08001000"]) simp
  then show ?thesis
    using vmm_user_range_writable_iff [OF run_mem_self, of "0x08000FFF" 2] by auto
qed

text \<open>
  \<open>vmm_map_page\<close> on a page whose table is present: it fails with -1 and changes nothing
  exactly when the page is mapped and overwriting is not asked for; otherwise it returns 0,
  the page then translates to the given frame, every other page of the address space
  translates as before with the same permissions, no frame is consumed, and the paging
  invariant holds again.
\<close>

theorem vmm_map_page_local:
  assumes "paging m" "pdi va \<noteq> 1023" "pde m va AND 3 = 3"
  shows "if translate m va \<noteq> None \<and> \<not> overwrite
    then vmm_map_page m physaddr va flags overwrite = Inr (-1, m)
    else \<exists>m'. vmm_map_page m physaddr va flags overwrite = Inr (0, m') \<and> paging m' \<and>
      free_pages m' = free_pages m \<and>
      (\<forall>va'. translate m' va' =
        (if frame va' = frame va then Some (frame physaddr + offset va') else translate m va')) \<and>
      (\<forall>va' b. b \<in> {1, 3, 5, 7} \<and> frame va' \<noteq> frame va \<longrightarrow> walk m' b va' = walk m b va')"
proof -
  have p: "pde m va AND 1 = 1" using assms(3) bits_sub by blast
  have pres: "translate m va \<noteq> None \<longleftrightarrow> pte m va AND 1 = 1" using p by (simp add: walk_def)
  have b: "b AND 1 = 1" if "b \<in> {1, 3, 5, 7}" for b :: u32 using that by auto
  note w = set_pte_walk [OF assms(1,2) p]
  show ?thesis
    using vmm_map_page_present [OF assms] set_pte_paging [OF assms(1,2) p] w b p pres by simp
qed

lemma run_mem_dir:
  assumes "dir run_mem i AND 1 = 1" "unat i < 1024"
  shows "i \<in> {1023, 768, 771, 32}"
proof (rule ccontr)
  assume "i \<notin> {1023, 768, 771, 32}"
  then have i: "unat i \<noteq> 1023" "unat i \<noteq> 768" "unat i \<noteq> 771" "unat i \<noteq> 32"
    by (auto simp: word_unat_eq_iff)
  have u: "unat (0x1000 + 4 * i) = 4096 + 4 * unat i"
    using assms(2) unat_plus_small [of "0x1000" "4 * i"] by (simp add: unat_times4 aligned_iff)
  have "0x1000 + 4 * i \<noteq> c" if "unat c \<notin> {8188, 7168, 7180, 4224}" "4096 + 4 * unat i \<noteq> unat c" for c
    using that u by auto
  have "dir run_mem i = 0"
    using i assms(2) by (simp add: dir_def eval_mem word_unat_eq_iff [of "0x1000 + 4 * i"] u)
  with assms(1) show False by simp
qed

lemma run_mem_paging: "paging run_mem"
  unfolding paging_def
proof (intro conjI run_mem_self allI impI)
  fix i j
  assume ij: "unat i < 1024 \<and> unat j < 1024 \<and> dir run_mem i AND 1 = 1 \<and> dir run_mem j AND 1 = 1 \<and>
    frame (dir run_mem i) = frame (dir run_mem j)"
  then have "i \<in> {1023, 768, 771, 32}" "j \<in> {1023, 768, 771, 32}" using run_mem_dir by blast+
  with ij show "i = j" by (auto simp: dir_def eval_mem)
qed

lemma vmm_map_page_local_witness:
  "vmm_map_page run_mem 0x9000 0x08000000 7 False = Inr (-1, run_mem) \<and>
   (\<exists>m'. vmm_map_page run_mem 0x9000 0x08001000 7 False = Inr (0, m') \<and>
      translate m' 0x08001234 = Some 0x9234 \<and> translate m' 0x08000234 = Some 0x6234)"
proof -
  have a: "pdi 0x08000000 \<noteq> 1023" "pde run_mem 0x08000000 AND 3 = 3" "translate run_mem 0x08000000 \<noteq> None"
    by (simp_all add: eval_mem)
  have b: "pdi 0x08001000 \<noteq> 1023" "pde run_mem 0x08001000 AND 3 = 3" "translate run_mem 0x08001000 = None"
    "translate run_mem 0x08000234 = Some 0x6234"
    by (simp_all add: eval_mem)
  have f: "frame 0x08001234 = frame 0x08001000" "frame 0x08000234 \<noteq> frame 0x08001000"
    "frame 0x9000 + offset 0x08001234 = 0x9234" by (simp_all add: frame_def offset_def)
  have "vmm_map_page run_mem 0x9000 0x08000000 7 False = Inr (-1, run_mem)"
    using vmm_map_page_local [OF run_mem_paging a(1,2), of False "0x9000" 7] a(3) by simp
  moreover obtain m' where "vmm_map_page run_mem 0x9000 0x08001000 7 False = Inr (0, m')"
    "translate m' va' = (if frame va' = frame 0x08001000 then Some (frame 0x9000 + offset va')
      else translate run_mem va')" for va'
    using vmm_map_page_local [OF run_mem_paging b(1,2), of False "0x9000" 7] b(3) by auto
  ultimately show ?thesis using b(4) f by simp
qed

text \<open>
  \<open>vmm_map_page\<close> on a page whose table does not exist takes one frame from the free
  stack, maps it at the end of the kernel memory, clears it, enters it as the page table and
  maps the page: the call returns 0, the page translates to the given frame, the kernel page
  to the new table, every other page outside the table window translates as before, and no
  other page of the new table is mapped. The nested call of the allocator cannot recurse
  further.
\<close>

theorem vmm_map_page_new_table:
  assumes "map_ready m" "pde m va AND 1 \<noteq> 1"
  shows "\<exists>m'. vmm_map_page m physaddr va flags overwrite = Inr (0, m') \<and> paging m' \<and>
    (\<forall>va'. pdi va' \<noteq> 1023 \<longrightarrow> translate m' va' =
      (if frame va' = frame va then Some (frame physaddr + offset va')
       else if frame va' = end_mapped_kmemory m then Some (last (free_pages m) + offset va')
       else translate m va'))"
proof -
  have b: "(1 :: u32) AND 1 = 1" by simp
  note s = map_page_new_table_steps [OF assms]
  let ?w = "with_table m va"
  have p: "pde ?w va AND 1 = 1" by (simp add: s(4) or_7_bits)
  have e: "pde m (end_mapped_kmemory m) AND 1 = 1"
    using assms(1) bits_sub by (auto simp: map_ready_def)
  show ?thesis
    using s(1) set_pte_paging [OF s(2,3) p] set_pte_walk [OF s(2,3) p b] s(5) [OF b]
      grown_walk(2) [OF assms(1) b] p e by simp
qed

lemma run_mem_ready: "map_ready run_mem"
proof -
  have l: "last (free_pages run_mem) = 0x101000" by (simp add: free_pages_def eval_mem upt_rec)
  have "\<not> table_frame run_mem 0x101000"
  proof
    assume "table_frame run_mem 0x101000"
    then consider "0x101000 = frame (cr3 run_mem)" |
      i where "unat i < 1024" "dir run_mem i AND 1 = 1" "0x101000 = frame (dir run_mem i)"
      by (auto simp: table_frame_def)
    then show False
    proof cases
      case 2
      then have "i \<in> {1023, 768, 771, 32}" using run_mem_dir by blast
      moreover have "frame (dir run_mem 1023) = 0x1000" "frame (dir run_mem 768) = 0x2000"
        "frame (dir run_mem 771) = 0x4000" "frame (dir run_mem 32) = 0x3000"
        by (simp_all add: dir_def eval_mem)
      ultimately show False using 2(3) by auto
    qed (simp add: eval_mem)
  qed
  moreover have "0 < pmem_stack_top run_mem \<and> pmem_stack_top run_mem \<le> MAX_PAGES"
    by (simp add: run_mem_def MAX_PAGES_def)
  moreover have e: "end_mapped_kmemory run_mem = 0xC0C00000" by (simp add: run_mem_def boot_mem_def)
  moreover have "aligned 0x101000 \<and> aligned 0xC0C00000" by (simp add: aligned_def frame_def)
  moreover have "pdi 0xC0C00000 \<noteq> 1023 \<and> pde run_mem 0xC0C00000 AND 3 = 3 \<and> pte run_mem 0xC0C00000 AND 1 \<noteq> 1"
    by (simp add: eval_mem)
  ultimately show ?thesis
    unfolding map_ready_def l e using run_mem_paging by (intro conjI) (auto simp del: One_nat_def)
qed

lemma vmm_map_page_new_table_witness:
  "\<exists>m'. vmm_map_page run_mem 0x9000 0x40000000 7 False = Inr (0, m') \<and>
     translate m' 0x40000123 = Some 0x9123 \<and> translate m' 0xC0C00010 = Some 0x101010 \<and>
     translate m' 0x40001123 = None"
proof -
  have "pde run_mem 0x40000000 AND 1 \<noteq> 1" by (simp add: eval_mem)
  from vmm_map_page_new_table [OF run_mem_ready this, of "0x9000" 7 False]
  obtain m' where m': "vmm_map_page run_mem 0x9000 0x40000000 7 False = Inr (0, m')"
    "pdi va' \<noteq> 1023 \<Longrightarrow> translate m' va' =
      (if frame va' = frame 0x40000000 then Some (frame 0x9000 + offset va')
       else if frame va' = end_mapped_kmemory run_mem then Some (last (free_pages run_mem) + offset va')
       else translate run_mem va')" for va' by blast
  have l: "last (free_pages run_mem) = 0x101000" by (simp add: free_pages_def eval_mem upt_rec)
  have e: "end_mapped_kmemory run_mem = 0xC0C00000" by (simp add: run_mem_def boot_mem_def)
  have t: "translate run_mem 0x40001123 = None" by (simp add: eval_mem)
  have "translate m' 0x40000123 = Some 0x9123"
    by (subst m'(2)) (simp_all add: pdi_def frame_def offset_def drop_bit_word_numeral)
  moreover have "translate m' 0xC0C00010 = Some 0x101010"
    by (subst m'(2)) (simp_all add: l e pdi_def frame_def offset_def drop_bit_word_numeral)
  moreover have "translate m' 0x40001123 = None"
    by (subst m'(2)) (simp_all add: e t pdi_def frame_def drop_bit_word_numeral)
  ultimately show ?thesis using m'(1) by blast
qed

text \<open>
  C39: The recursion of \<open>vmm_map_page\<close> through the page allocator ends: with more fuel than
  there are free frames the result does not depend on the fuel, and the calls never run out
  of it.
\<close>

theorem vmm_map_page_terminates:
  assumes "pmem_stack_top m < n"
  shows "map_page_fuel n m physaddr va flags overwrite = vmm_map_page m physaddr va flags overwrite \<and>
    \<not> out_of_fuel (vmm_map_page m physaddr va flags overwrite)"
  using map_page_enough_fuel [OF assms] map_page_fuel_never [of m "Suc (pmem_stack_top m)"]
  by (simp add: vmm_map_page_def)

lemma vmm_map_page_terminates_witness:
  "map_page_fuel 3 run_mem 0x9000 0x40000000 7 False = vmm_map_page run_mem 0x9000 0x40000000 7 False"
  using vmm_map_page_terminates [of run_mem 3 "0x9000" "0x40000000" 7 False]
  by (simp add: run_mem_def)

text \<open>
  Mapping and unmapping are inverse: unmapping a page that was not mapped before
  \<open>vmm_map_page\<close> mapped it returns 1 and gives back the translation of every page as it was;
  unmapping it once more returns 0 and changes nothing.
\<close>

theorem vmm_map_unmap:
  assumes "paging m" "pdi va \<noteq> 1023" "pde m va AND 3 = 3" "translate m va = None"
  shows "\<exists>m1 m2. vmm_map_page m physaddr va flags overwrite = Inr (0, m1) \<and>
    vmm_unmap_page m1 va = Inr (1, m2) \<and> (\<forall>va'. translate m2 va' = translate m va') \<and> paging m2 \<and>
    vmm_unmap_page m2 va = Inr (0, m2)"
proof -
  have b: "(1 :: u32) AND 1 = 1" by simp
  have p: "pde m va AND 1 = 1" using assms(3) bits_sub by blast
  let ?m1 = "set_pte m va (new_pte physaddr flags)"
  let ?m2 = "set_pte ?m1 va 0"
  have d: "pde (set_pte M va x) va = pde M va" if "paging M" "pde M va AND 1 = 1" for M x
    using set_pte_dir [OF that(1) assms(2) that(2) pdi_less] by (simp add: pde_dir)
  have d1: "pde ?m1 va = pde m va" by (rule d [OF assms(1) p])
  have pg1: "paging ?m1" by (rule set_pte_paging [OF assms(1,2) p])
  have p1: "pde ?m1 va AND 1 = 1" using d1 p by simp
  have pg2: "paging ?m2" by (rule set_pte_paging [OF pg1 assms(2) p1])
  have d2: "pde ?m2 va = pde m va" using d [OF pg1 p1] d1 by simp
  note w1 = set_pte_walk [OF assms(1,2) p b] and w2 = set_pte_walk [OF pg1 assms(2) p1 b]
  have same: "frame va' = frame va \<Longrightarrow> translate m va' = None" for va'
  proof -
    assume "frame va' = frame va"
    then have "pdi va' = pdi va" "pti va' = pti va" by (metis pdi_frame, metis pti_frame)
    then show ?thesis
      using assms(4) by (auto simp: walk_def pte_def pte_addr_def pde_dir split: if_splits)
  qed
  have "vmm_map_page m physaddr va flags overwrite = Inr (0, ?m1)"
    using vmm_map_page_present [OF assms(1-3)] assms(4) p
    by (cases "pte m va AND 1 = 1") (simp_all add: walk_def)
  moreover have "vmm_unmap_page ?m1 va = Inr (1, ?m2)"
    using unmap_page_eq [OF pg1 assms(2)] d1 assms(3) w1 [of _ va] p by simp
  moreover have "translate ?m2 va' = translate m va'" for va'
    using w2 [of 0 va'] w1 [of _ va'] same [of va'] by simp
  moreover have "vmm_unmap_page ?m2 va = Inr (0, ?m2)"
    using unmap_page_eq [OF pg2 assms(2)] d2 assms(3) w2 [of 0 va] by simp
  ultimately show ?thesis using pg2 by blast
qed

lemma vmm_map_unmap_witness:
  "\<exists>m1 m2. vmm_map_page run_mem 0x9000 0x08001000 7 False = Inr (0, m1) \<and>
    vmm_unmap_page m1 0x08001000 = Inr (1, m2) \<and> translate m2 0x08000004 = Some 0x6004"
proof -
  have b: "pdi 0x08001000 \<noteq> 1023" "pde run_mem 0x08001000 AND 3 = 3" "translate run_mem 0x08001000 = None"
    and c: "translate run_mem 0x08000004 = Some 0x6004"
    by (simp_all add: eval_mem)
  show ?thesis using vmm_map_unmap [OF run_mem_paging b, of "0x9000" 7 False] c by auto
qed

end
