(* ===== verification/CString.thy ===== *)
theory CString
  imports Prelude
begin

section \<open>The string routines of libc/string\<close>

text \<open>
  A pointer into a C object is the list of the bytes from the pointer to the end of the
  object, so \<open>p + n\<close> is \<open>drop n p\<close>, and reading or writing past the list is outside the
  object: a \<open>Fault\<close>. Bytes are \<open>char\<close>s, the terminator is \<open>NUL\<close>. A routine that
  writes returns the bytes of the destination after the call. The value of a
  NUL-terminated buffer is \<open>cstr\<close>; the functional lemmas say what each routine does to it.
  The routines are shared by the kernel and the userspace library.
\<close>

abbreviation (input) NUL :: char where "NUL \<equiv> CHR 0x00"

definition terminated :: "string \<Rightarrow> bool" where
  "terminated buf \<longleftrightarrow> NUL \<in> set buf"

definition cstr :: "string \<Rightarrow> string" where
  "cstr buf = takeWhile (\<lambda>c. c \<noteq> NUL) buf"

lemma cstr_simps [simp]:
  "cstr [] = []" "cstr (c # cs) = (if c = NUL then [] else c # cstr cs)"
  by (simp_all add: cstr_def)

lemma terminated_simps [simp]:
  "\<not> terminated []" "terminated (c # cs) \<longleftrightarrow> c = NUL \<or> terminated cs"
  by (auto simp: terminated_def)

lemma NUL_notin_cstr [simp]: "NUL \<notin> set (cstr buf)"
  by (induction buf) auto

lemma cstr_append_NUL [simp]: "NUL \<notin> set s \<Longrightarrow> cstr (s @ NUL # r) = s"
  by (induction s) auto

lemma terminated_append_NUL [simp]: "terminated (s @ NUL # r)"
  by (simp add: terminated_def)

lemma terminated_split:
  "terminated buf \<longleftrightarrow> (\<exists>s r. buf = s @ NUL # r \<and> NUL \<notin> set s)"
  unfolding terminated_def by (rule in_set_conv_decomp_first)

lemma terminated_cstr:
  "terminated buf \<Longrightarrow> \<exists>r. buf = cstr buf @ NUL # r"
  by (induction buf) auto

text \<open>Characters compare as \<open>unsigned char\<close>.\<close>

definition uchar :: "char \<Rightarrow> int" where
  "uchar c = int (of_char c)"

lemma uchar_range: "0 \<le> uchar c \<and> uchar c < 256"
  using nat_of_char_less_256 [of c] by (simp add: uchar_def)

lemma uchar_eq [simp]: "uchar a = uchar b \<longleftrightarrow> a = b"
  by (simp add: uchar_def)

subsection \<open>Length and comparison\<close>

text \<open>\<open>libc/string/strlen.c\<close>\<close>

fun strlen :: "string \<Rightarrow> nat res" where
  "strlen [] = Inl (Fault ''strlen'')"
| "strlen (c # cs) = (if c = NUL then Inr 0 else rbind (strlen cs) (\<lambda>n. Inr (Suc n)))"

lemma strlen_cstr: "terminated buf \<Longrightarrow> strlen buf = Inr (length (cstr buf))"
  by (induction buf) auto

lemma strlen_Inr: "strlen buf = Inr n \<longleftrightarrow> terminated buf \<and> n = length (cstr buf)"
  by (induction buf arbitrary: n) (auto simp: rbind_eq_Inr)

text \<open>\<open>libc/string/strcmp.c\<close>: the bytes are read as unsigned.\<close>

fun strcmp :: "string \<Rightarrow> string \<Rightarrow> int res" where
  "strcmp (a # s) (b # t) =
     (if a \<noteq> NUL \<and> a = b then strcmp s t
      else Inr ((if uchar a > uchar b then 1 else 0) - (if uchar b > uchar a then 1 else 0)))"
| "strcmp s t = Inl (Fault ''strcmp'')"

lemma strcmp_ok: "terminated s \<Longrightarrow> terminated t \<Longrightarrow> ok (strcmp s t)"
  by (induction s t rule: strcmp.induct) auto

lemma strcmp_eq_0:
  "terminated s \<Longrightarrow> terminated t \<Longrightarrow> strcmp s t = Inr 0 \<longleftrightarrow> cstr s = cstr t"
proof (induction s t rule: strcmp.induct)
  case (1 a s b t)
  have "uchar a = uchar b \<longleftrightarrow> a = b" by simp
  with 1 show ?case by (auto split: if_splits)
qed auto

text \<open>\<open>libc/string/strncmp.c\<close>\<close>

fun strncmp :: "string \<Rightarrow> string \<Rightarrow> nat \<Rightarrow> int res" where
  "strncmp s t 0 = Inr 0"
| "strncmp (a # s) (b # t) (Suc n) =
     (if a \<noteq> b then Inr (uchar a - uchar b)
      else if a = NUL then Inr 0 else strncmp s t n)"
| "strncmp s t (Suc n) = Inl (Fault ''strncmp'')"

lemma strncmp_eq_0:
  "terminated s \<Longrightarrow> terminated t \<Longrightarrow>
   strncmp s t n = Inr 0 \<longleftrightarrow> take n (cstr s) = take n (cstr t)"
proof (induction s t n rule: strncmp.induct)
  case (2 a s b t n)
  have "uchar a = uchar b \<longleftrightarrow> a = b" by simp
  with 2 show ?case by (auto split: if_splits)
qed auto

text \<open>\<open>libc/string/memcmp.c\<close>\<close>

fun memcmp :: "string \<Rightarrow> string \<Rightarrow> nat \<Rightarrow> int res" where
  "memcmp a b 0 = Inr 0"
| "memcmp (x # a) (y # b) (Suc n) =
     (if uchar x < uchar y then Inr (- 1)
      else if uchar y < uchar x then Inr 1 else memcmp a b n)"
| "memcmp a b (Suc n) = Inl (Fault ''memcmp'')"

lemma memcmp_eq_0:
  "n \<le> length a \<Longrightarrow> n \<le> length b \<Longrightarrow> memcmp a b n = Inr 0 \<longleftrightarrow> take n a = take n b"
proof (induction a b n rule: memcmp.induct)
  case (2 x a y b n)
  have "uchar x = uchar y \<longleftrightarrow> x = y" by simp
  with 2 show ?case by (auto split: if_splits)
qed auto

subsection \<open>Copying and filling\<close>

text \<open>\<open>libc/string/memcpy.c\<close> and \<open>memset.c\<close>\<close>

fun memcpy :: "'a list \<Rightarrow> 'a list \<Rightarrow> nat \<Rightarrow> 'a list res" where
  "memcpy dst src 0 = Inr dst"
| "memcpy (d # dst) (s # src) (Suc n) = rbind (memcpy dst src n) (\<lambda>r. Inr (s # r))"
| "memcpy dst src (Suc n) = Inl (Fault ''memcpy'')"

fun memset :: "'a list \<Rightarrow> 'a \<Rightarrow> nat \<Rightarrow> 'a list res" where
  "memset buf v 0 = Inr buf"
| "memset (b # buf) v (Suc n) = rbind (memset buf v n) (\<lambda>r. Inr (v # r))"
| "memset [] v (Suc n) = Inl (Fault ''memset'')"

lemma memcpy_ok:
  "n \<le> length dst \<Longrightarrow> n \<le> length src \<Longrightarrow> memcpy dst src n = Inr (take n src @ drop n dst)"
  by (induction dst src n rule: memcpy.induct) auto

lemma memcpy_Inr:
  "memcpy dst src n = Inr r \<longleftrightarrow>
   n \<le> length dst \<and> n \<le> length src \<and> r = take n src @ drop n dst"
  by (induction dst src n arbitrary: r rule: memcpy.induct) (auto simp: rbind_eq_Inr)

lemma memset_ok: "n \<le> length buf \<Longrightarrow> memset buf v n = Inr (replicate n v @ drop n buf)"
  by (induction buf v n rule: memset.induct) auto

lemma memset_Inr:
  "memset buf v n = Inr r \<longleftrightarrow> n \<le> length buf \<and> r = replicate n v @ drop n buf"
  by (induction buf v n arbitrary: r rule: memset.induct) (auto simp: rbind_eq_Inr)

text \<open>
  \<open>libc/string/memmove.c\<close>: both pointers point into one object \<open>buf\<close>, at the offsets
  \<open>d\<close> and \<open>s\<close>. The loops read and write the object one byte at a time.
\<close>

fun memmove_up :: "'a list \<Rightarrow> nat \<Rightarrow> nat \<Rightarrow> nat \<Rightarrow> 'a list res" where
  "memmove_up buf d s 0 = Inr buf"
| "memmove_up buf d s (Suc n) =
     rbind (aget ''memmove'' buf s) (\<lambda>x.
     rbind (aset ''memmove'' buf d x) (\<lambda>buf.
     memmove_up buf (Suc d) (Suc s) n))"

fun memmove_down :: "'a list \<Rightarrow> nat \<Rightarrow> nat \<Rightarrow> nat \<Rightarrow> 'a list res" where
  "memmove_down buf d s 0 = Inr buf"
| "memmove_down buf d s (Suc i) =
     rbind (aget ''memmove'' buf (s + i)) (\<lambda>x.
     rbind (aset ''memmove'' buf (d + i) x) (\<lambda>buf.
     memmove_down buf d s i))"

definition memmove :: "'a list \<Rightarrow> nat \<Rightarrow> nat \<Rightarrow> nat \<Rightarrow> 'a list res" where
  "memmove buf d s n =
     (if d < s then memmove_up buf d s n else memmove_down buf d s n)"

lemma memmove_up_ok:
  "d \<le> s \<Longrightarrow> s + n \<le> length buf \<Longrightarrow>
   memmove_up buf d s n = Inr (take d buf @ take n (drop s buf) @ drop (d + n) buf)"
proof (induction buf d s n rule: memmove_up.induct)
  case (2 buf d s n)
  let ?b = "buf[d := buf ! s]"
  from "2.prems" have lt: "s < length buf" "d < length buf" by auto
  have tk: "take (Suc d) ?b = take d buf @ [buf ! s]"
    using lt by (simp add: take_Suc_conv_app_nth)
  have dr: "take n (drop (Suc s) ?b) = take n (drop (Suc s) buf)"
    using "2.prems" by simp
  have "take (Suc n) (drop s buf) = buf ! s # take n (drop (Suc s) buf)"
    using lt by (simp flip: Cons_nth_drop_Suc)
  with 2 lt tk dr show ?case by simp
qed simp

lemma memmove_down_ok:
  "s \<le> d \<Longrightarrow> d + n \<le> length buf \<Longrightarrow>
   memmove_down buf d s n = Inr (take d buf @ take n (drop s buf) @ drop (d + n) buf)"
proof (induction buf d s n rule: memmove_down.induct)
  case (2 buf d s i)
  let ?b = "buf[d + i := buf ! (s + i)]"
  from "2.prems" have lt: "s + i < length buf" "d + i < length buf" by auto
  have sub: "take i (drop s ?b) = take i (drop s buf)"
    using "2.prems" by (simp add: drop_update_swap)
  have "take (Suc i) (drop s buf) = take i (drop s buf) @ [buf ! (s + i)]"
    using lt by (simp add: take_Suc_conv_app_nth)
  moreover have "drop (d + i) ?b = buf ! (s + i) # drop (Suc (d + i)) buf"
    using lt by (simp add: drop_update_swap flip: Cons_nth_drop_Suc)
  ultimately show ?case using 2 lt sub by simp
qed simp

text \<open>\<open>libc/string/strcpy.c\<close>, \<open>strcat.c\<close>, \<open>strncat.c\<close>, \<open>strncpy.c\<close>, \<open>strdup.c\<close>\<close>

fun strcpy :: "string \<Rightarrow> string \<Rightarrow> string res" where
  "strcpy (d # ds) (s # ss) =
     (if s = NUL then Inr (NUL # ds) else rbind (strcpy ds ss) (\<lambda>r. Inr (s # r)))"
| "strcpy dest src = Inl (Fault ''strcpy'')"

fun strcat :: "string \<Rightarrow> string \<Rightarrow> string res" where
  "strcat [] src = Inl (Fault ''strcat'')"
| "strcat (d # ds) src =
     (if d \<noteq> NUL then rbind (strcat ds src) (\<lambda>r. Inr (d # r)) else strcpy (d # ds) src)"

text \<open>
  The second loop of \<open>strncat\<close>: it ends on a terminator in the source, or when \<open>n\<close> has
  wrapped below zero, and only then writes the terminator itself.
\<close>

fun strncat_copy :: "string \<Rightarrow> string \<Rightarrow> nat \<Rightarrow> string res" where
  "strncat_copy dest src 0 = aset ''strncat'' dest 0 NUL"
| "strncat_copy (d # ds) (s # ss) (Suc n) =
     (if s = NUL then Inr (NUL # ds) else rbind (strncat_copy ds ss n) (\<lambda>r. Inr (s # r)))"
| "strncat_copy dest src (Suc n) = Inl (Fault ''strncat'')"

fun strncat :: "string \<Rightarrow> string \<Rightarrow> nat \<Rightarrow> string res" where
  "strncat [] src n = Inl (Fault ''strncat'')"
| "strncat (d # ds) src n =
     (if d \<noteq> NUL then rbind (strncat ds src n) (\<lambda>r. Inr (d # r))
      else strncat_copy (d # ds) src n)"

definition strncpy :: "string \<Rightarrow> string \<Rightarrow> nat \<Rightarrow> string res" where
  "strncpy s1 s2 n =
     rbind (strlen s2) (\<lambda>len.
     let size = (if len > n then n else len) in
     rbind (if size \<noteq> n
            then rbind (memset (drop size s1) NUL (n - size)) (\<lambda>t. Inr (take size s1 @ t))
            else Inr s1) (\<lambda>s1.
     memcpy s1 s2 size))"

text \<open>\<open>strdup\<close> returns a block of \<open>strlen(s) + 1\<close> bytes; its old contents are \<open>block\<close>.\<close>

definition strdup :: "string \<Rightarrow> string \<Rightarrow> string res" where
  "strdup block s =
     rbind (strlen s) (\<lambda>len. memcpy (take (len + 1) block) s (len + 1))"

lemma strcpy_ok:
  assumes "terminated src" "length (cstr src) < length dest"
  shows "strcpy dest src = Inr (cstr src @ NUL # drop (Suc (length (cstr src))) dest)"
  using assms by (induction dest src rule: strcpy.induct) auto

lemma strcat_ok:
  assumes "terminated dest" "terminated src"
    "length (cstr dest) + length (cstr src) < length dest"
  shows "\<exists>r. strcat dest src = Inr r \<and> terminated r \<and> cstr r = cstr dest @ cstr src
     \<and> length r = length dest"
  using assms
proof (induction dest src rule: strcat.induct)
  case (2 d ds src)
  then show ?case
    by (cases "d = NUL") (auto simp: strcpy_ok)
qed auto

lemma strncat_copy_ok:
  assumes "terminated src" "min n (length (cstr src)) < length dest"
  shows "\<exists>r. strncat_copy dest src n = Inr r \<and> terminated r \<and> cstr r = take n (cstr src)
     \<and> length r = length dest"
  using assms
proof (induction dest src n rule: strncat_copy.induct)
  case (1 dest src)
  then show ?case by (cases dest) auto
next
  case (2 d ds s ss n)
  then show ?case by (cases "s = NUL") auto
qed auto

lemma strncat_ok:
  assumes "terminated dest" "terminated src"
    "length (cstr dest) + min n (length (cstr src)) < length dest"
  shows "\<exists>r. strncat dest src n = Inr r \<and> terminated r
     \<and> cstr r = cstr dest @ take n (cstr src) \<and> length r = length dest"
  using assms
proof (induction dest src n rule: strncat.induct)
  case (2 d ds src n)
  then show ?case
    using strncat_copy_ok [of src n "d # ds"] by (cases "d = NUL") auto
qed auto

lemma terminated_take:
  "terminated src \<Longrightarrow> n \<le> length (cstr src) \<Longrightarrow> take n src = take n (cstr src)"
  by (drule terminated_cstr) (metis append_take_drop_id take_append diff_is_0_eq take0 append_Nil2)

lemma strncpy_ok:
  assumes "terminated s2" "n \<le> length s1"
  shows "strncpy s1 s2 n =
    Inr (take n (cstr s2) @ replicate (n - length (cstr s2)) NUL @ drop n s1)"
proof -
  let ?k = "length (cstr s2)"
  have len: "?k \<le> length s2"
    using terminated_cstr [OF assms(1)] by (metis length_append le_add1)
  show ?thesis
  proof (cases "?k < n")
    case True
    have "take ?k s2 = cstr s2"
      using terminated_take [OF assms(1)] by simp
    with True assms len show ?thesis
      by (simp add: strncpy_def strlen_cstr memset_ok memcpy_ok Let_def)
  next
    case False
    with assms len show ?thesis
      by (auto simp: strncpy_def strlen_cstr memcpy_ok Let_def terminated_take)
  qed
qed

lemma strdup_ok:
  assumes "terminated s" "length (cstr s) < length block"
  shows "strdup block s = Inr (cstr s @ [NUL])"
proof -
  obtain r where s: "s = cstr s @ NUL # r" using terminated_cstr [OF assms(1)] by blast
  have "take (length (cstr s) + 1) s = cstr s @ [NUL]"
    by (subst s) (simp add: take_Suc_conv_app_nth)
  moreover have "length (cstr s) + 1 \<le> length s" by (subst (2) s) simp
  ultimately show ?thesis
    using assms by (simp add: strdup_def strlen_cstr memcpy_ok)
qed

subsection \<open>Searching\<close>

text \<open>\<open>libc/string/strchr.c\<close> and \<open>strrchr.c\<close>: the pointer found is an offset.\<close>

fun strchr :: "string \<Rightarrow> char \<Rightarrow> nat option res" where
  "strchr [] c = Inl (Fault ''strchr'')"
| "strchr (x # xs) c =
     (if x \<noteq> NUL
      then if x = c then Inr (Some 0) else rbind (strchr xs c) (\<lambda>r. Inr (map_option Suc r))
      else if c = NUL then Inr (Some 0) else Inr None)"

fun strrchr_loop :: "string \<Rightarrow> char \<Rightarrow> nat \<Rightarrow> nat option \<Rightarrow> nat option res" where
  "strrchr_loop [] c i retval = Inl (Fault ''strrchr'')"
| "strrchr_loop (x # xs) c i retval =
     (let retval = (if x = c then Some i else retval)
      in if x = NUL then Inr retval else strrchr_loop xs c (Suc i) retval)"

definition strrchr :: "string \<Rightarrow> char \<Rightarrow> nat option res" where
  "strrchr s c = strrchr_loop s c 0 None"

lemma strchr_found:
  "c \<noteq> NUL \<Longrightarrow> NUL \<notin> set a \<Longrightarrow> c \<notin> set a \<Longrightarrow> strchr (a @ c # b) c = Inr (Some (length a))"
  by (induction a) auto

lemma strchr_none:
  "c \<noteq> NUL \<Longrightarrow> terminated s \<Longrightarrow> c \<notin> set (cstr s) \<Longrightarrow> strchr s c = Inr None"
  by (induction s) (auto split: if_splits)

lemma strrchr_loop_none:
  "c \<noteq> NUL \<Longrightarrow> terminated s \<Longrightarrow> c \<notin> set (cstr s) \<Longrightarrow> strrchr_loop s c i r = Inr r"
  by (induction s arbitrary: i) (auto simp: Let_def split: if_splits)

lemma strrchr_loop_found:
  "c \<noteq> NUL \<Longrightarrow> NUL \<notin> set a \<Longrightarrow> terminated b \<Longrightarrow> c \<notin> set (cstr b) \<Longrightarrow>
   strrchr_loop (a @ c # b) c i r = Inr (Some (i + length a))"
  by (induction a arbitrary: i r) (auto simp: strrchr_loop_none Let_def)

lemma strrchr_found:
  "c \<noteq> NUL \<Longrightarrow> NUL \<notin> set a \<Longrightarrow> terminated b \<Longrightarrow> c \<notin> set (cstr b) \<Longrightarrow>
   strrchr (a @ c # b) c = Inr (Some (length a))"
  by (simp add: strrchr_def strrchr_loop_found)

lemma strrchr_none:
  "c \<noteq> NUL \<Longrightarrow> terminated s \<Longrightarrow> c \<notin> set (cstr s) \<Longrightarrow> strrchr s c = Inr None"
  by (simp add: strrchr_def strrchr_loop_none)

end
