(* ===== verification/Safecpy.thy ===== *)
theory Safecpy
  imports Paging CString
begin

section \<open>Checked copies to and from user memory\<close>

text \<open>
  \<open>kernel/kernel/sched/safecpy.c\<close>. The byte copy \<open>safecpy_asm\<close> of \<open>boot.S\<close> reads and
  writes in ring 0; a page fault in it returns -1 instead of panicking. A kernel buffer is a
  list of bytes, a user buffer an address. A copy returns 0 or -1, like the source, and the
  memory; the bytes before a bad page have been copied when it returns -1.
\<close>

subsection \<open>Bytes of memory\<close>

definition dword_of :: "u32 \<Rightarrow> u32" where "dword_of pa = pa AND NOT 3"

definition lane :: "u32 \<Rightarrow> nat" where "lane pa = unat (pa AND 3)"

definition get_byte :: "u32 \<Rightarrow> nat \<Rightarrow> char" where
  "get_byte w i = char_of (unat (drop_bit (8 * i) w))"

definition put_byte :: "u32 \<Rightarrow> nat \<Rightarrow> char \<Rightarrow> u32" where
  "put_byte w i c = (w AND NOT (push_bit (8 * i) 0xFF)) OR push_bit (8 * i) (of_nat (of_char c))"

definition vread8 :: "mem \<Rightarrow> u32 \<Rightarrow> char option" where
  "vread8 m va = map_option (\<lambda>pa. get_byte (phys m (dword_of pa)) (lane pa)) (walk m 1 va)"

definition vwrite8 :: "mem \<Rightarrow> u32 \<Rightarrow> char \<Rightarrow> mem option" where
  "vwrite8 m va c = map_option
     (\<lambda>pa. m\<lparr>phys := (phys m)(dword_of pa := put_byte (phys m (dword_of pa)) (lane pa) c)\<rparr>) (walk m 3 va)"

subsection \<open>The operations\<close>

definition safecpy_check_user :: "u32 \<Rightarrow> u32 \<Rightarrow> bool" where
  "safecpy_check_user start n =
     (if start \<ge> KERNEL_START then False
      else if n > KERNEL_START - start then False
      else True)"

primrec to_user_loop :: "mem \<Rightarrow> u32 \<Rightarrow> string \<Rightarrow> int \<times> mem" where
  "to_user_loop m dst [] = (0, m)"
| "to_user_loop m dst (c # src) =
     (case vwrite8 m dst c of None \<Rightarrow> (-1, m) | Some m \<Rightarrow> to_user_loop m (dst + 1) src)"

definition safecpy_to_user :: "mem \<Rightarrow> u32 \<Rightarrow> string \<Rightarrow> int \<times> mem" where
  "safecpy_to_user m dst src =
     (if length src = 0 then (0, m)
      else if \<not> safecpy_check_user dst (of_nat (length src)) then (-1, m)
      else to_user_loop m dst src)"

text \<open>Reading: the bytes that arrived in the kernel buffer, \<open>None\<close> for -1.\<close>

primrec from_user_loop :: "mem \<Rightarrow> u32 \<Rightarrow> nat \<Rightarrow> string option" where
  "from_user_loop m src 0 = Some []"
| "from_user_loop m src (Suc n) =
     (case vread8 m src of None \<Rightarrow> None
      | Some c \<Rightarrow> map_option ((#) c) (from_user_loop m (src + 1) n))"

definition safecpy_from_user :: "mem \<Rightarrow> u32 \<Rightarrow> u32 \<Rightarrow> string option" where
  "safecpy_from_user m src n =
     (if n = 0 then Some []
      else if \<not> safecpy_check_user src n then None
      else from_user_loop m src (unat n))"

text \<open>\<open>safelen_max_err\<close>: the length or -1, and the error it stores.\<close>

primrec safelen_loop :: "mem \<Rightarrow> u32 \<Rightarrow> nat \<Rightarrow> nat \<Rightarrow> int \<times> int" where
  "safelen_loop m base len 0 = (-1, - ENAMETOOLONG)"
| "safelen_loop m base len (Suc k) =
     (case vread8 m (base + of_nat len) of None \<Rightarrow> (-1, - EFAULT)
      | Some test \<Rightarrow> if test = NUL then (int len, 0) else safelen_loop m base (Suc len) k)"

definition safelen_max_err :: "mem \<Rightarrow> u32 \<Rightarrow> u32 \<Rightarrow> int \<times> int" where
  "safelen_max_err m str mx =
     (if str \<ge> KERNEL_START then (-1, - EFAULT)
      else let avail = KERNEL_START - str;
               mx = (if mx > avail then avail else mx) in
        safelen_loop m str 0 (unat mx))"

definition safelen_max :: "mem \<Rightarrow> u32 \<Rightarrow> u32 \<Rightarrow> int" where
  "safelen_max m str mx = fst (safelen_max_err m str mx)"

definition safelen :: "mem \<Rightarrow> u32 \<Rightarrow> int" where
  "safelen m str = (if str \<ge> KERNEL_START then -1 else safelen_max m str (KERNEL_START - str))"

subsection \<open>The range check\<close>

lemma check_user_iff:
  "safecpy_check_user start n \<longleftrightarrow> start < KERNEL_START \<and> unat start + unat n \<le> unat KERNEL_START"
proof (cases "start < KERNEL_START")
  case True
  then have "unat (KERNEL_START - start) = unat KERNEL_START - unat start" "unat start < unat KERNEL_START"
    by (simp_all add: unat_sub word_less_nat_alt word_le_nat_alt)
  moreover have "\<not> KERNEL_START \<le> start" using True by simp
  ultimately show ?thesis using True by (auto simp: safecpy_check_user_def word_less_nat_alt)
qed (auto simp: safecpy_check_user_def)

subsection \<open>Reading user memory\<close>

lemma from_user_loop_length: "from_user_loop m a n = Some s \<Longrightarrow> length s = n"
  by (induction n arbitrary: a s) (auto split: option.splits)

lemma from_user_loop_nth:
  "from_user_loop m a n = Some s \<longleftrightarrow>
   length s = n \<and> (\<forall>i<n. vread8 m (a + of_nat i) = Some (s ! i))"
proof (induction n arbitrary: a s)
  case (Suc n)
  have shift: "a + of_nat (Suc i) = a + 1 + of_nat i" for i :: nat by simp
  have split: "(\<forall>i<Suc n. P i) \<longleftrightarrow> P 0 \<and> (\<forall>i<n. P (Suc i))" for P :: "nat \<Rightarrow> bool"
    by (metis Suc_less_eq gr0_conv_Suc less_Suc_eq_0_disj)
  show ?case
    unfolding split shift
    by (cases s) (auto simp: Suc split: option.splits)
qed auto

lemma safecpy_from_user_length: "safecpy_from_user m a n = Some s \<Longrightarrow> length s = unat n"
  by (auto simp: safecpy_from_user_def from_user_loop_length split: if_splits)

lemma safecpy_from_user_Some:
  "safecpy_from_user m a n = Some s \<longleftrightarrow> length s = unat n \<and>
     (n = 0 \<or> a < KERNEL_START \<and> unat a + unat n \<le> unat KERNEL_START \<and>
       (\<forall>i<unat n. vread8 m (a + of_nat i) = Some (s ! i)))"
  by (auto simp: safecpy_from_user_def check_user_iff from_user_loop_nth unat_eq_0)

subsection \<open>String length\<close>

text \<open>
  The user string at \<open>a\<close> of length \<open>n\<close>: \<open>n\<close> readable bytes other than NUL, then a NUL.
\<close>

definition user_len :: "mem \<Rightarrow> u32 \<Rightarrow> nat \<Rightarrow> bool" where
  "user_len m a n \<longleftrightarrow> (\<forall>i<n. \<exists>c. vread8 m (a + of_nat i) = Some c \<and> c \<noteq> NUL) \<and>
     vread8 m (a + of_nat n) = Some NUL"

lemma user_len_unique:
  assumes "user_len m a n" "user_len m a k"
  shows "n = k"
proof (rule ccontr)
  assume "n \<noteq> k"
  then consider "n < k" | "k < n" by linarith
  then show False
  proof cases
    case 1
    with assms obtain c where "vread8 m (a + of_nat n) = Some c" "c \<noteq> NUL" by (auto simp: user_len_def)
    with assms show False by (simp add: user_len_def)
  next
    case 2
    with assms obtain c where "vread8 m (a + of_nat k) = Some c" "c \<noteq> NUL" by (auto simp: user_len_def)
    with assms show False by (simp add: user_len_def)
  qed
qed

lemma safelen_loop_cases:
  assumes "\<forall>i<len. \<exists>c. vread8 m (a + of_nat i) = Some c \<and> c \<noteq> NUL"
  shows "(\<exists>n. len \<le> n \<and> n < len + k \<and> user_len m a n \<and> safelen_loop m a len k = (int n, 0)) \<or>
    (\<exists>n. len \<le> n \<and> n < len + k \<and> (\<forall>i<n. \<exists>c. vread8 m (a + of_nat i) = Some c \<and> c \<noteq> NUL) \<and>
       vread8 m (a + of_nat n) = None \<and> safelen_loop m a len k = (-1, - EFAULT)) \<or>
    (\<forall>i<len + k. \<exists>c. vread8 m (a + of_nat i) = Some c \<and> c \<noteq> NUL) \<and>
       safelen_loop m a len k = (-1, - ENAMETOOLONG)"
  using assms
proof (induction k arbitrary: len)
  case (Suc k)
  show ?case
  proof (cases "vread8 m (a + of_nat len)")
    case None
    then show ?thesis using Suc.prems by auto
  next
    case (Some c)
    show ?thesis
    proof (cases "c = NUL")
      case True
      then have "user_len m a len" using Suc.prems Some by (simp add: user_len_def)
      then show ?thesis using Some True by auto
    next
      case False
      then have "\<forall>i<Suc len. \<exists>c. vread8 m (a + of_nat i) = Some c \<and> c \<noteq> NUL"
        using Suc.prems Some by (auto simp: less_Suc_eq)
      from Suc.IH [OF this] show ?thesis using Some False
        by (elim disjE exE conjE) (auto simp: Suc_le_eq intro: less_imp_le)
    qed
  qed
qed simp

lemma safelen_loop_split:
  assumes "\<And>n. n < k \<Longrightarrow> user_len m a n \<Longrightarrow> safelen_loop m a 0 k = (int n, 0) \<Longrightarrow> P"
    and "\<And>j. j < k \<Longrightarrow> \<forall>i<j. \<exists>c. vread8 m (a + of_nat i) = Some c \<and> c \<noteq> NUL \<Longrightarrow>
      vread8 m (a + of_nat j) = None \<Longrightarrow> safelen_loop m a 0 k = (-1, - EFAULT) \<Longrightarrow> P"
    and "\<forall>i<k. \<exists>c. vread8 m (a + of_nat i) = Some c \<and> c \<noteq> NUL \<Longrightarrow>
      safelen_loop m a 0 k = (-1, - ENAMETOOLONG) \<Longrightarrow> P"
  shows P
proof -
  have z: "\<forall>i<0. \<exists>c. vread8 m (a + of_nat i) = Some c \<and> c \<noteq> NUL" by simp
  from safelen_loop_cases [OF z, of k] show P
    unfolding add_0 using assms by (elim disjE exE conjE) assumption+
qed

lemma safelen_Some:
  "safelen_max_err m a mx = (int n, 0) \<longleftrightarrow>
   a < KERNEL_START \<and> user_len m a n \<and> n < unat mx \<and> unat a + n < unat KERNEL_START"
proof (cases "a < KERNEL_START")
  case True
  then have sub: "unat (KERNEL_START - a) = unat KERNEL_START - unat a" "unat a < unat KERNEL_START"
    by (simp_all add: unat_sub word_less_nat_alt word_le_nat_alt)
  define k where "k = unat (if mx > KERNEL_START - a then KERNEL_START - a else mx)"
  have k: "n < k \<longleftrightarrow> n < unat mx \<and> unat a + n < unat KERNEL_START" for n
    using sub by (auto simp: k_def word_less_nat_alt not_less)
  have eq: "safelen_max_err m a mx = safelen_loop m a 0 k"
  proof -
    have "\<not> KERNEL_START \<le> a" using True by simp
    then show ?thesis by (simp add: safelen_max_err_def Let_def k_def)
  qed
  have "safelen_loop m a 0 k = (int n, 0) \<longleftrightarrow> user_len m a n \<and> n < k"
  proof -
    show ?thesis
    proof (rule safelen_loop_split [of k m a])
      fix n' assume ok: "n' < k" "user_len m a n'" "safelen_loop m a 0 k = (int n', 0)"
      show "safelen_loop m a 0 k = (int n, 0) \<longleftrightarrow> user_len m a n \<and> n < k"
      proof (cases "n = n'")
        case True
        then show ?thesis using ok by simp
      next
        case False
        then have "\<not> user_len m a n" using user_len_unique ok(2) by blast
        with False ok(3) show ?thesis by simp
      qed
    next
      fix j assume bad: "j < k" "\<forall>i<j. \<exists>c. vread8 m (a + of_nat i) = Some c \<and> c \<noteq> NUL"
        "vread8 m (a + of_nat j) = None" "safelen_loop m a 0 k = (-1, - EFAULT)"
      have "\<not> user_len m a n"
      proof
        assume u: "user_len m a n"
        consider "n < j" | "n = j" | "j < n" by linarith
        then show False
        proof cases
          case 1
          with bad(2) obtain c where "vread8 m (a + of_nat n) = Some c" "c \<noteq> NUL" by blast
          with u show False by (simp add: user_len_def)
        next
          case 3
          with u obtain c where "vread8 m (a + of_nat j) = Some c" by (auto simp: user_len_def)
          with bad(3) show False by simp
        qed (use u bad(3) in \<open>simp add: user_len_def\<close>)
      qed
      with bad(4) show "safelen_loop m a 0 k = (int n, 0) \<longleftrightarrow> user_len m a n \<and> n < k" by simp
    next
      assume long: "\<forall>i<k. \<exists>c. vread8 m (a + of_nat i) = Some c \<and> c \<noteq> NUL"
        "safelen_loop m a 0 k = (-1, - ENAMETOOLONG)"
      have "\<not> (user_len m a n \<and> n < k)"
      proof
        assume u: "user_len m a n \<and> n < k"
        with long(1) obtain c where "vread8 m (a + of_nat n) = Some c" "c \<noteq> NUL" by blast
        with u show False by (simp add: user_len_def)
      qed
      with long(2) show "safelen_loop m a 0 k = (int n, 0) \<longleftrightarrow> user_len m a n \<and> n < k" by simp
    qed
  qed
  with True eq k show ?thesis by simp
qed (auto simp: safelen_max_err_def)

lemma safelen_copy:
  assumes "safelen_max_err m a mx = (int n, 0)"
  shows "\<exists>s. safecpy_from_user m a (of_nat n + 1) = Some (s @ [NUL]) \<and> length s = n \<and> NUL \<notin> set s \<and>
    (\<forall>i<n. vread8 m (a + of_nat i) = Some (s ! i))"
proof -
  have u: "a < KERNEL_START" "user_len m a n" "n < unat mx" "unat a + n < unat KERNEL_START"
    using assms by (simp_all add: safelen_Some)
  have ks: "unat KERNEL_START = 3221225472" by (simp add: KERNEL_START_def)
  then have n: "unat (of_nat n + 1 :: u32) = n + 1"
    using u(4) by (simp add: unat_word_ariths unat_of_nat)
  define s where "s = map (\<lambda>i. the (vread8 m (a + of_nat i))) [0..<n]"
  have s: "i < n \<Longrightarrow> vread8 m (a + of_nat i) = Some (s ! i) \<and> s ! i \<noteq> NUL" for i
    using u(2) by (auto simp: user_len_def s_def)
  have len: "length s = n" by (simp add: s_def)
  have "NUL \<notin> set s"
  proof
    assume "NUL \<in> set s"
    then obtain i where "i < n" "s ! i = NUL" by (auto simp only: in_set_conv_nth len)
    with s show False by blast
  qed
  moreover have "safecpy_from_user m a (of_nat n + 1) = Some (s @ [NUL])"
    unfolding safecpy_from_user_Some n
    using u s len by (auto simp: nth_append less_Suc_eq user_len_def)
  ultimately show ?thesis using s len by blast
qed

subsection \<open>Bytes in dwords\<close>

lemma lane_less: "lane pa < 4"
proof -
  have "unat (pa AND 3) = unat pa mod 4"
    using unat_and_mask [of pa 2] by (simp add: mask_eq_exp_minus_1)
  then show ?thesis by (simp add: lane_def)
qed

lemma char_of_word_cong:
  assumes "take_bit 8 x = take_bit 8 (y :: u32)"
  shows "char_of (unat x) = (char_of (unat y) :: char)"
proof -
  have "unat x mod 256 = unat y mod 256"
    using arg_cong [OF assms, of unat] by (simp only: unsigned_take_bit_eq) (simp add: take_bit_eq_mod)
  then show ?thesis by (metis char_of_mod_256)
qed

lemma bit_char_word: "bit (of_nat (of_char c) :: u32) k \<Longrightarrow> k < 8"
proof -
  assume b: "bit (of_nat (of_char c) :: u32) k"
  have "of_nat (of_char c) = take_bit 8 (of_nat (of_char c) :: u32)"
    by (simp add: of_nat_take_bit [symmetric] take_bit_nat_eq_self)
  then have "bit (take_bit 8 (of_nat (of_char c) :: u32)) k" using b by simp
  then show "k < 8" by (simp add: bit_take_bit_iff)
qed

lemma bit_put_byte:
  assumes "i < 4" "k < 32"
  shows "bit (put_byte w i c) k =
    (if 8 * i \<le> k \<and> k < 8 * i + 8 then bit (of_nat (of_char c) :: u32) (k - 8 * i) else bit w k)"
proof -
  have ff: "(0xFF :: u32) = mask 8" by (simp add: mask_eq_exp_minus_1)
  show ?thesis
    using assms bit_char_word [of c "k - 8 * i"] unfolding put_byte_def ff
    by (auto simp: bit_and_iff bit_or_iff bit_not_iff bit_push_bit_iff bit_mask_iff)
qed

lemma get_put_byte:
  assumes "i < 4" "j < 4"
  shows "get_byte (put_byte w i c) j = (if i = j then c else get_byte w j)"
proof (cases "i = j")
  case True
  have "take_bit 8 (drop_bit (8 * j) (put_byte w j c)) = take_bit 8 (of_nat (of_char c) :: u32)"
    by (rule bit_word_eqI) (use assms(2) in \<open>auto simp: bit_take_bit_iff bit_drop_bit_eq bit_put_byte\<close>)
  then have "get_byte (put_byte w i c) j = char_of (unat (of_nat (of_char c) :: u32))"
    unfolding get_byte_def True by (rule char_of_word_cong)
  also have "unat (of_nat (of_char c) :: u32) = of_char c"
  proof -
    have "(of_char c :: nat) < 2 ^ LENGTH(32)" by (rule less_trans [OF nat_of_char_less_256]) simp
    then show ?thesis by (simp only: unat_of_nat mod_less)
  qed
  finally show ?thesis using True by simp
next
  case False
  have "take_bit 8 (drop_bit (8 * j) (put_byte w i c)) = take_bit 8 (drop_bit (8 * j) w)"
  proof (rule bit_word_eqI)
    fix n assume "n < LENGTH(32)"
    show "bit (take_bit 8 (drop_bit (8 * j) (put_byte w i c))) n = bit (take_bit 8 (drop_bit (8 * j) w)) n"
    proof (cases "n < 8")
      case True
      then have "\<not> (8 * i \<le> 8 * j + n \<and> 8 * j + n < 8 * i + 8)" "8 * j + n < 32"
        using False assms(2) by linarith+
      then have "bit (put_byte w i c) (8 * j + n) = bit w (8 * j + n)"
        by (simp only: bit_put_byte [OF assms(1)] if_False)
      then show ?thesis by (simp add: bit_take_bit_iff bit_drop_bit_eq)
    qed (simp add: bit_take_bit_iff)
  qed
  then have "char_of (unat (drop_bit (8 * j) (put_byte w i c))) = (char_of (unat (drop_bit (8 * j) w)) :: char)"
    by (rule char_of_word_cong)
  with False show ?thesis by (simp add: get_byte_def)
qed

subsection \<open>Writing user memory\<close>

definition pbyte :: "mem \<Rightarrow> u32 \<Rightarrow> char" where
  "pbyte m pa = get_byte (phys m (dword_of pa)) (lane pa)"

lemma dword_lane_inj: "dword_of a = dword_of b \<Longrightarrow> lane a = lane b \<Longrightarrow> a = b"
proof -
  assume e: "dword_of a = dword_of b" "lane a = lane b"
  have "a AND 3 = b AND 3" using e(2) unfolding lane_def by (rule word_unat_eq_iff [THEN iffD2])
  moreover have "x = (x AND NOT 3) OR (x AND 3)" for x :: u32
    by (simp flip: bit.conj_disj_distrib)
  ultimately show ?thesis using e(1) unfolding dword_of_def by metis
qed

lemma frame_dword [simp]: "frame (dword_of a) = frame a"
  by (simp add: frame_def dword_of_def and.assoc)

lemma vwrite8_Some:
  assumes "vwrite8 m va c = Some m'"
  obtains pa where "walk m 3 va = Some pa" "cr3 m' = cr3 m"
    "\<And>pa'. pbyte m' pa' = (if pa' = pa then c else pbyte m pa')"
    "\<And>a. frame a \<noteq> frame pa \<Longrightarrow> phys m' a = phys m a"
proof -
  obtain pa where pa: "walk m 3 va = Some pa"
    "m' = m\<lparr>phys := (phys m)(dword_of pa := put_byte (phys m (dword_of pa)) (lane pa) c)\<rparr>"
    using assms by (auto simp: vwrite8_def)
  have "pbyte m' pa' = (if pa' = pa then c else pbyte m pa')" for pa'
    using dword_lane_inj [of pa' pa] by (auto simp: pbyte_def pa(2) get_put_byte lane_less)
  moreover have "frame a \<noteq> frame pa \<Longrightarrow> phys m' a = phys m a" for a
    using frame_dword [of pa] by (auto simp: pa(2))
  ultimately show ?thesis using that pa by simp
qed

text \<open>No user address is mapped writable to a page table.\<close>

definition user_isolated :: "mem \<Rightarrow> bool" where
  "user_isolated m \<longleftrightarrow>
     (\<forall>va pa. va < KERNEL_START \<and> walk m 3 va = Some pa \<longrightarrow> \<not> table_frame m (frame pa))"

lemma and_3_1: "(3 :: u32) AND 1 = 1"
  by simp

lemma vwrite8_isolated:
  assumes "vwrite8 m va c = Some m'" "user_isolated m" "va < KERNEL_START"
  shows "b AND 1 = 1 \<Longrightarrow> walk m' b x = walk m b x" and "user_isolated m'"
    and "(\<And>pa. walk m 3 va = Some pa \<Longrightarrow> pa \<noteq> p) \<Longrightarrow> pbyte m' p = pbyte m p"
    and "paging m \<Longrightarrow> paging m'"
proof -
  obtain pa where pa: "walk m 3 va = Some pa" "cr3 m' = cr3 m"
    "\<And>pa'. pbyte m' pa' = (if pa' = pa then c else pbyte m pa')"
    "\<And>a. frame a \<noteq> frame pa \<Longrightarrow> phys m' a = phys m a"
    using vwrite8_Some [OF assms(1)] by blast
  have nt: "\<not> table_frame m (frame pa)" using assms(2,3) pa(1) by (auto simp: user_isolated_def)
  have same: "phys m' a = phys m a" if "table_frame m (frame a)" for a
    using that nt pa(4) [of a] by metis
  note w = walk_frames [OF pa(2) same]
  show "b AND 1 = 1 \<Longrightarrow> walk m' b x = walk m b x" by (rule w(2))
  have "table_frame m' f = table_frame m f" for f
    using w(1) pa(2) by (auto simp: table_frame_def)
  moreover have "walk m' 3 x = walk m 3 x" for x by (rule w(2)) simp_all
  ultimately show "user_isolated m'" using assms(2) by (simp add: user_isolated_def)
  show "(\<And>pa. walk m 3 va = Some pa \<Longrightarrow> pa \<noteq> p) \<Longrightarrow> pbyte m' p = pbyte m p"
    using pa(1,3) by auto
  show "paging m \<Longrightarrow> paging m'" by (rule w(3))
qed

text \<open>The range \<open>[dst, dst + n)\<close> of user addresses.\<close>

definition urange :: "u32 \<Rightarrow> nat \<Rightarrow> u32 set" where
  "urange dst n = {va. unat dst \<le> unat va \<and> unat va < unat dst + n}"

lemma urange_Suc:
  assumes "unat dst + Suc n \<le> unat KERNEL_START"
  shows "dst \<in> urange dst (Suc n)" "urange (dst + 1) n \<subseteq> urange dst (Suc n)" "dst < KERNEL_START"
    "unat (dst + 1) = Suc (unat dst)"
proof -
  have ks: "unat KERNEL_START = 3221225472" by (simp add: KERNEL_START_def)
  with assms show s: "unat (dst + 1) = Suc (unat dst)" by (simp add: unat_word_ariths)
  show "dst \<in> urange dst (Suc n)" by (simp add: urange_def)
  show "urange (dst + 1) n \<subseteq> urange dst (Suc n)" by (auto simp: urange_def s)
  show "dst < KERNEL_START" using assms by (simp add: word_less_nat_alt)
qed

lemma to_user_loop_safe:
  assumes "to_user_loop m dst src = (r, m')" "user_isolated m"
    "unat dst + length src \<le> unat KERNEL_START"
  shows "r = 0 \<or> r = -1" and "b AND 1 = 1 \<Longrightarrow> walk m' b x = walk m b x"
    and "(\<And>va. va \<in> urange dst (length src) \<Longrightarrow> walk m 3 va \<noteq> Some p) \<Longrightarrow> pbyte m' p = pbyte m p"
    and "user_isolated m'" and "paging m \<Longrightarrow> paging m'"
proof (atomize(full), use assms in \<open>induction src arbitrary: m dst\<close>)
  case (Cons c src)
  show ?case
  proof (cases "vwrite8 m dst c")
    case None
    with Cons.prems show ?thesis by auto
  next
    case (Some m1)
    have rng: "unat dst + Suc (length src) \<le> unat KERNEL_START" using Cons.prems(3) by simp
    note u = urange_Suc [OF rng]
    note i = vwrite8_isolated [OF Some Cons.prems(2) u(3)]
    have step: "to_user_loop m1 (dst + 1) src = (r, m')" using Cons.prems(1) Some by simp
    have "unat (dst + 1) + length src \<le> unat KERNEL_START" using rng u(4) by simp
    note IH = Cons.IH [OF step i(2) this]
    have w3: "walk m1 3 va = walk m 3 va" for va by (rule i(1) [OF and_3_1])
    show ?thesis
    proof (intro conjI impI)
      show "r = 0 \<or> r = -1" using IH by blast
      show "walk m' b x = walk m b x" if "b AND 1 = 1" using that IH i(1) by simp
    next
      assume p: "\<forall>va. va \<in> urange dst (length (c # src)) \<longrightarrow> walk m 3 va \<noteq> Some p"
      then have "pbyte m1 p = pbyte m p" using u(1) by (intro i(3)) auto
      moreover have "\<forall>va. va \<in> urange (dst + 1) (length src) \<longrightarrow> walk m1 3 va \<noteq> Some p"
        using p u(2) w3 by auto
      ultimately show "pbyte m' p = pbyte m p" using IH by simp
    next
      show "user_isolated m'" using IH by simp
      show "paging m'" if "paging m" using that IH i(4) by simp
    qed
  qed
qed auto

lemma urange_index:
  assumes "va \<in> urange dst n" "unat dst + n \<le> unat KERNEL_START"
  shows "\<exists>i<n. va = dst + of_nat i"
proof (intro exI conjI)
  let ?i = "unat va - unat dst"
  have ks: "unat KERNEL_START = 3221225472" by (simp add: KERNEL_START_def)
  show i: "?i < n" using assms(1) by (auto simp: urange_def)
  then have "unat (dst + of_nat ?i) = unat va"
    using assms ks by (simp add: urange_def unat_word_ariths unat_of_nat)
  then show "va = dst + of_nat ?i" by (simp add: word_unat_eq_iff)
qed

lemma to_user_loop_ok:
  assumes "user_isolated m" "unat dst + length src \<le> unat KERNEL_START"
    "\<forall>i<length src. walk m 3 (dst + of_nat i) = Some (f i)" "inj_on f {..<length src}"
  shows "\<exists>m'. to_user_loop m dst src = (0, m') \<and> (\<forall>i<length src. pbyte m' (f i) = src ! i)"
  using assms
proof (induction src arbitrary: m dst f)
  case (Cons c src)
  have rng: "unat dst + Suc (length src) \<le> unat KERNEL_START" using Cons.prems(2) by simp
  note u = urange_Suc [OF rng]
  have f0: "walk m 3 dst = Some (f 0)" using Cons.prems(3) [rule_format, of 0] by simp
  then obtain m1 where m1: "vwrite8 m dst c = Some m1" by (simp add: vwrite8_def)
  note i = vwrite8_isolated [OF m1 Cons.prems(1) u(3)]
  have w3: "walk m1 3 va = walk m 3 va" for va by (rule i(1) [OF and_3_1])
  have rest: "\<forall>j<length src. walk m1 3 (dst + 1 + of_nat j) = Some (f (Suc j))"
  proof (intro allI impI)
    fix j assume "j < length src"
    then have "walk m 3 (dst + of_nat (Suc j)) = Some (f (Suc j))" using Cons.prems(3) by (simp del: of_nat_Suc)
    then show "walk m1 3 (dst + 1 + of_nat j) = Some (f (Suc j))" by (simp add: w3 add.assoc)
  qed
  have inj: "inj_on (\<lambda>j. f (Suc j)) {..<length src}"
    using Cons.prems(4) by (auto simp: inj_on_def)
  have rng1: "unat (dst + 1) + length src \<le> unat KERNEL_START" using rng u(4) by simp
  obtain m' where m': "to_user_loop m1 (dst + 1) src = (0, m')"
    "\<forall>j<length src. pbyte m' (f (Suc j)) = src ! j"
    using Cons.IH [OF i(2) rng1 rest inj] by blast
  have "pbyte m' (f 0) = pbyte m1 (f 0)"
  proof (rule to_user_loop_safe(3) [OF m'(1) i(2) rng1])
    fix va assume "va \<in> urange (dst + 1) (length src)"
    then obtain j where "j < length src" "va = dst + 1 + of_nat j" using urange_index [OF _ rng1] by blast
    moreover from this have "f (Suc j) \<noteq> f 0" using inj_onD [OF Cons.prems(4), of "Suc j" 0] by auto
    ultimately show "walk m1 3 va \<noteq> Some (f 0)" using rest by auto
  qed
  also have "\<dots> = c" using vwrite8_Some [OF m1] f0 by force
  finally show ?case using m' m1 by (auto simp: less_Suc_eq_0_disj)
qed simp

text \<open>What a checked copy may change.\<close>

definition confined :: "mem \<Rightarrow> mem \<Rightarrow> u32 \<Rightarrow> nat \<Rightarrow> bool" where
  "confined m m' dst n \<longleftrightarrow> (\<forall>va. translate m' va = translate m va) \<and>
     (\<forall>p. pbyte m' p \<noteq> pbyte m p \<longrightarrow> (\<exists>va. va < KERNEL_START \<and> va \<in> urange dst n \<and> walk m 3 va = Some p))"

lemma confined_same [simp]: "confined m m dst n"
  by (simp add: confined_def)

lemma confined_mono: "confined m m' dst n \<Longrightarrow> n \<le> k \<Longrightarrow> confined m m' dst k"
  by (fastforce simp: confined_def urange_def)

lemma safecpy_to_user_confined:
  assumes "user_isolated m" "safecpy_to_user m dst src = (r, m')" "length src < 2 ^ 32"
  shows "(r = 0 \<or> r = -1) \<and> confined m m' dst (length src) \<and>
    (src \<noteq> [] \<and> unat KERNEL_START < unat dst + length src \<longrightarrow> r = -1 \<and> m' = m)"
proof (cases "src = [] \<or> \<not> safecpy_check_user dst (of_nat (length src))")
  case True
  with assms(2) have m': "m' = m" "r = 0 \<or> r = -1" "src \<noteq> [] \<longrightarrow> r = -1"
    by (auto simp: safecpy_to_user_def split: if_splits)
  then show ?thesis by auto
next
  case False
  have len: "unat (of_nat (length src) :: u32) = length src"
    using assms(3) by (simp add: unat_of_nat)
  from False have rng: "unat dst + length src \<le> unat KERNEL_START"
    using len by (simp add: check_user_iff)
  have loop: "to_user_loop m dst src = (r, m')"
    using assms(2) False by (simp add: safecpy_to_user_def)
  note s = to_user_loop_safe [OF loop assms(1) rng]
  have b1: "(1 :: u32) AND 1 = 1" by simp
  have "\<exists>va. va < KERNEL_START \<and> va \<in> urange dst (length src) \<and> walk m 3 va = Some p"
    if ch: "pbyte m' p \<noteq> pbyte m p" for p
  proof (rule ccontr)
    assume n: "\<nexists>va. va < KERNEL_START \<and> va \<in> urange dst (length src) \<and> walk m 3 va = Some p"
    have "pbyte m' p = pbyte m p"
    proof (rule s(3))
      fix va assume va: "va \<in> urange dst (length src)"
      then have "va < KERNEL_START" using rng by (auto simp: urange_def word_less_nat_alt)
      with n va show "walk m 3 va \<noteq> Some p" by blast
    qed
    with ch show False by contradiction
  qed
  with s(1) s(2) [OF b1] rng show ?thesis by (auto simp: confined_def)
qed

section \<open>Properties\<close>

lemma run_mem_table_frame: "table_frame run_mem f \<Longrightarrow> f \<in> {0x1000, 0x2000, 0x3000, 0x4000}"
proof -
  assume "table_frame run_mem f"
  then consider "f = frame (cr3 run_mem)" |
    i where "unat i < 1024" "dir run_mem i AND 1 = 1" "f = frame (dir run_mem i)"
    by (auto simp: table_frame_def)
  then show ?thesis
  proof cases
    case 1
    then show ?thesis by (simp add: eval_mem)
  next
    case 2
    then have "i \<in> {1023, 768, 771, 32}" using run_mem_dir by blast
    moreover have "frame (dir run_mem 1023) = 0x1000" "frame (dir run_mem 768) = 0x2000"
      "frame (dir run_mem 771) = 0x4000" "frame (dir run_mem 32) = 0x3000"
      by (simp_all add: dir_def eval_mem)
    ultimately show ?thesis using 2(3) by auto
  qed
qed

lemma run_mem_user_walk:
  assumes "va < KERNEL_START" "walk run_mem 3 va = Some pa"
  shows "frame pa = 0x6000"
proof -
  have "unat va < 3221225472" using assms(1) by (simp add: KERNEL_START_def word_less_nat_alt)
  then have lt: "unat (pdi va) < 768" by (simp add: unat_pdi less_mult_imp_div_less)
  have p: "pde run_mem va AND 3 = 3" "pte run_mem va AND 3 = 3" "pa = frame (pte run_mem va) + offset va"
    using assms(2) by (auto simp: walk_def split: if_splits)
  then have "pdi va \<in> {1023, 768, 771, 32}"
    using run_mem_dir [OF _ pdi_less, of va] bits_sub [of 1 "pde run_mem va"] by (simp add: pde_dir)
  with lt have d: "pdi va = 32" by auto
  have pd: "frame (pde run_mem va) = 0x3000" unfolding pde_dir d by (simp add: dir_def eval_mem)
  have u: "unat (0x3000 + 4 * pti va) = 0x3000 + 4 * unat (pti va)"
    using unat_plus_small [of "0x3000" "4 * pti va"] pti_less [of va] by (simp add: unat_times4 aligned_iff)
  have "pte run_mem va = 0" if "pti va \<noteq> 0"
  proof -
    have "unat (pti va) \<noteq> 0" using that by (simp add: unat_eq_0)
    moreover from this have "4 * pti va \<noteq> 0" using unat_times4 [OF pti_less [of va]] by auto
    ultimately show ?thesis
      unfolding pte_def pte_addr_def unfolding pd unfolding run_mem_def boot_mem_def
      using pti_less [of va] by (simp add: word_unat_eq_iff [of "0x3000 + 4 * pti va"] u)
  qed
  then have "pti va = 0" using p(2) by (cases "pti va = 0") simp_all
  then have "pte run_mem va = 0x6007"
    unfolding pte_def pte_addr_def unfolding pd unfolding run_mem_def by simp
  then have "pa = 0x6000 + offset va" using p(3) by (simp add: frame_def)
  then show ?thesis
    using frame_plus [of "0x6000" "offset va"] unat_offset_less [of va] by (simp add: aligned_iff)
qed

lemma run_mem_isolated: "user_isolated run_mem"
proof -
  have "\<not> table_frame run_mem (frame pa)" if "va < KERNEL_START" "walk run_mem 3 va = Some pa" for va pa
  proof
    assume "table_frame run_mem (frame pa)"
    then have "frame pa \<in> {0x1000, 0x2000, 0x3000, 0x4000}" by (rule run_mem_table_frame)
    with run_mem_user_walk [OF that] show False by simp
  qed
  then show ?thesis unfolding user_isolated_def by blast
qed

lemmas eval_user = safecpy_to_user_def safecpy_check_user_def KERNEL_START_def vwrite8_def
  vread8_def dword_of_def lane_def get_byte_def put_byte_def safecpy_from_user_def

text \<open>
  C2: \<open>safecpy_to_user\<close>, whatever it is given and whether it succeeds or stops at a bad page,
  changes no byte of physical memory other than the ones user addresses of the destination
  range are mapped to writable, and leaves every address translation as it was; a destination
  that reaches into the kernel is refused with nothing written.
\<close>

theorem safecpy_to_user_safe:
  assumes "user_isolated m" "safecpy_to_user m dst src = (r, m')" "length src < 2 ^ 32"
  shows "(r = 0 \<or> r = -1) \<and> (\<forall>va. translate m' va = translate m va) \<and>
    (\<forall>p. pbyte m' p \<noteq> pbyte m p \<longrightarrow> (\<exists>va. va < KERNEL_START \<and> va \<in> urange dst (length src) \<and> walk m 3 va = Some p)) \<and>
    (src \<noteq> [] \<and> unat KERNEL_START < unat dst + length src \<longrightarrow> r = -1 \<and> m' = m)"
  using safecpy_to_user_confined [OF assms] by (auto simp: confined_def)

lemma safecpy_to_user_safe_witness:
  "safecpy_to_user run_mem 0xBFFFFFFF ''ab'' = (-1, run_mem) \<and>
   (\<exists>m'. safecpy_to_user run_mem 0x08000FFF ''ab'' = (-1, m') \<and>
      (\<forall>p. pbyte m' p \<noteq> pbyte run_mem p \<longrightarrow>
         (\<exists>va. va < KERNEL_START \<and> va \<in> urange 0x08000FFF 2 \<and> walk run_mem 3 va = Some p)))"
proof -
  have len: "length ''ab'' = 2" by simp
  obtain r m' where m': "safecpy_to_user run_mem 0x08000FFF ''ab'' = (r, m')" by fastforce
  have "\<forall>p. pbyte m' p \<noteq> pbyte run_mem p \<longrightarrow>
      (\<exists>va. va < KERNEL_START \<and> va \<in> urange 0x08000FFF 2 \<and> walk run_mem 3 va = Some p)"
    using safecpy_to_user_safe [OF run_mem_isolated m', unfolded len] by simp
  moreover have "r = -1" using m' by (auto simp: eval_user eval_mem)
  moreover have "safecpy_to_user run_mem 0xBFFFFFFF ''ab'' = (-1, run_mem)"
    by (simp add: eval_user)
  ultimately show ?thesis using m' by blast
qed

text \<open>
  A buffer copied to user memory reads back unchanged: when every address of the range is
  mapped writable, to pairwise different bytes, \<open>safecpy_to_user\<close> returns 0 and
  \<open>safecpy_from_user\<close> on the same range then returns the buffer.
\<close>

theorem safecpy_roundtrip:
  assumes "user_isolated m" "unat dst + length src \<le> unat KERNEL_START" "src \<noteq> []"
    "\<forall>i<length src. walk m 3 (dst + of_nat i) = Some (f i)" "inj_on f {..<length src}"
  shows "\<exists>m'. safecpy_to_user m dst src = (0, m') \<and>
    safecpy_from_user m' dst (of_nat (length src)) = Some src"
proof -
  have ks: "unat KERNEL_START = 3221225472" by (simp add: KERNEL_START_def)
  have len: "unat (of_nat (length src) :: u32) = length src"
    using assms(2) ks by (simp add: unat_of_nat)
  have "unat dst < unat KERNEL_START" using assms(2,3) by (cases src) auto
  then have lo: "dst < KERNEL_START" by (simp add: word_less_nat_alt)
  obtain m' where m': "to_user_loop m dst src = (0, m')" "\<forall>i<length src. pbyte m' (f i) = src ! i"
    using to_user_loop_ok [OF assms(1,2,4,5)] by blast
  have "vread8 m' (dst + of_nat i) = Some (src ! i)" if "i < length src" for i
  proof -
    have "walk m' 1 (dst + of_nat i) = walk m 1 (dst + of_nat i)"
      by (rule to_user_loop_safe(2) [OF m'(1) assms(1,2)]) simp
    also have "\<dots> = Some (f i)" using assms(4) that walk_mono by blast
    finally show ?thesis using m'(2) that by (simp add: vread8_def pbyte_def)
  qed
  then have "safecpy_from_user m' dst (of_nat (length src)) = Some src"
    unfolding safecpy_from_user_Some len using lo assms(2) by simp
  moreover have "safecpy_to_user m dst src = (0, m')"
    using m'(1) assms(2,3) lo len by (simp add: safecpy_to_user_def check_user_iff)
  ultimately show ?thesis by blast
qed

lemma safecpy_roundtrip_witness:
  "\<exists>m'. safecpy_to_user run_mem 0x08000010 ''init'' = (0, m') \<and>
     safecpy_from_user m' 0x08000010 4 = Some ''init''"
proof -
  let ?f = "\<lambda>i :: nat. 0x6010 + of_nat i :: u32"
  have w: "\<forall>i<length ''init''. walk run_mem 3 (0x08000010 + of_nat i) = Some (?f i)"
  proof -
    have "walk run_mem 3 0x08000010 = Some 0x6010" "walk run_mem 3 0x08000011 = Some 0x6011"
      "walk run_mem 3 0x08000012 = Some 0x6012" "walk run_mem 3 0x08000013 = Some 0x6013"
      by (simp_all add: eval_mem)
    then show ?thesis by (auto simp: less_Suc_eq)
  qed
  have inj: "inj_on ?f {..<length ''init''}"
  proof (rule inj_onI)
    fix x y assume "x \<in> {..<length ''init''}" "y \<in> {..<length ''init''}" "?f x = ?f y"
    then have "of_nat x = (of_nat y :: u32)" "x < 1024" "y < 1024" by simp_all
    then show "x = y" using of_nat_index by metis
  qed
  have "unat (0x08000010 :: u32) + length ''init'' \<le> unat KERNEL_START" by (simp add: KERNEL_START_def)
  from safecpy_roundtrip [OF run_mem_isolated this _ w inj] show ?thesis by simp
qed

text \<open>
  \<open>safelen_max_err\<close> followed by the copy of one byte more, the way every system call
  takes a string from user space: a length is only returned for a string that ends below
  \<open>KERNEL_START\<close> within the limit, and the copy then returns exactly its characters and the
  terminator.
\<close>

theorem safelen_copy_string:
  assumes "safelen_max_err m a mx = (int n, 0)"
  shows "\<exists>s. safecpy_from_user m a (of_nat n + 1) = Some (s @ [NUL]) \<and> length s = n \<and> NUL \<notin> set s \<and>
    n < unat mx \<and> unat a + n < unat KERNEL_START"
  using safelen_copy [OF assms] assms by (auto simp: safelen_Some)

lemma safelen_copy_string_witness:
  "safelen_max_err (run_mem\<lparr>phys := (phys run_mem)(0x6000 := 0x00736C2F)\<rparr>) 0x08000000 4096 = (3, 0) \<and>
   (\<exists>s. safecpy_from_user (run_mem\<lparr>phys := (phys run_mem)(0x6000 := 0x00736C2F)\<rparr>) 0x08000000 4 = Some (s @ [NUL]) \<and>
      length s = 3 \<and> NUL \<notin> set s)"
proof -
  let ?m = "run_mem\<lparr>phys := (phys run_mem)(0x6000 := 0x00736C2F)\<rparr>"
  have "safelen_max_err ?m 0x08000000 4096 = (int 3, 0)"
  proof -
    have "vread8 ?m 0x08000000 = Some (CHR ''/'')" "vread8 ?m 0x08000001 = Some (CHR ''l'')"
      "vread8 ?m 0x08000002 = Some (CHR ''s'')" "vread8 ?m 0x08000003 = Some NUL"
      by (simp_all add: eval_user eval_mem drop_bit_word_numeral char_of_def bit_Suc_0_iff)
    then have "user_len ?m 0x08000000 3" by (auto simp: user_len_def numeral_3_eq_3 less_Suc_eq)
    then show ?thesis unfolding safelen_Some by (simp add: KERNEL_START_def)
  qed
  from this safelen_copy_string [OF this] show ?thesis by auto
qed

end
