(* ===== verification/Kstate.thy ===== *)
theory Kstate
  imports Safecpy
begin

section \<open>The state of the kernel\<close>

text \<open>
  The structures of \<open>sched.h\<close>, \<open>interface.h\<close> and the open files of \<open>vfs.h\<close>, and the
  global variables of \<open>sched.c\<close> and \<open>interface.c\<close>, in one record that the operations pass
  along.

  Objects on the kernel heap are values. The arrays \<open>processes\<close> and \<open>threads\<close> are lists of
  the entries handed out so far, so \<open>last_pid\<close> and \<open>last_tid\<close> are their lengths, and
  \<open>None\<close> is the null pointer the kernel stores for a freed entry; the capacity of each
  heap block is a field of its own (\<open>_cap\<close>), as the source compares against sizes it tracks
  separately. A pointer to a process is its pid, a pointer to an interface the number
  \<open>iaddr\<close> it got at creation, never reused: an access through a pointer whose object is gone
  is a \<open>Fault\<close>. A C string on the kernel heap is the list of its characters without the
  terminator. The saved registers \<open>esp_k\<close> points to are the list of their words.

  The memory the heap itself takes is not charged to the frame allocator, and interrupts are
  off in these functions, so every operation is one step.
\<close>

datatype tstate = THREAD_RUNNING | THREAD_SUSPENDED | THREAD_WAITING | THREAD_STARTING
  | THREAD_EXITING | THREAD_DEAD

datatype pstate = PROCESS_RUNNING | PROCESS_EXITING | PROCESS_STARTING | PROCESS_LOADING

text \<open>\<open>entrypoint\<close> holds the ELF image until the process is loaded, then an address.\<close>

datatype entry = Image string | Address u32

record open_file =
  of_file :: nat
  of_fsdriver :: nat
  of_loc :: u32
  of_flags :: int
  of_id :: int

record process =
  name :: string
  threadcount :: nat
  tids :: "int list"
  tids_size :: int
  p_cr3 :: u32
  cr3_virt :: u32
  p_pid :: int
  p_entrypoint :: entry
  environ :: "string list"
  environ_size :: int
  pwd :: "string option"
  argv :: "string list"
  argc :: int
  brk :: u32
  pgbrk :: u32
  brk_offset :: u32
  psregions :: "(u32 \<times> u32) list"
  pages_used :: u32
  p_privilege :: nat
  p_state :: pstate
  exitcode :: u32
  waiting_threads :: int
  procerr :: u8
  procerr_unhandled :: bool
  procerrhandler :: u32
  openfiles :: "open_file option list"
  openfiles_loc :: nat
  terminal :: nat

record thread =
  esp_k :: "u32 list"
  t_cr3 :: u32
  t_privilege :: nat
  t_pid :: int
  wait :: int
  stackpdi :: int
  stackpt :: u32
  t_state :: tstate
  wait_msg :: "nat option"

record message =
  m_pid :: int
  m_sender :: int
  m_buf :: string

record intf =
  iaddr :: nat
  i_name :: string
  creator_pid :: int
  messages :: "message list"
  messages_size :: nat
  i_flags :: u32

record kernel =
  kmem :: mem
  processes :: "process option list"
  processes_size :: nat
  processes_cap :: nat
  processes_count :: int
  threads :: "thread option list"
  threads_size :: nat
  threads_cap :: nat
  queue :: "nat \<Rightarrow> int"
  queue_cap :: nat
  queue_start :: int
  queue_loc :: int
  queue_end :: int
  currenttid :: int
  currentps :: "int option"
  idletid :: int
  kmode :: bool
  eflags :: u32
  intfaces :: "intf list"
  intfaces_size :: nat
  next_intf :: nat

definition last_pid :: "kernel \<Rightarrow> int" where "last_pid s = int (length (processes s))"

definition last_tid :: "kernel \<Rightarrow> int" where "last_tid s = int (length (threads s))"

subsection \<open>Access through pids and tids\<close>

definition get_proc :: "kernel \<Rightarrow> int \<Rightarrow> process option res" where
  "get_proc s pid =
     (if 0 \<le> pid \<and> pid < last_pid s then Inr (processes s ! nat pid) else Inl (Fault ''processes''))"

definition proc :: "kernel \<Rightarrow> int \<Rightarrow> process res" where
  "proc s pid = rbind (get_proc s pid) (deref ''null process'')"

definition put_proc :: "int \<Rightarrow> process option \<Rightarrow> kernel \<Rightarrow> kernel" where
  "put_proc pid p s = s\<lparr>processes := (processes s)[nat pid := p]\<rparr>"

definition get_thread :: "kernel \<Rightarrow> int \<Rightarrow> thread option res" where
  "get_thread s tid =
     (if 0 \<le> tid \<and> tid < last_tid s then Inr (threads s ! nat tid) else Inl (Fault ''threads''))"

definition thread :: "kernel \<Rightarrow> int \<Rightarrow> thread res" where
  "thread s tid = rbind (get_thread s tid) (deref ''null thread'')"

definition put_thread :: "int \<Rightarrow> thread option \<Rightarrow> kernel \<Rightarrow> kernel" where
  "put_thread tid t s = s\<lparr>threads := (threads s)[nat tid := t]\<rparr>"

text \<open>The current process and thread.\<close>

definition cur_proc :: "kernel \<Rightarrow> process res" where
  "cur_proc s = rbind (deref ''currentps'' (currentps s)) (proc s)"

definition cur_thread :: "kernel \<Rightarrow> thread res" where
  "cur_thread s = thread s (currenttid s)"

text \<open>Update through the pointer \<open>currentps\<close>.\<close>

definition put_cur :: "process \<Rightarrow> kernel \<Rightarrow> kernel" where
  "put_cur p s = (case currentps s of None \<Rightarrow> s | Some pid \<Rightarrow> put_proc pid (Some p) s)"

definition upd_proc :: "kernel \<Rightarrow> int \<Rightarrow> (process \<Rightarrow> process) \<Rightarrow> kernel res" where
  "upd_proc s pid f = rbind (proc s pid) (\<lambda>p. Inr (put_proc pid (Some (f p)) s))"

definition upd_thread :: "kernel \<Rightarrow> int \<Rightarrow> (thread \<Rightarrow> thread) \<Rightarrow> kernel res" where
  "upd_thread s tid f = rbind (thread s tid) (\<lambda>t. Inr (put_thread tid (Some (f t)) s))"

lemma proc_Inr [res_simps]:
  "proc s pid = Inr p \<longleftrightarrow> 0 \<le> pid \<and> pid < last_pid s \<and> processes s ! nat pid = Some p"
  by (auto simp: proc_def get_proc_def rbind_eq_Inr deref_Inr)

lemma thread_Inr [res_simps]:
  "thread s tid = Inr t \<longleftrightarrow> 0 \<le> tid \<and> tid < last_tid s \<and> threads s ! nat tid = Some t"
  by (auto simp: thread_def get_thread_def rbind_eq_Inr deref_Inr)

lemma get_proc_Inr [res_simps]:
  "get_proc s pid = Inr p \<longleftrightarrow> 0 \<le> pid \<and> pid < last_pid s \<and> processes s ! nat pid = p"
  by (auto simp: get_proc_def)

lemma get_thread_Inr [res_simps]:
  "get_thread s tid = Inr t \<longleftrightarrow> 0 \<le> tid \<and> tid < last_tid s \<and> threads s ! nat tid = t"
  by (auto simp: get_thread_def)

lemma put_proc_simps [simp]:
  "kmem (put_proc pid p s) = kmem s" "threads (put_proc pid p s) = threads s"
  "queue (put_proc pid p s) = queue s" "queue_start (put_proc pid p s) = queue_start s"
  "queue_loc (put_proc pid p s) = queue_loc s" "queue_end (put_proc pid p s) = queue_end s"
  "queue_cap (put_proc pid p s) = queue_cap s"
  "currenttid (put_proc pid p s) = currenttid s" "currentps (put_proc pid p s) = currentps s"
  "idletid (put_proc pid p s) = idletid s" "intfaces (put_proc pid p s) = intfaces s"
  "last_pid (put_proc pid p s) = last_pid s" "last_tid (put_proc pid p s) = last_tid s"
  "processes (put_proc pid p s) = (processes s)[nat pid := p]"
  by (simp_all add: put_proc_def last_pid_def last_tid_def)

lemma put_thread_simps [simp]:
  "kmem (put_thread tid t s) = kmem s" "processes (put_thread tid t s) = processes s"
  "queue (put_thread tid t s) = queue s" "queue_start (put_thread tid t s) = queue_start s"
  "queue_loc (put_thread tid t s) = queue_loc s" "queue_end (put_thread tid t s) = queue_end s"
  "queue_cap (put_thread tid t s) = queue_cap s"
  "currenttid (put_thread tid t s) = currenttid s" "currentps (put_thread tid t s) = currentps s"
  "idletid (put_thread tid t s) = idletid s" "intfaces (put_thread tid t s) = intfaces s"
  "last_pid (put_thread tid t s) = last_pid s" "last_tid (put_thread tid t s) = last_tid s"
  "threads (put_thread tid t s) = (threads s)[nat tid := t]"
  by (simp_all add: put_thread_def last_pid_def last_tid_def)

lemma upd_thread_Inr [res_simps]:
  "upd_thread s tid f = Inr s' \<longleftrightarrow>
   (\<exists>t. thread s tid = Inr t \<and> s' = put_thread tid (Some (f t)) s)"
  by (auto simp: upd_thread_def rbind_eq_Inr)

lemma upd_proc_Inr [res_simps]:
  "upd_proc s pid f = Inr s' \<longleftrightarrow> (\<exists>p. proc s pid = Inr p \<and> s' = put_proc pid (Some (f p)) s)"
  by (auto simp: upd_proc_def rbind_eq_Inr)

text \<open>
  A running system for the witnesses: the idle process 0 and the user processes 1 and 2, one
  thread each, thread 1 running; the user threads are in the queue.
\<close>

definition demo_process :: "int \<Rightarrow> nat \<Rightarrow> process" where
  "demo_process pid priv = \<lparr>name = ''demo'', threadcount = 1, tids = pid # replicate 127 0,
     tids_size = 128, p_cr3 = 0x1000, cr3_virt = 0xC0C01000, p_pid = pid, p_entrypoint = Address 0,
     environ = [], environ_size = 1, pwd = Some [], argv = [], argc = 0, brk = 0x08002000,
     pgbrk = 0x08002000, brk_offset = 0, psregions = [], pages_used = 1, p_privilege = priv,
     p_state = PROCESS_RUNNING, exitcode = 0, waiting_threads = 0, procerr = 0,
     procerr_unhandled = False, procerrhandler = 0, openfiles = replicate 32 None,
     openfiles_loc = 0, terminal = 0\<rparr>"

definition demo_thread :: "int \<Rightarrow> nat \<Rightarrow> thread" where
  "demo_thread pid priv = \<lparr>esp_k = replicate 19 0, t_cr3 = 0x1000, t_privilege = priv, t_pid = pid,
     wait = 0, stackpdi = 767, stackpt = 0, t_state = THREAD_RUNNING, wait_msg = None\<rparr>"

definition demo :: kernel where
  "demo = \<lparr>kmem = run_mem,
     processes = [Some (demo_process 0 0), Some (demo_process 1 3), Some (demo_process 2 3)],
     processes_size = 1024, processes_cap = 1024, processes_count = 3,
     threads = [Some (demo_thread 0 0), Some (demo_thread 1 3), Some (demo_thread 2 3)],
     threads_size = 1024, threads_cap = 1024, queue = (\<lambda>_. 0)(0 := 1, 1 := 2), queue_cap = 1024,
     queue_start = 0, queue_loc = 1, queue_end = 2, currenttid = 1, currentps = Some 1,
     idletid = 0, kmode = True, eflags = 0x202, intfaces = [], intfaces_size = 32, next_intf = 0\<rparr>"

end
