(* ===== verification/Interface.thy ===== *)
theory Interface
  imports Kstate
begin

section \<open>Message queues between processes\<close>

text \<open>
  \<open>kernel/kernel/sched/interface.c\<close>: named queues of messages. A process creates an interface;
  any process may send to the creator (receiver 0), and, unless the interface is private, to
  any process or to everyone (receiver -1). Names reach this code as kernel copies.
\<close>

definition MAX_INTERFACE_MESSAGE_SIZE :: nat where "MAX_INTERFACE_MESSAGE_SIZE = 1024 * 1024"

definition MAX_INTERFACE_QUEUE_BYTES :: nat where "MAX_INTERFACE_QUEUE_BYTES = 4 * 1024 * 1024"

definition MAX_INTERFACE_MESSAGES :: nat where "MAX_INTERFACE_MESSAGES = 1024"

definition MAX_INTERFACES :: nat where "MAX_INTERFACES = 256"

definition INTERFACE_FLAG_PRIVATE :: u32 where "INTERFACE_FLAG_PRIVATE = 0x1"

fun find_loop :: "intf list \<Rightarrow> string \<Rightarrow> nat \<Rightarrow> int" where
  "find_loop [] nm i = - ENOENT"
| "find_loop (q # qs) nm i = (if nm = i_name q then int i else find_loop qs nm (Suc i))"

definition interface_find :: "kernel \<Rightarrow> string \<Rightarrow> int" where
  "interface_find s nm = find_loop (intfaces s) nm 0"

definition interface_create :: "kernel \<Rightarrow> string \<Rightarrow> int \<Rightarrow> u32 \<Rightarrow> int \<times> kernel" where
  "interface_create s nm pid flags =
     (let qid = interface_find s nm in
      if qid = - EFAULT then (- EFAULT, s)
      else if qid \<noteq> - ENOENT then (- EEXIST, s)
      else if length (intfaces s) \<ge> MAX_INTERFACES then (- ENOSPC, s)
      else
        let newqueue = \<lparr>iaddr = next_intf s, i_name = nm, creator_pid = pid, messages = [],
              messages_size = 32, i_flags = flags\<rparr>;
            s = (if length (intfaces s) \<ge> intfaces_size s
                 then s\<lparr>intfaces_size := intfaces_size s + 32\<rparr> else s) in
        (0, s\<lparr>intfaces := intfaces s @ [newqueue], next_intf := next_intf s + 1\<rparr>))"

text \<open>The loops that close the gap an array element leaves.\<close>

fun remove_at :: "nat \<Rightarrow> 'a list \<Rightarrow> 'a list" where
  "remove_at i [] = []"
| "remove_at 0 (x # xs) = xs"
| "remove_at (Suc i) (x # xs) = x # remove_at i xs"

definition wake_waiter :: "nat \<Rightarrow> thread option \<Rightarrow> thread option" where
  "wake_waiter addr t = (case t of None \<Rightarrow> None
     | Some th \<Rightarrow> if t_state th = THREAD_WAITING \<and> wait_msg th = Some addr
         then Some (th\<lparr>wait_msg := None, wait := 0, t_state := THREAD_RUNNING\<rparr>) else Some th)"

definition interface_delete :: "kernel \<Rightarrow> string \<Rightarrow> int \<Rightarrow> int \<times> kernel" where
  "interface_delete s nm pid =
     (let qid = interface_find s nm in
      if qid < 0 then (qid, s)
      else if creator_pid (intfaces s ! nat qid) \<noteq> pid then (- EACCES, s)
      else (0, s\<lparr>threads := map (wake_waiter (iaddr (intfaces s ! nat qid))) (threads s),
                 intfaces := remove_at (nat qid) (intfaces s)\<rparr>))"

definition put_intf :: "nat \<Rightarrow> intf \<Rightarrow> kernel \<Rightarrow> kernel" where
  "put_intf i q s = s\<lparr>intfaces := (intfaces s)[i := q]\<rparr>"

definition queued :: "intf \<Rightarrow> nat" where
  "queued q = sum_list (map (\<lambda>m. length (m_buf m)) (messages q))"

definition interface_send ::
  "kernel \<Rightarrow> string \<Rightarrow> int \<Rightarrow> int \<Rightarrow> u32 \<Rightarrow> u32 \<Rightarrow> (int \<times> kernel) res" where
  "interface_send s nm senderpid recvpid buf sz =
     (let qid = interface_find s nm; q = intfaces s ! nat qid in
      if qid < 0 then Inr (qid, s)
      else if unat sz > MAX_INTERFACE_MESSAGE_SIZE then Inr (- EMSGSIZE, s)
      else if length (messages q) \<ge> MAX_INTERFACE_MESSAGES then Inr (- ENOSPC, s)
      else if queued q > MAX_INTERFACE_QUEUE_BYTES \<or> unat sz > MAX_INTERFACE_QUEUE_BYTES - queued q
        then Inr (- ENOSPC, s)
      else if i_flags q AND INTERFACE_FLAG_PRIVATE \<noteq> 0 \<and> senderpid \<noteq> creator_pid q \<and> recvpid \<noteq> 0
        then Inr (- EACCES, s)
      else
        rbind (if recvpid = 0 then rbind (get_proc s (creator_pid q)) (\<lambda>p. Inr (p = None))
               else Inr False) (\<lambda>dead.
        if dead then Inr (- EOWNERDEAD, s)
        else
          let q = (if length (messages q) \<ge> messages_size q
                   then q\<lparr>messages_size := messages_size q + 32\<rparr> else q) in
          case safecpy_from_user (kmem s) buf sz of
            None \<Rightarrow> Inr (- EFAULT, put_intf (nat qid) q s)
          | Some data \<Rightarrow>
              Inr (0, put_intf (nat qid)
                (q\<lparr>messages := messages q @ [\<lparr>m_pid = recvpid, m_sender = senderpid, m_buf = data\<rparr>]\<rparr>) s)))"

text \<open>The first message a process may take: addressed to it, to the creator it is, or to all.\<close>

fun find_msg :: "message list \<Rightarrow> int \<Rightarrow> int \<Rightarrow> nat \<Rightarrow> int" where
  "find_msg [] creator recvpid i = -1"
| "find_msg (m # ms) creator recvpid i =
     (if m_pid m = recvpid then int i
      else if m_pid m = 0 then
        (if creator = recvpid then int i else find_msg ms creator recvpid (Suc i))
      else if m_pid m = -1 then int i
      else find_msg ms creator recvpid (Suc i))"

definition bytes32 :: "u32 \<Rightarrow> string" where
  "bytes32 w = map (get_byte w) [0, 1, 2, 3]"

definition interface_recv :: "kernel \<Rightarrow> string \<Rightarrow> int \<Rightarrow> u32 \<Rightarrow> u32 \<Rightarrow> u32 \<Rightarrow> int \<times> kernel" where
  "interface_recv s nm recvpid buf sz size_out =
     (let qid = interface_find s nm; q = intfaces s ! nat qid in
      if qid < 0 then (qid, s)
      else
        let mid = find_msg (messages q) (creator_pid q) recvpid 0; msg = messages q ! nat mid in
        if mid = -1 then (- EAGAIN, s)
        else
          let truesize = length (m_buf msg);
              truesize = (if unat sz < truesize then unat sz else truesize);
              (r, m) = safecpy_to_user (kmem s) buf (take truesize (m_buf msg)) in
          if r = -1 then (- EFAULT, s\<lparr>kmem := m\<rparr>)
          else
            let (r, m) = safecpy_to_user m size_out (bytes32 (of_nat truesize)) in
            if r = -1 then (- EFAULT, s\<lparr>kmem := m\<rparr>)
            else (m_sender msg,
              put_intf (nat qid) (q\<lparr>messages := remove_at (nat mid) (messages q)\<rparr>) (s\<lparr>kmem := m\<rparr>)))"

fun has_msg_loop :: "message list \<Rightarrow> int \<Rightarrow> int \<Rightarrow> bool" where
  "has_msg_loop [] creator recvpid = False"
| "has_msg_loop (m # ms) creator recvpid =
     (if m_pid m = recvpid then True
      else if m_pid m = 0 then (if creator = recvpid then True else has_msg_loop ms creator recvpid)
      else if m_pid m = -1 then True
      else has_msg_loop ms creator recvpid)"

text \<open>\<open>interface_has_msg\<close>, through the pointer a waiting thread holds.\<close>

definition interface_has_msg :: "kernel \<Rightarrow> nat \<Rightarrow> int \<Rightarrow> bool res" where
  "interface_has_msg s addr recvpid =
     (case filter (\<lambda>q. iaddr q = addr) (intfaces s) of
        [] \<Rightarrow> Inl (Fault ''dangling interface pointer'')
      | q # _ \<Rightarrow> Inr (has_msg_loop (messages q) (creator_pid q) recvpid))"

definition interface_wait :: "kernel \<Rightarrow> string \<Rightarrow> int \<Rightarrow> (int \<times> kernel) res" where
  "interface_wait s nm tid =
     (let qid = interface_find s nm in
      if qid < 0 then Inr (qid, s)
      else rbind (upd_thread s tid (\<lambda>t. t\<lparr>t_state := THREAD_WAITING, wait := 0,
          wait_msg := Some (iaddr (intfaces s ! nat qid))\<rparr>)) (\<lambda>s. Inr (0, s)))"

definition interface_init :: "kernel \<Rightarrow> kernel" where
  "interface_init s = s\<lparr>intfaces := [], intfaces_size := 32\<rparr>"

subsection \<open>Lookup\<close>

lemma find_loop_cases:
  "(\<exists>k<length qs. find_loop qs nm i = int (i + k) \<and> i_name (qs ! k) = nm \<and> (\<forall>j<k. i_name (qs ! j) \<noteq> nm)) \<or>
   find_loop qs nm i = - ENOENT \<and> (\<forall>q\<in>set qs. i_name q \<noteq> nm)"
proof (induction qs nm i rule: find_loop.induct)
  case (2 q qs nm i)
  show ?case
  proof (cases "nm = i_name q")
    case True
    then show ?thesis by (intro disjI1 exI [of _ 0]) auto
  next
    case False
    from "2.IH" [OF False] show ?thesis
    proof (elim disjE exE conjE)
      fix k assume "k < length qs" "find_loop qs nm (Suc i) = int (Suc i + k)" "i_name (qs ! k) = nm"
        "\<forall>j<k. i_name (qs ! j) \<noteq> nm"
      with False show ?thesis by (intro disjI1 exI [of _ "Suc k"]) (auto simp: less_Suc_eq_0_disj)
    qed (use False in auto)
  qed
qed simp

lemma find_Some:
  assumes "0 \<le> interface_find s nm"
  shows "nat (interface_find s nm) < length (intfaces s)"
    "i_name (intfaces s ! nat (interface_find s nm)) = nm"
  using find_loop_cases [of "intfaces s" nm 0] assms by (auto simp: interface_find_def)

lemma find_None: "interface_find s nm < 0 \<longleftrightarrow> (\<forall>q\<in>set (intfaces s). i_name q \<noteq> nm)"
proof
  assume "interface_find s nm < 0"
  then show "\<forall>q\<in>set (intfaces s). i_name q \<noteq> nm"
    using find_loop_cases [of "intfaces s" nm 0] by (auto simp: interface_find_def)
next
  assume a: "\<forall>q\<in>set (intfaces s). i_name q \<noteq> nm"
  show "interface_find s nm < 0"
    using find_loop_cases [of "intfaces s" nm 0] a by (auto simp: interface_find_def)
qed

lemma find_neg: "interface_find s nm < 0 \<Longrightarrow> interface_find s nm = - ENOENT"
  using find_loop_cases [of "intfaces s" nm 0] by (auto simp: interface_find_def)

text \<open>What both message loops look for.\<close>

definition for_me :: "int \<Rightarrow> int \<Rightarrow> message \<Rightarrow> bool" where
  "for_me creator recvpid m \<longleftrightarrow>
     m_pid m = recvpid \<or> m_pid m = 0 \<and> creator = recvpid \<or> m_pid m = -1"

lemma has_msg_iff: "has_msg_loop ms c r \<longleftrightarrow> (\<exists>m\<in>set ms. for_me c r m)"
  by (induction ms) (auto simp: for_me_def)

lemma find_msg_Cons:
  "find_msg (m # ms) c r i = (if for_me c r m then int i else find_msg ms c r (Suc i))"
  by (simp add: for_me_def)

lemma find_msg_cases:
  "(\<exists>k<length ms. find_msg ms c r i = int (i + k) \<and> for_me c r (ms ! k) \<and> (\<forall>j<k. \<not> for_me c r (ms ! j))) \<or>
   find_msg ms c r i = -1 \<and> (\<forall>m\<in>set ms. \<not> for_me c r m)"
proof (induction ms arbitrary: i)
  case (Cons m ms)
  show ?case
  proof (cases "for_me c r m")
    case True
    then show ?thesis by (intro disjI1 exI [of _ 0]) (simp add: find_msg_Cons del: find_msg.simps)
  next
    case False
    from Cons.IH [of "Suc i"] show ?thesis
    proof (elim disjE exE conjE)
      fix k assume "k < length ms" "find_msg ms c r (Suc i) = int (Suc i + k)" "for_me c r (ms ! k)"
        "\<forall>j<k. \<not> for_me c r (ms ! j)"
      with False show ?thesis
        by (intro disjI1 exI [of _ "Suc k"]) (simp add: find_msg_Cons All_less_Suc2 del: find_msg.simps)
    qed (use False in \<open>simp add: find_msg_Cons del: find_msg.simps\<close>)
  qed
qed simp

lemma remove_at_conv: "remove_at i xs = take i xs @ drop (Suc i) xs"
  by (induction i xs rule: remove_at.induct) auto

lemma set_remove_at: "set (remove_at i xs) \<subseteq> set xs"
  by (auto simp: remove_at_conv dest: in_set_takeD in_set_dropD)

lemma remove_at_middle: "k = length a \<Longrightarrow> remove_at k (a @ x # b) = a @ b"
  by (simp add: remove_at_conv)

subsection \<open>The invariant\<close>

text \<open>
  Names and addresses identify interfaces, every queue is within its limits and its array, and
  no thread waits on an interface that is gone.
\<close>

definition intf_ok :: "intf \<Rightarrow> bool" where
  "intf_ok q \<longleftrightarrow> length (messages q) \<le> MAX_INTERFACE_MESSAGES \<and>
     length (messages q) \<le> messages_size q \<and> queued q \<le> MAX_INTERFACE_QUEUE_BYTES \<and>
     (\<forall>m\<in>set (messages q). length (m_buf m) \<le> MAX_INTERFACE_MESSAGE_SIZE)"

definition waits_ok :: "kernel \<Rightarrow> bool" where
  "waits_ok s \<longleftrightarrow> (\<forall>t a. Some t \<in> set (threads s) \<and> t_state t = THREAD_WAITING \<and> wait_msg t = Some a \<longrightarrow>
     a \<in> iaddr ` set (intfaces s))"

definition intf_inv :: "kernel \<Rightarrow> bool" where
  "intf_inv s \<longleftrightarrow> distinct (map i_name (intfaces s)) \<and> distinct (map iaddr (intfaces s)) \<and>
     (\<forall>q\<in>set (intfaces s). intf_ok q \<and> iaddr q < next_intf s) \<and>
     length (intfaces s) \<le> MAX_INTERFACES \<and> length (intfaces s) \<le> intfaces_size s \<and> waits_ok s"

lemma interface_create_inv:
  assumes "intf_inv s" "interface_create s nm pid flags = (r, s')"
  shows "intf_inv s'"
proof (cases "s' = s")
  case False
  with assms(2) have n: "interface_find s nm = - ENOENT" "length (intfaces s) < MAX_INTERFACES"
    by (auto simp: interface_create_def Let_def split: if_splits)
  then have "\<forall>q\<in>set (intfaces s). i_name q \<noteq> nm" using find_None [of s nm] by simp
  note fresh = this
  let ?q = "\<lparr>iaddr = next_intf s, i_name = nm, creator_pid = pid, messages = [],
    messages_size = 32, i_flags = flags\<rparr>"
  define sz where "sz = (if length (intfaces s) \<ge> intfaces_size s then intfaces_size s + 32 else intfaces_size s)"
  have s': "s' = s\<lparr>intfaces := intfaces s @ [?q], intfaces_size := sz, next_intf := next_intf s + 1\<rparr>"
    using assms(2) n unfolding interface_create_def Let_def sz_def by (auto split: if_splits)
  have "intf_ok ?q" by (simp add: intf_ok_def queued_def)
  moreover have "length (intfaces s) < sz" using assms(1) by (auto simp: sz_def intf_inv_def)
  moreover have "\<forall>q\<in>set (intfaces s). iaddr q < next_intf s" using assms(1) by (simp add: intf_inv_def)
  moreover have "waits_ok s'" using assms(1) by (auto simp: s' intf_inv_def waits_ok_def)
  ultimately show ?thesis
    using assms(1) n fresh unfolding intf_inv_def by (auto simp: s')
qed (use assms in simp)

lemma wake_waiter_waiting:
  "wake_waiter a t = Some th \<Longrightarrow> t_state th = THREAD_WAITING \<Longrightarrow> t = Some th \<and> wait_msg th \<noteq> Some a"
  by (cases t) (auto simp: wake_waiter_def split: if_splits)

lemma interface_delete_inv:
  assumes "intf_inv s" "interface_delete s nm pid = (r, s')"
  shows "intf_inv s'"
proof (cases "s' = s")
  case False
  define k where "k = nat (interface_find s nm)"
  from False assms(2) have qid: "0 \<le> interface_find s nm" and
    s': "s' = s\<lparr>threads := map (wake_waiter (iaddr (intfaces s ! k))) (threads s),
       intfaces := remove_at k (intfaces s)\<rparr>"
    by (auto simp: interface_delete_def Let_def k_def split: if_splits)
  have k: "k < length (intfaces s)" using find_Some [OF qid] by (simp add: k_def)
  have split: "intfaces s = take k (intfaces s) @ intfaces s ! k # drop (Suc k) (intfaces s)"
    by (rule id_take_nth_drop [OF k])
  have rm: "remove_at k (intfaces s) = take k (intfaces s) @ drop (Suc k) (intfaces s)"
    by (rule remove_at_conv)
  have d1: "distinct (map i_name (remove_at k (intfaces s)))"
  proof -
    have "distinct (map i_name (take k (intfaces s) @ intfaces s ! k # drop (Suc k) (intfaces s)))"
      using assms(1) split by (simp add: intf_inv_def)
    then show ?thesis unfolding rm by auto
  qed
  have d2: "distinct (map iaddr (remove_at k (intfaces s)))"
  proof -
    have "distinct (map iaddr (take k (intfaces s) @ intfaces s ! k # drop (Suc k) (intfaces s)))"
      using assms(1) split by (simp add: intf_inv_def)
    then show ?thesis unfolding rm by auto
  qed
  have sub: "set (remove_at k (intfaces s)) \<subseteq> set (intfaces s)" by (rule set_remove_at)
  have keep: "set (intfaces s) \<subseteq> insert (intfaces s ! k) (set (remove_at k (intfaces s)))"
    unfolding rm using split by (metis Un_insert_right list.simps(15) order_refl set_append)
  have "waits_ok s'"
    unfolding waits_ok_def
  proof (intro allI impI)
    fix t a assume t: "Some t \<in> set (threads s') \<and> t_state t = THREAD_WAITING \<and> wait_msg t = Some a"
    then obtain t0 where t0: "t0 \<in> set (threads s)" "wake_waiter (iaddr (intfaces s ! k)) t0 = Some t"
      by (auto simp: s' eq_commute)
    from wake_waiter_waiting [OF t0(2)] t have tt: "t0 = Some t" "a \<noteq> iaddr (intfaces s ! k)" by auto
    then have "a \<in> iaddr ` set (intfaces s)"
      using assms(1) t t0(1) by (auto simp: intf_inv_def waits_ok_def)
    with tt(2) keep show "a \<in> iaddr ` set (intfaces s')" by (auto simp: s')
  qed
  moreover have "length (remove_at k (intfaces s)) \<le> length (intfaces s)" using k by (simp add: rm)
  ultimately show ?thesis
    using assms(1) d1 d2 sub unfolding intf_inv_def by (auto simp: s')
qed (use assms in simp)

lemma intf_inv_kmem [simp]: "intf_inv (s\<lparr>kmem := m\<rparr>) = intf_inv s"
  by (simp add: intf_inv_def waits_ok_def)

lemma put_intf_simps [simp]:
  "threads (put_intf k q s) = threads s" "processes (put_intf k q s) = processes s"
  "kmem (put_intf k q s) = kmem s" "intfaces (put_intf k q s) = (intfaces s)[k := q]"
  by (simp_all add: put_intf_def)

lemma map_update_same: "k < length xs \<Longrightarrow> f y = f (xs ! k) \<Longrightarrow> map f (xs[k := y]) = map f xs"
  by (simp add: map_update list_update_same_conv)

lemma put_intf_inv:
  assumes "intf_inv s" "k < length (intfaces s)" "intf_ok q" "i_name q = i_name (intfaces s ! k)"
    "iaddr q = iaddr (intfaces s ! k)"
  shows "intf_inv (put_intf k q s)"
proof -
  have a: "map i_name ((intfaces s)[k := q]) = map i_name (intfaces s)"
    "map iaddr ((intfaces s)[k := q]) = map iaddr (intfaces s)"
    using assms by (simp_all only: map_update_same)
  have "iaddr ` set ((intfaces s)[k := q]) = iaddr ` set (intfaces s)"
    using arg_cong [OF a(2), of set] by simp
  then have "waits_ok (put_intf k q s)"
    using assms(1) by (simp add: intf_inv_def waits_ok_def)
  moreover have "\<forall>x\<in>set ((intfaces s)[k := q]). intf_ok x \<and> iaddr x < next_intf s"
  proof
    fix x assume "x \<in> set ((intfaces s)[k := q])"
    then have "x = q \<or> x \<in> set (intfaces s)" using set_update_subset_insert by fastforce
    moreover have "intfaces s ! k \<in> set (intfaces s)" using assms(2) by simp
    ultimately show "intf_ok x \<and> iaddr x < next_intf s"
      using assms(1,3,5) unfolding intf_inv_def by metis
  qed
  ultimately show ?thesis
    using assms(1) a unfolding intf_inv_def by (simp add: put_intf_def)
qed

subsection \<open>Sending\<close>

text \<open>A successful send appends one message with the bytes of the sender's buffer.\<close>

lemma interface_send_0:
  assumes "interface_send s nm sender rcv buf sz = Inr (0, s')"
  obtains k q data where "k = nat (interface_find s nm)" "k < length (intfaces s)" "q = intfaces s ! k"
    "i_name q = nm" "safecpy_from_user (kmem s) buf sz = Some data" "length data = unat sz"
    "length (messages q) < MAX_INTERFACE_MESSAGES" "unat sz \<le> MAX_INTERFACE_MESSAGE_SIZE"
    "queued q + unat sz \<le> MAX_INTERFACE_QUEUE_BYTES"
    "rcv = 0 \<or> sender = creator_pid q \<or> i_flags q AND INTERFACE_FLAG_PRIVATE = 0"
    "s' = put_intf k (q\<lparr>messages_size := (if length (messages q) \<ge> messages_size q then messages_size q + 32 else messages_size q),
       messages := messages q @ [\<lparr>m_pid = rcv, m_sender = sender, m_buf = data\<rparr>]\<rparr>) s"
proof -
  define k where "k = nat (interface_find s nm)"
  define q where "q = intfaces s ! k"
  note a = assms [unfolded interface_send_def Let_def k_def [symmetric] q_def [symmetric]]
  have qid: "0 \<le> interface_find s nm" using a find_neg [of s nm] by (auto split: if_splits)
  then have k: "k < length (intfaces s)" "i_name q = nm" using find_Some [of s nm] by (simp_all add: k_def q_def)
  from a qid have lim: "unat sz \<le> MAX_INTERFACE_MESSAGE_SIZE" "length (messages q) < MAX_INTERFACE_MESSAGES"
    "queued q \<le> MAX_INTERFACE_QUEUE_BYTES" "unat sz \<le> MAX_INTERFACE_QUEUE_BYTES - queued q"
    "rcv = 0 \<or> sender = creator_pid q \<or> i_flags q AND INTERFACE_FLAG_PRIVATE = 0"
    by (auto split: if_splits)
  from a qid lim obtain data where d: "safecpy_from_user (kmem s) buf sz = Some data"
    by (auto simp: rbind_eq_Inr split: if_splits option.splits)
  then have l: "length data = unat sz" by (rule safecpy_from_user_length)
  have "s' = put_intf k (q\<lparr>messages_size := (if length (messages q) \<ge> messages_size q then messages_size q + 32 else messages_size q),
       messages := messages q @ [\<lparr>m_pid = rcv, m_sender = sender, m_buf = data\<rparr>]\<rparr>) s"
    using a qid d by (auto simp: rbind_eq_Inr split: if_splits)
  moreover have "queued q + unat sz \<le> MAX_INTERFACE_QUEUE_BYTES" using lim by linarith
  ultimately show ?thesis using that k lim d l k_def q_def by blast
qed

text \<open>Any other result leaves every queue as it was; only an array may have grown.\<close>

lemma interface_send_err:
  assumes "interface_send s nm sender rcv buf sz = Inr (r, s')" "r \<noteq> 0"
  shows "s' = s \<or> (\<exists>k q. k = nat (interface_find s nm) \<and> k < length (intfaces s) \<and> q = intfaces s ! k \<and>
    messages_size q \<le> length (messages q) \<and> r = - EFAULT \<and>
    s' = put_intf k (q\<lparr>messages_size := messages_size q + 32\<rparr>) s)"
proof (cases "0 \<le> interface_find s nm")
  case True
  define k where "k = nat (interface_find s nm)"
  define q where "q = intfaces s ! k"
  note a = assms(1) [unfolded interface_send_def Let_def k_def [symmetric] q_def [symmetric]]
  have k: "k < length (intfaces s)" using find_Some [OF True] by (simp add: k_def)
  have id: "put_intf k q s = s" by (simp add: put_intf_def q_def)
  have "s' = s \<or> r = - EFAULT \<and> messages_size q \<le> length (messages q) \<and>
      s' = put_intf k (q\<lparr>messages_size := messages_size q + 32\<rparr>) s"
    using a assms(2) id by (auto simp: rbind_eq_Inr split: if_splits option.splits)
  then show ?thesis using k k_def q_def by blast
next
  case False
  with assms show ?thesis by (simp add: interface_send_def)
qed

lemma interface_send_inv:
  assumes "intf_inv s" "interface_send s nm sender rcv buf sz = Inr (r, s')"
  shows "intf_inv s'"
proof (cases "r = 0")
  case True
  from assms(2) [unfolded True] show ?thesis
  proof (rule interface_send_0)
    fix k q data
    assume k: "k < length (intfaces s)" "q = intfaces s ! k" "length data = unat sz"
      "length (messages q) < MAX_INTERFACE_MESSAGES" "unat sz \<le> MAX_INTERFACE_MESSAGE_SIZE"
      "queued q + unat sz \<le> MAX_INTERFACE_QUEUE_BYTES"
      and s': "s' = put_intf k (q\<lparr>messages_size := (if length (messages q) \<ge> messages_size q then messages_size q + 32 else messages_size q),
       messages := messages q @ [\<lparr>m_pid = rcv, m_sender = sender, m_buf = data\<rparr>]\<rparr>) s"
    have "q \<in> set (intfaces s)" using k(1,2) by simp
    then have "intf_ok q" using assms(1) by (simp add: intf_inv_def)
    then show ?thesis
      unfolding s' using k by (intro put_intf_inv [OF assms(1)]) (auto simp: intf_ok_def queued_def)
  qed
next
  case False
  from interface_send_err [OF assms(2) False] show ?thesis
  proof (elim disjE exE conjE)
    fix k q assume k: "k < length (intfaces s)" "q = intfaces s ! k"
      and s': "s' = put_intf k (q\<lparr>messages_size := messages_size q + 32\<rparr>) s"
    have "q \<in> set (intfaces s)" using k(1,2) by simp
    then have "intf_ok q" using assms(1) by (simp add: intf_inv_def)
    then show ?thesis unfolding s' using k by (intro put_intf_inv [OF assms(1)]) (auto simp: intf_ok_def queued_def)
  qed (use assms(1) in simp)
qed

subsection \<open>Receiving\<close>

text \<open>
  The three outcomes of \<open>interface_recv\<close> on an interface that exists.
\<close>

lemma interface_recv_cases:
  assumes "interface_recv s nm rcv buf sz size_out = (r, s')" "0 \<le> interface_find s nm"
  defines "k \<equiv> nat (interface_find s nm)"
  defines "q \<equiv> intfaces s ! k"
  obtains (again) "r = - EAGAIN" "s' = s" "\<forall>m\<in>set (messages q). \<not> for_me (creator_pid q) rcv m"
  | (efault) m where "r = - EFAULT" "s' = s\<lparr>kmem := m\<rparr>" "\<exists>x\<in>set (messages q). for_me (creator_pid q) rcv x"
  | (got) pre msg post m1 m2 n where "messages q = pre @ msg # post" "for_me (creator_pid q) rcv msg"
      "\<forall>x\<in>set pre. \<not> for_me (creator_pid q) rcv x" "n = min (unat sz) (length (m_buf msg))"
      "safecpy_to_user (kmem s) buf (take n (m_buf msg)) = (0, m1)"
      "safecpy_to_user m1 size_out (bytes32 (of_nat n)) = (0, m2)"
      "r = m_sender msg" "s' = put_intf k (q\<lparr>messages := pre @ post\<rparr>) (s\<lparr>kmem := m2\<rparr>)"
proof -
  note a = assms(1) [unfolded interface_recv_def Let_def k_def [symmetric] q_def [symmetric]]
  have copy: "fst (safecpy_to_user m d x) = 0 \<or> fst (safecpy_to_user m d x) = -1" for m d x
  proof -
    have "fst (to_user_loop m d x) = 0 \<or> fst (to_user_loop m d x) = -1"
      by (induction x arbitrary: m d) (auto split: option.splits)
    then show ?thesis by (simp add: safecpy_to_user_def)
  qed
  show ?thesis
  proof (cases "find_msg (messages q) (creator_pid q) rcv 0 = -1")
    case True
    then have "\<forall>m\<in>set (messages q). \<not> for_me (creator_pid q) rcv m"
      using find_msg_cases [of "messages q" "creator_pid q" rcv 0] by auto
    with a assms(2) True show ?thesis by (intro again) auto
  next
    case False
    then obtain i where i: "i < length (messages q)" "find_msg (messages q) (creator_pid q) rcv 0 = int i"
      "for_me (creator_pid q) rcv (messages q ! i)" "\<forall>j<i. \<not> for_me (creator_pid q) rcv (messages q ! j)"
      using find_msg_cases [of "messages q" "creator_pid q" rcv 0] by auto
    let ?msg = "messages q ! i" and ?pre = "take i (messages q)" and ?post = "drop (Suc i) (messages q)"
    define n where "n = min (unat sz) (length (m_buf ?msg))"
    have n: "(if unat sz < length (m_buf ?msg) then unat sz else length (m_buf ?msg)) = n" by (simp add: n_def)
    obtain r1 m1 where c1: "safecpy_to_user (kmem s) buf (take n (m_buf ?msg)) = (r1, m1)" by fastforce
    obtain r2 m2 where c2: "safecpy_to_user m1 size_out (bytes32 (of_nat n)) = (r2, m2)" by fastforce
    have ex: "\<exists>x\<in>set (messages q). for_me (creator_pid q) rcv x" using i(1,3) by auto
    note a' = a [unfolded i(2) nat_int n c1 prod.case]
    show ?thesis
    proof (cases "r1 = -1 \<or> r2 = -1")
      case True
      then show ?thesis using a' assms(2) c2 ex by (auto intro: efault split: if_splits)
    next
      case False
      then have z: "r1 = 0" "r2 = 0" using copy [of "kmem s" buf] copy [of m1 size_out] c1 c2 by (metis fst_conv)+
      have split: "messages q = ?pre @ ?msg # ?post" by (rule id_take_nth_drop [OF i(1)])
      have pre: "\<forall>x\<in>set ?pre. \<not> for_me (creator_pid q) rcv x"
        using i(4) i(1) by (auto simp: in_set_conv_nth)
      show ?thesis
        by (rule got [OF split i(3) pre n_def])
          (use a' assms(2) c1 c2 z i(1) in \<open>auto simp: remove_at_conv\<close>)
    qed
  qed
qed

lemma interface_recv_inv:
  assumes "intf_inv s" "interface_recv s nm rcv buf sz size_out = (r, s')"
  shows "intf_inv s'"
proof (cases "0 \<le> interface_find s nm")
  case True
  from assms(2) True show ?thesis
  proof (cases rule: interface_recv_cases)
    case (got pre msg post m1 m2 n)
    let ?k = "nat (interface_find s nm)" and ?q = "intfaces s ! nat (interface_find s nm)"
    have k: "?k < length (intfaces s)" using find_Some [OF True] by simp
    then have "?q \<in> set (intfaces s)" by simp
    then have "intf_ok ?q" using assms(1) by (simp add: intf_inv_def)
    then have "intf_ok (?q\<lparr>messages := pre @ post\<rparr>)"
      unfolding intf_ok_def queued_def got(1) by auto
    then show ?thesis using got(8) k assms(1) by (simp add: put_intf_inv)
  qed (use assms(1) in simp_all)
next
  case False
  with assms show ?thesis by (simp add: interface_recv_def)
qed

lemma interface_wait_inv:
  assumes "intf_inv s" "interface_wait s nm tid = Inr (r, s')"
  shows "intf_inv s'"
proof (cases "0 \<le> interface_find s nm")
  case True
  let ?q = "intfaces s ! nat (interface_find s nm)"
  have "?q \<in> set (intfaces s)" using find_Some [OF True] by simp
  with assms True show ?thesis
    by (auto simp: interface_wait_def Let_def rbind_eq_Inr upd_thread_Inr intf_inv_def waits_ok_def
        put_thread_def dest!: subsetD [OF set_update_subset_insert])
next
  case False
  with assms show ?thesis by (simp add: interface_wait_def)
qed

lemma find_loop_names: "map i_name qs = map i_name rs \<Longrightarrow> find_loop qs nm i = find_loop rs nm i"
proof (induction qs nm i arbitrary: rs rule: find_loop.induct)
  case (2 q qs nm i)
  then show ?case by (cases rs) auto
qed simp

lemma find_put_intf:
  "k < length (intfaces s) \<Longrightarrow> i_name q = i_name (intfaces s ! k) \<Longrightarrow>
   interface_find (put_intf k q s) nm = interface_find s nm"
  unfolding interface_find_def by (rule find_loop_names) (simp add: map_update_same)

section \<open>Properties\<close>

text \<open>
  C19: every operation of the message system keeps its invariant: interface names are unique,
  there are at most 256 interfaces, every queue holds at most 1024 messages of at most 1 MiB
  each and 4 MiB together and fits its array, and no waiting thread holds a pointer to an
  interface that was deleted.
\<close>

theorem interface_invariant:
  assumes "intf_inv s"
  shows "(\<forall>nm pid flags r s'. interface_create s nm pid flags = (r, s') \<longrightarrow> intf_inv s') \<and>
    (\<forall>nm pid r s'. interface_delete s nm pid = (r, s') \<longrightarrow> intf_inv s') \<and>
    (\<forall>nm sender rcv buf sz r s'. interface_send s nm sender rcv buf sz = Inr (r, s') \<longrightarrow> intf_inv s') \<and>
    (\<forall>nm rcv buf sz out r s'. interface_recv s nm rcv buf sz out = (r, s') \<longrightarrow> intf_inv s') \<and>
    (\<forall>nm tid r s'. interface_wait s nm tid = Inr (r, s') \<longrightarrow> intf_inv s')"
  using assms interface_create_inv interface_delete_inv interface_send_inv interface_recv_inv
    interface_wait_inv by metis

lemma demo_intf_inv: "intf_inv demo"
  by (auto simp: intf_inv_def demo_def waits_ok_def demo_thread_def MAX_INTERFACES_def)

lemma interface_invariant_witness:
  "\<exists>r s'. interface_create demo ''conf'' 1 0 = (r, s') \<and> r = 0 \<and> intf_inv s'"
  using interface_invariant [OF demo_intf_inv]
  by (simp add: interface_create_def interface_find_def demo_def MAX_INTERFACES_def)

text \<open>
  C20: \<open>interface_recv\<close> never blocks and never faults. On an interface that exists it returns
  \<open>-EAGAIN\<close> and changes nothing exactly when \<open>interface_has_msg\<close> says there is no message
  for the caller; otherwise it takes the oldest message for the caller, copies at most the
  caller's size of it, returns the sender and leaves the other messages in their order, or, when
  a copy to user memory fails, returns \<open>-EFAULT\<close> with every queue as it was, so that no message
  is lost.
\<close>

theorem interface_recv_oldest:
  assumes "0 \<le> interface_find s nm" "interface_recv s nm rcv buf sz out = (r, s')"
    "q = intfaces s ! nat (interface_find s nm)"
  shows "if \<not> has_msg_loop (messages q) (creator_pid q) rcv then r = - EAGAIN \<and> s' = s
    else (\<exists>m. r = - EFAULT \<and> s' = s\<lparr>kmem := m\<rparr>) \<or>
      (\<exists>pre msg post m m'. messages q = pre @ msg # post \<and> for_me (creator_pid q) rcv msg \<and>
        (\<forall>x\<in>set pre. \<not> for_me (creator_pid q) rcv x) \<and> r = m_sender msg \<and>
        safecpy_to_user (kmem s) buf (take (unat sz) (m_buf msg)) = (0, m) \<and>
        s' = put_intf (nat (interface_find s nm)) (q\<lparr>messages := pre @ post\<rparr>) (s\<lparr>kmem := m'\<rparr>))"
  using assms(2,1)
proof (cases rule: interface_recv_cases)
  case again
  then show ?thesis by (simp add: has_msg_iff assms(3))
next
  case (efault m)
  then show ?thesis by (auto simp: has_msg_iff assms(3))
next
  case (got pre msg post m1 m2 n)
  have "take n (m_buf msg) = take (unat sz) (m_buf msg)" using got(4) by (simp add: min_def)
  moreover have "has_msg_loop (messages q) (creator_pid q) rcv"
    using got(1,2) by (auto simp: has_msg_iff assms(3))
  moreover have "\<exists>pre msg post m m'. messages q = pre @ msg # post \<and> for_me (creator_pid q) rcv msg \<and>
        (\<forall>x\<in>set pre. \<not> for_me (creator_pid q) rcv x) \<and> r = m_sender msg \<and>
        safecpy_to_user (kmem s) buf (take (unat sz) (m_buf msg)) = (0, m) \<and>
        s' = put_intf (nat (interface_find s nm)) (q\<lparr>messages := pre @ post\<rparr>) (s\<lparr>kmem := m'\<rparr>)"
    by (intro exI conjI) (use got calculation(1) assms(3) in auto)
  ultimately show ?thesis by (simp del: has_msg_loop.simps)
qed

definition demo_intf :: intf where
  "demo_intf = \<lparr>iaddr = 0, i_name = ''conf'', creator_pid = 1,
     messages = [\<lparr>m_pid = 2, m_sender = 1, m_buf = ''b''\<rparr>, \<lparr>m_pid = 0, m_sender = 2, m_buf = ''a''\<rparr>],
     messages_size = 32, i_flags = 0\<rparr>"

definition demo_msg :: kernel where
  "demo_msg = demo\<lparr>intfaces := [demo_intf], next_intf := 1\<rparr>"

lemma interface_recv_oldest_witness:
  "\<exists>s'. interface_recv demo_msg ''conf'' 1 0x08000000 16 0x08000100 = (2, s') \<and>
     map (messages) (intfaces s') = [[\<lparr>m_pid = 2, m_sender = 1, m_buf = ''b''\<rparr>]]"
proof -
  obtain r s' where e: "interface_recv demo_msg ''conf'' 1 0x08000000 16 0x08000100 = (r, s')" by fastforce
  have f: "interface_find demo_msg ''conf'' = 0"
    by (simp add: interface_find_def demo_msg_def demo_intf_def)
  have i: "intfaces demo_msg = [demo_intf]" by (simp add: demo_msg_def)
  have nf: "r \<noteq> - EFAULT"
    using e by (simp add: interface_recv_def f i demo_intf_def Let_def)
      (simp add: demo_msg_def demo_def safecpy_to_user_def safecpy_check_user_def KERNEL_START_def
        bytes32_def vwrite8_def dword_of_def eval_mem split: prod.splits)
  have "has_msg_loop (messages demo_intf) 1 1" by (simp add: demo_intf_def)
  moreover have "creator_pid demo_intf = 1" by (simp add: demo_intf_def)
  ultimately obtain pre msg post m m' where
    g: "messages demo_intf = pre @ msg # post" "for_me 1 1 msg" "\<forall>x\<in>set pre. \<not> for_me 1 1 x" "r = m_sender msg"
      "s' = put_intf 0 (demo_intf\<lparr>messages := pre @ post\<rparr>) (demo_msg\<lparr>kmem := m'\<rparr>)"
    using interface_recv_oldest [of demo_msg "''conf''" 1 "0x08000000" 16 "0x08000100" r s' demo_intf] e nf
    by (auto simp: f i simp del: has_msg_loop.simps)
  then have "pre = [\<lparr>m_pid = 2, m_sender = 1, m_buf = ''b''\<rparr>]"
    "msg = \<lparr>m_pid = 0, m_sender = 2, m_buf = ''a''\<rparr>" "post = []"
    by (auto simp: demo_intf_def for_me_def Cons_eq_append_conv)
  with g e show ?thesis by (auto simp: put_intf_def i)
qed

text \<open>
  A message arrives as it was sent: after a successful \<open>interface_send\<close> to a process with
  no earlier message in the queue, a receive by that process with a buffer that is large
  enough, unless its buffer is bad, returns the sender's pid, copies exactly the bytes the
  sender's buffer held at the time of the send, and leaves the queue as before the send.
\<close>

theorem interface_send_recv:
  assumes "interface_send s nm sender rcv buf sz = Inr (0, s1)"
    "q = intfaces s ! nat (interface_find s nm)"
    "\<not> has_msg_loop (messages q) (creator_pid q) rcv"
    "interface_recv s1 nm rcv dst sz2 out = (r, s2)" "r \<noteq> - EFAULT" "sz \<le> sz2"
  shows "\<exists>data m. safecpy_from_user (kmem s) buf sz = Some data \<and>
    safecpy_to_user (kmem s) dst data = (0, m) \<and> r = sender \<and>
    map messages (intfaces s2) = map messages (intfaces s)"
  using assms(1)
proof (rule interface_send_0)
  fix k q' data
  assume k: "k = nat (interface_find s nm)" "k < length (intfaces s)" "q' = intfaces s ! k" "i_name q' = nm"
    and d: "safecpy_from_user (kmem s) buf sz = Some data" "length data = unat sz"
    and s1: "s1 = put_intf k (q'\<lparr>messages_size := (if length (messages q') \<ge> messages_size q' then messages_size q' + 32 else messages_size q'),
       messages := messages q' @ [\<lparr>m_pid = rcv, m_sender = sender, m_buf = data\<rparr>]\<rparr>) s"
  have q: "q' = q" using assms(2) k by simp
  let ?new = "\<lparr>m_pid = rcv, m_sender = sender, m_buf = data\<rparr>"
  have f: "interface_find s1 nm = interface_find s nm"
    unfolding s1 using k by (intro find_put_intf) simp_all
  have qid: "0 \<le> interface_find s nm"
    using find_None [of s nm] k(2,3,4) by (metis linorder_not_less nth_mem)
  define q1 where "q1 = intfaces s1 ! nat (interface_find s1 nm)"
  have q1: "q1 = q\<lparr>messages_size := (if length (messages q) \<ge> messages_size q then messages_size q + 32 else messages_size q),
       messages := messages q @ [?new]\<rparr>"
    using k f by (simp add: q1_def s1 q)
  have me: "for_me (creator_pid q) rcv ?new" by (simp add: for_me_def)
  have old: "\<forall>x\<in>set (messages q). \<not> for_me (creator_pid q) rcv x" using assms(3) by (simp add: has_msg_iff)
  have "0 \<le> interface_find s1 nm" using f qid by simp
  from interface_recv_oldest [OF this assms(4) q1_def] assms(5) me
  obtain pre msg post m m' where g: "messages q @ [?new] = pre @ msg # post"
    "for_me (creator_pid q) rcv msg" "\<forall>x\<in>set pre. \<not> for_me (creator_pid q) rcv x" "r = m_sender msg"
    "safecpy_to_user (kmem s1) dst (take (unat sz2) (m_buf msg)) = (0, m)"
    "s2 = put_intf (nat (interface_find s1 nm)) (q1\<lparr>messages := pre @ post\<rparr>) (s1\<lparr>kmem := m'\<rparr>)"
    by (auto simp: q1 has_msg_iff split: if_splits)
  have "msg = ?new \<and> pre = messages q \<and> post = []"
  proof (cases post rule: rev_cases)
    case (snoc post' x)
    then have "messages q = pre @ msg # post'" using g(1) by simp
    then have "msg \<in> set (messages q)" by simp
    with old g(2) show ?thesis by blast
  qed (use g(1) in auto)
  moreover have "unat sz \<le> unat sz2" using assms(6) by (simp add: word_le_nat_alt)
  ultimately have "safecpy_to_user (kmem s) dst data = (0, m)" "r = sender"
    "s2 = put_intf k (q1\<lparr>messages := messages q\<rparr>) (s1\<lparr>kmem := m'\<rparr>)"
    using g(4-6) d(2) f k(1) by (simp_all add: s1)
  moreover from this(3) have "map messages (intfaces s2) = map messages (intfaces s)"
    using k q by (simp add: s1 map_update_same)
  ultimately show ?thesis using d(1) by blast
qed

definition demo_empty :: kernel where
  "demo_empty = demo\<lparr>intfaces := [demo_intf\<lparr>messages := []\<rparr>], next_intf := 1\<rparr>"

lemma interface_send_recv_witness:
  "\<exists>s1 s2. interface_send demo_empty ''conf'' 1 2 0x08000010 2 = Inr (0, s1) \<and>
     interface_recv s1 ''conf'' 2 0x08000040 16 0x08000100 = (1, s2) \<and>
     map messages (intfaces s2) = [[]]"
proof -
  let ?q = "demo_intf\<lparr>messages := []\<rparr>"
  have f: "interface_find demo_empty ''conf'' = 0"
    by (simp add: interface_find_def demo_empty_def demo_intf_def)
  have i: "intfaces demo_empty = [?q]" by (simp add: demo_empty_def)
  let ?s1 = "put_intf 0 (demo_intf\<lparr>messages := [\<lparr>m_pid = 2, m_sender = 1, m_buf = [NUL, NUL]\<rparr>]\<rparr>) demo_empty"
  have data: "safecpy_from_user (kmem demo_empty) 0x08000010 2 = Some [NUL, NUL]"
  proof -
    have "vread8 (kmem demo_empty) 0x08000010 = Some NUL" "vread8 (kmem demo_empty) 0x08000011 = Some NUL"
      by (simp_all add: demo_empty_def demo_def vread8_def dword_of_def lane_def get_byte_def eval_mem char_of_def)
    then show ?thesis
      unfolding safecpy_from_user_Some by (auto simp: KERNEL_START_def less_2_cases_iff)
  qed
  have s1: "interface_send demo_empty ''conf'' 1 2 0x08000010 2 = Inr (0, ?s1)"
    by (simp add: interface_send_def f i data Let_def)
      (simp add: demo_intf_def queued_def MAX_INTERFACE_MESSAGE_SIZE_def MAX_INTERFACE_MESSAGES_def
        MAX_INTERFACE_QUEUE_BYTES_def)
  obtain r s2 where e: "interface_recv ?s1 ''conf'' 2 0x08000040 16 0x08000100 = (r, s2)" by fastforce
  have f1: "interface_find ?s1 ''conf'' = 0"
    by (simp add: interface_find_def demo_intf_def i)
  have nf: "r \<noteq> - EFAULT"
    using e by (simp add: interface_recv_def f1 i Let_def)
      (simp add: demo_intf_def demo_empty_def demo_def safecpy_to_user_def safecpy_check_user_def KERNEL_START_def
        bytes32_def vwrite8_def dword_of_def eval_mem put_intf_def split: prod.splits)
  have "\<not> has_msg_loop (messages ?q) (creator_pid ?q) 2" by simp
  moreover have "?q = intfaces demo_empty ! nat (interface_find demo_empty ''conf'')"
    by (simp add: f i)
  ultimately have "r = 1 \<and> map messages (intfaces s2) = map messages (intfaces demo_empty)"
    using interface_send_recv [OF s1 _ _ e nf] by auto
  with s1 e i show ?thesis by auto
qed

end
