(* ===== verification/Sched.thy ===== *)
theory Sched
  imports Interface
begin

section \<open>Processes, threads and the scheduler\<close>

text \<open>
  \<open>kernel/kernel/sched/sched.c\<close>. The program loader \<open>pload_load_process\<close>, which the
  scheduler calls when it meets the first thread of a new process, is a parameter here
  (\<open>load\<close>); \<open>Pload\<close> supplies it.
\<close>

definition REALLOC_INCREMENT :: nat where "REALLOC_INCREMENT = 512"

definition MAX_PROCESSES :: nat where "MAX_PROCESSES = 512 * 128"

definition MAX_THREADS :: nat where "MAX_THREADS = 512 * 256"

definition SMALL_REALLOC_INCREMENT :: nat where "SMALL_REALLOC_INCREMENT = 64"

definition DEFAULT_P_TID_LIST_SIZE :: nat where "DEFAULT_P_TID_LIST_SIZE = 64 * 2"

definition on_mem :: "(mem \<Rightarrow> ('a \<times> mem) res) \<Rightarrow> kernel \<Rightarrow> ('a \<times> kernel) res" where
  "on_mem f s = rbind (f (kmem s)) (\<lambda>(x, m). Inr (x, s\<lparr>kmem := m\<rparr>))"

definition on_mem0 :: "(mem \<Rightarrow> mem res) \<Rightarrow> kernel \<Rightarrow> kernel res" where
  "on_mem0 f s = rbind (f (kmem s)) (\<lambda>m. Inr (s\<lparr>kmem := m\<rparr>))"

subsection \<open>Creating threads\<close>

text \<open>The register frames the interrupt return expects, lowest address first.\<close>

definition kernel_frame :: "int \<Rightarrow> u32 \<Rightarrow> u32 \<Rightarrow> u32 list" where
  "kernel_frame tid entrypoint fl =
     [0x10, 0x10, 0x10, 0x10, 0, 0, 0, 0, 0, 0, 0, of_int tid, 0, 0, entrypoint, 0x08, fl]"

definition user_frame :: "int \<Rightarrow> u32 \<Rightarrow> int \<Rightarrow> u32 list" where
  "user_frame tid entrypoint spdi =
     [0x20 OR 3, 0x20 OR 3, 0x20 OR 3, 0x20 OR 3, 0, 0, 0, 0, 0, 0, 0, of_int tid, 0, 0, entrypoint,
      0x18 OR 3, 0x202, of_int (spdi + 1) * 0x400000, 0x20 OR 3]"

definition queue_add :: "kernel \<Rightarrow> int \<Rightarrow> kernel res" where
  "queue_add s tid =
     (if 0 \<le> queue_end s \<and> queue_end s < int (queue_cap s)
      then Inr (s\<lparr>queue := (queue s)(nat (queue_end s) := tid),
                  queue_end := (queue_end s + 1) mod int (processes_size s)\<rparr>)
      else Inl (Fault ''queue''))"

definition resize :: "nat \<Rightarrow> int list \<Rightarrow> int list" where
  "resize n xs = take n xs @ replicate (n - length xs) 0"

definition sched_create_thread :: "kernel \<Rightarrow> int \<Rightarrow> bool \<Rightarrow> u32 \<Rightarrow> (int \<times> kernel) res" where
  "sched_create_thread s ownerpid noqueue entrypoint =
     (let tid = last_tid s in
      if tid \<ge> int MAX_THREADS then Inl (Panic ''Out of thread ids'')
      else
        let s = (if tid \<ge> int (processes_size s)
                 then s\<lparr>threads_cap := threads_size s + REALLOC_INCREMENT,
                        threads_size := threads_size s + REALLOC_INCREMENT\<rparr> else s) in
        if int (threads_cap s) \<le> tid then Inl (Fault ''threads'')
        else
          rbind (proc s ownerpid) (\<lambda>p.
          rbind (if p_privilege p = 0 then Inr (0, s) else on_mem vmm_map_stack s) (\<lambda>(pt, s).
          let t = \<lparr>esp_k = (if p_privilege p = 0 then kernel_frame tid entrypoint (eflags s)
                            else user_frame tid entrypoint 767),
                   t_cr3 = p_cr3 p, t_privilege = p_privilege p, t_pid = ownerpid, wait = 0,
                   stackpdi = 767, stackpt = pt, t_state = THREAD_STARTING, wait_msg = None\<rparr>;
              p = (if threadcount p \<ge> threads_size s
                   then p\<lparr>tids := resize (nat (tids_size p + int SMALL_REALLOC_INCREMENT)) (tids p),
                          tids_size := tids_size p + int SMALL_REALLOC_INCREMENT\<rparr> else p) in
          rbind (aset ''tids'' (tids p) (threadcount p) tid) (\<lambda>ts.
          let s = put_proc ownerpid (Some (p\<lparr>tids := ts, threadcount := threadcount p + 1\<rparr>))
                (s\<lparr>threads := threads s @ [Some t]\<rparr>) in
          rbind (if noqueue then Inr s else queue_add s tid) (\<lambda>s. Inr (tid, s))))))"

subsection \<open>Creating processes\<close>

primrec copy_pd :: "mem \<Rightarrow> u32 \<Rightarrow> nat list \<Rightarrow> mem res" where
  "copy_pd m dst [] = Inr m"
| "copy_pd m dst (i # is) =
     rbind (vread32 m (PD + 4 * of_nat i)) (\<lambda>x.
     rbind (vwrite32 m (dst + 4 * of_nat i) x) (\<lambda>m. copy_pd m dst is))"

text \<open>The page directory of a new process: its kernel address and its frame.\<close>

definition new_directory :: "mem \<Rightarrow> ((u32 \<times> u32) \<times> mem) res" where
  "new_directory m =
     rbind (liballoc_alloc m 1) (\<lambda>(v, m).
     rbind (vzero m v 1024) (\<lambda>m.
     rbind (vmm_get_physaddr m v) (\<lambda>c. Inr ((v, c), m))))"

definition sched_create_process :: "kernel \<Rightarrow> nat \<Rightarrow> string \<Rightarrow> (int \<times> kernel) res" where
  "sched_create_process s privilege nm =
     (let pid = last_pid s in
      if pid \<ge> int MAX_PROCESSES then Inl (Panic ''Out of process ids'')
      else
        let s = (if pid \<ge> int (processes_size s)
                 then s\<lparr>processes_cap := processes_size s + REALLOC_INCREMENT,
                        queue_cap := processes_size s + REALLOC_INCREMENT,
                        processes_size := processes_size s + REALLOC_INCREMENT\<rparr> else s) in
        if int (processes_cap s) \<le> pid then Inl (Fault ''processes'')
        else
          rbind (on_mem new_directory s) (\<lambda>((v, c), s).
          let p = \<lparr>name = nm, threadcount = 0, tids = replicate DEFAULT_P_TID_LIST_SIZE 0,
                tids_size = int DEFAULT_P_TID_LIST_SIZE, p_cr3 = c, cr3_virt = v, p_pid = pid,
                p_entrypoint = Address 0, environ = [], environ_size = 0, pwd = None, argv = [],
                argc = 0, brk = 0, pgbrk = 0, brk_offset = 0, psregions = [], pages_used = 0,
                p_privilege = privilege, p_state = PROCESS_STARTING, exitcode = 0,
                waiting_threads = 0, procerr = 0, procerr_unhandled = False, procerrhandler = 0,
                openfiles = replicate 32 None, openfiles_loc = 0, terminal = 0\<rparr>;
              s = s\<lparr>processes := processes s @ [Some p]\<rparr> in
          rbind (on_mem0 (\<lambda>m. copy_pd m v [768..<1024]) s) (\<lambda>s.
          rbind (on_mem0 (\<lambda>m. vwrite32 m (v + 4 * 1023) (c OR 0x3)) s) (\<lambda>s.
          Inr (pid, s\<lparr>processes_count := processes_count s + 1\<rparr>)))))"

definition sched_set_cr3 :: "kernel \<Rightarrow> int \<Rightarrow> u32 \<Rightarrow> (int \<times> kernel) res" where
  "sched_set_cr3 s pid newcr3 =
     rbind (proc s pid) (\<lambda>p.
     rbind (on_mem (\<lambda>m. liballoc_free m (cr3_virt p) 1) s) (\<lambda>(r, s).
     rbind (vmm_get_physaddr (kmem s) newcr3) (\<lambda>c.
     rbind (upd_proc s pid (\<lambda>p. p\<lparr>cr3_virt := newcr3, p_cr3 := c\<rparr>)) (\<lambda>s. Inr (pid, s)))))"

subsection \<open>The program break\<close>

primrec grow_loop :: "nat \<Rightarrow> mem \<Rightarrow> u32 \<Rightarrow> (bool \<times> u32 \<times> mem) res" where
  "grow_loop 0 m pg = Inr (False, pg, m)"
| "grow_loop (Suc n) m pg =
     (if pmm_available m < 8 then Inr (True, pg, m)
      else
        rbind (pmm_alloc_page m) (\<lambda>(page, m).
        rbind (vmm_map_page m page pg 0x7 False) (\<lambda>(r, m).
        if r \<noteq> 0 then rbind (pmm_free_page m page) (\<lambda>m. Inr (True, pg, m))
        else grow_loop n m (pg + 4096))))"

text \<open>Unmap and free the last \<open>n\<close> pages below \<open>pg\<close>, for the roll back and for shrinking.\<close>

primrec unmap_down :: "nat \<Rightarrow> mem \<Rightarrow> u32 \<Rightarrow> (u32 \<times> mem) res" where
  "unmap_down 0 m pg = Inr (pg, m)"
| "unmap_down (Suc n) m pg =
     (let page = pg - 4096 in
      rbind (vmm_get_physaddr m page) (\<lambda>physaddr.
      rbind (if physaddr \<noteq> 0 then
               rbind (pmm_free_page m (frame physaddr)) (\<lambda>m.
               rbind (vmm_unmap_page m page) (\<lambda>(r, m). Inr m))
             else Inr m) (\<lambda>m.
      unmap_down n m page)))"

definition round_page :: "u32 \<Rightarrow> u32" where
  "round_page a = (if a mod 4096 \<noteq> 0 then a + (4096 - a mod 4096) else a)"

definition grow_brk :: "mem \<Rightarrow> process \<Rightarrow> u32 \<Rightarrow> u32 \<Rightarrow> (u32 \<times> process \<times> mem) res" where
  "grow_brk m ps wantbrk realbrk =
     (let pagecnt = (realbrk - pgbrk ps) div 4096;
          oldpgbrk = pgbrk ps;
          ptpages = pagecnt div 1024 + 2 in
      rbind (if pagecnt + ptpages > of_nat (pmm_available m) then Inr (True, pgbrk ps, m)
             else grow_loop (unat pagecnt) m (pgbrk ps)) (\<lambda>(failed, pg, m).
      if \<not> failed then
        Inr (wantbrk, ps\<lparr>pgbrk := pg, brk_offset := brk_offset ps + (realbrk - oldpgbrk), brk := wantbrk\<rparr>, m)
      else
        rbind (unmap_down ((unat pg - unat oldpgbrk) div 4096) m pg) (\<lambda>(pg, m).
        Inr (brk ps, ps\<lparr>pgbrk := pg\<rparr>, m))))"

definition shrink_brk :: "mem \<Rightarrow> process \<Rightarrow> u32 \<Rightarrow> u32 \<Rightarrow> (u32 \<times> process \<times> mem) res" where
  "shrink_brk m ps wantbrk realbrk =
     (let pagecnt = (pgbrk ps - realbrk) div 4096;
          oldpgbrk = pgbrk ps in
      rbind (unmap_down (unat pagecnt) m (pgbrk ps)) (\<lambda>(pg, m).
      Inr (wantbrk, ps\<lparr>pgbrk := pg, brk_offset := brk_offset ps - (oldpgbrk - realbrk), brk := wantbrk\<rparr>, m)))"

definition sched_setbrk_true :: "mem \<Rightarrow> process \<Rightarrow> u32 \<Rightarrow> (u32 \<times> process \<times> mem) res" where
  "sched_setbrk_true m ps addr =
     (let retval = brk ps; wantbrk = addr; minbrk = pgbrk ps - brk_offset ps; realbrk = round_page wantbrk in
      if addr = 0 then Inr (retval, ps, m)
      else if wantbrk < minbrk \<or> wantbrk \<ge> KERNEL_START then Inr (retval, ps, m)
      else if realbrk < wantbrk then Inr (retval, ps, m)
      else if realbrk > KERNEL_START - 0x400000 then Inr (retval, ps, m)
      else if pgbrk ps = realbrk then Inr (wantbrk, ps\<lparr>brk := wantbrk\<rparr>, m)
      else
        let oldcr3 = cr3 m; m = m\<lparr>cr3 := p_cr3 ps\<rparr> in
        rbind (if pgbrk ps < realbrk then grow_brk m ps wantbrk realbrk
               else shrink_brk m ps wantbrk realbrk) (\<lambda>(r, ps, m).
        Inr (r, ps, m\<lparr>cr3 := oldcr3\<rparr>)))"

definition sched_setbrk :: "kernel \<Rightarrow> u32 \<Rightarrow> (u32 \<times> kernel) res" where
  "sched_setbrk s addr =
     rbind (cur_proc s) (\<lambda>p.
     rbind (sched_setbrk_true (kmem s) p addr) (\<lambda>(r, p, m).
     Inr (r, put_cur p (s\<lparr>kmem := m\<rparr>))))"

subsection \<open>Releasing a process\<close>

primrec free_region :: "mem \<Rightarrow> u32 \<Rightarrow> nat list \<Rightarrow> mem res" where
  "free_region m off [] = Inr m"
| "free_region m off (x # xs) =
     (let va = off + of_nat x * 4096 in
      rbind (vmm_get_physaddr m va) (\<lambda>physaddr.
      if physaddr = 0 then free_region m off xs
      else rbind (pmm_free_page m physaddr) (\<lambda>m.
        rbind (vmm_unmap_page m va) (\<lambda>(r, m). free_region m off xs))))"

primrec free_regions :: "mem \<Rightarrow> (u32 \<times> u32) list \<Rightarrow> mem res" where
  "free_regions m [] = Inr m"
| "free_regions m (r # rs) =
     rbind (free_region m (fst r) [0..<unat (snd r div 4096)]) (\<lambda>m. free_regions m rs)"

definition sched_free_all :: "mem \<Rightarrow> process \<Rightarrow> mem res" where
  "sched_free_all m ps =
     (let oldcr3 = cr3 m; m = m\<lparr>cr3 := p_cr3 ps\<rparr> in
      rbind (sched_setbrk_true m ps (pgbrk ps - brk_offset ps)) (\<lambda>(r, ps, m).
      rbind (free_regions m (psregions ps)) (\<lambda>m.
      Inr (m\<lparr>cr3 := oldcr3\<rparr>))))"

primrec mark_dead :: "kernel \<Rightarrow> int list \<Rightarrow> nat list \<Rightarrow> kernel res" where
  "mark_dead s ts [] = Inr s"
| "mark_dead s ts (i # is) =
     rbind (aget ''tids'' ts i) (\<lambda>tid.
     rbind (upd_thread s tid (\<lambda>t. t\<lparr>t_state := THREAD_DEAD\<rparr>)) (\<lambda>s. mark_dead s ts is))"

text \<open>Free a process that no thread waits for; else leave it for the last waiter.\<close>

definition release_process :: "kernel \<Rightarrow> int \<Rightarrow> kernel res" where
  "release_process s pid =
     rbind (proc s pid) (\<lambda>p.
     if waiting_threads p = 0 then
       rbind (on_mem (\<lambda>m. liballoc_free m (cr3_virt p) 1) s) (\<lambda>(r, s).
       rbind (on_mem0 (\<lambda>m. sched_free_all m p) s) (\<lambda>s.
       Inr ((put_proc pid None s)\<lparr>processes_count := processes_count s - 1\<rparr>)))
     else Inr s)"

definition sched_reap_process :: "kernel \<Rightarrow> int \<Rightarrow> kernel res" where
  "sched_reap_process s pid =
     (if pid < 0 \<or> pid \<ge> last_pid s \<or> processes s ! nat pid = None then Inr s
      else
        rbind (proc s pid) (\<lambda>p.
        rbind (if threadcount p \<noteq> 0 then
                 rbind (mark_dead s (tids p) [0..<threadcount p]) (\<lambda>s.
                 Inr (put_proc pid (Some (p\<lparr>tids_size := 0, threadcount := 0\<rparr>)) s))
               else Inr s) (\<lambda>s.
        release_process s pid)))"

subsection \<open>Exit, kill, wait, suspend\<close>

definition sched_exit_process :: "kernel \<Rightarrow> u32 \<Rightarrow> (int \<times> kernel) res" where
  "sched_exit_process s code =
     rbind (cur_proc s) (\<lambda>p.
     rbind (sched_reap_process (put_cur (p\<lparr>exitcode := code, p_state := PROCESS_EXITING\<rparr>) s) (p_pid p)) (\<lambda>s.
     Inr (0, s)))"

definition sched_exit_thread :: "kernel \<Rightarrow> kernel res" where
  "sched_exit_thread s = upd_thread s (currenttid s) (\<lambda>t. t\<lparr>t_state := THREAD_EXITING\<rparr>)"

definition sched_kill_process :: "kernel \<Rightarrow> int \<Rightarrow> (int \<times> kernel) res" where
  "sched_kill_process s pid =
     (if pid < 0 \<or> pid \<ge> last_pid s then Inr (- ESRCH, s)
      else if processes s ! nat pid = None then Inr (- ESRCH, s)
      else
        rbind (cur_proc s) (\<lambda>cur.
        if pid = p_pid cur then Inr (- EINVAL, s)
        else
          rbind (proc s pid) (\<lambda>p.
          if p_privilege p < p_privilege cur then Inr (- EACCES, s)
          else
            rbind (sched_reap_process
                (put_proc pid (Some (p\<lparr>exitcode := of_int (p_pid cur + 255), p_state := PROCESS_EXITING\<rparr>)) s) pid) (\<lambda>s.
            Inr (0, s)))))"

definition sched_suspend_thread :: "kernel \<Rightarrow> int \<Rightarrow> int \<Rightarrow> kernel res" where
  "sched_suspend_thread s irq tid = upd_thread s tid (\<lambda>t. t\<lparr>wait := irq, t_state := THREAD_SUSPENDED\<rparr>)"

definition sched_suspend_current_thread :: "kernel \<Rightarrow> int \<Rightarrow> kernel res" where
  "sched_suspend_current_thread s irq = sched_suspend_thread s irq (currenttid s)"

definition sched_wait_process :: "kernel \<Rightarrow> int \<Rightarrow> (int \<times> kernel) res" where
  "sched_wait_process s pid =
     (if pid < 0 \<or> pid \<ge> last_pid s then Inr (- ESRCH, s)
      else if processes s ! nat pid = None then Inr (- ESRCH, s)
      else
        rbind (cur_proc s) (\<lambda>cur.
        if pid = p_pid cur then Inr (- EINVAL, s)
        else
          rbind (upd_thread s (currenttid s) (\<lambda>t. t\<lparr>wait := pid, wait_msg := None\<rparr>)) (\<lambda>s.
          rbind (upd_proc s pid (\<lambda>p. p\<lparr>waiting_threads := waiting_threads p + 1\<rparr>)) (\<lambda>s.
          rbind (upd_thread s (currenttid s) (\<lambda>t. t\<lparr>t_state := THREAD_WAITING\<rparr>)) (\<lambda>s.
          Inr (0, s))))))"

definition queue_get :: "kernel \<Rightarrow> int \<Rightarrow> int res" where
  "queue_get s i =
     (if 0 \<le> i \<and> i < int (queue_cap s) then Inr (queue s (nat i)) else Inl (Fault ''queue''))"

definition sched_find_next_tid :: "kernel \<Rightarrow> int res" where
  "sched_find_next_tid s =
     (if queue_end s - queue_loc s > 0 then queue_get s (queue_loc s) else Inr (-1))"

definition sched_pop_next_tid :: "kernel \<Rightarrow> (int \<times> kernel) res" where
  "sched_pop_next_tid s =
     (if queue_end s - queue_loc s > 0 then
        rbind (queue_get s (queue_loc s)) (\<lambda>tid. Inr (tid, s\<lparr>queue_loc := queue_loc s + 1\<rparr>))
      else Inr (-1, s))"

definition wake_suspended :: "int \<Rightarrow> thread option \<Rightarrow> thread option" where
  "wake_suspended irq t = (case t of None \<Rightarrow> None
     | Some th \<Rightarrow> if t_state th = THREAD_SUSPENDED \<and> wait th = irq
         then Some (th\<lparr>t_state := THREAD_RUNNING\<rparr>) else Some th)"

definition sched_check_suspended_threads :: "kernel \<Rightarrow> int \<Rightarrow> kernel" where
  "sched_check_suspended_threads s irq = s\<lparr>threads := map (wake_suspended irq) (threads s)\<rparr>"

definition sched_check_waiting_thread :: "kernel \<Rightarrow> int \<Rightarrow> (int \<times> kernel) res" where
  "sched_check_waiting_thread s tid =
     rbind (thread s tid) (\<lambda>t.
     let pid = wait t; run = (\<lambda>t. t\<lparr>wait := 0, t_state := THREAD_RUNNING\<rparr>) in
     if pid < 0 \<or> pid \<ge> last_pid s \<or> processes s ! nat pid = None then
       rbind (upd_thread s tid run) (\<lambda>s. Inr (-1, s))
     else
       rbind (proc s pid) (\<lambda>p.
       if threadcount p = 0 then
         rbind (upd_proc s pid (\<lambda>p. p\<lparr>waiting_threads := waiting_threads p - 1\<rparr>)) (\<lambda>s.
         rbind (upd_thread s tid run) (\<lambda>s. Inr (pid, s)))
       else Inr (-1, s)))"

subsection \<open>Picking the next thread\<close>

text \<open>Which thread the loop looks at: the tid, the state and the flag \<open>loop\<close>.\<close>

definition next_candidate :: "kernel \<Rightarrow> bool \<Rightarrow> (int \<times> kernel \<times> bool) res" where
  "next_candidate s loop =
     rbind (sched_pop_next_tid s) (\<lambda>(nexttid, s).
     if nexttid = -1 then
       if loop then Inr (idletid s, s, loop)
       else
         rbind (sched_pop_next_tid (s\<lparr>queue_loc := queue_start s\<rparr>)) (\<lambda>(nexttid, s).
         Inr (if nexttid = -1 then idletid s else nexttid, s, True))
     else Inr (nexttid, s, loop))"

text \<open>Switch to the stack of a user thread and make the thread current.\<close>

definition run_thread :: "kernel \<Rightarrow> int \<Rightarrow> kernel res" where
  "run_thread s tid =
     rbind (thread s tid) (\<lambda>t.
     rbind (if t_privilege t \<noteq> 0 then
              rbind (proc s (t_pid t)) (\<lambda>p.
              on_mem0 (\<lambda>m. vmm_switch_stack m (cr3_virt p) (of_int (stackpdi t)) (stackpt t)) s)
            else Inr s) (\<lambda>s.
     rbind (get_proc s (t_pid t)) (\<lambda>p.
     Inr (s\<lparr>currentps := (if p = None then None else Some (t_pid t)), currenttid := tid\<rparr>))))"

text \<open>Take the entry before \<open>queue_loc\<close> out of the queue.\<close>

definition dequeue :: "kernel \<Rightarrow> kernel res" where
  "dequeue s =
     (let a = queue_loc s - 1; b = queue_end s - 1 in
      if a < b \<and> (a < 0 \<or> b \<ge> int (queue_cap s)) then Inl (Fault ''queue'')
      else Inr (s\<lparr>queue := (\<lambda>j. if a \<le> int j \<and> int j < b then queue s (j + 1) else queue s j),
                  queue_end := b, queue_loc := a\<rparr>))"

definition pick_waiting :: "kernel \<Rightarrow> int \<Rightarrow> thread \<Rightarrow> kernel res" where
  "pick_waiting s tid t =
     (case wait_msg t of
        Some q \<Rightarrow>
          rbind (interface_has_msg s q (t_pid t)) (\<lambda>has.
          if has then upd_thread s tid (\<lambda>t. t\<lparr>wait_msg := None, t_state := THREAD_RUNNING\<rparr>)
          else Inr s)
      | None \<Rightarrow>
          rbind (sched_check_waiting_thread s tid) (\<lambda>(pid, s).
          if pid \<noteq> -1 then
            rbind (run_thread s tid) (\<lambda>s.
            rbind (proc s pid) (\<lambda>p.
            rbind (thread s tid) (\<lambda>t.
            rbind (aset ''esp_k'' (esp_k t) 11 (exitcode p)) (\<lambda>regs.
            sched_reap_process (put_thread tid (Some (t\<lparr>esp_k := regs\<rparr>)) s) pid))))
          else Inr s))"

type_synonym loader = "kernel \<Rightarrow> int \<Rightarrow> int \<Rightarrow> (int \<times> kernel) res"

definition pick_starting :: "loader \<Rightarrow> kernel \<Rightarrow> int \<Rightarrow> thread \<Rightarrow> kernel res" where
  "pick_starting load s tid t =
     (if t_privilege t = 0 then upd_thread s tid (\<lambda>t. t\<lparr>t_state := THREAD_RUNNING\<rparr>)
      else
        rbind (proc s (t_pid t)) (\<lambda>p.
        case p_state p of
          PROCESS_STARTING \<Rightarrow> rbind (load s (t_pid t) tid) (\<lambda>(r, s). Inr s)
        | PROCESS_RUNNING \<Rightarrow> upd_thread s tid (\<lambda>t. t\<lparr>t_state := THREAD_RUNNING\<rparr>)
        | PROCESS_LOADING \<Rightarrow> upd_thread s tid (\<lambda>t. t\<lparr>t_state := THREAD_RUNNING\<rparr>)
        | PROCESS_EXITING \<Rightarrow> Inr s))"

definition pick_dead :: "kernel \<Rightarrow> int \<Rightarrow> thread \<Rightarrow> kernel res" where
  "pick_dead s tid t =
     rbind (dequeue s) (\<lambda>s.
     rbind (if wait t \<noteq> 0 then
              rbind (get_proc s (wait t)) (\<lambda>p.
              case p of None \<Rightarrow> Inr s
              | Some p \<Rightarrow> Inr (put_proc (wait t) (Some (p\<lparr>waiting_threads := waiting_threads p - 1\<rparr>)) s))
            else Inr s) (\<lambda>s.
     Inr (put_thread tid None s)))"

definition pick_thread :: "loader \<Rightarrow> kernel \<Rightarrow> int \<Rightarrow> kernel res" where
  "pick_thread load s tid =
     rbind (get_thread s tid) (\<lambda>t.
     case t of None \<Rightarrow> Inl (Panic ''Tried to schedule null thread'')
     | Some t \<Rightarrow>
         rbind (get_proc s (t_pid t)) (\<lambda>p.
         if p = None \<and> t_state t \<noteq> THREAD_DEAD then Inl (Panic ''Tried to schedule null process'')
         else if (\<exists>q\<in>set_option p. p_state q = PROCESS_EXITING) \<and> t_state t \<noteq> THREAD_DEAD
           then Inl (Panic ''Tried to schedule exiting process'')
         else case t_state t of
             THREAD_RUNNING \<Rightarrow> run_thread s tid
           | THREAD_SUSPENDED \<Rightarrow> Inr s
           | THREAD_WAITING \<Rightarrow> pick_waiting s tid t
           | THREAD_STARTING \<Rightarrow> pick_starting load s tid t
           | THREAD_EXITING \<Rightarrow> upd_thread s tid (\<lambda>t. t\<lparr>t_state := THREAD_DEAD\<rparr>)
           | THREAD_DEAD \<Rightarrow> pick_dead s tid t))"

text \<open>One round of the loop, and the loop; \<open>None\<close> when the fuel is used up.\<close>

definition pick_round :: "loader \<Rightarrow> kernel \<Rightarrow> bool \<Rightarrow> (kernel \<times> bool) res" where
  "pick_round load s loop =
     rbind (next_candidate s loop) (\<lambda>(tid, s, loop).
     rbind (pick_thread load s tid) (\<lambda>s. Inr (s, loop)))"

primrec pick_loop :: "nat \<Rightarrow> loader \<Rightarrow> kernel \<Rightarrow> bool \<Rightarrow> kernel res option" where
  "pick_loop 0 load s loop = None"
| "pick_loop (Suc n) load s loop =
     (if currenttid s \<noteq> -1 then Some (Inr s)
      else case pick_round load s loop of
          Inl e \<Rightarrow> Some (Inl e)
        | Inr (s, loop) \<Rightarrow> pick_loop n load s loop)"

text \<open>
  The fuel: one round for every entry from \<open>queue_loc\<close> and one for every entry of the queue,
  two for the idle thread, which may still be starting, and one to leave the loop.
\<close>

definition pick_fuel :: "kernel \<Rightarrow> nat" where
  "pick_fuel s = nat (queue_end s - queue_loc s) + nat (queue_end s - queue_start s) + 4"

definition sched_pick_next :: "loader \<Rightarrow> kernel \<Rightarrow> kernel res" where
  "sched_pick_next load s =
     (case pick_loop (pick_fuel s) load (s\<lparr>currenttid := -1\<rparr>) False of
        None \<Rightarrow> Inl (Fault ''sched_pick_next: fuel'')
      | Some r \<Rightarrow> r)"

definition sched_loop :: "loader \<Rightarrow> kernel \<Rightarrow> (int \<times> kernel) res" where
  "sched_loop load s =
     rbind (sched_pick_next load s) (\<lambda>s.
     if currenttid s = -1 then Inl (Panic ''sched_pick_next returned -1'')
     else Inr (currenttid s, s))"

subsection \<open>Faults of user code, initialisation\<close>

definition stack_base :: "thread \<Rightarrow> u32" where
  "stack_base t = of_int (stackpdi t) * 0x400000"

definition sched_user_fault :: "kernel \<Rightarrow> int \<Rightarrow> u32 \<Rightarrow> u32 \<Rightarrow> kernel res" where
  "sched_user_fault s eno errorcode cr2 =
     (let unhandled = rbind (deref ''currentps'' (currentps s)) (\<lambda>pid.
        upd_proc s pid (\<lambda>p. p\<lparr>procerr := of_int (eno + 1)\<rparr>)) in
      if eno = 0x0E then
        if errorcode AND 1 = 0 then
          rbind (cur_thread s) (\<lambda>t.
          if cr2 \<ge> stack_base t \<and> cr2 < stack_base t + 0x400000 then
            on_mem0 (\<lambda>m. rbind (pmm_alloc_page m) (\<lambda>(newpage, m).
              rbind (vmm_map_page m newpage (cr2 AND 0xFFFFF000) 0x7 False) (\<lambda>(r, m). Inr m))) s
          else unhandled)
        else unhandled
      else if eno = 0x01 then Inr s
      else unhandled)"

definition sched_create_process_idle :: "kernel \<Rightarrow> u32 \<Rightarrow> (int \<times> kernel) res" where
  "sched_create_process_idle s idle_loop =
     rbind (sched_create_process s 0 ''(idle)'') (\<lambda>(idlepid, s).
     rbind (sched_create_thread s idlepid True idle_loop) (\<lambda>(tid, s).
     Inr (idlepid, s\<lparr>idletid := tid\<rparr>)))"

text \<open>
  \<open>sched_init\<close>: the arrays are allocated with the size of the structures (116 and 37 bytes)
  rather than of pointers to them, so their capacities are larger than the sizes recorded.
\<close>

definition sched_init :: "kernel \<Rightarrow> u32 \<Rightarrow> kernel res" where
  "sched_init s idle_loop =
     (let s = s\<lparr>processes := [], processes_cap := 1024 * 116 div 4, processes_count := 0,
        threads := [], threads_cap := 1024 * 37 div 4, queue := (\<lambda>_. 0), queue_cap := 1024,
        queue_start := 0, queue_loc := 0, queue_end := 0, processes_size := 1024,
        threads_size := 1024, currenttid := -1\<rparr> in
      rbind (sched_create_process_idle s idle_loop) (\<lambda>(pid, s). Inr s))"

definition set_thread_stack :: "kernel \<Rightarrow> u32 list \<Rightarrow> kernel res" where
  "set_thread_stack s regs =
     (if currenttid s = -1 then Inr s
      else upd_thread s (currenttid s) (\<lambda>t. t\<lparr>esp_k := regs\<rparr>))"

subsection \<open>Forking a thread\<close>

text \<open>
  The kernel's plain reads and writes of a user stack: a missing page is a page fault in
  kernel mode, which \<open>exception_handle\<close> hands to \<open>sched_user_fault\<close>; if that cannot map
  the page, the kernel panics. \<open>n\<close> bytes on one page.
\<close>

definition touch :: "kernel \<Rightarrow> u32 \<Rightarrow> u32 \<Rightarrow> kernel res" where
  "touch s bits va =
     (if walk (kmem s) bits va = None
      then sched_user_fault s 0x0E (case walk (kmem s) 1 va of None \<Rightarrow> 0 | Some _ \<Rightarrow> 1) va
      else Inr s)"

definition read_stack :: "kernel \<Rightarrow> u32 \<Rightarrow> nat \<Rightarrow> (string \<times> kernel) res" where
  "read_stack s va n =
     rbind (touch s 1 va) (\<lambda>s.
     case from_user_loop (kmem s) va n of None \<Rightarrow> Inl (Panic ''Kernel process crashed'')
     | Some data \<Rightarrow> Inr (data, s))"

definition write_stack :: "kernel \<Rightarrow> u32 \<Rightarrow> string \<Rightarrow> kernel res" where
  "write_stack s va data =
     rbind (touch s 3 va) (\<lambda>s.
     let (r, m) = to_user_loop (kmem s) va data in
     if r = -1 then Inl (Panic ''Kernel process crashed'') else Inr (s\<lparr>kmem := m\<rparr>))"

definition switch_to :: "kernel \<Rightarrow> int \<Rightarrow> kernel res" where
  "switch_to s tid =
     rbind (thread s tid) (\<lambda>t.
     rbind (proc s (t_pid t)) (\<lambda>p.
     on_mem0 (\<lambda>m. vmm_switch_stack m (cr3_virt p) (of_int (stackpdi t)) (stackpt t)) s))"

text \<open>The page-by-page copy: \<open>rest\<close> bytes from \<open>src\<close>, only one stack mapped at a time.\<close>

function copy_stack :: "kernel \<Rightarrow> int \<Rightarrow> int \<Rightarrow> u32 \<Rightarrow> u32 \<Rightarrow> nat \<Rightarrow> kernel res" where
  "copy_stack s oldtid newtid src dst rest =
     (if rest = 0 then Inr s
      else
        let chunk = min (4096 - unat (offset src)) rest in
        rbind (read_stack s src chunk) (\<lambda>(data, s).
        rbind (switch_to s newtid) (\<lambda>s.
        rbind (write_stack (s\<lparr>currenttid := newtid\<rparr>) dst data) (\<lambda>s.
        rbind (switch_to (s\<lparr>currenttid := oldtid\<rparr>) oldtid) (\<lambda>s.
        copy_stack s oldtid newtid (src + of_nat chunk) (dst + of_nat chunk) (rest - chunk))))))"
  by pat_completeness auto
termination
proof (relation "measure (\<lambda>(s, oldt, newt, src, dst, rest). rest)", goal_cases)
  case (2 s oldtid newtid src dst rest chunk)
  then have "0 < chunk" using unat_offset_less [of src] by (simp add: min_def)
  with 2 show ?case by simp
qed simp

declare copy_stack.simps [simp del]

record regs =
  r_edi :: u32
  r_esi :: u32
  r_ebp :: u32
  r_ebx :: u32
  r_edx :: u32
  r_ecx :: u32
  r_eax :: u32
  r_eip :: u32
  r_cs :: u32
  r_eflags :: u32
  r_useresp :: u32

definition fork_frame :: "u32 list \<Rightarrow> regs \<Rightarrow> u32 list" where
  "fork_frame f r = f[4 := r_edi r, 5 := r_esi r, 6 := r_ebp r, 8 := r_ebx r, 9 := r_edx r,
     10 := r_ecx r, 11 := 0, 16 := r_eflags r, 17 := r_useresp r]"

definition sched_fork_thread :: "kernel \<Rightarrow> int \<Rightarrow> regs \<Rightarrow> (int \<times> kernel) res" where
  "sched_fork_thread s tid r =
     (if last_tid s \<ge> int MAX_THREADS then Inr (- EAGAIN, s)
      else if pmm_available (kmem s) < 16 then Inr (- ENOMEM, s)
      else
        rbind (thread s tid) (\<lambda>t.
        let stackbase = stack_base t; stackend = stackbase + 0x400000; useresp = r_useresp r in
        if useresp < stackbase \<or> useresp \<ge> stackend then Inr (- EFAULT, s)
        else
          rbind (sched_create_thread s (t_pid t) False (r_eip r)) (\<lambda>(newtid, s).
          rbind (thread s newtid) (\<lambda>nt.
          let newdst = stack_base nt + (useresp - stackbase) in
          rbind (copy_stack s (currenttid s) newtid useresp newdst (unat (stackend - useresp))) (\<lambda>s.
          rbind (thread s newtid) (\<lambda>nt.
          if length (esp_k nt) \<le> 17 then Inl (Fault ''esp_k'')
          else Inr (newtid, put_thread newtid (Some (nt\<lparr>esp_k := fork_frame (esp_k nt) r\<rparr>)) s)))))))"

end
