(* ===== verification/Schedule.thy ===== *)
theory Schedule
  imports Sched
begin

section \<open>What the scheduler guarantees\<close>

text \<open>
  The contract of the program loader, as a locale, and under it: the scheduler's loop ends,
  the thread it picks is runnable, and it takes the threads in queue order.
\<close>

subsection \<open>Frames of the operations\<close>

text \<open>Everything the scheduler's queue walk depends on, except the threads.\<close>

definition same_queue :: "kernel \<Rightarrow> kernel \<Rightarrow> bool" where
  "same_queue s s' \<longleftrightarrow> queue s' = queue s \<and> queue_start s' = queue_start s \<and> queue_loc s' = queue_loc s \<and>
     queue_end s' = queue_end s \<and> queue_cap s' = queue_cap s \<and> idletid s' = idletid s"

lemma same_queue_refl [simp]: "same_queue s s"
  by (simp add: same_queue_def)

lemma same_queue_trans: "same_queue a b \<Longrightarrow> same_queue b c \<Longrightarrow> same_queue a c"
  by (simp add: same_queue_def)

lemma same_queue_puts [simp]:
  "same_queue s (put_thread i t s) = True" "same_queue s (put_proc i p s) = True"
  "same_queue s (s\<lparr>kmem := m\<rparr>) = True" "same_queue s (s\<lparr>processes_count := c\<rparr>) = True"
  "same_queue s (s\<lparr>currentps := q, currenttid := tid\<rparr>) = True"
  by (simp_all add: same_queue_def put_thread_def put_proc_def)

lemma on_mem_Inr:
  "on_mem f s = Inr (x, s') \<longleftrightarrow> (\<exists>m. f (kmem s) = Inr (x, m) \<and> s' = s\<lparr>kmem := m\<rparr>)"
  by (auto simp: on_mem_def rbind_eq_Inr)

lemma on_mem0_Inr: "on_mem0 f s = Inr s' \<longleftrightarrow> (\<exists>m. f (kmem s) = Inr m \<and> s' = s\<lparr>kmem := m\<rparr>)"
  by (auto simp: on_mem0_def rbind_eq_Inr)

lemma kmem_upd_simps [simp]:
  "last_pid (s\<lparr>kmem := m\<rparr>) = last_pid s" "last_tid (s\<lparr>kmem := m\<rparr>) = last_tid s"
  "thread (s\<lparr>kmem := m\<rparr>) i = thread s i" "proc (s\<lparr>kmem := m\<rparr>) i = proc s i"
  "get_proc (s\<lparr>kmem := m\<rparr>) i = get_proc s i" "get_thread (s\<lparr>kmem := m\<rparr>) i = get_thread s i"
  by (simp_all add: last_pid_def last_tid_def thread_def get_thread_def proc_def get_proc_def)

text \<open>A process without threads is released without touching any thread.\<close>

lemma reap_no_threads:
  assumes "sched_reap_process s pid = Inr s'" "proc s pid = Inr p" "threadcount p = 0"
  shows "threads s' = threads s \<and> currenttid s' = currenttid s \<and> currentps s' = currentps s \<and>
    same_queue s s' \<and> (\<forall>i. i \<noteq> nat pid \<longrightarrow> processes s' ! i = processes s ! i) \<and> last_pid s' = last_pid s"
proof -
  have pid: "\<not> (pid < 0 \<or> pid \<ge> last_pid s \<or> processes s ! nat pid = None)"
    using assms(2) by (auto simp: proc_Inr)
  show ?thesis
  proof (cases "waiting_threads p = 0")
    case True
    with assms pid obtain r m where "s' = (put_proc pid None (s\<lparr>kmem := m\<rparr>))\<lparr>processes_count := r\<rparr>"
      by (auto simp: sched_reap_process_def release_process_def rbind_eq_Inr on_mem_Inr on_mem0_Inr)
    then show ?thesis by (simp add: same_queue_def put_proc_def last_pid_def)
  next
    case False
    with assms pid show ?thesis by (simp add: sched_reap_process_def release_process_def)
  qed
qed

lemma run_thread_Inr:
  assumes "run_thread s tid = Inr s'"
  obtains t m p where "thread s tid = Inr t" "get_proc s (t_pid t) = Inr p"
    "s' = s\<lparr>kmem := m, currentps := (if p = None then None else Some (t_pid t)), currenttid := tid\<rparr>"
proof -
  obtain t s1 p where t: "thread s tid = Inr t" and
    s1: "(if t_privilege t \<noteq> 0 then rbind (proc s (t_pid t)) (\<lambda>p.
              on_mem0 (\<lambda>m. vmm_switch_stack m (cr3_virt p) (of_int (stackpdi t)) (stackpt t)) s)
            else Inr s) = Inr s1" and
    p: "get_proc s1 (t_pid t) = Inr p" and
    s': "s' = s1\<lparr>currentps := (if p = None then None else Some (t_pid t)), currenttid := tid\<rparr>"
    using assms by (auto simp: run_thread_def rbind_eq_Inr)
  from s1 obtain m where "s1 = s\<lparr>kmem := m\<rparr>"
  proof (cases "t_privilege t = 0")
    case True
    with s1 have "s1 = s\<lparr>kmem := kmem s\<rparr>" by simp
    then show ?thesis using that by blast
  qed (auto simp: rbind_eq_Inr on_mem0_Inr)
  with t p s' show ?thesis using that [of t p m] by simp
qed

subsection \<open>The loader's contract\<close>

text \<open>
  \<open>loaded tid s s'\<close>: what loading the program of thread \<open>tid\<close> may change: memory, the
  process, and the state of that thread, which may only become running.
\<close>

definition loaded :: "int \<Rightarrow> kernel \<Rightarrow> kernel \<Rightarrow> bool" where
  "loaded tid s s' \<longleftrightarrow> same_queue s s' \<and> currenttid s' = currenttid s \<and> currentps s' = currentps s \<and>
     length (threads s') = length (threads s) \<and> length (processes s') = length (processes s) \<and>
     (\<forall>i. i \<noteq> nat tid \<longrightarrow> threads s' ! i = threads s ! i) \<and>
     (\<forall>t. threads s ! nat tid = Some t \<longrightarrow> (\<exists>t'. threads s' ! nat tid = Some t' \<and>
        (t_state t' = t_state t \<or> t_state t' = THREAD_RUNNING) \<and> t_pid t' = t_pid t \<and>
        t_privilege t' = t_privilege t \<and> wait t' = wait t \<and> wait_msg t' = wait_msg t))"

text \<open>The idle thread is a kernel thread that is running or starting.\<close>

definition idle_ok :: "kernel \<Rightarrow> bool" where
  "idle_ok s \<longleftrightarrow> (\<exists>t. thread s (idletid s) = Inr t \<and> t_privilege t = 0 \<and>
     (t_state t = THREAD_RUNNING \<or> t_state t = THREAD_STARTING))"

definition idle_running :: "kernel \<Rightarrow> bool" where
  "idle_running s \<longleftrightarrow> (\<exists>t. thread s (idletid s) = Inr t \<and> t_state t = THREAD_RUNNING)"

text \<open>No thread waits for the process it belongs to (\<open>sched_wait_process\<close> refuses).\<close>

definition no_self_wait :: "kernel \<Rightarrow> bool" where
  "no_self_wait s \<longleftrightarrow> (\<forall>t. Some t \<in> set (threads s) \<and> t_state t = THREAD_WAITING \<and> wait_msg t = None \<longrightarrow>
     wait t \<noteq> t_pid t)"

text \<open>The current thread and process are those of a running thread of a live process.\<close>

definition current_ok :: "kernel \<Rightarrow> bool" where
  "current_ok s \<longleftrightarrow> (\<exists>t p. thread s (currenttid s) = Inr t \<and> t_state t = THREAD_RUNNING \<and>
     currentps s = Some (t_pid t) \<and> proc s (t_pid t) = Inr p \<and> p_state p \<noteq> PROCESS_EXITING)"

lemma idle_upd:
  assumes "idle_ok s" "thread s tid = Inr t" "t_privilege (f t) = t_privilege t"
    "t_state (f t) = THREAD_RUNNING \<or> tid \<noteq> idletid s"
  shows "idle_ok (put_thread tid (Some (f t)) s)"
    and "idle_running s \<Longrightarrow> idle_running (put_thread tid (Some (f t)) s)"
  using assms
  by (cases "tid = idletid s"; auto simp: idle_ok_def idle_running_def thread_Inr last_tid_def nth_list_update)+

subsection \<open>One round\<close>

lemma next_candidate_cases:
  assumes "next_candidate s loop = Inr (tid, s1, loop')"
  obtains l where "s1 = s\<lparr>queue_loc := l\<rparr>" "loop \<longrightarrow> loop'"
    "nat (queue_end s - l) + (if loop' then 0 else nat (queue_end s - queue_start s))
       < nat (queue_end s - queue_loc s) + (if loop then 0 else nat (queue_end s - queue_start s)) \<or>
     tid = idletid s \<and> nat (queue_end s - l) + (if loop' then 0 else nat (queue_end s - queue_start s))
       \<le> nat (queue_end s - queue_loc s) + (if loop then 0 else nat (queue_end s - queue_start s))"
proof (cases "queue_end s - queue_loc s > 0")
  case more: True
  obtain q where q: "queue_get s (queue_loc s) = Inr q"
    using assms more by (cases "queue_get s (queue_loc s)") (auto simp: next_candidate_def sched_pop_next_tid_def)
  show ?thesis
  proof (cases "q = -1 \<and> \<not> loop")
    case False
    with assms more q show ?thesis
      by (intro that [of "queue_loc s + 1"])
        (auto simp: next_candidate_def sched_pop_next_tid_def split: if_splits)
  next
    case wrap: True
    show ?thesis
    proof (cases "queue_end s - queue_start s > 0")
      case True
      with assms more q wrap show ?thesis
        by (intro that [of "queue_start s + 1"])
          (auto simp: next_candidate_def sched_pop_next_tid_def rbind_eq_Inr queue_get_def split: if_splits)
    next
      case False
      with assms more q wrap show ?thesis
        by (intro that [of "queue_start s"])
          (auto simp: next_candidate_def sched_pop_next_tid_def)
    qed
  qed
next
  case none: False
  show ?thesis
  proof (cases loop)
    case True
    have "s\<lparr>queue_loc := queue_loc s\<rparr> = s" by simp
    with assms none True show ?thesis
      by (intro that [of "queue_loc s"]) (auto simp: next_candidate_def sched_pop_next_tid_def)
  next
    case wrap: False
    show ?thesis
    proof (cases "queue_end s - queue_start s > 0")
      case True
      with assms none wrap show ?thesis
        by (intro that [of "queue_start s + 1"])
          (auto simp: next_candidate_def sched_pop_next_tid_def rbind_eq_Inr queue_get_def split: if_splits)
    next
      case False
      with assms none wrap show ?thesis
        by (intro that [of "queue_start s"])
          (auto simp: next_candidate_def sched_pop_next_tid_def)
    qed
  qed
qed

lemma no_self_wait_put:
  assumes "no_self_wait s" "\<forall>t. new = Some t \<longrightarrow> t_state t \<noteq> THREAD_WAITING \<or> wait_msg t \<noteq> None \<or> wait t \<noteq> t_pid t"
  shows "no_self_wait (put_thread tid new s)"
  unfolding no_self_wait_def
proof (intro allI impI)
  fix t assume t: "Some t \<in> set (threads (put_thread tid new s)) \<and> t_state t = THREAD_WAITING \<and> wait_msg t = None"
  then have "Some t \<in> insert new (set (threads s))"
    using set_update_subset_insert [of "threads s" "nat tid" new] by auto
  then show "wait t \<noteq> t_pid t" using assms t by (auto simp: no_self_wait_def)
qed

lemma no_self_wait_threads: "threads s' = threads s \<Longrightarrow> no_self_wait s' = no_self_wait s"
  by (simp add: no_self_wait_def)

lemma idle_threads:
  assumes "threads s' = threads s" "idletid s' = idletid s"
  shows "idle_ok s' = idle_ok s" "idle_running s' = idle_running s"
  using assms by (simp_all add: idle_ok_def idle_running_def thread_Inr last_tid_def)

lemma idle_other:
  assumes "\<forall>i. i \<noteq> nat tid \<longrightarrow> threads s' ! i = threads s ! i" "length (threads s') = length (threads s)"
    "idletid s' = idletid s" "nat tid \<noteq> nat (idletid s)"
  shows "idle_ok s' = idle_ok s" "idle_running s' = idle_running s"
  using assms by (simp_all add: idle_ok_def idle_running_def thread_Inr last_tid_def)

text \<open>What one look at a thread may do.\<close>

definition round_ok :: "int \<Rightarrow> kernel \<Rightarrow> kernel \<Rightarrow> bool" where
  "round_ok tid s s' \<longleftrightarrow> idletid s' = idletid s \<and> queue_start s' = queue_start s \<and>
     (queue_loc s' = queue_loc s \<and> queue_end s' = queue_end s \<or>
      queue_loc s' = queue_loc s - 1 \<and> queue_end s' = queue_end s - 1 \<and> tid \<noteq> idletid s) \<and>
     idle_ok s' \<and> no_self_wait s' \<and> (idle_running s \<longrightarrow> idle_running s') \<and>
     (tid = idletid s \<and> currenttid s' = -1 \<longrightarrow> \<not> idle_running s \<and> idle_running s') \<and>
     (currenttid s' = -1 \<or> current_ok s')"

lemma round_ok_upd:
  assumes inv: "idle_ok s" "no_self_wait s" and cur: "currenttid s = -1" and t: "thread s tid = Inr t"
    and s': "s' = put_thread tid (Some (f t)) s" and keep: "t_privilege (f t) = t_privilege t"
    and st: "t_state t \<noteq> THREAD_RUNNING" "t_state (f t) = THREAD_RUNNING \<or> tid \<noteq> idletid s"
      "t_state (f t) \<noteq> THREAD_WAITING"
  shows "round_ok tid s s'"
proof -
  have "idle_ok s'" "idle_running s \<longrightarrow> idle_running s'"
    unfolding s' using idle_upd [of s tid t f, OF inv(1) t keep st(2)] by simp_all
  moreover have "no_self_wait s'" unfolding s' using inv(2) st(3) by (intro no_self_wait_put) auto
  moreover have "\<not> idle_running s \<and> idle_running s'" if "tid = idletid s"
    using that t st s' by (auto simp: idle_running_def thread_Inr last_tid_def)
  ultimately show ?thesis using cur s' by (simp add: round_ok_def)
qed

lemma round_ok_none:
  assumes "idle_ok s" "no_self_wait s" "currenttid s = -1" "tid \<noteq> idletid s"
  shows "round_ok tid s s"
  using assms by (simp add: round_ok_def)

lemma idle_state:
  assumes "idle_ok s" "thread s tid = Inr t" "t_state t \<noteq> THREAD_RUNNING" "t_state t \<noteq> THREAD_STARTING \<or> t_privilege t \<noteq> 0"
  shows "tid \<noteq> idletid s" "nat tid \<noteq> nat (idletid s)"
  using assms by (auto simp: idle_ok_def thread_Inr)

lemma round_ok_run:
  assumes inv: "idle_ok s" "no_self_wait s" and t: "thread s tid = Inr t" "t_state t = THREAD_RUNNING"
    and p: "get_proc s (t_pid t) = Inr p" "p \<noteq> None" "\<forall>q\<in>set_option p. p_state q \<noteq> PROCESS_EXITING"
    and run: "run_thread s tid = Inr s'"
  shows "round_ok tid s s'"
proof -
  obtain m where s': "s' = s\<lparr>kmem := m, currentps := Some (t_pid t), currenttid := tid\<rparr>"
  proof (rule run_thread_Inr [OF run])
    fix u m r assume u: "thread s tid = Inr u" "get_proc s (t_pid u) = Inr r"
      and s': "s' = s\<lparr>kmem := m, currentps := (if r = None then None else Some (t_pid u)), currenttid := tid\<rparr>"
    with t have "u = t" by simp
    with u s' p show thesis by (intro that [of m]) simp
  qed
  obtain q where q: "processes s ! nat (t_pid t) = Some q" "p_state q \<noteq> PROCESS_EXITING" "0 \<le> t_pid t"
      "t_pid t < int (length (processes s))"
    using p by (auto simp: get_proc_Inr last_pid_def)
  have "current_ok s'"
    unfolding current_ok_def
    by (rule exI [of _ t], rule exI [of _ q]) (use t q s' in \<open>simp add: thread_Inr last_tid_def proc_Inr last_pid_def\<close>)
  moreover have "idle_ok s'" "no_self_wait s'" "idle_running s' = idle_running s"
    using inv s' idle_threads [of s' s] no_self_wait_threads [of s' s] by simp_all
  moreover have "currenttid s' \<noteq> -1" using t s' by (auto simp: thread_Inr)
  ultimately show ?thesis using s' by (simp add: round_ok_def)
qed

lemma round_ok_loaded:
  assumes inv: "idle_ok s" "no_self_wait s" and cur: "currenttid s = -1" and t: "thread s tid = Inr t"
    and st: "t_state t = THREAD_STARTING" "t_privilege t \<noteq> 0" and l: "loaded tid s s'"
  shows "round_ok tid s s'"
proof -
  have other: "tid \<noteq> idletid s" "nat tid \<noteq> nat (idletid s)"
    using idle_state [OF inv(1) t] st by simp_all
  have frame: "same_queue s s'" "currenttid s' = -1" "length (threads s') = length (threads s)"
    "\<forall>i. i \<noteq> nat tid \<longrightarrow> threads s' ! i = threads s ! i"
    using l cur by (simp_all add: loaded_def)
  have "threads s ! nat tid = Some t" "nat tid < length (threads s)"
    using t by (auto simp: thread_Inr last_tid_def)
  with l st obtain t' where t': "threads s' ! nat tid = Some t'" "t_state t' \<noteq> THREAD_WAITING"
    by (auto simp: loaded_def)
  have "no_self_wait s'"
    unfolding no_self_wait_def
  proof (intro allI impI)
    fix u assume u: "Some u \<in> set (threads s') \<and> t_state u = THREAD_WAITING \<and> wait_msg u = None"
    then obtain i where i: "i < length (threads s')" "threads s' ! i = Some u" by (auto simp: in_set_conv_nth)
    with t' u have "i \<noteq> nat tid" by auto
    with i frame have "threads s ! i = Some u" "i < length (threads s)" by auto
    then have "Some u \<in> set (threads s)" using nth_mem by metis
    then show "wait u \<noteq> t_pid u" using inv(2) u by (simp add: no_self_wait_def)
  qed
  moreover have "idle_ok s'" "idle_running s' = idle_running s"
    using idle_other [of tid s' s] frame inv(1) other by (auto simp: same_queue_def)
  ultimately show ?thesis using frame other by (simp add: round_ok_def same_queue_def)
qed

lemma round_ok_waiting:
  assumes inv: "idle_ok s" "no_self_wait s" and cur: "currenttid s = -1" and t: "thread s tid = Inr t"
    and st: "t_state t = THREAD_WAITING"
    and p: "get_proc s (t_pid t) = Inr (Some q)" "p_state q \<noteq> PROCESS_EXITING"
    and run: "pick_waiting s tid t = Inr s'"
  shows "round_ok tid s s'"
proof -
  note other = idle_state [OF inv(1) t]
  show ?thesis
  proof (cases "wait_msg t")
    case (Some mq)
    with run obtain has where
      "(if has then upd_thread s tid (\<lambda>t. t\<lparr>wait_msg := None, t_state := THREAD_RUNNING\<rparr>) else Inr s) = Inr s'"
      by (auto simp: pick_waiting_def rbind_eq_Inr)
    then consider "s' = s" | "s' = put_thread tid (Some (t\<lparr>wait_msg := None, t_state := THREAD_RUNNING\<rparr>)) s"
      using t by (cases has) (simp_all add: upd_thread_Inr)
    then show ?thesis
    proof cases
      case 1
      then show ?thesis using round_ok_none [OF inv cur] other st by simp
    next
      case 2
      from inv cur t this show ?thesis
        by (rule round_ok_upd [where f = "\<lambda>t. t\<lparr>wait_msg := None, t_state := THREAD_RUNNING\<rparr>"]) (use st in auto)
    qed
  next
    case None
    obtain pid s1 where check: "sched_check_waiting_thread s tid = Inr (pid, s1)"
      and rest: "(if pid \<noteq> -1 then
            rbind (run_thread s1 tid) (\<lambda>s.
            rbind (proc s pid) (\<lambda>p.
            rbind (thread s tid) (\<lambda>t.
            rbind (aset ''esp_k'' (esp_k t) 11 (exitcode p)) (\<lambda>regs.
            sched_reap_process (put_thread tid (Some (t\<lparr>esp_k := regs\<rparr>)) s) pid))))
          else Inr s1) = Inr s'"
      using run None by (auto simp: pick_waiting_def rbind_eq_Inr)
    define run_it :: "thread \<Rightarrow> thread" where "run_it = (\<lambda>t. t\<lparr>wait := 0, t_state := THREAD_RUNNING\<rparr>)"
    have check': "pid = -1 \<and> (s1 = s \<or> s1 = put_thread tid (Some (run_it t)) s) \<or>
      (\<exists>w. pid = wait t \<and> 0 \<le> pid \<and> proc s pid = Inr w \<and> threadcount w = 0 \<and>
        s1 = put_thread tid (Some (run_it t)) (put_proc pid (Some (w\<lparr>waiting_threads := waiting_threads w - 1\<rparr>)) s))"
    proof (cases "wait t < 0 \<or> wait t \<ge> last_pid s \<or> processes s ! nat (wait t) = None")
      case True
      then show ?thesis using check t
        by (simp add: sched_check_waiting_thread_def Let_def run_it_def rbind_eq_Inr upd_thread_Inr)
    next
      case False
      then obtain w where w: "proc s (wait t) = Inr w" by (auto simp: proc_Inr)
      show ?thesis
      proof (cases "threadcount w = 0")
        case True
        have "thread (put_proc (wait t) x s) tid = Inr t" for x using t by (simp add: thread_Inr)
        then show ?thesis using check t w False True
          by (simp add: sched_check_waiting_thread_def Let_def run_it_def rbind_eq_Inr upd_thread_Inr upd_proc_Inr)
      next
        case nz: False
        then show ?thesis using check t w False
          by (simp add: sched_check_waiting_thread_def Let_def)
      qed
    qed
    have kept: "round_ok tid s (put_thread tid (Some (run_it t)) s)"
      using inv cur t refl by (rule round_ok_upd) (use st in \<open>auto simp: run_it_def\<close>)
    from check' show ?thesis
    proof (elim disjE exE conjE)
      assume "pid = -1" "s1 = s"
      then show ?thesis using rest round_ok_none [OF inv cur] other st by simp
    next
      assume "pid = -1" "s1 = put_thread tid (Some (run_it t)) s"
      then show ?thesis using rest kept by simp
    next
      fix w assume w: "pid = wait t" "0 \<le> pid" "proc s pid = Inr w" "threadcount w = 0"
        and s1: "s1 = put_thread tid (Some (run_it t))
          (put_proc pid (Some (w\<lparr>waiting_threads := waiting_threads w - 1\<rparr>)) s)"
      have ti: "threads s ! nat tid = Some t" "nat tid < length (threads s)" "0 \<le> tid" "tid < last_tid s"
        using t by (auto simp: thread_Inr last_tid_def)
      then have "Some t \<in> set (threads s)" using nth_mem by metis
      then have ne: "pid \<noteq> t_pid t" using inv(2) st None w by (auto simp: no_self_wait_def)
      have t1: "thread s1 tid = Inr (run_it t)" using ti s1 by (simp add: thread_Inr)
      have "0 \<le> t_pid t" using p by (auto simp: get_proc_Inr)
      with ne w(2) have nne: "nat (t_pid t) \<noteq> nat pid" by linarith
      with p have p1: "get_proc s1 (t_pid t) = Inr (Some q)" using s1 by (simp add: get_proc_Inr)
      obtain s2 where s2: "run_thread s1 tid = Inr s2"
        and rest2: "rbind (proc s2 pid) (\<lambda>p. rbind (thread s2 tid) (\<lambda>t.
            rbind (aset ''esp_k'' (esp_k t) 11 (exitcode p)) (\<lambda>regs.
            sched_reap_process (put_thread tid (Some (t\<lparr>esp_k := regs\<rparr>)) s2) pid))) = Inr s'"
        using rest w(1,2) by (auto simp: rbind_eq_Inr)
      obtain m where s2': "s2 = s1\<lparr>kmem := m, currentps := Some (t_pid t), currenttid := tid\<rparr>"
      proof (rule run_thread_Inr [OF s2])
        fix u m r assume u: "thread s1 tid = Inr u" "get_proc s1 (t_pid u) = Inr r"
          and e: "s2 = s1\<lparr>kmem := m, currentps := (if r = None then None else Some (t_pid u)), currenttid := tid\<rparr>"
        with t1 have "u = run_it t" by simp
        with u e p1 show thesis by (intro that [of m]) (auto simp: run_it_def)
      qed
      have t2: "thread s2 tid = Inr (run_it t)" using t1 s2' by (simp add: thread_Inr last_tid_def)
      then obtain regs where
        reap: "sched_reap_process (put_thread tid (Some (run_it t\<lparr>esp_k := regs\<rparr>)) s2) pid = Inr s'"
        using rest2 by (auto simp: rbind_eq_Inr)
      let ?s3 = "put_thread tid (Some (run_it t\<lparr>esp_k := regs\<rparr>)) s2"
      have "proc ?s3 pid = Inr (w\<lparr>waiting_threads := waiting_threads w - 1\<rparr>)"
        using w s1 s2' by (auto simp: proc_Inr last_pid_def)
      from reap_no_threads [OF reap this] w
      have r: "threads s' = threads ?s3" "currenttid s' = currenttid ?s3" "currentps s' = currentps ?s3"
        "same_queue ?s3 s'" "\<forall>i. i \<noteq> nat pid \<longrightarrow> processes s' ! i = processes ?s3 ! i"
        "last_pid s' = last_pid ?s3"
        by simp_all
      have thr: "threads s' = threads (put_thread tid (Some (run_it t\<lparr>esp_k := regs\<rparr>)) s)"
        using r(1) s2' s1 by simp
      have k2: "round_ok tid s (put_thread tid (Some (run_it t\<lparr>esp_k := regs\<rparr>)) s)"
        using inv cur t
        by (rule round_ok_upd [where f = "\<lambda>t. run_it t\<lparr>esp_k := regs\<rparr>"]) (use st in \<open>auto simp: run_it_def\<close>)
      have q: "same_queue s s'" using r(4) s2' s1 by (simp add: same_queue_def)
      have "current_ok s'"
        unfolding current_ok_def
        by (rule exI [of _ "run_it t\<lparr>esp_k := regs\<rparr>"], rule exI [of _ q])
          (use r thr ti p s2' s1 nne in \<open>simp add: thread_Inr last_tid_def proc_Inr get_proc_Inr last_pid_def run_it_def\<close>)
      moreover have "currenttid s' \<noteq> -1" using r(2) s2' ti by simp
      moreover have "idle_ok s'" "no_self_wait s'" "idle_running s \<longrightarrow> idle_running s'"
        using k2 thr q idle_threads [OF thr] no_self_wait_threads [OF thr]
        by (auto simp: round_ok_def same_queue_def)
      ultimately show ?thesis using q by (simp add: round_ok_def same_queue_def)
    qed
  qed
qed

lemma round_ok_dead:
  assumes inv: "idle_ok s" "no_self_wait s" and cur: "currenttid s = -1" and t: "thread s tid = Inr t"
    and st: "t_state t = THREAD_DEAD" and run: "pick_dead s tid t = Inr s'"
  shows "round_ok tid s s'"
proof -
  have other: "tid \<noteq> idletid s" "nat tid \<noteq> nat (idletid s)" using idle_state [OF inv(1) t] st by simp_all
  obtain s1 s2 where s1: "dequeue s = Inr s1"
    and s2: "s2 = s1 \<or> (\<exists>p. s2 = put_proc (wait t) (Some p) s1)" and s': "s' = put_thread tid None s2"
    using run by (auto simp: pick_dead_def rbind_eq_Inr split: if_splits option.splits)
  have q1: "queue_loc s1 = queue_loc s - 1" "queue_end s1 = queue_end s - 1" "queue_start s1 = queue_start s"
    "idletid s1 = idletid s" "threads s1 = threads s" "currenttid s1 = currenttid s"
    using s1 by (auto simp: dequeue_def Let_def split: if_splits)
  then have q: "queue_loc s' = queue_loc s - 1" "queue_end s' = queue_end s - 1" "queue_start s' = queue_start s"
    "idletid s' = idletid s" "threads s' = (threads s)[nat tid := None]" "currenttid s' = -1"
    using s2 s' cur by (elim disjE exE; simp)+
  have "idle_ok s'" "idle_running s' = idle_running s"
    using idle_other [of tid s' s] q inv(1) other by auto
  moreover have "no_self_wait s'"
    using no_self_wait_put [OF inv(2), of None tid] no_self_wait_threads [of s' "put_thread tid None s"] q by simp
  ultimately show ?thesis using q other by (simp add: round_ok_def)
qed

subsection \<open>The loop, for every loader that keeps the contract\<close>

locale program_loader =
  fixes load :: loader
  assumes load_frame:
    "\<lbrakk>load s pid tid = Inr (r, s'); thread s tid = Inr t; t_pid t = pid; t_state t = THREAD_STARTING\<rbrakk> \<Longrightarrow> loaded tid s s'"
begin

lemma pick_thread_round_ok:
  assumes inv: "idle_ok s" "no_self_wait s" and cur: "currenttid s = -1" and run: "pick_thread load s tid = Inr s'"
  shows "round_ok tid s s'"
proof -
  obtain t pr where t: "thread s tid = Inr t" and pr: "get_proc s (t_pid t) = Inr pr"
    and live: "t_state t \<noteq> THREAD_DEAD \<longrightarrow> (\<exists>q. pr = Some q \<and> p_state q \<noteq> PROCESS_EXITING)"
    and body: "(case t_state t of
             THREAD_RUNNING \<Rightarrow> run_thread s tid
           | THREAD_SUSPENDED \<Rightarrow> Inr s
           | THREAD_WAITING \<Rightarrow> pick_waiting s tid t
           | THREAD_STARTING \<Rightarrow> pick_starting load s tid t
           | THREAD_EXITING \<Rightarrow> upd_thread s tid (\<lambda>t. t\<lparr>t_state := THREAD_DEAD\<rparr>)
           | THREAD_DEAD \<Rightarrow> pick_dead s tid t) = Inr s'"
    using run
    by (auto simp: pick_thread_def rbind_eq_Inr thread_def split: option.splits if_splits)
  have run_now: "round_ok tid s (put_thread tid (Some (t\<lparr>t_state := THREAD_RUNNING\<rparr>)) s)"
    if "t_state t \<noteq> THREAD_RUNNING"
    using inv cur t refl
    by (rule round_ok_upd [where f = "\<lambda>t. t\<lparr>t_state := THREAD_RUNNING\<rparr>"]) (use that in auto)
  show ?thesis
  proof (cases "t_state t")
    case THREAD_RUNNING
    then show ?thesis using live pr body by (intro round_ok_run [OF inv t _ pr]) auto
  next
    case THREAD_SUSPENDED
    then show ?thesis using body round_ok_none [OF inv cur] idle_state [OF inv(1) t] by simp
  next
    case THREAD_WAITING
    then obtain q where "get_proc s (t_pid t) = Inr (Some q)" "p_state q \<noteq> PROCESS_EXITING"
      using live pr by auto
    then show ?thesis using body THREAD_WAITING by (intro round_ok_waiting [OF inv cur t]) auto
  next
    case THREAD_STARTING
    then have start: "pick_starting load s tid t = Inr s'" using body by simp
    show ?thesis
    proof (cases "t_privilege t = 0")
      case True
      with start t show ?thesis using run_now THREAD_STARTING by (simp add: pick_starting_def upd_thread_Inr)
    next
      case user: False
      then obtain p where p: "proc s (t_pid t) = Inr p"
        and c: "(case p_state p of
          PROCESS_STARTING \<Rightarrow> rbind (load s (t_pid t) tid) (\<lambda>(r, s). Inr s)
        | PROCESS_RUNNING \<Rightarrow> upd_thread s tid (\<lambda>t. t\<lparr>t_state := THREAD_RUNNING\<rparr>)
        | PROCESS_LOADING \<Rightarrow> upd_thread s tid (\<lambda>t. t\<lparr>t_state := THREAD_RUNNING\<rparr>)
        | PROCESS_EXITING \<Rightarrow> Inr s) = Inr s'"
        using start by (auto simp: pick_starting_def rbind_eq_Inr)
      show ?thesis
      proof (cases "p_state p")
        case PROCESS_STARTING
        with c obtain r where "load s (t_pid t) tid = Inr (r, s')" by (auto simp: rbind_eq_Inr)
        from load_frame [OF this t refl THREAD_STARTING] round_ok_loaded [OF inv cur t THREAD_STARTING user]
        show ?thesis by simp
      next
        case PROCESS_EXITING
        with c show ?thesis
          using round_ok_none [OF inv cur] idle_state [OF inv(1) t] THREAD_STARTING user by simp
      qed (use c t run_now THREAD_STARTING in \<open>simp_all add: upd_thread_Inr\<close>)
    qed
  next
    case THREAD_EXITING
    then have "s' = put_thread tid (Some (t\<lparr>t_state := THREAD_DEAD\<rparr>)) s"
      using body t by (simp add: upd_thread_Inr)
    from inv cur t this show ?thesis
      by (rule round_ok_upd [where f = "\<lambda>t. t\<lparr>t_state := THREAD_DEAD\<rparr>"])
        (use THREAD_EXITING idle_state [OF inv(1) t] in auto)
  next
    case THREAD_DEAD
    then show ?thesis using body by (intro round_ok_dead [OF inv cur t]) auto
  qed
qed

text \<open>The measure that every round which does not pick a thread decreases.\<close>

abbreviation rounds :: "kernel \<Rightarrow> bool \<Rightarrow> nat" where
  "rounds s loop \<equiv> nat (queue_end s - queue_loc s) +
     (if loop then 0 else nat (queue_end s - queue_start s)) + (if idle_running s then 0 else 1)"

lemma pick_round_decreases:
  assumes inv: "idle_ok s" "no_self_wait s" and cur: "currenttid s = -1"
    and run: "pick_round load s loop = Inr (s', loop')"
  shows "idle_ok s' \<and> no_self_wait s' \<and>
    (currenttid s' \<noteq> -1 \<and> current_ok s' \<or> currenttid s' = -1 \<and> rounds s' loop' < rounds s loop)"
proof -
  obtain tid s1 where cand: "next_candidate s loop = Inr (tid, s1, loop')"
    and pick: "pick_thread load s1 tid = Inr s'"
    using run by (auto simp: pick_round_def rbind_eq_Inr)
  obtain l where s1: "s1 = s\<lparr>queue_loc := l\<rparr>" and "loop \<longrightarrow> loop'" and
    m: "nat (queue_end s - l) + (if loop' then 0 else nat (queue_end s - queue_start s))
       < nat (queue_end s - queue_loc s) + (if loop then 0 else nat (queue_end s - queue_start s)) \<or>
     tid = idletid s \<and> nat (queue_end s - l) + (if loop' then 0 else nat (queue_end s - queue_start s))
       \<le> nat (queue_end s - queue_loc s) + (if loop then 0 else nat (queue_end s - queue_start s))"
    using next_candidate_cases [OF cand] by metis
  have "idle_ok s1" "no_self_wait s1" "idle_running s1 = idle_running s" "currenttid s1 = -1"
    using inv cur s1 idle_threads [of s1 s] no_self_wait_threads [of s1 s] by auto
  with pick_thread_round_ok [OF _ _ _ pick] have ok: "round_ok tid s1 s'"
    and same: "idle_running s1 = idle_running s" by auto
  have e: "queue_end s1 = queue_end s" "queue_loc s1 = l" "queue_start s1 = queue_start s" "idletid s1 = idletid s"
    using s1 by simp_all
  let ?d = "(if loop' then 0 else nat (queue_end s - queue_start s))"
  let ?i = "\<lambda>s. if idle_running s then 0 else (1 :: nat)"
  have le: "nat (queue_end s' - queue_loc s') + (if loop' then 0 else nat (queue_end s' - queue_start s'))
      \<le> nat (queue_end s - l) + ?d" "?i s' \<le> ?i s"
    using ok e same by (auto simp: round_ok_def)
  show ?thesis
  proof (cases "currenttid s' = -1")
    case False
    then show ?thesis using ok by (simp add: round_ok_def)
  next
    case True
    have "rounds s' loop' < rounds s loop"
      using m
    proof
      assume "nat (queue_end s - l) + ?d
        < nat (queue_end s - queue_loc s) + (if loop then 0 else nat (queue_end s - queue_start s))"
      with le show ?thesis by linarith
    next
      assume i: "tid = idletid s \<and> nat (queue_end s - l) + ?d
       \<le> nat (queue_end s - queue_loc s) + (if loop then 0 else nat (queue_end s - queue_start s))"
      with ok True e same have "?i s' < ?i s" by (auto simp: round_ok_def)
      with i le show ?thesis by linarith
    qed
    then show ?thesis using ok True by (simp add: round_ok_def)
  qed
qed

lemma pick_loop_ends:
  assumes "idle_ok s" "no_self_wait s" "currenttid s = -1 \<or> current_ok s"
    "n \<ge> (if currenttid s = -1 then rounds s loop + 2 else 1)"
  shows "\<exists>r. pick_loop n load s loop = Some r \<and>
     (\<forall>s'. r = Inr s' \<longrightarrow> currenttid s' \<noteq> -1 \<and> current_ok s' \<and> idle_ok s' \<and> no_self_wait s')"
  using assms
proof (induction n arbitrary: s loop)
  case (Suc n)
  show ?case
  proof (cases "currenttid s = -1")
    case cur: True
    show ?thesis
    proof (cases "pick_round load s loop")
      case (Inr x)
      obtain s' loop' where x: "x = (s', loop')" by (cases x)
      note d = pick_round_decreases [OF Suc.prems(1,2) cur Inr [unfolded x]]
      have "n \<ge> (if currenttid s' = -1 then rounds s' loop' + 2 else 1)"
        using Suc.prems(4) cur d by (cases "currenttid s' = -1") auto
      with d Suc.IH [of s' loop'] Inr x cur show ?thesis by auto
    qed (use cur in simp)
  qed (use Suc.prems in simp)
qed (simp split: if_splits)

theorem sched_pick_next_total:
  assumes "idle_ok s" "no_self_wait s"
  shows "\<exists>r. pick_loop (pick_fuel s) load (s\<lparr>currenttid := -1\<rparr>) False = Some r \<and>
     (\<forall>s'. r = Inr s' \<longrightarrow> currenttid s' \<noteq> -1 \<and> current_ok s' \<and> idle_ok s' \<and> no_self_wait s')"
proof -
  let ?s = "s\<lparr>currenttid := -1\<rparr>"
  have "idle_ok ?s" "no_self_wait ?s"
    using assms idle_threads [of ?s s] no_self_wait_threads [of ?s s] by simp_all
  then show ?thesis
    by (rule pick_loop_ends) (auto simp: pick_fuel_def)
qed

end

subsection \<open>Round robin\<close>

text \<open>Queue position \<open>i\<close> holds a suspended thread of a live process, or a running one.\<close>

definition passed :: "kernel \<Rightarrow> int \<Rightarrow> bool" where
  "passed s i \<longleftrightarrow> (\<exists>t p. thread s (queue s (nat i)) = Inr t \<and> t_state t = THREAD_SUSPENDED \<and>
     proc s (t_pid t) = Inr p \<and> p_state p \<noteq> PROCESS_EXITING)"

definition runnable :: "kernel \<Rightarrow> int \<Rightarrow> bool" where
  "runnable s i \<longleftrightarrow> (\<exists>t p. thread s (queue s (nat i)) = Inr t \<and> t_state t = THREAD_RUNNING \<and>
     proc s (t_pid t) = Inr p \<and> p_state p \<noteq> PROCESS_EXITING)"

lemma passed_loc [simp]: "passed (s\<lparr>queue_loc := l\<rparr>) i = passed s i"
  by (simp add: passed_def thread_Inr proc_Inr last_tid_def last_pid_def)

lemma runnable_loc [simp]: "runnable (s\<lparr>queue_loc := l\<rparr>) i = runnable s i"
  by (simp add: runnable_def thread_Inr proc_Inr last_tid_def last_pid_def)

lemma pop_entry:
  assumes "0 \<le> queue_loc s" "queue_loc s < queue_end s" "queue_end s \<le> int (queue_cap s)"
    "queue s (nat (queue_loc s)) \<noteq> -1"
  shows "next_candidate s loop = Inr (queue s (nat (queue_loc s)), s\<lparr>queue_loc := queue_loc s + 1\<rparr>, loop)"
  using assms by (simp add: next_candidate_def sched_pop_next_tid_def queue_get_def)

lemma pick_passed:
  assumes "passed s i"
  shows "pick_thread load s (queue s (nat i)) = Inr s" "queue s (nat i) \<noteq> -1"
proof -
  obtain t p where t: "thread s (queue s (nat i)) = Inr t" "t_state t = THREAD_SUSPENDED"
    and p: "proc s (t_pid t) = Inr p" "p_state p \<noteq> PROCESS_EXITING"
    using assms by (auto simp: passed_def)
  then have "get_thread s (queue s (nat i)) = Inr (Some t)" "get_proc s (t_pid t) = Inr (Some p)"
    by (auto simp: thread_Inr get_thread_Inr proc_Inr get_proc_Inr)
  with t p show "pick_thread load s (queue s (nat i)) = Inr s" by (simp add: pick_thread_def)
  from t show "queue s (nat i) \<noteq> -1" by (auto simp: thread_Inr)
qed

lemma pick_runnable:
  assumes "runnable s i"
  shows "pick_thread load s (queue s (nat i)) = run_thread s (queue s (nat i))" "queue s (nat i) \<noteq> -1"
proof -
  obtain t p where t: "thread s (queue s (nat i)) = Inr t" "t_state t = THREAD_RUNNING"
    and p: "proc s (t_pid t) = Inr p" "p_state p \<noteq> PROCESS_EXITING"
    using assms by (auto simp: runnable_def)
  then have "get_thread s (queue s (nat i)) = Inr (Some t)" "get_proc s (t_pid t) = Inr (Some p)"
    by (auto simp: thread_Inr get_thread_Inr proc_Inr get_proc_Inr)
  with t p show "pick_thread load s (queue s (nat i)) = run_thread s (queue s (nat i))"
    by (simp add: pick_thread_def)
  from t show "queue s (nat i) \<noteq> -1" by (auto simp: thread_Inr)
qed

lemma pick_loop_passes:
  assumes "currenttid s = -1" "0 \<le> queue_loc s" "queue_loc s + int k \<le> queue_end s"
    "queue_end s \<le> int (queue_cap s)" "\<forall>i. queue_loc s \<le> i \<and> i < queue_loc s + int k \<longrightarrow> passed s i"
  shows "pick_loop (n + k) load s loop = pick_loop n load (s\<lparr>queue_loc := queue_loc s + int k\<rparr>) loop"
  using assms
proof (induction k arbitrary: s)
  case (Suc k)
  let ?s = "s\<lparr>queue_loc := queue_loc s + 1\<rparr>"
  have p: "passed s (queue_loc s)" using Suc.prems by simp
  then have "passed ?s (queue_loc s)" by simp
  with pick_passed(1) [OF this, of load] have "pick_round load s loop = Inr (?s, loop)"
    using pop_entry [of s loop] pick_passed(2) [OF p] Suc.prems by (simp add: pick_round_def)
  then have "pick_loop (n + Suc k) load s loop = pick_loop (n + k) load ?s loop"
    using Suc.prems(1) by simp
  also have "\<dots> = pick_loop n load (?s\<lparr>queue_loc := queue_loc ?s + int k\<rparr>) loop"
    using Suc.prems by (intro Suc.IH) auto
  finally show ?case by (simp add: add.assoc)
qed simp

lemma pick_loop_wraps:
  assumes "currenttid s = -1" "queue_loc s \<ge> queue_end s" "0 \<le> queue_start s" "queue_start s < queue_end s"
    "queue_end s \<le> int (queue_cap s)" "queue s (nat (queue_start s)) \<noteq> -1"
  shows "pick_loop (Suc n) load s False = pick_loop (Suc n) load (s\<lparr>queue_loc := queue_start s\<rparr>) True"
proof -
  have "next_candidate s False = next_candidate (s\<lparr>queue_loc := queue_start s\<rparr>) True"
    using assms by (simp add: next_candidate_def sched_pop_next_tid_def queue_get_def)
  with assms(1) show ?thesis by (simp add: pick_round_def)
qed

lemma pick_loop_picks:
  assumes "currenttid s = -1" "0 \<le> queue_loc s" "queue_loc s < queue_end s"
    "queue_end s \<le> int (queue_cap s)" "runnable s (queue_loc s)"
  shows "pick_loop (Suc (Suc n)) load s loop =
    Some (run_thread (s\<lparr>queue_loc := queue_loc s + 1\<rparr>) (queue s (nat (queue_loc s))))"
proof -
  let ?s = "s\<lparr>queue_loc := queue_loc s + 1\<rparr>"
  have r: "pick_round load s loop = rbind (run_thread ?s (queue s (nat (queue_loc s)))) (\<lambda>s. Inr (s, loop))"
    using pop_entry [of s loop] pick_runnable [OF assms(5)] assms
      pick_runnable(1) [of ?s "queue_loc s" load] by (simp add: pick_round_def)
  show ?thesis
  proof (cases "run_thread ?s (queue s (nat (queue_loc s)))")
    case (Inr s')
    then have "currenttid s' = queue s (nat (queue_loc s))" by (rule run_thread_Inr) simp
    then show ?thesis using r Inr assms(1) pick_runnable(2) [OF assms(5)] by simp
  qed (use r assms(1) in simp)
qed

text \<open>The cyclic order: the entries from \<open>queue_loc\<close>, then the queue from its start.\<close>

definition before :: "kernel \<Rightarrow> int \<Rightarrow> int set" where
  "before s j = (if queue_loc s \<le> j then {queue_loc s..<j} else {queue_loc s..<queue_end s} \<union> {queue_start s..<j})"

text \<open>
  C10: \<open>sched_pick_next\<close> is round robin: when the queue position \<open>j\<close> holds a running thread
  and every position before it in cyclic order, starting at \<open>queue_loc\<close>, holds a suspended
  one, the scheduler skips exactly those, switches to the thread at \<open>j\<close> and leaves
  \<open>queue_loc\<close> just after it, whatever the program loader does.
\<close>

theorem sched_round_robin:
  assumes "0 \<le> queue_start s" "queue_start s \<le> queue_loc s" "queue_loc s \<le> queue_end s" "queue_end s \<le> int (queue_cap s)"
    and "queue_start s \<le> j" "j < queue_end s" "runnable s j" "\<forall>i\<in>before s j. passed s i"
  shows "sched_pick_next load s =
    run_thread (s\<lparr>currenttid := -1, queue_loc := j + 1\<rparr>) (queue s (nat j))"
proof -
  let ?s = "s\<lparr>currenttid := -1\<rparr>"
  have cur: "passed ?s i = passed s i" "runnable ?s i = runnable s i" for i
    by (simp_all add: passed_def runnable_def thread_Inr proc_Inr last_tid_def last_pid_def)
  show ?thesis
  proof (cases "queue_loc s \<le> j")
    case True
    define k where "k = nat (j - queue_loc s)"
    have k: "queue_loc s + int k = j" using True by (simp add: k_def)
    have "k + 2 \<le> pick_fuel s" using True assms(6) by (simp add: k_def pick_fuel_def)
    then obtain n where "pick_fuel s = k + 2 + n" using le_Suc_ex by blast
    then have n: "pick_fuel s = Suc (Suc n) + k" by simp
    have "pick_loop (pick_fuel s) load ?s False = pick_loop (Suc (Suc n)) load (?s\<lparr>queue_loc := queue_loc ?s + int k\<rparr>) False"
      unfolding n using assms True k by (intro pick_loop_passes) (auto simp: before_def cur)
    also have "\<dots> = Some (run_thread (s\<lparr>currenttid := -1, queue_loc := j + 1\<rparr>) (queue s (nat j)))"
      using assms True k pick_loop_picks [of "?s\<lparr>queue_loc := j\<rparr>" n load False] by (simp add: cur)
    finally show ?thesis by (simp add: sched_pick_next_def)
  next
    case False
    define k1 where "k1 = nat (queue_end s - queue_loc s)"
    define k2 where "k2 = nat (j - queue_start s)"
    have k1: "queue_loc s + int k1 = queue_end s" and k2: "queue_start s + int k2 = j"
      using assms(3,5) by (simp_all add: k1_def k2_def)
    have "k1 + k2 + 2 \<le> pick_fuel s" using assms(3,5,6) by (simp add: k1_def k2_def pick_fuel_def)
    then obtain n where "pick_fuel s = k1 + k2 + 2 + n" using le_Suc_ex by blast
    then have n: "pick_fuel s = Suc (Suc n) + k2 + k1" by simp
    have start: "queue s (nat (queue_start s)) \<noteq> -1"
      using assms False pick_passed(2) [of s "queue_start s"] pick_runnable(2) [of s j]
      by (cases "queue_start s = j") (auto simp: before_def)
    have "pick_loop (pick_fuel s) load ?s False = pick_loop (Suc (Suc n) + k2) load (?s\<lparr>queue_loc := queue_loc ?s + int k1\<rparr>) False"
      unfolding n using assms False k1 by (intro pick_loop_passes) (auto simp: before_def cur)
    also have "\<dots> = pick_loop (Suc (Suc n) + k2) load (?s\<lparr>queue_loc := queue_start s\<rparr>) True"
      using pick_loop_wraps [of "?s\<lparr>queue_loc := queue_end s\<rparr>" "Suc n + k2" load] assms start k1 by simp
    also have "\<dots> = pick_loop (Suc (Suc n)) load (?s\<lparr>queue_loc := queue_start s, queue_loc := queue_start s + int k2\<rparr>) True"
      using pick_loop_passes [of "?s\<lparr>queue_loc := queue_start s\<rparr>" k2 "Suc (Suc n)" load True] assms False k2
      by (auto simp: before_def cur)
    also have "\<dots> = Some (run_thread (s\<lparr>currenttid := -1, queue_loc := j + 1\<rparr>) (queue s (nat j)))"
      using assms False k2 pick_loop_picks [of "?s\<lparr>queue_loc := j\<rparr>" n load True] by (simp add: cur)
    finally show ?thesis by (simp add: sched_pick_next_def)
  qed
qed

definition demo_round :: kernel where
  "demo_round = put_thread 2 (Some ((demo_thread 2 3)\<lparr>t_state := THREAD_SUSPENDED\<rparr>)) demo"

lemma sched_round_robin_witness:
  "sched_pick_next (\<lambda>s pid tid. Inr (0, s)) demo_round =
     run_thread (demo_round\<lparr>currenttid := -1, queue_loc := 1\<rparr>) 1"
proof -
  have "before demo_round 0 = {1}"
    by (auto simp: before_def demo_round_def demo_def)
  then show ?thesis
    using sched_round_robin [of demo_round 0 "\<lambda>s pid tid. Inr (0, s)"]
    by (simp add: demo_round_def demo_def put_thread_def passed_def runnable_def thread_Inr proc_Inr
        last_tid_def last_pid_def demo_thread_def demo_process_def)
qed

end
