(* ===== verification/Brk.thy ===== *)
theory Brk
  imports Schedule
begin

section \<open>The program break and killing processes\<close>

text \<open>
  What \<open>sched_setbrk\<close> and \<open>sched_kill_process\<close> guarantee to user programs, whatever
  address or pid they are given.
\<close>

subsection \<open>The page loops\<close>

lemma grow_loop_end:
  assumes "grow_loop n m pg = Inr (failed, pg', m')"
  shows "\<exists>k\<le>n. pg' = pg + 4096 * of_nat k \<and> (\<not> failed \<longrightarrow> k = n)"
  using assms
proof (induction n arbitrary: m pg)
  case (Suc n)
  show ?case
  proof (cases "pg' = pg \<and> failed")
    case True
    then show ?thesis by (intro exI [of _ 0]) simp
  next
    case False
    with Suc.prems obtain m1 where "grow_loop n m1 (pg + 4096) = Inr (failed, pg', m')"
      by (auto simp: rbind_eq_Inr split: if_splits)
    from Suc.IH [OF this] obtain k where "k \<le> n" "pg' = pg + 4096 + 4096 * of_nat k" "\<not> failed \<longrightarrow> k = n" by auto
    then show ?thesis by (intro exI [of _ "Suc k"]) (simp add: algebra_simps)
  qed
qed simp

lemma unmap_down_end: "unmap_down n m pg = Inr (pg', m') \<Longrightarrow> pg' = pg - 4096 * of_nat n"
proof (induction n arbitrary: m pg)
  case (Suc n)
  then obtain m1 where "unmap_down n m1 (pg - 4096) = Inr (pg', m')"
    by (auto simp: Let_def rbind_eq_Inr)
  from Suc.IH [OF this] show ?case by (simp add: algebra_simps)
qed simp

lemma unat_mod4096: "unat (a mod 4096 :: u32) = unat a mod 4096"
  by (simp add: unat_mod)

lemma unat_div4096: "unat (a div 4096 :: u32) = unat a div 4096"
  by (simp add: unat_div)

lemma round_page_ok:
  assumes "\<not> round_page a < a"
  shows "4096 dvd unat (round_page a) \<and> unat a \<le> unat (round_page a) \<and> unat (round_page a) < unat a + 4096"
proof (cases "a mod 4096 = 0")
  case True
  then have "unat a mod 4096 = 0" using unat_mod4096 [of a] by simp
  then show ?thesis using True by (simp add: round_page_def mod_eq_0_iff_dvd)
next
  case False
  let ?d = "4096 - a mod 4096" and ?w = "unat a mod 4096"
  have r: "round_page a = a + ?d" using False by (simp add: round_page_def)
  have w: "0 < ?w" "?w < 4096"
    using False unat_mod4096 [of a] by (metis unat_eq_0 gr0I, simp)
  have le: "a mod 4096 \<le> (4096 :: u32)"
    using unat_mod4096 [of a] by (simp add: word_le_nat_alt)
  have d: "unat ?d = 4096 - ?w"
    using unat_sub [OF le] unat_mod4096 [of a] by simp
  have "unat (a + ?d) = unat a + unat ?d"
    using assms r by (simp add: unat_plus_simple not_less)
  then have e: "unat (round_page a) = unat a + (4096 - ?w)" using r d by simp
  have "unat a + (4096 - ?w) = 4096 * (unat a div 4096) + 4096"
    using mult_div_mod_eq [of 4096 "unat a"] w by linarith
  then have "4096 dvd unat a + (4096 - ?w)" by simp
  then show ?thesis unfolding e using w by linarith
qed

lemma pages_between:
  assumes "a \<le> b" "4096 dvd unat a" "4096 dvd unat b"
  shows "unat (b - a) = unat b - unat a" "4096 * of_nat (unat ((b - a) div 4096)) = (b - a :: u32)"
    "4096 * unat ((b - a) div 4096) = unat b - unat a"
proof -
  show sub: "unat (b - a) = unat b - unat a" using assms(1) by (rule unat_sub)
  have "4096 dvd unat b - unat a" using assms(2,3) by (rule dvd_diff_nat [rotated])
  then show n: "4096 * unat ((b - a) div 4096) = unat b - unat a"
    by (simp add: unat_div4096 sub)
  have "4096 * of_nat (unat ((b - a) div 4096)) = (of_nat (unat (b - a)) :: u32)"
    using n sub by (metis of_nat_mult of_nat_numeral)
  then show "4096 * of_nat (unat ((b - a) div 4096)) = (b - a :: u32)" by simp
qed

subsection \<open>The invariant of the break\<close>

text \<open>
  The break lies between the end of the loaded program and the end of the last page
  allocated, which is the next page boundary and stays below the stack region.
\<close>

definition minbrk :: "process \<Rightarrow> u32" where
  "minbrk p = pgbrk p - brk_offset p"

definition brk_ok :: "process \<Rightarrow> bool" where
  "brk_ok p \<longleftrightarrow> 4096 dvd unat (pgbrk p) \<and> 4096 dvd unat (brk_offset p) \<and>
     brk_offset p \<le> pgbrk p \<and> minbrk p \<le> brk p \<and> brk p \<le> pgbrk p \<and>
     unat (pgbrk p) < unat (brk p) + 4096 \<and> pgbrk p \<le> KERNEL_START - 0x400000"

lemma grow_brk_ok:
  assumes ok: "brk_ok p" and grow: "grow_brk m p want real = Inr (r, p', m')"
    and real: "4096 dvd unat real" "unat want \<le> unat real" "unat real < unat want + 4096"
      "real \<le> KERNEL_START - 0x400000" "pgbrk p < real" and want: "minbrk p \<le> want"
  shows "brk_ok p' \<and> minbrk p' = minbrk p \<and> r = brk p' \<and> (r = want \<or> p' = p)"
proof -
  define n where "n = unat ((real - pgbrk p) div 4096)"
  have pg: "4096 dvd unat (pgbrk p)" "pgbrk p \<le> real" using ok real(5) by (simp_all add: brk_ok_def)
  note between = pages_between [OF pg(2,1) real(1), folded n_def]
  have lt: "unat (pgbrk p) < unat real" using real(5) by (simp add: word_less_nat_alt)
  obtain x where x: "(if (real - pgbrk p) div 4096 + ((real - pgbrk p) div 4096 div 1024 + 2) > of_nat (pmm_available m)
       then Inr (True, pgbrk p, m) else grow_loop n m (pgbrk p)) = Inr x"
    and body: "(case x of (failed, pg', m1) \<Rightarrow> if \<not> failed then
        Inr (want, p\<lparr>pgbrk := pg', brk_offset := brk_offset p + (real - pgbrk p), brk := want\<rparr>, m1)
      else
        rbind (unmap_down ((unat pg' - unat (pgbrk p)) div 4096) m1 pg') (\<lambda>(pg, m).
        Inr (brk p, p\<lparr>pgbrk := pg\<rparr>, m))) = Inr (r, p', m')"
    using grow unfolding grow_brk_def Let_def n_def by (rule rbind_InrE)
  obtain failed pg' m1 where xe: "x = (failed, pg', m1)" by (cases x)
  have loop: "failed \<and> pg' = pgbrk p \<or> grow_loop n m (pgbrk p) = Inr (failed, pg', m1)"
    using x unfolding xe by (simp split: if_splits)
  have rest: "(if \<not> failed then
        Inr (want, p\<lparr>pgbrk := pg', brk_offset := brk_offset p + (real - pgbrk p), brk := want\<rparr>, m1)
      else
        rbind (unmap_down ((unat pg' - unat (pgbrk p)) div 4096) m1 pg') (\<lambda>(pg, m).
        Inr (brk p, p\<lparr>pgbrk := pg\<rparr>, m))) = Inr (r, p', m')"
    using body unfolding xe by simp
  from loop obtain k where k: "k \<le> n" "pg' = pgbrk p + 4096 * of_nat k" "\<not> failed \<longrightarrow> k = n"
  proof (elim disjE conjE)
    assume "failed" "pg' = pgbrk p"
    then show thesis using that [of 0] by simp
  next
    assume "grow_loop n m (pgbrk p) = Inr (failed, pg', m1)"
    from grow_loop_end [OF this] that show thesis by auto
  qed
  show ?thesis
  proof (cases failed)
    case False
    with k between(2) have "pg' = real" by simp
    with rest False have p': "p' = p\<lparr>pgbrk := real, brk_offset := brk_offset p + (real - pgbrk p), brk := want\<rparr>"
      and r: "r = want" by auto
    have off: "unat (brk_offset p) \<le> unat (pgbrk p)" using ok by (simp add: brk_ok_def word_le_nat_alt)
    have o: "unat (brk_offset p + (real - pgbrk p)) = unat (brk_offset p) + (unat real - unat (pgbrk p))"
    proof -
      have "unat (brk_offset p) + (unat real - unat (pgbrk p)) < 4294967296"
        using off lt unat_u32_less [of real] by linarith
      then show ?thesis by (subst unat_word_ariths) (simp add: between(1))
    qed
    have "4096 dvd unat (brk_offset p) + (unat real - unat (pgbrk p))"
      using ok real(1) by (intro dvd_add dvd_diff_nat) (simp_all add: brk_ok_def)
    then show ?thesis
      using off o lt real want r by (simp add: p' brk_ok_def minbrk_def word_le_nat_alt)
  next
    case True
    have "4096 * k \<le> unat real - unat (pgbrk p)" using k(1) between(3) by linarith
    then have small: "unat (pgbrk p) + 4096 * k < 4294967296"
      using lt unat_u32_less [of real] by linarith
    have "unat (of_nat (unat (pgbrk p) + 4096 * k) :: u32) = unat (pgbrk p) + 4096 * k"
      using small by (subst unat_of_nat) simp
    then have "unat pg' = unat (pgbrk p) + 4096 * k"
      unfolding k(2) by simp
    then have "(unat pg' - unat (pgbrk p)) div 4096 = k" by simp
    with rest True obtain pg where "unmap_down k m1 pg' = Inr (pg, m')" "p' = p\<lparr>pgbrk := pg\<rparr>" "r = brk p"
      by (auto simp: rbind_eq_Inr)
    with unmap_down_end [OF this(1)] k(2) have "p' = p" "r = brk p" by simp_all
    then show ?thesis using ok by simp
  qed
qed

lemma shrink_brk_ok:
  assumes ok: "brk_ok p" and shrink: "shrink_brk m p want real = Inr (r, p', m')"
    and real: "4096 dvd unat real" "unat want \<le> unat real" "unat real < unat want + 4096" "real < pgbrk p"
    and want: "minbrk p \<le> want"
  shows "brk_ok p' \<and> minbrk p' = minbrk p \<and> r = brk p' \<and> r = want"
proof -
  define n where "n = unat ((pgbrk p - real) div 4096)"
  have pg: "4096 dvd unat (pgbrk p)" "real \<le> pgbrk p" using ok real(4) by (simp_all add: brk_ok_def)
  note between = pages_between [OF pg(2) real(1) pg(1), folded n_def]
  obtain pg' where "unmap_down n m (pgbrk p) = Inr (pg', m')"
    and p': "p' = p\<lparr>pgbrk := pg', brk_offset := brk_offset p - (pgbrk p - real), brk := want\<rparr>" "r = want"
    using shrink unfolding shrink_brk_def Let_def n_def by (auto simp: rbind_eq_Inr)
  with unmap_down_end [OF this(1)] between(2) have pg': "pg' = real" by simp
  have le: "brk_offset p \<le> pgbrk p" "pgbrk p \<le> KERNEL_START - 0x400000" using ok by (simp_all add: brk_ok_def)
  have mb: "unat (minbrk p) = unat (pgbrk p) - unat (brk_offset p)"
    unfolding minbrk_def using le(1) by (rule unat_sub)
  have "unat (minbrk p) \<le> unat real" using want real(2) by (simp add: word_le_nat_alt)
  then have d: "unat (pgbrk p) - unat real \<le> unat (brk_offset p)"
    using mb by linarith
  then have "pgbrk p - real \<le> brk_offset p" using between(1) by (simp add: word_le_nat_alt)
  then have o: "unat (brk_offset p - (pgbrk p - real)) = unat (brk_offset p) - (unat (pgbrk p) - unat real)"
    using between(1) by (simp add: unat_sub)
  have "4096 dvd unat (brk_offset p) - (unat (pgbrk p) - unat real)"
    using ok real(1) by (intro dvd_diff_nat) (simp_all add: brk_ok_def)
  moreover have "unat (brk_offset p) \<le> unat (pgbrk p)" "unat real < unat (pgbrk p)"
    "unat (pgbrk p) \<le> unat (KERNEL_START - 0x400000)"
    using le real(4) by (simp_all add: word_le_nat_alt word_less_nat_alt)
  ultimately show ?thesis
    using o real want d by (simp add: p' pg' brk_ok_def minbrk_def word_le_nat_alt)
qed

lemma setbrk_ok:
  assumes "brk_ok p" "sched_setbrk_true m p addr = Inr (r, p', m')"
  shows "brk_ok p' \<and> minbrk p' = minbrk p \<and> r = brk p' \<and> (r = addr \<or> p' = p) \<and> cr3 m' = cr3 m"
proof -
  let ?real = "round_page addr"
  let ?quiet = "addr = 0 \<or> addr < minbrk p \<or> addr \<ge> KERNEL_START \<or> ?real < addr \<or> ?real > KERNEL_START - 0x400000"
  show ?thesis
  proof (cases ?quiet)
    case True
    then have "r = brk p \<and> p' = p \<and> m' = m"
      using assms(2) unfolding sched_setbrk_true_def Let_def minbrk_def by (auto split: if_splits)
    then show ?thesis using assms(1) by simp
  next
    case False
    note rp = round_page_ok [of addr]
    have eq: "sched_setbrk_true m p addr = (if pgbrk p = ?real then Inr (addr, p\<lparr>brk := addr\<rparr>, m)
      else rbind (if pgbrk p < ?real then grow_brk (m\<lparr>cr3 := p_cr3 p\<rparr>) p addr ?real
               else shrink_brk (m\<lparr>cr3 := p_cr3 p\<rparr>) p addr ?real) (\<lambda>(r, ps, m'). Inr (r, ps, m'\<lparr>cr3 := cr3 m\<rparr>)))"
      using False unfolding sched_setbrk_true_def Let_def minbrk_def by (simp only: if_False de_Morgan_disj) simp
    show ?thesis
    proof (cases "pgbrk p = ?real")
      case True
      with eq assms(2) have e: "r = addr" "p' = p\<lparr>brk := addr\<rparr>" "m' = m" by simp_all
      show ?thesis using assms(1) rp False True
        by (simp add: e brk_ok_def minbrk_def word_le_nat_alt not_less)
    next
      case ne: False
      obtain x where x: "(if pgbrk p < ?real then grow_brk (m\<lparr>cr3 := p_cr3 p\<rparr>) p addr ?real
               else shrink_brk (m\<lparr>cr3 := p_cr3 p\<rparr>) p addr ?real) = Inr x"
        and y: "(case x of (r, ps, m') \<Rightarrow> Inr (r, ps, m'\<lparr>cr3 := cr3 m\<rparr>)) = (Inr (r, p', m') :: (u32 \<times> process \<times> mem) res)"
        using assms(2) ne unfolding eq by (simp only: if_False) (erule rbind_InrE)
      obtain m0 where xe: "x = (r, p', m0)" and m': "m' = m0\<lparr>cr3 := cr3 m\<rparr>" using y by (cases x) auto
      show ?thesis
      proof (cases "pgbrk p < ?real")
        case True
        with x xe have "grow_brk (m\<lparr>cr3 := p_cr3 p\<rparr>) p addr ?real = Inr (r, p', m0)" by simp
        from grow_brk_ok [OF assms(1) this] rp False True show ?thesis by (auto simp: m' not_less)
      next
        case lt: False
        with x xe have "shrink_brk (m\<lparr>cr3 := p_cr3 p\<rparr>) p addr ?real = Inr (r, p', m0)" by simp
        from lt ne have "?real < pgbrk p" by (simp add: not_less order_less_le)
        from shrink_brk_ok [OF assms(1) \<open>shrink_brk _ _ _ _ = _\<close> _ _ _ this] rp False show ?thesis by (auto simp: m' not_less)
      qed
    qed
  qed
qed

text \<open>
  C21: \<open>sched_setbrk\<close> keeps the break in bounds. Whatever address a process asks for, the
  break stays between the end of its loaded program, which never moves, and the stack region
  below the kernel; the page break is the page boundary just above it. The call returns the
  break then in force: the address asked for, or the old break with nothing changed in the
  process, also when memory runs out after some pages were mapped.
\<close>

theorem sched_setbrk_bounds:
  assumes "brk_ok p" "sched_setbrk_true m p addr = Inr (r, p', m')"
  shows "brk_ok p' \<and> minbrk p' = minbrk p \<and> r = brk p' \<and> (r = addr \<or> p' = p) \<and> cr3 m' = cr3 m"
  using assms by (rule setbrk_ok)

definition brk_demo :: process where
  "brk_demo = (demo_process 1 3)\<lparr>brk := 0x08001FF0, brk_offset := 0x1000\<rparr>"

lemma sched_setbrk_bounds_witness:
  "brk_ok brk_demo \<and> brk_ok (brk_demo\<lparr>brk := 0x08001800\<rparr>) \<and>
   sched_setbrk_true run_mem brk_demo 0x08001800 = Inr (0x08001800, brk_demo\<lparr>brk := 0x08001800\<rparr>, run_mem)"
proof -
  have ok: "brk_ok brk_demo"
    by (simp add: brk_ok_def minbrk_def brk_demo_def demo_process_def KERNEL_START_def)
  have run: "sched_setbrk_true run_mem brk_demo 0x08001800 =
      Inr (0x08001800, brk_demo\<lparr>brk := 0x08001800\<rparr>, run_mem)"
    by (simp add: sched_setbrk_true_def round_page_def brk_demo_def demo_process_def KERNEL_START_def)
  from sched_setbrk_bounds [OF ok run] ok run show ?thesis by simp
qed

subsection \<open>Reaping and killing\<close>

text \<open>The tids of a process that \<open>sched_reap_process\<close> goes through.\<close>

definition live_tids :: "process \<Rightarrow> int set" where
  "live_tids p = set (take (threadcount p) (tids p))"

definition all_dead :: "kernel \<Rightarrow> kernel \<Rightarrow> int set \<Rightarrow> bool" where
  "all_dead s s' T \<longleftrightarrow>
     (\<forall>tid\<in>T. \<exists>t. thread s tid = Inr t \<and> threads s' ! nat tid = Some (t\<lparr>t_state := THREAD_DEAD\<rparr>)) \<and>
     (\<forall>j. j \<notin> nat ` T \<longrightarrow> threads s' ! j = threads s ! j) \<and> length (threads s') = length (threads s)"

lemma mark_dead_effect:
  assumes "mark_dead s ts is = Inr s'"
  shows "all_dead s s' (set (map ((!) ts) is)) \<and> (\<forall>i\<in>set is. i < length ts) \<and> processes s' = processes s \<and>
    kmem s' = kmem s \<and> currentps s' = currentps s"
  using assms
proof (induction "is" arbitrary: s)
  case (Cons i ks)
  then obtain t where i: "i < length ts" and t: "thread s (ts ! i) = Inr t"
    and rest: "mark_dead (put_thread (ts ! i) (Some (t\<lparr>t_state := THREAD_DEAD\<rparr>)) s) ts ks = Inr s'"
    by (auto simp: rbind_eq_Inr aget_Inr upd_thread_Inr)
  let ?s = "put_thread (ts ! i) (Some (t\<lparr>t_state := THREAD_DEAD\<rparr>)) s" and ?T = "set (map ((!) ts) ks)"
  note ih = Cons.IH [OF rest]
  have len: "length (threads s') = length (threads s)" using ih by (simp add: all_dead_def)
  have ti: "0 \<le> ts ! i" "nat (ts ! i) < length (threads s)" "threads s ! nat (ts ! i) = Some t"
    using t by (auto simp: thread_Inr last_tid_def)
  have dead: "\<exists>u. thread s tid = Inr u \<and> threads s' ! nat tid = Some (u\<lparr>t_state := THREAD_DEAD\<rparr>)"
    if "tid \<in> insert (ts ! i) ?T" for tid
  proof (cases "tid \<in> ?T")
    case True
    with ih obtain u where u: "thread ?s tid = Inr u" "threads s' ! nat tid = Some (u\<lparr>t_state := THREAD_DEAD\<rparr>)"
      by (auto simp: all_dead_def)
    show ?thesis
    proof (cases "nat tid = nat (ts ! i)")
      case True
      with u ti have "u = t\<lparr>t_state := THREAD_DEAD\<rparr>" "tid = ts ! i" by (auto simp: thread_Inr)
      with u t show ?thesis by simp
    next
      case False
      with u show ?thesis by (auto simp: thread_Inr)
    qed
  next
    case False
    with that have tid: "tid = ts ! i" by simp
    have "nat tid \<notin> nat ` ?T"
    proof
      assume "nat tid \<in> nat ` ?T"
      then obtain y where y: "y \<in> ?T" "nat tid = nat y" by auto
      with ih obtain u where "thread ?s y = Inr u" unfolding all_dead_def by blast
      then have "0 \<le> y" by (simp add: thread_Inr)
      with y(2) ti(1) tid have "y = tid" by linarith
      with y(1) False show False by simp
    qed
    with ih have "threads s' ! nat tid = threads ?s ! nat tid" by (simp add: all_dead_def)
    with ti tid t show ?thesis by simp
  qed
  have "threads s' ! j = threads s ! j" if "j \<notin> nat ` insert (ts ! i) ?T" for j
    using ih that by (simp add: all_dead_def)
  then show ?case using dead len i ih by (simp add: all_dead_def)
qed (simp add: all_dead_def)

lemma release_effect:
  assumes p: "proc s pid = Inr p" and run: "release_process s pid = Inr s'"
  shows "threads s' = threads s \<and> (\<forall>i. i \<noteq> nat pid \<longrightarrow> processes s' ! i = processes s ! i) \<and>
    length (processes s') = length (processes s) \<and>
    processes s' ! nat pid = (if waiting_threads p = 0 then None else Some p)"
proof (cases "waiting_threads p = 0")
  case True
  with p run obtain c m where "s' = (put_proc pid None (s\<lparr>kmem := m\<rparr>))\<lparr>processes_count := c\<rparr>"
    by (auto simp: release_process_def rbind_eq_Inr on_mem_Inr on_mem0_Inr)
  with True p show ?thesis by (auto simp: put_proc_def proc_Inr last_pid_def)
next
  case False
  with p run have "s' = s" by (simp add: release_process_def)
  with p False show ?thesis by (simp add: proc_Inr)
qed

lemma reap_effect:
  assumes p: "proc s pid = Inr p" and run: "sched_reap_process s pid = Inr s'"
  shows "all_dead s s' (live_tids p) \<and> (\<forall>i. i \<noteq> nat pid \<longrightarrow> processes s' ! i = processes s ! i) \<and>
    length (processes s') = length (processes s) \<and>
    (if waiting_threads p = 0 then processes s' ! nat pid = None
     else \<exists>q. processes s' ! nat pid = Some q \<and> threadcount q = 0 \<and> exitcode q = exitcode p \<and>
       p_state q = p_state p)"
proof -
  have pid: "0 \<le> pid" "pid < last_pid s" "processes s ! nat pid = Some p" using p by (auto simp: proc_Inr)
  show ?thesis
  proof (cases "threadcount p = 0")
    case True
    then have "release_process s pid = Inr s'" using run pid p by (simp add: sched_reap_process_def)
    from release_effect [OF p this] True show ?thesis by (simp add: all_dead_def live_tids_def)
  next
    case False
    let ?q = "p\<lparr>tids_size := 0, threadcount := 0\<rparr>"
    obtain s0 where s0: "mark_dead s (tids p) [0..<threadcount p] = Inr s0"
      and r: "release_process (put_proc pid (Some ?q) s0) pid = Inr s'"
      using run pid p False by (auto simp: sched_reap_process_def rbind_eq_Inr)
    note eff = mark_dead_effect [OF s0]
    have "\<not> length (tids p) < threadcount p"
    proof
      assume "length (tids p) < threadcount p"
      then have "length (tids p) \<in> set [0..<threadcount p]" by simp
      with eff show False by blast
    qed
    then have "map ((!) (tids p)) [0..<threadcount p] = take (threadcount p) (tids p)"
      by (intro nth_equalityI) simp_all
    with eff have dead: "all_dead s s0 (live_tids p)" by (simp add: live_tids_def)
    have "proc (put_proc pid (Some ?q) s0) pid = Inr ?q"
      using pid eff by (simp add: proc_Inr last_pid_def)
    from release_effect [OF this r] dead eff pid show ?thesis
      by (simp add: all_dead_def last_pid_def)
  qed
qed

text \<open>
  C34: \<open>sched_kill_process\<close> enforces its access rules and is complete. It answers \<open>ESRCH\<close> for
  a pid that names no process, \<open>EINVAL\<close> for the caller itself and \<open>EACCES\<close> for a process in a
  more privileged ring, each without any effect. Otherwise it marks every thread of the target
  dead and no other thread, and changes no other process; the target is gone unless a thread
  waits for it, in which case it stays as an exiting process without threads that holds the
  exit code \<open>caller + 255\<close>.
\<close>

theorem sched_kill_process_spec:
  assumes "cur_proc s = Inr cur" "sched_kill_process s pid = Inr (r, s')"
  shows "(if \<not> (0 \<le> pid \<and> pid < last_pid s) \<or> processes s ! nat pid = None then r = - ESRCH \<and> s' = s
     else if pid = p_pid cur then r = - EINVAL \<and> s' = s
     else \<exists>p. processes s ! nat pid = Some p \<and>
       (if p_privilege p < p_privilege cur then r = - EACCES \<and> s' = s
        else r = 0 \<and> all_dead s s' (live_tids p) \<and>
          (\<forall>i. i \<noteq> nat pid \<longrightarrow> processes s' ! i = processes s ! i) \<and>
          (if waiting_threads p = 0 then processes s' ! nat pid = None
           else \<exists>q. processes s' ! nat pid = Some q \<and> threadcount q = 0 \<and>
             p_state q = PROCESS_EXITING \<and> exitcode q = of_int (p_pid cur + 255))))"
proof (cases "\<not> (0 \<le> pid \<and> pid < last_pid s) \<or> processes s ! nat pid = None")
  case True
  then show ?thesis using assms by (auto simp: sched_kill_process_def split: if_splits)
next
  case found: False
  then obtain p where p: "processes s ! nat pid = Some p" "0 \<le> pid" "pid < last_pid s" by auto
  then have proc: "proc s pid = Inr p" by (simp add: proc_Inr)
  show ?thesis
  proof (cases "pid = p_pid cur \<or> p_privilege p < p_privilege cur")
    case True
    then show ?thesis using assms p proc found by (auto simp: sched_kill_process_def)
  next
    case False
    let ?p = "p\<lparr>exitcode := of_int (p_pid cur + 255), p_state := PROCESS_EXITING\<rparr>"
    have reap: "sched_reap_process (put_proc pid (Some ?p) s) pid = Inr s'" and r: "r = 0"
      using assms p proc False by (auto simp: sched_kill_process_def rbind_eq_Inr)
    have "proc (put_proc pid (Some ?p) s) pid = Inr ?p"
      using p by (simp add: proc_Inr last_pid_def)
    from reap_effect [OF this reap]
    have eff: "all_dead s s' (live_tids p)" "\<forall>i. i \<noteq> nat pid \<longrightarrow> processes s' ! i = processes s ! i"
      "if waiting_threads p = 0 then processes s' ! nat pid = None
       else \<exists>q. processes s' ! nat pid = Some q \<and> threadcount q = 0 \<and> exitcode q = of_int (p_pid cur + 255) \<and>
         p_state q = PROCESS_EXITING"
      by (auto simp: all_dead_def live_tids_def thread_Inr split: if_splits)
    then show ?thesis using False found p r by auto
  qed
qed

lemma sched_kill_process_spec_witness:
  "sched_kill_process demo 0 = Inr (- EACCES, demo) \<and> sched_kill_process demo 7 = Inr (- ESRCH, demo)"
proof -
  have cur: "cur_proc demo = Inr (demo_process 1 3)"
    by (simp add: cur_proc_def demo_def proc_Inr last_pid_def)
  have run: "sched_kill_process demo 0 = Inr (- EACCES, demo)" "sched_kill_process demo 7 = Inr (- ESRCH, demo)"
    using cur by (simp_all add: sched_kill_process_def demo_def last_pid_def demo_process_def proc_def get_proc_def)
  from sched_kill_process_spec [OF cur run(1)] sched_kill_process_spec [OF cur run(2)] run show ?thesis by simp
qed

end
