(* ===== verification/Liballoc.thy ===== *)
theory Liballoc
  imports Brk
begin

section \<open>The heap allocator\<close>

text \<open>
  \<open>kernel/kernel/mem/liballoc.c\<close>, and its copy for user programs in \<open>libc/malloc/liballoc.c\<close>.
  Addresses and sizes are \<open>uint32_t\<close>: numbers with the wrap-around written out (\<open>add32\<close>,
  \<open>sub32\<close>); the null pointer is 0. The headers the allocator keeps in front of a block of pages
  (\<open>liballoc_major\<close>) and of an allocation (\<open>liballoc_minor\<close>) are records in two maps from
  addresses, the byte that \<open>ALIGN\<close> stores is in a third, and the bytes of the allocations in a
  fourth; that the regions these maps stand for do not overlap is what the invariant of
  \<open>HeapInv\<close> shows. An access through a pointer without a header is a \<open>Fault\<close>.

  The two copies differ in three places: what happens without memory, whether an empty block
  goes back, and a guard; \<open>kcopy\<close> tells them apart. The functions that get pages and give them
  back, \<open>liballoc_alloc\<close> and \<open>liballoc_free\<close>, are parameters with a state of their own. The
  lock, which is taken and released on every path, is not in the state.
\<close>

definition add32 :: "nat \<Rightarrow> nat \<Rightarrow> nat" where "add32 a b = (a + b) mod 2 ^ 32"
definition sub32 :: "nat \<Rightarrow> nat \<Rightarrow> nat" where "sub32 a b = (a + 2 ^ 32 - b) mod 2 ^ 32"
definition mul32 :: "nat \<Rightarrow> nat \<Rightarrow> nat" where "mul32 a b = (a * b) mod 2 ^ 32"

definition ALIGNMENT :: nat where "ALIGNMENT = 16"
definition ALIGN_INFO :: nat where "ALIGN_INFO = 16"
definition LIBALLOC_MAGIC :: u32 where "LIBALLOC_MAGIC = 0xc001c0de"
definition LIBALLOC_DEAD :: u32 where "LIBALLOC_DEAD = 0xdeaddead"

text \<open>The sizes of the two headers.\<close>

definition sz_major :: nat where "sz_major = 24"
definition sz_minor :: nat where "sz_minor = 24"

definition l_pageSize :: nat where "l_pageSize = 4096"
definition l_pageCount :: nat where "l_pageCount = 16"

record major =
  mj_prev :: nat
  mj_next :: nat
  mj_pages :: nat
  mj_size :: nat
  mj_usage :: nat
  mj_first :: nat

record minor =
  mn_prev :: nat
  mn_next :: nat
  mn_block :: nat
  mn_magic :: u32
  mn_size :: nat
  mn_req :: nat

record heap =
  majors :: "nat \<Rightarrow> major option"
  minors :: "nat \<Rightarrow> minor option"
  aligns :: "nat \<Rightarrow> nat option"
  bytes :: "nat \<Rightarrow> char"
  memRoot :: nat
  bestBet :: nat
  l_allocated :: "64 word"
  l_inuse :: "64 word"
  warnings :: nat
  errors :: nat
  overruns :: nat

definition maj_at :: "heap \<Rightarrow> nat \<Rightarrow> major res" where
  "maj_at h a = deref ''liballoc_major'' (majors h a)"

definition min_at :: "heap \<Rightarrow> nat \<Rightarrow> minor res" where
  "min_at h a = deref ''liballoc_minor'' (minors h a)"

definition put_maj :: "nat \<Rightarrow> major \<Rightarrow> heap \<Rightarrow> heap" where
  "put_maj a x h = h\<lparr>majors := (majors h)(a := Some x)\<rparr>"

definition put_min :: "nat \<Rightarrow> minor \<Rightarrow> heap \<Rightarrow> heap" where
  "put_min a x h = h\<lparr>minors := (minors h)(a := Some x)\<rparr>"

definition upd_maj :: "heap \<Rightarrow> nat \<Rightarrow> (major \<Rightarrow> major) \<Rightarrow> heap res" where
  "upd_maj h a f = rbind (maj_at h a) (\<lambda>x. Inr (put_maj a (f x) h))"

definition upd_min :: "heap \<Rightarrow> nat \<Rightarrow> (minor \<Rightarrow> minor) \<Rightarrow> heap res" where
  "upd_min h a f = rbind (min_at h a) (\<lambda>x. Inr (put_min a (f x) h))"

subsection \<open>Alignment\<close>

text \<open>\<open>ALIGN\<close>: the aligned pointer, and the byte in front of it.\<close>

definition ALIGN :: "nat \<Rightarrow> heap \<Rightarrow> nat \<times> heap" where
  "ALIGN ptr h =
     (let ptr = add32 ptr ALIGN_INFO; diff = ptr mod ALIGNMENT;
          diff = (if diff \<noteq> 0 then ALIGNMENT - diff else 0); ptr = add32 ptr diff in
      (ptr, h\<lparr>aligns := (aligns h)(sub32 ptr ALIGN_INFO := Some (diff + ALIGN_INFO))\<rparr>))"

definition UNALIGN :: "nat \<Rightarrow> heap \<Rightarrow> nat res" where
  "UNALIGN ptr h =
     rbind (deref ''alignment byte'' (aligns h (sub32 ptr ALIGN_INFO))) (\<lambda>diff.
     Inr (if diff < ALIGNMENT + ALIGN_INFO then sub32 ptr diff else ptr))"

subsection \<open>Copying and clearing\<close>

fun liballoc_memset :: "heap \<Rightarrow> nat \<Rightarrow> char \<Rightarrow> nat \<Rightarrow> heap" where
  "liballoc_memset h s c 0 = h"
| "liballoc_memset h s c (Suc n) = liballoc_memset (h\<lparr>bytes := (bytes h)(s := c)\<rparr>) (s + 1) c n"

text \<open>Four bytes at a time, then the rest.\<close>

definition copy4 :: "(nat \<Rightarrow> char) \<Rightarrow> nat \<Rightarrow> nat \<Rightarrow> nat \<Rightarrow> char" where
  "copy4 b d s = b(d := b s, d + 1 := b (s + 1), d + 2 := b (s + 2), d + 3 := b (s + 3))"

fun memcpy_bytes :: "(nat \<Rightarrow> char) \<Rightarrow> nat \<Rightarrow> nat \<Rightarrow> nat \<Rightarrow> nat \<Rightarrow> char" where
  "memcpy_bytes b d s 0 = b"
| "memcpy_bytes b d s (Suc n) = memcpy_bytes (b(d := b s)) (d + 1) (s + 1) n"

fun memcpy_words :: "(nat \<Rightarrow> char) \<Rightarrow> nat \<Rightarrow> nat \<Rightarrow> nat \<Rightarrow> nat \<Rightarrow> char" where
  "memcpy_words b d s n =
     (if n \<ge> 4 then memcpy_words (copy4 b d s) (d + 4) (s + 4) (n - 4) else memcpy_bytes b d s n)"

declare memcpy_words.simps [simp del]

definition liballoc_memcpy :: "heap \<Rightarrow> nat \<Rightarrow> nat \<Rightarrow> nat \<Rightarrow> heap" where
  "liballoc_memcpy h d s n = h\<lparr>bytes := memcpy_words (bytes h) d s n\<rparr>"

subsection \<open>Getting pages\<close>

type_synonym 'm page_alloc = "nat \<Rightarrow> 'm \<Rightarrow> (nat \<times> 'm) res"
type_synonym 'm page_free = "nat \<Rightarrow> nat \<Rightarrow> 'm \<Rightarrow> 'm res"

definition page_count :: "nat \<Rightarrow> nat" where
  "page_count sz =
     (let st = add32 (add32 sz sz_major) sz_minor;
          st = (if st mod l_pageSize = 0 then st div l_pageSize else st div l_pageSize + 1) in
      if st < l_pageCount then l_pageCount else st)"

definition allocate_new_page ::
  "'m page_alloc \<Rightarrow> nat \<Rightarrow> heap \<Rightarrow> 'm \<Rightarrow> (nat \<times> heap \<times> 'm) res" where
  "allocate_new_page alloc sz h m =
     (let st = page_count sz in
      rbind (alloc st m) (\<lambda>(maj, m).
      if maj = 0 then Inr (0, h\<lparr>warnings := warnings h + 1\<rparr>, m)
      else
        let x = \<lparr>mj_prev = 0, mj_next = 0, mj_pages = st, mj_size = mul32 st l_pageSize,
              mj_usage = sz_major, mj_first = 0\<rparr> in
        Inr (maj, (put_maj maj x h)\<lparr>l_allocated := l_allocated h + of_nat (mj_size x)\<rparr>, m)))"

subsection \<open>malloc\<close>

text \<open>
  Entering an allocation at \<open>a\<close> between two minors (0 at the ends) of a block: the header, the
  usage and the pointer returned. The links of the neighbours are set by the cases.
\<close>

definition enter ::
  "nat \<Rightarrow> nat \<Rightarrow> nat \<Rightarrow> nat \<Rightarrow> nat \<Rightarrow> nat \<Rightarrow> heap \<Rightarrow> (nat \<times> heap) res" where
  "enter maj a prev nxt sz req h =
     (let x = \<lparr>mn_prev = prev, mn_next = nxt, mn_block = maj, mn_magic = LIBALLOC_MAGIC,
            mn_size = sz, mn_req = req\<rparr> in
      rbind (upd_maj (put_min a x h) maj (\<lambda>y. y\<lparr>mj_usage := add32 (mj_usage y) (add32 sz sz_minor)\<rparr>)) (\<lambda>h.
      Inr (ALIGN (add32 a sz_minor) (h\<lparr>l_inuse := l_inuse h + of_nat sz\<rparr>))))"

definition case2 :: "nat \<Rightarrow> nat \<Rightarrow> nat \<Rightarrow> heap \<Rightarrow> (nat \<times> heap) res" where
  "case2 maj sz req h =
     (let a = add32 maj sz_major in
      rbind (upd_maj h maj (\<lambda>y. y\<lparr>mj_first := a\<rparr>)) (\<lambda>h. enter maj a 0 0 sz req h))"

definition case3 :: "nat \<Rightarrow> nat \<Rightarrow> nat \<Rightarrow> nat \<Rightarrow> heap \<Rightarrow> (nat \<times> heap) res" where
  "case3 maj old sz req h =
     (let a = add32 maj sz_major in
      rbind (upd_min h old (\<lambda>x. x\<lparr>mn_prev := a\<rparr>)) (\<lambda>h.
      rbind (upd_maj h maj (\<lambda>y. y\<lparr>mj_first := a\<rparr>)) (\<lambda>h. enter maj a 0 old sz req h)))"

definition case41 :: "nat \<Rightarrow> nat \<Rightarrow> minor \<Rightarrow> nat \<Rightarrow> nat \<Rightarrow> heap \<Rightarrow> (nat \<times> heap) res" where
  "case41 maj mn x sz req h =
     (let a = add32 (add32 mn sz_minor) (mn_size x) in
      enter maj a mn 0 sz req (put_min mn (x\<lparr>mn_next := a\<rparr>) h))"

definition case42 :: "nat \<Rightarrow> nat \<Rightarrow> minor \<Rightarrow> nat \<Rightarrow> nat \<Rightarrow> heap \<Rightarrow> (nat \<times> heap) res" where
  "case42 maj mn x sz req h =
     (let a = add32 (add32 mn sz_minor) (mn_size x) in
      rbind (upd_min h (mn_next x) (\<lambda>y. y\<lparr>mn_prev := a\<rparr>)) (\<lambda>h.
      rbind (upd_min h mn (\<lambda>x. x\<lparr>mn_next := a\<rparr>)) (\<lambda>h.
      enter maj a mn (mn_next x) sz req h)))"

text \<open>
  Case 4: the walk over the minors of a block; the inner \<open>None\<close> when there is no gap for the
  allocation. The outer \<open>None\<close> is a walk that never ends.
\<close>

partial_function (option) minor_loop ::
  "nat \<Rightarrow> nat \<Rightarrow> nat \<Rightarrow> nat \<Rightarrow> nat \<Rightarrow> heap \<Rightarrow> (nat \<times> heap) option res option" where
  "minor_loop maj mjsize mn sz req h =
     (if mn = 0 then Some (Inr None)
      else
        case min_at h mn of Inl e \<Rightarrow> Some (Inl e)
        | Inr x \<Rightarrow>
            if mn_next x = 0 then
              (if sub32 (sub32 (sub32 (add32 maj mjsize) mn) sz_minor) (mn_size x) \<ge> add32 sz sz_minor
               then Some (rbind (case41 maj mn x sz req h) (\<lambda>r. Inr (Some r)))
               else minor_loop maj mjsize (mn_next x) sz req h)
            else if sub32 (sub32 (sub32 (mn_next x) mn) sz_minor) (mn_size x) \<ge> add32 sz sz_minor
            then Some (rbind (case42 maj mn x sz req h) (\<lambda>r. Inr (Some r)))
            else minor_loop maj mjsize (mn_next x) sz req h)"

text \<open>
  What one look at a block leads to: the allocation, the next block to look at (with the flag
  \<open>startedBet\<close>), or no more memory.
\<close>

datatype 'm outcome = Found nat heap 'm | Look nat bool heap 'm | NoMemory heap 'm

text \<open>A new block after \<open>maj\<close>.\<close>

definition append_block ::
  "'m page_alloc \<Rightarrow> nat \<Rightarrow> nat \<Rightarrow> heap \<Rightarrow> 'm \<Rightarrow> (nat \<times> heap \<times> 'm) res" where
  "append_block alloc maj sz h m =
     rbind (allocate_new_page alloc sz h m) (\<lambda>(n, h, m).
     rbind (upd_maj h maj (\<lambda>y. y\<lparr>mj_next := n\<rparr>)) (\<lambda>h.
     if n = 0 then Inr (0, h, m)
     else rbind (upd_maj h n (\<lambda>y. y\<lparr>mj_prev := maj\<rparr>)) (\<lambda>h. Inr (n, h, m))))"

text \<open>Case 1: not enough room in the block. \<open>None\<close> falls through to case 2 in the block given.\<close>

definition case1 ::
  "bool \<Rightarrow> 'm page_alloc \<Rightarrow> nat \<Rightarrow> bool \<Rightarrow> nat \<Rightarrow> heap \<Rightarrow> 'm \<Rightarrow> ('m outcome + nat \<times> heap \<times> 'm) res" where
  "case1 kcopy alloc maj started sz h m =
     rbind (maj_at h maj) (\<lambda>y.
     if mj_next y \<noteq> 0 \<and> \<not> (kcopy \<and> maj = mj_next y) then Inr (Inl (Look (mj_next y) started h m))
     else
       rbind (if mj_next y \<noteq> 0 then upd_maj h maj (\<lambda>y. y\<lparr>mj_next := 0\<rparr>) else Inr h) (\<lambda>h.
       if started then Inr (Inl (Look (memRoot h) False h m))
       else
         rbind (append_block alloc maj sz h m) (\<lambda>(n, h, m).
         if n = 0 then Inr (Inl (NoMemory h m)) else Inr (Inr (n, h, m)))))"

text \<open>Case 5: no gap in the block.\<close>

definition case5 :: "'m page_alloc \<Rightarrow> nat \<Rightarrow> bool \<Rightarrow> nat \<Rightarrow> heap \<Rightarrow> 'm \<Rightarrow> 'm outcome res" where
  "case5 alloc maj started sz h m =
     rbind (maj_at h maj) (\<lambda>y.
     if mj_next y = 0 then
       if started then Inr (Look (memRoot h) False h m)
       else
         rbind (append_block alloc maj sz h m) (\<lambda>(n, h, m).
         if n = 0 then Inr (NoMemory h m) else Inr (Look n started h m))
     else Inr (Look (mj_next y) started h m))"

text \<open>Cases 2 to 5.\<close>

definition in_block ::
  "'m page_alloc \<Rightarrow> nat \<Rightarrow> bool \<Rightarrow> nat \<Rightarrow> nat \<Rightarrow> heap \<Rightarrow> 'm \<Rightarrow> 'm outcome res option" where
  "in_block alloc maj started sz req h m =
     (case maj_at h maj of Inl e \<Rightarrow> Some (Inl e)
      | Inr y \<Rightarrow>
          if mj_first y = 0 then Some (rbind (case2 maj sz req h) (\<lambda>(p, h). Inr (Found p h m)))
          else if sub32 (sub32 (mj_first y) maj) sz_major \<ge> add32 sz sz_minor
          then Some (rbind (case3 maj (mj_first y) sz req h) (\<lambda>(p, h). Inr (Found p h m)))
          else
            case minor_loop maj (mj_size y) (mj_first y) sz req h of None \<Rightarrow> None
            | Some r \<Rightarrow> Some (rbind r (\<lambda>r.
                case r of Some (p, h) \<Rightarrow> Inr (Found p h m)
                | None \<Rightarrow> case5 alloc maj started sz h m)))"

text \<open>The loop over the blocks; \<open>bestSize\<close> is the room in the best block known.\<close>

partial_function (option) block_loop ::
  "bool \<Rightarrow> 'm page_alloc \<Rightarrow> nat \<Rightarrow> bool \<Rightarrow> nat \<Rightarrow> nat \<Rightarrow> nat \<Rightarrow> heap \<Rightarrow> 'm \<Rightarrow> (nat \<times> heap \<times> 'm) res option" where
  "block_loop kcopy alloc maj started best sz req h m =
     (if maj = 0 then Some (Inr (0, h, m))
      else
        case maj_at h maj of Inl e \<Rightarrow> Some (Inl e)
        | Inr y \<Rightarrow>
            let diff = sub32 (mj_size y) (mj_usage y);
                h = (if best < diff then h\<lparr>bestBet := maj\<rparr> else h);
                best = (if best < diff then diff else best);
                r = (if diff < add32 sz sz_minor then
                       (case case1 kcopy alloc maj started sz h m of
                          Inl e \<Rightarrow> Some (Inl e)
                        | Inr (Inl oc) \<Rightarrow> Some (Inr oc)
                        | Inr (Inr (n, h, m)) \<Rightarrow> in_block alloc n started sz req h m)
                     else in_block alloc maj started sz req h m) in
            case r of None \<Rightarrow> None
            | Some (Inl e) \<Rightarrow> Some (Inl e)
            | Some (Inr (Found p h m)) \<Rightarrow> Some (Inr (p, h, m))
            | Some (Inr (NoMemory h m)) \<Rightarrow> Some (Inr (0, h, m))
            | Some (Inr (Look n started h m)) \<Rightarrow> block_loop kcopy alloc n started best sz req h m)"

text \<open>The result 0 of the loop is a panic in the kernel.\<close>

definition malloc_size ::
  "bool \<Rightarrow> 'm page_alloc \<Rightarrow> nat \<Rightarrow> nat \<Rightarrow> heap \<Rightarrow> 'm \<Rightarrow> (nat \<times> heap \<times> 'm) res option" where
  "malloc_size kcopy alloc sz req h m =
     (case (if memRoot h = 0 then
              rbind (allocate_new_page alloc sz h m) (\<lambda>(r, h, m). Inr (r, h\<lparr>memRoot := r\<rparr>, m))
            else Inr (memRoot h, h, m)) of
        Inl e \<Rightarrow> Some (Inl e)
      | Inr (root, h, m) \<Rightarrow>
          if root = 0 then Some (Inr (0, h, m))
          else
            case (if bestBet h \<noteq> 0 then
                    rbind (maj_at h (bestBet h)) (\<lambda>y.
                    let best = sub32 (mj_size y) (mj_usage y) in
                    Inr (if best > add32 sz sz_minor then (bestBet h, True, best) else (root, False, best)))
                  else Inr (root, False, 0)) of
              Inl e \<Rightarrow> Some (Inl e)
            | Inr (maj, started, best) \<Rightarrow>
                (case block_loop kcopy alloc maj started best sz req h m of
                   None \<Rightarrow> None
                 | Some r \<Rightarrow> Some (rbind r (\<lambda>(p, h, m).
                     if p = 0 \<and> kcopy then Inl (Panic ''Out of physical memory'') else Inr (p, h, m)))))"

definition malloc ::
  "bool \<Rightarrow> 'm page_alloc \<Rightarrow> nat \<Rightarrow> heap \<Rightarrow> 'm \<Rightarrow> (nat \<times> heap \<times> 'm) res option" where
  "malloc kcopy alloc req h m =
     (let sz = add32 req (ALIGNMENT + ALIGN_INFO) in
      if sz = 0 then
        malloc_size kcopy alloc (add32 1 (ALIGNMENT + ALIGN_INFO)) 1 (h\<lparr>warnings := warnings h + 1\<rparr>) m
      else malloc_size kcopy alloc sz req h m)"

subsection \<open>free\<close>

text \<open>A bad magic number: the counters, and nothing else.\<close>

definition bad_magic :: "u32 \<Rightarrow> heap \<Rightarrow> heap" where
  "bad_magic magic h =
     h\<lparr>errors := errors h + 1,
       overruns := (if magic AND 0xFFFFFF = LIBALLOC_MAGIC AND 0xFFFFFF \<or>
           magic AND 0xFFFF = LIBALLOC_MAGIC AND 0xFFFF \<or> magic AND 0xFF = LIBALLOC_MAGIC AND 0xFF
         then overruns h + 1 else overruns h)\<rparr>"

definition int32 :: "nat \<Rightarrow> int" where
  "int32 n = (if n < 2 ^ 31 then int n else int n - 2 ^ 32)"

text \<open>Take the minor out of the list of its block.\<close>

definition unlink_minor :: "nat \<Rightarrow> minor \<Rightarrow> heap \<Rightarrow> heap res" where
  "unlink_minor mn x h =
     rbind (upd_maj (h\<lparr>l_inuse := l_inuse h - of_nat (mn_size x)\<rparr>) (mn_block x)
       (\<lambda>y. y\<lparr>mj_usage := sub32 (mj_usage y) (add32 (mn_size x) sz_minor)\<rparr>)) (\<lambda>h.
     rbind (upd_min h mn (\<lambda>x. x\<lparr>mn_magic := LIBALLOC_DEAD\<rparr>)) (\<lambda>h.
     rbind (if mn_next x \<noteq> 0 then upd_min h (mn_next x) (\<lambda>z. z\<lparr>mn_prev := mn_prev x\<rparr>) else Inr h) (\<lambda>h.
     rbind (if mn_prev x \<noteq> 0 then upd_min h (mn_prev x) (\<lambda>z. z\<lparr>mn_next := mn_next x\<rparr>) else Inr h) (\<lambda>h.
     if mn_prev x = 0 then upd_maj h (mn_block x) (\<lambda>y. y\<lparr>mj_first := mn_next x\<rparr>) else Inr h))))"

text \<open>The pages of a block that was given back: nothing in them can be read any more.\<close>

definition forget_block :: "nat \<Rightarrow> nat \<Rightarrow> heap \<Rightarrow> heap" where
  "forget_block maj n h =
     h\<lparr>majors := (majors h)(maj := None),
       minors := (\<lambda>a. if maj \<le> a \<and> a < maj + n then None else minors h a),
       aligns := (\<lambda>a. if maj \<le> a \<and> a < maj + n then None else aligns h a)\<rparr>"

text \<open>What the kernel does with a block that became empty, and otherwise with the best bet.\<close>

definition release_block :: "'m page_free \<Rightarrow> nat \<Rightarrow> major \<Rightarrow> heap \<Rightarrow> 'm \<Rightarrow> (heap \<times> 'm) res" where
  "release_block give maj y h m =
     (let h = (if memRoot h = maj then h\<lparr>memRoot := mj_next y\<rparr> else h);
          h = (if bestBet h = maj then h\<lparr>bestBet := 0\<rparr> else h) in
      rbind (if mj_prev y \<noteq> 0 then upd_maj h (mj_prev y) (\<lambda>z. z\<lparr>mj_next := mj_next y\<rparr>) else Inr h) (\<lambda>h.
      rbind (if mj_next y \<noteq> 0 then upd_maj h (mj_next y) (\<lambda>z. z\<lparr>mj_prev := mj_prev y\<rparr>) else Inr h) (\<lambda>h.
      rbind (give maj (mj_pages y) m) (\<lambda>m.
      Inr (forget_block maj (mj_size y) (h\<lparr>l_allocated := l_allocated h - of_nat (mj_size y)\<rparr>), m)))))"

definition better_bet :: "nat \<Rightarrow> major \<Rightarrow> heap \<Rightarrow> heap res" where
  "better_bet maj y h =
     (if bestBet h = 0 then Inr h
      else rbind (maj_at h (bestBet h)) (\<lambda>z.
        Inr (if int32 (sub32 (mj_size y) (mj_usage y)) > int32 (sub32 (mj_size z) (mj_usage z))
             then h\<lparr>bestBet := maj\<rparr> else h)))"

definition free_minor :: "bool \<Rightarrow> 'm page_free \<Rightarrow> nat \<Rightarrow> minor \<Rightarrow> heap \<Rightarrow> 'm \<Rightarrow> (heap \<times> 'm) res" where
  "free_minor kcopy give mn x h m =
     rbind (unlink_minor mn x h) (\<lambda>h.
     rbind (maj_at h (mn_block x)) (\<lambda>y.
     if mj_first y = 0 then
       if kcopy then release_block give (mn_block x) y h m else Inr (h, m)
     else rbind (better_bet (mn_block x) y h) (\<lambda>h. Inr (h, m))))"

definition free :: "bool \<Rightarrow> 'm page_free \<Rightarrow> nat \<Rightarrow> heap \<Rightarrow> 'm \<Rightarrow> (heap \<times> 'm) res" where
  "free kcopy give ptr h m =
     (if ptr = 0 then Inr (h\<lparr>warnings := warnings h + 1\<rparr>, m)
      else
        rbind (UNALIGN ptr h) (\<lambda>ptr.
        let mn = sub32 ptr sz_minor in
        rbind (min_at h mn) (\<lambda>x.
        if mn_magic x \<noteq> LIBALLOC_MAGIC then Inr (bad_magic (mn_magic x) h, m)
        else free_minor kcopy give mn x h m)))"

subsection \<open>calloc and realloc\<close>

text \<open>
  Neither looks whether \<open>malloc\<close> returned null: clearing or copying to it is a \<open>Fault\<close>.
\<close>

definition calloc ::
  "bool \<Rightarrow> 'm page_alloc \<Rightarrow> nat \<Rightarrow> nat \<Rightarrow> heap \<Rightarrow> 'm \<Rightarrow> (nat \<times> heap \<times> 'm) res option" where
  "calloc kcopy alloc nobj sz h m =
     (let real = mul32 nobj sz in
      case malloc kcopy alloc real h m of None \<Rightarrow> None
      | Some r \<Rightarrow> Some (rbind r (\<lambda>(p, h, m).
          if p = 0 \<and> real \<noteq> 0 then Inl (Fault ''null pointer'')
          else Inr (p, liballoc_memset h p (CHR 0x00) real, m))))"

definition realloc ::
  "bool \<Rightarrow> 'm page_alloc \<Rightarrow> 'm page_free \<Rightarrow> nat \<Rightarrow> nat \<Rightarrow> heap \<Rightarrow> 'm \<Rightarrow> (nat \<times> heap \<times> 'm) res option" where
  "realloc kcopy alloc give p sz h m =
     (if sz = 0 then Some (rbind (free kcopy give p h m) (\<lambda>(h, m). Inr (0, h, m)))
      else if p = 0 then malloc kcopy alloc sz h m
      else
        case rbind (UNALIGN p h) (\<lambda>ptr. rbind (min_at h (sub32 ptr sz_minor)) (\<lambda>x. Inr (sub32 ptr sz_minor, x))) of
          Inl e \<Rightarrow> Some (Inl e)
        | Inr (mn, x) \<Rightarrow>
            if mn_magic x \<noteq> LIBALLOC_MAGIC then Some (Inr (0, bad_magic (mn_magic x) h, m))
            else if mn_req x \<ge> sz then Some (Inr (p, put_min mn (x\<lparr>mn_req := sz\<rparr>) h, m))
            else
              case malloc kcopy alloc sz h m of None \<Rightarrow> None
              | Some r \<Rightarrow> Some (rbind r (\<lambda>(q, h, m).
                  if q = 0 \<and> mn_req x \<noteq> 0 then Inl (Fault ''null pointer'')
                  else rbind (free kcopy give p (liballoc_memcpy h q p (mn_req x)) m) (\<lambda>(h, m).
                    Inr (q, h, m)))))"

end
