(* ===== verification/HeapInv.thy ===== *)
theory HeapInv
  imports Liballoc
begin

section \<open>The invariant of the heap\<close>

text \<open>
  The blocks of pages are a doubly linked list with ascending addresses, and so are the
  allocations of each block; a segment lies inside its block, behind the block's header, and
  ends before the next one starts. The shadow of a heap is the list of its blocks with the
  lists of their allocations.
\<close>

subsection \<open>Arithmetic\<close>

lemma add32_small [simp]: "a + b < 2 ^ 32 \<Longrightarrow> add32 a b = a + b"
  by (simp add: add32_def)

lemma sub32_small [simp]: "b \<le> a \<Longrightarrow> a < 2 ^ 32 \<Longrightarrow> sub32 a b = a - b"
proof -
  assume a: "b \<le> a" "a < 2 ^ 32"
  then have "a + 2 ^ 32 - b = (a - b) + 2 ^ 32" by simp
  moreover have "a - b < 2 ^ 32" using a(2) by simp
  ultimately show ?thesis unfolding sub32_def by (simp only: mod_add_self2 mod_less)
qed

lemma mul32_small [simp]: "a * b < 2 ^ 32 \<Longrightarrow> mul32 a b = a * b"
  by (simp add: mul32_def)

subsection \<open>Linked segments\<close>

definition headp :: "nat list \<Rightarrow> nat \<Rightarrow> nat" where
  "headp xs q = (case xs of [] \<Rightarrow> q | x # _ \<Rightarrow> x)"

definition lastp :: "nat \<Rightarrow> nat list \<Rightarrow> nat" where
  "lastp pr xs = (if xs = [] then pr else last xs)"

lemma headp_simps [simp]: "headp [] q = q" "headp (x # xs) q = x"
  by (simp_all add: headp_def)

lemma lastp_simps [simp]: "lastp pr [] = pr" "lastp pr (x # xs) = lastp x xs" "lastp pr (xs @ [x]) = x"
  by (simp_all add: lastp_def)

lemma headp_append: "headp (xs @ ys) q = headp xs (headp ys q)"
  by (cases xs) simp_all

lemma lastp_append: "lastp pr (xs @ ys) = lastp (lastp pr xs) ys"
  by (induction xs arbitrary: pr) simp_all

text \<open>
  A segment of a doubly linked list: \<open>prv\<close> and \<open>nxt\<close> are the links of an element, \<open>pr\<close> is
  before the segment and \<open>q\<close> behind it.
\<close>

primrec dll :: "(nat \<Rightarrow> nat) \<Rightarrow> (nat \<Rightarrow> nat) \<Rightarrow> nat \<Rightarrow> nat list \<Rightarrow> nat \<Rightarrow> bool" where
  "dll prv nxt pr [] q \<longleftrightarrow> True"
| "dll prv nxt pr (x # xs) q \<longleftrightarrow> x \<noteq> 0 \<and> prv x = pr \<and> nxt x = headp xs q \<and> dll prv nxt x xs q"

lemma dll_append:
  "dll prv nxt pr (xs @ ys) q \<longleftrightarrow> dll prv nxt pr xs (headp ys q) \<and> dll prv nxt (lastp pr xs) ys q"
  by (induction xs arbitrary: pr) (auto simp: headp_append)

lemma dll_cong:
  "\<forall>x\<in>set xs. prv x = prv' x \<and> nxt x = nxt' x \<Longrightarrow> dll prv nxt pr xs q = dll prv' nxt' pr xs q"
  by (induction xs arbitrary: pr) auto

lemma dll_nonzero: "dll prv nxt pr xs q \<Longrightarrow> x \<in> set xs \<Longrightarrow> x \<noteq> 0"
  by (induction xs arbitrary: pr) auto

text \<open>Changing the link behind a segment or before it.\<close>

lemma dll_set_next:
  assumes "dll prv nxt pr xs q" "distinct xs"
  shows "dll prv (if xs = [] then nxt else nxt(last xs := q')) pr xs q'"
  using assms
proof (induction xs arbitrary: pr)
  case (Cons x xs)
  show ?case
  proof (cases "xs = []")
    case True
    with Cons.prems show ?thesis by simp
  next
    case False
    then have "last xs \<noteq> x" using Cons.prems(2) by auto
    with Cons False show ?thesis by (auto simp: headp_def split: list.splits)
  qed
qed simp

lemma dll_set_prev:
  assumes "dll prv nxt pr xs q" "distinct xs"
  shows "dll (if xs = [] then prv else prv(hd xs := pr')) nxt pr' xs q"
proof (cases xs)
  case (Cons x ys)
  then have "dll (prv(x := pr')) nxt x ys q"
    using assms by (subst dll_cong [of ys _ prv _ nxt]) auto
  with Cons assms show ?thesis by simp
qed simp

subsection \<open>Layout\<close>

text \<open>Segments of length \<open>len x\<close> at the addresses \<open>xs\<close>, ascending between two bounds.\<close>

primrec fits :: "(nat \<Rightarrow> nat) \<Rightarrow> nat \<Rightarrow> nat \<Rightarrow> nat list \<Rightarrow> bool" where
  "fits len lo hi [] \<longleftrightarrow> lo \<le> hi"
| "fits len lo hi (x # xs) \<longleftrightarrow> lo \<le> x \<and> fits len (x + len x) hi xs"

definition endp :: "(nat \<Rightarrow> nat) \<Rightarrow> nat \<Rightarrow> nat list \<Rightarrow> nat" where
  "endp len lo xs = (if xs = [] then lo else last xs + len (last xs))"

lemma endp_simps [simp]: "endp len lo [] = lo" "endp len lo (x # xs) = endp len (x + len x) xs"
  "endp len lo (xs @ [x]) = x + len x"
  by (simp_all add: endp_def)

lemma fits_append:
  "fits len lo hi (xs @ ys) \<longleftrightarrow> fits len lo (headp ys hi) xs \<and> fits len (endp len lo xs) hi ys"
proof (induction xs arbitrary: lo)
  case Nil
  show ?case by (cases ys) auto
qed auto

lemma fits_le: "fits len lo hi xs \<Longrightarrow> lo \<le> hi"
  by (induction xs arbitrary: lo) (auto dest: order_trans [rotated], fastforce)

lemma fits_end: "fits len lo hi xs \<Longrightarrow> lo \<le> endp len lo xs \<and> endp len lo xs \<le> hi"
proof (induction xs arbitrary: lo)
  case (Cons x xs)
  then show ?case by fastforce
qed simp

lemma fits_mem: "fits len lo hi xs \<Longrightarrow> x \<in> set xs \<Longrightarrow> lo \<le> x \<and> x + len x \<le> hi"
proof (induction xs arbitrary: lo)
  case (Cons y ys)
  then show ?case using fits_le [of len "y + len y" hi ys] by (cases "x = y") fastforce+
qed simp

lemma fits_cong: "\<forall>x\<in>set xs. len x = len' x \<Longrightarrow> fits len lo hi xs = fits len' lo hi xs"
  by (induction xs arbitrary: lo) auto

lemma fits_mono: "fits len lo hi xs \<Longrightarrow> lo' \<le> lo \<Longrightarrow> hi \<le> hi' \<Longrightarrow> fits len lo' hi' xs"
  by (induction xs arbitrary: lo lo') auto

lemma fits_disjoint:
  assumes "fits len lo hi xs" "x \<in> set xs" "y \<in> set xs" "x \<noteq> y"
  shows "x + len x \<le> y \<or> y + len y \<le> x"
  using assms
proof (induction xs arbitrary: lo)
  case (Cons z zs)
  then show ?case using fits_mem [of len "z + len z" hi zs] by (cases "x = z"; cases "y = z") auto
qed simp

lemma fits_distinct: "fits len lo hi xs \<Longrightarrow> \<forall>x\<in>set xs. 0 < len x \<Longrightarrow> distinct xs"
proof (induction xs arbitrary: lo)
  case (Cons x xs)
  have "x \<notin> set xs"
  proof
    assume "x \<in> set xs"
    then have "x + len x \<le> x" using fits_mem [of len "x + len x" hi xs x] Cons.prems(1) by simp
    with Cons.prems(2) show False by simp
  qed
  with Cons show ?case by auto
qed simp

lemma fits_shrink: "fits len lo hi xs \<Longrightarrow> endp len lo xs \<le> n \<Longrightarrow> fits len lo n xs"
  by (induction xs arbitrary: lo) auto

text \<open>A new segment in a gap, and a segment taken out.\<close>

lemma fits_insert:
  "fits len lo hi (xs @ ys) \<Longrightarrow> endp len lo xs \<le> n \<Longrightarrow> n + len n \<le> headp ys hi \<Longrightarrow>
   fits len lo hi (xs @ n # ys)"
  by (cases ys) (auto simp: fits_append intro: fits_mono fits_shrink)

lemma fits_remove: "fits len lo hi (xs @ n # ys) \<Longrightarrow> fits len lo hi (xs @ ys)"
proof -
  assume a: "fits len lo hi (xs @ n # ys)"
  then have "fits len lo n xs" "endp len lo xs \<le> n" "fits len (n + len n) hi ys"
    by (auto simp: fits_append)
  moreover from this have "n \<le> headp ys hi" by (cases ys) auto
  ultimately show ?thesis by (auto simp: fits_append intro: fits_mono)
qed

lemma fits_sum: "fits len lo hi xs \<Longrightarrow> lo + sum_list (map len xs) \<le> hi"
  by (induction xs arbitrary: lo) fastforce+

subsection \<open>The invariant\<close>

definition mnp :: "heap \<Rightarrow> nat \<Rightarrow> nat" where "mnp h x = mn_prev (the (minors h x))"
definition mnn :: "heap \<Rightarrow> nat \<Rightarrow> nat" where "mnn h x = mn_next (the (minors h x))"
definition mlen :: "heap \<Rightarrow> nat \<Rightarrow> nat" where "mlen h x = 24 + mn_size (the (minors h x))"
definition jprev :: "heap \<Rightarrow> nat \<Rightarrow> nat" where "jprev h a = mj_prev (the (majors h a))"
definition jnext :: "heap \<Rightarrow> nat \<Rightarrow> nat" where "jnext h a = mj_next (the (majors h a))"
definition jlen :: "heap \<Rightarrow> nat \<Rightarrow> nat" where "jlen h a = mj_size (the (majors h a))"

text \<open>The pointer handed out for the allocation whose header is at \<open>x\<close>.\<close>

definition p_of :: "nat \<Rightarrow> nat" where
  "p_of x = (x + 24 + 31) div 16 * 16"

lemma p_of_bounds: "x + 40 \<le> p_of x" "p_of x < x + 56" "p_of x mod 16 = 0"
  unfolding p_of_def by (presburger, presburger, simp)

definition minor_ok :: "heap \<Rightarrow> nat \<Rightarrow> nat \<Rightarrow> bool" where
  "minor_ok h a x \<longleftrightarrow> (\<exists>mn. minors h x = Some mn \<and> mn_block mn = a \<and> mn_magic mn = LIBALLOC_MAGIC \<and>
     mn_req mn + 32 \<le> mn_size mn \<and> aligns h (p_of x - 16) = Some (p_of x - (x + 24)))"

definition block_ok :: "heap \<Rightarrow> nat \<times> nat list \<Rightarrow> bool" where
  "block_ok h b \<longleftrightarrow> (case b of (a, xs) \<Rightarrow>
     \<exists>y. majors h a = Some y \<and> 24 \<le> mj_size y \<and> mj_first y = headp xs 0 \<and>
       mj_usage y = 24 + sum_list (map (mlen h) xs) \<and> dll (mnp h) (mnn h) 0 xs 0 \<and>
       fits (mlen h) (a + 24) (a + mj_size y) xs \<and> (\<forall>x\<in>set xs. minor_ok h a x))"

definition heap_inv :: "heap \<Rightarrow> nat \<Rightarrow> (nat \<times> nat list) list \<Rightarrow> bool" where
  "heap_inv h tp A \<longleftrightarrow> dll (jprev h) (jnext h) 0 (map fst A) 0 \<and> memRoot h = headp (map fst A) 0 \<and>
     fits (jlen h) 1 tp (map fst A) \<and> tp < 2 ^ 32 \<and> (\<forall>b\<in>set A. block_ok h b) \<and>
     (bestBet h = 0 \<or> bestBet h \<in> fst ` set A)"

definition live :: "(nat \<times> nat list) list \<Rightarrow> nat set" where
  "live A = (\<Union>b\<in>set A. set (snd b))"

lemma minor_ok_pos: "0 < mlen h x"
  by (simp add: mlen_def)

lemma block_region:
  assumes "block_ok h (a, xs)" "x \<in> set xs"
  shows "a + 24 \<le> x" "x + mlen h x \<le> a + jlen h a" "40 \<le> mlen h x" "p_of x - 16 < x + mlen h x"
proof -
  obtain y where y: "majors h a = Some y" "fits (mlen h) (a + 24) (a + mj_size y) xs" "minor_ok h a x"
    using assms by (auto simp: block_ok_def)
  from fits_mem [OF y(2) assms(2)] y(1) show "a + 24 \<le> x" "x + mlen h x \<le> a + jlen h a"
    by (simp_all add: jlen_def)
  show "40 \<le> mlen h x" using y(3) by (auto simp: minor_ok_def mlen_def)
  then show "p_of x - 16 < x + mlen h x" using p_of_bounds(1,2) [of x] by simp
qed

text \<open>A block only depends on its own header and on what lies inside it.\<close>

lemma block_ok_frame:
  assumes "block_ok h (a, xs)" "majors h' a = majors h a"
    "\<And>z. a \<le> z \<Longrightarrow> z < a + jlen h a \<Longrightarrow> minors h' z = minors h z \<and> aligns h' z = aligns h z"
  shows "block_ok h' (a, xs)"
proof -
  have m: "minors h' x = minors h x \<and> aligns h' (p_of x - 16) = aligns h (p_of x - 16)" if "x \<in> set xs" for x
    using block_region [OF assms(1) that] p_of_bounds(1) [of x] by (intro conjI; intro conjunct1 [OF assms(3)] conjunct2 [OF assms(3)]) auto
  then have "\<forall>x\<in>set xs. mnp h' x = mnp h x \<and> mnn h' x = mnn h x" "\<forall>x\<in>set xs. mlen h' x = mlen h x"
    "\<forall>x\<in>set xs. minor_ok h' a x = minor_ok h a x"
    by (auto simp: mnp_def mnn_def mlen_def minor_ok_def)
  with assms(1,2) show ?thesis
    by (simp add: block_ok_def dll_cong [of xs "mnp h'" "mnp h" "mnn h'" "mnn h"]
        fits_cong [of xs "mlen h'" "mlen h"] cong: map_cong)
qed

lemma inv_block:
  assumes "heap_inv h tp (A1 @ (a, xs) # A2)"
  shows "block_ok h (a, xs)" "a \<noteq> 0" "a + jlen h a \<le> tp" "tp < 2 ^ 32"
    "\<And>b zs. (b, zs) \<in> set (A1 @ A2) \<Longrightarrow> b + jlen h b \<le> a \<or> a + jlen h a \<le> b"
    "a \<notin> fst ` set (A1 @ A2)"
proof -
  let ?as = "map fst (A1 @ (a, xs) # A2)"
  have f: "fits (jlen h) 1 tp ?as" and ok: "\<forall>b\<in>set (A1 @ (a, xs) # A2). block_ok h b"
    using assms by (simp_all add: heap_inv_def)
  show "block_ok h (a, xs)" using ok by simp
  show "tp < 2 ^ 32" using assms by (simp add: heap_inv_def)
  have "a \<in> set ?as" by simp
  from fits_mem [OF f this] show "a \<noteq> 0" "a + jlen h a \<le> tp" by simp_all
  have "\<forall>b\<in>set ?as. 0 < jlen h b" using ok by (force simp: block_ok_def jlen_def)
  with f have d: "distinct ?as" by (rule fits_distinct)
  then show n: "a \<notin> fst ` set (A1 @ A2)" by auto
  fix b zs assume "(b, zs) \<in> set (A1 @ A2)"
  then have "b \<in> set ?as" "b \<noteq> a" using n by force+
  with fits_disjoint [OF f _ \<open>a \<in> set ?as\<close>] show "b + jlen h b \<le> a \<or> a + jlen h a \<le> b" by blast
qed

text \<open>
  Replacing one block, with its allocations, while everything outside its region stays as it
  was.
\<close>

lemma inv_replace:
  assumes inv: "heap_inv h tp (A1 @ (a, xs) # A2)" and ok: "block_ok h' (a, ys)"
    and maj: "\<And>b. b \<noteq> a \<Longrightarrow> majors h' b = majors h b"
    and hd: "majors h a = Some y" "majors h' a = Some y'" "mj_prev y' = mj_prev y" "mj_next y' = mj_next y"
      "mj_size y' = mj_size y"
    and out: "\<And>z. z < a \<or> a + jlen h a \<le> z \<Longrightarrow> minors h' z = minors h z \<and> aligns h' z = aligns h z"
    and root: "memRoot h' = memRoot h" "bestBet h' = bestBet h"
  shows "heap_inv h' tp (A1 @ (a, ys) # A2)"
proof -
  note b = inv_block [OF inv]
  have links: "jprev h' c = jprev h c \<and> jnext h' c = jnext h c \<and> jlen h' c = jlen h c" for c
    using maj hd by (cases "c = a") (simp_all add: jprev_def jnext_def jlen_def)
  have other: "block_ok h' (c, zs)" if c: "(c, zs) \<in> set (A1 @ A2)" for c zs
  proof (rule block_ok_frame)
    show "block_ok h (c, zs)" using c inv by (auto simp: heap_inv_def)
    show "majors h' c = majors h c" using c b(6) by (intro maj) force
    fix z assume "c \<le> z" "z < c + jlen h c"
    then show "minors h' z = minors h z \<and> aligns h' z = aligns h z" using b(5) [OF c] by (intro out) auto
  qed
  have m: "map fst (A1 @ (a, ys) # A2) = map fst (A1 @ (a, xs) # A2)" by simp
  have "\<forall>c\<in>set (A1 @ (a, ys) # A2). block_ok h' c" using ok other by auto
  moreover have "fst ` set (A1 @ (a, ys) # A2) = fst ` set (A1 @ (a, xs) # A2)" by simp
  moreover have "dll (jprev h') (jnext h') 0 (map fst (A1 @ (a, xs) # A2)) 0"
    using inv links by (subst dll_cong [of _ _ "jprev h" _ "jnext h"]) (simp_all add: heap_inv_def)
  moreover have "fits (jlen h') 1 tp (map fst (A1 @ (a, xs) # A2))"
    using inv links by (subst fits_cong [of _ _ "jlen h"]) (simp_all add: heap_inv_def)
  ultimately show ?thesis using inv root unfolding heap_inv_def m by simp
qed

subsection \<open>Entering an allocation\<close>

text \<open>The headers after an allocation at \<open>n\<close> was linked in between \<open>xs\<close> and \<open>ys\<close>.\<close>

definition link_in ::
  "(nat \<Rightarrow> minor option) \<Rightarrow> nat list \<Rightarrow> nat list \<Rightarrow> nat \<Rightarrow> minor \<Rightarrow> nat \<Rightarrow> minor option" where
  "link_in \<mu> xs ys n new =
     (let \<mu> = (if xs = [] then \<mu> else \<mu>(last xs := map_option (\<lambda>x. x\<lparr>mn_next := n\<rparr>) (\<mu> (last xs))));
          \<mu> = (if ys = [] then \<mu> else \<mu>(hd ys := map_option (\<lambda>x. x\<lparr>mn_prev := n\<rparr>) (\<mu> (hd ys)))) in
      \<mu>(n := Some new))"

definition entered ::
  "heap \<Rightarrow> nat \<Rightarrow> major \<Rightarrow> nat list \<Rightarrow> nat list \<Rightarrow> nat \<Rightarrow> nat \<Rightarrow> nat \<Rightarrow> heap \<Rightarrow> bool" where
  "entered h a y xs ys n sz req h' \<longleftrightarrow>
     majors h' = (majors h)(a \<mapsto> y\<lparr>mj_first := headp (xs @ [n]) 0, mj_usage := mj_usage y + (sz + 24)\<rparr>) \<and>
     minors h' = link_in (minors h) xs ys n \<lparr>mn_prev = lastp 0 xs, mn_next = headp ys 0, mn_block = a,
       mn_magic = LIBALLOC_MAGIC, mn_size = sz, mn_req = req\<rparr> \<and>
     aligns h' = (aligns h)(p_of n - 16 \<mapsto> p_of n - (n + 24)) \<and>
     memRoot h' = memRoot h \<and> bestBet h' = bestBet h \<and> bytes h' = bytes h"

text \<open>The room for an allocation of \<open>sz\<close> bytes and its header behind the segment \<open>xs\<close>.\<close>

definition gap_after :: "heap \<Rightarrow> nat \<Rightarrow> nat \<Rightarrow> nat list \<Rightarrow> nat list \<Rightarrow> nat \<Rightarrow> nat \<Rightarrow> bool" where
  "gap_after h a hi xs ys n sz \<longleftrightarrow> endp (mlen h) (a + 24) xs \<le> n \<and> n + 24 + sz \<le> headp ys hi"

lemma entered_block:
  assumes ok: "block_ok h (a, xs @ ys)" and y: "majors h a = Some y"
    and gap: "gap_after h a (a + mj_size y) xs ys n sz" and req: "req + 32 \<le> sz"
    and ent: "entered h a y xs ys n sz req h'"
  shows "block_ok h' (a, xs @ n # ys)" "\<forall>x\<in>set (xs @ ys). x \<noteq> n"
    "\<forall>x\<in>set (xs @ ys). mlen h' x = mlen h x \<and> mn_req (the (minors h' x)) = mn_req (the (minors h x))"
    "a + 24 \<le> n" "n + 24 + sz \<le> a + mj_size y"
proof -
  let ?hi = "a + mj_size y"
  have ok': "mj_first y = headp (xs @ ys) 0" "mj_usage y = 24 + sum_list (map (mlen h) (xs @ ys))"
    "dll (mnp h) (mnn h) 0 (xs @ ys) 0" "fits (mlen h) (a + 24) ?hi (xs @ ys)"
    "\<forall>x\<in>set (xs @ ys). minor_ok h a x" "24 \<le> mj_size y"
    using ok y by (auto simp: block_ok_def)
  have fx: "fits (mlen h) (a + 24) n xs" and fy: "fits (mlen h) (n + 24 + sz) ?hi ys"
    using ok'(4) gap unfolding fits_append gap_after_def
    by (auto intro: fits_shrink) (cases ys, auto intro: fits_mono)
  have n: "a + 24 \<le> n" "n + 24 + sz \<le> ?hi" using fits_le [OF fx] fits_le [OF fy] by simp_all
  then show "a + 24 \<le> n" "n + 24 + sz \<le> a + mj_size y" by simp_all
  have lt: "x + mlen h x \<le> n" if "x \<in> set xs" for x using fits_mem [OF fx that] by simp
  have gt: "n + 24 + sz \<le> x" if "x \<in> set ys" for x using fits_mem [OF fy that] by simp
  have sep: "x \<noteq> n" if "x \<in> set (xs @ ys)" for x
    using lt [of x] gt [of x] minor_ok_pos [of h x] that by auto
  then show "\<forall>x\<in>set (xs @ ys). x \<noteq> n" by blast
  have dis: "distinct (xs @ ys)" using ok'(4) minor_ok_pos by (blast intro: fits_distinct)
  have hdy: "ys \<noteq> [] \<Longrightarrow> hd ys \<notin> set xs" and lsx: "xs \<noteq> [] \<Longrightarrow> last xs \<notin> set ys"
    using dis by (meson disjoint_iff distinct_append hd_in_set last_in_set)+
  have ex: "\<exists>mn. minors h x = Some mn" if "x \<in> set (xs @ ys)" for x
    using ok'(5) that by (auto simp: minor_ok_def)
  note E = ent [unfolded entered_def]
  have old: "minors h' x = (if x = last xs \<and> xs \<noteq> [] then map_option (\<lambda>z. z\<lparr>mn_next := n\<rparr>) (minors h x)
      else if x = hd ys \<and> ys \<noteq> [] then map_option (\<lambda>z. z\<lparr>mn_prev := n\<rparr>) (minors h x) else minors h x)"
    if "x \<in> set (xs @ ys)" for x
    using E sep [OF that] hdy lsx by (auto simp: link_in_def Let_def)
  have new: "minors h' n = Some \<lparr>mn_prev = lastp 0 xs, mn_next = headp ys 0, mn_block = a,
       mn_magic = LIBALLOC_MAGIC, mn_size = sz, mn_req = req\<rparr>"
    using E by (simp add: link_in_def Let_def)
  have fields: "mlen h' x = mlen h x \<and> mn_req (the (minors h' x)) = mn_req (the (minors h x))"
    "mnp h' x = (if x \<in> set ys then if x = hd ys then n else mnp h x else mnp h x)"
    "mnn h' x = (if x \<in> set xs then if x = last xs then n else mnn h x else mnn h x)"
    if x: "x \<in> set (xs @ ys)" for x
    using old [OF x] ex [OF x] hdy lsx x by (auto simp: mlen_def mnp_def mnn_def)
  then show "\<forall>x\<in>set (xs @ ys). mlen h' x = mlen h x \<and> mn_req (the (minors h' x)) = mn_req (the (minors h x))"
    by blast
  have lens: "\<forall>x\<in>set xs. mlen h' x = mlen h x" "\<forall>x\<in>set ys. mlen h' x = mlen h x" and len_n: "mlen h' n = 24 + sz"
    using fields(1) new by (auto simp: mlen_def)
  have "fits (mlen h') (a + 24) ?hi (xs @ n # ys)"
    using fx fy lens len_n
    by (simp add: fits_append fits_cong [of xs "mlen h'" "mlen h"] fits_cong [of ys "mlen h'" "mlen h"]
        endp_def add.assoc) (metis fits_end endp_def)
  moreover have "mj_usage y + (sz + 24) = 24 + sum_list (map (mlen h') (xs @ n # ys))"
    using ok'(2) lens len_n by (simp cong: map_cong)
  moreover have "dll (mnp h') (mnn h') 0 (xs @ n # ys) 0"
  proof -
    have d: "dll (mnp h) (mnn h) 0 xs (headp ys 0)" "dll (mnp h) (mnn h) (lastp 0 xs) ys 0"
      using ok'(3) by (simp_all add: dll_append)
    have "dll (mnp h') (mnn h') 0 xs n"
    proof (subst dll_cong)
      show "dll (mnp h) (if xs = [] then mnn h else (mnn h)(last xs := n)) 0 xs n"
        by (rule dll_set_next [OF d(1)]) (use dis in simp)
      show "\<forall>x\<in>set xs. mnp h' x = mnp h x \<and> mnn h' x = (if xs = [] then mnn h else (mnn h)(last xs := n)) x"
        using fields(2,3) dis by auto
    qed
    moreover have "dll (mnp h') (mnn h') n ys 0"
    proof (subst dll_cong)
      show "dll (if ys = [] then mnp h else (mnp h)(hd ys := n)) (mnn h) n ys 0"
        by (rule dll_set_prev [OF d(2)]) (use dis in simp)
      show "\<forall>x\<in>set ys. mnp h' x = (if ys = [] then mnp h else (mnp h)(hd ys := n)) x \<and> mnn h' x = mnn h x"
        using fields(2,3) dis by auto
    qed
    ultimately show ?thesis using new n by (simp add: dll_append mnp_def mnn_def)
  qed
  moreover have "minor_ok h' a x" if x: "x \<in> set (xs @ n # ys)" for x
  proof (cases "x = n")
    case True
    then show ?thesis using new req E by (simp add: minor_ok_def)
  next
    case False
    then have x': "x \<in> set (xs @ ys)" using x by simp
    have "p_of x - 16 \<noteq> p_of n - 16"
    proof (cases "x \<in> set xs")
      case True
      then have "p_of x - 16 < n" using block_region(4) [OF ok x'] lt [OF True] by simp
      then show ?thesis using p_of_bounds(1) [of n] by simp
    next
      case False
      then have "n + 24 + sz \<le> x" using gt x' by simp
      then show ?thesis using p_of_bounds [of n] p_of_bounds(1) [of x] req by simp
    qed
    moreover obtain mn where mn: "minors h x = Some mn" "mn_block mn = a" "mn_magic mn = LIBALLOC_MAGIC"
        "mn_req mn + 32 \<le> mn_size mn" "aligns h (p_of x - 16) = Some (p_of x - (x + 24))"
      using ok'(5) x' unfolding minor_ok_def by blast
    moreover from old [OF x'] mn(1) obtain mn' where "minors h' x = Some mn'" "mn_block mn' = mn_block mn"
        "mn_magic mn' = mn_magic mn" "mn_req mn' = mn_req mn" "mn_size mn' = mn_size mn"
      by (auto split: if_splits)
    ultimately show ?thesis using E unfolding minor_ok_def by simp
  qed
  moreover have "majors h' a = Some (y\<lparr>mj_first := headp (xs @ [n]) 0, mj_usage := mj_usage y + (sz + 24)\<rparr>)"
    using E by simp
  moreover have "headp (xs @ [n]) 0 = headp (xs @ n # ys) 0" by (simp add: headp_append)
  ultimately show "block_ok h' (a, xs @ n # ys)" using ok'(6) by (simp add: block_ok_def)
qed

lemma entered_inv:
  assumes inv: "heap_inv h tp (A1 @ (a, xs @ ys) # A2)" and y: "majors h a = Some y"
    and gap: "gap_after h a (a + mj_size y) xs ys n sz" and req: "req + 32 \<le> sz"
    and ent: "entered h a y xs ys n sz req h'"
  shows "heap_inv h' tp (A1 @ (a, xs @ n # ys) # A2)"
proof -
  note b = inv_block [OF inv]
  note e = entered_block [OF b(1) y gap req ent]
  have reg: "a + 24 \<le> x \<and> x < a + jlen h a" if "x \<in> set (xs @ ys)" for x
    using block_region(1-3) [OF b(1) that] by simp
  have nreg: "a + 24 \<le> n" "n + 24 + sz \<le> a + jlen h a" using e(4,5) y by (simp_all add: jlen_def)
  have pn: "a \<le> p_of n - 16 \<and> p_of n - 16 < a + jlen h a"
    using p_of_bounds(1,2) [of n] nreg req by auto
  note E = ent [unfolded entered_def]
  have lx: "xs \<noteq> [] \<Longrightarrow> last xs \<in> set (xs @ ys)" and hy: "ys \<noteq> [] \<Longrightarrow> hd ys \<in> set (xs @ ys)" by simp_all
  show ?thesis
  proof (rule inv_replace [OF inv e(1)])
    show "majors h' b = majors h b" if "b \<noteq> a" for b using that E by simp
    show "majors h a = Some y" by (rule y)
    show "majors h' a = Some (y\<lparr>mj_first := headp (xs @ [n]) 0, mj_usage := mj_usage y + (sz + 24)\<rparr>)" using E by simp
    fix z assume "z < a \<or> a + jlen h a \<le> z"
    then have "z \<noteq> n" "xs \<noteq> [] \<Longrightarrow> z \<noteq> last xs" "ys \<noteq> [] \<Longrightarrow> z \<noteq> hd ys" "z \<noteq> p_of n - 16"
      using nreg pn reg [OF lx] reg [OF hy] by auto
    then show "minors h' z = minors h z \<and> aligns h' z = aligns h z"
      using E by (auto simp: link_in_def Let_def)
  qed (use E in simp_all)
qed

text \<open>The four cases of the source enter an allocation.\<close>

lemma ALIGN_eq:
  assumes "n + 56 \<le> 2 ^ 32"
  shows "ALIGN (n + 24) h = (p_of n, h\<lparr>aligns := (aligns h)(p_of n - 16 \<mapsto> p_of n - (n + 24))\<rparr>)"
proof -
  let ?d = "if (n + 40) mod 16 \<noteq> 0 then 16 - (n + 40) mod 16 else 0"
  have p: "n + 40 + ?d = p_of n"
  proof -
    obtain q r where qr: "n + 40 = 16 * q + r" "r < 16"
      using mult_div_mod_eq [of 16 "n + 40"] by (metis mod_less_divisor zero_less_numeral)
    then have e: "n + 24 + 31 = (r + 15) + 16 * q" "(n + 40) mod 16 = r" by simp_all
    have "(n + 24 + 31) div 16 = q + (r + 15) div 16" unfolding e(1) by simp
    moreover have "(r + 15) div 16 = (if r = 0 then 0 else 1)" using qr(2) by (auto intro: div_nat_eqI)
    ultimately show ?thesis unfolding p_of_def e(2) using qr by auto
  qed
  then have d: "p_of n - (n + 24) = ?d + 16" by simp
  have e1: "add32 (n + 24) 16 = n + 40" using assms by simp
  have e2: "add32 (n + 40) ?d = p_of n" using assms p p_of_bounds(2) [of n] unfolding add32_def by simp
  have e3: "sub32 (p_of n) 16 = p_of n - 16" using assms p_of_bounds(1,2) [of n] by simp
  show ?thesis unfolding ALIGN_def Let_def ALIGN_INFO_def ALIGNMENT_def by (simp only: e1 e2 e3 d)
qed

lemma enter_eq:
  assumes "majors h a = Some y" "n + 24 + sz < 2 ^ 32" "56 \<le> sz + 24" "mj_usage y + (sz + 24) < 2 ^ 32" "n + 56 \<le> 2 ^ 32"
  shows "\<exists>h'. enter a n pr q sz req h = Inr (p_of n, h') \<and>
    majors h' = (majors h)(a \<mapsto> y\<lparr>mj_usage := mj_usage y + (sz + 24)\<rparr>) \<and>
    minors h' = (minors h)(n \<mapsto> \<lparr>mn_prev = pr, mn_next = q, mn_block = a, mn_magic = LIBALLOC_MAGIC,
      mn_size = sz, mn_req = req\<rparr>) \<and>
    aligns h' = (aligns h)(p_of n - 16 \<mapsto> p_of n - (n + 24)) \<and>
    memRoot h' = memRoot h \<and> bestBet h' = bestBet h \<and> bytes h' = bytes h"
proof -
  have "add32 n 24 = n + 24" "add32 sz 24 = sz + 24" "add32 (mj_usage y) (sz + 24) = mj_usage y + (sz + 24)"
    using assms by simp_all
  with assms show ?thesis
    by (simp add: enter_def upd_maj_def maj_at_def put_min_def put_maj_def sz_minor_def ALIGN_eq)
qed

lemma case2_entered:
  assumes "majors h a = Some y" "a + 24 + 24 + sz < 2 ^ 32" "32 \<le> sz" "mj_usage y + (sz + 24) < 2 ^ 32" "a + 80 \<le> 2 ^ 32"
  shows "\<exists>h'. case2 a sz req h = Inr (p_of (a + 24), h') \<and> entered h a y [] [] (a + 24) sz req h'"
proof -
  have "add32 a sz_major = a + 24" using assms by (simp add: sz_major_def)
  moreover have "\<exists>h'. enter a (a + 24) 0 0 sz req (put_maj a (y\<lparr>mj_first := a + 24\<rparr>) h) = Inr (p_of (a + 24), h') \<and>
      entered h a y [] [] (a + 24) sz req h'"
    using enter_eq [of "put_maj a (y\<lparr>mj_first := a + 24\<rparr>) h" a "y\<lparr>mj_first := a + 24\<rparr>" "a + 24" sz 0 0 req] assms
    by (auto simp: put_maj_def entered_def link_in_def)
  ultimately show ?thesis using assms by (simp add: case2_def Let_def upd_maj_def maj_at_def)
qed

lemma case3_entered:
  assumes "majors h a = Some y" "minors h z = Some x" "a + 24 \<noteq> z" "a + 24 + 24 + sz < 2 ^ 32" "32 \<le> sz"
    "mj_usage y + (sz + 24) < 2 ^ 32" "a + 80 \<le> 2 ^ 32"
  shows "\<exists>h'. case3 a z sz req h = Inr (p_of (a + 24), h') \<and> entered h a y [] (z # ys) (a + 24) sz req h'"
proof -
  let ?h = "put_maj a (y\<lparr>mj_first := a + 24\<rparr>) (put_min z (x\<lparr>mn_prev := a + 24\<rparr>) h)"
  have "add32 a sz_major = a + 24" using assms by (simp add: sz_major_def)
  moreover have "\<exists>h'. enter a (a + 24) 0 z sz req ?h = Inr (p_of (a + 24), h') \<and>
      entered h a y [] (z # ys) (a + 24) sz req h'"
    using enter_eq [of ?h a "y\<lparr>mj_first := a + 24\<rparr>" "a + 24" sz 0 z req] assms
    by (auto simp: put_maj_def put_min_def entered_def link_in_def)
  ultimately show ?thesis using assms
    by (simp add: case3_def Let_def upd_maj_def maj_at_def upd_min_def min_at_def put_min_def)
qed

lemma case41_entered:
  assumes "majors h a = Some y" "minors h z = Some x" "n = z + mlen h z" "n + 24 + sz < 2 ^ 32" "32 \<le> sz"
    "mj_usage y + (sz + 24) < 2 ^ 32" "n + 56 \<le> 2 ^ 32" "mj_first y = headp (xs @ [z]) 0"
  shows "\<exists>h'. case41 a z x sz req h = Inr (p_of n, h') \<and> entered h a y (xs @ [z]) [] n sz req h'"
proof -
  let ?h = "put_min z (x\<lparr>mn_next := n\<rparr>) h"
  have keep: "y\<lparr>mj_first := headp xs z, mj_usage := u\<rparr> = y\<lparr>mj_usage := u\<rparr>" for u
    using assms by (cases y) (simp add: headp_append)
  have "add32 (add32 z sz_minor) (mn_size x) = n" using assms by (simp add: sz_minor_def mlen_def)
  moreover have "\<exists>h'. enter a n z 0 sz req ?h = Inr (p_of n, h') \<and> entered h a y (xs @ [z]) [] n sz req h'"
    using enter_eq [of ?h a y n sz z 0 req] assms
    by (auto simp: put_min_def entered_def link_in_def headp_append keep)
  ultimately show ?thesis by (simp add: case41_def Let_def)
qed

lemma case42_entered:
  assumes "majors h a = Some y" "minors h z = Some x" "mn_next x = w" "minors h w = Some v" "w \<noteq> z"
    "n = z + mlen h z" "n \<noteq> w" "n + 24 + sz < 2 ^ 32" "32 \<le> sz"
    "mj_usage y + (sz + 24) < 2 ^ 32" "n + 56 \<le> 2 ^ 32" "mj_first y = headp (xs @ [z]) 0"
  shows "\<exists>h'. case42 a z x sz req h = Inr (p_of n, h') \<and> entered h a y (xs @ [z]) (w # ys) n sz req h'"
proof -
  let ?h = "put_min z (x\<lparr>mn_next := n\<rparr>) (put_min w (v\<lparr>mn_prev := n\<rparr>) h)"
  have keep: "y\<lparr>mj_first := headp xs z, mj_usage := u\<rparr> = y\<lparr>mj_usage := u\<rparr>" for u
    using assms by (cases y) (simp add: headp_append)
  have "add32 (add32 z sz_minor) (mn_size x) = n" using assms by (simp add: sz_minor_def mlen_def)
  moreover have "\<exists>h'. enter a n z w sz req ?h = Inr (p_of n, h') \<and> entered h a y (xs @ [z]) (w # ys) n sz req h'"
    using enter_eq [of ?h a y n sz z w req] assms
    by (auto simp: put_min_def entered_def link_in_def headp_append keep fun_upd_twist)
  ultimately show ?thesis using assms
    by (simp add: case42_def Let_def upd_min_def min_at_def put_min_def)
qed

lemma gap_usage:
  assumes ok: "block_ok h (a, us @ vs)" and y: "majors h a = Some y"
    and gap: "gap_after h a (a + mj_size y) us vs n sz"
  shows "mj_usage y + (sz + 24) \<le> mj_size y" "n + 24 + sz \<le> a + mj_size y" "a + 24 \<le> n"
proof -
  let ?hi = "a + mj_size y" and ?len = "(mlen h)(n := 24 + sz)"
  have f: "fits (mlen h) (a + 24) ?hi (us @ vs)" and use: "mj_usage y = 24 + sum_list (map (mlen h) (us @ vs))"
    using ok y by (auto simp: block_ok_def)
  have fx: "fits (mlen h) (a + 24) n us" and fy: "fits (mlen h) (n + 24 + sz) ?hi vs"
    using f gap unfolding fits_append gap_after_def
    by (auto intro: fits_shrink) (cases vs, auto intro: fits_mono)
  show "n + 24 + sz \<le> ?hi" "a + 24 \<le> n" using fits_le [OF fx] fits_le [OF fy] by simp_all
  have "x \<noteq> n" if "x \<in> set (us @ vs)" for x
    using fits_mem [OF fx, of x] fits_mem [OF fy, of x] minor_ok_pos [of h x] that by auto
  then have "\<forall>x\<in>set (us @ vs). mlen h x = ?len x" by auto
  then have l: "\<forall>x\<in>set us. mlen h x = ?len x" "\<forall>x\<in>set vs. mlen h x = ?len x" by auto
  then have fl: "fits ?len (a + 24) ?hi (us @ vs)"
    using f l by (subst fits_cong [of _ _ "mlen h"]) auto
  have "endp ?len (a + 24) us \<le> n" using gap l(1) by (simp add: gap_after_def endp_def split: if_splits)
  then have "fits ?len (a + 24) ?hi (us @ n # vs)"
    using gap by (intro fits_insert [OF fl]) (simp_all add: gap_after_def add.assoc)
  from fits_sum [OF this] have "24 + (sum_list (map ?len us) + (24 + sz) + sum_list (map ?len vs)) \<le> mj_size y"
    by simp
  moreover have "map ?len us = map (mlen h) us" "map ?len vs = map (mlen h) vs" using l by auto
  ultimately show "mj_usage y + (sz + 24) \<le> mj_size y" using use by simp
qed

lemma block_elem:
  assumes ok: "block_ok h (a, xs @ z # ys)" and y: "majors h a = Some y"
  shows "\<exists>x. minors h z = Some x \<and> mn_next x = headp ys 0 \<and> mn_prev x = lastp 0 xs \<and> z \<noteq> 0 \<and>
    z + mlen h z \<le> headp ys (a + mj_size y) \<and> mlen h z = 24 + mn_size x \<and> a + 24 \<le> z \<and> mn_block x = a \<and>
    mn_magic x = LIBALLOC_MAGIC \<and> mj_first y = headp (xs @ [z]) 0 \<and> distinct (xs @ z # ys) \<and>
    headp ys (a + mj_size y) \<le> a + mj_size y"
proof -
  have d: "dll (mnp h) (mnn h) 0 (xs @ z # ys) 0" and f: "fits (mlen h) (a + 24) (a + mj_size y) (xs @ z # ys)"
    and m: "minor_ok h a z" "mj_first y = headp (xs @ z # ys) 0"
    using ok y by (auto simp: block_ok_def)
  have "distinct (xs @ z # ys)" using f minor_ok_pos by (blast intro: fits_distinct)
  moreover have fz: "fits (mlen h) (z + mlen h z) (a + mj_size y) ys" using f by (simp add: fits_append)
  then have "z + mlen h z \<le> headp ys (a + mj_size y)" by (cases ys) auto
  moreover have "headp ys (a + mj_size y) \<le> a + mj_size y"
    using fits_mem [OF fz] by (cases ys) fastforce+
  moreover have "a + 24 \<le> z" using fits_mem [OF f, of z] by simp
  ultimately show ?thesis using d m
    by (auto simp: dll_append mnp_def mnn_def minor_ok_def mlen_def headp_append)
qed

lemma minor_loop_spec:
  assumes "block_ok h (a, xs @ z # ys)" "majors h a = Some y" "a + mj_size y < 2 ^ 32" "32 \<le> sz" "sz + 24 < 2 ^ 32"
  shows "\<exists>r. minor_loop a (mj_size y) z sz req h = Some r \<and>
    (r = Inr None \<or> (\<exists>us vs n h'. xs @ z # ys = us @ vs \<and> gap_after h a (a + mj_size y) us vs n sz \<and>
      entered h a y us vs n sz req h' \<and> r = Inr (Some (p_of n, h'))))"
  using assms(1)
proof (induction ys arbitrary: xs z)
  case Nil
  from block_elem [OF Nil assms(2)] obtain x where x: "minors h z = Some x" "mn_next x = 0" "z \<noteq> 0"
    "z + mlen h z \<le> a + mj_size y" "mlen h z = 24 + mn_size x" "a + 24 \<le> z" "mj_first y = headp (xs @ [z]) 0"
    by auto
  have room: "sub32 (sub32 (sub32 (add32 a (mj_size y)) z) sz_minor) (mn_size x) = a + mj_size y - (z + mlen h z)"
    using x assms(3) by (simp add: sz_minor_def)
  show ?case
  proof (cases "a + mj_size y - (z + mlen h z) \<ge> sz + 24")
    case True
    define n where "n = z + mlen h z"
    have gap: "gap_after h a (a + mj_size y) (xs @ [z]) [] n sz"
      using True x(4) by (simp add: gap_after_def n_def)
    have "block_ok h (a, (xs @ [z]) @ [])" using Nil by simp
    note g = gap_usage [OF this assms(2) gap]
    obtain h' where "case41 a z x sz req h = Inr (p_of n, h')" "entered h a y (xs @ [z]) [] n sz req h'"
      using case41_entered [OF assms(2) x(1) n_def _ assms(4) _ _ x(7)] g assms(3,4) by auto
    moreover from this True room x assms(5) have
      "minor_loop a (mj_size y) z sz req h = Some (Inr (Some (p_of n, h')))"
      by (subst minor_loop.simps) (simp add: min_at_def sz_minor_def)
    ultimately show ?thesis using gap
      by (intro exI [of _ "Inr (Some (p_of n, h'))"] conjI disjI2 exI [of _ "xs @ [z]"] exI [of _ "[]"]
          exI [of _ n] exI [of _ h']) simp_all
  next
    case False
    with room x assms(5) show ?thesis
      by (subst minor_loop.simps) (simp add: min_at_def sz_minor_def minor_loop.simps)
  qed
next
  case (Cons w ys)
  from block_elem [OF Cons.prems assms(2)] obtain x where x: "minors h z = Some x" "mn_next x = w" "z \<noteq> 0"
    "z + mlen h z \<le> w" "mlen h z = 24 + mn_size x" "a + 24 \<le> z" "mj_first y = headp (xs @ [z]) 0"
    "w \<le> a + mj_size y" "w \<noteq> z" by auto
  have Cons': "block_ok h (a, (xs @ [z]) @ w # ys)" using Cons.prems by simp
  from block_elem [OF Cons' assms(2)] obtain v where w: "minors h w = Some v" "w \<noteq> 0" by auto
  have room: "sub32 (sub32 (sub32 w z) sz_minor) (mn_size x) = w - (z + mlen h z)"
    using x assms(3) by (simp add: sz_minor_def)
  show ?case
  proof (cases "w - (z + mlen h z) \<ge> sz + 24")
    case True
    define n where "n = z + mlen h z"
    have gap: "gap_after h a (a + mj_size y) (xs @ [z]) (w # ys) n sz"
      using True x(4) by (simp add: gap_after_def n_def)
    note g = gap_usage [OF Cons' assms(2) gap]
    have "n \<noteq> w" using True by (auto simp: n_def)
    then obtain h' where "case42 a z x sz req h = Inr (p_of n, h')" "entered h a y (xs @ [z]) (w # ys) n sz req h'"
      using case42_entered [OF assms(2) x(1,2) w(1) x(9) n_def _ _ assms(4) _ _ x(7)] g assms(3,4) by auto
    moreover from this True room x w assms(5) have
      "minor_loop a (mj_size y) z sz req h = Some (Inr (Some (p_of n, h')))"
      by (subst minor_loop.simps) (simp add: min_at_def sz_minor_def)
    ultimately show ?thesis using gap
      by (intro exI [of _ "Inr (Some (p_of n, h'))"] conjI disjI2 exI [of _ "xs @ [z]"] exI [of _ "w # ys"]
          exI [of _ n] exI [of _ h']) simp_all
  next
    case False
    with room x w assms(5) have "minor_loop a (mj_size y) z sz req h = minor_loop a (mj_size y) w sz req h"
      by (subst minor_loop.simps) (simp add: min_at_def sz_minor_def)
    with Cons.IH [OF Cons'] show ?thesis by simp
  qed
qed

end
