(* ===== verification/HeapMalloc.thy ===== *)
theory HeapMalloc
  imports HeapInv
begin

section \<open>Allocating and releasing\<close>

text \<open>
  \<open>malloc\<close> and \<open>free\<close> over the invariant of \<open>HeapInv\<close>. What they need from the functions
  that get pages is the locale \<open>page_source\<close>; \<open>KernelHeap\<close> shows that the kernel's page
  back end provides it.
\<close>

subsection \<open>Where the pages come from\<close>

text \<open>
  Pages come from an address space that is handed out upwards: a block starts at or above the
  mark \<open>top\<close>, which then lies behind it. Giving pages back does not move the mark. The laws
  hold in the states \<open>good\<close> and for up to \<open>maxp\<close> pages at a time.
\<close>

locale page_source =
  fixes alloc :: "'m page_alloc"
    and give :: "'m page_free"
    and top :: "'m \<Rightarrow> nat"
    and good :: "'m \<Rightarrow> bool"
    and maxp :: nat
  assumes alloc_fresh: "good m \<Longrightarrow> alloc n m = Inr (p, m') \<Longrightarrow> 0 < n \<Longrightarrow> n \<le> maxp \<Longrightarrow>
      good m' \<and> top m \<le> top m' \<and> (p \<noteq> 0 \<longrightarrow> top m \<le> p \<and> p + n * 4096 \<le> top m')"
    and give_top: "good m \<Longrightarrow> give p n m = Inr m' \<Longrightarrow> good m' \<and> top m' = top m"
    and top_bound: "top m < 2 ^ 32"
    and maxp_bound: "16 \<le> maxp" "maxp * 4096 < 2 ^ 32"

subsection \<open>Changing the list of blocks\<close>

lemma block_ok_links:
  assumes "block_ok h (a, xs)" "majors h a = Some y" "majors h' a = Some y'"
    "mj_size y' = mj_size y" "mj_first y' = mj_first y" "mj_usage y' = mj_usage y"
    "minors h' = minors h" "aligns h' = aligns h"
  shows "block_ok h' (a, xs)"
proof -
  have "mnp h' = mnp h" "mnn h' = mnn h" "mlen h' = mlen h" "minor_ok h' = minor_ok h"
    using assms(7,8) by (simp_all add: fun_eq_iff mnp_def mnn_def mlen_def minor_ok_def)
  with assms(1-6) show ?thesis by (simp add: block_ok_def)
qed

text \<open>A new, empty block behind all the others.\<close>

definition add_block :: "heap \<Rightarrow> nat list \<Rightarrow> nat \<Rightarrow> major \<Rightarrow> heap \<Rightarrow> bool" where
  "add_block h as b y h' \<longleftrightarrow>
     majors h' = (if as = [] then majors h
       else (majors h)(last as := map_option (\<lambda>z. z\<lparr>mj_next := b\<rparr>) (majors h (last as))))
         (b \<mapsto> y\<lparr>mj_prev := lastp 0 as, mj_next := 0\<rparr>) \<and>
     minors h' = minors h \<and> aligns h' = aligns h \<and> bytes h' = bytes h \<and> bestBet h' = bestBet h \<and>
     memRoot h' = headp (as @ [b]) 0"

lemma inv_distinct: "heap_inv h tp A \<Longrightarrow> distinct (map fst A)"
proof -
  assume inv: "heap_inv h tp A"
  then have "\<forall>a\<in>set (map fst A). 0 < jlen h a" by (force simp: heap_inv_def block_ok_def jlen_def)
  with inv show ?thesis unfolding heap_inv_def by (blast intro: fits_distinct)
qed

lemma inv_add_block:
  assumes inv: "heap_inv h tp A" and b: "tp \<le> b" "b \<noteq> 0" "b + mj_size y \<le> tp'" "tp' < 2 ^ 32" "24 \<le> mj_size y"
    and new: "mj_usage y = 24" "mj_first y = 0" and add: "add_block h (map fst A) b y h'"
  shows "heap_inv h' tp' (A @ [(b, [])])"
proof -
  let ?as = "map fst A"
  note E = add [unfolded add_block_def]
  have blk: "\<exists>z. majors h a = Some z \<and> 24 \<le> mj_size z" if "a \<in> set ?as" for a
    using inv that by (force simp: heap_inv_def block_ok_def)
  have f: "fits (jlen h) 1 tp ?as" using inv by (simp add: heap_inv_def)
  have nb: "a \<noteq> b \<and> a + jlen h a \<le> b" if "a \<in> set ?as" for a
    using fits_mem [OF f that] blk [OF that] b(1) by (auto simp: jlen_def)
  have old: "majors h' a = (if a = last ?as then map_option (\<lambda>z. z\<lparr>mj_next := b\<rparr>) (majors h a) else majors h a)"
    if "a \<in> set ?as" for a
    using E nb [OF that] that by auto
  have links: "jprev h' a = jprev h a" "jnext h' a = (if a = last ?as then b else jnext h a)" "jlen h' a = jlen h a"
    if "a \<in> set ?as" for a
    using old [OF that] blk [OF that] by (auto simp: jprev_def jnext_def jlen_def)
  have newb: "majors h' b = Some (y\<lparr>mj_prev := lastp 0 ?as, mj_next := 0\<rparr>)" using E by simp
  have oks: "block_ok h' c" if c: "c \<in> set A" for c
  proof -
    obtain a xs where c': "c = (a, xs)" by (cases c)
    then have a: "a \<in> set ?as" using c by force
    obtain z where z: "majors h a = Some z" using blk [OF a] by blast
    have "block_ok h (a, xs)" using inv c c' by (simp add: heap_inv_def)
    moreover from old [OF a] z obtain z' where "majors h' a = Some z'" "mj_size z' = mj_size z"
      "mj_first z' = mj_first z" "mj_usage z' = mj_usage z" by (auto split: if_splits)
    ultimately show ?thesis unfolding c' using z E by (blast intro: block_ok_links)
  qed
  have "block_ok h' (b, [])" using newb b(5) new by (simp add: block_ok_def)
  moreover have "dll (jprev h') (jnext h') 0 (?as @ [b]) 0"
  proof -
    have "dll (jprev h') (jnext h') 0 ?as b"
    proof (subst dll_cong)
      show "dll (jprev h) (if ?as = [] then jnext h else (jnext h)(last ?as := b)) 0 ?as b"
        by (rule dll_set_next [of _ _ _ _ 0]) (use inv inv_distinct [OF inv] in \<open>simp_all add: heap_inv_def\<close>)
      show "\<forall>x\<in>set ?as. jprev h' x = jprev h x \<and>
          jnext h' x = (if ?as = [] then jnext h else (jnext h)(last ?as := b)) x"
        using links by auto
    qed
    then show ?thesis using newb b(2) by (simp add: dll_append jprev_def jnext_def)
  qed
  moreover have "fits (jlen h') 1 tp' (?as @ [b])"
  proof -
    have "fits (jlen h') 1 tp ?as" using f links(3) fits_cong [of ?as "jlen h'" "jlen h"] by simp
    then have "fits (jlen h') 1 tp' (?as @ [])" using fits_le [OF f] b by (auto intro: fits_mono)
    moreover have "endp (jlen h') 1 ?as \<le> b"
      using fits_end [OF \<open>fits (jlen h') 1 tp ?as\<close>] b(1) by simp
    ultimately show ?thesis using newb b(3) by (intro fits_insert) (simp_all add: jlen_def)
  qed
  ultimately show ?thesis using oks inv E b(4) by (auto simp: heap_inv_def)
qed

text \<open>The invariant does not depend on the counters, nor on which block is the best bet.\<close>

lemma heap_inv_cong:
  assumes "heap_inv h tp A" "majors h' = majors h" "minors h' = minors h" "aligns h' = aligns h"
    "memRoot h' = memRoot h" "bestBet h' = 0 \<or> bestBet h' \<in> fst ` set A" "tp \<le> tp'" "tp' < 2 ^ 32"
  shows "heap_inv h' tp' A"
proof -
  have e: "jprev h' = jprev h" "jnext h' = jnext h" "jlen h' = jlen h" "mnp h' = mnp h" "mnn h' = mnn h"
    "mlen h' = mlen h" "minor_ok h' = minor_ok h"
    using assms(2-4) by (simp_all add: fun_eq_iff jprev_def jnext_def jlen_def mnp_def mnn_def mlen_def minor_ok_def)
  have "block_ok h' = block_ok h" by (simp add: fun_eq_iff block_ok_def e assms(2))
  with assms e show ?thesis by (auto simp: heap_inv_def intro: fits_mono)
qed

lemma inv_best:
  assumes "heap_inv h tp A" "a \<in> fst ` set A"
  shows "heap_inv (if c then h\<lparr>bestBet := a\<rparr> else h) tp A"
proof -
  have "tp < 2 ^ 32" using assms(1) by (simp add: heap_inv_def)
  then have "heap_inv (h\<lparr>bestBet := a\<rparr>) tp A" using assms by (intro heap_inv_cong [OF assms(1)]) simp_all
  then show ?thesis using assms(1) by simp
qed

subsection \<open>What an allocation does\<close>

definition mreq :: "heap \<Rightarrow> nat \<Rightarrow> nat" where "mreq h x = mn_req (the (minors h x))"

definition same_live :: "heap \<Rightarrow> heap \<Rightarrow> nat set \<Rightarrow> bool" where
  "same_live h h' S \<longleftrightarrow> bytes h' = bytes h \<and> (\<forall>x\<in>S. mlen h' x = mlen h x \<and> mreq h' x = mreq h x)"

definition malloc_post ::
  "heap \<Rightarrow> nat set \<Rightarrow> nat \<Rightarrow> nat \<Rightarrow> heap \<Rightarrow> nat \<Rightarrow> (nat \<times> nat list) list \<Rightarrow> nat \<Rightarrow> bool" where
  "malloc_post h S req sz h' tp A' p \<longleftrightarrow> heap_inv h' tp A' \<and> same_live h h' S \<and>
     (\<exists>n. n \<notin> S \<and> live A' = insert n S \<and> p = p_of n \<and> mreq h' n = req \<and> mlen h' n = 24 + sz)"

lemma live_simps [simp]: "live [] = {}" "live ((a, xs) # A) = set xs \<union> live A" "live (A @ B) = live A \<union> live B"
  by (auto simp: live_def)

lemma live_block: "heap_inv h tp A \<Longrightarrow> (a, xs) \<in> set A \<Longrightarrow> x \<in> set xs \<Longrightarrow> a + 24 \<le> x \<and> x + mlen h x \<le> a + jlen h a"
  by (rule conjI; rule block_region) (auto simp: heap_inv_def)

lemma entered_post:
  assumes inv: "heap_inv h tp (A1 @ (a, xs @ ys) # A2)" and y: "majors h a = Some y"
    and gap: "gap_after h a (a + mj_size y) xs ys n sz" and req: "req + 32 \<le> sz"
    and ent: "entered h a y xs ys n sz req h'"
  shows "malloc_post h (live (A1 @ (a, xs @ ys) # A2)) req sz h' tp (A1 @ (a, xs @ n # ys) # A2) (p_of n)"
proof -
  note b = inv_block [OF inv]
  note e = entered_block [OF b(1) y gap req ent]
  have nreg: "a \<le> n" "n < a + jlen h a" using e(4,5) y by (simp_all add: jlen_def)
  have same: "mlen h' x = mlen h x \<and> mreq h' x = mreq h x \<and> x \<noteq> n" if x: "x \<in> live (A1 @ (a, xs @ ys) # A2)" for x
  proof (cases "x \<in> set (xs @ ys)")
    case True
    then show ?thesis using e(2,3) by (simp add: mreq_def)
  next
    case False
    with x have "x \<in> live (A1 @ A2)" by auto
    then obtain c zs where c: "(c, zs) \<in> set (A1 @ A2)" "x \<in> set zs" unfolding live_def by force
    then have r: "c + 24 \<le> x" "x + mlen h x \<le> c + jlen h c" using live_block [OF inv, of c zs x] by auto
    then have out: "x < a \<or> a + jlen h a \<le> x" using b(5) [OF c(1)] minor_ok_pos [of h x] by auto
    then have "x \<noteq> n" "xs \<noteq> [] \<Longrightarrow> x \<noteq> last xs" "ys \<noteq> [] \<Longrightarrow> x \<noteq> hd ys"
      using nreg block_region(1-3) [OF b(1), of "last xs"] block_region(1-3) [OF b(1), of "hd ys"] by auto
    then have "minors h' x = minors h x" using ent by (auto simp: entered_def link_in_def Let_def)
    then show ?thesis using \<open>x \<noteq> n\<close> by (simp add: mlen_def mreq_def)
  qed
  have "minors h' n = Some \<lparr>mn_prev = lastp 0 xs, mn_next = headp ys 0, mn_block = a,
       mn_magic = LIBALLOC_MAGIC, mn_size = sz, mn_req = req\<rparr>"
    using ent by (simp add: entered_def link_in_def Let_def)
  then have "mreq h' n = req" "mlen h' n = 24 + sz" by (simp_all add: mreq_def mlen_def)
  moreover have "bytes h' = bytes h" using ent by (simp add: entered_def)
  moreover have "heap_inv h' tp (A1 @ (a, xs @ n # ys) # A2)" by (rule entered_inv [OF inv y gap req ent])
  ultimately show ?thesis using same unfolding malloc_post_def same_live_def
    by (intro conjI exI [of _ n]) auto
qed

text \<open>Cases 2 to 5 in a block: an allocation, or on to case 5.\<close>

lemma in_block_spec:
  assumes inv: "heap_inv h tp (A1 @ (a, xs) # A2)" and sz: "req + 32 \<le> sz" "sz + 24 < 2 ^ 32"
    and room: "xs = [] \<longrightarrow> 48 + sz \<le> jlen h a"
  shows "\<exists>r. in_block alloc a started sz req h m = Some r \<and>
    ((\<exists>p h' A'. r = Inr (Found p h' m) \<and> malloc_post h (live (A1 @ (a, xs) # A2)) req sz h' tp A' p \<and> p \<noteq> 0) \<or>
     xs \<noteq> [] \<and> r = case5 alloc a started sz h m)"
proof -
  note b = inv_block [OF inv]
  obtain y where y: "majors h a = Some y" "mj_first y = headp xs 0" using b(1) by (auto simp: block_ok_def)
  have hi: "a + mj_size y < 2 ^ 32" using b(3,4) y by (simp add: jlen_def)
  let ?done = "\<lambda>r. \<exists>p h' A'. r = Inr (Found p h' m) \<and>
      malloc_post h (live (A1 @ (a, xs) # A2)) req sz h' tp A' p \<and> p \<noteq> 0"
  have found: "?done (Inr (Found (p_of n) h' m))"
    if "xs = us @ vs" "gap_after h a (a + mj_size y) us vs n sz" "entered h a y us vs n sz req h'" for us vs n h'
    using entered_post [of h tp A1 a us vs A2 y n sz req h'] inv that y(1) sz(1) p_of_bounds(1) [of n]
    by (intro exI [of _ "p_of n"] exI [of _ h'] exI [of _ "A1 @ (a, us @ n # vs) # A2"]) simp
  show ?thesis
  proof (cases xs)
    case Nil
    have gap: "gap_after h a (a + mj_size y) [] [] (a + 24) sz"
      using room Nil y by (simp add: gap_after_def jlen_def)
    have "block_ok h (a, [] @ [])" using b(1) Nil by simp
    note g = gap_usage [OF this y(1) gap]
    obtain h' where "case2 a sz req h = Inr (p_of (a + 24), h')" "entered h a y [] [] (a + 24) sz req h'"
      using case2_entered [OF y(1), of sz req] g hi sz by auto
    moreover from this have "?done (Inr (Found (p_of (a + 24)) h' m))" using gap Nil by (intro found) simp_all
    ultimately show ?thesis using Nil y
      by (intro exI [of _ "Inr (Found (p_of (a + 24)) h' m)"]) (simp add: in_block_def maj_at_def)
  next
    case (Cons z ys)
    have b': "block_ok h (a, [] @ z # ys)" using b(1) Cons by simp
    from block_elem [OF b' y(1)] obtain x where x: "minors h z = Some x" "z \<noteq> 0" "a + 24 \<le> z"
      "z + mlen h z \<le> headp ys (a + mj_size y)" "headp ys (a + mj_size y) \<le> a + mj_size y" by auto
    have front: "sub32 (sub32 (mj_first y) a) sz_major = z - (a + 24)"
      using x hi y(2) Cons by (simp add: sz_major_def)
    show ?thesis
    proof (cases "z - (a + 24) \<ge> sz + 24")
      case True
      have gap: "gap_after h a (a + mj_size y) [] (z # ys) (a + 24) sz"
        using True x(3) by (simp add: gap_after_def)
      note g = gap_usage [OF b' y(1) gap]
      have "a + 24 \<noteq> z" using True by auto
      then obtain h' where "case3 a z sz req h = Inr (p_of (a + 24), h')" "entered h a y [] (z # ys) (a + 24) sz req h'"
        using case3_entered [OF y(1) x(1), of sz req ys] g hi sz by auto
      moreover from this have "?done (Inr (Found (p_of (a + 24)) h' m))" using gap Cons by (intro found) simp_all
      ultimately show ?thesis using Cons y x True front sz(2)
        by (intro exI [of _ "Inr (Found (p_of (a + 24)) h' m)"]) (simp add: in_block_def maj_at_def sz_minor_def)
    next
      case False
      have sz32: "32 \<le> sz" using sz(1) by simp
      from minor_loop_spec [OF b' y(1) hi sz32 sz(2), of req] obtain r where
        r: "minor_loop a (mj_size y) z sz req h = Some r"
        "r = Inr None \<or> (\<exists>us vs n h'. xs = us @ vs \<and> gap_after h a (a + mj_size y) us vs n sz \<and>
          entered h a y us vs n sz req h' \<and> r = Inr (Some (p_of n, h')))"
        unfolding append_Nil Cons [symmetric] by blast
      have e: "in_block alloc a started sz req h m = Some (rbind r (\<lambda>r.
          case r of Some (p, h) \<Rightarrow> Inr (Found p h m) | None \<Rightarrow> case5 alloc a started sz h m))"
        using False front y x Cons sz(2) r(1) by (simp add: in_block_def maj_at_def sz_minor_def)
      from r(2) show ?thesis
      proof
        assume "r = Inr None"
        with e Cons show ?thesis by simp
      next
        assume "\<exists>us vs n h'. xs = us @ vs \<and> gap_after h a (a + mj_size y) us vs n sz \<and>
          entered h a y us vs n sz req h' \<and> r = Inr (Some (p_of n, h'))"
        then obtain us vs n h' where u: "xs = us @ vs" "gap_after h a (a + mj_size y) us vs n sz"
          "entered h a y us vs n sz req h'" "r = Inr (Some (p_of n, h'))" by blast
        from found [OF u(1-3)] e u(4) show ?thesis by (intro exI [of _ "Inr (Found (p_of n) h' m)"]) simp
      qed
    qed
  qed
qed


subsection \<open>A new block\<close>

lemma page_count_bounds:
  assumes "sz + 48 \<le> mx * 4096" "16 \<le> mx" "mx * 4096 < 2 ^ 32"
  shows "16 \<le> page_count sz" "page_count sz \<le> mx" "sz + 48 \<le> page_count sz * 4096"
proof -
  define q r where "q = (sz + 48) div 4096" and "r = (sz + 48) mod 4096"
  have s: "add32 (add32 sz 24) 24 = sz + 48" using assms by simp
  have qr: "sz + 48 = q * 4096 + r" "r < 4096" by (simp_all add: q_def r_def)
  then have le: "q \<le> mx" "r \<noteq> 0 \<Longrightarrow> q + 1 \<le> mx" using assms(1) by linarith+
  have pc: "page_count sz = max 16 (if r = 0 then q else q + 1)"
    by (simp add: page_count_def s l_pageSize_def l_pageCount_def sz_major_def sz_minor_def Let_def q_def r_def max_def)
  show "16 \<le> page_count sz" "page_count sz \<le> mx" using le assms(2) by (auto simp: pc)
  have "sz + 48 \<le> (if r = 0 then q else q + 1) * 4096" using qr by (simp split: if_split)
  also have "\<dots> \<le> page_count sz * 4096" unfolding pc by (intro mult_le_mono1) simp
  finally show "sz + 48 \<le> page_count sz * 4096" .
qed

lemma upd_same_major:
  assumes "majors h a = Some y" "mj_next y = n"
  shows "upd_maj h a (\<lambda>y. y\<lparr>mj_next := n\<rparr>) = Inr h"
proof -
  have "y\<lparr>mj_next := n\<rparr> = y" using assms(2) by (cases y) simp
  moreover have "(majors h)(a \<mapsto> y) = majors h" using assms(1) by (simp add: fun_upd_idem)
  ultimately show ?thesis using assms(1) by (simp add: upd_maj_def maj_at_def put_maj_def)
qed

text \<open>The headers of the blocks are linked in the order of the shadow.\<close>

lemma inv_links:
  assumes "heap_inv h tp (A1 @ (a, xs) # A2)"
  shows "\<exists>y. majors h a = Some y \<and> mj_next y = headp (map fst A2) 0 \<and> mj_prev y = lastp 0 (map fst A1) \<and>
    mj_next y \<noteq> a \<and> mj_size y = jlen h a \<and> mj_usage y = 24 + sum_list (map (mlen h) xs) \<and>
    mj_first y = headp xs 0 \<and> mj_usage y \<le> mj_size y \<and> mj_size y < 2 ^ 32"
proof -
  note b = inv_block [OF assms]
  obtain y where y: "majors h a = Some y" "mj_first y = headp xs 0" "mj_usage y = 24 + sum_list (map (mlen h) xs)"
    "fits (mlen h) (a + 24) (a + mj_size y) xs"
    using b(1) by (auto simp: block_ok_def)
  have "dll (jprev h) (jnext h) 0 (map fst A1 @ a # map fst A2) 0" using assms by (simp add: heap_inv_def)
  then have l: "mj_prev y = lastp 0 (map fst A1)" "mj_next y = headp (map fst A2) 0"
    using y(1) by (simp_all add: dll_append jprev_def jnext_def)
  have "headp (map fst A2) 0 \<noteq> a" using b(2,6) by (cases A2) auto
  moreover have "mj_usage y \<le> mj_size y" using fits_sum [OF y(4)] y(3) by simp
  ultimately show ?thesis using y l b(3,4) by (auto simp: jlen_def)
qed

lemma inv_next:
  assumes "heap_inv h tp (A1 @ (a, xs) # A2)" "A2 \<noteq> []"
  shows "headp (map fst A2) 0 = fst (hd A2)" "fst (hd A2) \<noteq> 0"
proof -
  obtain b ys A3 where A2: "A2 = (b, ys) # A3" using assms(2) by (metis list.exhaust surj_pair)
  then show "headp (map fst A2) 0 = fst (hd A2)" "fst (hd A2) \<noteq> 0"
    using inv_block(2) [of h tp "A1 @ [(a, xs)]" b ys A3] assms(1) by simp_all
qed

subsection \<open>Allocating from a page source\<close>

text \<open>
  The outcomes of an allocation: an error of the page source, the null pointer with the same
  allocations as before, or a new allocation.
\<close>

definition malloc_res ::
  "(stop \<Rightarrow> bool) \<Rightarrow> ('m \<Rightarrow> nat) \<Rightarrow> ('m \<Rightarrow> bool) \<Rightarrow> heap \<Rightarrow> nat set \<Rightarrow> nat \<Rightarrow> nat \<Rightarrow>
   (nat \<times> heap \<times> 'm) res \<Rightarrow> bool" where
  "malloc_res er tp gd h S req sz r \<longleftrightarrow>
     (case r of Inl e \<Rightarrow> er e
      | Inr (p, h', m') \<Rightarrow> gd m' \<and> (\<exists>A'.
          if p = 0 then heap_inv h' (tp m') A' \<and> same_live h h' S \<and> live A' = S
          else malloc_post h S req sz h' (tp m') A' p))"

lemma malloc_res_cong:
  assumes "minors h1 = minors h" "bytes h1 = bytes h"
  shows "malloc_res er tp gd h1 S req sz r = malloc_res er tp gd h S req sz r"
proof -
  have "same_live h1 = same_live h" using assms by (simp add: fun_eq_iff same_live_def mlen_def mreq_def)
  then show ?thesis by (simp only: malloc_res_def malloc_post_def)
qed

text \<open>A heap with a new, empty block of at least \<open>sz + 48\<close> bytes behind the blocks \<open>A\<close>.\<close>

definition grown_by :: "heap \<Rightarrow> (nat \<times> nat list) list \<Rightarrow> nat \<Rightarrow> nat \<Rightarrow> nat \<Rightarrow> heap \<Rightarrow> bool" where
  "grown_by h A sz b tp h' \<longleftrightarrow> heap_inv h' tp (A @ [(b, [])]) \<and> b \<noteq> 0 \<and> sz + 48 \<le> jlen h' b \<and>
     minors h' = minors h \<and> bytes h' = bytes h \<and> bestBet h' = bestBet h"

lemma grown_block:
  assumes inv: "heap_inv h tp A" and b: "b \<noteq> 0" "tp \<le> b" "b + mj_size y \<le> tp'" "tp' < 2 ^ 32" "sz + 48 \<le> mj_size y"
    and y: "mj_usage y = 24" "mj_first y = 0" and add: "add_block h (map fst A) b y h'"
  shows "grown_by h A sz b tp' h'"
proof -
  have "heap_inv h' tp' (A @ [(b, [])])" using inv_add_block [OF inv b(2,1,3,4) _ y add] b(5) by simp
  moreover have "jlen h' b = mj_size y" using add by (simp add: add_block_def jlen_def)
  ultimately show ?thesis using b add by (simp add: grown_by_def add_block_def)
qed

text \<open>What the loop does with the outcome of a look at a block.\<close>

definition go_on ::
  "bool \<Rightarrow> 'm page_alloc \<Rightarrow> nat \<Rightarrow> nat \<Rightarrow> nat \<Rightarrow> 'm outcome res option \<Rightarrow> (nat \<times> heap \<times> 'm) res option" where
  "go_on kcopy alc best sz req oc =
     (case oc of None \<Rightarrow> None
      | Some (Inl e) \<Rightarrow> Some (Inl e)
      | Some (Inr (Found p h m)) \<Rightarrow> Some (Inr (p, h, m))
      | Some (Inr (NoMemory h m)) \<Rightarrow> Some (Inr (0, h, m))
      | Some (Inr (Look n started h m)) \<Rightarrow> block_loop kcopy alc n started best sz req h m)"

lemma go_on_simps [simp]:
  "go_on kcopy alc best sz req (Some (Inl e)) = Some (Inl e)"
  "go_on kcopy alc best sz req (Some (Inr (Found p h m))) = Some (Inr (p, h, m))"
  "go_on kcopy alc best sz req (Some (Inr (NoMemory h m))) = Some (Inr (0, h, m))"
  "go_on kcopy alc best sz req (Some (Inr (Look n started h m))) = block_loop kcopy alc n started best sz req h m"
  by (simp_all add: go_on_def)

definition small_outcome ::
  "bool \<Rightarrow> 'm page_alloc \<Rightarrow> nat \<Rightarrow> bool \<Rightarrow> nat \<Rightarrow> nat \<Rightarrow> heap \<Rightarrow> 'm \<Rightarrow> 'm outcome res option" where
  "small_outcome kcopy alc a started sz req h m =
     (case case1 kcopy alc a started sz h m of Inl e \<Rightarrow> Some (Inl e) | Inr (Inl oc) \<Rightarrow> Some (Inr oc)
      | Inr (Inr (n, h, m)) \<Rightarrow> in_block alc n started sz req h m)"

lemma block_loop_eq:
  assumes "majors h a = Some y" "a \<noteq> 0" "d = sub32 (mj_size y) (mj_usage y)"
  shows "block_loop kcopy alc a started best sz req h m =
    go_on kcopy alc (if best < d then d else best) sz req
      (let h = (if best < d then h\<lparr>bestBet := a\<rparr> else h) in
       if d < add32 sz sz_minor then small_outcome kcopy alc a started sz req h m
       else in_block alc a started sz req h m)"
  using assms(1,2) unfolding assms(3)
  by (subst block_loop.simps, cases "best < sub32 (mj_size y) (mj_usage y)")
    (simp_all add: maj_at_def Let_def go_on_def small_outcome_def
      cong: option.case_cong sum.case_cong outcome.case_cong)

text \<open>Cases 1 and 5 in a block with a successor, and in the last one.\<close>

lemma look_next:
  assumes "majors h a = Some y" "mj_next y \<noteq> 0" "mj_next y \<noteq> a"
  shows "small_outcome kcopy alc a started sz req h m = Some (Inr (Look (mj_next y) started h m))"
    "case5 alc a started sz h m = Inr (Look (mj_next y) started h m)"
  using assms by (simp_all add: small_outcome_def case1_def case5_def maj_at_def)

lemma look_again:
  assumes "majors h a = Some y" "mj_next y = 0"
  shows "small_outcome kcopy alc a True sz req h m = Some (Inr (Look (memRoot h) False h m))"
    "case5 alc a True sz h m = Inr (Look (memRoot h) False h m)"
  using assms by (simp_all add: small_outcome_def case1_def case5_def maj_at_def)

lemma look_append:
  assumes "majors h a = Some y" "mj_next y = 0"
  shows "small_outcome kcopy alc a False sz req h m =
      (case append_block alc a sz h m of Inl e \<Rightarrow> Some (Inl e)
       | Inr (n, h, m) \<Rightarrow> if n = 0 then Some (Inr (NoMemory h m)) else in_block alc n False sz req h m)"
    "Some (case5 alc a False sz h m) =
      (case append_block alc a sz h m of Inl e \<Rightarrow> Some (Inl e)
       | Inr (n, h, m) \<Rightarrow> if n = 0 then Some (Inr (NoMemory h m)) else Some (Inr (Look n False h m)))"
  using assms by (auto simp: small_outcome_def case1_def case5_def maj_at_def split: sum.splits)

context page_source
begin

abbreviation "page_error e \<equiv> \<exists>n m. alloc n m = Inl e"

lemma new_page_spec:
  assumes "good m" "sz + 48 \<le> maxp * 4096"
  shows "(\<exists>e. allocate_new_page alloc sz h m = Inl e \<and> page_error e) \<or>
    (\<exists>m'. allocate_new_page alloc sz h m = Inr (0, h\<lparr>warnings := warnings h + 1\<rparr>, m') \<and> good m' \<and> top m \<le> top m') \<or>
    (\<exists>b y c m'. allocate_new_page alloc sz h m = Inr (b, (put_maj b y h)\<lparr>l_allocated := c\<rparr>, m') \<and>
       good m' \<and> b \<noteq> 0 \<and> top m \<le> b \<and> b + mj_size y \<le> top m' \<and> sz + 48 \<le> mj_size y \<and>
       mj_usage y = 24 \<and> mj_first y = 0 \<and> mj_prev y = 0 \<and> mj_next y = 0)"
proof (cases "alloc (page_count sz) m")
  case (Inl e)
  then show ?thesis by (auto simp: allocate_new_page_def Let_def)
next
  case (Inr r)
  obtain b m' where r: "alloc (page_count sz) m = Inr (b, m')" using Inr by (cases r) auto
  note pc = page_count_bounds [OF assms(2) maxp_bound]
  have f: "good m'" "top m \<le> top m'" "b \<noteq> 0 \<Longrightarrow> top m \<le> b \<and> b + page_count sz * 4096 \<le> top m'"
    using alloc_fresh [OF assms(1) r] pc by auto
  have "page_count sz * 4096 \<le> maxp * 4096" using pc(2) by (rule mult_le_mono1)
  then have "mul32 (page_count sz) l_pageSize = page_count sz * 4096"
    using maxp_bound(2) by (simp add: l_pageSize_def)
  with r f pc(3) show ?thesis
    by (cases "b = 0") (auto simp: allocate_new_page_def sz_major_def Let_def)
qed

lemma append_block_spec:
  assumes inv: "heap_inv h (top m) (A @ [(a, xs)])" and ok: "good m" "sz + 48 \<le> maxp * 4096"
  shows "(\<exists>e. append_block alloc a sz h m = Inl e \<and> page_error e) \<or>
    (\<exists>h' m'. append_block alloc a sz h m = Inr (0, h', m') \<and> good m' \<and> heap_inv h' (top m') (A @ [(a, xs)]) \<and>
       minors h' = minors h \<and> bytes h' = bytes h) \<or>
    (\<exists>b h' m'. append_block alloc a sz h m = Inr (b, h', m') \<and> good m' \<and> b \<noteq> 0 \<and>
       grown_by h (A @ [(a, xs)]) sz b (top m') h')"
proof -
  obtain y where y: "majors h a = Some y" "mj_next y = 0" using inv_links [OF inv] by auto
  from new_page_spec [OF ok, of h] show ?thesis
  proof (elim disjE exE conjE)
    fix m' assume n: "allocate_new_page alloc sz h m = Inr (0, h\<lparr>warnings := warnings h + 1\<rparr>, m')"
      and m': "good m'" "top m \<le> top m'"
    have "append_block alloc a sz h m = Inr (0, h\<lparr>warnings := warnings h + 1\<rparr>, m')"
      using n y upd_same_major [of "h\<lparr>warnings := warnings h + 1\<rparr>" a y 0] by (simp add: append_block_def)
    moreover have "heap_inv (h\<lparr>warnings := warnings h + 1\<rparr>) (top m') (A @ [(a, xs)])"
      using heap_inv_cong [OF inv] m' top_bound inv by (simp add: heap_inv_def)
    ultimately show ?thesis using m' by auto
  next
    fix b z c m' assume n: "allocate_new_page alloc sz h m = Inr (b, (put_maj b z h)\<lparr>l_allocated := c\<rparr>, m')"
      and b: "good m'" "b \<noteq> 0" "top m \<le> b" "b + mj_size z \<le> top m'" "sz + 48 \<le> mj_size z"
      and z: "mj_usage z = 24" "mj_first z = 0" "mj_prev z = 0" "mj_next z = 0"
    have ab: "a \<noteq> b" using inv_block(1,3) [OF inv] b(3) by (auto simp: block_ok_def jlen_def)
    define h' where "h' = put_maj b (z\<lparr>mj_prev := a\<rparr>) (put_maj a (y\<lparr>mj_next := b\<rparr>) ((put_maj b z h)\<lparr>l_allocated := c\<rparr>))"
    have "append_block alloc a sz h m = Inr (b, h', m')"
      using n y ab b(2) by (simp add: append_block_def upd_maj_def maj_at_def put_maj_def h'_def)
    moreover have "add_block h (map fst (A @ [(a, xs)])) b z h'"
    proof -
      have "z\<lparr>mj_prev := a, mj_next := 0\<rparr> = z\<lparr>mj_prev := a\<rparr>" using z(4) by (cases z) simp
      moreover have "memRoot h = headp (map fst A @ [a, b]) 0" using inv by (simp add: heap_inv_def headp_append)
      ultimately show ?thesis
        using y ab by (simp add: add_block_def h'_def put_maj_def fun_upd_twist)
    qed
    then have "grown_by h (A @ [(a, xs)]) sz b (top m') h'"
      using grown_block [OF inv b(2,3,4) _ b(5) z(1,2)] top_bound by blast
    ultimately show ?thesis using b by auto
  qed (auto simp: append_block_def)
qed

text \<open>In an empty block with room the allocation is entered at once.\<close>

lemma empty_block_found:
  assumes g: "grown_by h A sz b (top m) h'" and sz: "req + 32 \<le> sz" "sz + 24 < 2 ^ 32"
  shows "\<exists>p h2 A'. in_block alloc b started sz req h' m = Some (Inr (Found p h2 m)) \<and>
    malloc_post h' (live A) req sz h2 (top m) A' p \<and> p \<noteq> 0"
proof -
  have inv: "heap_inv h' (top m) (A @ (b, []) # [])" "48 + sz \<le> jlen h' b"
    using g by (simp_all add: grown_by_def)
  show ?thesis using in_block_spec [OF inv(1) sz, of alloc started m] inv(2) by auto
qed

lemma block_loop_empty:
  assumes g: "grown_by h A sz b (top m) h'" and ok: "good m" and sz: "req + 32 \<le> sz" "sz + 24 < 2 ^ 32"
  shows "\<exists>r. block_loop kcopy alloc b started best sz req h' m = Some r \<and>
    malloc_res page_error top good h (live A) req sz r"
proof -
  have inv: "heap_inv h' (top m) (A @ (b, []) # [])" and room: "sz + 48 \<le> jlen h' b" and b0: "b \<noteq> 0"
    and same: "minors h' = minors h" "bytes h' = bytes h"
    using g by (simp_all add: grown_by_def)
  from inv_links [OF inv] obtain y where y: "majors h' b = Some y" "mj_usage y = 24" "mj_size y = jlen h' b"
    "mj_size y < 2 ^ 32" by auto
  let ?d = "sub32 (mj_size y) (mj_usage y)"
  have d: "?d = jlen h' b - 24" "\<not> ?d < add32 sz sz_minor"
    using y room sz(2) by (simp_all add: sz_minor_def)
  define h1 where "h1 = (if best < ?d then h'\<lparr>bestBet := b\<rparr> else h')"
  have h1: "majors h1 = majors h'" "minors h1 = minors h'" "aligns h1 = aligns h'" "memRoot h1 = memRoot h'"
    "bytes h1 = bytes h'" by (simp_all add: h1_def)
  have "heap_inv h1 (top m) (A @ [(b, [])])"
    using inv_best [OF inv, of b] by (simp add: h1_def)
  then have "grown_by (h1\<lparr>bestBet := bestBet h1\<rparr>) A sz b (top m) h1"
    using room b0 h1 by (simp add: grown_by_def jlen_def)
  from empty_block_found [OF this sz, of started] obtain p h2 A' where f:
    "in_block alloc b started sz req h1 m = Some (Inr (Found p h2 m))"
    "malloc_post h1 (live A) req sz h2 (top m) A' p" "p \<noteq> 0" by auto
  have "block_loop kcopy alloc b started best sz req h' m = Some (Inr (p, h2, m))"
    using y(1) d(2) f(1) b0
    by (subst block_loop.simps) (simp add: maj_at_def Let_def flip: h1_def)
  moreover have "malloc_res page_error top good h1 (live A) req sz (Inr (p, h2, m))"
    using f ok by (auto simp: malloc_res_def)
  moreover have "malloc_res page_error top good h1 (live A) req sz (Inr (p, h2, m)) =
      malloc_res page_error top good h (live A) req sz (Inr (p, h2, m))"
    by (rule malloc_res_cong) (simp_all add: same h1)
  ultimately show ?thesis by blast
qed

text \<open>When a new block is appended, the loop ends.\<close>

lemma append_done:
  assumes inv: "heap_inv h (top m) (A @ [(a, xs)])" and ok: "good m" and sz: "sz + 48 \<le> maxp * 4096"
    and oc: "oc = (case append_block alloc a sz h m of Inl e \<Rightarrow> Some (Inl e)
      | Inr (n, h, m) \<Rightarrow> if n = 0 then Some (Inr (NoMemory h m)) else K n h m)"
    and K: "\<And>n h' m'. good m' \<Longrightarrow> grown_by h (A @ [(a, xs)]) sz n (top m') h' \<Longrightarrow>
      \<exists>r. go_on kcopy alloc best sz req (K n h' m') = Some r \<and>
        malloc_res page_error top good h (live (A @ [(a, xs)])) req sz r"
  shows "\<exists>r. go_on kcopy alloc best sz req oc = Some r \<and>
    malloc_res page_error top good h (live (A @ [(a, xs)])) req sz r"
  using append_block_spec [OF inv ok sz]
proof (elim disjE exE conjE)
  fix h' m' assume "append_block alloc a sz h m = Inr (0, h', m')" "good m'" "heap_inv h' (top m') (A @ [(a, xs)])"
    "minors h' = minors h" "bytes h' = bytes h"
  moreover from this have "malloc_res page_error top good h (live (A @ [(a, xs)])) req sz (Inr (0, h', m'))"
    by (auto simp: malloc_res_def same_live_def mlen_def mreq_def)
  ultimately show ?thesis by (simp add: oc)
next
  fix b h' m' assume "append_block alloc a sz h m = Inr (b, h', m')" "good m'" "b \<noteq> 0"
    "grown_by h (A @ [(a, xs)]) sz b (top m') h'"
  with K [of m' b h'] show ?thesis by (simp add: oc)
qed (auto simp: oc malloc_res_def)

lemma grown_found:
  assumes "good m" "grown_by h A sz n (top m) h'" "req + 32 \<le> sz" "sz + 24 < 2 ^ 32"
  shows "\<exists>r. go_on kcopy alloc best sz req (in_block alloc n started sz req h' m) = Some r \<and>
    malloc_res page_error top good h (live A) req sz r"
proof -
  from empty_block_found [OF assms(2-4), of started] obtain p h2 A' where
    f: "in_block alloc n started sz req h' m = Some (Inr (Found p h2 m))"
       "malloc_post h' (live A) req sz h2 (top m) A' p" "p \<noteq> 0" by blast
  then have "malloc_res page_error top good h' (live A) req sz (Inr (p, h2, m))"
    using assms(1) by (auto simp: malloc_res_def)
  moreover have "malloc_res page_error top good h' (live A) req sz (Inr (p, h2, m)) =
      malloc_res page_error top good h (live A) req sz (Inr (p, h2, m))"
    using assms(2) by (intro malloc_res_cong) (simp_all add: grown_by_def)
  ultimately show ?thesis using f(1) by (intro exI [of _ "Inr (p, h2, m)"]) simp
qed

text \<open>
  The look at a block ends the loop, or it leads on: to case 1 because there is not enough room,
  or to case 5 because there is no gap.
\<close>

lemma look_cases:
  assumes inv: "heap_inv h (top m) (A1 @ (a, xs) # A2)" and ok: "good m"
    and sz: "req + 32 \<le> sz" "sz + 24 < 2 ^ 32"
  obtains (entered) r where "block_loop kcopy alloc a started best sz req h m = Some r"
      "malloc_res page_error top good h (live (A1 @ (a, xs) # A2)) req sz r"
  | (leads) h1 best1 oc where "block_loop kcopy alloc a started best sz req h m = go_on kcopy alloc best1 sz req oc"
      "heap_inv h1 (top m) (A1 @ (a, xs) # A2)" "minors h1 = minors h" "bytes h1 = bytes h" "majors h1 = majors h"
      "oc = small_outcome kcopy alloc a started sz req h1 m \<or> oc = Some (case5 alloc a started sz h1 m)"
proof -
  let ?A = "A1 @ (a, xs) # A2"
  from inv_links [OF inv] obtain y where y: "majors h a = Some y"
    "mj_usage y = 24 + sum_list (map (mlen h) xs)" "mj_size y = jlen h a" "mj_usage y \<le> mj_size y" "mj_size y < 2 ^ 32"
    by auto
  define d where "d = sub32 (mj_size y) (mj_usage y)"
  have d: "d = mj_size y - mj_usage y" "add32 sz sz_minor = sz + 24"
    using y sz(2) by (simp_all add: sz_minor_def d_def)
  define h1 where "h1 = (if best < d then h\<lparr>bestBet := a\<rparr> else h)"
  have h1: "majors h1 = majors h" "minors h1 = minors h" "bytes h1 = bytes h" by (simp_all add: h1_def)
  have inv1: "heap_inv h1 (top m) ?A" using inv_best [OF inv, of a] by (simp add: h1_def)
  define best1 where "best1 = (if best < d then d else best)"
  have loop: "block_loop kcopy alloc a started best sz req h m = go_on kcopy alloc best1 sz req
      (if d < add32 sz sz_minor then small_outcome kcopy alloc a started sz req h1 m
       else in_block alloc a started sz req h1 m)"
    by (simp only: block_loop_eq [OF y(1) inv_block(2) [OF inv] d_def] h1_def best1_def Let_def)
  show ?thesis
  proof (cases "d < add32 sz sz_minor")
    case True
    then show ?thesis using loop
      by (intro leads [OF _ inv1 h1(2,3,1), of best1 "small_outcome kcopy alloc a started sz req h1 m"]) simp_all
  next
    case False
    have "jlen h1 a = mj_size y" using y(3) h1(1) by (simp add: jlen_def)
    then have room: "xs = [] \<longrightarrow> 48 + sz \<le> jlen h1 a" using False d y(2) by auto
    from in_block_spec [OF inv1 sz room, of alloc started m]
    obtain r where r: "in_block alloc a started sz req h1 m = Some r"
      "(\<exists>p h' A'. r = Inr (Found p h' m) \<and> malloc_post h1 (live ?A) req sz h' (top m) A' p \<and> p \<noteq> 0) \<or>
       r = case5 alloc a started sz h1 m" by blast
    from r(2) show ?thesis
    proof (elim disjE exE conjE)
      fix p h' A' assume p: "r = Inr (Found p h' m)" "malloc_post h1 (live ?A) req sz h' (top m) A' p" "p \<noteq> 0"
      then have "malloc_res page_error top good h1 (live ?A) req sz (Inr (p, h', m))"
        using ok by (auto simp: malloc_res_def)
      moreover have "malloc_res page_error top good h1 (live ?A) req sz (Inr (p, h', m)) =
          malloc_res page_error top good h (live ?A) req sz (Inr (p, h', m))"
        by (rule malloc_res_cong) (simp_all add: h1)
      ultimately show ?thesis using loop False r(1) p(1) by (intro entered [of "Inr (p, h', m)"]) simp_all
    next
      assume "r = case5 alloc a started sz h1 m"
      then show ?thesis using loop False r(1)
        by (intro leads [OF _ inv1 h1(2,3,1), of best1 "Some (case5 alloc a started sz h1 m)"]) simp_all
    qed
  qed
qed

text \<open>The loop from any block on, without and with \<open>startedBet\<close>.\<close>

lemma block_loop_from:
  assumes "heap_inv h (top m) (A1 @ (a, xs) # A2)" "good m" "req + 32 \<le> sz" "sz + 48 \<le> maxp * 4096"
  shows "\<exists>r. block_loop kcopy alloc a False best sz req h m = Some r \<and>
    malloc_res page_error top good h (live (A1 @ (a, xs) # A2)) req sz r"
  using assms(1)
proof (induction A2 arbitrary: A1 a xs h best)
  case Nil
  have sz: "sz + 24 < 2 ^ 32" using assms(4) maxp_bound(2) by linarith
  show ?case
  proof (rule look_cases [OF Nil assms(2,3) sz, where kcopy = kcopy and started = False and best = best], goal_cases)
    case leads: (2 h1 best1 oc)
    obtain y where y: "majors h1 a = Some y" "mj_next y = 0" using inv_links [OF leads(2)] by auto
    let ?A = "A1 @ [(a, xs)]"
    have "\<exists>r. go_on kcopy alloc best1 sz req oc = Some r \<and> malloc_res page_error top good h1 (live ?A) req sz r"
      using leads(6)
    proof
      assume oc: "oc = small_outcome kcopy alloc a False sz req h1 m"
      show ?thesis
      proof (rule append_done [OF leads(2) assms(2,4)])
        show "oc = (case append_block alloc a sz h1 m of Inl e \<Rightarrow> Some (Inl e)
            | Inr (n, h, m) \<Rightarrow> if n = 0 then Some (Inr (NoMemory h m)) else in_block alloc n False sz req h m)"
          unfolding oc by (rule look_append(1) [OF y])
      qed (rule grown_found [OF _ _ assms(3) sz])
    next
      assume oc: "oc = Some (case5 alloc a False sz h1 m)"
      show ?thesis
      proof (rule append_done [OF leads(2) assms(2,4)])
        show "oc = (case append_block alloc a sz h1 m of Inl e \<Rightarrow> Some (Inl e)
            | Inr (n, h, m) \<Rightarrow> if n = 0 then Some (Inr (NoMemory h m)) else Some (Inr (Look n False h m)))"
          unfolding oc by (rule look_append(2) [OF y])
      qed (unfold go_on_simps, rule block_loop_empty [OF _ _ assms(3) sz])
    qed
    then show ?thesis
      using malloc_res_cong [OF leads(3,4), of page_error top good "live ?A" req sz] by (simp add: leads(1))
  qed blast
next
  case (Cons b A2)
  have sz: "sz + 24 < 2 ^ 32" using assms(4) maxp_bound(2) by linarith
  show ?case
  proof (rule look_cases [OF Cons.prems assms(2,3) sz, where kcopy = kcopy and started = False and best = best], goal_cases)
    case leads: (2 h1 best1 oc)
    obtain b' ys where b: "b = (b', ys)" by (cases b)
    obtain y where y: "majors h1 a = Some y" "mj_next y = b'" "mj_next y \<noteq> a" "mj_next y \<noteq> 0"
      using inv_links [OF leads(2)] inv_next [OF leads(2)] b by auto
    have "block_loop kcopy alloc a False best sz req h m = block_loop kcopy alloc b' False best1 sz req h1 m"
      using leads(1,6) y(2) by (auto simp: look_next [OF y(1,4,3)])
    moreover have "heap_inv h1 (top m) ((A1 @ [(a, xs)]) @ (b', ys) # A2)" using leads(2) b by simp
    note Cons.IH [OF this, of best1]
    ultimately show ?thesis
      using b malloc_res_cong [OF leads(3,4), of page_error top good "live (A1 @ (a, xs) # b # A2)" req sz] by simp
  qed blast
qed

lemma block_loop_spec:
  assumes "heap_inv h (top m) (A1 @ (a, xs) # A2)" "good m" "req + 32 \<le> sz" "sz + 48 \<le> maxp * 4096"
  shows "\<exists>r. block_loop kcopy alloc a started best sz req h m = Some r \<and>
    malloc_res page_error top good h (live (A1 @ (a, xs) # A2)) req sz r"
proof (cases started)
  case True
  have sz: "sz + 24 < 2 ^ 32" using assms(4) maxp_bound(2) by linarith
  have "\<exists>r. block_loop kcopy alloc a True best sz req h m = Some r \<and>
      malloc_res page_error top good h (live (A1 @ (a, xs) # A2)) req sz r"
    using assms(1)
  proof (induction A2 arbitrary: A1 a xs h best)
    case Nil
    show ?case
    proof (rule look_cases [OF Nil assms(2,3) sz, where kcopy = kcopy and started = True and best = best], goal_cases)
      case leads: (2 h1 best1 oc)
      obtain y where y: "majors h1 a = Some y" "mj_next y = 0" using inv_links [OF leads(2)] by auto
      have e: "block_loop kcopy alloc a True best sz req h m = block_loop kcopy alloc (memRoot h1) False best1 sz req h1 m"
        using leads(1,6) by (auto simp: look_again [OF y])
      obtain c zs A3 where c: "A1 @ [(a, xs)] = [] @ (c, zs) # A3" by (cases A1) auto
      have "memRoot h1 = c" using leads(2) unfolding c by (simp add: heap_inv_def)
      with e block_loop_from [OF leads(2) [unfolded c] assms(2-4), of kcopy best1] show ?thesis
        unfolding c [symmetric] using malloc_res_cong [OF leads(3,4), of page_error top good "live (A1 @ [(a, xs)])" req sz]
        by simp
    qed blast
  next
    case (Cons b A2)
    show ?case
    proof (rule look_cases [OF Cons.prems assms(2,3) sz, where kcopy = kcopy and started = True and best = best], goal_cases)
      case leads: (2 h1 best1 oc)
      obtain b' ys where b: "b = (b', ys)" by (cases b)
      obtain y where y: "majors h1 a = Some y" "mj_next y = b'" "mj_next y \<noteq> a" "mj_next y \<noteq> 0"
        using inv_links [OF leads(2)] inv_next [OF leads(2)] b by auto
      have "block_loop kcopy alloc a True best sz req h m = block_loop kcopy alloc b' True best1 sz req h1 m"
        using leads(1,6) y(2) by (auto simp: look_next [OF y(1,4,3)])
      moreover have "heap_inv h1 (top m) ((A1 @ [(a, xs)]) @ (b', ys) # A2)" using leads(2) b by simp
      note Cons.IH [OF this, of best1]
      ultimately show ?thesis
        using b malloc_res_cong [OF leads(3,4), of page_error top good "live (A1 @ (a, xs) # b # A2)" req sz] by simp
    qed blast
  qed
  with True show ?thesis by simp
qed (use block_loop_from [OF assms] in simp)

subsection \<open>malloc\<close>

abbreviation "malloc_error kcopy e \<equiv> page_error e \<or> kcopy \<and> e = Panic ''Out of physical memory''"

lemma malloc_res_panic:
  assumes "malloc_res page_error top good h S req sz r"
  shows "malloc_res (malloc_error kcopy) top good h S req sz
    (rbind r (\<lambda>(p, h, m). if p = 0 \<and> kcopy then Inl (Panic ''Out of physical memory'') else Inr (p, h, m)))"
proof (cases r)
  case (Inr x)
  then show ?thesis using assms by (cases x) (simp add: malloc_res_def)
qed (use assms in \<open>simp add: malloc_res_def\<close>)

lemma start_block:
  assumes inv: "heap_inv h (top m) A" and A: "A \<noteq> []"
  shows "\<exists>maj started best. maj \<in> fst ` set A \<and>
    (if bestBet h \<noteq> 0 then
       rbind (maj_at h (bestBet h)) (\<lambda>y.
       let best = sub32 (mj_size y) (mj_usage y) in
       Inr (if best > add32 sz sz_minor then (bestBet h, True, best) else (memRoot h, False, best)))
     else Inr (memRoot h, False, 0)) = Inr (maj, started, best)"
proof -
  have root: "memRoot h \<in> fst ` set A" using inv A by (cases A) (auto simp: heap_inv_def)
  show ?thesis
  proof (cases "bestBet h = 0")
    case True
    with root show ?thesis by (intro exI [of _ "memRoot h"] exI [of _ False] exI [of _ 0]) simp
  next
    case False
    then obtain y where y: "majors h (bestBet h) = Some y" "bestBet h \<in> fst ` set A"
      using inv by (force simp: heap_inv_def block_ok_def)
    let ?best = "sub32 (mj_size y) (mj_usage y)"
    show ?thesis
    proof (cases "?best > add32 sz sz_minor")
      case True
      with y False show ?thesis
        by (intro exI [of _ "bestBet h"] exI [of _ True] exI [of _ ?best]) (simp add: maj_at_def Let_def)
    next
      case small: False
      with y root False show ?thesis
        by (intro exI [of _ "memRoot h"] exI [of _ False] exI [of _ ?best]) (simp add: maj_at_def Let_def)
    qed
  qed
qed

lemma malloc_size_old:
  assumes inv: "heap_inv h (top m) A" "A \<noteq> []" and ok: "good m" "req + 32 \<le> sz" "sz + 48 \<le> maxp * 4096"
  shows "\<exists>r. malloc_size kcopy alloc sz req h m = Some r \<and>
    malloc_res (malloc_error kcopy) top good h (live A) req sz r"
proof -
  have root: "memRoot h \<noteq> 0"
    using inv dll_nonzero by (cases A) (force simp: heap_inv_def)+
  obtain maj started best where st: "maj \<in> fst ` set A"
    "(if bestBet h \<noteq> 0 then
       rbind (maj_at h (bestBet h)) (\<lambda>y.
       let best = sub32 (mj_size y) (mj_usage y) in
       Inr (if best > add32 sz sz_minor then (bestBet h, True, best) else (memRoot h, False, best)))
     else Inr (memRoot h, False, 0)) = Inr (maj, started, best)"
    using start_block [OF inv] by blast
  then obtain xs where "(maj, xs) \<in> set A" by auto
  then obtain A1 A2 where A: "A = A1 @ (maj, xs) # A2" by (meson split_list)
  from block_loop_spec [OF inv(1) [unfolded A] ok, of kcopy started best] obtain r where
    r: "block_loop kcopy alloc maj started best sz req h m = Some r"
       "malloc_res page_error top good h (live A) req sz r" unfolding A by blast
  have "malloc_size kcopy alloc sz req h m = Some (rbind r (\<lambda>(p, h, m).
      if p = 0 \<and> kcopy then Inl (Panic ''Out of physical memory'') else Inr (p, h, m)))"
    unfolding malloc_size_def using root st(2) r(1) by simp
  with malloc_res_panic [OF r(2), of kcopy] show ?thesis by blast
qed

lemma malloc_size_new:
  assumes inv: "heap_inv h (top m) []" and ok: "good m" "req + 32 \<le> sz" "sz + 48 \<le> maxp * 4096"
  shows "\<exists>r. malloc_size kcopy alloc sz req h m = Some r \<and>
    malloc_res (malloc_error kcopy) top good h (live []) req sz r"
proof -
  have sz2: "sz + 24 < 2 ^ 32" using ok(3) maxp_bound(2) by linarith
  have root: "memRoot h = 0" "bestBet h = 0" using inv by (simp_all add: heap_inv_def)
  from new_page_spec [OF ok(1,3), of h] show ?thesis
  proof (elim disjE exE conjE)
    fix e n m' assume "allocate_new_page alloc sz h m = Inl e" "alloc n m' = Inl e"
    then show ?thesis by (auto simp: malloc_size_def root malloc_res_def)
  next
    fix m' assume n: "allocate_new_page alloc sz h m = Inr (0, h\<lparr>warnings := warnings h + 1\<rparr>, m')"
      "good m'" "top m \<le> top m'"
    define h' where "h' = h\<lparr>warnings := warnings h + 1, memRoot := 0\<rparr>"
    have "heap_inv h' (top m') []"
      using heap_inv_cong [OF inv] n(3) top_bound root by (simp add: h'_def)
    then have "malloc_res (malloc_error kcopy) top good h (live []) req sz (Inr (0, h', m'))"
      using n(2) by (auto simp: malloc_res_def same_live_def h'_def intro: exI [of _ "[]"])
    moreover have "malloc_size kcopy alloc sz req h m = Some (Inr (0, h', m'))"
      by (simp add: malloc_size_def root n(1) h'_def)
    ultimately show ?thesis by blast
  next
    fix b y c m' assume n: "allocate_new_page alloc sz h m = Inr (b, (put_maj b y h)\<lparr>l_allocated := c\<rparr>, m')"
      and b: "good m'" "b \<noteq> 0" "top m \<le> b" "b + mj_size y \<le> top m'" "sz + 48 \<le> mj_size y"
        "mj_usage y = 24" "mj_first y = 0" "mj_prev y = 0" "mj_next y = 0"
    define h' where "h' = (put_maj b y h)\<lparr>l_allocated := c, memRoot := b\<rparr>"
    have "y\<lparr>mj_prev := 0, mj_next := 0\<rparr> = y" using b(8,9) by (cases y) simp
    then have "add_block h (map fst []) b y h'" by (simp add: add_block_def h'_def put_maj_def)
    from grown_block [OF inv b(2-4) _ b(5-7) this] have g: "grown_by h [] sz b (top m') h'" using top_bound .
    from block_loop_empty [OF g b(1) ok(2) sz2, of kcopy False 0] obtain r where
      r: "block_loop kcopy alloc b False 0 sz req h' m' = Some r"
         "malloc_res page_error top good h (live []) req sz r" by blast
    have "bestBet h' = 0" using root by (simp add: h'_def put_maj_def)
    then have "malloc_size kcopy alloc sz req h m = Some (rbind r (\<lambda>(p, h, m).
        if p = 0 \<and> kcopy then Inl (Panic ''Out of physical memory'') else Inr (p, h, m)))"
      unfolding malloc_size_def using root b(2) n r(1) by (simp flip: h'_def)
    with malloc_res_panic [OF r(2), of kcopy] show ?thesis by blast
  qed
qed

lemma malloc_spec:
  assumes "heap_inv h (top m) A" "good m" "req + 80 \<le> maxp * 4096"
  shows "\<exists>r. malloc kcopy alloc req h m = Some r \<and>
    malloc_res (malloc_error kcopy) top good h (live A) req (req + 32) r"
proof -
  have "add32 req (ALIGNMENT + ALIGN_INFO) = req + 32"
    using assms(3) maxp_bound(2) by (simp add: ALIGNMENT_def ALIGN_INFO_def)
  then have e: "malloc kcopy alloc req h m = malloc_size kcopy alloc (req + 32) req h m"
    by (simp add: malloc_def)
  have sz: "req + 32 \<le> req + 32" "(req + 32) + 48 \<le> maxp * 4096" using assms(3) by simp_all
  show ?thesis
  proof (cases "A = []")
    case True
    show ?thesis unfolding e True by (rule malloc_size_new [OF assms(1) [unfolded True] assms(2) sz])
  qed (unfold e, rule malloc_size_old [OF assms(1) _ assms(2) sz])
qed

end

end
