(* ===== verification/HeapFree.thy ===== *)
theory HeapFree
  imports HeapMalloc
begin

section \<open>Releasing an allocation\<close>

text \<open>
  \<open>free\<close> on the pointer of an allocation of the heap: the allocation leaves the list of its block,
  and in the kernel a block that became empty leaves the list of blocks and its pages go back.
  All other allocations stay as they are.
\<close>

subsection \<open>Taking an allocation out of its block\<close>

lemma distinct_ends:
  assumes "distinct (xs @ n # ys)"
  shows "ys \<noteq> [] \<Longrightarrow> hd ys \<notin> set xs" "xs \<noteq> [] \<Longrightarrow> last xs \<notin> set ys"
proof -
  show "hd ys \<notin> set xs" if "ys \<noteq> []" using assms that by (cases ys) auto
  show "last xs \<notin> set ys" if "xs \<noteq> []" using assms last_in_set [OF that] by auto
qed

definition link_out ::
  "(nat \<Rightarrow> minor option) \<Rightarrow> nat list \<Rightarrow> nat list \<Rightarrow> nat \<Rightarrow> minor \<Rightarrow> nat \<Rightarrow> minor option" where
  "link_out \<mu> xs ys n dead =
     (let \<mu> = \<mu>(n := Some dead);
          \<mu> = (if ys = [] then \<mu> else \<mu>(hd ys := map_option (\<lambda>x. x\<lparr>mn_prev := lastp 0 xs\<rparr>) (\<mu> (hd ys)))) in
      if xs = [] then \<mu> else \<mu>(last xs := map_option (\<lambda>x. x\<lparr>mn_next := headp ys 0\<rparr>) (\<mu> (last xs))))"

definition unlinked ::
  "heap \<Rightarrow> nat \<Rightarrow> major \<Rightarrow> nat list \<Rightarrow> nat list \<Rightarrow> nat \<Rightarrow> minor \<Rightarrow> heap \<Rightarrow> bool" where
  "unlinked h a y xs ys n x h' \<longleftrightarrow>
     majors h' = (majors h)(a \<mapsto> y\<lparr>mj_usage := mj_usage y - (mn_size x + 24), mj_first := headp (xs @ ys) 0\<rparr>) \<and>
     minors h' = link_out (minors h) xs ys n (x\<lparr>mn_magic := LIBALLOC_DEAD\<rparr>) \<and>
     aligns h' = aligns h \<and> memRoot h' = memRoot h \<and> bestBet h' = bestBet h \<and> bytes h' = bytes h"

lemma unlink_eq:
  assumes ok: "block_ok h (a, xs @ n # ys)" and y: "majors h a = Some y" and x: "minors h n = Some x"
    and hi: "a + mj_size y < 2 ^ 32"
  shows "\<exists>h'. unlink_minor n x h = Inr h' \<and> unlinked h a y xs ys n x h'"
proof -
  from block_elem [OF ok y] x have x': "mn_next x = headp ys 0" "mn_prev x = lastp 0 xs" "n \<noteq> 0" "mn_block x = a"
    "distinct (xs @ n # ys)" "mlen h n = 24 + mn_size x" "n + mlen h n \<le> headp ys (a + mj_size y)"
    "headp ys (a + mj_size y) \<le> a + mj_size y" by auto
  have use: "mj_usage y = 24 + sum_list (map (mlen h) (xs @ n # ys))" "mj_first y = headp (xs @ n # ys) 0"
    and d: "dll (mnp h) (mnn h) 0 (xs @ n # ys) 0" and mo: "\<forall>z\<in>set (xs @ n # ys). minor_ok h a z"
    and f: "fits (mlen h) (a + 24) (a + mj_size y) (xs @ n # ys)"
    using ok y by (auto simp: block_ok_def)
  from fits_sum [OF f] use have u: "mn_size x + 24 \<le> mj_usage y" "mj_usage y \<le> mj_size y" using x'(6) by simp_all
  have s: "add32 (mn_size x) sz_minor = mn_size x + 24" using x'(6-8) hi by (simp add: sz_minor_def)
  have us: "sub32 (mj_usage y) (mn_size x + 24) = mj_usage y - (mn_size x + 24)" using u hi by simp
  have nz: "z \<noteq> 0" if "z \<in> set (xs @ n # ys)" for z using dll_nonzero [OF d that] .
  have ex: "\<exists>w. minors h z = Some w" if "z \<in> set (xs @ n # ys)" for z
    using mo that by (auto simp: minor_ok_def)
  have hy: "ys \<noteq> [] \<Longrightarrow> headp ys 0 = hd ys \<and> hd ys \<noteq> 0 \<and> hd ys \<noteq> n \<and> (\<exists>w. minors h (hd ys) = Some w)"
    using nz [of "hd ys"] ex [of "hd ys"] x'(5) by (cases ys) auto
  have lx: "xs \<noteq> [] \<Longrightarrow> lastp 0 xs = last xs \<and> last xs \<noteq> 0 \<and> last xs \<noteq> n \<and> (\<exists>w. minors h (last xs) = Some w)"
    using nz [of "last xs"] ex [of "last xs"] x'(5) by (auto simp: lastp_def)
  have sep: "xs \<noteq> [] \<Longrightarrow> ys \<noteq> [] \<Longrightarrow> last xs \<noteq> hd ys"
    using x'(5) by (metis IntI distinct_append empty_iff last_in_set list.set_intros(2) list.set_sel(1))
  have fst: "y\<lparr>mj_usage := w, mj_first := headp (xs @ ys) 0\<rparr> = y\<lparr>mj_usage := w\<rparr>" if "xs \<noteq> []" for w
    using use(2) that by (cases y; cases xs) auto
  show ?thesis
  proof (cases "ys = []")
    case True
    show ?thesis
    proof (cases "xs = []")
      case xs: True
      then show ?thesis using True x y x' s us
        by (simp add: unlink_minor_def upd_maj_def upd_min_def maj_at_def min_at_def put_maj_def put_min_def
            unlinked_def link_out_def)
    next
      case xs: False
      with True lx fst show ?thesis using x y x' s us
        by (auto simp: unlink_minor_def upd_maj_def upd_min_def maj_at_def min_at_def put_maj_def put_min_def
            unlinked_def link_out_def)
    qed
  next
    case False
    show ?thesis
    proof (cases "xs = []")
      case xs: True
      with False hy show ?thesis using x y x' s us
        by (auto simp: unlink_minor_def upd_maj_def upd_min_def maj_at_def min_at_def put_maj_def put_min_def
            unlinked_def link_out_def)
    next
      case xs: False
      with False hy lx sep fst show ?thesis using x y x' s us
        by (auto simp: unlink_minor_def upd_maj_def upd_min_def maj_at_def min_at_def put_maj_def put_min_def
            unlinked_def link_out_def)
    qed
  qed
qed

lemma unlinked_block:
  assumes ok: "block_ok h (a, xs @ n # ys)" and y: "majors h a = Some y" and x: "minors h n = Some x"
    and un: "unlinked h a y xs ys n x h'"
  shows "block_ok h' (a, xs @ ys)"
    "\<forall>z\<in>set (xs @ ys). z \<noteq> n \<and> mlen h' z = mlen h z \<and> mn_req (the (minors h' z)) = mn_req (the (minors h z))"
proof -
  let ?hi = "a + mj_size y"
  have ok': "mj_usage y = 24 + sum_list (map (mlen h) (xs @ n # ys))"
    "dll (mnp h) (mnn h) 0 (xs @ n # ys) 0" "fits (mlen h) (a + 24) ?hi (xs @ n # ys)"
    "\<forall>z\<in>set (xs @ n # ys). minor_ok h a z" "24 \<le> mj_size y"
    using ok y by (auto simp: block_ok_def)
  have len_n: "mlen h n = 24 + mn_size x" using x by (simp add: mlen_def)
  have dis: "distinct (xs @ n # ys)" using ok'(3) minor_ok_pos by (blast intro: fits_distinct)
  note hdy = distinct_ends(1) [OF dis] and lsx = distinct_ends(2) [OF dis]
  note E = un [unfolded unlinked_def]
  have old: "minors h' z = (if z = last xs \<and> xs \<noteq> [] then map_option (\<lambda>z. z\<lparr>mn_next := headp ys 0\<rparr>) (minors h z)
      else if z = hd ys \<and> ys \<noteq> [] then map_option (\<lambda>z. z\<lparr>mn_prev := lastp 0 xs\<rparr>) (minors h z) else minors h z)"
    if "z \<in> set (xs @ ys)" for z
    using E hdy lsx dis that by (auto simp: link_out_def Let_def)
  have ex: "\<exists>mn. minors h z = Some mn" if "z \<in> set (xs @ ys)" for z
    using ok'(4) that by (auto simp: minor_ok_def)
  have fields: "z \<noteq> n \<and> mlen h' z = mlen h z \<and> mn_req (the (minors h' z)) = mn_req (the (minors h z))"
    "mnp h' z = (if z \<in> set ys then if z = hd ys then lastp 0 xs else mnp h z else mnp h z)"
    "mnn h' z = (if z \<in> set xs then if z = last xs then headp ys 0 else mnn h z else mnn h z)"
    if z: "z \<in> set (xs @ ys)" for z
    using old [OF z] ex [OF z] hdy lsx z dis by (auto simp: mlen_def mnp_def mnn_def)
  then show "\<forall>z\<in>set (xs @ ys). z \<noteq> n \<and> mlen h' z = mlen h z \<and> mn_req (the (minors h' z)) = mn_req (the (minors h z))"
    by blast
  have lens: "\<forall>z\<in>set (xs @ ys). mlen h' z = mlen h z" using fields(1) by blast
  have "fits (mlen h') (a + 24) ?hi (xs @ ys)"
    using fits_remove [OF ok'(3)] lens fits_cong [of "xs @ ys" "mlen h'" "mlen h"] by simp
  moreover have "mj_usage y - (mn_size x + 24) = 24 + sum_list (map (mlen h') (xs @ ys))"
  proof -
    have "map (mlen h') xs = map (mlen h) xs" "map (mlen h') ys = map (mlen h) ys" using lens by auto
    then show ?thesis using ok'(1) len_n by (simp del: map_eq_conv)
  qed
  moreover have "dll (mnp h') (mnn h') 0 (xs @ ys) 0"
  proof -
    have d: "dll (mnp h) (mnn h) 0 xs n" "dll (mnp h) (mnn h) n ys 0"
      using ok'(2) by (simp_all add: dll_append)
    have "dll (mnp h') (mnn h') 0 xs (headp ys 0)"
    proof (subst dll_cong)
      show "dll (mnp h) (if xs = [] then mnn h else (mnn h)(last xs := headp ys 0)) 0 xs (headp ys 0)"
        by (rule dll_set_next [OF d(1)]) (use dis in simp)
      show "\<forall>z\<in>set xs. mnp h' z = mnp h z \<and> mnn h' z = (if xs = [] then mnn h else (mnn h)(last xs := headp ys 0)) z"
        using fields(2,3) dis by auto
    qed
    moreover have "dll (mnp h') (mnn h') (lastp 0 xs) ys 0"
    proof (subst dll_cong)
      show "dll (if ys = [] then mnp h else (mnp h)(hd ys := lastp 0 xs)) (mnn h) (lastp 0 xs) ys 0"
        by (rule dll_set_prev [OF d(2)]) (use dis in simp)
      show "\<forall>z\<in>set ys. mnp h' z = (if ys = [] then mnp h else (mnp h)(hd ys := lastp 0 xs)) z \<and> mnn h' z = mnn h z"
        using fields(2,3) dis by auto
    qed
    ultimately show ?thesis by (simp add: dll_append)
  qed
  moreover have "minor_ok h' a z" if z: "z \<in> set (xs @ ys)" for z
  proof -
    obtain mn where mn: "minors h z = Some mn" "mn_block mn = a" "mn_magic mn = LIBALLOC_MAGIC"
        "mn_req mn + 32 \<le> mn_size mn" "aligns h (p_of z - 16) = Some (p_of z - (z + 24))"
      using ok'(4) z unfolding minor_ok_def by auto
    moreover from old [OF z] mn(1) obtain mn' where "minors h' z = Some mn'" "mn_block mn' = mn_block mn"
        "mn_magic mn' = mn_magic mn" "mn_req mn' = mn_req mn" "mn_size mn' = mn_size mn"
      by (auto split: if_splits)
    ultimately show ?thesis using E unfolding minor_ok_def by simp
  qed
  ultimately show "block_ok h' (a, xs @ ys)" using ok'(5) E by (simp add: block_ok_def)
qed

lemma unlinked_inv:
  assumes inv: "heap_inv h tp (A1 @ (a, xs @ n # ys) # A2)" and y: "majors h a = Some y" and x: "minors h n = Some x"
    and un: "unlinked h a y xs ys n x h'"
  shows "heap_inv h' tp (A1 @ (a, xs @ ys) # A2)"
    "same_live h h' (live (A1 @ (a, xs @ ys) # A2))" "n \<notin> live (A1 @ (a, xs @ ys) # A2)"
proof -
  note b = inv_block [OF inv]
  note u = unlinked_block [OF b(1) y x un]
  note E = un [unfolded unlinked_def]
  have reg: "a + 24 \<le> z \<and> z < a + jlen h a" if "z \<in> set (xs @ n # ys)" for z
    using block_region(1-3) [OF b(1) that] by simp
  have n: "a + 24 \<le> n" "n < a + jlen h a" using reg [of n] by simp_all
  have lx: "xs \<noteq> [] \<Longrightarrow> last xs \<in> set (xs @ n # ys)" and hy: "ys \<noteq> [] \<Longrightarrow> hd ys \<in> set (xs @ n # ys)" by simp_all
  have out: "minors h' z = minors h z" if "z < a \<or> a + jlen h a \<le> z" for z
  proof -
    from that have "z \<noteq> n" "xs \<noteq> [] \<Longrightarrow> z \<noteq> last xs" "ys \<noteq> [] \<Longrightarrow> z \<noteq> hd ys"
      using n reg [OF lx] reg [OF hy] by auto
    then show ?thesis using E by (auto simp: link_out_def Let_def)
  qed
  show "heap_inv h' tp (A1 @ (a, xs @ ys) # A2)"
  proof (rule inv_replace [OF inv u(1)])
    show "majors h' b = majors h b" if "b \<noteq> a" for b using that E by simp
    show "majors h a = Some y" by (rule y)
    show "majors h' a = Some (y\<lparr>mj_usage := mj_usage y - (mn_size x + 24), mj_first := headp (xs @ ys) 0\<rparr>)"
      using E by simp
  qed (use E out in simp_all)
  have other: "minors h' z = minors h z \<and> z \<noteq> n" if "z \<in> live (A1 @ A2)" for z
  proof -
    from that obtain c zs where c: "(c, zs) \<in> set (A1 @ A2)" "z \<in> set zs" unfolding live_def by force
    then have r: "c + 24 \<le> z" "z + mlen h z \<le> c + jlen h c" using live_block [OF inv, of c zs z] by auto
    have "z < a \<or> a + jlen h a \<le> z" using b(5) [OF c(1)] r minor_ok_pos [of h z] by auto
    with out n show ?thesis by auto
  qed
  have "same_live h h' (live (A1 @ A2))"
    using other E by (simp add: same_live_def mlen_def mreq_def)
  moreover have "same_live h h' (set (xs @ ys))" using u(2) E by (simp add: same_live_def mreq_def)
  ultimately show "same_live h h' (live (A1 @ (a, xs @ ys) # A2))" by (auto simp: same_live_def)
  show "n \<notin> live (A1 @ (a, xs @ ys) # A2)" using other u(2) by auto
qed

subsection \<open>Taking a block out\<close>

definition drop_major :: "(nat \<Rightarrow> major option) \<Rightarrow> nat list \<Rightarrow> nat list \<Rightarrow> nat \<Rightarrow> nat \<Rightarrow> major option" where
  "drop_major \<mu> as bs a =
     (let \<mu> = (if as = [] then \<mu> else \<mu>(last as := map_option (\<lambda>y. y\<lparr>mj_next := headp bs 0\<rparr>) (\<mu> (last as))));
          \<mu> = (if bs = [] then \<mu> else \<mu>(hd bs := map_option (\<lambda>y. y\<lparr>mj_prev := lastp 0 as\<rparr>) (\<mu> (hd bs)))) in
      \<mu>(a := None))"

lemma dropped_inv:
  assumes inv: "heap_inv h tp (A1 @ (a, xs) # A2)"
    and maj: "majors h' = drop_major (majors h) (map fst A1) (map fst A2) a"
    and out: "\<And>z. z < a \<or> a + jlen h a \<le> z \<Longrightarrow> minors h' z = minors h z \<and> aligns h' z = aligns h z"
    and root: "memRoot h' = headp (map fst (A1 @ A2)) 0" and best: "bestBet h' = 0 \<or> bestBet h' \<in> fst ` set (A1 @ A2)"
  shows "heap_inv h' tp (A1 @ A2)"
proof -
  define as bs where ab: "as = map fst A1" "bs = map fst A2"
  note maj' = maj [folded ab]
  note b = inv_block [OF inv]
  have "distinct (map fst (A1 @ (a, xs) # A2))" by (rule inv_distinct [OF inv])
  then have dis: "distinct (as @ a # bs)" by (simp add: ab)
  note hd = distinct_ends(1) [OF dis] and ls = distinct_ends(2) [OF dis]
  have ok: "\<forall>c\<in>set (A1 @ A2). block_ok h c" using inv by (simp add: heap_inv_def)
  then have ex: "\<exists>y. majors h c = Some y" if "c \<in> set (as @ bs)" for c
    using that by (force simp: block_ok_def ab)
  have old: "majors h' c = (if c = last as \<and> as \<noteq> [] then map_option (\<lambda>y. y\<lparr>mj_next := headp bs 0\<rparr>) (majors h c)
      else if c = hd bs \<and> bs \<noteq> [] then map_option (\<lambda>y. y\<lparr>mj_prev := lastp 0 as\<rparr>) (majors h c) else majors h c)"
    if "c \<in> set (as @ bs)" for c
  proof -
    have "c \<noteq> a" using that dis by auto
    then show ?thesis using maj' hd ls that by (auto simp: drop_major_def Let_def)
  qed
  have fields: "jlen h' c = jlen h c"
    "jprev h' c = (if c \<in> set bs then if c = hd bs then lastp 0 as else jprev h c else jprev h c)"
    "jnext h' c = (if c \<in> set as then if c = last as then headp bs 0 else jnext h c else jnext h c)"
    if c: "c \<in> set (as @ bs)" for c
    using old [OF c] ex [OF c] hd ls c by (auto simp: jlen_def jprev_def jnext_def)
  have d: "dll (jprev h) (jnext h) 0 as a" "dll (jprev h) (jnext h) a bs 0"
    using inv by (simp_all add: heap_inv_def dll_append ab)
  have "dll (jprev h') (jnext h') 0 as (headp bs 0)"
  proof (subst dll_cong)
    show "dll (jprev h) (if as = [] then jnext h else (jnext h)(last as := headp bs 0)) 0 as (headp bs 0)"
      by (rule dll_set_next [OF d(1)]) (use dis in simp)
    show "\<forall>z\<in>set as. jprev h' z = jprev h z \<and>
        jnext h' z = (if as = [] then jnext h else (jnext h)(last as := headp bs 0)) z"
      using fields(2,3) dis by auto
  qed
  moreover have "dll (jprev h') (jnext h') (lastp 0 as) bs 0"
  proof (subst dll_cong)
    show "dll (if bs = [] then jprev h else (jprev h)(hd bs := lastp 0 as)) (jnext h) (lastp 0 as) bs 0"
      by (rule dll_set_prev [OF d(2)]) (use dis in simp)
    show "\<forall>z\<in>set bs. jprev h' z = (if bs = [] then jprev h else (jprev h)(hd bs := lastp 0 as)) z \<and>
        jnext h' z = jnext h z"
      using fields(2,3) dis by auto
  qed
  ultimately have dll: "dll (jprev h') (jnext h') 0 (map fst (A1 @ A2)) 0" by (simp add: dll_append ab)
  have "fits (jlen h) 1 tp (as @ a # bs)" using inv by (simp add: heap_inv_def ab)
  from fits_remove [OF this] have fits: "fits (jlen h') 1 tp (map fst (A1 @ A2))"
    using fields(1) fits_cong [of "map fst (A1 @ A2)" "jlen h'" "jlen h"] by (simp add: ab)
  have "block_ok h' (c, zs)" if c: "(c, zs) \<in> set (A1 @ A2)" for c zs
  proof -
    have ca: "c \<in> set (as @ bs)" using c by (force simp: ab)
    obtain z where z: "majors h c = Some z" using ex [OF ca] by blast
    define h1 where "h1 = h\<lparr>minors := minors h', aligns := aligns h'\<rparr>"
    have fr: "block_ok h1 (c, zs)"
    proof (rule block_ok_frame)
      show "block_ok h (c, zs)" using ok c by blast
      show "minors h1 w = minors h w \<and> aligns h1 w = aligns h w" if "c \<le> w" "w < c + jlen h c" for w
        using out [of w] b(5) [OF c] that by (auto simp: h1_def)
    qed (simp add: h1_def)
    from old [OF ca] z obtain z' where z': "majors h' c = Some z'" "mj_size z' = mj_size z"
      "mj_first z' = mj_first z" "mj_usage z' = mj_usage z" by (auto split: if_splits)
    have "majors h1 c = Some z" using z by (simp add: h1_def)
    then show ?thesis by (rule block_ok_links [OF fr _ z']) (simp_all add: h1_def)
  qed
  then have "\<forall>c\<in>set (A1 @ A2). block_ok h' c" by fast
  with dll fits root best b(4) show ?thesis unfolding heap_inv_def by blast
qed

lemma inv_major:
  assumes "heap_inv h tp A" "c \<in> set (map fst A)"
  shows "\<exists>z. majors h c = Some z" "c \<noteq> 0"
proof -
  obtain zs where "(c, zs) \<in> set A" using assms(2) by auto
  with assms(1) have "block_ok h (c, zs)" unfolding heap_inv_def by blast
  then show "\<exists>z. majors h c = Some z" by (auto simp: block_ok_def)
  have "dll (jprev h) (jnext h) 0 (map fst A) 0" using assms(1) by (simp add: heap_inv_def)
  then show "c \<noteq> 0" using assms(2) by (rule dll_nonzero)
qed

lemma release_eq:
  assumes inv: "heap_inv h tp (A1 @ (a, []) # A2)" and y: "majors h a = Some y"
  shows "\<exists>h1. release_block give a y h m = rbind (give a (mj_pages y) m) (\<lambda>m. Inr (forget_block a (mj_size y) h1, m)) \<and>
    (majors h1)(a := None) = drop_major (majors h) (map fst A1) (map fst A2) a \<and> minors h1 = minors h \<and>
    aligns h1 = aligns h \<and> bytes h1 = bytes h \<and>
    memRoot h1 = (if memRoot h = a then mj_next y else memRoot h) \<and>
    bestBet h1 = (if bestBet h = a then 0 else bestBet h)"
proof -
  define as bs where ab: "as = map fst A1" "bs = map fst A2"
  from inv_links [OF inv] y have l: "mj_next y = headp bs 0" "mj_prev y = lastp 0 as" by (auto simp: ab)
  have dis: "distinct (as @ a # bs)" using inv_distinct [OF inv] by (simp add: ab)
  have ex: "(\<exists>z. majors h c = Some z) \<and> c \<noteq> 0 \<and> c \<noteq> a" if "c \<in> set (as @ bs)" for c
    using inv_major [OF inv, of c] that dis by (auto simp: ab)
  have la: "as \<noteq> [] \<Longrightarrow> (\<exists>z. majors h (last as) = Some z) \<and> last as \<noteq> 0 \<and> last as \<noteq> a" using ex [of "last as"] by simp
  have hb: "bs \<noteq> [] \<Longrightarrow> (\<exists>z. majors h (hd bs) = Some z) \<and> hd bs \<noteq> 0 \<and> hd bs \<noteq> a" using ex [of "hd bs"] by simp
  define hr where "hr = h\<lparr>memRoot := if memRoot h = a then mj_next y else memRoot h,
    bestBet := if bestBet h = a then 0 else bestBet h\<rparr>"
  define h2 where "h2 = (if as = [] then hr
    else put_maj (last as) ((the (majors h (last as)))\<lparr>mj_next := mj_next y\<rparr>) hr)"
  define h3 where "h3 = (if bs = [] then h2
    else put_maj (hd bs) ((the (majors h2 (hd bs)))\<lparr>mj_prev := mj_prev y\<rparr>) h2)"
  have s1: "(if mj_prev y \<noteq> 0 then upd_maj hr (mj_prev y) (\<lambda>z. z\<lparr>mj_next := mj_next y\<rparr>) else Inr hr) = Inr h2"
    using la l(2) by (auto simp: h2_def hr_def lastp_def upd_maj_def maj_at_def put_maj_def)
  have e2: "\<exists>z. majors h2 c = Some z" if "c \<in> set (as @ bs)" for c
    using ex [OF that] la by (auto simp: h2_def hr_def put_maj_def)
  have s2: "(if mj_next y \<noteq> 0 then upd_maj h2 (mj_next y) (\<lambda>z. z\<lparr>mj_prev := mj_prev y\<rparr>) else Inr h2) = Inr h3"
    using e2 [of "hd bs"] hb l(1) by (cases bs) (auto simp: h3_def upd_maj_def maj_at_def put_maj_def)
  have m2: "majors h2 = (if as = [] then majors h
      else (majors h)(last as := map_option (\<lambda>y. y\<lparr>mj_next := headp bs 0\<rparr>) (majors h (last as))))"
    using la l by (auto simp: h2_def hr_def put_maj_def)
  have m3: "majors h3 = (if bs = [] then majors h2
      else (majors h2)(hd bs := map_option (\<lambda>y. y\<lparr>mj_prev := lastp 0 as\<rparr>) (majors h2 (hd bs))))"
    using e2 [of "hd bs"] l by (auto simp: h3_def put_maj_def)
  have "(majors h3)(a := None) = drop_major (majors h) as bs a"
    unfolding m3 m2 drop_major_def Let_def by simp
  moreover have "release_block give a y h m =
      rbind (give a (mj_pages y) m) (\<lambda>m. Inr (forget_block a (mj_size y) (h3\<lparr>l_allocated := l_allocated h3 - of_nat (mj_size y)\<rparr>), m))"
  proof -
    have "release_block give a y h m =
        rbind (if mj_prev y \<noteq> 0 then upd_maj hr (mj_prev y) (\<lambda>z. z\<lparr>mj_next := mj_next y\<rparr>) else Inr hr) (\<lambda>h.
        rbind (if mj_next y \<noteq> 0 then upd_maj h (mj_next y) (\<lambda>z. z\<lparr>mj_prev := mj_prev y\<rparr>) else Inr h) (\<lambda>h.
        rbind (give a (mj_pages y) m) (\<lambda>m.
        Inr (forget_block a (mj_size y) (h\<lparr>l_allocated := l_allocated h - of_nat (mj_size y)\<rparr>), m))))"
      unfolding release_block_def Let_def hr_def by (cases "memRoot h = a"; cases "bestBet h = a"; simp)
    then show ?thesis by (simp only: s1 s2 rbind_Inr)
  qed
  ultimately show ?thesis
    by (intro exI [of _ "h3\<lparr>l_allocated := l_allocated h3 - of_nat (mj_size y)\<rparr>"])
      (simp add: h3_def h2_def hr_def put_maj_def flip: ab)
qed

lemma release_inv:
  assumes inv: "heap_inv h tp (A1 @ (a, []) # A2)" and y: "majors h a = Some y"
    and r: "release_block give a y h m = Inr (h', m')"
  shows "heap_inv h' tp (A1 @ A2) \<and> same_live h h' (live (A1 @ A2)) \<and> give a (mj_pages y) m = Inr m'"
proof -
  from release_eq [OF inv y, of give m] obtain h1 where
    e: "release_block give a y h m = rbind (give a (mj_pages y) m) (\<lambda>m. Inr (forget_block a (mj_size y) h1, m))"
    and maj: "(majors h1)(a := None) = drop_major (majors h) (map fst A1) (map fst A2) a" "minors h1 = minors h"
      "aligns h1 = aligns h" "bytes h1 = bytes h" "memRoot h1 = (if memRoot h = a then mj_next y else memRoot h)"
      "bestBet h1 = (if bestBet h = a then 0 else bestBet h)" by blast
  from r e have h': "h' = forget_block a (mj_size y) h1" and g: "give a (mj_pages y) m = Inr m'"
    by (auto simp: rbind_eq_Inr)
  note b = inv_block [OF inv]
  have len: "jlen h a = mj_size y" using y by (simp add: jlen_def)
  have "heap_inv h' tp (A1 @ A2)"
  proof (rule dropped_inv [OF inv])
    show "majors h' = drop_major (majors h) (map fst A1) (map fst A2) a"
      using maj(1) by (simp add: h' forget_block_def)
    show "minors h' z = minors h z \<and> aligns h' z = aligns h z" if "z < a \<or> a + jlen h a \<le> z" for z
      using that maj(2,3) by (auto simp: h' forget_block_def len)
    have root: "memRoot h = headp (map fst A1) a" using inv by (simp add: heap_inv_def headp_append)
    have nxt: "mj_next y = headp (map fst A2) 0" using inv_links [OF inv] y by auto
    have "headp (map fst A1) a = a \<longleftrightarrow> A1 = []" using b(6) by (cases A1) auto
    then show "memRoot h' = headp (map fst (A1 @ A2)) 0"
      using root nxt maj(5) by (cases A1) (simp_all add: h' forget_block_def)
    have "bestBet h = 0 \<or> bestBet h \<in> fst ` set (A1 @ (a, []) # A2)" using inv by (simp add: heap_inv_def)
    then show "bestBet h' = 0 \<or> bestBet h' \<in> fst ` set (A1 @ A2)"
      using maj(6) by (auto simp: h' forget_block_def)
  qed
  moreover have "same_live h h' (live (A1 @ A2))"
  proof -
    have "minors h' z = minors h z" if z: "z \<in> live (A1 @ A2)" for z
    proof -
      from z obtain c zs where c: "(c, zs) \<in> set (A1 @ A2)" "z \<in> set zs" unfolding live_def by force
      then have "c + 24 \<le> z" "z + mlen h z \<le> c + jlen h c" using live_block [OF inv, of c zs z] by auto
      then have "z < a \<or> a + jlen h a \<le> z" using b(5) [OF c(1)] minor_ok_pos [of h z] by auto
      then show ?thesis using maj(2) by (auto simp: h' forget_block_def len)
    qed
    then show ?thesis using maj(4) by (simp add: same_live_def mlen_def mreq_def h' forget_block_def)
  qed
  ultimately show ?thesis using g by blast
qed

lemma release_err:
  assumes inv: "heap_inv h tp (A1 @ (a, []) # A2)" and y: "majors h a = Some y"
    and r: "release_block give a y h m = Inl e"
  shows "give a (mj_pages y) m = Inl e"
  using release_eq [OF inv y, of give m] r by (cases "give a (mj_pages y) m") auto

subsection \<open>free\<close>

lemma better_bet_inv:
  assumes inv: "heap_inv h tp A" and a: "a \<in> set (map fst A)"
  shows "\<exists>h'. better_bet a y h = Inr h' \<and> heap_inv h' tp A \<and> minors h' = minors h \<and> bytes h' = bytes h"
proof (cases "bestBet h = 0")
  case False
  then have "bestBet h \<in> set (map fst A)" using inv by (auto simp: heap_inv_def)
  from inv_major(1) [OF inv this] obtain z where z: "majors h (bestBet h) = Some z" by blast
  have "better_bet a y h = Inr (if int32 (sub32 (mj_size y) (mj_usage y)) > int32 (sub32 (mj_size z) (mj_usage z))
      then h\<lparr>bestBet := a\<rparr> else h)"
    using False z by (simp add: better_bet_def maj_at_def)
  then show ?thesis using inv_best [OF inv, of a] a by simp
qed (use inv in \<open>simp add: better_bet_def\<close>)

text \<open>What a release that does not fail leaves behind.\<close>

definition freed :: "heap \<Rightarrow> nat set \<Rightarrow> nat \<Rightarrow> heap \<Rightarrow> nat \<Rightarrow> bool" where
  "freed h S n h' tp \<longleftrightarrow> (\<exists>A'. heap_inv h' tp A' \<and> live A' = S - {n} \<and> same_live h h' (S - {n}))"

lemma same_live_trans:
  "same_live h1 h2 S \<Longrightarrow> same_live h2 h3 S \<Longrightarrow> same_live h1 h3 S"
  by (simp add: same_live_def)

lemma same_live_minors: "minors h' = minors h \<Longrightarrow> bytes h' = bytes h \<Longrightarrow> same_live h h' S"
  by (simp add: same_live_def mlen_def mreq_def)

lemma unalign_eq:
  assumes inv: "heap_inv h tp (A1 @ (a, xs @ n # ys) # A2)"
  obtains x where "minors h n = Some x" "mn_magic x = LIBALLOC_MAGIC" "UNALIGN (p_of n) h = Inr (n + 24)"
    "n + 24 < 2 ^ 32" "mn_block x = a"
proof -
  note b = inv_block [OF inv]
  have "minor_ok h a n" using b(1) by (auto simp: block_ok_def)
  then obtain x where x: "minors h n = Some x" "mn_block x = a" "mn_magic x = LIBALLOC_MAGIC"
    "aligns h (p_of n - 16) = Some (p_of n - (n + 24))" "mn_req x + 32 \<le> mn_size x"
    unfolding minor_ok_def by blast
  have lt: "p_of n < 2 ^ 32"
    using block_region(2) [OF b(1), of n] b(3,4) p_of_bounds(2) [of n] x(1,5) by (simp add: mlen_def)
  have "UNALIGN (p_of n) h = Inr (n + 24)"
    using x(4) p_of_bounds(1,2) [of n] lt by (simp add: UNALIGN_def ALIGN_INFO_def ALIGNMENT_def)
  moreover have "n + 24 < 2 ^ 32" using lt p_of_bounds(1) [of n] by simp
  ultimately show ?thesis using x that by blast
qed

lemma free_eq:
  assumes inv: "heap_inv h tp (A1 @ (a, xs @ n # ys) # A2)"
  obtains x where "minors h n = Some x" "mn_block x = a"
    "free kcopy give (p_of n) h m = free_minor kcopy give n x h m"
proof -
  obtain x where x: "minors h n = Some x" "mn_magic x = LIBALLOC_MAGIC" "UNALIGN (p_of n) h = Inr (n + 24)"
    "n + 24 < 2 ^ 32" "mn_block x = a" by (rule unalign_eq [OF inv])
  then have "free kcopy give (p_of n) h m = free_minor kcopy give n x h m"
    using p_of_bounds(1) [of n] by (simp add: free_def sz_minor_def min_at_def)
  with x that show ?thesis by blast
qed

context page_source
begin

lemma free_spec:
  assumes inv: "heap_inv h (top m) A" and n: "n \<in> live A" and ok: "good m"
  shows "(\<exists>e. free kcopy give (p_of n) h m = Inl e \<and> (\<exists>q k. give q k m = Inl e)) \<or>
    (\<exists>h' m'. free kcopy give (p_of n) h m = Inr (h', m') \<and> good m' \<and> top m' = top m \<and>
       freed h (live A) n h' (top m))"
proof -
  obtain a zs where a: "(a, zs) \<in> set A" "n \<in> set zs" using n unfolding live_def by force
  obtain xs ys where zs: "zs = xs @ n # ys" using split_list [OF a(2)] by blast
  obtain A1 A2 where "A = A1 @ (a, zs) # A2" using split_list [OF a(1)] by blast
  then have A: "A = A1 @ (a, xs @ n # ys) # A2" by (simp add: zs)
  note inv' = inv [unfolded A]
  obtain x where x: "minors h n = Some x" "mn_block x = a"
    "free kcopy give (p_of n) h m = free_minor kcopy give n x h m" by (rule free_eq [OF inv'])
  note b = inv_block [OF inv']
  obtain y where y: "majors h a = Some y" using b(1) by (auto simp: block_ok_def)
  have hi: "a + mj_size y < 2 ^ 32" using b(3,4) y by (simp add: jlen_def)
  from unlink_eq [OF b(1) y x(1) hi] obtain h1 where h1: "unlink_minor n x h = Inr h1"
    "unlinked h a y xs ys n x h1" by blast
  note u = unlinked_inv [OF inv' y x(1) h1(2)]
  let ?B = "A1 @ (a, xs @ ys) # A2"
  have S: "live ?B = live A - {n}" using u(3) by (auto simp: A)
  define y1 where "y1 = y\<lparr>mj_usage := mj_usage y - (mn_size x + 24), mj_first := headp (xs @ ys) 0\<rparr>"
  have y1: "majors h1 a = Some y1" using h1(2) by (simp add: unlinked_def y1_def)
  have e: "free_minor kcopy give n x h m =
      (if headp (xs @ ys) 0 = 0 then if kcopy then release_block give a y1 h1 m else Inr (h1, m)
       else rbind (better_bet a y1 h1) (\<lambda>h. Inr (h, m)))"
    using h1(1) x(2) y1 by (simp add: free_minor_def maj_at_def y1_def)
  have empty: "headp (xs @ ys) 0 = 0 \<longleftrightarrow> xs @ ys = []"
  proof -
    have "dll (mnp h1) (mnn h1) 0 (xs @ ys) 0" using inv_block(1) [OF u(1)] by (auto simp: block_ok_def)
    then show ?thesis by (cases "xs @ ys") auto
  qed
  have kept: "freed h (live A) n h' (top m)" if "heap_inv h' (top m) ?B" "same_live h1 h' (live ?B)" for h'
    unfolding freed_def S [symmetric] using that u(2) same_live_trans by blast
  show ?thesis
  proof (cases "xs @ ys = []")
    case False
    have "a \<in> set (map fst ?B)" by simp
    from better_bet_inv [OF u(1) this] obtain h2 where
      "better_bet a y1 h1 = Inr h2" "heap_inv h2 (top m) ?B" "minors h2 = minors h1" "bytes h2 = bytes h1" by blast
    then have "freed h (live A) n h2 (top m)" by (intro kept) (simp_all add: same_live_minors)
    moreover have "free kcopy give (p_of n) h m = Inr (h2, m)"
      using x(3) e empty False \<open>better_bet a y1 h1 = Inr h2\<close> by auto
    ultimately show ?thesis using ok by simp
  next
    case True
    show ?thesis
    proof (cases kcopy)
      case False
      have "freed h (live A) n h1 (top m)" by (intro kept u(1)) (simp add: same_live_minors)
      moreover have "free kcopy give (p_of n) h m = Inr (h1, m)" using x(3) e empty True False by simp
      ultimately show ?thesis using ok by simp
    next
      case k: True
      have inv1: "heap_inv h1 (top m) (A1 @ (a, []) # A2)" using u(1) True by simp
      have L: "live (A1 @ A2) = live A - {n}" using S True by simp
      have run: "free kcopy give (p_of n) h m = release_block give a y1 h1 m" using x(3) e empty True k by simp
      show ?thesis
      proof (cases "release_block give a y1 h1 m")
        case (Inl r)
        with release_err [OF inv1 y1 Inl] run show ?thesis by auto
      next
        case (Inr r)
        obtain h' m' where r: "r = (h', m')" by (cases r)
        from release_inv [OF inv1 y1 Inr [unfolded r]]
        have h': "heap_inv h' (top m) (A1 @ A2)" "same_live h1 h' (live (A1 @ A2))" "give a (mj_pages y1) m = Inr m'"
          by blast+
        have "freed h (live A) n h' (top m)"
          unfolding freed_def L [symmetric] using h'(1,2) u(2) True same_live_trans by fastforce
        with give_top [OF ok h'(3)] Inr r run show ?thesis by simp
      qed
    qed
  qed
qed

end

end
