(* ===== verification/HeapPages.thy ===== *)
theory HeapPages
  imports HeapFree
begin

section \<open>The two heaps\<close>

text \<open>
  The kernel's heap, \<open>kmalloc\<close> and \<open>kfree\<close>, over the page back end of
  \<open>kernel/kernel/mem/liballoc-vmm.c\<close>, and the heap of a user program, \<open>malloc\<close> and \<open>free\<close>
  over \<open>sbrk\<close> (\<open>libc/malloc/liballoc-sys.c\<close>, \<open>libc/unistd/brk.c\<close>). Both back ends are
  shown to be page sources, so that what \<open>HeapMalloc\<close> and \<open>HeapFree\<close> prove holds for both.
\<close>

subsection \<open>The kernel's pages\<close>

definition k_alloc :: "mem page_alloc" where
  "k_alloc n m = rbind (liballoc_alloc m n) (\<lambda>(p, m). Inr (unat p, m))"

definition k_give :: "mem page_free" where
  "k_give a n m = rbind (liballoc_free m (of_nat a) n) (\<lambda>(r, m). Inr m)"

definition k_top :: "mem \<Rightarrow> nat" where "k_top m = unat (end_mapped_kmemory m)"

definition k_good :: "mem \<Rightarrow> bool" where "k_good m \<longleftrightarrow> end_mapped_kmemory m < 0xFFC00000"

definition kmalloc :: "nat \<Rightarrow> heap \<Rightarrow> mem \<Rightarrow> (nat \<times> heap \<times> mem) res option" where
  "kmalloc req h m = malloc True k_alloc req h m"

definition kfree :: "nat \<Rightarrow> heap \<Rightarrow> mem \<Rightarrow> (heap \<times> mem) res" where
  "kfree p h m = free True k_give p h m"

definition krealloc :: "nat \<Rightarrow> nat \<Rightarrow> heap \<Rightarrow> mem \<Rightarrow> (nat \<times> heap \<times> mem) res option" where
  "krealloc p sz h m = realloc True k_alloc k_give p sz h m"

definition kcalloc :: "nat \<Rightarrow> nat \<Rightarrow> heap \<Rightarrow> mem \<Rightarrow> (nat \<times> heap \<times> mem) res option" where
  "kcalloc nobj sz h m = calloc True k_alloc nobj sz h m"

text \<open>The end of the mapped kernel memory only moves up.\<close>

definition grows :: "mem \<Rightarrow> mem \<Rightarrow> bool" where
  "grows m m' \<longleftrightarrow> (k_good m \<longrightarrow> k_good m' \<and> k_top m \<le> k_top m')"

lemma grows_refl [simp]: "grows m m"
  by (simp add: grows_def)

lemma grows_trans: "grows a b \<Longrightarrow> grows b c \<Longrightarrow> grows a c"
  by (auto simp: grows_def)

lemma grows_same: "end_mapped_kmemory m' = end_mapped_kmemory m \<Longrightarrow> grows m m'"
  by (simp add: grows_def k_good_def k_top_def)

lemma vwrite32_end: "vwrite32 m va x = Inr m' \<Longrightarrow> end_mapped_kmemory m' = end_mapped_kmemory m"
  by (auto simp: vwrite32_def split: option.splits)

lemma vzero_end: "vzero m va n = Inr m' \<Longrightarrow> end_mapped_kmemory m' = end_mapped_kmemory m"
  by (induction n arbitrary: m va) (auto simp: rbind_eq_Inr dest: vwrite32_end)

lemma pmm_alloc_page_end: "pmm_alloc_page m = Inr (p, m') \<Longrightarrow> end_mapped_kmemory m' = end_mapped_kmemory m"
  using pmm_alloc_page_Inr(2) by (auto simp: same_memory_def)

lemma alloc_frames_end:
  "alloc_frames m n = Inr (ps, m') \<Longrightarrow> end_mapped_kmemory m' = end_mapped_kmemory m \<and> length ps = n"
  by (induction n arbitrary: m ps) (fastforce simp: rbind_eq_Inr dest: pmm_alloc_page_end)+

definition mapper_grows :: "mapper \<Rightarrow> bool" where
  "mapper_grows mp \<longleftrightarrow> (\<forall>m p va fl ow r m'. mp m p va fl ow = Inr (r, m') \<longrightarrow> grows m m')"

lemma map_k_loop_grows:
  assumes "mapper_grows mp" "map_k_loop mp m ps = Inr (d, m')" "k_good m"
  shows "k_good m' \<and> k_top m \<le> k_top m' \<and> (d \<longrightarrow> k_top m + length ps * 4096 \<le> k_top m')"
  using assms(2,3)
proof (induction ps arbitrary: m)
  case (Cons p ps)
  then obtain r m1 where r: "mp m p (end_mapped_kmemory m) 0x3 False = Inr (r, m1)"
    by (auto simp: rbind_eq_Inr)
  with assms(1) Cons.prems(2) have g: "k_good m1" "k_top m \<le> k_top m1"
    by (auto simp: mapper_grows_def grows_def)
  show ?case
  proof (cases "r = -1")
    case True
    with Cons.prems r g show ?thesis by simp
  next
    case False
    let ?m = "m1\<lparr>end_mapped_kmemory := end_mapped_kmemory m1 + 0x1000\<rparr>"
    have lim: "\<not> end_mapped_kmemory m1 + 0x1000 \<ge> 0xFFC00000" and rest: "map_k_loop mp ?m ps = Inr (d, m')"
      using Cons.prems(1) r False by (auto split: if_splits)
    have "k_good ?m" using lim by (simp add: k_good_def)
    from Cons.IH [OF rest this] have ih: "k_good m'" "k_top ?m \<le> k_top m'"
      "d \<longrightarrow> k_top ?m + length ps * 4096 \<le> k_top m'" by simp_all
    have "k_top ?m = k_top m1 + 4096"
      using g(1) by (simp add: k_top_def k_good_def unat_word_ariths word_less_nat_alt)
    with ih g show ?thesis by auto
  qed
qed simp

lemma alloc_with_grows:
  assumes "mapper_grows mp" "alloc_with mp m n = Inr (p, m')" "k_good m"
  shows "k_good m' \<and> k_top m \<le> k_top m' \<and> (p \<noteq> 0 \<longrightarrow> p = end_mapped_kmemory m \<and> k_top m + n * 4096 \<le> k_top m')"
proof (cases "n < 1")
  case False
  then obtain ps m1 d where a: "alloc_frames m n = Inr (ps, m1)" and l: "map_k_loop mp m1 ps = Inr (d, m')"
    and p: "p = (if d then end_mapped_kmemory m1 else 0)"
    using assms(2) by (auto simp: alloc_with_def map_pages_k_with_def Let_def rbind_eq_Inr)
  from alloc_frames_end [OF a] have e: "end_mapped_kmemory m1 = end_mapped_kmemory m" "length ps = n" by simp_all
  then have "k_good m1" "k_top m1 = k_top m" using assms(3) by (simp_all add: k_good_def k_top_def)
  with map_k_loop_grows [OF assms(1) l] e p show ?thesis by auto
qed (use assms in \<open>simp add: alloc_with_def\<close>)

lemma map_page_grows: "mapper_grows (map_page_fuel n)"
proof (induction n)
  case 0
  show ?case by (simp add: mapper_grows_def map_page_fuel.simps)
next
  case (Suc n)
  have "grows m m'" if run: "map_page_fuel (Suc n) m p va fl ow = Inr (r, m')" for m p va fl ow r m'
  proof -
    from run [unfolded map_page_fuel.simps] obtain d where d: "vread32 m (pd_entry va) = Inr d"
      and run1: "rbind (if d AND 1 = 0 then
              rbind (alloc_with (map_page_fuel n) m 1) (\<lambda>(newptaddr, m).
              rbind (vzero m newptaddr 1024) (\<lambda>m.
              rbind (vmm_get_physaddr m newptaddr) (\<lambda>p.
              vwrite32 m (pd_entry va) (p OR 0x7))))
            else Inr m) (\<lambda>m.
          rbind (vread32 m (pt_entry va)) (\<lambda>t.
          if t AND 1 = 1 \<and> \<not> ow then Inr (-1, m)
          else rbind (vwrite32 m (pt_entry va) (p OR (fl AND 0xFFF) OR 1)) (\<lambda>m. Inr (0, m)))) = Inr (r, m')"
      by (rule rbind_InrE)
    from run1 obtain m1 where t: "(if d AND 1 = 0 then
              rbind (alloc_with (map_page_fuel n) m 1) (\<lambda>(newptaddr, m).
              rbind (vzero m newptaddr 1024) (\<lambda>m.
              rbind (vmm_get_physaddr m newptaddr) (\<lambda>p.
              vwrite32 m (pd_entry va) (p OR 0x7))))
            else Inr m) = Inr m1"
      and rest: "rbind (vread32 m1 (pt_entry va)) (\<lambda>t.
          if t AND 1 = 1 \<and> \<not> ow then Inr (-1, m1)
          else rbind (vwrite32 m1 (pt_entry va) (p OR (fl AND 0xFFF) OR 1)) (\<lambda>m. Inr (0, m))) = Inr (r, m')"
      by (rule rbind_InrE)
    have "grows m m1"
    proof (cases "d AND 1 = 0")
      case True
      with t obtain q m2 m3 m4 x where a: "alloc_with (map_page_fuel n) m 1 = Inr (q, m2)"
        "vzero m2 q 1024 = Inr m3" "vwrite32 m3 (pd_entry va) x = Inr m1"
        by (auto simp: rbind_eq_Inr)
      have "grows m m2" using alloc_with_grows [OF Suc a(1)] by (auto simp: grows_def)
      with grows_same [OF vzero_end [OF a(2)]] grows_same [OF vwrite32_end [OF a(3)]]
      show ?thesis by (blast intro: grows_trans)
    qed (use t in auto)
    moreover have "grows m1 m'"
      using rest by (auto simp: rbind_eq_Inr split: if_splits intro: grows_same dest: vwrite32_end)
    ultimately show ?thesis by (rule grows_trans)
  qed
  then show ?case by (auto simp: mapper_grows_def)
qed

lemma vmm_map_page_grows: "mapper_grows vmm_map_page"
  using map_page_grows by (auto simp: mapper_grows_def vmm_map_page_def)

lemma free_loop_end: "free_loop m a n = Inr (r, m') \<Longrightarrow> end_mapped_kmemory m' = end_mapped_kmemory m"
proof (induction n arbitrary: m a)
  case (Suc n)
  then obtain pa where pa: "vmm_get_physaddr m a = Inr pa" by (auto simp: rbind_eq_Inr)
  show ?case
  proof (cases "pa = 0")
    case True
    with Suc.prems pa show ?thesis by simp
  next
    case False
    with Suc.prems pa obtain m1 m2 k where f: "pmm_free_page m pa = Inr m1" "vmm_unmap_page m1 a = Inr (k, m2)"
      "(if k = 0 then Inr (1, m2) else free_loop m2 (a + 0x1000) n) = Inr (r, m')"
      by (auto simp: rbind_eq_Inr)
    have "end_mapped_kmemory m2 = end_mapped_kmemory m"
      using f(1,2) pmm_free_page_Inr [OF f(1)]
      by (auto simp: vmm_unmap_page_def rbind_eq_Inr same_memory_def split: if_splits dest: vwrite32_end)
    with f(3) Suc.IH [of m2 "a + 0x1000"] show ?thesis by (cases "k = 0") auto
  qed
qed simp

interpretation kheap: page_source k_alloc k_give k_top k_good 1024
proof unfold_locales
  fix m n p m' assume a: "k_good m" "k_alloc n m = Inr (p, m')" "0 < n" "n \<le> 1024"
  then obtain q where "alloc_with vmm_map_page m n = Inr (q, m')" "p = unat q"
    by (auto simp: k_alloc_def liballoc_alloc_def liballoc_alloc_1024_def rbind_eq_Inr)
  with alloc_with_grows [OF vmm_map_page_grows _ a(1)]
  show "k_good m' \<and> k_top m \<le> k_top m' \<and> (p \<noteq> 0 \<longrightarrow> k_top m \<le> p \<and> p + n * 4096 \<le> k_top m')"
    by (fastforce simp: k_top_def)
next
  fix m p n m' assume "k_good m" "k_give p n m = Inr m'"
  then show "k_good m' \<and> k_top m' = k_top m"
    by (auto simp: k_give_def liballoc_free_def rbind_eq_Inr k_good_def k_top_def dest: free_loop_end)
next
  show "k_top m < 2 ^ 32" for m by (simp add: k_top_def unat_u32_less)
qed simp_all

subsection \<open>The user's pages\<close>

text \<open>
  \<open>libc/unistd/brk.c\<close>: the system call as \<open>sched_setbrk_true\<close> on the address space and the
  process; \<open>sbrk\<close> with its increment at 32 bits. The errno is not in the state.
\<close>

type_synonym user_mem = "mem \<times> process"

definition internal_brk :: "u32 \<Rightarrow> user_mem \<Rightarrow> (u32 \<times> user_mem) res" where
  "internal_brk addr s =
     (case s of (m, p) \<Rightarrow> rbind (sched_setbrk_true m p addr) (\<lambda>(r, p, m). Inr (r, (m, p))))"

definition brk_call :: "u32 \<Rightarrow> user_mem \<Rightarrow> (int \<times> user_mem) res" where
  "brk_call addr s = rbind (internal_brk addr s) (\<lambda>(r, s). Inr (if r \<noteq> addr then -1 else 0, s))"

definition sbrk :: "u32 \<Rightarrow> user_mem \<Rightarrow> (u32 \<times> user_mem) res" where
  "sbrk increment s =
     rbind (internal_brk 0 s) (\<lambda>(currentbrk, s).
     rbind (internal_brk (currentbrk + increment) s) (\<lambda>(changedbrk, s).
     Inr (if changedbrk = currentbrk then -1 else currentbrk, s)))"

definition u_alloc :: "user_mem page_alloc" where
  "u_alloc n s = rbind (sbrk (of_nat n * 0x1000) s) (\<lambda>(r, s). Inr (if r = -1 then 0 else unat r, s))"

definition u_give :: "user_mem page_free" where
  "u_give a n s = Inr s"

definition u_top :: "user_mem \<Rightarrow> nat" where "u_top s = unat (brk (snd s))"

definition u_good :: "user_mem \<Rightarrow> bool" where "u_good s \<longleftrightarrow> brk_ok (snd s)"

definition umalloc :: "nat \<Rightarrow> heap \<Rightarrow> user_mem \<Rightarrow> (nat \<times> heap \<times> user_mem) res option" where
  "umalloc req h s = malloc False u_alloc req h s"

definition ufree :: "nat \<Rightarrow> heap \<Rightarrow> user_mem \<Rightarrow> (heap \<times> user_mem) res" where
  "ufree p h s = free False u_give p h s"

definition urealloc :: "nat \<Rightarrow> nat \<Rightarrow> heap \<Rightarrow> user_mem \<Rightarrow> (nat \<times> heap \<times> user_mem) res option" where
  "urealloc p sz h s = realloc False u_alloc u_give p sz h s"

definition ucalloc :: "nat \<Rightarrow> nat \<Rightarrow> heap \<Rightarrow> user_mem \<Rightarrow> (nat \<times> heap \<times> user_mem) res option" where
  "ucalloc nobj sz h s = calloc False u_alloc nobj sz h s"

lemma internal_brk_0: "internal_brk 0 (m, p) = Inr (brk p, (m, p))"
  by (simp add: internal_brk_def sched_setbrk_true_def Let_def)

lemma setbrk_step:
  assumes "brk_ok p" "internal_brk addr (m, p) = Inr (r, (m', p'))"
  shows "brk_ok p' \<and> r = brk p' \<and> (r = addr \<or> p' = p)"
  using assms setbrk_ok [OF assms(1), of m addr r p' m'] by (auto simp: internal_brk_def rbind_eq_Inr)

lemma sbrk_step:
  assumes ok: "brk_ok p" and run: "sbrk inc (m, p) = Inr (r, (m', p'))"
  shows "brk_ok p' \<and> (r = -1 \<and> brk p' = brk p \<or> r = brk p \<and> brk p' = brk p + inc)"
proof -
  from run obtain c where c: "internal_brk (brk p + inc) (m, p) = Inr (c, (m', p'))"
    and r: "r = (if c = brk p then -1 else brk p)"
    by (auto simp: sbrk_def internal_brk_0 rbind_eq_Inr)
  from setbrk_step [OF ok c] r show ?thesis by auto
qed

interpretation uheap: page_source u_alloc u_give u_top u_good 262144
proof unfold_locales
  fix s n q s' assume a: "u_good s" "u_alloc n s = Inr (q, s')" "0 < n" "n \<le> 262144"
  obtain m p m' p' where s: "s = (m, p)" "s' = (m', p')" by (cases s, cases s')
  then obtain r where r: "sbrk (of_nat n * 0x1000) (m, p) = Inr (r, (m', p'))" and q: "q = (if r = -1 then 0 else unat r)"
    using a(2) by (auto simp: u_alloc_def rbind_eq_Inr)
  have ok: "brk_ok p" using a(1) s by (simp add: u_good_def)
  have le: "unat (brk p) \<le> 3217031168"
    using ok by (simp add: brk_ok_def KERNEL_START_def word_le_nat_alt)
  have inc: "unat (of_nat n * 0x1000 :: u32) = n * 4096"
    using a(4) by (simp add: unat_word_ariths unat_of_nat)
  have "unat (brk p + of_nat n * 0x1000) = unat (brk p) + n * 4096"
    using le a(4) by (subst unat_word_ariths(1)) (simp add: inc)
  with sbrk_step [OF ok r] q show "u_good s' \<and> u_top s \<le> u_top s' \<and> (q \<noteq> 0 \<longrightarrow> u_top s \<le> q \<and> q + n * 4096 \<le> u_top s')"
    by (auto simp: s u_good_def u_top_def)
qed (simp_all add: u_give_def u_top_def unat_u32_less)

end
