(* ===== verification/HeapSpec.thy ===== *)
theory HeapSpec
  imports HeapPages
begin

section \<open>What the heaps guarantee\<close>

subsection \<open>Allocations do not overlap\<close>

text \<open>The bytes an allocation may use: those between its pointer and the size asked for.\<close>

definition payload :: "heap \<Rightarrow> nat \<Rightarrow> nat set" where
  "payload h n = {p_of n ..< p_of n + mreq h n}"

lemma payload_same: "same_live h h' S \<Longrightarrow> n \<in> S \<Longrightarrow> payload h' n = payload h n"
  by (simp add: same_live_def payload_def)

lemma live_mem:
  assumes "n \<in> live A"
  obtains A1 a xs A2 where "A = A1 @ (a, xs) # A2" "n \<in> set xs"
proof -
  obtain a xs where a: "(a, xs) \<in> set A" "n \<in> set xs" using assms unfolding live_def by force
  obtain A1 A2 where "A = A1 @ (a, xs) # A2" using split_list [OF a(1)] by blast
  with a(2) that show ?thesis by blast
qed

text \<open>Behind the bytes that were asked for there is at least one more in the block.\<close>

lemma payload_slack:
  assumes "heap_inv h tp A" "n \<in> live A"
  shows "p_of n + mreq h n < n + mlen h n"
proof -
  obtain A1 a xs A2 where A: "A = A1 @ (a, xs) # A2" "n \<in> set xs" using assms(2) by (rule live_mem)
  have "minor_ok h a n" using inv_block(1) [OF assms(1) [unfolded A(1)]] A(2) by (auto simp: block_ok_def)
  then have "mreq h n + 32 \<le> mn_size (the (minors h n))" by (auto simp: minor_ok_def mreq_def)
  then show ?thesis using p_of_bounds(2) [of n] by (simp add: mlen_def)
qed

lemma payload_region: "heap_inv h tp A \<Longrightarrow> n \<in> live A \<Longrightarrow> p_of n + mreq h n \<le> n + mlen h n"
  using payload_slack by (simp add: less_imp_le)

lemma regions_disjoint:
  assumes inv: "heap_inv h tp A" and n: "n \<in> live A" and k: "k \<in> live A" "k \<noteq> n"
  shows "n + mlen h n \<le> k \<or> k + mlen h k \<le> n"
proof -
  obtain A1 a xs A2 where A: "A = A1 @ (a, xs) # A2" "n \<in> set xs" using n by (rule live_mem)
  note b = inv_block [OF inv [unfolded A(1)]]
  note rn = block_region(1,2) [OF b(1) A(2)]
  show ?thesis
  proof (cases "k \<in> set xs")
    case True
    obtain lo hi where f: "fits (mlen h) lo hi xs" using b(1) by (auto simp: block_ok_def)
    show ?thesis by (rule fits_disjoint [OF f A(2) True]) (use k(2) in simp)
  next
    case False
    then have "k \<in> live (A1 @ A2)" using k(1) by (simp add: A(1))
    then obtain B1 c zs B2 where c: "A1 @ A2 = B1 @ (c, zs) # B2" "k \<in> set zs" by (rule live_mem)
    then have m: "(c, zs) \<in> set (A1 @ A2)" by simp
    then have "(c, zs) \<in> set A" by (auto simp: A(1))
    from live_block [OF inv this c(2)] b(5) [OF m] rn show ?thesis by auto
  qed
qed

lemma payload_disjoint:
  assumes inv: "heap_inv h tp A" and n: "n \<in> live A" and k: "k \<in> live A" "k \<noteq> n"
  shows "payload h n \<inter> payload h k = {}"
  using regions_disjoint [OF assms] payload_region [OF inv n] payload_region [OF inv k(1)]
    p_of_bounds(1) [of n] p_of_bounds(1) [of k]
  by (auto simp: payload_def)

text \<open>What a successful allocation of \<open>req\<close> bytes at \<open>p\<close> means to the client.\<close>

definition new_alloc :: "heap \<Rightarrow> nat set \<Rightarrow> nat \<Rightarrow> nat \<Rightarrow> heap \<Rightarrow> nat \<Rightarrow> bool" where
  "new_alloc h S req p h' tp \<longleftrightarrow> p mod 16 = 0 \<and> bytes h' = bytes h \<and>
     (\<exists>A n. heap_inv h' tp A \<and> n \<notin> S \<and> live A = insert n S \<and> p = p_of n \<and> payload h' n = {p ..< p + req} \<and>
        (\<forall>k\<in>S. payload h' k = payload h k \<and> payload h k \<inter> {p ..< p + req} = {}))"

lemma malloc_post_new:
  assumes "malloc_post h S req sz h' tp A p"
  shows "new_alloc h S req p h' tp"
proof -
  from assms obtain n where a: "heap_inv h' tp A" "same_live h h' S" "n \<notin> S" "live A = insert n S" "p = p_of n"
    "mreq h' n = req" by (auto simp: malloc_post_def)
  have own: "payload h' n = {p ..< p + req}" using a(5,6) by (simp add: payload_def)
  have "payload h k \<inter> {p ..< p + req} = {}" if "k \<in> S" for k
    using payload_disjoint [OF a(1), of n k] payload_same [OF a(2) that] that a(3,4) own by auto
  moreover have "\<forall>k\<in>S. payload h' k = payload h k" using payload_same [OF a(2)] by blast
  moreover have "bytes h' = bytes h" using a(2) by (simp add: same_live_def)
  ultimately show ?thesis
    unfolding new_alloc_def using a(1,3-5) own p_of_bounds(3) [of n] by blast
qed

subsection \<open>realloc\<close>

lemma memcpy_bytes_eq:
  assumes "d + n \<le> s \<or> s + n \<le> d"
  shows "memcpy_bytes b d s n x = (if d \<le> x \<and> x < d + n then b (s + (x - d)) else b x)"
  using assms
proof (induction n arbitrary: b d s)
  case (Suc n)
  then have "memcpy_bytes (b(d := b s)) (d + 1) (s + 1) n x =
      (if d + 1 \<le> x \<and> x < d + 1 + n then (b(d := b s)) (s + 1 + (x - (d + 1))) else (b(d := b s)) x)"
    by (intro Suc.IH) auto
  moreover have "Suc (s + x - Suc d) = s + x - d" if "Suc d \<le> x" using that by arith
  ultimately show ?case using Suc.prems by (cases "x = d") auto
qed auto

lemma memcpy_words_eq:
  assumes "d + n \<le> s \<or> s + n \<le> d"
  shows "memcpy_words b d s n x = (if d \<le> x \<and> x < d + n then b (s + (x - d)) else b x)"
  using assms
proof (induction n arbitrary: b d s rule: less_induct)
  case (less n)
  show ?case
  proof (cases "n \<ge> 4")
    case True
    have ih: "memcpy_words (copy4 b d s) (d + 4) (s + 4) (n - 4) x =
        (if d + 4 \<le> x \<and> x < d + 4 + (n - 4) then copy4 b d s (s + 4 + (x - (d + 4))) else copy4 b d s x)"
      using True less.prems by (intro less.IH) auto
    have src: "copy4 b d s (s + 4 + (x - (d + 4))) = b (s + (x - d))" if "d + 4 \<le> x" "x < d + n"
      using that less.prems True by (auto simp: copy4_def)
    have "copy4 b d s x = (if d \<le> x \<and> x < d + 4 then b (s + (x - d)) else b x)"
    proof -
      consider "x = d" | "x = d + 1" | "x = d + 2" | "x = d + 3" | "x < d \<or> d + 4 \<le> x" by linarith
      then show ?thesis using less.prems True by cases (auto simp: copy4_def)
    qed
    with ih src True show ?thesis by (subst memcpy_words.simps) (auto split: if_splits)
  next
    case False
    then show ?thesis using less.prems by (subst memcpy_words.simps) (simp add: memcpy_bytes_eq)
  qed
qed

lemma live_block_split:
  assumes inv: "heap_inv h tp A" and n: "n \<in> live A"
  obtains A1 a xs ys A2 where "A = A1 @ (a, xs @ n # ys) # A2"
proof -
  obtain A1 a zs A2 where A: "A = A1 @ (a, zs) # A2" "n \<in> set zs" using n by (rule live_mem)
  obtain xs ys where "zs = xs @ n # ys" using split_list [OF A(2)] by blast
  with A(1) that show ?thesis by blast
qed

text \<open>A smaller request in place.\<close>

lemma shrink_inv:
  assumes inv: "heap_inv h tp A" and n: "n \<in> live A" and x: "minors h n = Some x" and sz: "sz \<le> mn_req x"
    and h': "h' = put_min n (x\<lparr>mn_req := sz\<rparr>) h"
  shows "heap_inv h' tp A"
proof -
  obtain A1 a xs ys A2 where A: "A = A1 @ (a, xs @ n # ys) # A2" using inv n by (rule live_block_split)
  note b = inv_block [OF inv [unfolded A]]
  obtain y where y: "majors h a = Some y" using b(1) by (auto simp: block_ok_def)
  have f: "mnp h' = mnp h" "mnn h' = mnn h" "mlen h' = mlen h"
    using x by (simp_all add: fun_eq_iff h' put_min_def mnp_def mnn_def mlen_def)
  have "minor_ok h' a z" if "minor_ok h a z" for z
    using that x sz by (cases "z = n") (auto simp: minor_ok_def h' put_min_def)
  then have ok: "block_ok h' (a, xs @ n # ys)"
    using b(1) y by (auto simp: block_ok_def f) (simp_all add: h' put_min_def)
  have n_in: "a \<le> n" "n < a + jlen h a"
    using block_region(1-3) [OF b(1), of n] by auto
  have "majors h' a = Some y" using y by (simp add: h' put_min_def)
  then show ?thesis unfolding A
    by (intro inv_replace [OF inv [unfolded A] ok _ y]) (use n_in in \<open>auto simp: h' put_min_def\<close>)
qed

text \<open>What \<open>realloc\<close> promises: the allocation \<open>n\<close> is replaced, its contents are kept.\<close>

definition moved :: "heap \<Rightarrow> nat set \<Rightarrow> nat \<Rightarrow> nat \<Rightarrow> nat \<Rightarrow> heap \<Rightarrow> nat \<Rightarrow> bool" where
  "moved h S n sz q h' tp \<longleftrightarrow> (\<exists>A k. heap_inv h' tp A \<and> live A = insert k (S - {n}) \<and> k \<notin> S - {n} \<and> q = p_of k \<and>
     payload h' k = {q ..< q + sz} \<and> (\<forall>i<min (mreq h n) sz. bytes h' (q + i) = bytes h (p_of n + i)) \<and>
     (\<forall>x\<in>S - {n}. payload h' x = payload h x \<and> (\<forall>y\<in>payload h x. bytes h' y = bytes h y)))"

lemma moved_in_place:
  assumes inv: "heap_inv h tp A" and n: "n \<in> live A" and x: "minors h n = Some x" and sz: "sz \<le> mn_req x"
  shows "moved h (live A) n sz (p_of n) (put_min n (x\<lparr>mn_req := sz\<rparr>) h) tp"
proof -
  let ?h = "put_min n (x\<lparr>mn_req := sz\<rparr>) h"
  have "payload ?h k = payload h k" if "k \<noteq> n" for k using that by (simp add: payload_def mreq_def put_min_def)
  moreover have "payload ?h n = {p_of n ..< p_of n + sz}" by (simp add: payload_def mreq_def put_min_def)
  moreover have "bytes ?h = bytes h" by (simp add: put_min_def)
  ultimately show ?thesis
    unfolding moved_def using shrink_inv [OF inv n x sz refl] n
    by (intro exI [of _ A] exI [of _ n]) auto
qed

lemma moved_copy:
  assumes inv: "heap_inv h tp A" and n: "n \<in> live A"
    and new: "malloc_post h (live A) sz (sz + 32) h1 tp1 A1 q" and sz: "mreq h n \<le> sz"
    and h2: "h2 = liballoc_memcpy h1 q (p_of n) (mreq h n)" and fr: "freed h2 (live A1) n h3 tp1"
  shows "moved h (live A) n sz q h3 tp1"
proof -
  from new obtain k where a: "heap_inv h1 tp1 A1" "same_live h h1 (live A)" "k \<notin> live A" "live A1 = insert k (live A)"
    "q = p_of k" "mreq h1 k = sz" by (auto simp: malloc_post_def)
  have kn: "k \<noteq> n" using a(3) n by blast
  from fr obtain A3 where c: "heap_inv h3 tp1 A3" "live A3 = live A1 - {n}" "same_live h2 h3 (live A1 - {n})"
    by (auto simp: freed_def)
  have l3: "live A3 = insert k (live A - {n})" using c(2) a(4) kn by auto
  have req: "mreq h3 x = mreq h1 x" if "x \<in> insert k (live A - {n})" for x
    using c(3) that a(4) kn by (auto simp: same_live_def h2 liballoc_memcpy_def mreq_def)
  have by3: "bytes h3 = memcpy_words (bytes h) q (p_of n) (mreq h n)"
    using c(3) a(2) by (simp add: same_live_def h2 liballoc_memcpy_def)
  have nreq: "mreq h1 n = mreq h n" using a(2) n by (simp add: same_live_def)
  have kl: "k \<in> live A1" and nl: "n \<in> live A1" using a(4) n by simp_all
  have dis: "q + mreq h n \<le> p_of n \<or> p_of n + mreq h n \<le> q"
    using regions_disjoint [OF a(1) nl kl kn] payload_region [OF a(1) kl] payload_region [OF a(1) nl]
      p_of_bounds(1) [of n] p_of_bounds(1) [of k] sz a(5,6) nreq by auto
  have copy: "bytes h3 y = (if q \<le> y \<and> y < q + mreq h n then bytes h (p_of n + (y - q)) else bytes h y)" for y
    unfolding by3 by (rule memcpy_words_eq [OF dis])
  have others: "payload h3 x = payload h x \<and> (\<forall>y\<in>payload h x. bytes h3 y = bytes h y)" if x: "x \<in> live A - {n}" for x
  proof -
    have p1: "payload h1 x = payload h x" using payload_same [OF a(2)] x by simp
    then have p3: "payload h3 x = payload h x" using req [of x] x by (simp add: payload_def)
    have "x \<noteq> k" "x \<in> live A1" using x a(3,4) by auto
    then have "payload h1 k \<inter> payload h x = {}" using payload_disjoint [OF a(1) kl] p1 by auto
    moreover have "payload h1 k = {q ..< q + sz}" using a(5,6) by (simp add: payload_def)
    ultimately have "bytes h3 y = bytes h y" if "y \<in> payload h x" for y
      using that sz by (auto simp: copy)
    with p3 show ?thesis by blast
  qed
  have "payload h3 k = {q ..< q + sz}" using req [of k] a(5,6) by (simp add: payload_def)
  moreover have "\<forall>i<min (mreq h n) sz. bytes h3 (q + i) = bytes h (p_of n + i)" by (simp add: copy)
  ultimately show ?thesis
    unfolding moved_def using c(1) l3 a(3,5) others by (intro exI [of _ A3] exI [of _ k]) blast
qed

context page_source
begin

lemma realloc_spec:
  assumes inv: "heap_inv h (top m) A" and n: "n \<in> live A" and ok: "good m"
    and sz: "0 < sz" "sz + 80 \<le> maxp * 4096"
  shows "\<exists>r. realloc kcopy alloc give (p_of n) sz h m = Some r \<and>
    (\<forall>q h' m'. r = Inr (q, h', m') \<longrightarrow> q \<noteq> 0 \<longrightarrow> good m' \<and> moved h (live A) n sz q h' (top m'))"
proof -
  obtain A1 a xs ys A2 where A: "A = A1 @ (a, xs @ n # ys) # A2" using inv n by (rule live_block_split)
  obtain x where x: "minors h n = Some x" "mn_magic x = LIBALLOC_MAGIC" "UNALIGN (p_of n) h = Inr (n + 24)"
    "n + 24 < 2 ^ 32" by (rule unalign_eq [OF inv [unfolded A]])
  have req: "mn_req x = mreq h n" using x(1) by (simp add: mreq_def)
  let ?move = "case malloc kcopy alloc sz h m of None \<Rightarrow> None
    | Some r \<Rightarrow> Some (rbind r (\<lambda>(q, h, m).
        if q = 0 \<and> mn_req x \<noteq> 0 then Inl (Fault ''null pointer'')
        else rbind (free kcopy give (p_of n) (liballoc_memcpy h q (p_of n) (mn_req x)) m) (\<lambda>(h, m). Inr (q, h, m))))"
  have e: "realloc kcopy alloc give (p_of n) sz h m =
      (if mn_req x \<ge> sz then Some (Inr (p_of n, put_min n (x\<lparr>mn_req := sz\<rparr>) h, m)) else ?move)"
    using x sz(1) p_of_bounds(1) [of n] by (simp add: realloc_def min_at_def sz_minor_def)
  show ?thesis
  proof (cases "mn_req x \<ge> sz")
    case True
    with e ok moved_in_place [OF inv n x(1) True] show ?thesis by simp
  next
    case False
    from malloc_spec [OF inv ok sz(2), of kcopy] obtain r where r: "malloc kcopy alloc sz h m = Some r"
      "malloc_res (malloc_error kcopy) top good h (live A) sz (sz + 32) r" by blast
    have "good m' \<and> moved h (live A) n sz q h' (top m')"
      if run: "?move = Some (Inr (q, h', m'))" and q: "q \<noteq> 0" for q h' m'
    proof -
      from run r(1) obtain h1 m1 where r1: "r = Inr (q, h1, m1)"
        and f: "free kcopy give (p_of n) (liballoc_memcpy h1 q (p_of n) (mn_req x)) m1 = Inr (h', m')"
        by (auto simp: rbind_eq_Inr split: if_splits)
      let ?h2 = "liballoc_memcpy h1 q (p_of n) (mreq h n)"
      from r(2) r1 q obtain A' where g: "good m1" "malloc_post h (live A) sz (sz + 32) h1 (top m1) A' q"
        by (auto simp: malloc_res_def)
      then have i1: "heap_inv h1 (top m1) A'" and n1: "n \<in> live A'" using n by (auto simp: malloc_post_def)
      have "heap_inv ?h2 (top m1) A'"
        by (rule heap_inv_cong [OF i1]) (use i1 top_bound in \<open>auto simp: liballoc_memcpy_def heap_inv_def\<close>)
      from free_spec [OF this n1 g(1), of kcopy] f req
      have "good m'" "top m' = top m1" "freed ?h2 (live A') n h' (top m1)" by auto
      with moved_copy [OF inv n g(2) _ refl] False req show ?thesis by simp
    qed
    with e False r(1) show ?thesis by (auto split: option.splits)
  qed
qed

end

subsection \<open>A heap for the witnesses\<close>

text \<open>One block of 16 pages at \<open>0xC0B00000\<close> with one allocation of 100 bytes.\<close>

definition demo_block :: nat where "demo_block = 0xC0B00000"

definition demo_heap :: heap where
  "demo_heap = \<lparr>majors = Map.empty(demo_block \<mapsto> \<lparr>mj_prev = 0, mj_next = 0, mj_pages = 16, mj_size = 65536,
       mj_usage = 180, mj_first = demo_block + 24\<rparr>),
     minors = Map.empty(demo_block + 24 \<mapsto> \<lparr>mn_prev = 0, mn_next = 0, mn_block = demo_block,
       mn_magic = LIBALLOC_MAGIC, mn_size = 132, mn_req = 100\<rparr>),
     aligns = Map.empty(demo_block + 48 \<mapsto> 16), bytes = (\<lambda>_. CHR ''x''), memRoot = demo_block,
     bestBet = demo_block, l_allocated = 65536, l_inuse = 132, warnings = 0, errors = 0, overruns = 0\<rparr>"

lemma demo_p_of: "p_of (demo_block + 24) = demo_block + 64"
  by (simp add: p_of_def demo_block_def)

lemma demo_heap_inv:
  assumes "0xC0B10000 \<le> tp" "tp < 2 ^ 32"
  shows "heap_inv demo_heap tp [(demo_block, [demo_block + 24])]"
proof -
  have mok: "minor_ok demo_heap demo_block (demo_block + 24)"
    using demo_p_of by (simp add: minor_ok_def demo_heap_def demo_block_def)
  have "mlen demo_heap (demo_block + 24) = 156" "mnp demo_heap (demo_block + 24) = 0" "mnn demo_heap (demo_block + 24) = 0"
    by (simp_all add: mlen_def mnp_def mnn_def demo_heap_def)
  with mok have "block_ok demo_heap (demo_block, [demo_block + 24])"
    by (simp add: block_ok_def) (simp add: demo_heap_def demo_block_def)
  moreover have "jprev demo_heap demo_block = 0" "jnext demo_heap demo_block = 0" "jlen demo_heap demo_block = 65536"
    by (simp_all add: jprev_def jnext_def jlen_def demo_heap_def)
  ultimately show ?thesis using assms
    by (simp add: heap_inv_def) (simp add: demo_heap_def demo_block_def)
qed

lemma run_mem_end: "unat (end_mapped_kmemory run_mem) = 3233808384" "end_mapped_kmemory run_mem < 0xFFC00000"
  by (simp_all add: run_mem_def boot_mem_def)

text \<open>The run of \<open>kmalloc\<close> there: case 4.1 behind the one allocation.\<close>

lemma demo_malloc: "\<exists>h'. kmalloc 100 demo_heap m = Some (Inr (demo_block + 224, h', m))"
proof -
  let ?a = "3232759808 :: nat" and ?n = "3232759832 :: nat"
  let ?y = "\<lparr>mj_prev = 0, mj_next = 0, mj_pages = 16, mj_size = 65536, mj_usage = 180, mj_first = ?n\<rparr>"
  let ?x = "\<lparr>mn_prev = 0, mn_next = 0, mn_block = ?a, mn_magic = LIBALLOC_MAGIC, mn_size = 132, mn_req = 100\<rparr>"
  have y: "majors demo_heap ?a = Some ?y" and x: "minors demo_heap ?n = Some ?x"
    and r: "memRoot demo_heap = ?a" "bestBet demo_heap = ?a"
    by (simp_all add: demo_heap_def demo_block_def)
  have p: "p_of 3232759988 = ?a + 224" by (simp add: p_of_def)
  obtain h' where "case41 ?a ?n ?x 132 100 demo_heap = Inr (?a + 224, h')"
    using case41_entered [OF y x, of 3232759988 132 "[]" 100] x by (auto simp: mlen_def p)
  then have "minor_loop ?a 65536 ?n 132 100 demo_heap = Some (Inr (Some (?a + 224, h')))"
    by (subst minor_loop.simps) (simp add: min_at_def x add32_def sub32_def sz_minor_def)
  then have "in_block k_alloc ?a True 132 100 demo_heap m = Some (Inr (Found (?a + 224) h' m))"
    by (simp add: in_block_def maj_at_def y sub32_def add32_def sz_major_def sz_minor_def)
  then have "block_loop True k_alloc ?a True 65356 132 100 demo_heap m = Some (Inr (?a + 224, h', m))"
    by (subst block_loop.simps) (simp add: maj_at_def y sub32_def add32_def sz_minor_def Let_def)
  then have "kmalloc 100 demo_heap m = Some (Inr (demo_block + 224, h', m))"
    by (simp add: kmalloc_def malloc_def malloc_size_def maj_at_def y r add32_def sub32_def ALIGNMENT_def
        ALIGN_INFO_def sz_minor_def Let_def demo_block_def)
  then show ?thesis by blast
qed

lemmas demo_kheap_inv = demo_heap_inv [of "unat (end_mapped_kmemory run_mem)", unfolded run_mem_end, simplified]

section \<open>Properties\<close>

text \<open>
  C3: \<open>kmalloc\<close> always returns, and on a well-formed heap every request of up to four megabytes,
  less the headers, gives a new allocation: the pointer is aligned to 16 bytes, its bytes overlap
  no other allocation, all other allocations and the contents of the heap stay as they are, and
  the heap is well formed again. Otherwise it is the null pointer with the same allocations, or
  a panic of the page functions or about memory.
\<close>

theorem kmalloc_spec:
  assumes "heap_inv h (unat (end_mapped_kmemory m)) A" "end_mapped_kmemory m < 0xFFC00000" "req + 80 \<le> 4194304"
  shows "\<exists>r. kmalloc req h m = Some r \<and>
    (\<forall>p h' m'. r = Inr (p, h', m') \<longrightarrow> end_mapped_kmemory m' < 0xFFC00000 \<and>
       (if p = 0 then \<exists>A'. heap_inv h' (unat (end_mapped_kmemory m')) A' \<and> live A' = live A \<and> same_live h h' (live A)
        else new_alloc h (live A) req p h' (unat (end_mapped_kmemory m')))) \<and>
    (\<forall>e. r = Inl e \<longrightarrow> e = Panic ''Out of physical memory'' \<or> (\<exists>n m. k_alloc n m = Inl e))"
proof -
  have "heap_inv h (k_top m) A" "k_good m" "req + 80 \<le> 1024 * 4096" using assms by (simp_all add: k_top_def k_good_def)
  from kheap.malloc_spec [OF this, of True] obtain r where r: "kmalloc req h m = Some r"
    "malloc_res (\<lambda>e. (\<exists>n m. k_alloc n m = Inl e) \<or> True \<and> e = Panic ''Out of physical memory'')
      k_top k_good h (live A) req (req + 32) r" by (auto simp: kmalloc_def)
  have "end_mapped_kmemory m' < 0xFFC00000 \<and>
       (if p = 0 then \<exists>A'. heap_inv h' (unat (end_mapped_kmemory m')) A' \<and> live A' = live A \<and> same_live h h' (live A)
        else new_alloc h (live A) req p h' (unat (end_mapped_kmemory m')))" if "r = Inr (p, h', m')" for p h' m'
    using r(2) malloc_post_new that by (auto simp: malloc_res_def k_top_def k_good_def split: if_splits)
  moreover have "e = Panic ''Out of physical memory'' \<or> (\<exists>n m. k_alloc n m = Inl e)" if "r = Inl e" for e
    using r(2) that by (auto simp: malloc_res_def)
  ultimately show ?thesis using r(1) by blast
qed

lemma kmalloc_spec_witness:
  "\<exists>p h' m'. kmalloc 100 demo_heap run_mem = Some (Inr (p, h', m')) \<and> p = demo_block + 224 \<and>
     new_alloc demo_heap {demo_block + 24} 100 p h' 3233808384"
proof -
  obtain h' where run: "kmalloc 100 demo_heap run_mem = Some (Inr (demo_block + 224, h', run_mem))"
    using demo_malloc by blast
  with kmalloc_spec [of demo_heap run_mem "[(demo_block, [demo_block + 24])]" 100] demo_kheap_inv
  show ?thesis by (simp add: run_mem_end demo_block_def)
qed

text \<open>
  C4: \<open>kfree\<close> of a pointer that \<open>kmalloc\<close> returned and that is still allocated takes exactly
  that allocation away: every other allocation keeps its bytes and its place, the heap stays
  well formed, and it fails only where giving back pages fails.
\<close>

theorem kfree_spec:
  assumes "heap_inv h (unat (end_mapped_kmemory m)) A" "end_mapped_kmemory m < 0xFFC00000" "n \<in> live A"
  shows "(\<exists>e. kfree (p_of n) h m = Inl e \<and> (\<exists>a k. k_give a k m = Inl e)) \<or>
    (\<exists>h' m' A'. kfree (p_of n) h m = Inr (h', m') \<and> end_mapped_kmemory m' = end_mapped_kmemory m \<and>
       heap_inv h' (unat (end_mapped_kmemory m')) A' \<and> live A' = live A - {n} \<and> bytes h' = bytes h \<and>
       (\<forall>k\<in>live A'. payload h' k = payload h k))"
proof -
  have "heap_inv h (k_top m) A" "k_good m" using assms by (simp_all add: k_top_def k_good_def)
  from kheap.free_spec [OF this(1) assms(3) this(2), of True] show ?thesis
  proof (elim disjE exE conjE)
    fix h' m' assume f: "free True k_give (p_of n) h m = Inr (h', m')" "k_top m' = k_top m"
      "freed h (live A) n h' (k_top m)"
    then obtain A' where "heap_inv h' (k_top m) A'" "live A' = live A - {n}" "same_live h h' (live A - {n})"
      by (auto simp: freed_def)
    moreover have "end_mapped_kmemory m' = end_mapped_kmemory m" using f(2) by (simp add: k_top_def word_unat_eq_iff)
    moreover have "bytes h' = bytes h" using \<open>same_live _ _ _\<close> by (simp add: same_live_def)
    ultimately show ?thesis using f(1) payload_same
      by (intro disjI2 exI [of _ h'] exI [of _ m'] exI [of _ A']) (simp add: kfree_def k_top_def)
  qed (auto simp: kfree_def)
qed

lemma demo_free: "\<exists>h' m'. kfree (demo_block + 64) demo_heap run_mem = Inr (h', m')"
proof -
  have i: "heap_inv demo_heap 3233808384 ([] @ (demo_block, [] @ (demo_block + 24) # []) # [])"
    using demo_kheap_inv by simp
  note b = inv_block [OF i]
  obtain y where y: "majors demo_heap demo_block = Some y" "mj_size y = 65536" "mj_pages y = 16"
    by (simp add: demo_heap_def)
  have hi: "demo_block + mj_size y < 2 ^ 32" by (simp add: demo_block_def y(2))
  obtain x where x: "minors demo_heap (demo_block + 24) = Some x" "mn_block x = demo_block"
    "free True k_give (p_of (demo_block + 24)) demo_heap run_mem = free_minor True k_give (demo_block + 24) x demo_heap run_mem"
    by (rule free_eq [OF i])
  from unlink_eq [OF b(1) y(1) x(1) hi] obtain h1 where h1: "unlink_minor (demo_block + 24) x demo_heap = Inr h1"
    "unlinked demo_heap demo_block y [] [] (demo_block + 24) x h1" by blast
  define y1 where "y1 = y\<lparr>mj_usage := mj_usage y - (mn_size x + 24), mj_first := 0\<rparr>"
  have y1: "majors h1 demo_block = Some y1" using h1(2) by (simp add: unlinked_def y1_def)
  have i1: "heap_inv h1 3233808384 ([] @ (demo_block, []) # [])"
    using unlinked_inv(1) [OF i y(1) x(1) h1(2)] by simp
  have "vmm_get_physaddr run_mem 0xC0B00000 = Inr 0"
    using get_physaddr_eq [OF run_mem_self] by (simp add: eval_mem)
  then have "free_loop run_mem 0xC0B00000 (Suc 15) = Inr (1, run_mem)" unfolding free_loop.simps by simp
  moreover have "(of_nat demo_block :: u32) = 0xC0B00000" by (simp add: demo_block_def)
  ultimately have g: "k_give demo_block 16 run_mem = Inr run_mem" by (simp add: k_give_def liballoc_free_def)
  from release_eq [OF i1 y1, of k_give run_mem] have "\<exists>h'. release_block k_give demo_block y1 h1 run_mem = Inr (h', run_mem)"
    using g y(3) by (auto simp: y1_def)
  then show ?thesis
    using h1(1) x(2,3) y1 by (auto simp: kfree_def demo_p_of free_minor_def maj_at_def y1_def)
qed

lemma kfree_spec_witness:
  "\<exists>h' m' A'. kfree (p_of (demo_block + 24)) demo_heap run_mem = Inr (h', m') \<and>
     heap_inv h' (unat (end_mapped_kmemory m')) A' \<and> live A' = {}"
proof -
  have "heap_inv demo_heap (unat (end_mapped_kmemory run_mem)) [(demo_block, [demo_block + 24])]"
    using demo_kheap_inv by (simp add: run_mem_end)
  from kfree_spec [OF this run_mem_end(2), of "demo_block + 24"] demo_free show ?thesis
    by (auto simp: demo_p_of)
qed



text \<open>
  C6: The same for user programs, over \<open>sbrk\<close>: \<open>malloc\<close> always returns, and for every request of
  up to a gigabyte, less the headers, it gives a new allocation that overlaps no other, or the
  null pointer, with the allocations as they were and the break in bounds.
\<close>

theorem umalloc_spec:
  assumes "heap_inv h (unat (brk p)) A" "brk_ok p" "req + 80 \<le> 1073741824"
  shows "\<exists>r. umalloc req h (m, p) = Some r \<and>
    (\<forall>q h' m' p'. r = Inr (q, h', (m', p')) \<longrightarrow> brk_ok p' \<and>
       (if q = 0 then \<exists>A'. heap_inv h' (unat (brk p')) A' \<and> live A' = live A \<and> same_live h h' (live A)
        else new_alloc h (live A) req q h' (unat (brk p')))) \<and>
    (\<forall>e. r = Inl e \<longrightarrow> (\<exists>n s. u_alloc n s = Inl e))"
proof -
  have "heap_inv h (u_top (m, p)) A" "u_good (m, p)" "req + 80 \<le> 262144 * 4096" using assms by (simp_all add: u_top_def u_good_def)
  from uheap.malloc_spec [OF this, of False] obtain r where r: "umalloc req h (m, p) = Some r"
    "malloc_res (\<lambda>e. (\<exists>n m. u_alloc n m = Inl e) \<or> False \<and> e = Panic ''Out of physical memory'')
      u_top u_good h (live A) req (req + 32) r" by (auto simp: umalloc_def)
  have "brk_ok p' \<and>
       (if q = 0 then \<exists>A'. heap_inv h' (unat (brk p')) A' \<and> live A' = live A \<and> same_live h h' (live A)
        else new_alloc h (live A) req q h' (unat (brk p')))" if "r = Inr (q, h', (m', p'))" for q h' m' p'
    using r(2) malloc_post_new that by (auto simp: malloc_res_def u_top_def u_good_def split: if_splits)
  moreover have "\<exists>n s. u_alloc n s = Inl e" if "r = Inl e" for e
    using r(2) that by (auto simp: malloc_res_def)
  ultimately show ?thesis using r(1) by blast
qed

definition no_heap :: heap where
  "no_heap = \<lparr>majors = Map.empty, minors = Map.empty, aligns = Map.empty, bytes = (\<lambda>_. NUL), memRoot = 0, bestBet = 0,
     l_allocated = 0, l_inuse = 0, warnings = 0, errors = 0, overruns = 0\<rparr>"

lemma umalloc_spec_witness:
  "\<exists>r. umalloc 100 no_heap (run_mem, brk_demo) = Some r \<and>
     (\<forall>q h' m' p'. r = Inr (q, h', (m', p')) \<longrightarrow> brk_ok p')"
proof -
  have "heap_inv no_heap (unat (brk brk_demo)) []"
    by (simp add: heap_inv_def no_heap_def brk_demo_def demo_process_def)
  moreover have "brk_ok brk_demo"
    by (simp add: brk_ok_def minbrk_def brk_demo_def demo_process_def KERNEL_START_def)
  ultimately show ?thesis using umalloc_spec [of no_heap brk_demo "[]" 100 run_mem] by auto
qed

text \<open>
  The room for alignment and the header wraps around at 32 bits. A request for the last bytes
  of the address space succeeds with a block of a few bytes, where it should fail.
\<close>

lemma malloc_wraps:
  assumes "0xFFFFFFE0 < req" "req < 2 ^ 32"
  shows "malloc kcopy al req h m = malloc_size kcopy al (req - 0xFFFFFFE0) req h m \<and> req - 0xFFFFFFE0 < 32"
proof -
  have "(req + 32) mod 2 ^ 32 = req - 0xFFFFFFE0"
  proof -
    have "req + 32 = (req - 0xFFFFFFE0) + 2 ^ 32" using assms(1) by simp
    moreover have "req - 0xFFFFFFE0 < 2 ^ 32" using assms(2) by simp
    ultimately show ?thesis by (metis mod_add_self2 mod_less)
  qed
  then show ?thesis using assms by (simp add: malloc_def add32_def ALIGNMENT_def ALIGN_INFO_def)
qed

lemma malloc_wraps_witness:
  "kmalloc 0xFFFFFFF0 demo_heap run_mem = malloc_size True k_alloc 16 0xFFFFFFF0 demo_heap run_mem"
  using malloc_wraps [where req = "0xFFFFFFF0" and kcopy = True and al = k_alloc and h = demo_heap and m = run_mem] by (simp add: kmalloc_def)

end
