(* ===== verification/Pload.thy ===== *)
theory Pload
  imports Schedule
begin

section \<open>The program loader\<close>

text \<open>
  \<open>kernel/kernel/sched/pload.c\<close> (the part that reads the file is in \<open>Syscall\<close>). The ELF image
  is the byte string the file system delivered; every field is read at its offset in
  \<open>elf.h\<close>, and a read past the end of the image is a \<open>Fault\<close>. The loader writes the
  segments through the page tables of the new process; it runs with \<open>kmode = 0\<close> and no
  current thread, so a page fault there cannot be handled and is a \<open>Fault\<close> as well. The size
  of the kernel stack, on which the array of page addresses lives, is not modelled.
\<close>

subsection \<open>Reading the image\<close>

definition get8 :: "string \<Rightarrow> nat \<Rightarrow> u8 res" where
  "get8 data i = rbind (aget ''image'' data i) (\<lambda>c. Inr (of_nat (of_char c)))"

definition get16 :: "string \<Rightarrow> nat \<Rightarrow> nat res" where
  "get16 data i = rbind (get8 data i) (\<lambda>a. rbind (get8 data (i + 1)) (\<lambda>b. Inr (unat a + 256 * unat b)))"

definition get32 :: "string \<Rightarrow> nat \<Rightarrow> u32 res" where
  "get32 data i =
     rbind (get16 data i) (\<lambda>a. rbind (get16 data (i + 2)) (\<lambda>b. Inr (of_nat (a + 65536 * b))))"

definition ELFMAG :: string where "ELFMAG = [char_of (0x7F :: nat), CHR ''E'', CHR ''L'', CHR ''F'']"

definition elf_isvalid :: "string \<Rightarrow> int res" where
  "elf_isvalid data =
     rbind (strncmp data (ELFMAG @ [NUL]) 4) (\<lambda>c. if c \<noteq> 0 then Inr 1 else
     rbind (get16 data 18) (\<lambda>e_machine. if e_machine \<noteq> 3 then Inr 2 else
     rbind (get16 data 16) (\<lambda>e_type. if e_type \<noteq> 2 then Inr 3 else
     rbind (get32 data 20) (\<lambda>e_version. if e_version \<noteq> 1 then Inr 4 else
     rbind (get8 data 7) (\<lambda>osabi. if osabi \<noteq> 0 then Inr 5 else
     rbind (get8 data 4) (\<lambda>class. if class \<noteq> 1 then Inr 6 else
     rbind (get8 data 5) (\<lambda>enc. if enc \<noteq> 1 then Inr 7 else Inr 0)))))))"

subsection \<open>Creating a process\<close>

text \<open>The arguments are \<open>None\<close> for a null pointer; the environment is copied unless \<open>nodup\<close>.\<close>

definition pload_create_process ::
  "kernel \<Rightarrow> string \<Rightarrow> nat \<Rightarrow> string \<Rightarrow> string list option \<Rightarrow> bool \<Rightarrow> (int \<times> kernel) res" where
  "pload_create_process s data privilege nm args nodup =
     rbind (elf_isvalid data) (\<lambda>elfvalid.
     if elfvalid \<noteq> 0 then Inr (-1, s)
     else
       rbind (sched_create_process s privilege nm) (\<lambda>(pid, s).
       rbind (upd_proc s pid (\<lambda>p. p\<lparr>p_state := PROCESS_STARTING, p_entrypoint := Image data\<rparr>)) (\<lambda>s.
       rbind (case args of None \<Rightarrow> Inr s
              | Some av \<Rightarrow> upd_proc s pid (\<lambda>p. p\<lparr>argc := int (length av), argv := av\<rparr>)) (\<lambda>s.
       rbind (if nodup
              then upd_proc s pid (\<lambda>p. p\<lparr>environ := [], environ_size := 1, pwd := Some []\<rparr>)
              else
                rbind (cur_proc s) (\<lambda>cur.
                rbind (deref ''pwd'' (pwd cur)) (\<lambda>dir.
                upd_proc s pid (\<lambda>p. p\<lparr>environ := environ cur,
                  environ_size := int (length (environ cur)) + 1, pwd := Some dir\<rparr>)))) (\<lambda>s.
       rbind (sched_create_thread s pid False 0xFEFEFEFE) (\<lambda>(tid, s). Inr (pid, s)))))))"

subsection \<open>Loading the segments\<close>

record segment =
  p_type :: u32
  p_offset :: u32
  p_vaddr :: u32
  p_filesz :: u32
  p_memsz :: u32

definition get_segment :: "string \<Rightarrow> nat \<Rightarrow> segment res" where
  "get_segment data off =
     rbind (get32 data off) (\<lambda>ty.
     rbind (get32 data (off + 4)) (\<lambda>po.
     rbind (get32 data (off + 8)) (\<lambda>va.
     rbind (get32 data (off + 16)) (\<lambda>fs.
     rbind (get32 data (off + 20)) (\<lambda>ms.
     Inr \<lparr>p_type = ty, p_offset = po, p_vaddr = va, p_filesz = fs, p_memsz = ms\<rparr>)))))"

primrec alloc_pages :: "mem \<Rightarrow> nat \<Rightarrow> (u32 list \<times> mem) res" where
  "alloc_pages m 0 = Inr ([], m)"
| "alloc_pages m (Suc n) =
     rbind (pmm_alloc_page m) (\<lambda>(p, m).
     rbind (alloc_pages m n) (\<lambda>(ps, m). Inr (p # ps, m)))"

definition seg_pages :: "segment \<Rightarrow> nat" where
  "seg_pages sg = unat (p_memsz sg) div 4096 + (if unat (p_memsz sg) mod 4096 \<noteq> 0 then 1 else 0)"

definition put_bytes :: "mem \<Rightarrow> u32 \<Rightarrow> string \<Rightarrow> mem res" where
  "put_bytes m va data =
     (let (r, m) = to_user_loop m va data in
      if r = -1 then Inl (Fault ''page fault in the loader'') else Inr m)"

definition slice :: "string \<Rightarrow> nat \<Rightarrow> nat \<Rightarrow> string res" where
  "slice data off n =
     (if off + n \<le> length data then Inr (take n (drop off data)) else Inl (Fault ''image''))"

definition load_segment :: "mem \<Rightarrow> string \<Rightarrow> segment \<Rightarrow> (bool \<times> mem) res" where
  "load_segment m data sg =
     rbind (alloc_pages m (seg_pages sg)) (\<lambda>(pages, m).
     rbind (vmm_map_pages_loc m pages (p_vaddr sg) 0x7) (\<lambda>(r, m).
     if r = 0 then Inr (False, m)
     else
       rbind (slice data (unat (p_offset sg)) (unat (p_filesz sg))) (\<lambda>bytes.
       rbind (put_bytes m (p_vaddr sg) bytes) (\<lambda>m.
       rbind (put_bytes m (p_vaddr sg + p_filesz sg)
                (replicate (unat (p_memsz sg - p_filesz sg)) NUL)) (\<lambda>m.
       Inr (True, m))))))"

text \<open>
  The loop over the program headers: the process, the end of the data so far and the memory;
  the flag is False when a segment could not be mapped. The index of a header is computed in
  \<open>int\<close> and added to a \<open>uint32_t\<close>.
\<close>

primrec load_loop ::
  "mem \<Rightarrow> process \<Rightarrow> string \<Rightarrow> u32 \<Rightarrow> nat \<Rightarrow> u32 \<Rightarrow> nat list \<Rightarrow> (bool \<times> u32 \<times> process \<times> mem) res" where
  "load_loop m p data phoff phentsize fin [] = Inr (True, fin, p, m)"
| "load_loop m p data phoff phentsize fin (i # is) =
     (if phentsize * i \<ge> 2 ^ 31 then Inl (Fault ''signed overflow'')
      else
        rbind (get_segment data (unat (phoff + of_nat (phentsize * i)))) (\<lambda>sg.
        if p_type sg \<noteq> 1 then load_loop m p data phoff phentsize fin is
        else
          rbind (load_segment m data sg) (\<lambda>(done, m).
          if \<not> done then Inr (False, fin, p, m)
          else
            let fin = (if fin < p_memsz sg + p_vaddr sg then p_memsz sg + p_vaddr sg else fin) in
            if length (psregions p) \<ge> 64 then Inl (Fault ''psregions'')
            else if seg_pages sg * 4096 \<ge> 2 ^ 31 then Inl (Fault ''signed overflow'')
            else load_loop m (p\<lparr>pages_used := pages_used p + of_nat (seg_pages sg),
                psregions := psregions p @ [(p_vaddr sg, of_nat (seg_pages sg * 4096))]\<rparr>)
              data phoff phentsize fin is)))"

definition image_of :: "process \<Rightarrow> string res" where
  "image_of p = (case p_entrypoint p of Image data \<Rightarrow> Inr data | Address a \<Rightarrow> Inl (Fault ''no image''))"

definition loaded_process :: "process \<Rightarrow> u32 \<Rightarrow> process" where
  "loaded_process p fin =
     (let b = fin div 4096 * 4096; b = (if fin mod 4096 \<noteq> 0 then b + 4096 else b) in
      p\<lparr>brk := b, pgbrk := b, p_entrypoint := Address 0, p_state := PROCESS_RUNNING\<rparr>)"

definition pload_load_process :: "kernel \<Rightarrow> int \<Rightarrow> int \<Rightarrow> (int \<times> kernel) res" where
  "pload_load_process s pid tid =
     (let s = s\<lparr>kmode := False\<rparr> in
      rbind (proc s pid) (\<lambda>p.
      let p = p\<lparr>p_state := PROCESS_LOADING\<rparr>; m = kmem s; oldcr3 = cr3 m; m = m\<lparr>cr3 := p_cr3 p\<rparr> in
      rbind (image_of p) (\<lambda>data.
      rbind (get16 data 44) (\<lambda>phnum.
      rbind (if phnum = 0 then Inr (0, 0) else
               rbind (get32 data 28) (\<lambda>phoff. rbind (get16 data 42) (\<lambda>phentsize. Inr (phoff, phentsize))))
        (\<lambda>(phoff, phentsize).
      rbind (load_loop m p data phoff phentsize 0 [0..<phnum]) (\<lambda>(done, fin, p, m).
      if \<not> done then
        Inr (-1, put_proc pid (Some p) (s\<lparr>kmem := m\<lparr>cr3 := oldcr3\<rparr>\<rparr>))
      else
        rbind (get32 data 24) (\<lambda>e_entry.
        rbind (thread s tid) (\<lambda>t.
        rbind (aset ''esp_k'' (esp_k t) 14 e_entry) (\<lambda>regs.
        Inr (0, (put_thread tid (Some (t\<lparr>esp_k := regs, t_state := THREAD_RUNNING\<rparr>))
                  (put_proc pid (Some (loaded_process p fin)) (s\<lparr>kmem := m\<lparr>cr3 := oldcr3\<rparr>\<rparr>)))
               \<lparr>kmode := True\<rparr>))))))))))"

subsection \<open>The contract the scheduler relies on\<close>

lemma pload_load_process_loaded:
  assumes run: "pload_load_process s pid tid = Inr (r, s')" and t: "thread s tid = Inr t"
  shows "loaded tid s s'"
proof -
  let ?s = "\<lambda>m. s\<lparr>kmode := False, kmem := m\<rparr>"
  have t': "thread (s\<lparr>kmode := False\<rparr>) tid = Inr t" using t by (simp add: thread_Inr last_tid_def)
  from run t' obtain p m regs where
    "s' = put_proc pid (Some p) (?s m) \<or>
     s' = (put_thread tid (Some (t\<lparr>esp_k := regs, t_state := THREAD_RUNNING\<rparr>))
             (put_proc pid (Some p) (?s m)))\<lparr>kmode := True\<rparr>"
    unfolding pload_load_process_def Let_def by (auto simp: rbind_eq_Inr split: if_splits)
  then show ?thesis
    using t by (elim disjE) (auto simp: loaded_def same_queue_def put_proc_def put_thread_def thread_Inr last_tid_def)
qed

interpretation pload: program_loader pload_load_process
  by unfold_locales (rule pload_load_process_loaded)

text \<open>
  C1: The scheduler always finds a thread. With the program loader of the kernel, the search
  loop of \<open>sched_pick_next\<close> ends within its bound, and unless the kernel panics it leaves a
  current thread that is running and belongs to the current process, which is alive. It only
  needs the idle thread to be a kernel thread that is running or starting, and no thread to
  wait for its own process; both still hold afterwards.
\<close>

theorem sched_pick_next_progress:
  assumes "idle_ok s" "no_self_wait s"
  shows "(\<exists>r. pick_loop (pick_fuel s) pload_load_process (s\<lparr>currenttid := -1\<rparr>) False = Some r) \<and>
    (\<forall>s'. sched_pick_next pload_load_process s = Inr s' \<longrightarrow>
       currenttid s' \<noteq> -1 \<and> current_ok s' \<and> idle_ok s' \<and> no_self_wait s')"
  using pload.sched_pick_next_total [OF assms] by (auto simp: sched_pick_next_def)

lemma sched_pick_next_progress_witness:
  "\<exists>r. pick_loop (pick_fuel demo) pload_load_process (demo\<lparr>currenttid := -1\<rparr>) False = Some r"
proof -
  have "idle_ok demo" by (simp add: idle_ok_def demo_def thread_Inr last_tid_def demo_thread_def)
  moreover have "no_self_wait demo" by (auto simp: no_self_wait_def demo_def demo_thread_def)
  ultimately show ?thesis using sched_pick_next_progress [of demo] by blast
qed

end
