(* ===== verification/CToken.thy ===== *)
theory CToken
  imports CString
begin

section \<open>Spans and tokens of libc/string\<close>

text \<open>
  \<open>strspn.c\<close>, \<open>strpbrk.c\<close> and \<open>strtok.c\<close>. The tokeniser is compared
  with \<open>tokens\<close>, the splitting of a string at delimiters that drops empty pieces; the
  path resolution of the virtual file system rests on that.
\<close>

subsection \<open>Spans\<close>

text \<open>The 256-entry table, filled from a terminated list of characters.\<close>

fun char_table :: "(char \<Rightarrow> bool) \<Rightarrow> string \<Rightarrow> (char \<Rightarrow> bool) res" where
  "char_table t [] = Inl (Fault ''strspn table'')"
| "char_table t (c # cs) = (if c \<noteq> NUL then char_table (t(c := True)) cs else Inr t)"

text \<open>Counting while the bytes satisfy a test.\<close>

fun count_while :: "(char \<Rightarrow> bool) \<Rightarrow> string \<Rightarrow> nat res" where
  "count_while P [] = Inl (Fault ''strspn'')"
| "count_while P (c # cs) = (if P c then rbind (count_while P cs) (\<lambda>n. Inr (Suc n)) else Inr 0)"

definition strspn :: "string \<Rightarrow> string \<Rightarrow> nat res" where
  "strspn s accept =
     rbind (aget ''strspn'' accept 0) (\<lambda>a0.
     if a0 = NUL then Inr 0
     else rbind (aget ''strspn'' accept 1) (\<lambda>a1.
     if a1 = NUL then count_while (\<lambda>c. c = a0) s
     else rbind (char_table (\<lambda>c. False) accept) (\<lambda>table.
     count_while (\<lambda>c. c \<noteq> NUL \<and> table c) s)))"

definition strcspn :: "string \<Rightarrow> string \<Rightarrow> nat res" where
  "strcspn s1 s2 =
     rbind (char_table (\<lambda>c. False) s2) (\<lambda>rejected.
     count_while (\<lambda>c. c \<noteq> NUL \<and> \<not> rejected c) s1)"

definition strpbrk :: "string \<Rightarrow> string \<Rightarrow> nat option res" where
  "strpbrk s accept =
     rbind (strcspn s accept) (\<lambda>k.
     rbind (aget ''strpbrk'' s k) (\<lambda>c.
     Inr (if c \<noteq> NUL then Some k else None)))"

lemma char_table_ok:
  "terminated cs \<Longrightarrow> char_table t cs = Inr (\<lambda>c. t c \<or> c \<in> set (cstr cs))"
  by (induction cs arbitrary: t) (auto simp: fun_eq_iff)

lemma count_while_ok:
  "terminated s \<Longrightarrow> \<not> P NUL \<Longrightarrow> count_while P s = Inr (length (takeWhile P (cstr s)))"
  by (induction s) auto

lemma cstr_nth_0: "terminated s \<Longrightarrow> s ! 0 = NUL \<longleftrightarrow> cstr s = []"
  by (cases s) auto

lemma terminated_length: "terminated s \<Longrightarrow> 0 < length s"
  by (cases s) auto

lemma strspn_ok:
  assumes "terminated s" "terminated accept"
  shows "strspn s accept = Inr (length (takeWhile (\<lambda>c. c \<in> set (cstr accept)) (cstr s)))"
proof (cases accept)
  case Nil
  with assms show ?thesis by simp
next
  case (Cons a0 rest)
  show ?thesis
  proof (cases "a0 = NUL")
    case True
    then show ?thesis by (simp add: strspn_def Cons takeWhile_eq_Nil_iff)
  next
    case False
    with assms Cons have rest: "terminated rest" by simp
    show ?thesis
    proof (cases "rest ! 0 = NUL")
      case True
      with rest have "cstr rest = []" by (simp add: cstr_nth_0)
      with True False Cons assms rest terminated_length [OF rest] show ?thesis
        by (simp add: strspn_def count_while_ok)
    next
      case n1: False
      have "takeWhile (\<lambda>c. c \<noteq> NUL \<and> c \<in> set (cstr accept)) (cstr s)
          = takeWhile (\<lambda>c. c \<in> set (cstr accept)) (cstr s)"
        by (rule takeWhile_cong) auto
      moreover have "accept ! 1 \<noteq> NUL" "accept ! 0 \<noteq> NUL" "1 < length accept" "accept \<noteq> []"
        using n1 False Cons terminated_length [OF rest] by auto
      ultimately show ?thesis
        using assms by (simp add: strspn_def char_table_ok count_while_ok aget_def)
    qed
  qed
qed

lemma strcspn_ok:
  assumes "terminated s" "terminated delim"
  shows "strcspn s delim = Inr (length (takeWhile (\<lambda>c. c \<notin> set (cstr delim)) (cstr s)))"
proof -
  have "takeWhile (\<lambda>c. c \<noteq> NUL \<and> c \<notin> set (cstr delim)) (cstr s)
      = takeWhile (\<lambda>c. c \<notin> set (cstr delim)) (cstr s)"
    by (rule takeWhile_cong) (use NUL_notin_cstr [of s] in auto)
  with assms show ?thesis by (simp add: strcspn_def char_table_ok count_while_ok)
qed

lemma strpbrk_found:
  assumes "NUL \<notin> set a" "set a \<inter> set (cstr delim) = {}" "d \<in> set (cstr delim)"
    "terminated delim" "terminated b"
  shows "strpbrk (a @ d # b) delim = Inr (Some (length a))"
proof -
  have d: "d \<noteq> NUL" using assms(3) NUL_notin_cstr by metis
  have c: "cstr (a @ d # b) = a @ d # cstr b"
    using assms(1) d by (induction a) auto
  have t: "terminated (a @ d # b)" using assms(5) by (auto simp: terminated_def)
  have "takeWhile (\<lambda>c. c \<notin> set (cstr delim)) (a @ d # cstr b) = a"
    using assms(2,3) by (intro takeWhile_append_stop) auto
  with assms(4) c t d show ?thesis
    by (simp add: strpbrk_def strcspn_ok)
qed

lemma strpbrk_none:
  assumes "NUL \<notin> set a" "set a \<inter> set (cstr delim) = {}" "terminated delim"
  shows "strpbrk (a @ NUL # b) delim = Inr None"
proof -
  have tw: "takeWhile (\<lambda>c. c \<notin> set (cstr delim)) a = a"
    using assms(2) by (auto simp: takeWhile_eq_all_conv)
  with assms show ?thesis by (simp add: strpbrk_def strcspn_ok tw)
qed

subsection \<open>Tokens\<close>

text \<open>\<open>__rawmemchr(s, 0)\<close> of \<open>memchr.c\<close>, the only way the tokeniser calls it.\<close>

definition rawmemchr_nul :: "string \<Rightarrow> nat res" where
  "rawmemchr_nul s = strlen s"

text \<open>
  \<open>strtok_r\<close> (\<open>strtok.c\<close>) over the object \<open>buf\<close>; \<open>s\<close> is the pointer argument,
  \<open>None\<close> for the null pointer, and \<open>olds\<close> the saved pointer. The result is the token's
  offset, the object after the delimiter was overwritten, and the new saved pointer.
  \<open>strtok\<close> is the same code with the saved pointer in a static variable.
\<close>

definition strtok_end :: "string \<Rightarrow> nat \<Rightarrow> string \<Rightarrow> (nat option \<times> string \<times> nat) res" where
  "strtok_end buf token delim =
     rbind (strpbrk (drop token buf) delim) (\<lambda>r.
     case r of
       None \<Rightarrow> rbind (rawmemchr_nul (drop token buf)) (\<lambda>n. Inr (Some token, buf, token + n))
     | Some k \<Rightarrow> rbind (aset ''strtok'' buf (token + k) NUL) (\<lambda>buf.
         Inr (Some token, buf, token + k + 1)))"

definition strtok_r :: "string \<Rightarrow> nat option \<Rightarrow> string \<Rightarrow> nat \<Rightarrow> (nat option \<times> string \<times> nat) res"
  where
  "strtok_r buf s delim olds =
     (let s = (case s of None \<Rightarrow> olds | Some p \<Rightarrow> p) in
      rbind (strspn (drop s buf) delim) (\<lambda>k.
      let s = s + k in
      rbind (aget ''strtok'' buf s) (\<lambda>c.
      if c = NUL then Inr (None, buf, s) else strtok_end buf s delim)))"

text \<open>\<open>strtok\<close> is the same code over the static variable \<open>olds\<close> of its file.\<close>

definition strtok :: "string \<Rightarrow> nat option \<Rightarrow> string \<Rightarrow> nat \<Rightarrow> (nat option \<times> string \<times> nat) res" where
  "strtok buf s delim olds_static =
     (let s = (case s of Some s \<Rightarrow> s | None \<Rightarrow> olds_static) in
      rbind (strspn (drop s buf) delim) (\<lambda>k.
      rbind (aget ''strtok'' buf (s + k)) (\<lambda>c.
      if c = NUL then Inr (None, buf, s + k) else strtok_end buf (s + k) delim)))"

lemma strtok_eq: "strtok buf s delim olds = strtok_r buf s delim olds"
  by (simp add: strtok_def strtok_r_def Let_def)


function tokens :: "char set \<Rightarrow> string \<Rightarrow> string list" where
  "tokens D s =
     (let t = dropWhile (\<lambda>c. c \<in> D) s in
      if t = [] then []
      else takeWhile (\<lambda>c. c \<notin> D) t # tokens D (dropWhile (\<lambda>c. c \<notin> D) t))"
  by pat_completeness auto
termination
proof (relation "measure (\<lambda>(D, s). length s)", goal_cases)
  case (2 D s t)
  let ?u = "dropWhile (\<lambda>c. c \<in> D) s"
  from 2 obtain x xs where u: "?u = x # xs" by (cases ?u) auto
  then have "x \<notin> D" by (metis hd_dropWhile list.distinct(1) list.sel(1))
  then have "length (dropWhile (\<lambda>c. c \<notin> D) ?u) \<le> length xs"
    by (simp add: u length_dropWhile_le)
  also have "length xs < length s"
    using u length_dropWhile_le [of "\<lambda>c. c \<in> D" s] by simp
  finally show ?case using 2 by simp
qed simp

declare tokens.simps [simp del]

lemma tokens_dropWhile: "tokens D (dropWhile (\<lambda>c. c \<in> D) s) = tokens D s"
  by (simp add: tokens.simps [of D s] tokens.simps [of D "dropWhile (\<lambda>c. c \<in> D) s"] Let_def)

lemma tokens_Nil: "(\<forall>c\<in>set s. c \<in> D) \<Longrightarrow> tokens D s = []"
  by (simp add: tokens.simps [of D s] Let_def)

lemma tokens_Cons_delim: "d \<in> D \<Longrightarrow> tokens D (d # s) = tokens D s"
  using tokens_dropWhile [of D s] tokens_dropWhile [of D "d # s"] by simp

lemma tokens_last:
  "a \<noteq> [] \<Longrightarrow> set a \<inter> D = {} \<Longrightarrow> tokens D a = [a]"
proof -
  assume a: "a \<noteq> []" "set a \<inter> D = {}"
  then have "dropWhile (\<lambda>c. c \<in> D) a = a" by (cases a) auto
  moreover have tw: "takeWhile (\<lambda>c. c \<notin> D) a = a" and dw: "dropWhile (\<lambda>c. c \<notin> D) a = []"
    using a(2) by (auto simp: takeWhile_eq_all_conv dropWhile_eq_Nil_conv)
  ultimately show "tokens D a = [a]"
    using a(1) by (subst tokens.simps) (simp add: tokens_Nil tw dw)
qed

lemma tokens_step:
  assumes "a \<noteq> []" "set a \<inter> D = {}" "d \<in> D"
  shows "tokens D (a @ d # s) = a # tokens D s"
proof -
  have "dropWhile (\<lambda>c. c \<in> D) (a @ d # s) = a @ d # s"
    using assms by (cases a) auto
  moreover have "takeWhile (\<lambda>c. c \<notin> D) (a @ d # s) = a"
    using assms by (intro takeWhile_append_stop) auto
  moreover have "dropWhile (\<lambda>c. c \<notin> D) (a @ d # s) = d # s"
    using assms by (subst dropWhile_append2) auto
  ultimately show ?thesis
    by (subst tokens.simps) (simp add: tokens_Cons_delim [OF assms(3)])
qed

text \<open>One call of \<open>strtok_r\<close> on the rest \<open>r\<close> of an object, in the three shapes of the rest.\<close>

lemma strtok_r_end:
  assumes "terminated delim" "set l \<subseteq> set (cstr delim)"
  shows "strtok_r (pre @ l @ NUL # r) None delim (length pre)
    = Inr (None, pre @ l @ NUL # r, length pre + length l)"
proof -
  have "NUL \<notin> set l" using assms(2) NUL_notin_cstr by blast
  moreover have tw: "takeWhile (\<lambda>c. c \<in> set (cstr delim)) l = l"
    using assms(2) by (auto simp: takeWhile_eq_all_conv)
  ultimately show ?thesis
    using assms(1) by (simp add: strtok_r_def strspn_ok tw nth_append Let_def)
qed

lemma strspn_leading:
  assumes "terminated delim" "set l \<subseteq> set (cstr delim)" "a \<noteq> []" "set a \<inter> set (cstr delim) = {}"
    "NUL \<notin> set a" "terminated b"
  shows "strspn (l @ a @ b) delim = Inr (length l)"
proof -
  obtain x a' where a: "a = x # a'" using assms(3) by (cases a) auto
  have nl: "NUL \<notin> set l" using assms(2) NUL_notin_cstr by blast
  have "cstr (l @ a @ b) = l @ a @ cstr b"
    using nl assms(5) by (induction l) (simp_all add: a, induction a', auto)
  moreover have "takeWhile (\<lambda>c. c \<in> set (cstr delim)) (l @ a @ cstr b) = l"
    unfolding a append_Cons using assms(2,4) a by (intro takeWhile_append_stop) auto
  moreover have "terminated (l @ a @ b)" using assms(6) by (simp add: terminated_def)
  ultimately show ?thesis using assms(1) by (simp add: strspn_ok)
qed

lemma strtok_r_last:
  assumes "terminated delim" "set l \<subseteq> set (cstr delim)" "a \<noteq> []" "set a \<inter> set (cstr delim) = {}"
    "NUL \<notin> set a"
  shows "strtok_r (pre @ l @ a @ NUL # r) None delim (length pre)
    = Inr (Some (length pre + length l), pre @ l @ a @ NUL # r,
           length pre + length l + length a)"
proof -
  obtain x a' where a: "a = x # a'" "x \<noteq> NUL" using assms(3,5) by (cases a) auto
  have "strspn (l @ a @ NUL # r) delim = Inr (length l)"
    using assms by (intro strspn_leading) auto
  moreover have "strpbrk (a @ NUL # r) delim = Inr None"
    using assms by (intro strpbrk_none) auto
  moreover have "strlen (a @ NUL # r) = Inr (length a)"
    using assms(5) by (simp add: strlen_cstr)
  moreover have "aget ''strtok'' (pre @ l @ a @ NUL # r) (length pre + length l) = Inr x"
    by (simp add: a aget_def nth_append)
  ultimately show ?thesis
    using a(2) by (simp add: strtok_r_def strtok_end_def rawmemchr_nul_def Let_def)
qed

lemma strtok_r_more:
  assumes "terminated delim" "set l \<subseteq> set (cstr delim)" "a \<noteq> []" "set a \<inter> set (cstr delim) = {}"
    "NUL \<notin> set a" "d \<in> set (cstr delim)" "terminated r"
  shows "strtok_r (pre @ l @ a @ d # r) None delim (length pre)
    = Inr (Some (length pre + length l), pre @ l @ a @ NUL # r,
           length pre + length l + length a + 1)"
proof -
  obtain x a' where a: "a = x # a'" "x \<noteq> NUL" using assms(3,5) by (cases a) auto
  have "terminated (d # r)" using assms(7) by simp
  then have "strspn (l @ a @ d # r) delim = Inr (length l)"
    using assms by (intro strspn_leading) auto
  moreover have "strpbrk (a @ d # r) delim = Inr (Some (length a))"
    using assms by (intro strpbrk_found) auto
  moreover have "aget ''strtok'' (pre @ l @ a @ d # r) (length pre + length l) = Inr x"
    by (simp add: a aget_def nth_append)
  moreover have "aset ''strtok'' (pre @ l @ a @ d # r) (length pre + length l + length a) NUL
      = Inr (pre @ l @ a @ NUL # r)"
    by (simp add: aset_def list_update_append)
  ultimately show ?thesis
    using a(2) by (simp add: strtok_r_def strtok_end_def Let_def)
qed

lemma strlen_pos: "strlen s = Inr n \<Longrightarrow> s \<noteq> [] \<and> (s ! 0 \<noteq> NUL \<longrightarrow> 0 < n) \<and> n < length s"
proof -
  assume "strlen s = Inr n"
  then have s: "terminated s" "n = length (cstr s)" by (simp_all add: strlen_Inr)
  then obtain r where "s = cstr s @ NUL # r" using terminated_cstr by blast
  from arg_cong [OF this, of length] have "length (cstr s) < length s" by simp
  with s show ?thesis by (cases s) auto
qed

lemma strpbrk_bound: "strpbrk s delim = Inr (Some k) \<Longrightarrow> k < length s"
  by (auto simp: strpbrk_def rbind_eq_Inr aget_Inr split: if_splits)

lemma strtok_end_progress:
  assumes "strtok_end buf token delim = Inr (Some p, buf', olds')"
    "token < length buf" "buf ! token \<noteq> NUL"
  shows "length buf' = length buf \<and> token < olds' \<and> olds' \<le> length buf"
proof -
  from assms(1) obtain r where r: "(case r of
       None \<Rightarrow> rbind (rawmemchr_nul (drop token buf)) (\<lambda>n. Inr (Some token, buf, token + n))
     | Some k \<Rightarrow> rbind (aset ''strtok'' buf (token + k) NUL) (\<lambda>buf.
         Inr (Some token, buf, token + k + 1))) = Inr (Some p, buf', olds')"
    unfolding strtok_end_def by (elim rbind_InrE)
  show ?thesis
  proof (cases r)
    case None
    with r obtain n where "strlen (drop token buf) = Inr n" "buf' = buf" "olds' = token + n"
      by (auto simp: rbind_eq_Inr rawmemchr_nul_def)
    with strlen_pos [of "drop token buf" n] assms(2,3) show ?thesis by auto
  next
    case (Some j)
    with r show ?thesis by (auto simp: rbind_eq_Inr aset_Inr)
  qed
qed

lemma strtok_r_progress:
  assumes "strtok_r buf None delim olds = Inr (Some p, buf', olds')"
  shows "length buf' = length buf \<and> olds < olds' \<and> olds' \<le> length buf"
proof -
  from assms obtain k c where "aget ''strtok'' buf (olds + k) = Inr c"
    "(if c = NUL then Inr (None, buf, olds + k) else strtok_end buf (olds + k) delim)
      = Inr (Some p, buf', olds')"
    unfolding strtok_r_def Let_def option.case by (elim rbind_InrE)
  then have "olds + k < length buf \<and> buf ! (olds + k) \<noteq> NUL
      \<and> strtok_end buf (olds + k) delim = Inr (Some p, buf', olds')"
    by (simp add: aget_Inr split: if_splits)
  then show ?thesis using strtok_end_progress [of buf "olds + k"] by fastforce
qed

text \<open>
  The loop \<open>for (e = strtok_r(NULL, ...); e != NULL; e = strtok_r(NULL, ...))\<close>, as the
  list of the strings its body sees.
\<close>

function strtok_list :: "string \<Rightarrow> string \<Rightarrow> nat \<Rightarrow> string list res" where
  "strtok_list buf delim olds =
     rbind (strtok_r buf None delim olds) (\<lambda>(tok, buf', olds').
     case tok of
       None \<Rightarrow> Inr []
     | Some p \<Rightarrow> rbind (strtok_list buf' delim olds') (\<lambda>ts. Inr (cstr (drop p buf') # ts)))"
  by pat_completeness auto
termination
  by (relation "measure (\<lambda>(buf, delim, olds). length buf - olds)")
    (auto dest!: strtok_r_progress)

declare strtok_list.simps [simp del]

lemma split_token:
  obtains l a b where "s = l @ a @ b" "set l \<subseteq> D" "set a \<inter> D = {}"
    "a = [] \<longrightarrow> b = []" "b \<noteq> [] \<longrightarrow> hd b \<in> D"
proof
  let ?t = "dropWhile (\<lambda>c. c \<in> D) s"
  show "s = takeWhile (\<lambda>c. c \<in> D) s @ takeWhile (\<lambda>c. c \<notin> D) ?t @ dropWhile (\<lambda>c. c \<notin> D) ?t"
    by simp
  show "set (takeWhile (\<lambda>c. c \<in> D) s) \<subseteq> D" by (auto dest: set_takeWhileD)
  show "set (takeWhile (\<lambda>c. c \<notin> D) ?t) \<inter> D = {}" by (auto dest: set_takeWhileD)
  show "takeWhile (\<lambda>c. c \<notin> D) ?t = [] \<longrightarrow> dropWhile (\<lambda>c. c \<notin> D) ?t = []"
  proof
    assume "takeWhile (\<lambda>c. c \<notin> D) ?t = []"
    then have "?t = [] \<or> hd ?t \<in> D" by (cases ?t) (auto split: if_splits)
    then have "?t = []" using hd_dropWhile [of "\<lambda>c. c \<in> D" s] by blast
    then show "dropWhile (\<lambda>c. c \<notin> D) ?t = []" by (simp only: dropWhile.simps)
  qed
  show "dropWhile (\<lambda>c. c \<notin> D) ?t \<noteq> [] \<longrightarrow> hd (dropWhile (\<lambda>c. c \<notin> D) ?t) \<in> D"
    using hd_dropWhile [of "\<lambda>c. c \<notin> D" ?t] by auto
qed

lemma strtok_list_ok:
  assumes "terminated delim" "NUL \<notin> set s"
  shows "strtok_list (pre @ s @ NUL # r) delim (length pre) = Inr (tokens (set (cstr delim)) s)"
  using assms(2)
proof (induction "length s" arbitrary: s pre rule: less_induct)
  case less
  let ?D = "set (cstr delim)"
  obtain l a b where s: "s = l @ a @ b" "set l \<subseteq> ?D" "set a \<inter> ?D = {}"
    "a = [] \<longrightarrow> b = []" "b \<noteq> [] \<longrightarrow> hd b \<in> ?D"
    using split_token by metis
  have tok_l: "tokens ?D (l @ x) = tokens ?D x" for x
    using s(2) by (induction l) (auto simp: tokens_Cons_delim)
  show ?case
  proof (cases "a = []")
    case True
    have "tokens ?D l = []" using s(2) by (intro tokens_Nil) auto
    with s assms(1) True show ?thesis
      by (subst strtok_list.simps) (auto simp: strtok_r_end)
  next
    case a: False
    from less.prems s(1) have nul: "NUL \<notin> set a" "NUL \<notin> set b" by auto
    show ?thesis
    proof (cases b)
      case Nil
      have "strtok_list ((pre @ l @ a) @ [] @ NUL # r) delim (length (pre @ l @ a)) = Inr (tokens ?D [])"
        using a s(1) by (intro less.hyps) auto
      then show ?thesis
        using assms(1) s a nul Nil
        by (subst strtok_list.simps)
          (simp add: strtok_r_last tok_l tokens_last tokens_Nil add.assoc)
    next
      case (Cons d b')
      with s(5) have d: "d \<in> ?D" by simp
      have "strtok_list ((pre @ l @ a @ [NUL]) @ b' @ NUL # r) delim (length (pre @ l @ a @ [NUL]))
          = Inr (tokens ?D b')"
        using nul(2) Cons s(1) by (intro less.hyps) auto
      then show ?thesis
        using assms(1) s a nul d Cons
          strtok_r_more [of delim l a d "b' @ NUL # r" pre]
        by (subst strtok_list.simps) (simp add: tok_l tokens_step add.assoc)
    qed
  qed
qed

section \<open>The property\<close>

text \<open>
  Calling \<open>strtok_r\<close> until it returns null, on a C string \<open>s\<close> anywhere in a buffer,
  terminates, never leaves the buffer, and returns exactly the maximal runs of characters
  that are not delimiters, in order: no empty token, no delimiter inside a token.
\<close>

theorem strtok_tokens:
  assumes "terminated delim" "NUL \<notin> set s"
  shows "strtok_list (pre @ s @ NUL # r) delim (length pre) = Inr (tokens (set (cstr delim)) s)"
  using assms by (rule strtok_list_ok)

lemma strtok_tokens_witness:
  "strtok_list (''/dev//rd0/'' @ [NUL]) [CHR ''/'', NUL] 0 = Inr [''dev'', ''rd0'']"
proof -
  have "tokens {CHR ''/''} ''/dev//rd0/'' = [''dev'', ''rd0'']"
    by (simp add: tokens.simps)
  then show ?thesis
    using strtok_tokens [of "[CHR ''/'', NUL]" "''/dev//rd0/''" "[]" "[]"] by simp
qed

end
