(* ===== verification/Vfs.thy ===== *)
theory Vfs
  imports Pload CToken
begin

section \<open>The virtual file system: state and path lookup\<close>

text \<open>
  \<open>kernel/kernel/drv/fs/vfs.c\<close> and \<open>vfs.h\<close>. Mount points, directories and files are never
  freed, so a pointer to one is its index in the list of those created so far; \<open>None\<close> is the
  null pointer. Names are the characters before the terminator. The operations of a file
  system driver are reached through the driver's number (\<open>mp_fs\<close>, the function pointers of
  \<open>struct vfs_fs_driver\<close>), those of a block device through \<open>bd_block\<close>, which works on the
  bytes of the medium. A fresh heap block holds unspecified bytes (\<open>junk\<close>).
\<close>

subsection \<open>The structures\<close>

type_synonym block_fn = "string \<Rightarrow> bool \<Rightarrow> u32 \<Rightarrow> string \<Rightarrow> (u32 \<times> string \<times> string) res"

record bdev =
  bd_block :: block_fn
  bd_medium :: string
  bd_blocksize :: u32
  bd_blocks :: u32
  bd_name :: string
  bd_mountpoint :: "nat option"
  bd_mounted :: bool
  bd_ispartition :: u8
  bd_id :: u32

text \<open>What a driver keeps in \<open>mountpoint->extra\<close>. For FAT, \<open>struct fat_info\<close> with its boot sector:\<close>

record fat_bs =
  bytes_per_sector :: u16
  sectors_per_cluster :: u8
  reserved_sector_count :: u16
  table_count :: u8
  root_entry_count :: u16
  total_sectors_16 :: u16
  table_size_16 :: u16
  total_sectors_32 :: u32
  table_size_32 :: u32
  root_cluster :: u32

record fat_info =
  fat_type :: nat
  total_clusters :: u32
  fat_size :: u32
  first_data_sector :: u32
  data_sectors :: u32
  total_sectors :: u32
  root_dir_sectors :: u32
  root_dir_lba :: u32
  root_dir_cluster :: u32
  first_fat_sector :: u32
  fat_table :: string
  fatbs :: fat_bs
  fentries :: "string list"
  fentries_size :: nat

text \<open>
  For ISO 9660, \<open>struct iso9660_fs_info\<close>: the volume descriptor, the path table, the positions of its entries
  and the directories they became, and the directory records of the files (\<open>None\<close> is a slot
  that was not written).
\<close>

record iso_info =
  iso_pvd :: string
  iso_pathtable :: string
  ptentries :: "nat list"
  direntries :: "nat list"
  iso_fentries :: "nat \<Rightarrow> string option"
  iso_fentries_size :: u32
  iso_fentries_loc :: u32

datatype extra = NoExtra | FatExtra fat_info | IsoExtra iso_info

record mount =
  mp_name :: string
  mp_bd :: nat
  mp_fs :: nat
  mp_root :: nat
  mp_extra :: extra
  mp_rw :: bool

record vdir =
  d_name :: "string option"
  d_parent :: "nat option"
  d_volume :: nat
  d_files :: "nat list"
  d_files_size :: nat
  d_dirs :: "nat list"
  d_dirs_size :: nat
  d_id :: u32
  d_attributes :: u8

record vfile =
  f_name :: string
  f_parent :: nat
  f_volume :: nat
  f_id :: u32
  f_size :: u32
  f_created :: u32
  f_modified :: u32
  f_attributes :: u8
  f_open :: int

record vfs =
  bdevs :: "bdev list"
  bdevs_size :: nat
  fsdrivers :: "nat list"
  fsdrivers_size :: nat
  vmounts :: "mount list"
  vdirs :: "vdir list"
  vfiles :: "vfile list"
  junk :: "nat \<Rightarrow> char"

text \<open>
  The function pointers of a driver. \<open>accessfile\<close> gets the open file's record, the buffer of
  a write, the length and the position, and returns its result and the bytes it stored at the
  start of the caller's buffer.
\<close>

record fs_driver =
  fs_mount :: "vfs \<Rightarrow> nat \<Rightarrow> bool \<Rightarrow> (int \<times> vfs) res"
  fs_accessfile :: "vfs \<Rightarrow> nat \<Rightarrow> bool \<Rightarrow> vfile \<Rightarrow> string \<Rightarrow> u32 \<Rightarrow> u32 \<Rightarrow> (int \<times> string) res"
  fs_isvalid :: "vfs \<Rightarrow> nat \<Rightarrow> bool res"
  fs_createfile :: "(vfs \<Rightarrow> nat \<Rightarrow> string \<Rightarrow> (nat option \<times> vfs) res) option"
  fs_createdirectory :: "(vfs \<Rightarrow> nat \<Rightarrow> string \<Rightarrow> (nat option \<times> vfs) res) option"

type_synonym drivers = "nat \<Rightarrow> fs_driver"

definition bdev_at :: "vfs \<Rightarrow> nat \<Rightarrow> bdev res" where "bdev_at v i = aget ''blockdevices'' (bdevs v) i"
definition mount_at :: "vfs \<Rightarrow> nat \<Rightarrow> mount res" where "mount_at v i = aget ''mountpoint'' (vmounts v) i"
definition dir_at :: "vfs \<Rightarrow> nat \<Rightarrow> vdir res" where "dir_at v i = aget ''directory'' (vdirs v) i"
definition file_at :: "vfs \<Rightarrow> nat \<Rightarrow> vfile res" where "file_at v i = aget ''file'' (vfiles v) i"

definition upd_bdev :: "vfs \<Rightarrow> nat \<Rightarrow> (bdev \<Rightarrow> bdev) \<Rightarrow> vfs res" where
  "upd_bdev v i f = rbind (bdev_at v i) (\<lambda>b. Inr (v\<lparr>bdevs := (bdevs v)[i := f b]\<rparr>))"
definition upd_dir :: "vfs \<Rightarrow> nat \<Rightarrow> (vdir \<Rightarrow> vdir) \<Rightarrow> vfs res" where
  "upd_dir v i f = rbind (dir_at v i) (\<lambda>d. Inr (v\<lparr>vdirs := (vdirs v)[i := f d]\<rparr>))"
definition upd_file :: "vfs \<Rightarrow> nat \<Rightarrow> (vfile \<Rightarrow> vfile) \<Rightarrow> vfs res" where
  "upd_file v i f = rbind (file_at v i) (\<lambda>x. Inr (v\<lparr>vfiles := (vfiles v)[i := f x]\<rparr>))"
definition upd_mount :: "vfs \<Rightarrow> nat \<Rightarrow> (mount \<Rightarrow> mount) \<Rightarrow> vfs res" where
  "upd_mount v i f = rbind (mount_at v i) (\<lambda>x. Inr (v\<lparr>vmounts := (vmounts v)[i := f x]\<rparr>))"

subsection \<open>Block devices\<close>

text \<open>The characters before the colon, at most 16; \<open>None\<close> when there is no colon among the first 17.\<close>

fun volume_loop :: "string \<Rightarrow> nat \<Rightarrow> string option" where
  "volume_loop cs 0 = None"
| "volume_loop [] (Suc n) = None"
| "volume_loop (c # cs) (Suc n) = (if c = CHR '':'' then Some [] else map_option ((#) c) (volume_loop cs n))"

fun find_volume :: "vfs \<Rightarrow> bdev list \<Rightarrow> string \<Rightarrow> nat \<Rightarrow> nat option res" where
  "find_volume v [] buf i = Inr None"
| "find_volume v (b # bs) buf i =
     (if bd_mounted b then
        rbind (deref ''mountpoint'' (bd_mountpoint b)) (\<lambda>mp.
        rbind (mount_at v mp) (\<lambda>m.
        if mp_name m = buf then Inr (Some i) else find_volume v bs buf (Suc i)))
      else find_volume v bs buf (Suc i))"

definition vfs_find_block_device_by_path :: "vfs \<Rightarrow> string \<Rightarrow> nat option res" where
  "vfs_find_block_device_by_path v path =
     (case volume_loop path 17 of None \<Rightarrow> Inr None | Some buf \<Rightarrow> find_volume v (bdevs v) buf 0)"

definition vfs_get_block_device :: "vfs \<Rightarrow> u32 \<Rightarrow> nat option" where
  "vfs_get_block_device v i =
     (if of_nat (length (bdevs v)) - 1 > i then None else Some (unat i))"

fun find_bdev_name :: "bdev list \<Rightarrow> string \<Rightarrow> nat \<Rightarrow> nat option" where
  "find_bdev_name [] nm i = None"
| "find_bdev_name (b # bs) nm i = (if bd_name b = nm then Some i else find_bdev_name bs nm (Suc i))"

definition vfs_find_block_device_by_name :: "vfs \<Rightarrow> string \<Rightarrow> nat option" where
  "vfs_find_block_device_by_name v nm = find_bdev_name (bdevs v) nm 0"

definition vfs_register_blockdevice :: "vfs \<Rightarrow> bdev \<Rightarrow> nat \<times> vfs" where
  "vfs_register_blockdevice v b =
     (let n = length (bdevs v);
          v = (if n \<ge> bdevs_size v then v\<lparr>bdevs_size := bdevs_size v + 512\<rparr> else v) in
      (n, v\<lparr>bdevs := bdevs v @ [b\<lparr>bd_id := of_nat (n + 1)\<rparr>]\<rparr>))"

definition get_slice :: "string \<Rightarrow> nat \<Rightarrow> nat \<Rightarrow> string res" where
  "get_slice buf off n =
     (if off + n \<le> length buf then Inr (take n (drop off buf)) else Inl (Fault ''buffer''))"

definition put_slice :: "string \<Rightarrow> nat \<Rightarrow> string \<Rightarrow> string res" where
  "put_slice buf off data =
     (if off + length data \<le> length buf
      then Inr (take off buf @ data @ drop (off + length data) buf) else Inl (Fault ''buffer''))"

text \<open>\<open>vfs_read_blocks\<close> into the buffer \<open>dest\<close> from its byte \<open>off\<close> on.\<close>

primrec read_blocks_loop ::
  "bdev \<Rightarrow> string \<Rightarrow> nat \<Rightarrow> u32 \<Rightarrow> u32 \<Rightarrow> nat list \<Rightarrow> (u32 \<times> string) res" where
  "read_blocks_loop b dest off index bytesread [] = Inr (bytesread, dest)"
| "read_blocks_loop b dest off index bytesread (i # is) =
     (let at = off + unat (of_nat i * bd_blocksize b) in
      rbind (get_slice dest at (unat (bd_blocksize b))) (\<lambda>block.
      rbind (bd_block b (bd_medium b) False (of_nat i + index) block) (\<lambda>(n, block, medium).
      rbind (put_slice dest at block) (\<lambda>dest.
      read_blocks_loop b dest off index (bytesread + n) is))))"

definition vfs_read_blocks :: "string \<Rightarrow> nat \<Rightarrow> bdev \<Rightarrow> u32 \<Rightarrow> u32 \<Rightarrow> (u32 \<times> string) res" where
  "vfs_read_blocks dest off b blocks index = read_blocks_loop b dest off index 0 [0..<unat blocks]"

primrec write_blocks_loop ::
  "bdev \<Rightarrow> string \<Rightarrow> u32 \<Rightarrow> u32 \<Rightarrow> nat list \<Rightarrow> (u32 \<times> bdev) res" where
  "write_blocks_loop b data index byteswritten [] = Inr (byteswritten, b)"
| "write_blocks_loop b data index byteswritten (i # is) =
     rbind (get_slice data (unat (of_nat i * bd_blocksize b)) (unat (bd_blocksize b))) (\<lambda>block.
     rbind (bd_block b (bd_medium b) True (of_nat i + index) block) (\<lambda>(n, block, medium).
     write_blocks_loop (b\<lparr>bd_medium := medium\<rparr>) data index (byteswritten + n) is))"

definition vfs_write_blocks :: "string \<Rightarrow> bdev \<Rightarrow> u32 \<Rightarrow> u32 \<Rightarrow> (u32 \<times> bdev) res" where
  "vfs_write_blocks data b blocks index = write_blocks_loop b data index 0 [0..<unat blocks]"

text \<open>A heap block that has not been written to.\<close>

definition fresh_block :: "vfs \<Rightarrow> nat \<Rightarrow> string" where
  "fresh_block v n = map (junk v) [0..<n]"

subsection \<open>Growing directories\<close>

definition vfs_append_directory :: "vfs \<Rightarrow> nat \<Rightarrow> nat \<Rightarrow> vfs res" where
  "vfs_append_directory v parent child =
     upd_dir v parent (\<lambda>d. d\<lparr>d_dirs := d_dirs d @ [child],
       d_dirs_size := (if d_dirs_size d \<le> length (d_dirs d) then d_dirs_size d + 32 else d_dirs_size d)\<rparr>)"

definition vfs_append_directory_file :: "vfs \<Rightarrow> nat \<Rightarrow> nat \<Rightarrow> vfs res" where
  "vfs_append_directory_file v parent child =
     upd_dir v parent (\<lambda>d. d\<lparr>d_files := d_files d @ [child],
       d_files_size := (if d_files_size d \<le> length (d_files d) then d_files_size d + 32 else d_files_size d)\<rparr>)"

subsection \<open>Mounting\<close>

definition vfs_mount_direct :: "vfs \<Rightarrow> nat \<Rightarrow> mount \<Rightarrow> (nat \<times> vfs) res" where
  "vfs_mount_direct v bd mp =
     rbind (upd_bdev (v\<lparr>vmounts := vmounts v @ [mp]\<rparr>) bd (\<lambda>b. b\<lparr>bd_mountpoint := Some (length (vmounts v))\<rparr>))
       (\<lambda>v'. Inr (length (vmounts v), v'))"

definition vfs_mount :: "drivers \<Rightarrow> vfs \<Rightarrow> nat \<Rightarrow> nat \<Rightarrow> bool \<Rightarrow> string \<Rightarrow> (nat option \<times> vfs) res" where
  "vfs_mount drv v bd fs rw nm =
     rbind (fs_mount (drv fs) v bd rw) (\<lambda>(r, v).
     if r = 0 then
       rbind (upd_bdev v bd (\<lambda>b. b\<lparr>bd_mounted := True\<rparr>)) (\<lambda>v.
       rbind (bdev_at v bd) (\<lambda>b.
       rbind (deref ''mountpoint'' (bd_mountpoint b)) (\<lambda>mp.
       rbind (upd_mount v mp (\<lambda>m. m\<lparr>mp_name := take 16 nm\<rparr>)) (\<lambda>v.
       Inr (Some mp, v)))))
     else Inr (None, v))"

definition vfs_mount_by_id :: "drivers \<Rightarrow> vfs \<Rightarrow> nat \<Rightarrow> nat \<Rightarrow> bool \<Rightarrow> string \<Rightarrow> (nat option \<times> vfs) res" where
  "vfs_mount_by_id drv v bd fs rw nm = vfs_mount drv v bd fs rw nm"

fun detect_loop :: "drivers \<Rightarrow> vfs \<Rightarrow> nat \<Rightarrow> nat list \<Rightarrow> nat option res" where
  "detect_loop drv v bd [] = Inr None"
| "detect_loop drv v bd (fs # fss) =
     rbind (fs_isvalid (drv fs) v bd) (\<lambda>valid.
     if valid then Inr (Some fs) else detect_loop drv v bd fss)"

definition vfs_detect_fs :: "drivers \<Rightarrow> vfs \<Rightarrow> nat \<Rightarrow> nat option res" where
  "vfs_detect_fs drv v bd = detect_loop drv v bd (fsdrivers v)"

definition vfs_register_fsdriver :: "vfs \<Rightarrow> nat \<Rightarrow> nat \<times> vfs" where
  "vfs_register_fsdriver v fs =
     (let n = length (fsdrivers v);
          v = (if n \<ge> fsdrivers_size v then v\<lparr>fsdrivers_size := fsdrivers_size v + 32\<rparr> else v) in
      (n, v\<lparr>fsdrivers := fsdrivers v @ [fs]\<rparr>))"

definition vfs_init :: "vfs \<Rightarrow> vfs" where
  "vfs_init v = v\<lparr>bdevs := [], bdevs_size := 512, fsdrivers := [], fsdrivers_size := 32\<rparr>"

subsection \<open>Looking up a directory\<close>

text \<open>
  The entries of a path: \<open>strtok_r\<close> drops the volume and then splits the rest at slashes. The
  loop of \<open>vfs_find_directory\<close> does not touch the copy of the path, so the entries can be
  taken from it first.
\<close>

definition path_entries :: "string \<Rightarrow> string list res" where
  "path_entries path =
     rbind (strtok_r (path @ [NUL]) (Some 0) [CHR '':'', NUL] 0) (\<lambda>(tok, buf, strptr).
     strtok_list buf [CHR ''/'', NUL] strptr)"

text \<open>
  The scan of the subdirectories for one entry. \<open>searchdir\<close> changes as soon as a name
  matches, and the scan goes on in the new directory with the next index.
\<close>

definition subdir_total :: "vfs \<Rightarrow> nat" where
  "subdir_total v = sum_list (map (\<lambda>d. length (d_dirs d)) (vdirs v))"

function scan_dirs :: "vfs \<Rightarrow> string \<Rightarrow> nat \<Rightarrow> nat \<Rightarrow> bool \<Rightarrow> (nat \<times> bool) res" where
  "scan_dirs v entry i searchdir hit =
     rbind (dir_at v searchdir) (\<lambda>d.
     if i < length (d_dirs d) then
       rbind (dir_at v (d_dirs d ! i)) (\<lambda>c.
       rbind (deref ''directory name'' (d_name c)) (\<lambda>nm.
       if nm = entry then scan_dirs v entry (Suc i) (d_dirs d ! i) True
       else scan_dirs v entry (Suc i) searchdir hit))
     else Inr (searchdir, hit))"
  by pat_completeness auto
termination
proof (relation "measure (\<lambda>(v, entry, i, d, s). subdir_total v - i)", goal_cases)
  have lt: "i < subdir_total v" if "dir_at v sd = Inr d" "i < length (d_dirs d)" for v sd d i
  proof -
    have "d \<in> set (vdirs v)" using that(1) by (auto simp: dir_at_def aget_Inr)
    then have "length (d_dirs d) \<le> subdir_total v"
      unfolding subdir_total_def by (intro member_le_sum_list) auto
    with that(2) show ?thesis by simp
  qed
  case (2 v entry i searchdir hit d c nm)
  with lt [OF 2(1,2)] show ?case by simp
next
  have lt: "i < subdir_total v" if "dir_at v sd = Inr d" "i < length (d_dirs d)" for v sd d i
  proof -
    have "d \<in> set (vdirs v)" using that(1) by (auto simp: dir_at_def aget_Inr)
    then have "length (d_dirs d) \<le> subdir_total v"
      unfolding subdir_total_def by (intro member_le_sum_list) auto
    with that(2) show ?thesis by simp
  qed
  case (3 v entry i searchdir hit d c nm)
  with lt [OF 3(1,2)] show ?case by simp
qed simp

declare scan_dirs.simps [simp del]

fun find_entries :: "vfs \<Rightarrow> string list \<Rightarrow> nat \<Rightarrow> nat option res" where
  "find_entries v [] searchdir = Inr (Some searchdir)"
| "find_entries v (entry # rest) searchdir =
     rbind (scan_dirs v entry 0 searchdir False) (\<lambda>(searchdir, hit).
     rbind (if entry = ''..'' then
              rbind (dir_at v searchdir) (\<lambda>d. Inr (map_option (\<lambda>p. (p, True)) (d_parent d)))
            else Inr (Some (searchdir, hit))) (\<lambda>r.
     case r of None \<Rightarrow> Inr None
     | Some (searchdir, hit) \<Rightarrow>
         let hit = (hit \<or> entry = ''.'') in
         if rest = [] \<and> \<not> hit then Inr None else find_entries v rest searchdir))"

definition vfs_find_directory :: "vfs \<Rightarrow> string \<Rightarrow> nat option res" where
  "vfs_find_directory v path =
     rbind (vfs_find_block_device_by_path v path) (\<lambda>bd.
     case bd of None \<Rightarrow> Inr None
     | Some bd \<Rightarrow>
         rbind (path_entries path) (\<lambda>entries.
         rbind (bdev_at v bd) (\<lambda>b.
         rbind (deref ''mountpoint'' (bd_mountpoint b)) (\<lambda>mp.
         rbind (mount_at v mp) (\<lambda>m.
         find_entries v entries (mp_root m))))))"

subsection \<open>Looking up a file\<close>

text \<open>The part of the path that names the directory, and the name of the file in it.\<close>

definition split_path :: "string \<Rightarrow> (string \<times> string) option res" where
  "split_path path =
     rbind (strchr (path @ [NUL]) (CHR '':'')) (\<lambda>colon.
     case colon of None \<Rightarrow> Inr None
     | Some k \<Rightarrow>
         let pathdupa = drop (k + 1) path in
         rbind (strrchr (pathdupa @ [NUL]) (CHR ''/'')) (\<lambda>last_slash.
         let entry = (case last_slash of None \<Rightarrow> pathdupa | Some j \<Rightarrow> drop (j + 1) pathdupa) in
         rbind (strrchr (path @ [NUL]) (CHR ''/'')) (\<lambda>last_delim.
         case last_delim of Some j \<Rightarrow> Inr (Some (take j path, entry))
         | None \<Rightarrow>
             rbind (strrchr (path @ [NUL]) (CHR '':'')) (\<lambda>last_delim.
             case last_delim of Some j \<Rightarrow> Inr (Some (take (j + 1) path, entry))
             | None \<Rightarrow> Inr (Some (path, entry))))))"

text \<open>The last file of that name in the directory.\<close>

fun scan_files :: "vfs \<Rightarrow> nat list \<Rightarrow> string \<Rightarrow> nat option \<Rightarrow> nat option res" where
  "scan_files v [] entry found = Inr found"
| "scan_files v (f # fs) entry found =
     rbind (file_at v f) (\<lambda>x. scan_files v fs entry (if f_name x = entry then Some f else found))"

definition vfs_find_file :: "vfs \<Rightarrow> string \<Rightarrow> nat option res" where
  "vfs_find_file v path =
     rbind (split_path path) (\<lambda>r.
     case r of None \<Rightarrow> Inr None
     | Some (dirpath, entry) \<Rightarrow>
         rbind (vfs_find_directory v dirpath) (\<lambda>searchdir.
         case searchdir of None \<Rightarrow> Inr None
         | Some d \<Rightarrow> rbind (dir_at v d) (\<lambda>d. scan_files v (d_files d) entry None)))"

subsection \<open>The path of a directory\<close>

text \<open>
  The walk to the root, with the path so far; \<open>None\<close> when it does not fit in \<open>sz\<close> bytes.
  The fuel is the number of directories, enough for any chain of parents without a cycle.
\<close>

primrec path_up :: "vfs \<Rightarrow> nat \<Rightarrow> nat \<Rightarrow> nat \<Rightarrow> string \<Rightarrow> string option res" where
  "path_up v sz 0 currdir w = Inl (Fault ''cyclic directories'')"
| "path_up v sz (Suc n) currdir w =
     rbind (dir_at v currdir) (\<lambda>d.
     case d_parent d of None \<Rightarrow> Inr (Some w)
     | Some parent \<Rightarrow>
         rbind (deref ''directory name'' (d_name d)) (\<lambda>nm.
         if length w + length nm + 2 > sz then Inr None
         else path_up v sz n parent (if length w \<noteq> 0 then nm @ CHR ''/'' # w else nm)))"

text \<open>The result and the string stored at \<open>dst\<close>; a null directory is \<open>None\<close>.\<close>

definition vfs_get_path_directory :: "vfs \<Rightarrow> nat option \<Rightarrow> nat \<Rightarrow> (int \<times> string option) res" where
  "vfs_get_path_directory v dp sz =
     (case dp of None \<Rightarrow> Inr (-1, None)
      | Some d \<Rightarrow>
          if sz = 0 then Inr (-1, None)
          else
            rbind (path_up v sz (length (vdirs v)) d []) (\<lambda>w.
            case w of None \<Rightarrow> Inr (-1, None)
            | Some w \<Rightarrow>
                rbind (dir_at v d) (\<lambda>x.
                rbind (mount_at v (d_volume x)) (\<lambda>m.
                let total = length (mp_name m) + 1 + length w in
                if total + 1 > sz then Inr (-1, None)
                else Inr (int total, Some (mp_name m @ CHR '':'' # w))))))"

subsection \<open>Creating files and directories\<close>

text \<open>The call through the driver's function pointer, which may be null.\<close>

definition vfs_create_file :: "drivers \<Rightarrow> vfs \<Rightarrow> string \<Rightarrow> (nat option \<times> vfs) res" where
  "vfs_create_file drv v path =
     rbind (vfs_find_block_device_by_path v path) (\<lambda>bd.
     case bd of None \<Rightarrow> Inr (None, v)
     | Some bd \<Rightarrow>
         rbind (bdev_at v bd) (\<lambda>b.
         case bd_mountpoint b of None \<Rightarrow> Inr (None, v)
         | Some mp \<Rightarrow>
             rbind (mount_at v mp) (\<lambda>m.
             rbind (deref ''createfile'' (fs_createfile (drv (mp_fs m)))) (\<lambda>create. create v mp path))))"

definition vfs_create_directory :: "drivers \<Rightarrow> vfs \<Rightarrow> string \<Rightarrow> (nat option \<times> vfs) res" where
  "vfs_create_directory drv v path =
     rbind (vfs_find_block_device_by_path v path) (\<lambda>bd.
     case bd of None \<Rightarrow> Inr (None, v)
     | Some bd \<Rightarrow>
         rbind (bdev_at v bd) (\<lambda>b.
         case bd_mountpoint b of None \<Rightarrow> Inr (None, v)
         | Some mp \<Rightarrow>
             rbind (mount_at v mp) (\<lambda>m.
             rbind (deref ''createdirectory'' (fs_createdirectory (drv (mp_fs m)))) (\<lambda>create. create v mp path))))"

subsection \<open>Open files\<close>

definition VFS_FILE_MODE_APPEND :: int where "VFS_FILE_MODE_APPEND = 4"

definition vfs_fd_is_open :: "process \<Rightarrow> int \<Rightarrow> bool" where
  "vfs_fd_is_open p fd = (0 \<le> fd \<and> fd < int (openfiles_loc p))"

text \<open>The entry of the table; \<open>None\<close> where the source answers \<open>EBADF\<close>.\<close>

definition fd_entry :: "process \<Rightarrow> int \<Rightarrow> open_file option res" where
  "fd_entry p fd =
     (if \<not> vfs_fd_is_open p fd then Inr None else aget ''openfiles'' (openfiles p) (nat fd))"

definition vfs_file_name :: "kernel \<Rightarrow> vfs \<Rightarrow> int \<Rightarrow> string option res" where
  "vfs_file_name s v fd =
     rbind (cur_proc s) (\<lambda>p.
     rbind (fd_entry p fd) (\<lambda>e.
     case e of None \<Rightarrow> Inr None
     | Some x \<Rightarrow> rbind (file_at v (of_file x)) (\<lambda>f. Inr (Some (f_name f)))))"

definition vfs_open :: "kernel \<Rightarrow> vfs \<Rightarrow> string \<Rightarrow> int \<Rightarrow> (int \<times> kernel \<times> vfs) res" where
  "vfs_open s v path flags =
     rbind (vfs_find_block_device_by_path v path) (\<lambda>bd.
     case bd of None \<Rightarrow> Inr (- ENOENT, s, v)
     | Some bd \<Rightarrow>
         rbind (bdev_at v bd) (\<lambda>b.
         if bd_mountpoint b = None then Inr (- ENOENT, s, v)
         else
           rbind (vfs_find_file v path) (\<lambda>vfsfile.
           case vfsfile of None \<Rightarrow> Inr (- ENOENT, s, v)
           | Some fi \<Rightarrow>
               rbind (file_at v fi) (\<lambda>f.
               rbind (mount_at v (f_volume f)) (\<lambda>m.
               rbind (upd_file v fi (\<lambda>f. f\<lparr>f_open := f_open f + 1\<rparr>)) (\<lambda>v.
               rbind (cur_proc s) (\<lambda>p.
               let fd = openfiles_loc p;
                   e = \<lparr>of_file = fi, of_fsdriver = mp_fs m,
                        of_loc = (if flags AND VFS_FILE_MODE_APPEND \<noteq> 0 then f_size f else 0),
                        of_flags = flags, of_id = int fd\<rparr>;
                   tab = (if fd \<ge> length (openfiles p) then openfiles p @ replicate 32 None else openfiles p) in
               rbind (aset ''openfiles'' tab fd (Some e)) (\<lambda>tab.
               Inr (int fd, put_cur (p\<lparr>openfiles := tab, openfiles_loc := fd + 1\<rparr>) s, v)))))))))"

definition vfs_close :: "kernel \<Rightarrow> vfs \<Rightarrow> int \<Rightarrow> (int \<times> kernel \<times> vfs) res" where
  "vfs_close s v fd =
     rbind (cur_proc s) (\<lambda>p.
     rbind (fd_entry p fd) (\<lambda>e.
     case e of None \<Rightarrow> Inr (- EBADF, s, v)
     | Some x \<Rightarrow>
         rbind (upd_file v (of_file x) (\<lambda>f. f\<lparr>f_open := f_open f - 1\<rparr>)) (\<lambda>v.
         rbind (aset ''openfiles'' (openfiles p) (nat fd) None) (\<lambda>tab.
         Inr (0, put_cur (p\<lparr>openfiles := tab\<rparr>) s, v)))))"

text \<open>
  \<open>vfs_read\<close> and \<open>vfs_write\<close> advance the position by the driver's result, also when it is
  negative. The bytes read are those the driver stored at the start of the buffer.
\<close>

definition access_open ::
  "drivers \<Rightarrow> bool \<Rightarrow> kernel \<Rightarrow> vfs \<Rightarrow> int \<Rightarrow> string \<Rightarrow> u32 \<Rightarrow> (int \<times> string \<times> kernel) res" where
  "access_open drv write s v fd buf count =
     rbind (cur_proc s) (\<lambda>p.
     rbind (fd_entry p fd) (\<lambda>e.
     case e of None \<Rightarrow> Inr (- EBADF, [], s)
     | Some x \<Rightarrow>
         rbind (file_at v (of_file x)) (\<lambda>f.
         rbind (mount_at v (f_volume f)) (\<lambda>m.
         rbind (fs_accessfile (drv (of_fsdriver x)) v (mp_bd m) write f buf count (of_loc x)) (\<lambda>(r, data).
         rbind (aset ''openfiles'' (openfiles p) (nat fd) (Some (x\<lparr>of_loc := of_loc x + of_int r\<rparr>))) (\<lambda>tab.
         Inr (r, data, put_cur (p\<lparr>openfiles := tab\<rparr>) s)))))))"

definition vfs_read :: "drivers \<Rightarrow> kernel \<Rightarrow> vfs \<Rightarrow> int \<Rightarrow> u32 \<Rightarrow> (int \<times> string \<times> kernel) res" where
  "vfs_read drv s v fd count = access_open drv False s v fd [] count"

definition vfs_write :: "drivers \<Rightarrow> kernel \<Rightarrow> vfs \<Rightarrow> int \<Rightarrow> string \<Rightarrow> u32 \<Rightarrow> (int \<times> kernel) res" where
  "vfs_write drv s v fd buf count =
     rbind (access_open drv True s v fd buf count) (\<lambda>(r, data, s). Inr (r, s))"

text \<open>The file's content and its size; the result of the driver is ignored.\<close>

definition vfs_read_file_k :: "drivers \<Rightarrow> vfs \<Rightarrow> string \<Rightarrow> (string \<times> u32) option res" where
  "vfs_read_file_k drv v path =
     rbind (vfs_find_file v path) (\<lambda>file.
     case file of None \<Rightarrow> Inr None
     | Some fi \<Rightarrow>
         rbind (file_at v fi) (\<lambda>f.
         rbind (mount_at v (f_volume f)) (\<lambda>m.
         rbind (fs_accessfile (drv (mp_fs m)) v (mp_bd m) False f [] (f_size f) 0) (\<lambda>(r, data).
         rbind (put_slice (fresh_block v (unat (f_size f))) 0 data) (\<lambda>buf.
         Inr (Some (buf, f_size f)))))))"

record stat =
  st_size :: u32
  st_blksize :: u32
  st_blocks :: u32

definition vfs_fstat :: "kernel \<Rightarrow> vfs \<Rightarrow> int \<Rightarrow> (int \<times> stat option) res" where
  "vfs_fstat s v fd =
     rbind (cur_proc s) (\<lambda>p.
     rbind (fd_entry p fd) (\<lambda>e.
     case e of None \<Rightarrow> Inr (- EBADF, None)
     | Some x \<Rightarrow>
         rbind (file_at v (of_file x)) (\<lambda>f.
         rbind (mount_at v (f_volume f)) (\<lambda>m.
         rbind (bdev_at v (mp_bd m)) (\<lambda>b.
         if bd_blocksize b = 0 then Inl (Panic ''Division by zero'')
         else Inr (0, Some \<lparr>st_size = f_size f, st_blksize = bd_blocksize b,
                st_blocks = f_size f div bd_blocksize b + 1\<rparr>))))))"

definition vfs_size :: "kernel \<Rightarrow> vfs \<Rightarrow> int \<Rightarrow> int res" where
  "vfs_size s v fd =
     rbind (cur_proc s) (\<lambda>p.
     rbind (fd_entry p fd) (\<lambda>e.
     case e of None \<Rightarrow> Inr (- EBADF)
     | Some x \<Rightarrow> rbind (file_at v (of_file x)) (\<lambda>f. Inr (sint (f_size f)))))"

end
