(* ===== verification/CStdlib.thy ===== *)
theory CStdlib
  imports CString
begin

section \<open>Numbers and text: libc/stdlib and libc/ctype\<close>

text \<open>
  \<open>abs.c\<close>, \<open>atoi.c\<close>, \<open>itoa.c\<close> and \<open>tolower.c\<close>. A C \<open>int\<close> is an \<open>int\<close> whose
  overflow is undefined behaviour, hence a \<open>Fault\<close>. \<open>itoa\<close> writes the digits of the
  number backwards, then the sign, and reverses the text in place; the destination is the
  object \<open>str\<close>, and a write past it faults. \<open>dec\<close> is the decimal text of a number.
\<close>

definition INT_MIN :: int where "INT_MIN = - 2147483648"

definition INT_MAX :: int where "INT_MAX = 2147483647"

definition c_int :: "int \<Rightarrow> int res" where
  "c_int n = (if INT_MIN \<le> n \<and> n \<le> INT_MAX then Inr n else Inl (Fault ''signed overflow''))"

definition c_abs :: "int \<Rightarrow> int res" where
  "c_abs num = (if num < 0 then c_int (- num) else Inr num)"

definition tolower :: "char \<Rightarrow> char" where
  "tolower c = (if uchar (CHR ''A'') \<le> uchar c \<and> uchar c \<le> uchar (CHR ''Z'')
     then char_of (nat (uchar c + (uchar (CHR ''a'') - uchar (CHR ''A'')))) else c)"

subsection \<open>atoi\<close>

fun atoi_loop :: "string \<Rightarrow> int \<Rightarrow> int res" where
  "atoi_loop [] acum = Inl (Fault ''atoi'')"
| "atoi_loop (c # s) acum =
     (if uchar c \<ge> 48 \<and> uchar c \<le> 57 then
        rbind (c_int (acum * 10)) (\<lambda>acum.
        rbind (c_int (acum + (uchar c - 48))) (\<lambda>acum.
        atoi_loop s acum))
      else Inr acum)"

definition atoi :: "string \<Rightarrow> int res" where
  "atoi s =
     rbind (aget ''atoi'' s 0) (\<lambda>c.
     let (factor, s) = (if c = CHR ''-'' then (- 1, drop 1 s) else (1, s)) in
     rbind (atoi_loop s 0) (\<lambda>acum.
     c_int (factor * acum)))"

subsection \<open>itoa\<close>

definition swap :: "string \<Rightarrow> nat \<Rightarrow> nat \<Rightarrow> string res" where
  "swap str a b =
     rbind (aget ''swap'' str a) (\<lambda>temp.
     rbind (aget ''swap'' str b) (\<lambda>y.
     rbind (aset ''swap'' str a y) (\<lambda>str.
     aset ''swap'' str b temp)))"

function reverse_loop :: "string \<Rightarrow> nat \<Rightarrow> int \<Rightarrow> string res" where
  "reverse_loop str start stop =
     (if int start < stop then
        rbind (swap str start (nat stop)) (\<lambda>str. reverse_loop str (Suc start) (stop - 1))
      else Inr str)"
  by pat_completeness auto
termination by (relation "measure (\<lambda>(str, start, stop). nat (stop - int start))") auto

declare reverse_loop.simps [simp del]

definition reverse :: "string \<Rightarrow> nat \<Rightarrow> string res" where
  "reverse str len = reverse_loop str 0 (int len - 1)"

definition digit :: "nat \<Rightarrow> char" where
  "digit r = char_of (if r > 9 then (r - 10) + 97 else r + 48)"

text \<open>
  The digit loop. It ends because the number reaches zero or the writes reach the end of the
  object; base 0 is a CPU division error, a panic in the kernel.
\<close>

function itoa_loop :: "nat \<Rightarrow> nat \<Rightarrow> string \<Rightarrow> nat \<Rightarrow> (string \<times> nat) res" where
  "itoa_loop base num str i =
     (if num \<noteq> 0 then
        if base = 0 then Inl (Panic ''division error'')
        else rbind (aset ''itoa'' str i (digit (num mod base))) (\<lambda>str.
          itoa_loop base (num div base) str (Suc i))
      else Inr (str, i))"
  by pat_completeness auto
termination
  by (relation "measure (\<lambda>(base, num, str, i). length str - i)") (auto simp: aset_Inr)

declare itoa_loop.simps [simp del]

definition itoa :: "int \<Rightarrow> string \<Rightarrow> u32 \<Rightarrow> string res" where
  "itoa num str base =
     (if num = 0 then
        rbind (aset ''itoa'' str 0 (CHR ''0'')) (\<lambda>str. aset ''itoa'' str 1 NUL)
      else
        rbind (if base = 10 then
                 rbind (if num < 0 then c_int (- num) else Inr num) (\<lambda>n.
                 itoa_loop 10 (nat n) str 0)
               else itoa_loop (unat base) (unat (word_of_int num :: u32)) str 0) (\<lambda>(str, i).
        rbind (if base = 10 \<and> num < 0
               then rbind (aset ''itoa'' str i (CHR ''-'')) (\<lambda>str. Inr (str, Suc i))
               else Inr (str, i)) (\<lambda>(str, i).
        rbind (aset ''itoa'' str i NUL) (\<lambda>str.
        reverse str i))))"

subsection \<open>Reversal in place\<close>

lemma swap_ends:
  "swap (a @ x # m @ y # b) (length a) (length a + length m + 1) = Inr (a @ y # m @ x # b)"
  by (simp add: swap_def nth_append list_update_append)

lemma reverse_loop_middle:
  "reverse_loop (a @ m @ b) (length a) (int (length a + length m) - 1) = Inr (a @ rev m @ b)"
proof (induction "length m" arbitrary: a m b rule: less_induct)
  case less
  consider "length m \<le> 1" | x m' y where "m = x # m' @ [y]"
  proof (cases m)
    case (Cons x n)
    then show thesis using that by (cases n rule: rev_cases) auto
  qed (use that in auto)
  then show ?case
  proof cases
    case 1
    then have "m = [] \<or> (\<exists>x. m = [x])" by (cases m) auto
    then show ?thesis by (subst reverse_loop.simps) auto
  next
    case 2
    have "reverse_loop ((a @ [y]) @ m' @ (x # b)) (length (a @ [y]))
        (int (length (a @ [y]) + length m') - 1) = Inr ((a @ [y]) @ rev m' @ (x # b))"
      by (rule less.hyps) (simp add: 2)
    moreover have "nat (int (length a + length m) - 1) = length a + length m' + 1"
      by (simp add: 2)
    ultimately show ?thesis
      using swap_ends [of a x m' y b]
      by (subst reverse_loop.simps) (simp add: 2 algebra_simps)
  qed
qed

lemma reverse_prefix:
  assumes "n \<le> length str"
  shows "reverse str n = Inr (rev (take n str) @ drop n str)"
proof -
  have len: "length (take n str) = n" using assms by simp
  have "reverse_loop ([] @ take n str @ drop n str) (length ([] :: string))
      (int (length ([] :: string) + length (take n str)) - 1)
      = Inr ([] @ rev (take n str) @ drop n str)"
    by (rule reverse_loop_middle)
  then show ?thesis by (simp only: len append_Nil append_take_drop_id reverse_def list.size add_0)
qed

subsection \<open>The text itoa writes\<close>

text \<open>The digits from the lowest to the highest, and the text of a number in a base.\<close>

fun ldigits :: "nat \<Rightarrow> nat \<Rightarrow> nat \<Rightarrow> nat list" where
  "ldigits base n 0 = []"
| "ldigits base n (Suc k) = (if n = 0 then [] else n mod base # ldigits base (n div base) k)"

definition digits_of :: "nat \<Rightarrow> nat \<Rightarrow> nat list" where
  "digits_of base n = ldigits base n n"

definition text_of :: "nat \<Rightarrow> nat \<Rightarrow> string" where
  "text_of base n = (if n = 0 then ''0'' else map digit (rev (digits_of base n)))"

definition dec :: "int \<Rightarrow> string" where
  "dec n = (if n < 0 then CHR ''-'' # text_of 10 (nat (- n)) else text_of 10 (nat n))"

lemma ldigits_enough:
  "2 \<le> base \<Longrightarrow> n \<le> k \<Longrightarrow> ldigits base n k = ldigits base n n"
proof (induction n arbitrary: k rule: less_induct)
  case (less n)
  show ?case
  proof (cases "n = 0")
    case True
    then show ?thesis by (cases k) auto
  next
    case False
    then obtain k' n' where k: "k = Suc k'" "n = Suc n'" using less.prems by (cases k; cases n) auto
    have d: "n div base < n" using False less.prems by simp
    then have le: "n div base \<le> k'" "n div base \<le> n'" using d k less.prems(2) by linarith+
    note less.IH [OF d less.prems(1) le(1)] less.IH [OF d less.prems(1) le(2)]
    then show ?thesis using k by simp
  qed
qed

lemma digits_of_rec:
  assumes "2 \<le> base" "n \<noteq> 0"
  shows "digits_of base n = n mod base # digits_of base (n div base)"
proof -
  obtain n' where n: "n = Suc n'" using assms by (cases n) auto
  have "n div base < n" using assms by simp
  then have "ldigits base (n div base) n' = digits_of base (n div base)"
    unfolding digits_of_def using n by (intro ldigits_enough [OF assms(1)]) auto
  then show ?thesis by (subst digits_of_def) (simp add: n)
qed

lemma digits_of_0 [simp]: "digits_of base 0 = []"
  by (simp add: digits_of_def)

lemma itoa_loop_ok:
  assumes "2 \<le> base" "i + length (digits_of base n) \<le> length str"
  shows "itoa_loop base n str i =
    Inr (take i str @ map digit (digits_of base n) @ drop (i + length (digits_of base n)) str,
         i + length (digits_of base n))"
  using assms(2)
proof (induction n arbitrary: str i rule: less_induct)
  case (less n)
  show ?case
  proof (cases "n = 0")
    case True
    then show ?thesis by (subst itoa_loop.simps) simp
  next
    case False
    note rec = digits_of_rec [OF assms(1) False]
    have i: "i < length str" using less.prems by (simp add: rec)
    have "n div base < n" using False assms(1) by simp
    with less i False assms(1) show ?thesis
      by (subst itoa_loop.simps) (simp add: rec take_Suc_update)
  qed
qed

lemma digits_of_nonempty: "2 \<le> base \<Longrightarrow> n \<noteq> 0 \<Longrightarrow> digits_of base n \<noteq> []"
  by (simp add: digits_of_rec)

lemma digits_of_less: "2 \<le> base \<Longrightarrow> d \<in> set (digits_of base n) \<Longrightarrow> d < base"
proof (induction n rule: less_induct)
  case (less n)
  then have n: "n \<noteq> 0" by (cases "n = 0") auto
  then have "n div base < n" using less.prems(1) by simp
  with less.IH [OF this] less.prems n show ?case
    using mod_less_divisor [of base n] by (auto simp: digits_of_rec)
qed

lemma uchar_digit: "d < 36 \<Longrightarrow> uchar (digit d) = (if d > 9 then int d + 87 else int d + 48)"
  by (auto simp: digit_def uchar_def take_bit_nat_eq_self)

lemma digit_NUL: "d < 36 \<Longrightarrow> digit d \<noteq> NUL"
  using uchar_digit [of d] by (auto simp: uchar_def split: if_splits)

lemma digits_of_bound:
  assumes "2 \<le> base" "n < base ^ k"
  shows "length (digits_of base n) \<le> k"
  using assms(2)
proof (induction k arbitrary: n)
  case 0
  then show ?case by simp
next
  case (Suc k)
  show ?case
  proof (cases "n = 0")
    case False
    have "n div base < base ^ k"
      using Suc.prems by (simp add: less_mult_imp_div_less mult.commute)
    with Suc.IH show ?thesis using digits_of_rec [OF assms(1) False] by simp
  qed simp
qed

lemma digits_of_least:
  assumes "2 \<le> base" "base ^ k \<le> n"
  shows "k < length (digits_of base n)"
  using assms(2)
proof (induction k arbitrary: n)
  case 0
  then show ?case using digits_of_nonempty [OF assms(1), of n] by simp
next
  case (Suc k)
  from Suc.prems assms(1) have n: "n \<noteq> 0" by (cases "n = 0") auto
  have "base ^ k \<le> n div base"
    using Suc.prems assms(1) by (simp add: less_eq_div_iff_mult_less_eq mult.commute)
  with Suc.IH show ?case using digits_of_rec [OF assms(1) n] by simp
qed

subsection \<open>itoa writes the decimal text\<close>

lemma itoa_finish:
  assumes "2 \<le> base" "n \<noteq> 0" "length (digits_of base n) < length str"
  shows "rbind (itoa_loop base n str 0) (\<lambda>(str, i).
      rbind (aset ''itoa'' str i NUL) (\<lambda>str. reverse str i))
    = Inr (text_of base n @ NUL # drop (Suc (length (digits_of base n))) str)"
proof -
  let ?d = "map digit (digits_of base n)"
  let ?k = "length (digits_of base n)"
  let ?s = "?d @ drop ?k str"
  have drp: "drop ?k str = str ! ?k # drop (Suc ?k) str"
    using assms(3) by (simp add: Cons_nth_drop_Suc)
  have "rbind (aset ''itoa'' ?s ?k NUL) (\<lambda>str. reverse str ?k)
      = reverse (?d @ NUL # drop (Suc ?k) str) ?k"
    unfolding drp by (simp add: list_update_append)
  also have "\<dots> = Inr (rev ?d @ NUL # drop (Suc ?k) str)"
    by (subst reverse_prefix) simp_all
  finally show ?thesis
    using assms by (simp add: itoa_loop_ok text_of_def rev_map)
qed

lemma itoa_negative:
  assumes "n \<noteq> 0" "length (digits_of 10 n) + 1 < length str"
  shows "rbind (itoa_loop 10 n str 0) (\<lambda>(str, i).
      rbind (aset ''itoa'' str i (CHR ''-'')) (\<lambda>str.
      rbind (aset ''itoa'' str (Suc i) NUL) (\<lambda>str. reverse str (Suc i))))
    = Inr (CHR ''-'' # text_of 10 n @ NUL # drop (Suc (Suc (length (digits_of 10 n)))) str)"
proof -
  let ?d = "map digit (digits_of 10 n)"
  let ?k = "length (digits_of 10 n)"
  have drp: "drop ?k str = str ! ?k # str ! Suc ?k # drop (Suc (Suc ?k)) str"
    using assms(2) by (simp add: Cons_nth_drop_Suc)
  have "rbind (aset ''itoa'' (?d @ drop ?k str) ?k (CHR ''-'')) (\<lambda>str.
      rbind (aset ''itoa'' str (Suc ?k) NUL) (\<lambda>str. reverse str (Suc ?k)))
      = reverse ((?d @ [CHR ''-'']) @ NUL # drop (Suc (Suc ?k)) str) (Suc ?k)"
    unfolding drp by (simp add: list_update_append)
  also have "\<dots> = Inr (rev (?d @ [CHR ''-'']) @ NUL # drop (Suc (Suc ?k)) str)"
    by (subst reverse_prefix) simp_all
  finally show ?thesis
    using assms by (simp add: itoa_loop_ok text_of_def rev_map)
qed

lemma itoa_dec:
  assumes "INT_MIN < num" "num \<le> INT_MAX" "length (dec num) < length str"
  shows "itoa num str 10 = Inr (dec num @ NUL # drop (Suc (length (dec num))) str)"
proof -
  consider "num = 0" | "num > 0" | "num < 0" by linarith
  then show ?thesis
  proof cases
    case 1
    with assms(3) obtain a b r where "str = a # b # r"
      by (cases str rule: remdups_adj.cases) (auto simp: dec_def text_of_def)
    with 1 show ?thesis by (simp add: itoa_def dec_def text_of_def)
  next
    case 2
    then have len: "length (digits_of 10 (nat num)) < length str"
      "length (dec num) = length (digits_of 10 (nat num))"
      using assms(3) by (auto simp: dec_def text_of_def)
    have "itoa num str 10 = rbind (itoa_loop 10 (nat num) str 0) (\<lambda>(str, i).
        rbind (aset ''itoa'' str i NUL) (\<lambda>str. reverse str i))"
      using 2 by (simp add: itoa_def case_prod_unfold)
    also have "\<dots> = Inr (text_of 10 (nat num) @ NUL # drop (Suc (length (digits_of 10 (nat num)))) str)"
      using 2 len by (intro itoa_finish) auto
    finally show ?thesis using 2 len by (simp add: dec_def)
  next
    case 3
    then have len: "length (digits_of 10 (nat (- num))) + 1 < length str"
      "length (dec num) = length (digits_of 10 (nat (- num))) + 1"
      using assms(3) by (auto simp: dec_def text_of_def)
    have "itoa num str 10 = rbind (itoa_loop 10 (nat (- num)) str 0) (\<lambda>(str, i).
      rbind (aset ''itoa'' str i (CHR ''-'')) (\<lambda>str.
      rbind (aset ''itoa'' str (Suc i) NUL) (\<lambda>str. reverse str (Suc i))))"
      using 3 assms(1) by (simp add: itoa_def c_int_def INT_MIN_def INT_MAX_def case_prod_unfold rbind_assoc)
    also have "\<dots> = Inr (CHR ''-'' # text_of 10 (nat (- num)) @ NUL #
        drop (Suc (Suc (length (digits_of 10 (nat (- num)))))) str)"
      using 3 len by (intro itoa_negative) auto
    finally show ?thesis using 3 len by (simp add: dec_def)
  qed
qed

lemma itoa_hex:
  assumes "num \<noteq> 0" "length (digits_of 16 (unat (word_of_int num :: u32))) < length str"
    "(word_of_int num :: u32) \<noteq> 0"
  shows "itoa num str 16 = Inr (text_of 16 (unat (word_of_int num :: u32)) @ NUL #
    drop (Suc (length (digits_of 16 (unat (word_of_int num :: u32))))) str)"
proof -
  let ?n = "unat (word_of_int num :: u32)"
  have "itoa num str 16 = rbind (itoa_loop 16 ?n str 0) (\<lambda>(str, i).
        rbind (aset ''itoa'' str i NUL) (\<lambda>str. reverse str i))"
    using assms(1) by (simp add: itoa_def case_prod_unfold)
  then show ?thesis using assms by (simp add: itoa_finish unat_eq_0)
qed

subsection \<open>Round trip through atoi\<close>

lemma atoi_loop_digits:
  assumes "\<forall>d\<in>set ds. d < 10" "0 \<le> a"
    "foldl (\<lambda>a d. a * 10 + int d) a ds \<le> INT_MAX" "\<not> (48 \<le> uchar c \<and> uchar c \<le> 57)"
  shows "atoi_loop (map digit ds @ c # r) a = Inr (foldl (\<lambda>a d. a * 10 + int d) a ds)"
  using assms
proof (induction ds arbitrary: a)
  case (Cons d ds)
  have mono: "b \<le> foldl (\<lambda>a d. a * 10 + int d) b es" if "0 \<le> b" for b es
    using that
  proof (induction es arbitrary: b)
    case (Cons e es)
    then have "b * 10 + int e \<le> foldl (\<lambda>a d. a * 10 + int d) (b * 10 + int e) es"
      by (intro Cons.IH) simp
    with Cons.prems show ?case by simp
  qed simp
  have "a * 10 + int d \<le> INT_MAX"
    using mono [of "a * 10 + int d" ds] Cons.prems by simp
  then have "c_int (a * 10) = Inr (a * 10)" "c_int (a * 10 + int d) = Inr (a * 10 + int d)"
    using Cons.prems(2) by (simp_all add: c_int_def INT_MIN_def)
  with Cons show ?case by (simp add: uchar_digit)
qed auto

lemma foldl_digits_of: "foldl (\<lambda>a d. a * 10 + int d) 0 (rev (digits_of 10 n)) = int n"
proof (induction n rule: less_induct)
  case (less n)
  show ?case
  proof (cases "n = 0")
    case False
    then have "foldl (\<lambda>a d. a * 10 + int d) 0 (rev (digits_of 10 n)) = int (n div 10) * 10 + int (n mod 10)"
      using less by (simp add: digits_of_rec)
    also have "\<dots> = int n" by presburger
    finally show ?thesis .
  qed simp
qed

lemma atoi_loop_text:
  assumes "int n \<le> INT_MAX"
  shows "atoi_loop (text_of 10 n @ NUL # r) 0 = Inr (int n)"
proof (cases "n = 0")
  case True
  then show ?thesis
    by (simp add: text_of_def uchar_def c_int_def INT_MIN_def INT_MAX_def)
next
  case False
  have "\<not> (48 \<le> uchar NUL \<and> uchar NUL \<le> 57)" by (simp add: uchar_def)
  then show ?thesis
    using False assms digits_of_less [of 10 _ n]
    by (simp add: text_of_def atoi_loop_digits foldl_digits_of)
qed

lemma text_of_not_minus: "text_of 10 n \<noteq> [] \<and> hd (text_of 10 n) \<noteq> CHR ''-''"
proof (cases "n = 0")
  case False
  obtain d ds where ds: "rev (digits_of 10 n) = d # ds"
    using digits_of_nonempty [of 10 n] False by (cases "rev (digits_of 10 n)") auto
  then have "d \<in> set (digits_of 10 n)" by (metis list.set_intros(1) set_rev)
  then have "d < 10" by (rule digits_of_less [rotated]) simp
  then have "uchar (digit d) \<noteq> uchar (CHR ''-'')" by (simp add: uchar_digit) (simp add: uchar_def)
  with False ds show ?thesis by (auto simp: text_of_def)
qed (simp add: text_of_def)

lemma atoi_dec:
  assumes "INT_MIN < num" "num \<le> INT_MAX"
  shows "atoi (dec num @ NUL # r) = Inr num"
proof (cases "num < 0")
  case True
  with assms show ?thesis
    by (simp add: atoi_def dec_def atoi_loop_text c_int_def INT_MIN_def INT_MAX_def)
next
  case False
  let ?s = "text_of 10 (nat num) @ NUL # r"
  obtain x xs where x: "text_of 10 (nat num) = x # xs" "x \<noteq> CHR ''-''"
    using text_of_not_minus [of "nat num"] by (cases "text_of 10 (nat num)") auto
  then have "aget ''atoi'' ?s 0 = Inr x" by simp
  with False assms x(2) atoi_loop_text [of "nat num" r] show ?thesis
    by (simp add: atoi_def dec_def c_int_def INT_MIN_def INT_MAX_def del: aget_ok)
qed

text \<open>A destination shorter than the text and its terminator is overrun.\<close>

lemma itoa_loop_overrun:
  assumes "2 \<le> base" "i \<le> length str" "length str < i + length (digits_of base n)"
  shows "itoa_loop base n str i = Inl (Fault ''itoa'')"
  using assms(2,3)
proof (induction n arbitrary: str i rule: less_induct)
  case (less n)
  then have n: "n \<noteq> 0" by (cases "n = 0") auto
  show ?case
  proof (cases "i < length str")
    case True
    have "n div base < n" using n assms(1) by simp
    with less True n assms(1) show ?thesis
      by (subst itoa_loop.simps) (simp add: digits_of_rec)
  next
    case False
    with less.prems n assms(1) show ?thesis by (subst itoa_loop.simps) (simp add: aset_def)
  qed
qed

section \<open>The properties\<close>

text \<open>
  For every \<open>int\<close> except \<open>INT_MIN\<close> and every buffer that holds the text and its
  terminator, \<open>itoa\<close> in base 10 stays in the buffer and \<open>atoi\<close> reads the number back from
  what it wrote.
\<close>

theorem itoa_atoi:
  assumes "INT_MIN < num" "num \<le> INT_MAX" "length (dec num) < length str"
  shows "rbind (itoa num str 10) atoi = Inr num"
  using assms by (simp add: itoa_dec atoi_dec)

lemma itoa_atoi_witness: "rbind (itoa (- 2047) (replicate 12 NUL) 10) atoi = Inr (- 2047)"
  by (rule itoa_atoi) (simp_all add: INT_MIN_def INT_MAX_def dec_def text_of_def digits_of_rec)

text \<open>
  The eleven-byte buffer that \<open>printf\<close> and \<open>sprintf\<close> declare is too short:
  \<open>itoa\<close> writes past its end on every ten-digit negative number.
\<close>

theorem itoa_11_overrun:
  assumes "INT_MIN < num" "num \<le> - 1000000000" "length str = 11"
  shows "itoa num str 10 = Inl (Fault ''itoa'')"
proof -
  let ?n = "nat (- num)"
  have "?n < 10 ^ 10" "10 ^ 9 \<le> ?n" using assms by (simp_all add: INT_MIN_def)
  then have len: "length (digits_of 10 ?n) = 10"
    using digits_of_bound [of 10 ?n 10] digits_of_least [of 10 9 ?n] by simp
  then have "itoa_loop 10 ?n str 0 = Inr (map digit (digits_of 10 ?n) @ drop 10 str, 10)"
    using assms itoa_loop_ok [of 10 0 ?n str] by simp
  with assms len show ?thesis
    by (simp add: itoa_def c_int_def INT_MIN_def INT_MAX_def aset_def)
qed

lemma itoa_11_overrun_witness: "itoa (- 1234567890) (replicate 11 NUL) 10 = Inl (Fault ''itoa'')"
  by (rule itoa_11_overrun) (simp_all add: INT_MIN_def)

end
