(* ===== verification/Vfat.thy ===== *)
theory Vfat
  imports Vfs CStdlib
begin

section \<open>The FAT file system driver and the RAM disk\<close>

text \<open>
  \<open>kernel/kernel/drv/fs/vfat.c\<close>, \<open>vfat.h\<close> and \<open>rdisk.c\<close>. A buffer is the list of its
  bytes and every access to one is checked against its length. The pointer arithmetic through
  \<open>struct fat_lfn\<close>, which is not packed, uses the offsets of the i386 ABI: the characters
  start at bytes 2, 16 and 30. A division by zero raises a CPU exception in the kernel.
  Reading a directory may not end (cyclic cluster chains, overlong names), so it takes fuel.
\<close>

subsection \<open>The RAM disk\<close>

definition rdisk_block :: "u32 \<Rightarrow> u8 \<Rightarrow> block_fn" where
  "rdisk_block blocks ispartition medium write index data =
     (if ispartition = 0 then Inr (0, data, medium)
      else if write then
        rbind (get_slice data 0 512) (\<lambda>block.
        rbind (put_slice medium (unat (index * 512)) block) (\<lambda>medium. Inr (512, data, medium)))
      else
        rbind (get_slice medium (unat (index * 512)) 512) (\<lambda>block.
        rbind (put_slice data 0 block) (\<lambda>data. Inr (512, data, medium))))"

definition rdisk_create :: "vfs \<Rightarrow> u32 \<Rightarrow> string \<Rightarrow> nat \<times> vfs" where
  "rdisk_create v blocks nm =
     vfs_register_blockdevice v \<lparr>bd_block = rdisk_block blocks 2, bd_medium = fresh_block v (unat (blocks * 512)),
       bd_blocksize = 512, bd_blocks = blocks, bd_name = nm, bd_mountpoint = None, bd_mounted = False,
       bd_ispartition = 2, bd_id = 0\<rparr>"

subsection \<open>Little-endian fields of a buffer\<close>

definition buf8 :: "string \<Rightarrow> nat \<Rightarrow> u32 res" where
  "buf8 buf i = rbind (aget ''buffer'' buf i) (\<lambda>c. Inr (of_nat (of_char c)))"

definition buf16 :: "string \<Rightarrow> nat \<Rightarrow> u32 res" where
  "buf16 buf i = rbind (buf8 buf i) (\<lambda>a. rbind (buf8 buf (i + 1)) (\<lambda>b. Inr (a + 256 * b)))"

definition buf32 :: "string \<Rightarrow> nat \<Rightarrow> u32 res" where
  "buf32 buf i = rbind (buf16 buf i) (\<lambda>a. rbind (buf16 buf (i + 2)) (\<lambda>b. Inr (a + 65536 * b)))"

definition div_by :: "u32 \<Rightarrow> u32 \<Rightarrow> u32 res" where
  "div_by a b = (if b = 0 then Inl (Panic ''Division by zero'') else Inr (a div b))"

subsection \<open>Clusters, sectors and blocks\<close>

definition round_up_integer :: "u32 \<Rightarrow> u32 \<Rightarrow> u32" where
  "round_up_integer number multiple =
     (if multiple = 0 then number else ((number + multiple - 1) div multiple) * multiple)"

definition vfat_cluster_to_sector :: "u32 \<Rightarrow> fat_info \<Rightarrow> u32" where
  "vfat_cluster_to_sector cluster fi =
     (cluster - 2) * ucast (sectors_per_cluster (fatbs fi)) + first_data_sector fi"

definition vfat_sectors_to_blocks :: "u32 \<Rightarrow> fat_bs \<Rightarrow> bdev \<Rightarrow> u32 res" where
  "vfat_sectors_to_blocks fssector bs b =
     div_by (round_up_integer (fssector * ucast (bytes_per_sector bs)) (bd_blocksize b)) (bd_blocksize b)"

definition vfat_sector_to_lba :: "u32 \<Rightarrow> fat_bs \<Rightarrow> bdev \<Rightarrow> u32 res" where
  "vfat_sector_to_lba fssector bs b = div_by (fssector * ucast (bytes_per_sector bs)) (bd_blocksize b)"

definition fat_info_of :: "mount \<Rightarrow> fat_info res" where
  "fat_info_of m = (case mp_extra m of FatExtra fi \<Rightarrow> Inr fi | _ \<Rightarrow> Inl (Fault ''fat_info''))"

text \<open>\<open>vfat_next_cluster\<close>: the entry of the file allocation table; 0 for another FAT type.\<close>

definition vfat_next_cluster :: "u32 \<Rightarrow> fat_info \<Rightarrow> u32 res" where
  "vfat_next_cluster cluster fi =
     (if fat_type fi = 12 then
        rbind (buf16 (fat_table fi) (unat (cluster + cluster div 2))) (\<lambda>x.
        Inr (if cluster AND 1 \<noteq> 0 then drop_bit 4 x else x AND 0xFFF))
      else if fat_type fi = 16 then buf16 (fat_table fi) (unat (cluster * 2))
      else if fat_type fi = 32 then
        rbind (buf32 (fat_table fi) (unat (cluster * 4))) (\<lambda>x. Inr (x AND 0x0FFFFFFF))
      else Inr 0)"

text \<open>\<open>vfat_read_cluster\<close> into \<open>buf\<close> at byte \<open>off\<close>: the buffer and the next cluster.\<close>

definition vfat_read_cluster :: "string \<Rightarrow> nat \<Rightarrow> u32 \<Rightarrow> fat_info \<Rightarrow> bdev \<Rightarrow> (string \<times> u32) res" where
  "vfat_read_cluster buf off cluster fi b =
     (if fat_type fi \<noteq> 12 \<and> fat_type fi \<noteq> 16 \<and> fat_type fi \<noteq> 32 then Inr (buf, 0)
      else
        rbind (vfat_next_cluster cluster fi) (\<lambda>table_value.
        rbind (vfat_sectors_to_blocks (ucast (sectors_per_cluster (fatbs fi))) (fatbs fi) b) (\<lambda>n.
        rbind (vfat_sector_to_lba (vfat_cluster_to_sector cluster fi) (fatbs fi) b) (\<lambda>lba.
        rbind (vfs_read_blocks buf off b n lba) (\<lambda>(r, buf). Inr (buf, table_value))))))"

subsection \<open>The boot sector\<close>

definition parse_bs :: "string \<Rightarrow> fat_bs res" where
  "parse_bs buf =
     (if length buf < 90 then Inl (Fault ''boot sector'')
      else
        rbind (buf16 buf 11) (\<lambda>bps. rbind (buf8 buf 13) (\<lambda>spc. rbind (buf16 buf 14) (\<lambda>rsv.
        rbind (buf8 buf 16) (\<lambda>tc. rbind (buf16 buf 17) (\<lambda>rec. rbind (buf16 buf 19) (\<lambda>ts16.
        rbind (buf16 buf 22) (\<lambda>sz16. rbind (buf32 buf 32) (\<lambda>ts32. rbind (buf32 buf 36) (\<lambda>sz32.
        rbind (buf32 buf 44) (\<lambda>root.
        Inr \<lparr>bytes_per_sector = ucast bps, sectors_per_cluster = ucast spc, reserved_sector_count = ucast rsv,
          table_count = ucast tc, root_entry_count = ucast rec, total_sectors_16 = ucast ts16,
          table_size_16 = ucast sz16, total_sectors_32 = ts32, table_size_32 = sz32, root_cluster = root\<rparr>)))))))))))"

text \<open>
  \<open>vfat_create_fatinfo\<close>: \<open>None\<close> for its result 2. The uninitialised fields are \<open>uninit\<close>;
  the division by \<open>bytes_per_sector\<close> comes before the test that it is not zero.
\<close>

definition vfat_create_fatinfo :: "u32 \<Rightarrow> fat_bs \<Rightarrow> fat_info option res" where
  "vfat_create_fatinfo uninit bs =
     (let fsz = (if table_size_16 bs = 0 then table_size_32 bs else ucast (table_size_16 bs));
          total = (if total_sectors_16 bs = 0 then total_sectors_32 bs else ucast (total_sectors_16 bs)) in
      rbind (div_by (ucast (root_entry_count bs) * 32 + (ucast (bytes_per_sector bs) - 1)) (ucast (bytes_per_sector bs)))
        (\<lambda>rds.
      let first = ucast (reserved_sector_count bs) + ucast (table_count bs) * fsz + rds;
          dsec = total - first in
      rbind (div_by dsec (ucast (sectors_per_cluster bs))) (\<lambda>clusters.
      let fi = \<lparr>fat_type = 0, total_clusters = clusters, fat_size = fsz, first_data_sector = first, data_sectors = dsec,
            total_sectors = total, root_dir_sectors = rds, root_dir_lba = uninit, root_dir_cluster = uninit,
            first_fat_sector = ucast (reserved_sector_count bs), fat_table = [], fatbs = bs,
            fentries = [], fentries_size = 32\<rparr> in
      Inr (if bytes_per_sector bs = 0 then None
           else if clusters < 4085 then Some (fi\<lparr>fat_type := 12, root_dir_lba := first - rds\<rparr>)
           else if clusters < 65525 then Some (fi\<lparr>fat_type := 16, root_dir_lba := first - rds\<rparr>)
           else Some (fi\<lparr>fat_type := 32, root_dir_lba := (root_cluster bs - 2) * ucast (sectors_per_cluster bs) + first,
                  root_dir_cluster := root_cluster bs\<rparr>)))))"

subsection \<open>Names of directory entries\<close>

text \<open>\<open>for (y = x; y < 11; y++) name[y] = name[y + 1]\<close> until \<open>nm[x]\<close> is no space.\<close>

primrec shift_spaces :: "nat \<Rightarrow> string \<Rightarrow> nat \<Rightarrow> string" where
  "shift_spaces 0 nm x = nm"
| "shift_spaces (Suc n) nm x =
     (if nm ! x = CHR '' '' then shift_spaces n (take x nm @ drop (x + 1) (take 12 nm) @ drop 11 nm) x
      else nm)"

text \<open>
  The loop over the 11 bytes of a short name, in the 13-byte array \<open>nm\<close>; \<open>isext\<close> is 0 in the
  base, 1 after the dot was put in, 2 inside the extension, 3 when there is none.
\<close>

fun short_loop :: "nat list \<Rightarrow> string \<Rightarrow> nat \<Rightarrow> string \<times> nat" where
  "short_loop [] nm isext = (nm, isext)"
| "short_loop (x # xs) nm isext =
     (if nm ! x = CHR '' '' then
        if isext = 2 then (nm[x := NUL], isext)
        else if isext = 1 then short_loop xs (shift_spaces 11 nm x) isext
        else if \<exists>y\<in>set [x..<11]. nm ! y \<noteq> CHR '' '' then short_loop xs (nm[x := CHR ''.'']) 1
        else (nm[x := NUL], 3)
      else short_loop xs nm (if isext = 1 then 2 else isext))"

text \<open>The name of a short entry; \<open>None\<close> for the entries that are ignored (dot and dot-dot).\<close>

definition short_name :: "string \<Rightarrow> string option" where
  "short_name entry =
     (let (nm, isext) = short_loop [0..<11] (take 11 entry @ [NUL, NUL]) 0;
          nm = (if isext = 0 then take 8 nm @ CHR ''.'' # take 3 (drop 8 nm) @ drop 12 nm else nm) in
      if isext = 3 \<and> nm ! 0 = CHR ''.'' then None
      else Some (map tolower (takeWhile (\<lambda>c. c \<noteq> NUL) nm)))"

text \<open>The bytes a long-name entry contributes, at the offsets of the unpacked structure.\<close>

definition lfn_offsets :: "nat list" where
  "lfn_offsets = [2, 4, 6, 8, 10, 16, 18, 20, 22, 24, 26, 30, 32]"

fun lfn_copy :: "string \<Rightarrow> nat \<Rightarrow> nat list \<Rightarrow> string \<Rightarrow> nat \<Rightarrow> (string \<times> nat) res" where
  "lfn_copy data i [] lfnbuf lfni = Inr (lfnbuf, lfni)"
| "lfn_copy data i (k # ks) lfnbuf lfni =
     rbind (aget ''buffer'' data (i + k)) (\<lambda>c.
     rbind (aget ''buffer'' data (i + k + 1)) (\<lambda>hi.
     rbind (aset ''lfnbuf'' lfnbuf lfni c) (\<lambda>lfnbuf. lfn_copy data i ks lfnbuf (lfni + 1))))"

subsection \<open>Reading directories\<close>

definition empty_lfn :: string where "empty_lfn = replicate 256 NUL"

text \<open>Remember the 32 bytes of an entry; the result is its number.\<close>

definition add_fentry :: "vfs \<Rightarrow> nat \<Rightarrow> string \<Rightarrow> (u32 \<times> vfs) res" where
  "add_fentry v mi entry =
     rbind (mount_at v mi) (\<lambda>m.
     rbind (fat_info_of m) (\<lambda>fi.
     let k = length (fentries fi);
         fi = fi\<lparr>fentries := fentries fi @ [entry],
            fentries_size := (if fentries_size fi \<le> k then fentries_size fi + 32 else fentries_size fi)\<rparr> in
     rbind (upd_mount v mi (\<lambda>m. m\<lparr>mp_extra := FatExtra fi\<rparr>)) (\<lambda>v. Inr (of_nat k, v))))"

definition new_dir :: "string option \<Rightarrow> nat option \<Rightarrow> nat \<Rightarrow> u32 \<Rightarrow> vdir" where
  "new_dir nm parent mi ident = \<lparr>d_name = nm, d_parent = parent, d_volume = mi, d_files = [], d_files_size = 32,
     d_dirs = [], d_dirs_size = 32, d_id = ident, d_attributes = 0\<rparr>"

text \<open>
  A directory entry: the new directory is read (\<open>sub\<close>) before it is added to its parent. The
  first cluster is \<open>cluster_lo\<close> at byte 26 and \<open>cluster_hi\<close> at byte 20.
\<close>

definition add_entry ::
  "(vfs \<Rightarrow> nat \<Rightarrow> u32 \<Rightarrow> vfs res) \<Rightarrow> vfs \<Rightarrow> nat \<Rightarrow> nat \<Rightarrow> string \<Rightarrow> nat \<Rightarrow> string \<Rightarrow> vfs res" where
  "add_entry sub v mi dest data i nm =
     rbind (buf8 data (i + 11)) (\<lambda>attrib.
     rbind (get_slice data i 32) (\<lambda>entry.
     if attrib AND 0x10 \<noteq> 0 then
       let d = length (vdirs v) in
       rbind (add_fentry (v\<lparr>vdirs := vdirs v @ [new_dir (Some nm) (Some dest) mi 0]\<rparr>) mi entry) (\<lambda>(k, v).
       rbind (upd_dir v d (\<lambda>x. x\<lparr>d_id := k\<rparr>)) (\<lambda>v.
       rbind (buf16 data (i + 26)) (\<lambda>lo.
       rbind (buf16 data (i + 20)) (\<lambda>hi.
       rbind (sub v d (lo + push_bit 16 hi)) (\<lambda>v.
       vfs_append_directory v dest d)))))
     else
       rbind (buf32 data (i + 28)) (\<lambda>sz.
       rbind (add_fentry v mi entry) (\<lambda>(k, v).
       let f = length (vfiles v) in
       vfs_append_directory_file
         (v\<lparr>vfiles := vfiles v @ [\<lparr>f_name = nm, f_parent = dest, f_volume = mi, f_id = k, f_size = sz,
            f_created = 0, f_modified = 0, f_attributes = ucast (drop_bit 1 attrib AND 1), f_open = 0\<rparr>]\<rparr>)
         dest f))))"

text \<open>
  One entry that is not the end mark: the state, the long-name buffer, its fill, and whether
  the loop moves on; an overlong name is cut by a \<open>continue\<close> that does not move on.
\<close>

definition read_entry ::
  "(vfs \<Rightarrow> nat \<Rightarrow> u32 \<Rightarrow> vfs res) \<Rightarrow> vfs \<Rightarrow> nat \<Rightarrow> nat \<Rightarrow> string \<Rightarrow> nat \<Rightarrow> string \<Rightarrow> nat
     \<Rightarrow> (vfs \<times> string \<times> nat \<times> bool) res" where
  "read_entry sub v mi dest data i lfnbuf lfni =
     rbind (buf8 data i) (\<lambda>first.
     if first = 0xE5 then Inr (v, lfnbuf, lfni, True)
     else
       rbind (buf8 data (i + 11)) (\<lambda>attrib.
       if attrib = 0x0F then
         if lfni + 13 \<ge> 256 then
           rbind (aset ''lfnbuf'' lfnbuf lfni NUL) (\<lambda>lfnbuf. Inr (v, lfnbuf, lfni, False))
         else
           rbind (lfn_copy data i lfn_offsets lfnbuf lfni) (\<lambda>(lfnbuf, lfni). Inr (v, lfnbuf, lfni, True))
       else if lfni \<noteq> 0 then
         rbind (add_entry sub v mi dest data i (takeWhile (\<lambda>c. c \<noteq> NUL) lfnbuf)) (\<lambda>v.
         Inr (v, empty_lfn, 0, True))
       else
         rbind (get_slice data i 11) (\<lambda>raw.
         case short_name raw of None \<Rightarrow> Inr (v, lfnbuf, lfni, True)
         | Some nm \<Rightarrow>
             rbind (add_entry sub v mi dest data i nm) (\<lambda>v. Inr (v, lfnbuf, lfni, True)))))"

definition no_fuel :: stop where "no_fuel = Fault ''fuel''"

text \<open>The cluster buffer at the start of \<open>vfat_read_directory\<close> and what is needed to refill it.\<close>

definition open_cluster ::
  "vfs \<Rightarrow> nat \<Rightarrow> u32 \<Rightarrow> (string \<times> u32 \<times> u32) res" where
  "open_cluster v mi cluster =
     rbind (mount_at v mi) (\<lambda>m.
     rbind (fat_info_of m) (\<lambda>fi.
     rbind (bdev_at v (mp_bd m)) (\<lambda>b.
     rbind (vfat_sectors_to_blocks (ucast (sectors_per_cluster (fatbs fi))) (fatbs fi) b) (\<lambda>n.
     let cluster_size = n * bd_blocksize b in
     rbind (vfat_read_cluster (fresh_block v (unat cluster_size)) 0 cluster fi b) (\<lambda>(data, next).
     Inr (data, cluster_size, next))))))"

definition refill :: "vfs \<Rightarrow> nat \<Rightarrow> string \<Rightarrow> u32 \<Rightarrow> (string \<times> u32) res" where
  "refill v mi data next =
     rbind (mount_at v mi) (\<lambda>m.
     rbind (fat_info_of m) (\<lambda>fi.
     rbind (bdev_at v (mp_bd m)) (\<lambda>b. vfat_read_cluster data 0 next fi b)))"

primrec dir_loop ::
  "nat \<Rightarrow> vfs \<Rightarrow> nat \<Rightarrow> nat \<Rightarrow> string \<Rightarrow> u32 \<Rightarrow> u32 \<Rightarrow> u32 \<Rightarrow> string \<Rightarrow> nat \<Rightarrow> vfs res" where
  "dir_loop 0 v mi dest data cluster_size next i lfnbuf lfni = Inl no_fuel"
| "dir_loop (Suc n) v mi dest data cluster_size next i lfnbuf lfni =
     rbind (if i + 32 \<ge> cluster_size then
              if next < 0x0FFFFFF8 then
                rbind (refill v mi data next) (\<lambda>(data, next). Inr (Some (data, next, 0)))
              else Inr None
            else Inr (Some (data, next, i))) (\<lambda>r.
     case r of None \<Rightarrow> Inr v
     | Some (data, next, i) \<Rightarrow>
         rbind (buf8 data (unat i)) (\<lambda>first.
         if first = 0 then Inr v
         else
           rbind (read_entry
               (\<lambda>v d c. rbind (open_cluster v mi c) (\<lambda>(data, cs, next). dir_loop n v mi d data cs next 0 empty_lfn 0))
               v mi dest data (unat i) lfnbuf lfni) (\<lambda>(v, lfnbuf, lfni, go_on).
           dir_loop n v mi dest data cluster_size next (if go_on then i + 32 else i) lfnbuf lfni)))"

definition vfat_read_directory :: "nat \<Rightarrow> vfs \<Rightarrow> nat \<Rightarrow> nat \<Rightarrow> u32 \<Rightarrow> vfs res" where
  "vfat_read_directory fuel v mi dest cluster =
     rbind (open_cluster v mi cluster) (\<lambda>(data, cs, next). dir_loop fuel v mi dest data cs next 0 empty_lfn 0)"

text \<open>
  The root directory of FAT12 and FAT16: at the end of the first sector the next one is read,
  but the loop ends there.
\<close>

definition read_root_block :: "vfs \<Rightarrow> nat \<Rightarrow> string \<Rightarrow> u32 \<Rightarrow> string res" where
  "read_root_block v mi data sector =
     rbind (mount_at v mi) (\<lambda>m.
     rbind (fat_info_of m) (\<lambda>fi.
     rbind (bdev_at v (mp_bd m)) (\<lambda>b.
     rbind (vfat_sectors_to_blocks 1 (fatbs fi) b) (\<lambda>n.
     rbind (vfat_sector_to_lba sector (fatbs fi) b) (\<lambda>lba.
     rbind (vfs_read_blocks data 0 b n lba) (\<lambda>(r, data). Inr data))))))"

primrec root_loop ::
  "nat \<Rightarrow> nat \<Rightarrow> vfs \<Rightarrow> nat \<Rightarrow> nat \<Rightarrow> string \<Rightarrow> u32 \<Rightarrow> u32 \<Rightarrow> u32 \<Rightarrow> string \<Rightarrow> nat \<Rightarrow> vfs res" where
  "root_loop 0 fuel v mi dest data sector sector_size i lfnbuf lfni = Inl no_fuel"
| "root_loop (Suc n) fuel v mi dest data sector sector_size i lfnbuf lfni =
     (if i + 32 \<ge> sector_size then rbind (read_root_block v mi data (sector + 1)) (\<lambda>data. Inr v)
      else
        rbind (buf8 data (unat i)) (\<lambda>first.
        if first = 0 then Inr v
        else
          rbind (read_entry (\<lambda>v d c. vfat_read_directory fuel v mi d c) v mi dest data (unat i) lfnbuf lfni)
            (\<lambda>(v, lfnbuf, lfni, go_on).
          root_loop n fuel v mi dest data sector sector_size (if go_on then i + 32 else i) lfnbuf lfni)))"

definition vfat_read_root_sector :: "nat \<Rightarrow> vfs \<Rightarrow> nat \<Rightarrow> nat \<Rightarrow> u32 \<Rightarrow> vfs res" where
  "vfat_read_root_sector fuel v mi dest sector =
     rbind (mount_at v mi) (\<lambda>m.
     rbind (fat_info_of m) (\<lambda>fi.
     let sector_size = ucast (bytes_per_sector (fatbs fi)) in
     rbind (read_root_block v mi (fresh_block v (unat sector_size)) sector) (\<lambda>data.
     root_loop fuel fuel v mi dest data sector sector_size 0 empty_lfn 0)))"

subsection \<open>The driver\<close>

definition VFAT_DRIVER :: nat where "VFAT_DRIVER = 0"

definition vfat_attempt_mount :: "nat \<Rightarrow> vfs \<Rightarrow> nat \<Rightarrow> bool \<Rightarrow> (int \<times> vfs) res" where
  "vfat_attempt_mount fuel v bd rw =
     rbind (bdev_at v bd) (\<lambda>b.
     rbind (vfs_read_blocks (fresh_block v (unat (bd_blocksize b))) 0 b 1 0) (\<lambda>(n, buf).
     if n = 0 then Inr (2, v)
     else
       rbind (parse_bs buf) (\<lambda>bs.
       rbind (vfat_create_fatinfo (of_nat (of_char (junk v 0))) bs) (\<lambda>r.
       case r of None \<Rightarrow> Inr (3, v)
       | Some fi \<Rightarrow>
           rbind (vfat_sectors_to_blocks (fat_size fi) bs b) (\<lambda>count.
           rbind (vfat_sector_to_lba (first_fat_sector fi) bs b) (\<lambda>start.
           rbind (vfs_read_blocks (fresh_block v (unat (count * bd_blocksize b))) 0 b count start) (\<lambda>(n, table).
           let mi = length (vmounts v); root = length (vdirs v);
               v = v\<lparr>vmounts := vmounts v @ [\<lparr>mp_name = [], mp_bd = bd, mp_fs = VFAT_DRIVER, mp_root = root,
                       mp_extra = FatExtra (fi\<lparr>fat_table := table\<rparr>), mp_rw = rw\<rparr>],
                     vdirs := vdirs v @ [new_dir None None mi (root_dir_cluster fi)]\<rparr> in
           rbind (if fat_type fi = 32 then vfat_read_directory fuel v mi root (root_dir_cluster fi)
                  else vfat_read_root_sector fuel v mi root (root_dir_lba fi)) (\<lambda>v.
           rbind (upd_bdev v bd (\<lambda>b. b\<lparr>bd_mountpoint := Some mi\<rparr>)) (\<lambda>v. Inr (0, v))))))))))"

definition vfat_isvalid :: "vfs \<Rightarrow> nat \<Rightarrow> bool res" where
  "vfat_isvalid v bd =
     rbind (bdev_at v bd) (\<lambda>b.
     rbind (vfs_read_blocks (fresh_block v (unat (bd_blocksize b))) 0 b 1 0) (\<lambda>(n, buf).
     if n = 0 then Inr False
     else
       rbind (buf8 buf 510) (\<lambda>a.
       rbind (if a = 0x55 then buf8 buf 511 else Inr 0) (\<lambda>b.
       if \<not> (a = 0x55 \<and> b = 0xAA) then Inr False
       else
         rbind (buf8 buf 0) (\<lambda>j.
         if \<not> (j = 0xEB \<or> j = 0xE9) then Inr False
         else
           rbind (buf8 buf 0x36) (\<lambda>x.
           rbind (if x = 0x46 then Inr 0x46 else buf8 buf 0x52) (\<lambda>y. Inr (y = 0x46))))))))"

primrec skip_clusters :: "nat \<Rightarrow> u32 \<Rightarrow> fat_info \<Rightarrow> u32 res" where
  "skip_clusters 0 c fi = Inr c"
| "skip_clusters (Suc n) c fi = rbind (vfat_next_cluster c fi) (\<lambda>c. skip_clusters n c fi)"

primrec read_chain ::
  "string \<Rightarrow> u32 \<Rightarrow> u32 \<Rightarrow> fat_info \<Rightarrow> bdev \<Rightarrow> nat list \<Rightarrow> string res" where
  "read_chain buf cluster_size c fi b [] = Inr buf"
| "read_chain buf cluster_size c fi b (i # is) =
     rbind (vfat_read_cluster buf (unat (of_nat i * cluster_size)) c fi b) (\<lambda>(buf, c).
     read_chain buf cluster_size c fi b is)"

definition vfat_accessfile ::
  "vfs \<Rightarrow> nat \<Rightarrow> bool \<Rightarrow> vfile \<Rightarrow> string \<Rightarrow> u32 \<Rightarrow> u32 \<Rightarrow> (int \<times> string) res" where
  "vfat_accessfile v bd write f buffer len loc =
     rbind (bdev_at v bd) (\<lambda>b.
     rbind (deref ''mountpoint'' (bd_mountpoint b)) (\<lambda>mi.
     rbind (mount_at v mi) (\<lambda>m.
     rbind (fat_info_of m) (\<lambda>fi.
     if write then Inr (-1, [])
     else
       rbind (vfat_sectors_to_blocks (ucast (sectors_per_cluster (fatbs fi))) (fatbs fi) b) (\<lambda>n.
       let cluster_size = n * bd_blocksize b;
           bytes = (if len \<ge> f_size f - loc then f_size f - loc else len) in
       if bytes = 0 then Inr (0, [])
       else if sint bytes < 0 then Inr (-1, [])
       else
         rbind (aget ''fentries'' (fentries fi) (unat (f_id f))) (\<lambda>entry.
         rbind (buf16 entry 26) (\<lambda>lo.
         rbind (buf16 entry 20) (\<lambda>hi.
         rbind (div_by loc cluster_size) (\<lambda>clusterloc.
         let readsize = round_up_integer bytes cluster_size in
         rbind (div_by readsize cluster_size) (\<lambda>clusters.
         rbind (skip_clusters (unat clusterloc) (lo + push_bit 16 hi) fi) (\<lambda>c.
         rbind (read_chain (fresh_block v (unat readsize)) cluster_size c fi b [0..<unat clusters]) (\<lambda>tempbuf.
         rbind (get_slice tempbuf (unat (loc mod cluster_size)) (unat bytes)) (\<lambda>data.
         Inr (sint bytes, data))))))))))))))"

definition vfat_vfsdrvinfo :: "nat \<Rightarrow> fs_driver" where
  "vfat_vfsdrvinfo fuel = \<lparr>fs_mount = vfat_attempt_mount fuel, fs_accessfile = vfat_accessfile, fs_isvalid = vfat_isvalid,
     fs_createfile = None, fs_createdirectory = None\<rparr>"

definition vfat_init :: "vfs \<Rightarrow> vfs" where
  "vfat_init v = snd (vfs_register_fsdriver v VFAT_DRIVER)"

end
