(* ===== verification/VfatRead.thy ===== *)
theory VfatRead
  imports Vfat
begin

section \<open>Reading files of a FAT volume\<close>

text \<open>
  The contract of a block device, as a locale, which the RAM disk keeps; and under it the file
  as one byte string, the clusters of its chain one after the other, against which
  \<open>vfat_accessfile\<close> is judged.
\<close>

subsection \<open>Block devices\<close>

text \<open>\<open>sector i\<close>: the bytes of block \<open>i\<close>, for the \<open>nblocks\<close> blocks that can be read.\<close>

locale block_reader =
  fixes b :: bdev and sector :: "nat \<Rightarrow> string" and nblocks :: nat
  assumes blocksize: "bd_blocksize b \<noteq> 0" and nblocks: "nblocks \<le> 2 ^ 32"
    and sector_length: "i < nblocks \<Longrightarrow> length (sector i) = unat (bd_blocksize b)"
    and read_block: "\<lbrakk>i < nblocks; length block = unat (bd_blocksize b)\<rbrakk> \<Longrightarrow>
      bd_block b (bd_medium b) False (of_nat i) block = Inr (bd_blocksize b, sector i, bd_medium b)"

lemma read_blocks_append:
  "read_blocks_loop b dest off index r (xs @ ys) =
   rbind (read_blocks_loop b dest off index r xs) (\<lambda>(r, dest). read_blocks_loop b dest off index r ys)"
  by (induction xs arbitrary: dest r) (auto simp: Let_def rbind_assoc split_def)

lemma get_slice_middle: "n = length y \<Longrightarrow> get_slice (x @ y @ z) (length x) n = Inr y"
  by (simp add: get_slice_def)

lemma put_slice_middle: "length w = length y \<Longrightarrow> put_slice (x @ y @ z) (length x) w = Inr (x @ w @ z)"
  by (simp add: put_slice_def)

context block_reader
begin

lemma sectors_length: "k + n \<le> nblocks \<Longrightarrow> length (concat (map sector [k..<k + n])) = n * unat (bd_blocksize b)"
  by (induction n) (auto simp: sector_length)

lemma read_blocks:
  assumes "k + n \<le> nblocks" "off + n * unat (bd_blocksize b) \<le> length dest" "n * unat (bd_blocksize b) < 2 ^ 32"
  shows "read_blocks_loop b dest off (of_nat k) 0 [0..<n] =
    Inr (of_nat n * bd_blocksize b,
      take off dest @ concat (map sector [k..<k + n]) @ drop (off + n * unat (bd_blocksize b)) dest)"
  using assms
proof (induction n)
  case (Suc n)
  let ?s = "unat (bd_blocksize b)" and ?d = "take off dest @ concat (map sector [k..<k + n]) @ drop (off + n * unat (bd_blocksize b)) dest"
  have ih: "read_blocks_loop b dest off (of_nat k) 0 [0..<n] = Inr (of_nat n * bd_blocksize b, ?d)"
    using Suc.prems by (intro Suc.IH) auto
  have len: "length (concat (map sector [k..<k + n])) = n * ?s" using Suc.prems by (intro sectors_length) simp
  have ld: "length (take off dest @ concat (map sector [k..<k + n])) = off + n * ?s"
    using len Suc.prems(2) by simp
  have "unat (of_nat n * bd_blocksize b) = n * ?s"
  proof -
    have "of_nat n * bd_blocksize b = of_nat (n * ?s)" by simp
    moreover have "n * ?s < 2 ^ 32" using Suc.prems(3) by simp
    ultimately show ?thesis by (metis unat_small)
  qed
  then have pos: "off + unat (of_nat n * bd_blocksize b) = length (take off dest @ concat (map sector [k..<k + n]))"
    using ld by simp
  let ?mid = "take ?s (drop (off + n * ?s) dest)" and ?rest = "drop (off + Suc n * ?s) dest"
  have d: "?d = (take off dest @ concat (map sector [k..<k + n])) @ ?mid @ ?rest"
  proof -
    have "drop ?s (drop (off + n * ?s) dest) = ?rest" by (simp add: ac_simps)
    then have "drop (off + n * ?s) dest = ?mid @ ?rest" by (metis append_take_drop_id)
    then show ?thesis by simp
  qed
  have ml: "length ?mid = ?s" using Suc.prems(2) by simp
  have rb: "bd_block b (bd_medium b) False (of_nat n + of_nat k) ?mid =
      Inr (bd_blocksize b, sector (k + n), bd_medium b)"
    using read_block [of "k + n" ?mid] Suc.prems(1) ml by (simp add: add.commute)
  have sl: "length (sector (k + n)) = ?s" using Suc.prems(1) by (intro sector_length) simp
  have get: "get_slice ?d (off + unat (of_nat n * bd_blocksize b)) ?s = Inr ?mid"
    unfolding d pos using ml by (intro get_slice_middle) simp
  have put: "put_slice ?d (off + unat (of_nat n * bd_blocksize b)) (sector (k + n)) =
      Inr ((take off dest @ concat (map sector [k..<k + n])) @ sector (k + n) @ ?rest)"
    unfolding d pos using ml sl by (intro put_slice_middle) simp
  show ?case
    unfolding upt_Suc_append [OF le0] read_blocks_append ih
    using get put rb by (simp add: Let_def upt_Suc_append distrib_right)
qed simp

end

subsection \<open>Clusters and chains\<close>

definition blocks_per_cluster :: "fat_info \<Rightarrow> bdev \<Rightarrow> u32" where
  "blocks_per_cluster fi b =
     round_up_integer (ucast (sectors_per_cluster (fatbs fi)) * ucast (bytes_per_sector (fatbs fi))) (bd_blocksize b)
       div bd_blocksize b"

definition cluster_lba :: "fat_info \<Rightarrow> bdev \<Rightarrow> u32 \<Rightarrow> u32" where
  "cluster_lba fi b c = vfat_cluster_to_sector c fi * ucast (bytes_per_sector (fatbs fi)) div bd_blocksize b"

definition csize :: "fat_info \<Rightarrow> bdev \<Rightarrow> nat" where
  "csize fi b = unat (blocks_per_cluster fi b) * unat (bd_blocksize b)"

text \<open>A FAT type the driver handles, clusters that are not empty and whose size is no overflow.\<close>

definition fat_ok :: "fat_info \<Rightarrow> bdev \<Rightarrow> bool" where
  "fat_ok fi b \<longleftrightarrow> fat_type fi \<in> {12, 16, 32} \<and> 0 < csize fi b \<and> csize fi b < 2 ^ 32"

definition cluster_bytes :: "(nat \<Rightarrow> string) \<Rightarrow> fat_info \<Rightarrow> bdev \<Rightarrow> u32 \<Rightarrow> string" where
  "cluster_bytes sector fi b c =
     concat (map sector [unat (cluster_lba fi b c)..<unat (cluster_lba fi b c) + unat (blocks_per_cluster fi b)])"

text \<open>The chain that starts at cluster \<open>c\<close> begins with \<open>cs\<close>, all within the device.\<close>

primrec chain :: "nat \<Rightarrow> fat_info \<Rightarrow> bdev \<Rightarrow> u32 \<Rightarrow> u32 list \<Rightarrow> bool" where
  "chain nblocks fi b c [] = True"
| "chain nblocks fi b c (x # xs) = (x = c \<and> unat (cluster_lba fi b c) + unat (blocks_per_cluster fi b) \<le> nblocks \<and>
     (\<exists>c'. vfat_next_cluster c fi = Inr c' \<and> chain nblocks fi b c' xs))"

lemma skip_chain:
  "chain nb fi b c cs \<Longrightarrow> n < length cs \<Longrightarrow> \<exists>c'. skip_clusters n c fi = Inr c' \<and> chain nb fi b c' (drop n cs)"
proof (induction n arbitrary: c cs)
  case (Suc n)
  then obtain x xs where cs: "cs = x # xs" by (cases cs) auto
  with Suc show ?case by auto
qed simp

lemma sectors_to_blocks_ok:
  "bd_blocksize b \<noteq> 0 \<Longrightarrow>
   vfat_sectors_to_blocks (ucast (sectors_per_cluster (fatbs fi))) (fatbs fi) b = Inr (blocks_per_cluster fi b)"
  by (simp add: vfat_sectors_to_blocks_def div_by_def blocks_per_cluster_def)

lemma sector_to_lba_ok:
  "bd_blocksize b \<noteq> 0 \<Longrightarrow>
   vfat_sector_to_lba (vfat_cluster_to_sector c fi) (fatbs fi) b = Inr (cluster_lba fi b c)"
  by (simp add: vfat_sector_to_lba_def div_by_def cluster_lba_def)

lemma csize_word:
  assumes "fat_ok fi b"
  shows "blocks_per_cluster fi b * bd_blocksize b = of_nat (csize fi b)"
    "unat (blocks_per_cluster fi b * bd_blocksize b) = csize fi b"
proof -
  show e: "blocks_per_cluster fi b * bd_blocksize b = of_nat (csize fi b)" by (simp add: csize_def)
  show "unat (blocks_per_cluster fi b * bd_blocksize b) = csize fi b"
    unfolding e using assms by (intro unat_small) (simp add: fat_ok_def)
qed

context block_reader
begin

lemma cluster_bytes_length:
  "unat (cluster_lba fi b c) + unat (blocks_per_cluster fi b) \<le> nblocks \<Longrightarrow>
   length (cluster_bytes sector fi b c) = csize fi b"
  by (simp add: cluster_bytes_def csize_def sectors_length)

lemma read_cluster:
  assumes ok: "fat_ok fi b" and lba: "unat (cluster_lba fi b c) + unat (blocks_per_cluster fi b) \<le> nblocks"
    and nxt: "vfat_next_cluster c fi = Inr c'" and buf: "off + csize fi b \<le> length buf"
  shows "vfat_read_cluster buf off c fi b =
    Inr (take off buf @ cluster_bytes sector fi b c @ drop (off + csize fi b) buf, c')"
proof -
  have "read_blocks_loop b buf off (of_nat (unat (cluster_lba fi b c))) 0 [0..<unat (blocks_per_cluster fi b)] =
      Inr (of_nat (unat (blocks_per_cluster fi b)) * bd_blocksize b,
        take off buf @ concat (map sector [unat (cluster_lba fi b c)..<unat (cluster_lba fi b c) + unat (blocks_per_cluster fi b)])
          @ drop (off + unat (blocks_per_cluster fi b) * unat (bd_blocksize b)) buf)"
    using lba buf ok by (intro read_blocks) (simp_all add: csize_def fat_ok_def)
  then show ?thesis
    using ok nxt sectors_to_blocks_ok [OF blocksize] sector_to_lba_ok [OF blocksize]
    by (auto simp: vfat_read_cluster_def vfs_read_blocks_def cluster_bytes_def csize_def fat_ok_def)
qed

lemma chain_bytes_length:
  "chain nblocks fi b c cs \<Longrightarrow> length (concat (map (cluster_bytes sector fi b) cs)) = length cs * csize fi b"
  by (induction cs arbitrary: c) (auto simp: cluster_bytes_length)

lemma read_chain_ok:
  assumes "fat_ok fi b" "chain nblocks fi b c cs" "n \<le> length cs" "(k + n) * csize fi b \<le> length buf" "length buf < 2 ^ 32"
  shows "read_chain buf (of_nat (csize fi b)) c fi b [k..<k + n] =
    Inr (take (k * csize fi b) buf @ concat (map (cluster_bytes sector fi b) (take n cs)) @
         drop ((k + n) * csize fi b) buf)"
  using assms(2-)
proof (induction n arbitrary: k c cs buf)
  case (Suc n)
  let ?z = "csize fi b"
  obtain x xs c' where cs: "cs = x # xs" "x = c" "vfat_next_cluster c fi = Inr c'" "chain nblocks fi b c' xs"
    and lba: "unat (cluster_lba fi b c) + unat (blocks_per_cluster fi b) \<le> nblocks"
    using Suc.prems(1,2) by (cases cs) auto
  have le: "(Suc k + n) * ?z \<le> length buf" using Suc.prems(3) by simp
  then have kz: "k * ?z + ?z \<le> length buf" by (simp add: algebra_simps)
  have pos: "unat (of_nat k * of_nat ?z :: u32) = k * ?z"
    using unat_small [of "k * ?z"] kz Suc.prems(4) by simp
  let ?buf = "take (k * ?z) buf @ cluster_bytes sector fi b c @ drop (k * ?z + ?z) buf"
  have clen: "length (cluster_bytes sector fi b c) = ?z" by (rule cluster_bytes_length [OF lba])
  have bl: "length ?buf = length buf" using clen kz by simp
  have "read_chain ?buf (of_nat ?z) c' fi b [Suc k..<Suc k + n] =
      Inr (take (Suc k * ?z) ?buf @ concat (map (cluster_bytes sector fi b) (take n xs)) @ drop ((Suc k + n) * ?z) ?buf)"
    using cs Suc.prems(2,4) le bl by (intro Suc.IH) auto
  moreover have "take (Suc k * ?z) ?buf = take (k * ?z) buf @ cluster_bytes sector fi b c"
    using clen kz by simp
  moreover have "drop ((Suc k + n) * ?z) ?buf = drop ((Suc k + n) * ?z) buf"
    using clen kz by (simp add: algebra_simps del: upt_Suc)
  moreover have up: "[k..<k + Suc n] = k # [Suc k..<Suc k + n]"
    by (simp add: upt_conv_Cons del: upt_Suc)
  moreover have "read_chain buf (of_nat ?z) c fi b (k # [Suc k..<Suc k + n]) =
      read_chain ?buf (of_nat ?z) c' fi b [Suc k..<Suc k + n]"
    using read_cluster [OF assms(1) lba cs(3) kz] pos by (simp del: upt_Suc)
  moreover have "(Suc k + n) * ?z = (k + Suc n) * ?z" by simp
  ultimately show ?case using cs by (simp only: take_Suc_Cons list.map concat.simps append_assoc)
qed simp

end

subsection \<open>Reading a file\<close>

definition first_cluster :: "fat_info \<Rightarrow> vfile \<Rightarrow> u32 res" where
  "first_cluster fi f =
     rbind (aget ''fentries'' (fentries fi) (unat (f_id f))) (\<lambda>entry.
     rbind (buf16 entry 26) (\<lambda>lo. rbind (buf16 entry 20) (\<lambda>hi. Inr (lo + push_bit 16 hi))))"

definition pages_up :: "nat \<Rightarrow> nat \<Rightarrow> nat" where
  "pages_up n z = (n + z - 1) div z"

lemma pages_up_bounds: "0 < z \<Longrightarrow> n \<le> pages_up n z * z \<and> pages_up n z * z < n + z"
proof -
  assume z: "0 < z"
  have "(n + z - 1) div z * z + (n + z - 1) mod z = n + z - 1" by simp
  moreover have "(n + z - 1) mod z < z" using z by simp
  ultimately show ?thesis unfolding pages_up_def using z by linarith
qed

lemma round_up_word:
  assumes "0 < z" "n + z < 2 ^ 32"
  shows "round_up_integer (of_nat n) (of_nat z) = of_nat (pages_up n z * z)"
    "of_nat (pages_up n z * z) div (of_nat z :: u32) = of_nat (pages_up n z)"
    "unat (of_nat (pages_up n z) :: u32) = pages_up n z"
    "unat (of_nat (pages_up n z * z) :: u32) = pages_up n z * z"
proof -
  have b: "pages_up n z * z < 2 ^ 32" using pages_up_bounds [OF assms(1), of n] assms(2) by linarith
  moreover have "pages_up n z \<le> pages_up n z * z" using assms(1) by simp
  ultimately have b': "pages_up n z < 2 ^ 32" by linarith
  from b show u: "unat (of_nat (pages_up n z * z) :: u32) = pages_up n z * z" by (rule unat_small)
  from b' show "unat (of_nat (pages_up n z) :: u32) = pages_up n z" by (rule unat_small)
  have z: "unat (of_nat z :: u32) = z" using assms by (intro unat_small) simp
  have nz: "(of_nat z :: u32) \<noteq> 0" using z assms(1) by (metis unat_0 less_irrefl)
  have "unat (of_nat (pages_up n z * z) div (of_nat z :: u32)) = pages_up n z"
    using u z assms(1) by (simp add: unat_div del: of_nat_mult)
  then show "of_nat (pages_up n z * z) div (of_nat z :: u32) = of_nat (pages_up n z)"
    by (rule word_of_unat)
  have "(of_nat n + of_nat z - 1 :: u32) = of_nat (n + z - 1)" using assms(1) by (simp add: of_nat_diff)
  moreover have "unat (of_nat (n + z - 1) :: u32) = n + z - 1" using assms by (intro unat_small) simp
  ultimately have "unat ((of_nat n + of_nat z - 1) div of_nat z :: u32) = pages_up n z"
    using z by (simp only: unat_div pages_up_def)
  then have "(of_nat n + of_nat z - 1) div of_nat z = (of_nat (pages_up n z) :: u32)"
    by (rule word_of_unat)
  then show "round_up_integer (of_nat n) (of_nat z) = of_nat (pages_up n z * z)"
    using nz by (simp add: round_up_integer_def)
qed

lemma length_concat_equal: "\<forall>x\<in>set xs. length x = z \<Longrightarrow> length (concat xs) = length xs * z"
  by (induction xs) auto

lemma drop_concat_equal:
  assumes "\<forall>x\<in>set xs. length x = z" "q \<le> length xs"
  shows "drop (q * z) (concat xs) = concat (drop q xs)"
  using assms
proof (induction q arbitrary: xs)
  case (Suc q)
  then show ?case by (cases xs) (auto simp: add.commute)
qed simp

context block_reader
begin

lemma chain_cluster_lengths:
  "chain nblocks fi b c cs \<Longrightarrow> \<forall>x\<in>set (map (cluster_bytes sector fi b) cs). length x = csize fi b"
  by (induction cs arbitrary: c) (auto simp: cluster_bytes_length)

theorem accessfile_spec:
  assumes b: "bdev_at v bd = Inr b" "bd_mountpoint b = Some mi" "mount_at v mi = Inr m" "mp_extra m = FatExtra fi"
    and ok: "fat_ok fi b" and ch: "first_cluster fi f = Inr c" "chain nblocks fi b c cs"
    and sz: "unat (f_size f) \<le> length cs * csize fi b" "unat loc < unat (f_size f)"
    and n: "n = min (unat len) (unat (f_size f) - unat loc)" "0 < n" "n < 2 ^ 31" "n + csize fi b < 2 ^ 32"
  shows "vfat_accessfile v bd False f buffer len loc =
    (if unat loc mod csize fi b + n \<le> pages_up n (csize fi b) * csize fi b
     then Inr (int n, take n (drop (unat loc) (concat (map (cluster_bytes sector fi b) cs))))
     else Inl (Fault ''buffer''))"
proof -
  let ?z = "csize fi b" and ?l = "unat loc" and ?k = "pages_up n (csize fi b)" and ?content = "concat (map (cluster_bytes sector fi b) cs)"
  let ?q = "?l div ?z" and ?r = "?l mod ?z"
  have z: "0 < ?z" "?z < 2 ^ 32" using ok by (simp_all add: fat_ok_def)
  obtain entry lo hi where e: "aget ''fentries'' (fentries fi) (unat (f_id f)) = Inr entry"
    "buf16 entry 26 = Inr lo" "buf16 entry 20 = Inr hi" "c = lo + push_bit 16 hi"
    using ch(1) by (auto simp: first_cluster_def rbind_eq_Inr)
  have zw: "unat (of_nat ?z :: u32) = ?z" "(of_nat ?z :: u32) \<noteq> 0"
    using unat_small [OF z(2)] z(1) by (simp, metis unat_0 less_irrefl)
  have sub: "unat (f_size f - loc) = unat (f_size f) - ?l"
    using sz(2) by (intro unat_sub) (simp add: word_le_nat_alt)
  have bytes: "(if len \<ge> f_size f - loc then f_size f - loc else len) = of_nat n"
  proof -
    have "f_size f - loc = of_nat (unat (f_size f) - ?l)" using sub by (rule word_of_unat)
    moreover have "len = of_nat (unat len)" by simp
    ultimately show ?thesis using sub n(1) by (auto simp: word_le_nat_alt min_def)
  qed
  have nn: "unat (of_nat n :: u32) = n" using n(3) by (intro unat_small) simp
  have n0: "(of_nat n :: u32) \<noteq> 0" using nn n(2) by (metis unat_0 less_irrefl)
  have sn: "sint (of_nat n :: u32) = int n"
    using n(3) by (simp add: signed_of_nat signed_take_bit_int_eq_self)
  note ru = round_up_word [OF z(1) n(4)]
  have q: "?q * ?z + ?r = ?l" by (rule div_mult_mod_eq)
  have qlen: "?q < length cs"
    using sz z(1) by (metis div_less_iff_less_mult less_le_trans)
  have kb: "n \<le> ?k * ?z" "?k * ?z < n + ?z" using pages_up_bounds [OF z(1), of n] by auto
  have "?l + n \<le> length cs * ?z" using sz n(1) by linarith
  then have "?q * ?z + ?k * ?z < length cs * ?z + ?z" using kb(2) q by linarith
  then have "(?q + ?k) * ?z < (length cs + 1) * ?z" by (simp add: distrib_right)
  then have "?q + ?k < length cs + 1" using z(1) by (simp only: mult_less_cancel2)
  then have klen: "?k \<le> length (drop ?q cs)" by simp
  obtain c' where skip: "skip_clusters ?q c fi = Inr c'" "chain nblocks fi b c' (drop ?q cs)"
    using skip_chain [OF ch(2) qlen] by auto
  have div_loc: "div_by loc (of_nat ?z) = Inr (loc div of_nat ?z)" "unat (loc div of_nat ?z) = ?q"
    "unat (loc mod of_nat ?z) = ?r"
    using zw by (simp_all add: div_by_def unat_div unat_mod)
  have div_rs: "div_by (of_nat (?k * ?z)) (of_nat ?z) = Inr (of_nat ?k)"
    using zw ru(2) by (simp add: div_by_def)
  have fl: "length (fresh_block v (?k * ?z)) = ?k * ?z" by (simp add: fresh_block_def)
  have "read_chain (fresh_block v (?k * ?z)) (of_nat ?z) c' fi b [0..<0 + ?k] =
      Inr (take (0 * ?z) (fresh_block v (?k * ?z)) @ concat (map (cluster_bytes sector fi b) (take ?k (drop ?q cs))) @
           drop ((0 + ?k) * ?z) (fresh_block v (?k * ?z)))"
    using kb(2) n(4) by (intro read_chain_ok [OF ok skip(2) klen]) (simp_all add: fl)
  then have rd: "read_chain (fresh_block v (?k * ?z)) (of_nat ?z) c' fi b [0..<?k] =
      Inr (concat (map (cluster_bytes sector fi b) (take ?k (drop ?q cs))))" by (simp add: fl)
  let ?temp = "concat (map (cluster_bytes sector fi b) (take ?k (drop ?q cs)))"
  have eq: "\<forall>x\<in>set (map (cluster_bytes sector fi b) (take ?k (drop ?q cs))). length x = ?z"
    using chain_cluster_lengths [OF skip(2)] by (auto dest: in_set_takeD)
  have tl: "length ?temp = ?k * ?z" using length_concat_equal [OF eq] klen by simp
  have "drop (?q * ?z) ?content = concat (map (cluster_bytes sector fi b) (drop ?q cs))"
    using drop_concat_equal [OF chain_cluster_lengths [OF ch(2)], of ?q] qlen by (simp add: drop_map)
  also have "\<dots> = ?temp @ concat (map (cluster_bytes sector fi b) (drop ?k (drop ?q cs)))"
    by (metis append_take_drop_id concat_append map_append)
  finally have split: "drop ?l ?content = drop ?r (?temp @ concat (map (cluster_bytes sector fi b) (drop ?k (drop ?q cs))))"
    using q by (metis drop_drop add.commute)
  have slice: "get_slice ?temp ?r n = (if ?r + n \<le> ?k * ?z then Inr (take n (drop ?l ?content)) else Inl (Fault ''buffer''))"
    unfolding split get_slice_def tl using tl by simp
  have "vfat_accessfile v bd False f buffer len loc =
      rbind (get_slice ?temp ?r n) (\<lambda>data. Inr (int n, data))"
    unfolding vfat_accessfile_def Let_def bytes
    using b e skip(1) div_loc div_rs rd ru nn n0 sn csize_word(1) [OF ok] sectors_to_blocks_ok [OF blocksize, of fi]
    by (simp add: fat_info_of_def)
  then show ?thesis by (simp add: slice)
qed

end

subsection \<open>Files on a RAM disk\<close>

definition rdisk_dev :: "string \<Rightarrow> string \<Rightarrow> nat \<Rightarrow> bdev" where
  "rdisk_dev disk nm mi = \<lparr>bd_block = rdisk_block (of_nat (length disk div 512)) 2, bd_medium = disk, bd_blocksize = 512,
     bd_blocks = of_nat (length disk div 512), bd_name = nm, bd_mountpoint = Some mi, bd_mounted = True,
     bd_ispartition = 2, bd_id = 1\<rparr>"

definition rdisk_sector :: "string \<Rightarrow> nat \<Rightarrow> string" where
  "rdisk_sector disk i = take 512 (drop (512 * i) disk)"

definition rdisk_blocks :: "string \<Rightarrow> nat" where
  "rdisk_blocks disk = min (length disk div 512) (2 ^ 23)"

interpretation rdisk: block_reader "rdisk_dev disk nm mi" "rdisk_sector disk" "rdisk_blocks disk" for disk nm mi
proof
  show "bd_blocksize (rdisk_dev disk nm mi) \<noteq> 0" by (simp add: rdisk_dev_def)
  show "rdisk_blocks disk \<le> 2 ^ 32" by (simp add: rdisk_blocks_def min_le_iff_disj)
next
  fix i assume i: "i < rdisk_blocks disk"
  then have "Suc i \<le> length disk div 512" by (simp add: rdisk_blocks_def)
  then have "Suc i * 512 \<le> length disk div 512 * 512" by (intro mult_le_mono1)
  also have "\<dots> \<le> length disk" by simp
  finally have len: "512 * i + 512 \<le> length disk" by simp
  then show sl: "length (rdisk_sector disk i) = unat (bd_blocksize (rdisk_dev disk nm mi))"
    by (simp add: rdisk_sector_def rdisk_dev_def)
  fix block :: string assume "length block = unat (bd_blocksize (rdisk_dev disk nm mi))"
  then have bl: "length block = 512" by (simp add: rdisk_dev_def)
  have "i < 2 ^ 23" using i by (simp add: rdisk_blocks_def)
  then have "unat (of_nat (i * 512) :: u32) = i * 512" by (intro unat_small) simp
  then have ix: "unat (of_nat i * 512 :: u32) = 512 * i" by simp
  show "bd_block (rdisk_dev disk nm mi) (bd_medium (rdisk_dev disk nm mi)) False (of_nat i) block =
      Inr (bd_blocksize (rdisk_dev disk nm mi), rdisk_sector disk i, bd_medium (rdisk_dev disk nm mi))"
    using ix len bl sl
    by (simp add: rdisk_dev_def rdisk_block_def get_slice_def put_slice_def rdisk_sector_def)
qed

text \<open>
  C28: Reading a file of a FAT volume. The file is the concatenation of the clusters of its
  chain. A read of \<open>len\<close> bytes at \<open>loc\<close> inside the file is cut at the end of the file and
  returns exactly those bytes, provided they lie in as many clusters as their number alone
  needs. A read that starts so far inside a cluster that it needs one more runs over the end
  of the temporary buffer, which is sized without the offset.
\<close>

theorem vfat_read_spec:
  assumes "bdev_at v bd = Inr (rdisk_dev disk nm mi)" "mount_at v mi = Inr m" "mp_extra m = FatExtra fi"
    and "fat_ok fi (rdisk_dev disk nm mi)" "first_cluster fi f = Inr c"
    and "chain (rdisk_blocks disk) fi (rdisk_dev disk nm mi) c cs"
    and "z = csize fi (rdisk_dev disk nm mi)" "unat (f_size f) \<le> length cs * z" "unat loc < unat (f_size f)"
    and "n = min (unat len) (unat (f_size f) - unat loc)" "0 < n" "n < 2 ^ 31" "n + z < 2 ^ 32"
  shows "vfat_accessfile v bd False f buffer len loc =
    (if unat loc mod z + n \<le> pages_up n z * z
     then Inr (int n, take n (drop (unat loc)
       (concat (map (cluster_bytes (rdisk_sector disk) fi (rdisk_dev disk nm mi)) cs))))
     else Inl (Fault ''buffer''))"
  unfolding assms(7)
  by (rule rdisk.accessfile_spec) (use assms in \<open>simp_all add: rdisk_dev_def\<close>)

definition demo_fat :: fat_info where
  "demo_fat = \<lparr>fat_type = 16, total_clusters = 5000, fat_size = 20, first_data_sector = 1, data_sectors = 5000,
     total_sectors = 5001, root_dir_sectors = 0, root_dir_lba = 1, root_dir_cluster = 0, first_fat_sector = 0,
     fat_table = map (\<lambda>n. char_of (n :: nat)) [0, 0, 0, 0, 3, 0, 255, 255],
     fatbs = \<lparr>bytes_per_sector = 512, sectors_per_cluster = 1, reserved_sector_count = 0, table_count = 0,
       root_entry_count = 0, total_sectors_16 = 5001, table_size_16 = 20, total_sectors_32 = 0, table_size_32 = 0,
       root_cluster = 0\<rparr>,
     fentries = [replicate 26 NUL @ [char_of (2 :: nat)] @ replicate 5 NUL], fentries_size = 32\<rparr>"

definition demo_fat_file :: vfile where
  "demo_fat_file = \<lparr>f_name = ''init'', f_parent = 0, f_volume = 0, f_id = 0, f_size = 600, f_created = 0,
     f_modified = 0, f_attributes = 0, f_open = 0\<rparr>"

definition demo_fat_vfs :: "string \<Rightarrow> vfs" where
  "demo_fat_vfs disk = \<lparr>bdevs = [rdisk_dev disk ''rd0'' 0], bdevs_size = 512, fsdrivers = [0], fsdrivers_size = 32,
     vmounts = [\<lparr>mp_name = ''cd'', mp_bd = 0, mp_fs = 0, mp_root = 0, mp_extra = FatExtra demo_fat, mp_rw = False\<rparr>],
     vdirs = [], vfiles = [demo_fat_file], junk = (\<lambda>i. NUL)\<rparr>"

lemma vfat_read_spec_witness:
  "vfat_accessfile (demo_fat_vfs (replicate 2048 NUL)) 0 False demo_fat_file [] 100 100 =
     Inr (100, take 100 (drop 100 (concat (map (cluster_bytes (rdisk_sector (replicate 2048 NUL)) demo_fat
       (rdisk_dev (replicate 2048 NUL) ''rd0'' 0)) [2, 3])))) \<and>
   vfat_accessfile (demo_fat_vfs (replicate 2048 NUL)) 0 False demo_fat_file [] 100 500 = Inl (Fault ''buffer'')"
proof -
  let ?disk = "replicate 2048 NUL" and ?b = "rdisk_dev (replicate 2048 NUL) ''rd0'' 0"
  let ?m = "\<lparr>mp_name = ''cd'', mp_bd = 0, mp_fs = 0, mp_root = 0, mp_extra = FatExtra demo_fat, mp_rw = False\<rparr>"
  have bpc: "blocks_per_cluster demo_fat ?b = 1"
    by (simp add: blocks_per_cluster_def demo_fat_def rdisk_dev_def round_up_integer_def)
  have z: "csize demo_fat ?b = 512" by (simp add: csize_def bpc) (simp add: rdisk_dev_def)
  have lba: "cluster_lba demo_fat ?b 2 = 1" "cluster_lba demo_fat ?b 3 = 2"
    by (simp_all add: cluster_lba_def demo_fat_def rdisk_dev_def vfat_cluster_to_sector_def)
  have nxt: "vfat_next_cluster 2 demo_fat = Inr 3" "vfat_next_cluster 3 demo_fat = Inr 65535"
    by (simp_all add: vfat_next_cluster_def demo_fat_def buf16_def buf8_def)
  have ch: "chain (rdisk_blocks ?disk) demo_fat ?b 2 [2, 3]"
    by (simp add: bpc lba nxt rdisk_blocks_def)
  have first: "first_cluster demo_fat demo_fat_file = Inr 2"
    by (simp add: first_cluster_def demo_fat_def demo_fat_file_def buf16_def buf8_def nth_append nth_Cons')
  have dev: "bdev_at (demo_fat_vfs ?disk) 0 = Inr ?b" "mount_at (demo_fat_vfs ?disk) 0 = Inr ?m"
    by (simp_all add: bdev_at_def mount_at_def demo_fat_vfs_def)
  have ok: "fat_ok demo_fat ?b" by (simp add: fat_ok_def z) (simp add: demo_fat_def)
  have fsz: "unat (f_size demo_fat_file) = 600" by (simp add: demo_fat_file_def)
  have mx: "mp_extra ?m = FatExtra demo_fat" by simp
  have sz: "unat (f_size demo_fat_file) \<le> length [2, 3 :: u32] * 512" by (simp add: fsz)
  have w: "unat (100 :: u32) = 100" "unat (500 :: u32) = 500" by simp_all
  have pu: "pages_up 100 512 = 1" by (simp add: pages_up_def)
  note spec = vfat_read_spec [OF dev mx ok first ch z [symmetric] sz, unfolded fsz]
  have fit: "unat (100 :: u32) mod 512 + 100 \<le> pages_up 100 512 * 512"
    "\<not> unat (500 :: u32) mod 512 + 100 \<le> pages_up 100 512 * 512"
    unfolding w pu by simp_all
  have len: "(100 :: nat) = min (unat (100 :: u32)) (600 - unat (100 :: u32))"
    "(100 :: nat) = min (unat (100 :: u32)) (600 - unat (500 :: u32))"
    unfolding w by simp_all
  have small: "unat (100 :: u32) < 600" "unat (500 :: u32) < 600" "0 < (100 :: nat)" "(100 :: nat) < 2 ^ 31"
    "(100 :: nat) + 512 < 2 ^ 32"
    unfolding w by simp_all
  have "vfat_accessfile (demo_fat_vfs ?disk) 0 False demo_fat_file [] 100 100 = Inr (int 100, take 100 (drop (unat (100 :: u32))
      (concat (map (cluster_bytes (rdisk_sector ?disk) demo_fat ?b) [2, 3]))))"
    by (rule trans [OF spec [OF small(1) len(1) small(3-5)] if_P [OF fit(1)]])
  moreover have "vfat_accessfile (demo_fat_vfs ?disk) 0 False demo_fat_file [] 100 500 = Inl (Fault ''buffer'')"
    by (rule trans [OF spec [OF small(2) len(2) small(3-5)] if_not_P [OF fit(2)]])
  ultimately show ?thesis unfolding w by (simp only: of_nat_numeral)
qed

end

