(* ===== verification/Iso9660.thy ===== *)
theory Iso9660
  imports VfatRead CToken "HOL-Library.Signed_Division"
begin

section \<open>The ISO 9660 file system driver\<close>

text \<open>
  \<open>kernel/kernel/drv/fs/iso9660.c\<close> and \<open>iso9660.h\<close>. Buffers are the lists of their bytes and
  structures in them are read at their packed offsets. Three places of the code use a byte
  behind a heap block or a block that was not initialised: an identifier buffer and a directory
  buffer are one byte short, which the allocator's padding absorbs (\<open>payload_slack\<close> in
  \<open>HeapSpec\<close>), so that byte is taken to exist with unspecified contents; and \<open>fentries_loc\<close>
  starts with whatever the heap block held. The loop over a directory does not end when an
  empty sector is met, so it takes fuel, and so does the walk up to the root.
\<close>

subsection \<open>Fields and names\<close>

definition iso_round_up :: "u32 \<Rightarrow> u32 \<Rightarrow> u32" where
  "iso_round_up number multiple =
     (if multiple = 0 then number
      else word_of_int (sint (number + multiple - 1) sdiv sint multiple) * multiple)"

definition iso_info_of :: "mount \<Rightarrow> iso_info res" where
  "iso_info_of m = (case mp_extra m of IsoExtra fi \<Rightarrow> Inr fi | _ \<Rightarrow> Inl (Fault ''iso9660_fs_info''))"

text \<open>\<open>struct iso9660_directory_entry\<close>, as the bytes from its start.\<close>

definition de_length :: "string \<Rightarrow> u32 res" where "de_length e = buf8 e 0"
definition de_file_loc :: "string \<Rightarrow> u32 res" where "de_file_loc e = buf32 e 2"
definition de_file_size :: "string \<Rightarrow> u32 res" where "de_file_size e = buf32 e 10"
definition de_flags :: "string \<Rightarrow> u32 res" where "de_flags e = buf8 e 25"
definition de_id_len :: "string \<Rightarrow> u32 res" where "de_id_len e = buf8 e 32"

text \<open>\<open>strncpy\<close> of at most \<open>n\<close> characters and a terminator: the string this makes.\<close>

primrec copy_id :: "string \<Rightarrow> nat \<Rightarrow> nat \<Rightarrow> string res" where
  "copy_id buf i 0 = Inr []"
| "copy_id buf i (Suc n) =
     rbind (aget ''identifier'' buf i) (\<lambda>c.
     if c = NUL then Inr [] else rbind (copy_id buf (i + 1) n) (\<lambda>cs. Inr (c # cs)))"

text \<open>\<open>strtok(id, ";")\<close>: the name without its version, \<open>None\<close> for the null pointer.\<close>

definition strip_version :: "string \<Rightarrow> string option res" where
  "strip_version ident =
     rbind (strtok (ident @ [NUL]) (Some 0) [CHR '';'', NUL] 0) (\<lambda>(tok, buf, olds).
     Inr (map_option (\<lambda>k. takeWhile (\<lambda>c. c \<noteq> NUL) (drop k buf)) tok))"

text \<open>The byte at \<open>loc\<close>; the one just behind the buffer is part of the allocation.\<close>

definition buf_slack :: "vfs \<Rightarrow> string \<Rightarrow> nat \<Rightarrow> char res" where
  "buf_slack v buf i = (if i = length buf then Inr (junk v i) else aget ''buffer'' buf i)"

text \<open>The position of the next directory record: padding is skipped.\<close>

definition next_record :: "vfs \<Rightarrow> bdev \<Rightarrow> string \<Rightarrow> u32 \<Rightarrow> u32 res" where
  "next_record v b buf loc =
     rbind (de_length (drop (unat loc) buf)) (\<lambda>len.
     let loc = loc + len in
     rbind (buf_slack v buf (unat loc)) (\<lambda>c.
     Inr (if c = NUL then iso_round_up loc (bd_blocksize b) else loc)))"

text \<open>
  The extent of a directory, \<open>None\<close> when the device delivers nothing.
\<close>

definition read_extent :: "vfs \<Rightarrow> bdev \<Rightarrow> u32 \<Rightarrow> u32 \<Rightarrow> string option res" where
  "read_extent v b sz loc =
     (let n = iso_round_up sz (bd_blocksize b) in
      rbind (div_by n (bd_blocksize b)) (\<lambda>blocks.
      rbind (vfs_read_blocks (fresh_block v (unat n)) 0 b blocks loc) (\<lambda>(r, buf).
      Inr (if r = 0 then None else Some buf))))"

subsection \<open>Looking up directory records\<close>

text \<open>
  The loop of \<open>iso9660_find_dir_entry\<close> and of \<open>iso9660_find_dir_entry_file\<close>: the record whose
  name is \<open>nm\<close>, with its identifier. They differ in an identifier without a name: the first
  keeps the empty string, the second (\<open>file\<close>) follows the null pointer.
\<close>

primrec find_record ::
  "nat \<Rightarrow> bool \<Rightarrow> vfs \<Rightarrow> bdev \<Rightarrow> string \<Rightarrow> u32 \<Rightarrow> string \<Rightarrow> u32 \<Rightarrow> string option res" where
  "find_record 0 file v b buf sz nm loc = Inl no_fuel"
| "find_record (Suc n) file v b buf sz nm loc =
     (let current = drop (unat loc) buf in
      rbind (de_id_len current) (\<lambda>len.
      rbind (copy_id current 33 (unat len)) (\<lambda>dirid.
      rbind (strip_version dirid) (\<lambda>tok.
      rbind (case tok of Some t \<Rightarrow> Inr t | None \<Rightarrow> if file then Inl (Panic ''Page Fault'') else Inr dirid) (\<lambda>dirname.
      if map tolower dirname = nm then rbind (get_slice current 0 (33 + unat len)) (\<lambda>e. Inr (Some e))
      else
        rbind (next_record v b buf loc) (\<lambda>loc.
        if loc \<ge> sz then Inr None else find_record n file v b buf sz nm loc))))))"

definition find_in_entry ::
  "nat \<Rightarrow> bool \<Rightarrow> vfs \<Rightarrow> bdev \<Rightarrow> string \<Rightarrow> string \<Rightarrow> string option res" where
  "find_in_entry fuel file v b parententry nm =
     rbind (de_file_size parententry) (\<lambda>sz.
     rbind (de_file_loc parententry) (\<lambda>loc.
     rbind (read_extent v b sz loc) (\<lambda>r.
     case r of None \<Rightarrow> Inr None | Some buf \<Rightarrow> find_record fuel file v b buf sz nm 0)))"

text \<open>The root's record is a pointer into the volume descriptor.\<close>

primrec iso9660_find_dir_entry :: "nat \<Rightarrow> vfs \<Rightarrow> nat \<Rightarrow> nat \<Rightarrow> string option res" where
  "iso9660_find_dir_entry 0 v d bd = Inl no_fuel"
| "iso9660_find_dir_entry (Suc n) v d bd =
     rbind (bdev_at v bd) (\<lambda>b.
     rbind (deref ''mountpoint'' (bd_mountpoint b)) (\<lambda>mi.
     rbind (mount_at v mi) (\<lambda>m.
     rbind (iso_info_of m) (\<lambda>fi.
     rbind (dir_at v d) (\<lambda>dir.
     case d_parent dir of
       None \<Rightarrow> Inr (Some (drop 156 (iso_pvd fi)))
     | Some p \<Rightarrow>
         rbind (iso9660_find_dir_entry n v p bd) (\<lambda>r.
         case r of None \<Rightarrow> Inr None
         | Some parententry \<Rightarrow>
             rbind (deref ''dir->name'' (d_name dir)) (\<lambda>nm. find_in_entry n False v b parententry nm)))))))"

definition iso9660_find_dir_entry_file :: "nat \<Rightarrow> vfs \<Rightarrow> vfile \<Rightarrow> nat \<Rightarrow> string option res" where
  "iso9660_find_dir_entry_file fuel v file bd =
     rbind (iso9660_find_dir_entry fuel v (f_parent file) bd) (\<lambda>r.
     case r of None \<Rightarrow> Inr None
     | Some parententry \<Rightarrow>
         rbind (bdev_at v bd) (\<lambda>b. find_in_entry fuel True v b parententry (f_name file)))"

subsection \<open>The files of a directory\<close>

text \<open>The name of a file: without version, without a final dot, in lower case.\<close>

definition file_name :: "string \<Rightarrow> string res" where
  "file_name fileid =
     rbind (strip_version fileid) (\<lambda>tok.
     case tok of None \<Rightarrow> Inl (Panic ''Page Fault'')
     | Some nm \<Rightarrow> Inr (map tolower (if last nm = CHR ''.'' then butlast nm else nm)))"

definition put_fentry :: "vfs \<Rightarrow> nat \<Rightarrow> string \<Rightarrow> (u32 \<times> vfs) res" where
  "put_fentry v mi newdir =
     rbind (mount_at v mi) (\<lambda>m.
     rbind (iso_info_of m) (\<lambda>fi.
     let loc = iso_fentries_loc fi;
         sz = (if iso_fentries_size fi \<le> loc then iso_fentries_size fi + 32 else iso_fentries_size fi) in
     if loc \<ge> sz then Inl (Fault ''fentries'')
     else
       rbind (upd_mount v mi (\<lambda>m. m\<lparr>mp_extra := IsoExtra (fi\<lparr>iso_fentries_size := sz,
         iso_fentries := (iso_fentries fi)(unat loc := Some newdir), iso_fentries_loc := loc + 1\<rparr>)\<rparr>)) (\<lambda>v. Inr (loc, v))))"

definition append_file :: "vfs \<Rightarrow> nat \<Rightarrow> nat \<Rightarrow> string \<Rightarrow> u32 \<Rightarrow> vfs res" where
  "append_file v mi d current flags =
     rbind (de_id_len current) (\<lambda>len.
     rbind (copy_id current 33 (unat len)) (\<lambda>fileid.
     rbind (file_name fileid) (\<lambda>nm.
     rbind (de_file_size current) (\<lambda>sz.
     rbind (get_slice current 0 (33 + unat len)) (\<lambda>newdir.
     rbind (put_fentry v mi newdir) (\<lambda>(loc, v).
     vfs_append_directory_file
       (v\<lparr>vfiles := vfiles v @ [\<lparr>f_name = nm, f_parent = d, f_volume = mi, f_id = loc, f_size = sz,
          f_created = 0, f_modified = 0, f_attributes = ucast (flags AND 1), f_open = 0\<rparr>]\<rparr>)
       d (length (vfiles v))))))))"

primrec append_loop ::
  "nat \<Rightarrow> vfs \<Rightarrow> nat \<Rightarrow> nat \<Rightarrow> bdev \<Rightarrow> string \<Rightarrow> u32 \<Rightarrow> u32 \<Rightarrow> vfs res" where
  "append_loop 0 v mi d b buf sz loc = Inl no_fuel"
| "append_loop (Suc n) v mi d b buf sz loc =
     (let current = drop (unat loc) buf in
      rbind (de_flags current) (\<lambda>flags.
      rbind (if flags AND 2 = 0 then append_file v mi d current flags else Inr v) (\<lambda>v.
      rbind (next_record v b buf loc) (\<lambda>loc.
      if loc \<ge> sz then Inr v else append_loop n v mi d b buf sz loc))))"

definition iso9660_append_files :: "nat \<Rightarrow> vfs \<Rightarrow> nat \<Rightarrow> nat \<Rightarrow> vfs res" where
  "iso9660_append_files fuel v d bd =
     rbind (bdev_at v bd) (\<lambda>b.
     rbind (deref ''mountpoint'' (bd_mountpoint b)) (\<lambda>mi.
     rbind (iso9660_find_dir_entry fuel v d bd) (\<lambda>r.
     case r of None \<Rightarrow> Inl (Panic ''Page Fault'')
     | Some direntry \<Rightarrow>
         rbind (de_file_size direntry) (\<lambda>sz.
         rbind (de_file_loc direntry) (\<lambda>loc.
         rbind (read_extent v b sz loc) (\<lambda>r.
         case r of None \<Rightarrow> Inr v | Some buf \<Rightarrow> append_loop fuel v mi d b buf sz 0))))))"

primrec append_all :: "nat \<Rightarrow> vfs \<Rightarrow> nat \<Rightarrow> nat list \<Rightarrow> vfs res" where
  "append_all fuel v bd [] = Inr v"
| "append_all fuel v bd (d # ds) = rbind (iso9660_append_files fuel v d bd) (\<lambda>v. append_all fuel v bd ds)"

subsection \<open>Mounting\<close>

text \<open>
  One entry of the path table becomes a directory. Its parent is found among the directories
  so far, itself included, which is not initialised at that point.
\<close>

definition pt_entry_dir :: "vfs \<Rightarrow> nat \<Rightarrow> nat \<Rightarrow> nat list \<Rightarrow> string \<Rightarrow> nat \<Rightarrow> (nat \<times> vfs) res" where
  "pt_entry_dir v mi root ds pt loc =
     (let k = length ds in
      rbind (buf8 pt loc) (\<lambda>len.
      rbind (copy_id pt (loc + 8) (unat len)) (\<lambda>dirname.
      if dirname = [] then
        rbind (upd_dir v root (\<lambda>_. new_dir (Some dirname) None mi (of_nat k))) (\<lambda>v. Inr (root, v))
      else
        rbind (buf16 pt (loc + 6)) (\<lambda>parent.
        let d = length (vdirs v) in
        rbind (aget ''direntries'' (ds @ [d]) (unat (parent - 1))) (\<lambda>p.
        if p = d then Inl (Fault ''uninitialised directory'')
        else
          rbind (vfs_append_directory (v\<lparr>vdirs := vdirs v @ [new_dir (Some (map tolower dirname)) (Some p) mi (of_nat k)]\<rparr>) p d)
            (\<lambda>v. Inr (d, v)))))))"

definition pt_step :: "string \<Rightarrow> nat \<Rightarrow> nat res" where
  "pt_step pt loc =
     rbind (buf8 pt loc) (\<lambda>len. Inr (loc + unat len + 8 + (if len mod 2 \<noteq> 0 then 1 else 0)))"

text \<open>
  The loop over the path table, which ends because every entry moves on by at least eight bytes
  and reading behind the table faults.
\<close>

function pt_loop :: "vfs \<Rightarrow> nat \<Rightarrow> nat \<Rightarrow> nat list \<Rightarrow> nat list \<Rightarrow> string \<Rightarrow> u32 \<Rightarrow> nat \<Rightarrow> (nat list \<times> nat list \<times> vfs) res" where
  "pt_loop v mi root es ds pt sz loc =
     (case pt_entry_dir v mi root ds pt loc of Inl e \<Rightarrow> Inl e
      | Inr (d, v) \<Rightarrow>
          case pt_step pt loc of Inl e \<Rightarrow> Inl e
          | Inr loc' \<Rightarrow>
              if loc' \<ge> unat (sz - 2) then Inr (es @ [loc], ds @ [d], v)
              else pt_loop v mi root (es @ [loc]) (ds @ [d]) pt sz loc')"
  by pat_completeness auto
termination
  by (relation "measure (\<lambda>(v, mi, root, es, ds, pt, sz, loc). length pt - loc)")
    (auto simp: pt_step_def rbind_eq_Inr buf8_def aget_Inr)

declare pt_loop.simps [simp del]

definition ISO_DRIVER :: nat where "ISO_DRIVER = 1"

definition is_pvd :: "string \<Rightarrow> bool res" where
  "is_pvd pvd =
     rbind (buf8 pvd 0) (\<lambda>t.
     if t \<noteq> 1 then Inr False
     else rbind (copy_id pvd 1 5) (\<lambda>identifier. Inr (identifier = ''CD001'')))"

text \<open>The four bytes of \<open>fentries_loc\<close> in a fresh heap block: nobody sets them.\<close>

definition fresh_loc :: "vfs \<Rightarrow> u32" where
  "fresh_loc v = (\<Sum>i<4. of_nat (of_char (junk v i) * 256 ^ i))"

definition iso9660_attempt_mount :: "nat \<Rightarrow> vfs \<Rightarrow> nat \<Rightarrow> bool \<Rightarrow> (int \<times> vfs) res" where
  "iso9660_attempt_mount fuel v bd rw =
     (if rw then Inr (3, v)
      else
        rbind (bdev_at v bd) (\<lambda>b.
        rbind (vfs_read_blocks (fresh_block v (unat (bd_blocksize b))) 0 b 1 16) (\<lambda>(n, pvd).
        if n = 0 then Inr (1, v)
        else
          rbind (is_pvd pvd) (\<lambda>valid.
          if \<not> valid then Inr (2, v)
          else
            let mi = length (vmounts v); root = length (vdirs v) in
            rbind (upd_bdev (v\<lparr>vmounts := vmounts v @ [\<lparr>mp_name = [], mp_bd = bd, mp_fs = ISO_DRIVER, mp_root = root,
                mp_extra = NoExtra, mp_rw = False\<rparr>]\<rparr>) bd (\<lambda>b. b\<lparr>bd_mountpoint := Some mi\<rparr>)) (\<lambda>v.
            rbind (buf32 pvd 132) (\<lambda>ptsize.
            rbind (buf32 pvd 140) (\<lambda>ptloc.
            rbind (read_extent v b ptsize ptloc) (\<lambda>r.
            case r of None \<Rightarrow> Inr (1, v)
            | Some pt \<Rightarrow>
                rbind (pt_loop (v\<lparr>vdirs := vdirs v @ [new_dir None None mi 0]\<rparr>) mi root [] [] pt ptsize 0) (\<lambda>(es, ds, v).
                rbind (upd_mount v mi (\<lambda>m. m\<lparr>mp_extra := IsoExtra \<lparr>iso_pvd = pvd, iso_pathtable = pt, ptentries = es,
                  direntries = ds, iso_fentries = Map.empty, iso_fentries_size = 32, iso_fentries_loc = fresh_loc v\<rparr>\<rparr>)) (\<lambda>v.
                rbind (append_all fuel v bd ds) (\<lambda>v. Inr (0, v))))))))))))"

definition iso9660_isvalid :: "vfs \<Rightarrow> nat \<Rightarrow> bool res" where
  "iso9660_isvalid v bd =
     rbind (bdev_at v bd) (\<lambda>b.
     rbind (vfs_read_blocks (fresh_block v (unat (bd_blocksize b))) 0 b 1 16) (\<lambda>(n, pvd).
     if n = 0 then Inr False else is_pvd pvd))"

subsection \<open>Reading files\<close>

definition iso9660_accessfile ::
  "vfs \<Rightarrow> nat \<Rightarrow> bool \<Rightarrow> vfile \<Rightarrow> string \<Rightarrow> u32 \<Rightarrow> u32 \<Rightarrow> (int \<times> string) res" where
  "iso9660_accessfile v bd write f buffer len loc =
     (if write then Inr (-1, [])
      else
        rbind (bdev_at v bd) (\<lambda>b.
        rbind (deref ''mountpoint'' (bd_mountpoint b)) (\<lambda>mi.
        rbind (mount_at v mi) (\<lambda>m.
        rbind (iso_info_of m) (\<lambda>fi.
        let bytes = (if len \<ge> f_size f - loc then f_size f - loc else len) in
        if bytes = 0 then Inr (0, [])
        else if sint bytes < 0 then Inr (-1, [])
        else
          rbind (div_by bytes (bd_blocksize b)) (\<lambda>q.
          let sectors = (if bytes mod bd_blocksize b = 0 then q else q + 1) in
          rbind (deref ''fentries'' (iso_fentries fi (unat (f_id f)))) (\<lambda>e.
          rbind (de_file_loc e) (\<lambda>start.
          rbind (vfs_read_blocks (fresh_block v (unat (sectors * bd_blocksize b))) 0 b sectors (start + loc div bd_blocksize b))
            (\<lambda>(r, tempbuf).
          if r = 0 then Inr (-1, [])
          else
            rbind (get_slice tempbuf (unat (loc mod bd_blocksize b)) (unat bytes)) (\<lambda>data.
            Inr (sint bytes, data)))))))))))"

definition iso9660_createfile :: "vfs \<Rightarrow> nat \<Rightarrow> string \<Rightarrow> (nat option \<times> vfs) res" where
  "iso9660_createfile v mp path = Inr (None, v)"

definition iso9660_createdirectory :: "vfs \<Rightarrow> nat \<Rightarrow> string \<Rightarrow> (nat option \<times> vfs) res" where
  "iso9660_createdirectory v mp path = Inr (None, v)"

definition iso9660_vfsdrvinfo :: "nat \<Rightarrow> fs_driver" where
  "iso9660_vfsdrvinfo fuel = \<lparr>fs_mount = iso9660_attempt_mount fuel, fs_accessfile = iso9660_accessfile,
     fs_isvalid = iso9660_isvalid, fs_createfile = Some iso9660_createfile,
     fs_createdirectory = Some iso9660_createdirectory\<rparr>"

definition iso9660_init :: "vfs \<Rightarrow> vfs" where
  "iso9660_init v = snd (vfs_register_fsdriver v ISO_DRIVER)"

end
