(* ===== verification/IsoSpec.thy ===== *)
theory IsoSpec
  imports Iso9660
begin

section \<open>Reading an ISO 9660 volume\<close>

text \<open>
  A file of an ISO 9660 volume is one run of blocks. Here \<open>iso9660_accessfile\<close> is judged
  against the bytes of that run on any device with the contract \<open>block_reader\<close>, and the parser
  of the path table against an encoder of path tables.
\<close>

subsection \<open>Files\<close>

text \<open>The bytes of the blocks that a file of \<open>len\<close> bytes takes from block \<open>start\<close> on.\<close>

definition extent :: "(nat \<Rightarrow> string) \<Rightarrow> nat \<Rightarrow> nat \<Rightarrow> nat \<Rightarrow> string" where
  "extent sector z start len = concat (map sector [start..<start + pages_up len z])"

lemma drop_behind: "length xs = n \<Longrightarrow> drop n (xs @ ys) = ys"
  by simp

lemma pages_up_le: "0 < z \<Longrightarrow> (q + k) * z < n + z \<Longrightarrow> q + k \<le> pages_up n z"
proof -
  assume z: "0 < z" and l: "(q + k) * z < n + z"
  have "n + z \<le> (pages_up n z + 1) * z" using pages_up_bounds [OF z, of n] by simp
  with l have "(q + k) * z < (pages_up n z + 1) * z" by linarith
  then show ?thesis by (simp only: mult_less_cancel2) simp
qed

text \<open>The division and the correction of \<open>iso9660_accessfile\<close> round up.\<close>

lemma round_sectors:
  assumes "0 < z" "z < 2 ^ 32" "0 < n" "n < 2 ^ 32"
  shows "(if (of_nat n :: u32) mod of_nat z = 0 then of_nat n div of_nat z else of_nat n div of_nat z + 1)
    = (of_nat (pages_up n z) :: u32)"
proof -
  have u: "unat (of_nat n :: u32) = n" "unat (of_nat z :: u32) = z" using assms by (simp_all add: unat_small)
  have d: "(of_nat n :: u32) div of_nat z = of_nat (n div z)"
    by (rule word_of_unat) (simp only: unat_div u)
  have d': "(of_nat n :: u32) mod of_nat z = of_nat (n mod z)"
    by (rule word_of_unat) (simp only: unat_mod u)
  have "unat (of_nat (n mod z) :: u32) = n mod z"
    using assms less_trans [OF mod_less_divisor [OF assms(1)] assms(2)] by (intro unat_small) simp
  then have m: "(of_nat (n mod z) :: u32) = 0 \<longleftrightarrow> n mod z = 0" by (simp only: unat_eq_0 [symmetric])
  have "pages_up n z = (if n mod z = 0 then n div z else n div z + 1)"
  proof (cases "n mod z = 0")
    case True
    then obtain k where k: "n = k * z" by (metis mod_0_imp_dvd dvd_def mult.commute)
    have "(k * z + z - 1) div z = k"
      using assms(1) by (intro div_nat_eqI) (simp_all add: algebra_simps)
    then show ?thesis using k assms(1) by (simp add: pages_up_def)
  next
    case False
    obtain q r where qr: "q = n div z" "r = n mod z" by simp
    then have nq: "n = z * q + r" "r < z" "0 < r" using assms(1) False by simp_all
    have "(z * q + r + z - 1) div z = q + 1"
      using nq(2,3) by (intro div_nat_eqI) (simp_all add: distrib_left)
    then have "(n + z - 1) div z = q + 1" by (simp only: nq(1) [symmetric])
    then show ?thesis using False by (simp add: pages_up_def qr)
  qed
  then show ?thesis unfolding d d' m by simp
qed

context block_reader
begin

theorem iso_accessfile_spec:
  assumes b: "bdev_at v bd = Inr b" "bd_mountpoint b = Some mi" "mount_at v mi = Inr m" "mp_extra m = IsoExtra fi"
    and e: "iso_fentries fi (unat (f_id f)) = Some e" "de_file_loc e = Inr start"
    and z: "z = unat (bd_blocksize b)" and ext: "unat start + pages_up (unat (f_size f)) z \<le> nblocks"
    and sz: "unat loc < unat (f_size f)"
    and n: "n = min (unat len) (unat (f_size f) - unat loc)" "0 < n" "n < 2 ^ 31" "n + z < 2 ^ 32"
  shows "iso9660_accessfile v bd False f buffer len loc =
    (if unat loc mod z + n \<le> pages_up n z * z
     then Inr (int n, take n (drop (unat loc) (extent sector z (unat start) (unat (f_size f)))))
     else Inl (Fault ''buffer''))"
proof -
  let ?l = "unat loc" and ?q = "unat loc div z" and ?r = "unat loc mod z" and ?k = "pages_up n z" and ?s = "unat start"
  have z0: "0 < z" "z < 2 ^ 32" using z blocksize n(4) by (simp_all add: word_neq_0_conv unat_gt_0)
  have bz: "bd_blocksize b = of_nat z" by (simp add: z)
  have sub: "unat (f_size f - loc) = unat (f_size f) - ?l"
    using sz by (intro unat_sub) (simp add: word_le_nat_alt)
  have bytes: "(if len \<ge> f_size f - loc then f_size f - loc else len) = of_nat n"
  proof -
    have "f_size f - loc = of_nat (unat (f_size f) - ?l)" using sub by (rule word_of_unat)
    moreover have "len = of_nat (unat len)" by simp
    ultimately show ?thesis using sub n(1) by (auto simp: word_le_nat_alt min_def)
  qed
  have nn: "unat (of_nat n :: u32) = n" using n(3) by (intro unat_small) simp
  have n0: "(of_nat n :: u32) \<noteq> 0" using nn n(2) by (metis unat_0 less_irrefl)
  have sn: "sint (of_nat n :: u32) = int n"
    using n(3) by (simp add: signed_of_nat signed_take_bit_int_eq_self)
  note ru = round_up_word [OF z0(1) n(4)]
  note secs = round_sectors [OF z0 n(2)]
  have kb: "n \<le> ?k * z" "?k * z < n + z" using pages_up_bounds [OF z0(1), of n] by auto
  have q: "?q * z + ?r = ?l" by (rule div_mult_mod_eq)
  have "?l + n \<le> unat (f_size f)" using n(1) sz by linarith
  then have "?q * z + ?k * z < unat (f_size f) + z" using kb(2) q by linarith
  then have "(?q + ?k) * z < unat (f_size f) + z" by (simp only: distrib_right)
  then have qk: "?q + ?k \<le> pages_up (unat (f_size f)) z" by (rule pages_up_le [OF z0(1)])
  have div: "unat (loc div of_nat z) = ?q" "unat (loc mod of_nat z) = ?r"
    using z0 by (simp_all add: unat_div unat_mod unat_small)
  have lba: "of_nat (?s + ?q) = start + loc div bd_blocksize b"
    by (simp only: div(1) [symmetric] of_nat_add bz) simp
  have ks: "unat (of_nat ?k * bd_blocksize b) = ?k * z" unfolding bz using ru(4) by simp
  have sk: "(if (of_nat n :: u32) mod bd_blocksize b = 0 then of_nat n div bd_blocksize b else of_nat n div bd_blocksize b + 1)
      = of_nat ?k" unfolding bz by (rule secs) (use n(3) in simp)
  have db: "div_by (of_nat n) (bd_blocksize b) = Inr (of_nat n div bd_blocksize b)"
    using blocksize by (simp add: div_by_def)
  have fl: "length (fresh_block v (?k * z)) = ?k * z" by (simp add: fresh_block_def)
  have rd: "read_blocks_loop b (fresh_block v (?k * z)) 0 (of_nat (?s + ?q)) 0 [0..<?k] =
      Inr (of_nat ?k * bd_blocksize b, concat (map sector [?s + ?q..<?s + ?q + ?k]))"
    using read_blocks [of "?s + ?q" ?k 0 "fresh_block v (?k * z)"] ext qk kb(2) n(4) z fl by simp
  let ?temp = "concat (map sector [?s + ?q..<?s + ?q + ?k])"
  have kz: "of_nat ?k * bd_blocksize b \<noteq> 0"
  proof -
    have "?k * z \<noteq> 0" using kb(1) n(2) by linarith
    then have "unat (of_nat (?k * z) :: u32) \<noteq> 0" by (simp only: ru(4) not_False_eq_True)
    then show ?thesis by (simp only: bz of_nat_mult [symmetric] unat_eq_0) simp
  qed
  have tl: "length ?temp = ?k * z" using sectors_length [of "?s + ?q" ?k] ext qk z by simp
  have sl: "length (concat (map sector [?s..<?s + ?q])) = ?q * z" using sectors_length [of ?s ?q] ext qk z by simp
  obtain d where d: "pages_up (unat (f_size f)) z = ?q + ?k + d" using qk by (metis le_Suc_ex)
  have "[?s..<?s + (?q + ?k + d)] = [?s..<?s + ?q] @ [?s + ?q..<?s + ?q + ?k] @ [?s + ?q + ?k..<?s + (?q + ?k + d)]"
    using upt_add_eq_append [of ?s "?s + ?q" "?k + d"] upt_add_eq_append [of "?s + ?q" "?s + ?q + ?k" d]
    by (simp add: add.assoc)
  then have ex: "extent sector z ?s (unat (f_size f)) =
      concat (map sector [?s..<?s + ?q]) @ ?temp @ concat (map sector [?s + ?q + ?k..<?s + (?q + ?k + d)])"
    unfolding extent_def d by (simp only: map_append concat_append)
  have "drop ?l (extent sector z ?s (unat (f_size f))) = drop ?r (drop (?q * z) (extent sector z ?s (unat (f_size f))))"
    by (simp only: drop_drop add.commute [of ?r] q)
  then have split: "drop ?l (extent sector z ?s (unat (f_size f))) =
      drop ?r (?temp @ concat (map sector [?s + ?q + ?k..<?s + (?q + ?k + d)]))"
    unfolding ex by (simp only: drop_behind [OF sl])
  have slice: "get_slice ?temp ?r n = (if ?r + n \<le> ?k * z
      then Inr (take n (drop ?l (extent sector z ?s (unat (f_size f))))) else Inl (Fault ''buffer''))"
    unfolding split get_slice_def tl using tl by simp
  have "iso9660_accessfile v bd False f buffer len loc = rbind (get_slice ?temp ?r n) (\<lambda>data. Inr (int n, data))"
    unfolding iso9660_accessfile_def Let_def bytes
    using b e sk db div(2) [folded bz] rd [unfolded lba] ru(3) nn n0 sn kz ks
    by (simp add: iso_info_of_def vfs_read_blocks_def del: of_nat_eq_0_iff)
  then show ?thesis by (simp add: slice)
qed

end

subsection \<open>The path table\<close>

text \<open>
  A path table lists the directories, the root first and each after its parent; an entry is the
  name and the number of the parent, counted from one. The five bytes \<open>x\<close> of an entry are the
  fields that the driver does not read (attribute length and block number).
\<close>

type_synonym pentry = "string \<times> nat"

definition pt_encode_entry :: "(pentry \<Rightarrow> string) \<Rightarrow> pentry \<Rightarrow> string" where
  "pt_encode_entry x e = char_of (length (fst e)) # x e @ [char_of (snd e mod 256), char_of (snd e div 256)] @ fst e @
     (if odd (length (fst e)) then [NUL] else [])"

definition pt_encode :: "(pentry \<Rightarrow> string) \<Rightarrow> pentry list \<Rightarrow> string" where
  "pt_encode x es = concat (map (pt_encode_entry x) es)"

definition pt_entry_ok :: "nat \<Rightarrow> pentry \<Rightarrow> bool" where
  "pt_entry_ok k e \<longleftrightarrow> fst e \<noteq> [] \<and> NUL \<notin> set (fst e) \<and> length (fst e) < 256 \<and> 1 \<le> snd e \<and> snd e \<le> k \<and> snd e < 65536"

definition pt_ok :: "pentry list \<Rightarrow> bool" where
  "pt_ok es \<longleftrightarrow> es \<noteq> [] \<and> es ! 0 = ([NUL], 1) \<and> (\<forall>k\<in>{1..<length es}. pt_entry_ok k (es ! k))"

lemma copy_id_string:
  "NUL \<notin> set s \<Longrightarrow> copy_id (pre @ s @ post) (length pre) (length s) = Inr s"
proof (induction s arbitrary: pre)
  case (Cons c s)
  from Cons.prems have "copy_id ((pre @ [c]) @ s @ post) (length (pre @ [c])) (length s) = Inr s"
    by (intro Cons.IH) simp
  then show ?case using Cons.prems by (auto simp: aget_def nth_append)
qed simp

lemma char_byte: "n < 256 \<Longrightarrow> of_char (char_of n) = (n :: nat)"
  by (simp add: of_char_of)

lemma buf8_at: "buf8 (pre @ c # post) (length pre) = Inr (of_nat (of_char c))"
  by (simp add: buf8_def aget_def nth_append)

lemma buf16_at:
  assumes "p < 65536"
  shows "buf16 (pre @ char_of (p mod 256) # char_of (p div 256) # post) (length pre) = Inr (of_nat p)"
proof -
  have b: "p div 256 < 256" using assms by simp
  have "of_nat p = (of_nat (p mod 256 + 256 * (p div 256)) :: u32)" by (simp only: mod_mult_div_eq)
  then have "of_nat p = (of_nat (p mod 256) + 256 * of_nat (p div 256) :: u32)"
    by (simp only: of_nat_add of_nat_mult of_nat_numeral)
  moreover have "buf8 (pre @ char_of (p mod 256) # char_of (p div 256) # post) (length pre) = Inr (of_nat (p mod 256))"
    by (simp only: buf8_at char_byte mod_less_divisor zero_less_numeral)
  moreover have "buf8 (pre @ char_of (p mod 256) # char_of (p div 256) # post) (length pre + 1) = Inr (of_nat (p div 256))"
    using buf8_at [of "pre @ [char_of (p mod 256)]" "char_of (p div 256)" post] char_byte [OF b] by simp
  ultimately show ?thesis by (simp only: buf16_def rbind_Inr)
qed

text \<open>What the parser reads of an entry that starts behind \<open>pre\<close>.\<close>

lemma entry_fields:
  fixes pre post :: string
  assumes x: "length (x e) = 5" and e: "snd e < 65536" "length (fst e) < 256"
  defines "pt \<equiv> pre @ pt_encode_entry x e @ post"
  shows "buf8 pt (length pre) = Inr (of_nat (length (fst e)))"
    "buf16 pt (length pre + 6) = Inr (of_nat (snd e))"
    "NUL \<notin> set (fst e) \<Longrightarrow> copy_id pt (length pre + 8) (length (fst e)) = Inr (fst e)"
    "pt_step pt (length pre) = Inr (length (pre @ pt_encode_entry x e))"
proof -
  have l: "unat (of_nat (length (fst e)) :: u32) = length (fst e)" using e(2) by (intro unat_small) simp
  show b: "buf8 pt (length pre) = Inr (of_nat (length (fst e)))"
    unfolding pt_def pt_encode_entry_def using buf8_at [of pre "char_of (length (fst e))"] e(2)
    by (simp add: char_byte)
  show "buf16 pt (length pre + 6) = Inr (of_nat (snd e))"
    using buf16_at [OF e(1), of "pre @ char_of (length (fst e)) # x e"] x
    by (simp add: pt_def pt_encode_entry_def)
  show "copy_id pt (length pre + 8) (length (fst e)) = Inr (fst e)" if "NUL \<notin> set (fst e)"
    using copy_id_string [OF that, of "pre @ char_of (length (fst e)) # x e @ [char_of (snd e mod 256), char_of (snd e div 256)]"] x
    by (simp add: pt_def pt_encode_entry_def)
  have "(of_nat (length (fst e)) mod 2 \<noteq> (0 :: u32)) = odd (length (fst e))"
  proof -
    have "unat (of_nat (length (fst e)) mod 2 :: u32) = length (fst e) mod 2" by (simp add: unat_mod l)
    then show ?thesis by (metis odd_iff_mod_2_eq_one even_iff_mod_2_eq_zero unat_eq_0)
  qed
  then show "pt_step pt (length pre) = Inr (length (pre @ pt_encode_entry x e))"
    using b l x by (simp add: pt_step_def pt_encode_entry_def)
qed

text \<open>
  The tree of the entries read so far: entry \<open>0\<close> is the root's directory, entry \<open>k\<close> the one at
  \<open>base + k - 1\<close>.
\<close>

definition pt_index :: "nat \<Rightarrow> nat \<Rightarrow> nat \<Rightarrow> nat" where
  "pt_index root base k = (if k = 0 then root else base + (k - 1))"

definition pt_children :: "pentry list \<Rightarrow> nat \<Rightarrow> nat list" where
  "pt_children es k = filter (\<lambda>j. snd (es ! j) = k + 1) [1..<length es]"

definition pt_node :: "pentry list \<Rightarrow> nat \<Rightarrow> nat \<Rightarrow> nat \<Rightarrow> nat \<Rightarrow> vdir \<Rightarrow> bool" where
  "pt_node es mi root base k d \<longleftrightarrow>
     d_name d = Some (if k = 0 then [] else map tolower (fst (es ! k))) \<and>
     d_parent d = (if k = 0 then None else Some (pt_index root base (snd (es ! k) - 1))) \<and>
     d_dirs d = map (pt_index root base) (pt_children es k) \<and>
     d_files d = [] \<and> d_volume d = mi \<and> d_id d = of_nat k"

definition pt_tree :: "vdir list \<Rightarrow> pentry list \<Rightarrow> nat \<Rightarrow> nat \<Rightarrow> nat \<Rightarrow> bool" where
  "pt_tree D es mi root base \<longleftrightarrow> length D = base + (length es - 1) \<and>
     (\<forall>k<length es. pt_node es mi root base k (D ! pt_index root base k))"

lemma pt_index_inj: "root < base \<Longrightarrow> pt_index root base j = pt_index root base k \<longleftrightarrow> j = k"
  by (auto simp: pt_index_def)

lemma pt_index_less: "root < base \<Longrightarrow> k < n \<Longrightarrow> pt_index root base k < base + (n - 1)"
  by (auto simp: pt_index_def)

lemma pt_children_snoc:
  "es \<noteq> [] \<Longrightarrow> pt_children (es @ [e]) k = pt_children es k @ (if snd e = k + 1 then [length es] else [])"
  by (auto simp: pt_children_def nth_append Suc_le_eq intro: filter_cong)

lemma pt_ok_snoc: "es \<noteq> [] \<Longrightarrow> pt_ok (es @ [e]) \<longleftrightarrow> pt_ok es \<and> pt_entry_ok (length es) e"
proof -
  assume ne: "es \<noteq> []"
  then have "{1..<length (es @ [e])} = insert (length es) {1..<length es}" by (cases es) auto
  then show ?thesis using ne by (auto simp: pt_ok_def nth_append)
qed

lemma pt_children_last: "pt_ok es \<Longrightarrow> length es \<le> k \<Longrightarrow> pt_children es k = []"
  by (force simp: pt_ok_def pt_entry_ok_def pt_children_def filter_empty_conv)

lemma pt_node_snoc:
  assumes "es \<noteq> []" "k < length es" "pt_node es mi root base k d"
    "d' = (if snd e = k + 1 then d\<lparr>d_dirs := d_dirs d @ [pt_index root base (length es)], d_dirs_size := s\<rparr> else d)"
  shows "pt_node (es @ [e]) mi root base k d'"
  using assms by (simp add: pt_node_def nth_append pt_children_snoc)

lemma pt_tree_step:
  assumes r: "root < base" and ne: "es \<noteq> []" and ok: "pt_ok (es @ [e])" and x: "\<forall>e. length (x e) = 5"
    and t: "pt_tree D es mi root base"
  shows "\<exists>D'. pt_entry_dir (v\<lparr>vdirs := D\<rparr>) mi root (map (pt_index root base) [0..<length es])
      (pre @ pt_encode_entry x e @ post) (length pre) = Inr (pt_index root base (length es), v\<lparr>vdirs := D'\<rparr>) \<and>
    pt_tree D' (es @ [e]) mi root base"
proof -
  let ?ds = "map (pt_index root base) [0..<length es]" and ?n = "length es" and ?ix = "pt_index root base"
  have e: "fst e \<noteq> []" "NUL \<notin> set (fst e)" "length (fst e) < 256" "1 \<le> snd e" "snd e \<le> ?n" "snd e < 65536" and oke: "pt_ok es"
    using ok ne by (simp_all add: pt_ok_snoc pt_entry_ok_def)
  note f = entry_fields [where pre = pre and post = post, OF x [rule_format] e(6) e(3)]
  have l: "unat (of_nat (length (fst e)) :: u32) = length (fst e)" using e(3) by (intro unat_small) simp
  have len: "length D = ?ix ?n" using t ne by (simp add: pt_tree_def pt_index_def)
  have "(of_nat (snd e) - 1 :: u32) = of_nat (snd e - 1)" using e(4) by (simp add: of_nat_diff)
  moreover have "unat (of_nat (snd e - 1) :: u32) = snd e - 1" using e(6) by (intro unat_small) simp
  ultimately have p: "unat (of_nat (snd e) - 1 :: u32) = snd e - 1" by simp
  have pl: "snd e - 1 < ?n" using e(4,5) by linarith
  have pd: "?ix (snd e - 1) < length D" using pt_index_less [OF r pl] t by (simp add: pt_tree_def)
  have ag: "aget ''direntries'' (?ds @ [length D]) (snd e - 1) = Inr (?ix (snd e - 1))"
    using pl by (simp add: aget_def nth_append)
  let ?nd = "new_dir (Some (map tolower (fst e))) (Some (?ix (snd e - 1))) mi (of_nat ?n)"
  let ?pd = "D ! ?ix (snd e - 1)"
  let ?D = "D[?ix (snd e - 1) := ?pd\<lparr>d_dirs := d_dirs ?pd @ [?ix ?n],
      d_dirs_size := (if d_dirs_size ?pd \<le> length (d_dirs ?pd) then d_dirs_size ?pd + 32 else d_dirs_size ?pd)\<rparr>] @ [?nd]"
  have run: "pt_entry_dir (v\<lparr>vdirs := D\<rparr>) mi root ?ds (pre @ pt_encode_entry x e @ post) (length pre) = Inr (?ix ?n, v\<lparr>vdirs := ?D\<rparr>)"
    using f(1,2) f(3) [OF e(2)] e(1) ag pd len
    by (simp add: pt_entry_dir_def l p Let_def vfs_append_directory_def upd_dir_def dir_at_def nth_append list_update_append)
  have node: "pt_node (es @ [e]) mi root base k (?D ! ?ix k)" if "k < Suc ?n" for k
  proof (cases "k = ?n")
    case True
    have "?D ! ?ix ?n = ?nd" by (simp add: nth_append len)
    then show ?thesis using True ne e(5) pt_children_last [OF oke, of ?n]
      by (simp add: pt_node_def new_dir_def pt_children_snoc)
  next
    case False
    with that have k: "k < ?n" by simp
    then have kd: "?ix k < length D" using pt_index_less [OF r k] t by (simp add: pt_tree_def)
    have "pt_node es mi root base k (D ! ?ix k)" using t k by (simp add: pt_tree_def)
    then show ?thesis
      by (rule pt_node_snoc [OF ne k, where s = "if d_dirs_size ?pd \<le> length (d_dirs ?pd) then d_dirs_size ?pd + 32 else d_dirs_size ?pd"])
        (use kd e(4) in \<open>auto simp: nth_append nth_list_update pt_index_inj [OF r]\<close>)
  qed
  have "pt_tree ?D (es @ [e]) mi root base"
    using node t ne by (auto simp: pt_tree_def)
  with run show ?thesis by blast
qed

definition pt_offsets :: "(pentry \<Rightarrow> string) \<Rightarrow> pentry list \<Rightarrow> nat list" where
  "pt_offsets x es = map (\<lambda>k. length (pt_encode x (take k es))) [0..<length es]"

lemma pt_offsets_snoc: "pt_offsets x (es @ [e]) = pt_offsets x es @ [length (pt_encode x es)]"
  by (simp add: pt_offsets_def)

lemma pt_encode_append: "pt_encode x (es @ fs) = pt_encode x es @ pt_encode x fs"
  by (simp add: pt_encode_def)

lemma pt_encode_Cons: "pt_encode x (e # es) = pt_encode_entry x e @ pt_encode x es"
  by (simp add: pt_encode_def)

lemma entry_length: "length (x e) = 5 \<Longrightarrow> fst e \<noteq> [] \<Longrightarrow> 10 \<le> length (pt_encode_entry x e)"
  by (cases "fst e"; cases "tl (fst e)") (auto simp: pt_encode_entry_def)

lemma pt_entry_nonempty:
  assumes "pt_ok es" "e \<in> set es"
  shows "fst e \<noteq> []"
proof -
  obtain k where k: "k < length es" "es ! k = e" using assms(2) by (auto simp: in_set_conv_nth)
  then have "pt_entry_ok k e" if "k \<noteq> 0" using assms(1) that by (auto simp: pt_ok_def)
  then show ?thesis using assms(1) k by (cases "k = 0") (auto simp: pt_ok_def pt_entry_ok_def)
qed

lemma pt_ok_prefix:
  assumes "pt_ok (es @ fs)" "es \<noteq> []"
  shows "pt_ok es"
proof -
  have "pt_entry_ok k ((es @ fs) ! k)" if "k \<in> {1..<length es}" for k
    using assms(1) that unfolding pt_ok_def by auto
  then show ?thesis using assms by (auto simp: pt_ok_def nth_append)
qed

text \<open>The loop goes on exactly when there is another entry.\<close>

lemma more_entries:
  assumes "\<forall>e. length (x e) = 5" "length (pt_encode x (es @ fs)) < 2 ^ 32" "\<forall>e\<in>set (es @ fs). fst e \<noteq> []" "es \<noteq> []"
  shows "length (pt_encode x es) \<ge> unat (of_nat (length (pt_encode x (es @ fs))) - 2 :: u32) \<longleftrightarrow> fs = []"
proof -
  have ge: "10 \<le> length (pt_encode x gs)" if "gs \<noteq> []" "set gs \<subseteq> set (es @ fs)" for gs
    using that spec [OF assms(1), of "hd gs"] assms(3) entry_length [of x "hd gs"] by (cases gs) (auto simp: pt_encode_Cons)
  let ?t = "length (pt_encode x (es @ fs))"
  have t: "10 \<le> ?t" using ge [of es] assms(4) by (simp add: pt_encode_append)
  then have "(of_nat ?t - 2 :: u32) = of_nat (?t - 2)" by (simp add: of_nat_diff)
  moreover have "unat (of_nat (?t - 2) :: u32) = ?t - 2" using assms(2) by (intro unat_small) simp
  ultimately have "unat (of_nat ?t - 2 :: u32) = ?t - 2" by simp
  then show ?thesis using ge [of fs] t by (cases "fs = []") (auto simp: pt_encode_append pt_encode_def)
qed

lemma pt_loop_rest:
  assumes "root < base" "\<forall>e. length (x e) = 5" "pt_ok (es @ fs)" "length (pt_encode x (es @ fs)) < 2 ^ 32" "es \<noteq> []" "fs \<noteq> []"
    "pt_tree D es mi root base"
  shows "\<exists>D'. pt_loop (v\<lparr>vdirs := D\<rparr>) mi root (pt_offsets x es) (map (pt_index root base) [0..<length es])
      (pt_encode x (es @ fs) @ tail) (of_nat (length (pt_encode x (es @ fs)))) (length (pt_encode x es)) =
      Inr (pt_offsets x (es @ fs), map (pt_index root base) [0..<length (es @ fs)], v\<lparr>vdirs := D'\<rparr>) \<and>
    pt_tree D' (es @ fs) mi root base"
  using assms(3-)
proof (induction fs arbitrary: es D)
  case (Cons e fs)
  let ?pt = "pt_encode x (es @ e # fs) @ tail" and ?sz = "of_nat (length (pt_encode x (es @ e # fs))) :: u32"
  have oke: "pt_ok (es @ [e])"
    using pt_ok_prefix [of "es @ [e]" fs] Cons.prems(1) by simp
  have en: "snd e < 65536" "length (fst e) < 256"
    using oke Cons.prems(3) by (simp_all add: pt_ok_snoc pt_entry_ok_def)
  have pt: "?pt = pt_encode x es @ pt_encode_entry x e @ (pt_encode x fs @ tail)"
    by (simp add: pt_encode_append pt_encode_Cons)
  obtain D' where step: "pt_entry_dir (v\<lparr>vdirs := D\<rparr>) mi root (map (pt_index root base) [0..<length es]) ?pt (length (pt_encode x es)) =
      Inr (pt_index root base (length es), v\<lparr>vdirs := D'\<rparr>)" "pt_tree D' (es @ [e]) mi root base"
    using pt_tree_step [OF assms(1) Cons.prems(3) oke assms(2) Cons.prems(5)] unfolding pt by blast
  have st: "pt_step ?pt (length (pt_encode x es)) = Inr (length (pt_encode x (es @ [e])))"
    unfolding pt using entry_fields(4) [OF assms(2) [rule_format] en] by (simp add: pt_encode_append pt_encode_Cons pt_encode_def)
  have more: "length (pt_encode x (es @ [e])) \<ge> unat (?sz - 2) \<longleftrightarrow> fs = []"
    using more_entries [OF assms(2), of "es @ [e]" fs] Cons.prems(1,2) pt_entry_nonempty by simp
  note loop = pt_loop.simps [of "v\<lparr>vdirs := D\<rparr>" mi root "pt_offsets x es" "map (pt_index root base) [0..<length es]" ?pt ?sz]
  have ds: "map (pt_index root base) [0..<length es] @ [pt_index root base (length es)] = map (pt_index root base) [0..<length (es @ [e])]"
    by simp
  show ?case
  proof (cases "fs = []")
    case True
    then show ?thesis using step st more ds by (intro exI [of _ D'], subst loop) (simp add: pt_offsets_snoc del: upt_Suc)
  next
    case False
    have "pt_ok ((es @ [e]) @ fs)" "length (pt_encode x ((es @ [e]) @ fs)) < 2 ^ 32" using Cons.prems(1,2) by simp_all
    from Cons.IH [OF this _ False step(2)] show ?thesis
      using step(1) st more False ds by (subst loop) (simp add: pt_offsets_snoc del: upt_Suc)
  qed
qed simp

lemma pt_loop_all:
  assumes ok: "pt_ok es" and x: "\<forall>e. length (x e) = 5" and len: "length (pt_encode x es) < 2 ^ 32" and r: "root < length (vdirs v)"
  shows "\<exists>D. pt_loop v mi root [] [] (pt_encode x es @ tail) (of_nat (length (pt_encode x es))) 0 =
      Inr (pt_offsets x es, map (pt_index root (length (vdirs v))) [0..<length es], v\<lparr>vdirs := D\<rparr>) \<and>
    pt_tree D es mi root (length (vdirs v))"
proof -
  let ?r = "([NUL], 1) :: pentry" and ?base = "length (vdirs v)" and ?sz = "of_nat (length (pt_encode x es)) :: u32"
  obtain fs where es: "es = [?r] @ fs" using ok by (cases es) (auto simp: pt_ok_def)
  let ?pt = "pt_encode x es @ tail" and ?D = "(vdirs v)[root := new_dir (Some []) None mi 0]"
  have pt: "?pt = [] @ pt_encode_entry x ?r @ (pt_encode x fs @ tail)" by (simp add: es pt_encode_Cons)
  have "copy_id ?pt 8 1 = Inr []"
    using x by (simp add: pt pt_encode_entry_def aget_def nth_append)
  then have step: "pt_entry_dir v mi root [] ?pt 0 = Inr (root, v\<lparr>vdirs := ?D\<rparr>)"
    using entry_fields(1) [where e = ?r and pre = "[]" and post = "pt_encode x fs @ tail", OF x [rule_format]] r
    by (simp add: pt pt_entry_dir_def upd_dir_def dir_at_def)
  have st: "pt_step ?pt 0 = Inr (length (pt_encode x [?r]))"
    using entry_fields(4) [where e = ?r and pre = "[]" and post = "pt_encode x fs @ tail", OF x [rule_format]] unfolding pt by (simp add: pt_encode_def)
  have tree: "pt_tree ?D [?r] mi root ?base"
    using r by (simp add: pt_tree_def pt_node_def pt_index_def pt_children_def new_dir_def)
  have more: "length (pt_encode x [?r]) \<ge> unat (?sz - 2) \<longleftrightarrow> fs = []"
    using more_entries [OF x, of "[?r]" fs] ok len pt_entry_nonempty by (simp only: es) simp
  have off: "pt_offsets x [?r] = [0]" by (simp add: pt_offsets_def pt_encode_def)
  have ix: "map (pt_index root ?base) [0..<length [?r]] = [root]" by (simp add: pt_index_def)
  note loop = pt_loop.simps [of v mi root "[]" "[]" ?pt ?sz 0]
  show ?thesis
  proof (cases "fs = []")
    case True
    then show ?thesis using step st more tree off ix es by (intro exI [of _ ?D], subst loop) simp
  next
    case False
    obtain D where "pt_loop (v\<lparr>vdirs := ?D\<rparr>) mi root (pt_offsets x [?r]) (map (pt_index root ?base) [0..<length [?r]])
        ?pt ?sz (length (pt_encode x [?r])) =
        Inr (pt_offsets x es, map (pt_index root ?base) [0..<length es], v\<lparr>vdirs := D\<rparr>)" "pt_tree D es mi root ?base"
      using pt_loop_rest [OF r x ok [unfolded es] len [unfolded es] not_Cons_self2 [of ?r "[]"] False tree, folded es] by blast
    then show ?thesis
      using step st more False off ix by (intro exI [of _ D], subst loop) simp
  qed
qed

subsection \<open>Volumes on a RAM disk\<close>

text \<open>
  Reading a file of an ISO 9660 volume. The file is the run of blocks that its directory
  record names. A read of \<open>len\<close> bytes at \<open>loc\<close> inside the file is cut at the end of the file
  and returns exactly those bytes, provided they lie in as many blocks as their number alone
  needs; otherwise the copy runs over the end of the temporary buffer, which is sized without
  the offset.
\<close>

theorem iso_read_spec:
  assumes "bdev_at v bd = Inr (rdisk_dev disk nm mi)" "mount_at v mi = Inr m" "mp_extra m = IsoExtra fi"
    and "iso_fentries fi (unat (f_id f)) = Some e" "de_file_loc e = Inr start"
    and "unat start + pages_up (unat (f_size f)) 512 \<le> rdisk_blocks disk" "unat loc < unat (f_size f)"
    and "n = min (unat len) (unat (f_size f) - unat loc)" "0 < n" "n < 2 ^ 31"
  shows "iso9660_accessfile v bd False f buffer len loc =
    (if unat loc mod 512 + n \<le> pages_up n 512 * 512
     then Inr (int n, take n (drop (unat loc) (extent (rdisk_sector disk) 512 (unat start) (unat (f_size f)))))
     else Inl (Fault ''buffer''))"
  by (rule rdisk.iso_accessfile_spec) (use assms in \<open>simp_all add: rdisk_dev_def\<close>)

definition demo_iso :: iso_info where
  "demo_iso = \<lparr>iso_pvd = [], iso_pathtable = [], ptentries = [], direntries = [],
     iso_fentries = [0 \<mapsto> replicate 2 NUL @ [char_of (1 :: nat)] @ replicate 30 NUL], iso_fentries_size = 32, iso_fentries_loc = 1\<rparr>"

definition demo_iso_vfs :: "string \<Rightarrow> vfs" where
  "demo_iso_vfs disk = (demo_fat_vfs disk)\<lparr>vmounts :=
     [\<lparr>mp_name = ''cd'', mp_bd = 0, mp_fs = ISO_DRIVER, mp_root = 0, mp_extra = IsoExtra demo_iso, mp_rw = False\<rparr>]\<rparr>"

lemma iso_read_spec_witness:
  "iso9660_accessfile (demo_iso_vfs (replicate 2048 NUL)) 0 False demo_fat_file [] 100 100 =
     Inr (100, take 100 (drop 100 (extent (rdisk_sector (replicate 2048 NUL)) 512 1 600))) \<and>
   iso9660_accessfile (demo_iso_vfs (replicate 2048 NUL)) 0 False demo_fat_file [] 100 500 = Inl (Fault ''buffer'')"
proof -
  let ?disk = "replicate 2048 NUL" and ?e = "replicate 2 NUL @ [char_of (1 :: nat)] @ replicate 30 NUL"
  let ?m = "\<lparr>mp_name = ''cd'', mp_bd = 0, mp_fs = ISO_DRIVER, mp_root = 0, mp_extra = IsoExtra demo_iso, mp_rw = False\<rparr>"
  have dev: "bdev_at (demo_iso_vfs ?disk) 0 = Inr (rdisk_dev ?disk ''rd0'' 0)" "mount_at (demo_iso_vfs ?disk) 0 = Inr ?m"
    by (simp_all add: bdev_at_def mount_at_def demo_iso_vfs_def demo_fat_vfs_def)
  have mx: "mp_extra ?m = IsoExtra demo_iso" by simp
  have f: "f_size demo_fat_file = 600" "f_id demo_fat_file = 0" by (simp_all add: demo_fat_file_def)
  have e: "iso_fentries demo_iso (unat (f_id demo_fat_file)) = Some ?e" "de_file_loc ?e = Inr 1"
    by (simp_all add: demo_iso_def f de_file_loc_def buf32_def buf16_def buf8_def nth_append nth_Cons')
  have fit: "unat (1 :: u32) + pages_up (unat (f_size demo_fat_file)) 512 \<le> rdisk_blocks ?disk"
    by (simp add: f pages_up_def rdisk_blocks_def)
  note spec = iso_read_spec [OF dev mx e fit, unfolded f]
  have w: "unat (100 :: u32) = 100" "unat (500 :: u32) = 500" "unat (600 :: u32) = 600" "unat (1 :: u32) = 1" by simp_all
  have pu: "pages_up 100 512 = 1" by (simp add: pages_up_def)
  show ?thesis
    using spec [where loc = 100 and len = 100 and n = 100] spec [where loc = 500 and len = 100 and n = 100]
    unfolding w pu by simp
qed

text \<open>
  C29: The path table. For the bytes of a well-formed table (the root first, each directory
  after its parent, names without NUL) whatever follows them in the last block, the loop
  returns the offset of every entry and one directory for each, in order; and the directories
  form the tree the table describes: names in lower case, the root without a parent, every
  other one with the directory its entry names, and each with its subdirectories in order.
\<close>

theorem iso_path_table:
  assumes "pt_ok es" "\<forall>e. length (x e) = 5" "length (pt_encode x es) < 2 ^ 32" "root < length (vdirs v)"
  shows "\<exists>D. pt_loop v mi root [] [] (pt_encode x es @ tail) (of_nat (length (pt_encode x es))) 0 =
      Inr (pt_offsets x es, map (pt_index root (length (vdirs v))) [0..<length es], v\<lparr>vdirs := D\<rparr>) \<and>
    pt_tree D es mi root (length (vdirs v))"
  using assms by (rule pt_loop_all)

lemma iso_path_table_witness:
  "\<exists>D. pt_loop ((demo_iso_vfs [])\<lparr>vdirs := [new_dir None None 0 0]\<rparr>) 0 0 [] []
      (pt_encode (\<lambda>_. replicate 5 NUL) [([NUL], 1), (''BOOT'', 1), (''GRUB'', 2)] @ []) 34 0 =
    Inr ([0, 10, 22], [0, 1, 2], (demo_iso_vfs [])\<lparr>vdirs := D\<rparr>) \<and> map d_name D = [Some [], Some ''boot'', Some ''grub''] \<and>
    map d_dirs D = [[1], [2], []]"
proof -
  let ?es = "[([NUL], 1), (''BOOT'', 1), (''GRUB'', 2)] :: pentry list" and ?x = "\<lambda>_ :: pentry. replicate 5 NUL"
  let ?v = "(demo_iso_vfs [])\<lparr>vdirs := [new_dir None None 0 0]\<rparr>"
  have ok: "pt_ok ?es" by (auto simp: pt_ok_def pt_entry_ok_def nth_Cons')
  have len: "length (pt_encode ?x ?es) = 34" by (simp add: pt_encode_def pt_encode_entry_def)
  have off: "pt_offsets ?x ?es = [0, 10, 22]" by (simp add: pt_offsets_def pt_encode_def pt_encode_entry_def)
  obtain D where D: "pt_loop ?v 0 0 [] [] (pt_encode ?x ?es @ []) (of_nat (length (pt_encode ?x ?es))) 0 =
      Inr (pt_offsets ?x ?es, map (pt_index 0 (length (vdirs ?v))) [0..<length ?es], ?v\<lparr>vdirs := D\<rparr>)"
    "pt_tree D ?es 0 0 (length (vdirs ?v))"
    using iso_path_table [OF ok, of ?x 0 ?v 0 "[]"] len by auto
  have ix: "pt_index 0 1 k = k" for k by (simp add: pt_index_def)
  have three: "length D = 3" "\<forall>k<length ?es. pt_node ?es 0 0 1 k (D ! k)"
    using D(2) by (simp_all add: pt_tree_def ix [simplified])
  then obtain a b c where abc: "D = [a, b, c]" by (auto simp: numeral_3_eq_3 length_Suc_conv)
  have "pt_node ?es 0 0 1 0 a" "pt_node ?es 0 0 1 1 b" "pt_node ?es 0 0 1 2 c"
    using three(2) [rule_format, of 0] three(2) [rule_format, of 1] three(2) [rule_format, of 2] by (simp_all add: abc)
  moreover have low: "map tolower ''BOOT'' = ''boot''" "map tolower ''GRUB'' = ''grub''" by code_simp+
  ultimately show ?thesis using D(1) len off
    by (intro exI [of _ "[a, b, c]"]) (simp add: abc pt_node_def pt_children_def pt_index_def upt_rec low [simplified])
qed

end
