(* ===== verification/Ports.thy ===== *)
theory Ports
  imports Prelude
begin

section \<open>Port input and output, and the PS/2 controller\<close>

text \<open>
  \<open>kernel/kernel/i386/io.c\<close> and \<open>kernel/kernel/drv/ps2.c\<close>. The devices behind the ports are
  not part of the repository: what a port answers is an arbitrary function \<open>io_dev\<close> of the
  port accesses so far, which the log keeps. The messages the driver logs are not modelled;
  \<open>halt\<close> stops the kernel.
\<close>

datatype ioevent = In u16 | Out u16 u8 | OutW u16 u16

record io =
  io_log :: "ioevent list"
  io_dev :: "ioevent list \<Rightarrow> u16 \<Rightarrow> u16"

definition outb :: "u16 \<Rightarrow> u8 \<Rightarrow> io \<Rightarrow> io" where
  "outb port val io = io\<lparr>io_log := io_log io @ [Out port val]\<rparr>"

definition inw :: "u16 \<Rightarrow> io \<Rightarrow> u16 \<times> io" where
  "inw port io = (io_dev io (io_log io) port, io\<lparr>io_log := io_log io @ [In port]\<rparr>)"

definition inb :: "u16 \<Rightarrow> io \<Rightarrow> u8 \<times> io" where
  "inb port io = (ucast (io_dev io (io_log io) port), io\<lparr>io_log := io_log io @ [In port]\<rparr>)"

definition io_wait :: "io \<Rightarrow> io" where
  "io_wait io = outb 0x80 0 io"

text \<open>The string instructions \<open>insw\<close> and \<open>outsw\<close> of \<open>io.h\<close>.\<close>

primrec insw :: "u16 \<Rightarrow> nat \<Rightarrow> io \<Rightarrow> u16 list \<times> io" where
  "insw port 0 io = ([], io)"
| "insw port (Suc n) io = (let (w, io) = inw port io; (ws, io) = insw port n io in (w # ws, io))"

definition outsw :: "u16 \<Rightarrow> u16 list \<Rightarrow> io \<Rightarrow> io" where
  "outsw port ws io = io\<lparr>io_log := io_log io @ map (OutW port) ws\<rparr>"

subsection \<open>The PS/2 controller\<close>

definition PS2_DATA :: u16 where "PS2_DATA = 0x60"
definition PS2_COMMAND :: u16 where "PS2_COMMAND = 0x64"
definition PS2_TIMEOUT_CYCLES :: nat where "PS2_TIMEOUT_CYCLES = 20000"

datatype ps2_device = PS2_DEVICE_NOT_PRESENT | PS2_DEVICE_KEYBOARD | PS2_DEVICE_MOUSE
  | PS2_DEVICE_MOUSE_SCROLL | PS2_DEVICE_MOUSE_5

text \<open>
  The polling loops: read the status until the bits of \<open>mask\<close> have the wanted value, at most
  \<open>n\<close> times; False when the counter reaches the limit.
\<close>

primrec ps2_poll :: "u8 \<Rightarrow> u8 \<Rightarrow> nat \<Rightarrow> io \<Rightarrow> bool \<times> io" where
  "ps2_poll bits want 0 io = (False, io)"
| "ps2_poll bits want (Suc n) io =
     (let (b, io) = inb PS2_COMMAND io in
      if b AND bits = want then (True, io) else ps2_poll bits want n io)"

definition ps2_wait_input :: "io \<Rightarrow> bool \<times> io" where
  "ps2_wait_input io = ps2_poll 2 0 PS2_TIMEOUT_CYCLES io"

definition ps2_wait_output :: "io \<Rightarrow> bool \<times> io" where
  "ps2_wait_output io = ps2_poll 1 1 PS2_TIMEOUT_CYCLES io"

definition ps2_send_command :: "u8 \<Rightarrow> io \<Rightarrow> io res" where
  "ps2_send_command command io =
     (let (ready, io) = ps2_wait_input (outb PS2_COMMAND command io) in
      if \<not> ready then Inl (Panic ''halt'') else Inr io)"

definition ps2_send_command_response :: "u8 \<Rightarrow> io \<Rightarrow> (u8 \<times> io) res" where
  "ps2_send_command_response command io =
     (let (ready, io) = ps2_wait_input (outb PS2_COMMAND command io) in
      if \<not> ready then Inl (Panic ''halt'')
      else
        let (ready, io) = ps2_wait_output io in
        if \<not> ready then Inl (Panic ''halt'') else Inr (inb PS2_DATA io))"

definition ps2_send_data :: "u8 \<Rightarrow> io \<Rightarrow> int \<times> io" where
  "ps2_send_data data io =
     (let (ready, io) = ps2_wait_input io in
      if \<not> ready then (0, io) else (1, outb PS2_DATA data io))"

definition ps2_recieve_data :: "io \<Rightarrow> int \<times> io" where
  "ps2_recieve_data io =
     (let (ready, io) = ps2_wait_output io in
      if \<not> ready then (-1, io)
      else let (b, io) = inb PS2_DATA io in (uint b, io))"

definition ps2_send_data_port2 :: "u8 \<Rightarrow> io \<Rightarrow> int \<times> io" where
  "ps2_send_data_port2 data io =
     (let (ready, io) = ps2_wait_input (outb PS2_COMMAND 0xD4 io) in
      if \<not> ready then (0, io)
      else
        let (ready, io) = ps2_wait_input (outb PS2_DATA data io) in
        if \<not> ready then (0, io) else (1, io))"

subsection \<open>Initialising the controller\<close>

record ps2 =
  dual_channels :: bool
  first_port_fail :: u8
  second_port_fail :: u8
  port1_device :: ps2_device
  port2_device :: ps2_device

text \<open>
  Emptying the output buffer: no bound in the source, so the loop gets fuel and running out of
  it is a \<open>Fault\<close>.
\<close>

primrec ps2_drain :: "nat \<Rightarrow> io \<Rightarrow> io res" where
  "ps2_drain 0 io = Inl (Fault ''ps2_init: fuel'')"
| "ps2_drain (Suc n) io =
     (let (b, io) = inb PS2_COMMAND io in
      if b AND 1 = 1 then (let (d, io) = inb PS2_DATA io in ps2_drain n io) else Inr io)"

text \<open>
  What the device on a port answers to a reset: acknowledge, self test, its first identity
  byte. \<open>None\<close> leaves the port as it was.
\<close>

definition ps2_identify :: "io \<Rightarrow> ps2_device option \<times> io" where
  "ps2_identify io =
     (let (recieved, io) = ps2_recieve_data io in
      if recieved = -1 then (Some PS2_DEVICE_NOT_PRESENT, io)
      else if recieved = 0xFC then (Some PS2_DEVICE_NOT_PRESENT, io)
      else
        let (_, io) = ps2_recieve_data io;
            (recieved, io) = ps2_recieve_data io in
        if recieved = -1 then (Some PS2_DEVICE_KEYBOARD, io)
        else if recieved = 0xAB then
          let (_, io) = ps2_recieve_data io in (Some PS2_DEVICE_KEYBOARD, io)
        else if recieved = 0xAC then
          let (_, io) = ps2_recieve_data io in (Some PS2_DEVICE_KEYBOARD, io)
        else if recieved = 0 then (Some PS2_DEVICE_MOUSE, io)
        else if recieved = 0x03 then (Some PS2_DEVICE_MOUSE_SCROLL, io)
        else if recieved = 0x04 then (Some PS2_DEVICE_MOUSE_5, io)
        else (None, io))"

definition ps2_command_data :: "u8 \<Rightarrow> io \<Rightarrow> io res" where
  "ps2_command_data data io =
     rbind (ps2_send_command 0x60 io) (\<lambda>io. Inr (snd (ps2_send_data data io)))"

definition ps2_test_dual :: "ps2 \<Rightarrow> io \<Rightarrow> (ps2 \<times> io) res" where
  "ps2_test_dual p io =
     rbind (ps2_send_command 0xA8 io) (\<lambda>io.
     rbind (ps2_send_command_response 0x20 io) (\<lambda>(b, io).
     if b AND 0x20 = 0 then
       rbind (ps2_send_command 0xA7 io) (\<lambda>io.
       rbind (ps2_command_data 0x04 io) (\<lambda>io. Inr (p\<lparr>dual_channels := True\<rparr>, io)))
     else Inr (p, io)))"

definition ps2_test_ports :: "ps2 \<Rightarrow> io \<Rightarrow> (ps2 \<times> io) res" where
  "ps2_test_ports p io =
     rbind (ps2_send_command_response 0xAB io) (\<lambda>(b, io).
     let p = p\<lparr>first_port_fail := b\<rparr> in
     if dual_channels p then
       rbind (ps2_send_command_response 0xA9 io) (\<lambda>(b, io).
       let p = p\<lparr>second_port_fail := b\<rparr> in
       if first_port_fail p \<noteq> 0 \<and> second_port_fail p \<noteq> 0 then Inl (Panic ''halt'') else Inr (p, io))
     else if first_port_fail p \<noteq> 0 then Inl (Panic ''halt'')
     else Inr (p, io))"

definition ps2_enable :: "ps2 \<Rightarrow> io \<Rightarrow> io res" where
  "ps2_enable p io =
     rbind (if first_port_fail p = 0 then ps2_send_command 0xAE io else Inr io) (\<lambda>io.
     rbind (if dual_channels p \<and> second_port_fail p = 0 then ps2_send_command 0xA8 io else Inr io) (\<lambda>io.
     if dual_channels p then
       if first_port_fail p = 0 \<and> second_port_fail p = 0 then ps2_command_data 0x07 io
       else if first_port_fail p = 0 then ps2_command_data 0x25 io
       else ps2_command_data 0x16 io
     else ps2_command_data 0x25 io))"

definition ps2_init :: "nat \<Rightarrow> ps2 \<Rightarrow> io \<Rightarrow> (ps2 \<times> io) res" where
  "ps2_init fuel p io =
     rbind (ps2_send_command 0xAD io) (\<lambda>io.
     rbind (ps2_send_command 0xA7 io) (\<lambda>io.
     rbind (ps2_drain fuel io) (\<lambda>io.
     rbind (ps2_send_command_response 0xAA io) (\<lambda>(b, io).
     if b \<noteq> 0x55 then Inl (Panic ''halt'')
     else
       rbind (ps2_command_data 0x26 io) (\<lambda>io.
       rbind (ps2_test_dual p io) (\<lambda>(p, io).
       rbind (ps2_test_ports p io) (\<lambda>(p, io).
       rbind (ps2_enable p io) (\<lambda>io.
       let (p, io) =
             (if first_port_fail p = 0 then
                let (_, io) = ps2_send_data 0xFF io; (d, io) = ps2_identify io in
                ((case d of None \<Rightarrow> p | Some d \<Rightarrow> p\<lparr>port1_device := d\<rparr>), io)
              else (p, io));
           (p, io) =
             (if dual_channels p \<and> second_port_fail p = 0 then
                let (_, io) = ps2_send_data_port2 0xFF io; (d, io) = ps2_identify io in
                ((case d of None \<Rightarrow> p | Some d \<Rightarrow> p\<lparr>port2_device := d\<rparr>), io)
              else (p, io)) in
       Inr (p, io)))))))))"

subsection \<open>What polling does\<close>

text \<open>The answer to the \<open>k\<close>-th of a run of reads of one port, and the state after \<open>k\<close> reads.\<close>

definition answer :: "io \<Rightarrow> u16 \<Rightarrow> nat \<Rightarrow> u8" where
  "answer io port k = ucast (io_dev io (io_log io @ replicate k (In port)) port)"

definition after_reads :: "io \<Rightarrow> u16 \<Rightarrow> nat \<Rightarrow> io" where
  "after_reads io port k = io\<lparr>io_log := io_log io @ replicate k (In port)\<rparr>"

lemma after_reads_0 [simp]: "after_reads io port 0 = io"
  by (simp add: after_reads_def)

lemma inb_answer: "inb port io = (answer io port 0, after_reads io port 1)"
  by (simp add: inb_def answer_def after_reads_def)

lemma answer_after [simp]: "answer (after_reads io port j) port k = answer io port (j + k)"
  by (simp add: answer_def after_reads_def replicate_add)

lemma after_after [simp]: "after_reads (after_reads io port j) port k = after_reads io port (j + k)"
  by (simp add: after_reads_def replicate_add)

lemma ps2_poll_ready:
  "k < n \<Longrightarrow> answer io PS2_COMMAND k AND b = want \<Longrightarrow>
   \<forall>j<k. answer io PS2_COMMAND j AND b \<noteq> want \<Longrightarrow>
   ps2_poll b want n io = (True, after_reads io PS2_COMMAND (Suc k))"
proof (induction n arbitrary: io k)
  case (Suc n)
  show ?case
  proof (cases k)
    case 0
    with Suc.prems show ?thesis by (simp add: inb_answer)
  next
    case (Suc k')
    have "\<forall>j<k'. answer (after_reads io PS2_COMMAND 1) PS2_COMMAND j AND b \<noteq> want"
      using Suc.prems(3) Suc by simp
    with Suc.IH [of k' "after_reads io PS2_COMMAND 1"] Suc Suc.prems show ?thesis
      by (simp add: inb_answer)
  qed
qed simp

lemma ps2_poll_timeout:
  "\<forall>j<n. answer io PS2_COMMAND j AND b \<noteq> want \<Longrightarrow>
   ps2_poll b want n io = (False, after_reads io PS2_COMMAND n)"
proof (induction n arbitrary: io)
  case (Suc n)
  have "\<forall>j<n. answer (after_reads io PS2_COMMAND 1) PS2_COMMAND j AND b \<noteq> want"
    using Suc.prems by simp
  with Suc show ?case by (simp add: inb_answer)
qed simp

lemma first_below:
  fixes P :: "nat \<Rightarrow> bool"
  assumes "\<exists>k<n. P k"
  obtains k where "k < n" "P k" "\<forall>j<k. \<not> P j"
  using assms exists_least_iff [of "\<lambda>k. k < n \<and> P k"] by (metis dual_order.strict_trans)

text \<open>
  Reading a byte from the PS/2 controller always ends, after at most
  \<open>PS2_TIMEOUT_CYCLES\<close> reads of the status. It returns the byte the data port gives after the
  first status with the output bit set, and -1 exactly when none of those statuses has it; it
  never consumes data when it times out.
\<close>

theorem ps2_recieve_data_spec:
  shows "(if \<exists>k<PS2_TIMEOUT_CYCLES. answer io PS2_COMMAND k AND 1 = 1
     then \<exists>k<PS2_TIMEOUT_CYCLES. answer io PS2_COMMAND k AND 1 = 1 \<and>
       (\<forall>j<k. answer io PS2_COMMAND j AND 1 \<noteq> 1) \<and>
       (let io1 = after_reads io PS2_COMMAND (Suc k) in
        ps2_recieve_data io = (uint (answer io1 PS2_DATA 0), after_reads io1 PS2_DATA 1))
     else ps2_recieve_data io = (-1, after_reads io PS2_COMMAND PS2_TIMEOUT_CYCLES))"
proof (cases "\<exists>k<PS2_TIMEOUT_CYCLES. answer io PS2_COMMAND k AND 1 = 1")
  case True
  then obtain k where k: "k < PS2_TIMEOUT_CYCLES" "answer io PS2_COMMAND k AND 1 = 1"
    "\<forall>j<k. answer io PS2_COMMAND j AND 1 \<noteq> 1" by (rule first_below)
  from ps2_poll_ready [OF this] k True show ?thesis
    by (auto simp: ps2_recieve_data_def ps2_wait_output_def inb_answer)
next
  case False
  then show ?thesis using ps2_poll_timeout [of PS2_TIMEOUT_CYCLES io 1 1]
    by (auto simp: ps2_recieve_data_def ps2_wait_output_def)
qed

text \<open>A controller whose status is ready from the third read on, with the byte 0x1C waiting.\<close>

definition demo_io :: io where
  "demo_io = \<lparr>io_log = [], io_dev = (\<lambda>log port.
     if port = PS2_COMMAND then (if 2 \<le> length log then 1 else 0) else 0x1C)\<rparr>"

lemma ps2_recieve_data_spec_witness: "fst (ps2_recieve_data demo_io) = 0x1C"
proof -
  have a: "answer demo_io PS2_COMMAND k = (if 2 \<le> k then 1 else 0)" for k
    by (simp add: answer_def demo_io_def)
  then have "\<exists>k<PS2_TIMEOUT_CYCLES. answer demo_io PS2_COMMAND k AND 1 = 1"
    by (intro exI [of _ 2]) (simp add: PS2_TIMEOUT_CYCLES_def)
  with ps2_recieve_data_spec [of demo_io] obtain k where
    "fst (ps2_recieve_data demo_io) = uint (answer (after_reads demo_io PS2_COMMAND (Suc k)) PS2_DATA 0)"
    by (auto simp: Let_def)
  then show ?thesis by (simp add: answer_def after_reads_def demo_io_def PS2_COMMAND_def PS2_DATA_def)
qed

end
