(* ===== verification/Vgatty.thy ===== *)
theory Vgatty
  imports Ports
begin

section \<open>The VGA text terminal\<close>

text \<open>
  \<open>kernel/kernel/drv/vgatty.c\<close> and \<open>vga.h\<close>. The text buffer is the list of its 2000 cells; a
  write beside it is a \<open>Fault\<close>. Row and column are \<open>size_t\<close>, so going up from row 0 wraps
  around. The cursor is moved through the ports.
\<close>

definition VGA_WIDTH :: u32 where "VGA_WIDTH = 80"
definition VGA_HEIGHT :: u32 where "VGA_HEIGHT = 25"

definition vga_entry_color :: "u8 \<Rightarrow> u8 \<Rightarrow> u8" where
  "vga_entry_color fg bg = fg OR push_bit 4 bg"

definition vga_entry :: "u8 \<Rightarrow> u8 \<Rightarrow> u16" where
  "vga_entry uc color = ucast uc OR push_bit 8 (ucast color)"

record vga =
  t_row :: u32
  t_column :: u32
  t_color :: u8
  t_fg :: u8
  t_bg :: u8
  t_buffer :: "u16 list"

definition terminal_enable_cursor :: "u8 \<Rightarrow> u8 \<Rightarrow> io \<Rightarrow> io" where
  "terminal_enable_cursor cursor_start cursor_end io =
     (let io = outb 0x3D4 0x0A io; (b, io) = inb 0x3D5 io;
          io = outb 0x3D5 ((b AND 0xC0) OR cursor_start) io;
          io = outb 0x3D4 0x0B io; (b, io) = inb 0x3D5 io in
      outb 0x3D5 ((b AND 0xE0) OR cursor_end) io)"

definition terminal_update_cursor :: "u32 \<Rightarrow> u32 \<Rightarrow> io \<Rightarrow> io" where
  "terminal_update_cursor x y io =
     (let pos = (ucast (y * VGA_WIDTH + x) :: u16);
          io = outb 0x3D4 0x0F io; io = outb 0x3D5 (ucast (pos AND 0xFF)) io;
          io = outb 0x3D4 0x0E io in
      outb 0x3D5 (ucast (drop_bit 8 pos AND 0xFF)) io)"

definition terminal_disable_cursor :: "io \<Rightarrow> io" where
  "terminal_disable_cursor io = outb 0x3D5 0x20 (outb 0x3D4 0x0A io)"

text \<open>The double loops over rows and columns touch the cells in ascending order of their index.\<close>

primrec fill_loop :: "u16 list \<Rightarrow> u16 \<Rightarrow> nat list \<Rightarrow> u16 list res" where
  "fill_loop buf entry [] = Inr buf"
| "fill_loop buf entry (i # is) =
     rbind (aset ''terminal_buffer'' buf i entry) (\<lambda>buf. fill_loop buf entry is)"

definition cells :: "nat \<Rightarrow> nat \<Rightarrow> nat list" where
  "cells y0 y1 = concat (map (\<lambda>y. map (\<lambda>x. y * 80 + x) [0..<80]) [y0..<y1])"

definition blank :: "u8 \<Rightarrow> u16" where "blank color = vga_entry 0x20 color"

definition terminal_initialize :: "vga \<Rightarrow> io \<Rightarrow> (vga \<times> io) res" where
  "terminal_initialize v io =
     (let color = vga_entry_color 7 0 in
      rbind (fill_loop (t_buffer v) (blank color) (cells 0 25)) (\<lambda>buf.
      Inr (\<lparr>t_row = 0, t_column = 0, t_color = color, t_fg = 7, t_bg = 0, t_buffer = buf\<rparr>,
           terminal_enable_cursor 12 14 io)))"

definition terminal_setcolor :: "u8 \<Rightarrow> vga \<Rightarrow> vga" where
  "terminal_setcolor color v = v\<lparr>t_color := color\<rparr>"

definition terminal_setfgcolor :: "u8 \<Rightarrow> vga \<Rightarrow> vga" where
  "terminal_setfgcolor fg v = v\<lparr>t_fg := fg, t_color := vga_entry_color fg (t_bg v)\<rparr>"

definition terminal_setbgcolor :: "u8 \<Rightarrow> vga \<Rightarrow> vga" where
  "terminal_setbgcolor bg v = v\<lparr>t_bg := bg, t_color := vga_entry_color (t_fg v) bg\<rparr>"

definition terminal_putentryat :: "u8 \<Rightarrow> u8 \<Rightarrow> u32 \<Rightarrow> u32 \<Rightarrow> vga \<Rightarrow> vga res" where
  "terminal_putentryat c color x y v =
     (let index = y * VGA_WIDTH + x in
      rbind (aset ''terminal_buffer'' (t_buffer v) (unat index) (vga_entry c color)) (\<lambda>buf.
      Inr (v\<lparr>t_buffer := buf\<rparr>)))"

primrec scroll_loop :: "u16 list \<Rightarrow> nat list \<Rightarrow> u16 list res" where
  "scroll_loop buf [] = Inr buf"
| "scroll_loop buf (i # is) =
     rbind (aget ''terminal_buffer'' buf (i + 80)) (\<lambda>e.
     rbind (aset ''terminal_buffer'' buf i e) (\<lambda>buf. scroll_loop buf is))"

definition terminal_scroll :: "vga \<Rightarrow> vga res" where
  "terminal_scroll v =
     rbind (scroll_loop (t_buffer v) (cells 0 24)) (\<lambda>buf.
     rbind (fill_loop buf (blank (t_color v)) (cells 24 25)) (\<lambda>buf.
     Inr (v\<lparr>t_buffer := buf\<rparr>)))"

text \<open>The switch on the character, and what follows it.\<close>

definition put_switch :: "char \<Rightarrow> vga \<Rightarrow> vga res" where
  "put_switch c v =
     (if c = CHR 0x0A then Inr (v\<lparr>t_row := t_row v + 1, t_column := 0\<rparr>)
      else if c = CHR 0x7F then
        if t_column v = 0 then Inr (v\<lparr>t_row := t_row v - 1, t_column := VGA_WIDTH - 1\<rparr>)
        else
          let v = v\<lparr>t_column := t_column v - 1\<rparr> in
          terminal_putentryat 0 (t_color v) (t_column v) (t_row v) v
      else
        rbind (terminal_putentryat (of_nat (of_char c)) (t_color v) (t_column v) (t_row v) v) (\<lambda>v.
        Inr (v\<lparr>t_column := t_column v + 1\<rparr>)))"

definition wrap_column :: "vga \<Rightarrow> vga" where
  "wrap_column v = (if t_column v = VGA_WIDTH then v\<lparr>t_column := 0, t_row := t_row v + 1\<rparr> else v)"

definition wrap_row :: "vga \<Rightarrow> vga res" where
  "wrap_row v =
     (if t_row v = VGA_HEIGHT then
        rbind (terminal_scroll v) (\<lambda>v. Inr (v\<lparr>t_column := 0, t_row := t_row v - 1\<rparr>))
      else Inr v)"

definition terminal_putchar :: "char \<Rightarrow> vga \<Rightarrow> io \<Rightarrow> (vga \<times> io) res" where
  "terminal_putchar c v io =
     rbind (put_switch c v) (\<lambda>v.
     rbind (wrap_row (wrap_column v)) (\<lambda>v.
     Inr (v, terminal_update_cursor (t_column v) (t_row v) io)))"

primrec terminal_write :: "string \<Rightarrow> vga \<Rightarrow> io \<Rightarrow> (vga \<times> io) res" where
  "terminal_write [] v io = Inr (v, io)"
| "terminal_write (c # cs) v io = rbind (terminal_putchar c v io) (\<lambda>(v, io). terminal_write cs v io)"

definition terminal_clear :: "vga \<Rightarrow> vga res" where
  "terminal_clear v =
     rbind (fill_loop (t_buffer v) (blank (t_color v)) (cells 0 25)) (\<lambda>buf.
     Inr (v\<lparr>t_buffer := buf, t_row := 0, t_column := 0\<rparr>))"

subsection \<open>Filling and scrolling\<close>

lemma cells_range: "y0 \<le> y1 \<Longrightarrow> cells y0 y1 = [y0 * 80..<y1 * 80]"
proof (induction y1)
  case (Suc y1)
  have row: "map (\<lambda>x. x + y * 80) [0..<80] = [y * 80..<80 + y * 80]" for y :: nat
    by (rule nth_equalityI) simp_all
  show ?case
  proof (cases "y0 = Suc y1")
    case False
    with Suc have "y0 \<le> y1" "cells y0 y1 = [y0 * 80..<y1 * 80]" by simp_all
    moreover have "y0 * 80 \<le> y1 * 80" using calculation(1) by simp
    then have "[y0 * 80..<y1 * 80 + 80] = [y0 * 80..<y1 * 80] @ [y1 * 80..<y1 * 80 + 80]"
      by (rule upt_add_eq_append)
    ultimately show ?thesis
      by (simp add: cells_def row add.commute)
  qed (simp add: cells_def)
qed (simp add: cells_def)

lemma fill_range:
  "a + n \<le> length buf \<Longrightarrow>
   fill_loop buf e [a..<a + n] = Inr (take a buf @ replicate n e @ drop (a + n) buf)"
proof (induction n arbitrary: a buf)
  case (Suc n)
  have "[a..<a + Suc n] = a # [Suc a..<Suc a + n]" by (simp add: upt_rec)
  moreover have "take (Suc a) (buf[a := e]) = take a buf @ [e]" using Suc.prems by (simp add: take_Suc_update)
  ultimately show ?case using Suc.IH [of "Suc a" "buf[a := e]"] Suc.prems by simp
qed simp

lemma scroll_range:
  "a + n + 80 \<le> length buf \<Longrightarrow>
   scroll_loop buf [a..<a + n] = Inr (take a buf @ take n (drop (a + 80) buf) @ drop (a + n) buf)"
proof (induction n arbitrary: a buf)
  case (Suc n)
  let ?e = "buf ! (a + 80)"
  have "[a..<a + Suc n] = a # [Suc a..<Suc a + n]" by (simp add: upt_rec)
  moreover have "take (Suc a) (buf[a := ?e]) = take a buf @ [?e]" using Suc.prems by (simp add: take_Suc_update)
  moreover have "drop (a + 80) buf = ?e # drop (Suc (a + 80)) buf"
    using Suc.prems by (intro Cons_nth_drop_Suc [symmetric]) simp
  ultimately show ?case using Suc.IH [of "Suc a" "buf[a := ?e]"] Suc.prems by simp
qed simp

lemma scroll_eq:
  assumes "length (t_buffer v) = 2000"
  shows "terminal_scroll v = Inr (v\<lparr>t_buffer := drop 80 (t_buffer v) @ replicate 80 (blank (t_color v))\<rparr>)"
proof -
  let ?buf = "take 1920 (drop 80 (t_buffer v)) @ drop 1920 (t_buffer v)"
  have c: "cells 0 24 = [0..<0 + 1920]" "cells 24 25 = [1920..<1920 + 80]" by (simp_all add: cells_range)
  have "scroll_loop (t_buffer v) (cells 0 24) = Inr ?buf"
    unfolding c(1) using assms by (subst scroll_range) simp_all
  moreover have "fill_loop ?buf (blank (t_color v)) (cells 24 25) =
      Inr (drop 80 (t_buffer v) @ replicate 80 (blank (t_color v)))"
    unfolding c(2) using assms by (subst fill_range) simp_all
  ultimately show ?thesis unfolding terminal_scroll_def by (simp only: rbind_Inr)
qed

subsection \<open>The abstract screen\<close>

text \<open>
  A position from 0 to 1999 and the cells. A character goes to the position; the end of the
  screen scrolls one line. Rubbing out at position 0 has no meaning.
\<close>

type_synonym screen = "nat \<times> u16 list"

definition scroll_end :: "u8 \<Rightarrow> screen \<Rightarrow> screen" where
  "scroll_end color s =
     (if fst s = 2000 then (1920, drop 80 (snd s) @ replicate 80 (blank color)) else s)"

definition screen_put :: "u8 \<Rightarrow> char \<Rightarrow> screen \<Rightarrow> screen option" where
  "screen_put color c s =
     (let p = fst s; buf = snd s in
      if c = CHR 0x0A then Some (scroll_end color ((p div 80 + 1) * 80, buf))
      else if c = CHR 0x7F then
        if p = 0 then None
        else Some (p - 1, if p mod 80 = 0 then buf else buf[p - 1 := vga_entry 0 color])
      else Some (scroll_end color (p + 1, buf[p := vga_entry (of_nat (of_char c)) color])))"

fun screen_write :: "u8 \<Rightarrow> string \<Rightarrow> screen \<Rightarrow> screen option" where
  "screen_write color [] s = Some s"
| "screen_write color (c # cs) s =
     (case screen_put color c s of None \<Rightarrow> None | Some s \<Rightarrow> screen_write color cs s)"

definition screen_ok :: "vga \<Rightarrow> bool" where
  "screen_ok v \<longleftrightarrow> unat (t_row v) < 25 \<and> unat (t_column v) < 80 \<and> length (t_buffer v) = 2000"

definition screen_of :: "vga \<Rightarrow> screen" where
  "screen_of v = (unat (t_row v) * 80 + unat (t_column v), t_buffer v)"

lemma index_eq:
  assumes "unat (r :: u32) < 25" "unat (c :: u32) < 80"
  shows "unat (r * VGA_WIDTH + c) = unat r * 80 + unat c"
proof -
  have "unat (r * 80) = unat r * 80" using assms(1) by (subst unat_mult_lem [THEN iffD1]) simp_all
  then show ?thesis using assms by (simp add: VGA_WIDTH_def unat_add_lem [THEN iffD1])
qed

lemma unat_dec: "(w :: u32) \<noteq> 0 \<Longrightarrow> unat (w - 1) = unat w - 1"
  by (simp add: unat_minus_one)

lemma unat_inc: "unat (w :: u32) < 4294967295 \<Longrightarrow> unat (w + 1) = unat w + 1"
  by (subst unat_add_lem [THEN iffD1]) simp_all

lemma putentry_eq:
  "unat y < 25 \<Longrightarrow> unat x < 80 \<Longrightarrow> length (t_buffer v) = 2000 \<Longrightarrow>
   terminal_putentryat c color x y v =
     Inr (v\<lparr>t_buffer := (t_buffer v)[unat y * 80 + unat x := vga_entry c color]\<rparr>)"
  by (simp add: terminal_putentryat_def index_eq)

text \<open>After the switch the column may be 80, or the row 25.\<close>

lemma wrap_screen:
  assumes "unat (t_row v) < 25 \<and> unat (t_column v) \<le> 80 \<or> unat (t_row v) = 25 \<and> t_column v = 0"
    "length (t_buffer v) = 2000"
  obtains v' where "wrap_row (wrap_column v) = Inr v'" "screen_ok v'" "t_color v' = t_color v"
    "screen_of v' = scroll_end (t_color v) (screen_of v)"
proof -
  have col: "t_column v = VGA_WIDTH \<longleftrightarrow> unat (t_column v) = 80"
    by (simp add: VGA_WIDTH_def word_unat_eq_iff)
  define w where "w = wrap_column v"
  have w: "t_buffer w = t_buffer v" "t_color w = t_color v" "screen_of w = screen_of v"
    "unat (t_row w) < 25 \<and> unat (t_column w) < 80 \<or> unat (t_row w) = 25 \<and> t_column w = 0"
    using assms(1) col by (auto simp: w_def wrap_column_def screen_of_def unat_inc)
  have row: "t_row w = VGA_HEIGHT \<longleftrightarrow> unat (t_row w) = 25"
    by (simp add: VGA_HEIGHT_def word_unat_eq_iff)
  show ?thesis
  proof (cases "unat (t_row w) = 25")
    case True
    then have "t_row w = 25" by (simp add: word_unat_eq_iff)
    moreover have "t_column w = 0" using w(4) True by simp
    moreover have "length (t_buffer w) = 2000" using assms(2) w(1) by simp
    ultimately have "wrap_row w = Inr (w\<lparr>t_buffer := drop 80 (t_buffer w) @ replicate 80 (blank (t_color w)),
        t_column := 0, t_row := 24\<rparr>)" (is "_ = Inr ?v")
      by (simp add: wrap_row_def VGA_HEIGHT_def scroll_eq)
    moreover have "screen_ok ?v" using assms(2) w(1) by (simp add: screen_ok_def)
    moreover have "screen_of ?v = scroll_end (t_color v) (screen_of w)"
      using \<open>t_row w = 25\<close> \<open>t_column w = 0\<close> w by (simp add: screen_of_def scroll_end_def)
    ultimately show ?thesis using that w unfolding w_def [symmetric] by simp
  next
    case False
    then have "wrap_row w = Inr w" using row by (simp add: wrap_row_def)
    moreover have "screen_ok w" using False w assms(2) by (auto simp: screen_ok_def)
    moreover from this have "scroll_end (t_color v) (screen_of w) = screen_of w"
      by (auto simp: scroll_end_def screen_of_def screen_ok_def)
    ultimately show ?thesis using that w unfolding w_def [symmetric] by simp
  qed
qed

lemma put_switch_screen:
  assumes ok: "screen_ok v" and put: "screen_put (t_color v) c (screen_of v) = Some s"
  obtains v' where "put_switch c v = Inr v'" "t_color v' = t_color v" "length (t_buffer v') = 2000"
    "unat (t_row v') < 25 \<and> unat (t_column v') \<le> 80 \<or> unat (t_row v') = 25 \<and> t_column v' = 0"
    "s = scroll_end (t_color v) (screen_of v')"
proof -
  have b: "unat (t_row v) < 25" "unat (t_column v) < 80" "length (t_buffer v) = 2000"
    using ok by (simp_all add: screen_ok_def)
  consider "c = CHR 0x0A" | "c = CHR 0x7F" "t_column v = 0" | "c = CHR 0x7F" "t_column v \<noteq> 0"
    | "c \<noteq> CHR 0x0A" "c \<noteq> CHR 0x7F" by blast
  then show ?thesis
  proof cases
    case 1
    let ?v = "v\<lparr>t_row := t_row v + 1, t_column := 0\<rparr>"
    have "s = scroll_end (t_color v) (screen_of ?v)"
      using put 1 b by (simp add: screen_put_def screen_of_def unat_inc)
    moreover have "unat (t_row ?v) < 25 \<or> unat (t_row ?v) = 25" using b by (simp add: unat_inc) linarith
    ultimately show ?thesis using that [of ?v] 1 b by (auto simp: put_switch_def)
  next
    case 2
    let ?v = "v\<lparr>t_row := t_row v - 1, t_column := 79\<rparr>"
    have r: "t_row v \<noteq> 0" using put 2 by (auto simp: screen_put_def Let_def screen_of_def)
    then have u: "unat (t_row v - 1) = unat (t_row v) - 1" "0 < unat (t_row v)"
      by (simp_all add: unat_dec unat_gt_0)
    then have "unat (t_row v) * 80 - 1 = (unat (t_row v) - 1) * 80 + 79" by (simp add: diff_mult_distrib)
    then have "s = scroll_end (t_color v) (screen_of ?v)"
      using put 2 b u by (auto simp: screen_put_def Let_def screen_of_def scroll_end_def split: if_splits)
    then show ?thesis using that [of ?v] 2 b u by (simp add: put_switch_def VGA_WIDTH_def)
  next
    case 3
    have u: "unat (t_column v - 1) = unat (t_column v) - 1" "0 < unat (t_column v)"
      using 3 by (simp_all add: unat_dec unat_gt_0)
    let ?p = "unat (t_row v) * 80 + (unat (t_column v) - 1)"
    let ?v = "v\<lparr>t_column := t_column v - 1, t_buffer := (t_buffer v)[?p := vga_entry 0 (t_color v)]\<rparr>"
    have "put_switch c v = Inr ?v" using 3 b u by (simp add: put_switch_def putentry_eq)
    moreover have "(unat (t_row v) * 80 + unat (t_column v)) mod 80 = unat (t_column v)"
      using b by simp
    then have "s = scroll_end (t_color v) (screen_of ?v)"
      using put 3 b u by (auto simp: screen_put_def Let_def screen_of_def scroll_end_def split: if_splits)
    ultimately show ?thesis using that [of ?v] b u by simp
  next
    case 4
    let ?p = "unat (t_row v) * 80 + unat (t_column v)"
    let ?v = "v\<lparr>t_buffer := (t_buffer v)[?p := vga_entry (of_nat (of_char c)) (t_color v)],
      t_column := t_column v + 1\<rparr>"
    have "put_switch c v = Inr ?v" using 4 b by (simp add: put_switch_def putentry_eq)
    moreover have "s = scroll_end (t_color v) (screen_of ?v)"
      using put 4 b by (simp add: Let_def screen_put_def screen_of_def unat_inc)
    ultimately show ?thesis using that [of ?v] b by (simp add: unat_inc)
  qed
qed

lemma putchar_screen:
  assumes "screen_ok v" "screen_put (t_color v) c (screen_of v) = Some s"
  obtains v' io' where "terminal_putchar c v io = Inr (v', io')" "screen_ok v'" "t_color v' = t_color v"
    "screen_of v' = s"
  using assms
proof (rule put_switch_screen)
  fix w assume w: "put_switch c v = Inr w" "t_color w = t_color v" "length (t_buffer w) = 2000"
    "unat (t_row w) < 25 \<and> unat (t_column w) \<le> 80 \<or> unat (t_row w) = 25 \<and> t_column w = 0"
    "s = scroll_end (t_color v) (screen_of w)"
  from wrap_screen [OF w(4,3)] obtain v' where "wrap_row (wrap_column w) = Inr v'" "screen_ok v'"
    "t_color v' = t_color w" "screen_of v' = scroll_end (t_color w) (screen_of w)" by blast
  with w show ?thesis using that [of v'] by (simp add: terminal_putchar_def)
qed

lemma putchar_screen_ex:
  "screen_ok v \<Longrightarrow> screen_put (t_color v) c (screen_of v) = Some s \<Longrightarrow>
   \<exists>v' io'. terminal_putchar c v io = Inr (v', io') \<and> screen_ok v' \<and> t_color v' = t_color v \<and>
     screen_of v' = s"
  by (erule (1) putchar_screen) blast

subsection \<open>Properties\<close>

text \<open>
  \<open>terminal_write\<close> implements the abstract screen: from a cursor inside the screen, text that
  does not rub out past the first cell is written without a fault, leaves the cursor inside the
  screen and the cells as the abstract screen has them, with line wrap, new lines, rubbing out
  and scrolling.
\<close>

theorem terminal_write_refines:
  assumes "screen_ok v" "screen_write (t_color v) cs (screen_of v) = Some s"
  shows "\<exists>v' io'. terminal_write cs v io = Inr (v', io') \<and> screen_ok v' \<and> screen_of v' = s"
  using assms
proof (induction cs arbitrary: v io)
  case (Cons c cs)
  then obtain s1 where s1: "screen_put (t_color v) c (screen_of v) = Some s1"
    "screen_write (t_color v) cs s1 = Some s" by (auto split: option.splits)
  from putchar_screen_ex [OF Cons.prems(1) s1(1)] obtain v1 io1 where
    "terminal_putchar c v io = Inr (v1, io1)" "screen_ok v1" "t_color v1 = t_color v" "screen_of v1 = s1"
    by blast
  with Cons.IH [of v1 io1] s1(2) show ?case by simp
qed simp

definition demo_vga :: vga where
  "demo_vga = \<lparr>t_row = 24, t_column = 79, t_color = 7, t_fg = 7, t_bg = 0, t_buffer = replicate 2000 0\<rparr>"

lemma terminal_write_refines_witness:
  "\<exists>v' io'. terminal_write ''A'' demo_vga demo_io = Inr (v', io') \<and> screen_ok v' \<and>
     fst (screen_of v') = 1920"
proof -
  have "screen_ok demo_vga" by (simp add: screen_ok_def demo_vga_def)
  moreover obtain s where "screen_write (t_color demo_vga) ''A'' (screen_of demo_vga) = Some s" "fst s = 1920"
    by (simp add: screen_put_def scroll_end_def screen_of_def demo_vga_def)
  ultimately show ?thesis using terminal_write_refines [of demo_vga "''A''" s demo_io] by auto
qed

text \<open>
  Rubbing out in the first cell of the screen moves the cursor to row \<open>SIZE_MAX\<close>; the next
  character that is not a new line is written outside the text buffer.
\<close>

theorem terminal_rubout_home:
  assumes "t_row v = 0" "t_column v = 0" "length (t_buffer v) = 2000" "c \<noteq> CHR 0x0A"
  shows "terminal_write [CHR 0x7F, c] v io = Inl (Fault ''terminal_buffer'')"
proof -
  have w: "terminal_putchar (CHR 0x7F) v io =
      Inr (v\<lparr>t_row := -1, t_column := 79\<rparr>, terminal_update_cursor 79 (-1) io)"
    using assms by (simp add: terminal_putchar_def put_switch_def wrap_column_def wrap_row_def
        VGA_WIDTH_def VGA_HEIGHT_def)
  show ?thesis
    using assms by (simp add: w) (simp add: terminal_putchar_def put_switch_def terminal_putentryat_def
        VGA_WIDTH_def aset_def Let_def unsigned_minus_1_eq_mask mask_eq_exp_minus_1)
qed

lemma terminal_rubout_home_witness:
  "terminal_write [CHR 0x7F, CHR ''A''] (demo_vga\<lparr>t_row := 0, t_column := 0\<rparr>) demo_io =
     Inl (Fault ''terminal_buffer'')"
  by (rule terminal_rubout_home) (simp_all add: demo_vga_def)

end
