(* ===== verification/Console.thy ===== *)
theory Console
  imports Vgatty CString
begin

section \<open>Keyboard and terminal\<close>

text \<open>
  \<open>kernel/kernel/drv/ps2kb.c\<close> and \<open>kernel/kernel/drv/hal/term.c\<close>. Key presses arrive in the
  interrupt handler, which puts characters into a ring buffer; the terminal reads them from
  there and writes to the VGA text screen. The scan code tables have 128 entries, the key is a
  byte. The two interrupt lines the driver claims are flags here.
\<close>

definition scancodelower :: string where
  "scancodelower =
    [NUL, NUL, NUL, NUL,
     NUL, NUL, NUL, NUL,
     NUL, NUL, NUL, NUL,
     NUL, CHR 0x09, CHR 0x60, NUL,
     NUL, NUL, NUL, NUL,
     NUL, CHR ''q'', CHR ''1'', NUL,
     NUL, NUL, CHR ''z'', CHR ''s'',
     CHR ''a'', CHR ''w'', CHR ''2'', NUL,
     NUL, CHR ''c'', CHR ''x'', CHR ''d'',
     CHR ''e'', CHR ''4'', CHR ''3'', NUL,
     NUL, CHR '' '', CHR ''v'', CHR ''f'',
     CHR ''t'', CHR ''r'', CHR ''5'', NUL,
     NUL, CHR ''n'', CHR ''b'', CHR ''h'',
     CHR ''g'', CHR ''y'', CHR ''6'', NUL,
     NUL, NUL, CHR ''m'', CHR ''j'',
     CHR ''u'', CHR ''7'', CHR ''8'', NUL,
     NUL, CHR '','', CHR ''k'', CHR ''i'',
     CHR ''o'', CHR ''0'', CHR ''9'', NUL,
     NUL, CHR ''.'', CHR ''/'', CHR ''l'',
     CHR '';'', CHR ''p'', CHR ''-'', NUL,
     NUL, NUL, CHR 0x27, NUL,
     CHR ''['', CHR ''='', NUL, NUL,
     NUL, NUL, CHR 0x0A, CHR '']'',
     NUL, CHR 0x5C, NUL, NUL,
     NUL, NUL, NUL, NUL,
     NUL, NUL, CHR 0x7F, NUL,
     NUL, CHR ''1'', NUL, CHR ''4'',
     CHR ''7'', NUL, NUL, NUL,
     CHR ''0'', CHR ''.'', CHR ''2'', CHR ''5'',
     CHR ''6'', CHR ''8'', NUL, NUL,
     NUL, CHR ''+'', CHR ''3'', CHR ''-'',
     CHR ''*'', CHR ''9'', NUL, NUL]"

definition scancodeupper :: string where
  "scancodeupper =
    [NUL, NUL, NUL, NUL,
     NUL, NUL, NUL, NUL,
     NUL, NUL, NUL, NUL,
     NUL, CHR 0x09, CHR ''~'', NUL,
     NUL, NUL, NUL, NUL,
     NUL, CHR ''Q'', CHR ''!'', NUL,
     NUL, NUL, CHR ''Z'', CHR ''S'',
     CHR ''A'', CHR ''W'', CHR ''@'', NUL,
     NUL, CHR ''C'', CHR ''X'', CHR ''D'',
     CHR ''E'', CHR ''$'', CHR ''#'', NUL,
     NUL, CHR '' '', CHR ''V'', CHR ''F'',
     CHR ''T'', CHR ''R'', CHR ''%'', NUL,
     NUL, CHR ''N'', CHR ''B'', CHR ''H'',
     CHR ''G'', CHR ''Y'', CHR ''^'', NUL,
     NUL, NUL, CHR ''M'', CHR ''J'',
     CHR ''U'', CHR ''&'', CHR ''*'', NUL,
     NUL, CHR ''<'', CHR ''K'', CHR ''I'',
     CHR ''O'', CHR '')'', CHR ''('', NUL,
     NUL, CHR ''>'', CHR ''?'', CHR ''L'',
     CHR '':'', CHR ''P'', CHR ''_'', NUL,
     NUL, NUL, CHR 0x22, NUL,
     CHR ''{'', CHR ''+'', NUL, NUL,
     NUL, NUL, CHR 0x0A, CHR ''}'',
     NUL, CHR ''|'', NUL, NUL,
     NUL, NUL, NUL, NUL,
     NUL, NUL, CHR 0x7F, NUL,
     NUL, CHR ''1'', NUL, CHR ''4'',
     CHR ''7'', NUL, NUL, NUL,
     CHR ''0'', CHR ''.'', CHR ''2'', CHR ''5'',
     CHR ''6'', CHR ''8'', NUL, NUL,
     NUL, CHR ''+'', CHR ''3'', CHR ''-'',
     CHR ''*'', CHR ''9'', NUL, NUL]"

definition KEYBUF_SIZE :: nat where "KEYBUF_SIZE = 1024"
definition COMMAND_QUEUE_SIZE :: nat where "COMMAND_QUEUE_SIZE = 1024"

record kb =
  keydown :: "u8 \<Rightarrow> bool"
  kb_state :: nat
  kb_port :: nat
  keybuf :: string
  keybuf_end :: nat
  keybuf_start :: nat
  command_queue :: "u8 list"
  command_queue_end :: nat
  command_queue_start :: nat
  is_sending_command :: bool
  kb_irq1 :: bool
  kb_irq12 :: bool

definition ps2kb_send_command :: "u8 \<Rightarrow> kb \<Rightarrow> kb res" where
  "ps2kb_send_command byte k =
     (if (command_queue_end k + 1) mod COMMAND_QUEUE_SIZE = command_queue_start k then Inr k
      else
        rbind (aset ''command_queue'' (command_queue k) (command_queue_end k) byte) (\<lambda>q.
        Inr (k\<lparr>command_queue := q,
               command_queue_end := (command_queue_end k + 1) mod COMMAND_QUEUE_SIZE\<rparr>)))"

definition ps2kb_resend_command :: "kb \<Rightarrow> io \<Rightarrow> (kb \<times> io) res" where
  "ps2kb_resend_command k io =
     (if kb_port k = 1 then
        rbind (aget ''command_queue'' (command_queue k) (command_queue_start k)) (\<lambda>b.
        Inr (k\<lparr>is_sending_command := True\<rparr>, snd (ps2_send_data b io)))
      else if kb_port k = 2 then
        rbind (aget ''command_queue'' (command_queue k) (command_queue_start k)) (\<lambda>b.
        Inr (k\<lparr>is_sending_command := True\<rparr>, snd (ps2_send_data_port2 b io)))
      else Inr (k, io))"

definition ps2kb_succeed_command :: "kb \<Rightarrow> kb" where
  "ps2kb_succeed_command k =
     k\<lparr>command_queue_start := (command_queue_start k + 1) mod COMMAND_QUEUE_SIZE,
       is_sending_command := False\<rparr>"

text \<open>A key of the table goes into the ring buffer unless the table has no character for it.\<close>

definition put_key :: "string \<Rightarrow> u8 \<Rightarrow> kb \<Rightarrow> kb res" where
  "put_key table key k =
     rbind (aget ''scancode'' table (unat key)) (\<lambda>c.
     rbind (if c \<noteq> NUL then
              rbind (aset ''keybuf'' (keybuf k) (keybuf_end k) c) (\<lambda>b.
              Inr (k\<lparr>keybuf := b, keybuf_end := keybuf_end k + 1\<rparr>))
            else Inr k) (\<lambda>k.
     Inr (k\<lparr>keybuf_end := keybuf_end k mod KEYBUF_SIZE\<rparr>)))"

definition key_byte :: "u8 \<Rightarrow> kb \<Rightarrow> kb res" where
  "key_byte key k =
     (if kb_state k = 0 then
        if key = 0xF0 then Inr (k\<lparr>kb_state := 1\<rparr>)
        else if key = 0xE0 then Inr (k\<lparr>kb_state := 2\<rparr>)
        else
          let k = (if key = 0x58 then k\<lparr>keydown := (keydown k)(key := \<not> keydown k key)\<rparr>
                   else k\<lparr>keydown := (keydown k)(key := True)\<rparr>) in
          if keydown k 0x12 \<or> keydown k 0x59 \<or> keydown k 0x58 then put_key scancodeupper key k
          else put_key scancodelower key k
      else if kb_state k = 1 then
        Inr ((if key \<noteq> 0x58 then k\<lparr>keydown := (keydown k)(key := False)\<rparr> else k)\<lparr>kb_state := 0\<rparr>)
      else Inr (k\<lparr>kb_state := 0\<rparr>))"

definition ps2kb_handler :: "kb \<Rightarrow> io \<Rightarrow> (kb \<times> io) res" where
  "ps2kb_handler k io =
     (let (d, io) = ps2_recieve_data io; key = (of_int d :: u8) in
      if key = 0xFA then Inr (ps2kb_succeed_command k, io)
      else if key = 0xFE then ps2kb_resend_command k io
      else rbind (key_byte key k) (\<lambda>k. Inr (k, io)))"

text \<open>The characters read, at most \<open>n\<close>.\<close>

primrec ps2kb_read_chars :: "nat \<Rightarrow> kb \<Rightarrow> (string \<times> kb) res" where
  "ps2kb_read_chars 0 k = Inr ([], k)"
| "ps2kb_read_chars (Suc n) k =
     (if keybuf_start k \<noteq> keybuf_end k then
        rbind (aget ''keybuf'' (keybuf k) (keybuf_start k)) (\<lambda>c.
        rbind (ps2kb_read_chars n (k\<lparr>keybuf_start := (keybuf_start k + 1) mod KEYBUF_SIZE\<rparr>)) (\<lambda>(cs, k).
        Inr (c # cs, k)))
      else Inr ([], k))"

definition ps2kb_clear_keybuf :: "kb \<Rightarrow> kb" where
  "ps2kb_clear_keybuf k = k\<lparr>keybuf_end := 0, keybuf_start := 0\<rparr>"

definition ps2kb_loop :: "kb \<Rightarrow> io \<Rightarrow> (kb \<times> io) res" where
  "ps2kb_loop k io =
     (if command_queue_end k \<noteq> command_queue_start k \<and> \<not> is_sending_command k
      then ps2kb_resend_command k io else Inr (k, io))"

definition ps2kb_init :: "ps2 \<Rightarrow> kb \<Rightarrow> kb res" where
  "ps2kb_init p k =
     (let k = k\<lparr>kb_port := 0\<rparr>;
          k = (if port1_device p = PS2_DEVICE_KEYBOARD
               then k\<lparr>kb_irq1 := True, kb_port := or (kb_port k) 1\<rparr> else k);
          k = (if port2_device p = PS2_DEVICE_KEYBOARD
               then k\<lparr>kb_irq12 := True, kb_port := or (kb_port k) 2\<rparr> else k) in
      if kb_port k = 3 then
        Inr (k\<lparr>kb_irq1 := False, kb_irq12 := False, is_sending_command := True\<rparr>)
      else
        let k = k\<lparr>keybuf_end := 0, keybuf_start := 0, command_queue_end := 0, command_queue_start := 0,
              is_sending_command := False, keydown := (keydown k)(0x58 := False)\<rparr> in
        rbind (ps2kb_send_command 0xF0 k) (\<lambda>k.
        rbind (ps2kb_send_command 0x02 k) (\<lambda>k.
        rbind (ps2kb_send_command 0xED k) (\<lambda>k.
        ps2kb_send_command 0x00 k))))"

subsection \<open>The terminal\<close>

record console =
  con_vga :: vga
  con_kb :: kb
  con_io :: io

definition term_write :: "string \<Rightarrow> console \<Rightarrow> (u32 \<times> console) res" where
  "term_write str c =
     rbind (terminal_write str (con_vga c) (con_io c)) (\<lambda>(v, io).
     Inr (of_nat (length str), c\<lparr>con_vga := v, con_io := io\<rparr>))"

definition term_read :: "u32 \<Rightarrow> console \<Rightarrow> (string \<times> console) res" where
  "term_read sz c =
     rbind (ps2kb_read_chars (unat sz) (con_kb c)) (\<lambda>(cs, k). Inr (cs, c\<lparr>con_kb := k\<rparr>))"

definition term_clear :: "console \<Rightarrow> console res" where
  "term_clear c = rbind (terminal_clear (con_vga c)) (\<lambda>v. Inr (c\<lparr>con_vga := v\<rparr>))"

text \<open>
  \<open>term_readline\<close>. Each round suspends the thread until a keyboard interrupt; the list gives
  what the interrupts do meanwhile, round by round. \<open>None\<close> when the thread still waits after
  the last of them. The result is the length and the buffer.
\<close>

definition rub_out :: "string \<Rightarrow> nat \<Rightarrow> (string \<times> nat) res" where
  "rub_out buf n =
     rbind (aget ''buf'' buf (n - 1)) (\<lambda>c.
     if c = CHR 0x7F then
       rbind (aset ''buf'' buf (n - 1) NUL) (\<lambda>buf.
       if n - 1 \<noteq> 0 then rbind (aset ''buf'' buf (n - 2) NUL) (\<lambda>buf. Inr (buf, n - 2))
       else Inr (buf, n - 1))
     else Inr (buf, n))"

fun readline_loop ::
  "(console \<Rightarrow> console) list \<Rightarrow> string \<Rightarrow> nat \<Rightarrow> nat \<Rightarrow> console \<Rightarrow> (nat \<times> string \<times> console) option res" where
  "readline_loop [] buf sz n c = (if n < sz then Inr None else Inr (Some (n, buf, c)))"
| "readline_loop (f # fs) buf sz n c =
     (if \<not> n < sz then Inr (Some (n, buf, c))
      else
        rbind (term_read 1 (f c)) (\<lambda>(cs, c).
        case cs of [] \<Rightarrow> readline_loop fs buf sz n c
        | ch # _ \<Rightarrow>
            rbind (aset ''buf'' buf n ch) (\<lambda>buf.
            rbind (term_write [ch] c) (\<lambda>(_, c).
            rbind (rub_out buf (n + 1)) (\<lambda>(buf, n).
            if n = 0 then Inl (Fault ''buf[-1]'')
            else
              rbind (aget ''buf'' buf (n - 1)) (\<lambda>last_ch.
              if last_ch = CHR 0x0A then
                rbind (aset ''buf'' buf (n - 1) NUL) (\<lambda>buf. Inr (Some (n - 1, buf, c)))
              else readline_loop fs buf sz n c))))))"

definition term_readline ::
  "(console \<Rightarrow> console) list \<Rightarrow> string \<Rightarrow> nat \<Rightarrow> console \<Rightarrow> (nat \<times> string \<times> console) option res" where
  "term_readline fs buf sz c =
     readline_loop fs buf sz 0 (c\<lparr>con_kb := ps2kb_clear_keybuf (con_kb c)\<rparr>)"

subsection \<open>The ring buffer is a queue\<close>

text \<open>
  A source of characters: what is pending, and an operation that takes at most \<open>n\<close> of them.
\<close>

locale char_source =
  fixes read :: "nat \<Rightarrow> 's \<Rightarrow> (string \<times> 's) res"
    and pending :: "'s \<Rightarrow> string"
    and inv :: "'s \<Rightarrow> bool"
  assumes read_take: "inv s \<Longrightarrow>
    \<exists>s'. read n s = Inr (take n (pending s), s') \<and> inv s' \<and> pending s' = drop n (pending s)"
begin

lemma read_all:
  assumes "inv s" "length (pending s) \<le> n"
  shows "\<exists>s'. read n s = Inr (pending s, s') \<and> inv s' \<and> pending s' = []"
  using read_take [OF assms(1), of n] assms(2) by simp

lemma read_twice:
  assumes "inv s" "read m s = Inr (a, s1)" "read n s1 = Inr (b, s2)"
  shows "a @ b = take (m + n) (pending s) \<and> inv s2 \<and> pending s2 = drop (m + n) (pending s)"
proof -
  have 1: "a = take m (pending s) \<and> inv s1 \<and> pending s1 = drop m (pending s)"
    using read_take [OF assms(1), of m] assms(2) by auto
  moreover have "b = take n (pending s1) \<and> inv s2 \<and> pending s2 = drop n (pending s1)"
    using read_take [of s1 n] assms(3) 1 by auto
  ultimately show ?thesis by (simp add: take_add add.commute)
qed

end

definition kb_ok :: "kb \<Rightarrow> bool" where
  "kb_ok k \<longleftrightarrow> length (keybuf k) = 1024 \<and> keybuf_end k < 1024 \<and> keybuf_start k < 1024"

definition kb_queue :: "kb \<Rightarrow> string" where
  "kb_queue k =
     (if keybuf_start k \<le> keybuf_end k
      then take (keybuf_end k - keybuf_start k) (drop (keybuf_start k) (keybuf k))
      else drop (keybuf_start k) (keybuf k) @ take (keybuf_end k) (keybuf k))"

lemma kb_queue_length:
  "kb_ok k \<Longrightarrow> length (kb_queue k) =
     (if keybuf_start k \<le> keybuf_end k then keybuf_end k - keybuf_start k
      else 1024 - keybuf_start k + keybuf_end k)"
  by (auto simp: kb_ok_def kb_queue_def)

lemma kb_queue_get:
  assumes "kb_ok k" "keybuf_start k \<noteq> keybuf_end k"
  shows "kb_queue k = keybuf k ! keybuf_start k #
    kb_queue (k\<lparr>keybuf_start := (keybuf_start k + 1) mod KEYBUF_SIZE\<rparr>)"
proof -
  have d: "drop (keybuf_start k) (keybuf k) = keybuf k ! keybuf_start k # drop (Suc (keybuf_start k)) (keybuf k)"
    using assms(1) by (intro Cons_nth_drop_Suc [symmetric]) (simp add: kb_ok_def)
  consider "keybuf_start k < keybuf_end k" | "keybuf_end k < keybuf_start k" "keybuf_start k = 1023"
    | "keybuf_end k < keybuf_start k" "keybuf_start k < 1023"
    using assms by (auto simp: kb_ok_def) linarith
  then show ?thesis
  proof cases
    case 1
    then have "keybuf_end k - keybuf_start k = Suc (keybuf_end k - Suc (keybuf_start k))" by simp
    with 1 d assms(1) show ?thesis by (simp add: kb_queue_def KEYBUF_SIZE_def kb_ok_def)
  next
    case 2
    with d assms(1) show ?thesis by (simp add: kb_queue_def KEYBUF_SIZE_def kb_ok_def)
  next
    case 3
    with d show ?thesis by (simp add: kb_queue_def KEYBUF_SIZE_def)
  qed
qed

lemma kb_read_take:
  "kb_ok k \<Longrightarrow> \<exists>k'. ps2kb_read_chars n k = Inr (take n (kb_queue k), k') \<and> kb_ok k' \<and>
     kb_queue k' = drop n (kb_queue k)"
proof (induction n arbitrary: k)
  case (Suc n)
  show ?case
  proof (cases "keybuf_start k = keybuf_end k")
    case True
    then show ?thesis using Suc.prems by (simp add: kb_queue_def)
  next
    case False
    let ?k = "k\<lparr>keybuf_start := (keybuf_start k + 1) mod KEYBUF_SIZE\<rparr>"
    have "kb_ok ?k" using Suc.prems by (simp add: kb_ok_def KEYBUF_SIZE_def)
    from Suc.IH [OF this] kb_queue_get [OF Suc.prems False] False Suc.prems show ?thesis
      by (auto simp: kb_ok_def)
  qed
qed simp

interpretation kbd: char_source ps2kb_read_chars kb_queue kb_ok
  by unfold_locales (rule kb_read_take)

lemma kb_queue_put:
  fixes c :: char
  assumes "kb_ok k"
  defines "k' \<equiv> k\<lparr>keybuf := (keybuf k)[keybuf_end k := c], keybuf_end := (keybuf_end k + 1) mod KEYBUF_SIZE\<rparr>"
  shows "kb_ok k' \<and> kb_queue k' = (if length (kb_queue k) = 1023 then [] else kb_queue k @ [c])"
proof -
  have ok: "length (keybuf k) = 1024" "keybuf_end k < 1024" "keybuf_start k < 1024"
    using assms(1) by (simp_all add: kb_ok_def)
  have upd: "drop j ((keybuf k)[keybuf_end k := c]) = drop j (keybuf k)" if "keybuf_end k < j" for j
    using that by simp
  have last_take: "take (Suc (keybuf_end k)) ((keybuf k)[keybuf_end k := c]) = take (keybuf_end k) (keybuf k) @ [c]"
    using ok by (simp add: take_Suc_update)
  have td: "take (e - j) (drop j xs) = drop j (take e xs)" for e j and xs :: string
    by (simp add: drop_take)
  consider "keybuf_start k \<le> keybuf_end k" "keybuf_end k < 1023" | "keybuf_start k \<le> keybuf_end k" "keybuf_end k = 1023"
    | "keybuf_end k < keybuf_start k" using ok by linarith
  then show ?thesis
  proof cases
    case 1
    then have "drop (keybuf_start k) (take (Suc (keybuf_end k)) ((keybuf k)[keybuf_end k := c])) =
        drop (keybuf_start k) (take (keybuf_end k) (keybuf k)) @ [c]"
      using ok by (simp add: last_take)
    then show ?thesis
      using 1 ok by (auto simp: k'_def kb_ok_def kb_queue_def KEYBUF_SIZE_def td)
  next
    case 2
    have l: "take 1023 (keybuf k) @ [c] = (keybuf k)[1023 := c]" using last_take 2 ok by simp
    then have "drop (keybuf_start k) ((keybuf k)[1023 := c]) = drop (keybuf_start k) (take 1023 (keybuf k)) @ [c]"
      using ok 2 by (simp flip: l)
    then show ?thesis
      using 2 ok by (auto simp: k'_def kb_ok_def kb_queue_def KEYBUF_SIZE_def td)
  next
    case 3
    then show ?thesis using ok last_take
      by (auto simp: k'_def kb_ok_def kb_queue_def KEYBUF_SIZE_def)
  qed
qed

lemma put_key_queue:
  assumes "kb_ok k" "unat key < length table" "table ! unat key \<noteq> NUL"
  shows "\<exists>k'. put_key table key k = Inr k' \<and> kb_ok k' \<and> keydown k' = keydown k \<and> kb_state k' = kb_state k \<and>
    kb_queue k' = (if length (kb_queue k) = 1023 then [] else kb_queue k @ [table ! unat key])"
  using kb_queue_put [OF assms(1), of "table ! unat key"] assms
  by (simp add: put_key_def kb_ok_def)

subsection \<open>Typing\<close>

primrec key_bytes :: "u8 list \<Rightarrow> kb \<Rightarrow> kb res" where
  "key_bytes [] k = Inr k"
| "key_bytes (b # bs) k = rbind (key_byte b k) (\<lambda>k. key_bytes bs k)"

definition shifted :: "kb \<Rightarrow> bool" where
  "shifted k \<longleftrightarrow> keydown k 0x12 \<or> keydown k 0x59 \<or> keydown k 0x58"

definition plain_key :: "u8 \<Rightarrow> bool" where
  "plain_key key \<longleftrightarrow> unat key < 128 \<and> scancodelower ! unat key \<noteq> NUL"

lemma plain_key_distinct:
  assumes "plain_key key"
  shows "key \<noteq> 0xF0" "key \<noteq> 0xE0" "key \<noteq> 0x12" "key \<noteq> 0x59" "key \<noteq> 0x58"
  using assms by (auto simp: plain_key_def scancodelower_def)

lemma key_byte_plain:
  assumes "kb_ok k" "kb_state k = 0" "\<not> shifted k" "plain_key key"
  shows "\<exists>k'. key_byte key k = Inr k' \<and> kb_ok k' \<and> kb_state k' = 0 \<and> \<not> shifted k' \<and>
    kb_queue k' = (if length (kb_queue k) = 1023 then [] else kb_queue k @ [scancodelower ! unat key])"
proof -
  let ?k = "k\<lparr>keydown := (keydown k)(key := True)\<rparr>"
  have "\<not> shifted ?k" using assms(3) plain_key_distinct [OF assms(4)] by (simp add: shifted_def)
  moreover have "kb_ok ?k" "kb_queue ?k = kb_queue k" using assms(1) by (simp_all add: kb_ok_def kb_queue_def)
  moreover have "length scancodelower = 128" by (simp add: scancodelower_def)
  ultimately show ?thesis
    using put_key_queue [of ?k key scancodelower] plain_key_distinct [OF assms(4)] assms
    by (auto simp: key_byte_def shifted_def plain_key_def)
qed

text \<open>
  C38: what is typed is read back in order: pressing keys that have a character, with no shift,
  while the ring buffer has room, never faults, and reading then gives the characters that were
  pending followed by those of the keys, and leaves nothing.
\<close>

theorem keyboard_type_read:
  assumes "kb_ok k" "kb_state k = 0" "\<not> shifted k" "\<forall>b\<in>set bs. plain_key b"
    "length (kb_queue k) + length bs \<le> 1023"
  shows "\<exists>k1 k2. key_bytes bs k = Inr k1 \<and>
    ps2kb_read_chars 1024 k1 = Inr (kb_queue k @ map (\<lambda>b. scancodelower ! unat b) bs, k2) \<and> kb_queue k2 = []"
  using assms
proof (induction bs arbitrary: k)
  case Nil
  then show ?case using kbd.read_all [of k 1024] by auto
next
  case (Cons b bs)
  have "plain_key b" "length (kb_queue k) \<noteq> 1023" using Cons.prems by simp_all
  with key_byte_plain [of k b] Cons.prems obtain k' where
    "key_byte b k = Inr k'" "kb_ok k'" "kb_state k' = 0" "\<not> shifted k'"
    "kb_queue k' = kb_queue k @ [scancodelower ! unat b]" by auto
  with Cons.IH [of k'] Cons.prems show ?case by simp
qed

definition demo_kb :: kb where
  "demo_kb = \<lparr>keydown = (\<lambda>_. False), kb_state = 0, kb_port = 1, keybuf = replicate 1024 NUL,
     keybuf_end = 1023, keybuf_start = 1023, command_queue = replicate 1024 0, command_queue_end = 0,
     command_queue_start = 0, is_sending_command = False, kb_irq1 = True, kb_irq12 = False\<rparr>"

lemma demo_kb_ok: "kb_ok demo_kb" "kb_queue demo_kb = []" "kb_state demo_kb = 0" "\<not> shifted demo_kb"
  by (simp_all add: kb_ok_def kb_queue_def demo_kb_def shifted_def)

lemma keyboard_type_read_witness:
  "\<exists>k1 k2. key_bytes [0x33, 0x43] demo_kb = Inr k1 \<and> ps2kb_read_chars 1024 k1 = Inr (''hi'', k2) \<and>
     kb_queue k2 = []"
  using keyboard_type_read [of demo_kb "[0x33, 0x43]"]
  by (simp add: demo_kb_ok plain_key_def scancodelower_def)

text \<open>
  Two scan code sequences of an ordinary keyboard that the handler gets wrong: the F7 key
  (0x83) is looked up outside the table, and letting go of the up arrow (0xE0 0xF0 0x75) types
  the character 8, because the prefix 0xF0 after 0xE0 is dropped.
\<close>

theorem keyboard_bad_codes:
  assumes "kb_ok k" "kb_state k = 0" "\<not> shifted k" "length (kb_queue k) < 1023"
  shows "key_bytes [0x83] k = Inl (Fault ''scancode'') \<and>
    (\<exists>k'. key_bytes [0xE0, 0xF0, 0x75] k = Inr k' \<and> kb_queue k' = kb_queue k @ ''8'')"
proof
  have "\<not> shifted (k\<lparr>keydown := (keydown k)(0x83 := True)\<rparr>)" using assms(3) by (simp add: shifted_def)
  then show "key_bytes [0x83] k = Inl (Fault ''scancode'')"
    using assms(2) by (simp add: key_byte_def put_key_def aget_def Let_def scancodelower_def scancodeupper_def)
next
  let ?k = "k\<lparr>kb_state := 0\<rparr>"
  have "plain_key 0x75" "scancodelower ! 0x75 = CHR ''8''" by (simp_all add: plain_key_def scancodelower_def)
  moreover have "kb_ok ?k" "\<not> shifted ?k" "kb_queue ?k = kb_queue k" "kb_state ?k = 0"
    using assms by (simp_all add: kb_ok_def shifted_def kb_queue_def)
  ultimately obtain k' where "key_byte 0x75 ?k = Inr k'" "kb_queue k' = kb_queue k @ ''8''"
    using key_byte_plain [of ?k "0x75"] assms(4) by auto
  then show "\<exists>k'. key_bytes [0xE0, 0xF0, 0x75] k = Inr k' \<and> kb_queue k' = kb_queue k @ ''8''"
    using assms(2) by (simp add: key_byte_def)
qed

lemma keyboard_bad_codes_witness:
  "key_bytes [0x83] demo_kb = Inl (Fault ''scancode'') \<and>
    (\<exists>k'. key_bytes [0xE0, 0xF0, 0x75] demo_kb = Inr k' \<and> kb_queue k' = ''8'')"
  using keyboard_bad_codes [of demo_kb] by (simp add: demo_kb_ok)

text \<open>A key pressed when 1023 characters are pending makes the buffer look empty.\<close>

lemma keyboard_overrun:
  assumes "kb_ok k" "kb_state k = 0" "\<not> shifted k" "plain_key key" "length (kb_queue k) = 1023"
  shows "\<exists>k'. key_byte key k = Inr k' \<and> kb_queue k' = []"
  using key_byte_plain [OF assms(1-4)] assms(5) by auto

subsection \<open>Reading a line\<close>

definition console_ok :: "console \<Rightarrow> bool" where
  "console_ok c \<longleftrightarrow> kb_ok (con_kb c) \<and> screen_ok (con_vga c)"

text \<open>What the interrupts of one round do: the character \<open>ch\<close> is typed.\<close>

definition types_char :: "(console \<Rightarrow> console) \<Rightarrow> char \<Rightarrow> bool" where
  "types_char f ch \<longleftrightarrow> (\<forall>c. console_ok c \<longrightarrow> kb_queue (con_kb c) = [] \<longrightarrow>
     console_ok (f c) \<and> kb_queue (con_kb (f c)) = [ch])"

lemma screen_put_Some: "ch \<noteq> CHR 0x7F \<Longrightarrow> \<exists>s. screen_put color ch s0 = Some s"
  by (simp add: screen_put_def Let_def)

lemma term_write_char:
  assumes "console_ok c" "ch \<noteq> CHR 0x7F"
  shows "\<exists>c'. term_write [ch] c = Inr (1, c') \<and> console_ok c' \<and> con_kb c' = con_kb c"
proof -
  obtain s where "screen_put (t_color (con_vga c)) ch (screen_of (con_vga c)) = Some s"
    using screen_put_Some [OF assms(2)] by blast
  with putchar_screen_ex [of "con_vga c" ch s "con_io c"] assms(1) obtain v' io' where
    "terminal_putchar ch (con_vga c) (con_io c) = Inr (v', io')" "screen_ok v'"
    by (auto simp: console_ok_def)
  then show ?thesis using assms(1) by (simp add: term_write_def console_ok_def)
qed

lemma read_round:
  assumes "types_char f ch" "console_ok c" "kb_queue (con_kb c) = []"
  shows "\<exists>c'. term_read 1 (f c) = Inr ([ch], c') \<and> console_ok c' \<and> kb_queue (con_kb c') = []"
proof -
  have f: "console_ok (f c)" "kb_queue (con_kb (f c)) = [ch]" using assms by (simp_all add: types_char_def)
  then obtain k' where "ps2kb_read_chars 1 (con_kb (f c)) = Inr ([ch], k')" "kb_ok k'" "kb_queue k' = []"
    using kbd.read_all [of "con_kb (f c)" 1] by (auto simp: console_ok_def)
  then show ?thesis using f by (simp add: term_read_def console_ok_def)
qed

lemma readline_step:
  assumes "types_char f ch" "ch \<noteq> CHR 0x7F" "ch \<noteq> CHR 0x0A" "console_ok c" "kb_queue (con_kb c) = []"
    "n < sz" "sz \<le> length buf"
  shows "\<exists>c'. readline_loop (f # fs) buf sz n c = readline_loop fs (buf[n := ch]) sz (n + 1) c' \<and>
    console_ok c' \<and> kb_queue (con_kb c') = []"
proof -
  from read_round [OF assms(1,4,5)] obtain c1 where c1: "term_read 1 (f c) = Inr ([ch], c1)"
    "console_ok c1" "kb_queue (con_kb c1) = []" by blast
  from term_write_char [OF c1(2) assms(2)] obtain c2 where "term_write [ch] c1 = Inr (1, c2)"
    "console_ok c2" "con_kb c2 = con_kb c1" by blast
  with c1 assms(2,3,6,7) show ?thesis by (intro exI [of _ c2]) (simp add: rub_out_def)
qed

lemma readline_end:
  assumes "types_char f (CHR 0x0A)" "console_ok c" "kb_queue (con_kb c) = []" "n < sz" "sz \<le> length buf"
  shows "\<exists>c'. readline_loop (f # fs) buf sz n c = Inr (Some (n, buf[n := NUL], c'))"
proof -
  from read_round [OF assms(1-3)] obtain c1 where c1: "term_read 1 (f c) = Inr ([CHR 0x0A], c1)"
    "console_ok c1" by blast
  from term_write_char [OF c1(2), of "CHR 0x0A"] obtain c2 where "term_write [CHR 0x0A] c1 = Inr (1, c2)"
    by auto
  with c1 assms(4,5) show ?thesis by (simp add: rub_out_def)
qed

lemma readline_line:
  assumes "list_all2 types_char fs cs" "types_char f (CHR 0x0A)" "\<forall>ch\<in>set cs. ch \<noteq> CHR 0x7F \<and> ch \<noteq> CHR 0x0A"
    "console_ok c" "kb_queue (con_kb c) = []" "n + length cs < sz" "sz \<le> length buf"
  shows "\<exists>c'. readline_loop (fs @ [f]) buf sz n c =
    Inr (Some (n + length cs, take n buf @ cs @ NUL # drop (n + length cs + 1) buf, c'))"
  using assms
proof (induction fs cs arbitrary: buf n c rule: list_all2_induct)
  case Nil
  then have "buf[n := NUL] = take n buf @ NUL # drop (n + 1) buf"
    by (simp add: upd_conv_take_nth_drop)
  with readline_end [OF Nil.prems(1,3,4), of n sz buf "[]"] Nil.prems show ?case by simp
next
  case (Cons g fs ch cs)
  from readline_step [OF Cons.hyps(1), of c n sz buf "fs @ [f]"] Cons.prems obtain c' where
    c': "readline_loop (g # fs @ [f]) buf sz n c = readline_loop (fs @ [f]) (buf[n := ch]) sz (n + 1) c'"
    "console_ok c'" "kb_queue (con_kb c') = []" by auto
  moreover have "take (Suc n) (buf[n := ch]) = take n buf @ [ch]" using Cons.prems by (simp add: take_Suc_update)
  ultimately show ?case
    using Cons.IH [of c' "n + 1" "buf[n := ch]"] Cons.prems by simp
qed

text \<open>
  \<open>term_readline\<close> returns the line that was typed: from a terminal in good order, when the
  characters of a line without rubouts arrive one in each round, followed by the end of the
  line, and the line with its end fits, the call returns its length, and the buffer holds the
  line and a terminator.
\<close>

theorem term_readline_line:
  assumes "console_ok c" "list_all2 types_char fs cs" "types_char f (CHR 0x0A)"
    "\<forall>ch\<in>set cs. ch \<noteq> CHR 0x7F \<and> ch \<noteq> CHR 0x0A" "length cs < sz" "sz \<le> length buf"
  shows "\<exists>c'. term_readline (fs @ [f]) buf sz c =
    Inr (Some (length cs, cs @ NUL # drop (length cs + 1) buf, c'))"
proof -
  let ?c = "c\<lparr>con_kb := ps2kb_clear_keybuf (con_kb c)\<rparr>"
  have "console_ok ?c" "kb_queue (con_kb ?c) = []"
    using assms(1) by (simp_all add: console_ok_def kb_ok_def kb_queue_def ps2kb_clear_keybuf_def)
  from readline_line [OF assms(2-4) this, of 0 sz buf] assms(5,6) show ?thesis
    by (simp add: term_readline_def)
qed

definition press :: "u8 \<Rightarrow> console \<Rightarrow> console" where
  "press key c = (case key_byte key ((con_kb c)\<lparr>kb_state := 0, keydown := (\<lambda>_. False)\<rparr>) of
     Inl e \<Rightarrow> c | Inr k \<Rightarrow> c\<lparr>con_kb := k\<rparr>)"

lemma press_types: "plain_key key \<Longrightarrow> types_char (press key) (scancodelower ! unat key)"
proof (unfold types_char_def, intro allI impI)
  fix c assume a: "plain_key key" "console_ok c" "kb_queue (con_kb c) = []"
  let ?k = "(con_kb c)\<lparr>kb_state := 0, keydown := (\<lambda>_. False)\<rparr>"
  have "kb_queue ?k = kb_queue (con_kb c)" by (simp add: kb_queue_def)
  then have "kb_ok ?k" "\<not> shifted ?k" "kb_queue ?k = []"
    using a by (simp_all add: console_ok_def kb_ok_def shifted_def)
  with key_byte_plain [of ?k key] a(1) obtain k' where
    "key_byte key ?k = Inr k'" "kb_ok k'" "kb_queue k' = [scancodelower ! unat key]" by auto
  then show "console_ok (press key c) \<and> kb_queue (con_kb (press key c)) = [scancodelower ! unat key]"
    using a(2) by (simp add: press_def console_ok_def)
qed

definition demo_console :: console where
  "demo_console = \<lparr>con_vga = demo_vga, con_kb = demo_kb, con_io = demo_io\<rparr>"

lemma term_readline_line_witness:
  "\<exists>c'. term_readline [press 0x33, press 0x43, press 0x5A] (replicate 4 (CHR ''x'')) 4 demo_console =
     Inr (Some (2, ''hi'' @ NUL # ''x'', c'))"
proof -
  have k: "plain_key 0x33" "plain_key 0x43" "plain_key 0x5A" "scancodelower ! 0x33 = CHR ''h''"
    "scancodelower ! 0x43 = CHR ''i''" "scancodelower ! 0x5A = CHR 0x0A"
    by (simp_all add: plain_key_def scancodelower_def)
  have "list_all2 types_char [press 0x33, press 0x43] ''hi''" "types_char (press 0x5A) (CHR 0x0A)"
    using press_types [OF k(1)] press_types [OF k(2)] press_types [OF k(3)] k by simp_all
  moreover have "console_ok demo_console"
    using demo_kb_ok by (simp add: console_ok_def demo_console_def screen_ok_def demo_vga_def)
  ultimately show ?thesis
    using term_readline_line [of demo_console "[press 0x33, press 0x43]" "''hi''" "press 0x5A" 4 "replicate 4 (CHR ''x'')"]
    by (simp add: numeral_eq_Suc)
qed

text \<open>Rubbing out on an empty line makes \<open>term_readline\<close> read the byte before its buffer.\<close>

lemma term_readline_rubout:
  assumes "types_char f (CHR 0x7F)" "console_ok c" "0 < sz" "sz \<le> length buf"
    "0 < fst (screen_of (con_vga (f (c\<lparr>con_kb := ps2kb_clear_keybuf (con_kb c)\<rparr>))))"
  shows "term_readline (f # fs) buf sz c = Inl (Fault ''buf[-1]'')"
proof -
  let ?c = "c\<lparr>con_kb := ps2kb_clear_keybuf (con_kb c)\<rparr>"
  have ok: "console_ok ?c" "kb_queue (con_kb ?c) = []"
    using assms(2) by (simp_all add: console_ok_def kb_ok_def kb_queue_def ps2kb_clear_keybuf_def)
  have f: "console_ok (f ?c)" "kb_queue (con_kb (f ?c)) = [CHR 0x7F]"
    using assms(1) ok by (simp_all add: types_char_def)
  then obtain k' where k': "ps2kb_read_chars 1 (con_kb (f ?c)) = Inr ([CHR 0x7F], k')"
    using kbd.read_all [of "con_kb (f ?c)" 1] by (auto simp: console_ok_def)
  obtain s where "screen_put (t_color (con_vga (f ?c))) (CHR 0x7F) (screen_of (con_vga (f ?c))) = Some s"
    using assms(5) by (simp add: screen_put_def Let_def)
  with putchar_screen_ex [of "con_vga (f ?c)" "CHR 0x7F" s "con_io (f ?c)"] f(1) obtain v' io' where
    "terminal_putchar (CHR 0x7F) (con_vga (f ?c)) (con_io (f ?c)) = Inr (v', io')"
    by (auto simp: console_ok_def)
  moreover have "buf \<noteq> []" using assms(3,4) by auto
  ultimately show ?thesis using k' assms(3)
    by (simp add: term_readline_def term_read_def term_write_def rub_out_def)
qed
end
