(* ===== verification/Printf.thy ===== *)
theory Printf
  imports CStdlib Console
begin

section \<open>Formatted output\<close>

text \<open>
  \<open>libc/stdio/printf.c\<close>, \<open>putchar.c\<close> and \<open>puts.c\<close>. \<open>printf\<close> and \<open>sprintf\<close> are two copies of one loop
  that differ in where the text goes; \<open>format_loop\<close> is that loop over the function the copy calls
  (\<open>print\<close> or \<open>sprint\<close>). Pointers are the objects behind them: the format and the strings end
  with their terminator. The count of characters is kept as the 32 bits of the \<open>int\<close>.
\<close>

datatype arg = ArgInt int | ArgStr string

text \<open>\<open>va_arg\<close>: asking for what was not passed is undefined.\<close>

definition va_int :: "arg list \<Rightarrow> (int \<times> arg list) res" where
  "va_int args = (case args of ArgInt i # args \<Rightarrow> Inr (i, args) | _ \<Rightarrow> Inl (Fault ''va_arg''))"

definition va_str :: "arg list \<Rightarrow> (string \<times> arg list) res" where
  "va_str args = (case args of ArgStr s # args \<Rightarrow> Inr (s, args) | _ \<Rightarrow> Inl (Fault ''va_arg''))"

text \<open>The characters before the terminator and before the next conversion.\<close>

fun literal_run :: "string \<Rightarrow> nat res" where
  "literal_run [] = Inl (Fault ''format'')"
| "literal_run (c # s) = (if c = NUL \<or> c = CHR ''%'' then Inr 0 else rbind (literal_run s) (\<lambda>n. Inr (Suc n)))"

definition maxrem :: "u32 \<Rightarrow> u32" where "maxrem written = 0x7FFFFFFF - written"

type_synonym 's sink = "string \<Rightarrow> nat \<Rightarrow> u32 \<Rightarrow> 's \<Rightarrow> (bool \<times> 's) res"

text \<open>
  A piece of \<open>len\<close> bytes of \<open>data\<close>: \<open>None\<close> is the return of \<open>-1\<close>. \<open>checked\<close> is the
  comparison with \<open>maxrem\<close>, which the two number conversions do without.
\<close>

definition emit_piece :: "'s sink \<Rightarrow> bool \<Rightarrow> string \<Rightarrow> nat \<Rightarrow> u32 \<Rightarrow> 's \<Rightarrow> (u32 option \<times> 's) res" where
  "emit_piece emit checked data len written s =
     (if checked \<and> maxrem written < of_nat len then Inr (None, s)
      else
        rbind (emit data len written s) (\<lambda>(ok, s).
        Inr (if ok then Some (written + of_nat len) else None, s)))"

text \<open>
  One conversion, the format behind the percent sign being \<open>fmt\<close>. \<open>stk\<close> are the bytes behind
  the local variable \<open>c\<close>, of which \<open>sprint\<close> takes the length.
\<close>

definition convert ::
  "'s sink \<Rightarrow> string \<Rightarrow> string \<Rightarrow> arg list \<Rightarrow> string \<Rightarrow> u32 \<Rightarrow> 's \<Rightarrow> (string \<times> arg list \<times> string \<times> u32 option \<times> 's) res" where
  "convert emit stk fmt args buf written s =
     rbind (aget ''format'' fmt 0) (\<lambda>f.
     if f = CHR ''c'' then
       rbind (va_int args) (\<lambda>(i, args).
       rbind (emit_piece emit True (char_of (nat (i mod 256)) # stk) 1 written s) (\<lambda>(w, s).
       Inr (drop 1 fmt, args, buf, w, s)))
     else if f = CHR ''s'' then
       rbind (va_str args) (\<lambda>(str, args).
       rbind (strlen str) (\<lambda>len.
       rbind (emit_piece emit True str len written s) (\<lambda>(w, s).
       Inr (drop 1 fmt, args, buf, w, s))))
     else if f = CHR ''i'' \<or> f = CHR ''x'' then
       rbind (va_int args) (\<lambda>(i, args).
       rbind (itoa i buf (if f = CHR ''i'' then 10 else 16)) (\<lambda>buf.
       rbind (strlen buf) (\<lambda>len.
       rbind (emit_piece emit False buf len written s) (\<lambda>(w, s).
       Inr (drop 1 fmt, args, buf, w, s)))))
     else
       rbind (strlen (CHR ''%'' # fmt)) (\<lambda>len.
       rbind (emit_piece emit True (CHR ''%'' # fmt) len written s) (\<lambda>(w, s).
       Inr (drop (len - 1) fmt, args, buf, w, s))))"

definition literal :: "'s sink \<Rightarrow> string \<Rightarrow> u32 \<Rightarrow> 's \<Rightarrow> (string \<times> u32 option \<times> 's) res" where
  "literal emit fmt written s =
     rbind (literal_run (drop 1 fmt)) (\<lambda>n.
     rbind (emit_piece emit True fmt (1 + n) written s) (\<lambda>(w, s).
     Inr (drop (1 + n) fmt, w, s)))"

text \<open>Every round moves on in the format, so its length bounds the rounds.\<close>

function format_loop ::
  "'s sink \<Rightarrow> string \<Rightarrow> string \<Rightarrow> arg list \<Rightarrow> string \<Rightarrow> u32 \<Rightarrow> 's \<Rightarrow> (u32 option \<times> 's) res" where
  "format_loop emit stk fmt args buf written s =
     (case aget ''format'' fmt 0 of Inl e \<Rightarrow> Inl e | Inr c \<Rightarrow>
      if c = NUL then Inr (Some written, s)
      else
        case (if c \<noteq> CHR ''%'' then Inr True else rbind (aget ''format'' fmt 1) (\<lambda>d. Inr (d = CHR ''%''))) of
          Inl e \<Rightarrow> Inl e
        | Inr lit \<Rightarrow>
            case (if lit
                  then rbind (literal emit (if c = CHR ''%'' then drop 1 fmt else fmt) written s) (\<lambda>(fmt, w, s). Inr (fmt, args, buf, w, s))
                  else convert emit stk (drop 1 fmt) args buf written s) of
              Inl e \<Rightarrow> Inl e
            | Inr (fmt', args, buf, w, s) \<Rightarrow>
                (case w of None \<Rightarrow> Inr (None, s) | Some written \<Rightarrow> format_loop emit stk fmt' args buf written s))"
  by pat_completeness auto
termination
  by (relation "measure (\<lambda>(emit, stk, fmt, args, buf, written, s). length fmt)")
    (auto simp: literal_def convert_def rbind_eq_Inr aget_Inr split: if_splits prod.splits)

declare format_loop.simps [simp del]

subsection \<open>Where the text goes\<close>

definition EOF :: int where "EOF = -1"

text \<open>\<open>putchar\<close> and \<open>print\<close> of the kernel's copy of the library write to the terminal.\<close>

definition putchar :: "int \<Rightarrow> console \<Rightarrow> (int \<times> console) res" where
  "putchar ic c = rbind (term_write [char_of (nat (ic mod 256))] c) (\<lambda>(_, c). Inr (ic, c))"

primrec print_loop :: "string \<Rightarrow> nat \<Rightarrow> nat \<Rightarrow> console \<Rightarrow> (bool \<times> console) res" where
  "print_loop data i 0 c = Inr (True, c)"
| "print_loop data i (Suc n) c =
     rbind (aget ''print'' data i) (\<lambda>b.
     rbind (putchar (of_char b) c) (\<lambda>(r, c).
     if r = EOF then Inr (False, c) else print_loop data (i + 1) n c))"

definition print_k :: "console sink" where
  "print_k data len written c = print_loop data 0 len c"

text \<open>\<open>print\<close> of a program calls \<open>write\<close>, the parameter.\<close>

definition print_u :: "(int \<Rightarrow> string \<Rightarrow> 's \<Rightarrow> int \<times> 's) \<Rightarrow> 's sink" where
  "print_u wr data len written s =
     (if length data < len then Inl (Fault ''print'')
      else let (r, s) = wr 1 (take len data) s in Inr (r \<noteq> -1, s))"

definition sprint :: "string sink" where
  "sprint data len index str =
     (if unat index > length str then Inl (Fault ''sprint'')
      else rbind (strncpy (drop (unat index) str) data len) (\<lambda>t. Inr (True, take (unat index) str @ t)))"

text \<open>\<open>buf\<close> is what the stack holds at the eleven bytes that the conversions use.\<close>

definition printf_with :: "'s sink \<Rightarrow> string \<Rightarrow> string \<Rightarrow> arg list \<Rightarrow> 's \<Rightarrow> (int \<times> 's) res" where
  "printf_with pr buf fmt args s =
     rbind (format_loop pr [] fmt args buf 0 s) (\<lambda>(w, s).
     Inr (case w of None \<Rightarrow> -1 | Some written \<Rightarrow> sint written, s))"

definition printf :: "string \<Rightarrow> string \<Rightarrow> arg list \<Rightarrow> console \<Rightarrow> (int \<times> console) res" where
  "printf = printf_with print_k"

definition sprintf :: "string \<Rightarrow> string \<Rightarrow> string \<Rightarrow> string \<Rightarrow> arg list \<Rightarrow> (int \<times> string) res" where
  "sprintf buf stk str fmt args =
     rbind (format_loop sprint stk fmt args buf 0 str) (\<lambda>(w, str).
     case w of None \<Rightarrow> Inr (-1, str)
     | Some written \<Rightarrow> rbind (aset ''sprintf'' str (unat written) NUL) (\<lambda>str. Inr (sint written, str)))"

definition puts :: "string \<Rightarrow> string \<Rightarrow> console \<Rightarrow> (int \<times> console) res" where
  "puts buf str c = printf buf (''%s'' @ [CHR 0x0A, NUL]) [ArgStr str] c"

subsection \<open>The text a format stands for\<close>

definition hex :: "int \<Rightarrow> string" where
  "hex i = text_of 16 (unat (word_of_int i :: u32))"

text \<open>
  The text, \<open>None\<close> when the arguments are not what the library can handle: one is missing or
  of the wrong kind, a string without an end, a decimal number with more than ten characters.
  After a percent sign that starts no conversion the rest of the format is copied.
\<close>

fun render :: "string \<Rightarrow> arg list \<Rightarrow> string option" where
  "render [] args = Some []"
| "render (c # fmt) args =
     (if c \<noteq> CHR ''%'' then map_option (Cons c) (render fmt args)
      else case fmt of
        [] \<Rightarrow> Some ''%''
      | f # fmt' \<Rightarrow>
          if f = CHR ''%'' then map_option (Cons f) (render fmt' args)
          else if f = CHR ''c'' then
            (case args of ArgInt i # args \<Rightarrow> map_option (Cons (char_of (nat (i mod 256)))) (render fmt' args) | _ \<Rightarrow> None)
          else if f = CHR ''s'' then
            (case args of ArgStr s # args \<Rightarrow>
               if terminated s then map_option ((@) (cstr s)) (render fmt' args) else None
             | _ \<Rightarrow> None)
          else if f = CHR ''i'' then
            (case args of ArgInt i # args \<Rightarrow>
               if -1000000000 < i \<and> i \<le> INT_MAX then map_option ((@) (dec i)) (render fmt' args) else None
             | _ \<Rightarrow> None)
          else if f = CHR ''x'' then
            (case args of ArgInt i # args \<Rightarrow>
               if INT_MIN \<le> i \<and> i \<le> INT_MAX then map_option ((@) (hex i)) (render fmt' args) else None
             | _ \<Rightarrow> None)
          else Some (c # fmt))"

declare render.simps(2) [simp del]

lemma render_literal: "c \<noteq> CHR ''%'' \<Longrightarrow> render (c # fmt) args = map_option (Cons c) (render fmt args)"
  by (simp add: render.simps)

lemma render_run:
  "CHR ''%'' \<notin> set xs \<Longrightarrow> render (xs @ fmt) args = map_option ((@) xs) (render fmt args)"
  by (cases "render fmt args"; induction xs) (auto simp: render_literal)

lemma literal_run_ok:
  "NUL \<notin> set fmt \<Longrightarrow> literal_run (fmt @ NUL # rest) = Inr (length (takeWhile (\<lambda>c. c \<noteq> CHR ''%'') fmt))"
  by (induction fmt) auto

lemma maxrem_ok: "i + n \<le> 0x7FFFFFFF \<Longrightarrow> \<not> maxrem (of_nat i) < of_nat n"
proof -
  assume le: "i + n \<le> 0x7FFFFFFF"
  then have "maxrem (of_nat i) = of_nat (0x7FFFFFFF - i)" by (simp add: maxrem_def of_nat_diff)
  moreover have "unat (of_nat (0x7FFFFFFF - i) :: u32) = 0x7FFFFFFF - i" "unat (of_nat n :: u32) = n"
    by (rule unat_small, use le in simp)+
  ultimately show ?thesis using le by (simp only: word_less_nat_alt not_less)
qed

lemma cstr_stop: "NUL \<notin> set xs \<Longrightarrow> cstr (xs @ NUL # ys) = xs" "terminated (xs @ NUL # ys)"
  by (induction xs) auto

lemma text_of_NUL: "2 \<le> base \<Longrightarrow> base \<le> 36 \<Longrightarrow> NUL \<notin> set (text_of base n)"
proof -
  assume b: "2 \<le> base" "base \<le> 36"
  have "NUL \<noteq> digit d" if "d \<in> set (digits_of base n)" for d
    using digits_of_less [OF b(1) that] b(2) digit_NUL [of d] by simp
  then show ?thesis by (auto simp: text_of_def)
qed

lemma dec_NUL: "NUL \<notin> set (dec i)"
  by (simp add: dec_def text_of_NUL)

lemma text_of_length: "2 \<le> base \<Longrightarrow> n < base ^ k \<Longrightarrow> 0 < k \<Longrightarrow> length (text_of base n) \<le> k"
  using digits_of_bound [of base n k] by (auto simp: text_of_def)

lemma dec_length:
  assumes "-1000000000 < i" "i \<le> INT_MAX"
  shows "length (dec i) \<le> 10"
proof (cases "i < 0")
  case True
  then have "nat (- i) < 10 ^ 9" using assms by simp
  then have "length (text_of 10 (nat (- i))) \<le> 9" by (intro text_of_length) simp_all
  then show ?thesis using True by (simp add: dec_def)
next
  case False
  then have "nat i < 10 ^ 10" using assms by (simp add: INT_MAX_def)
  then show ?thesis using False text_of_length [of 10 "nat i" 10] by (simp add: dec_def)
qed

lemma itoa_hex_text:
  assumes "INT_MIN \<le> i" "i \<le> INT_MAX" "length buf = 11"
  shows "\<exists>r. itoa i buf 16 = Inr (hex i @ NUL # r) \<and> length (hex i @ NUL # r) = 11"
proof (cases "i = 0")
  case True
  obtain a b r where "buf = a # b # r" using assms(3) by (cases buf rule: remdups_adj.cases) auto
  then show ?thesis using True assms(3) by (simp add: itoa_def hex_def text_of_def)
next
  case False
  let ?n = "unat (word_of_int i :: u32)"
  have "(word_of_int i :: u32) \<noteq> 0"
  proof
    assume "(word_of_int i :: u32) = 0"
    then have "4294967296 dvd i" by (simp add: word_of_int_eq_0_iff)
    then show False using dvd_imp_le_int [OF False, of 4294967296] assms(1,2) by (simp add: INT_MIN_def INT_MAX_def)
  qed
  moreover have "?n < 16 ^ 8" using unat_u32_less [of "word_of_int i"] by simp
  then have l: "length (digits_of 16 ?n) \<le> 8" by (intro digits_of_bound) simp_all
  ultimately show ?thesis
    using itoa_hex [OF False, of buf] assms(3) by (auto simp: hex_def text_of_def unat_eq_0)
qed

lemma itoa_dec_text:
  assumes "-1000000000 < i" "i \<le> INT_MAX" "length buf = 11"
  shows "\<exists>r. itoa i buf 10 = Inr (dec i @ NUL # r) \<and> length (dec i @ NUL # r) = 11"
  using itoa_dec [of i buf] dec_length [OF assms(1,2)] assms by (simp add: INT_MIN_def)

subsection \<open>The loop writes the text\<close>

text \<open>
  What the loop needs of the function it calls: \<open>put i xs\<close> is the effect of the text \<open>xs\<close> at
  position \<open>i\<close>; a piece of a string and a character are put there.
\<close>

locale text_sink =
  fixes emit :: "'s sink" and put :: "nat \<Rightarrow> string \<Rightarrow> 's \<Rightarrow> 's res" and stk :: string
  assumes put_append: "put i (xs @ ys) s = rbind (put i xs s) (put (i + length xs) ys)"
    and put_nil: "put i [] s = Inr s' \<Longrightarrow> s' = s"
    and emit_string: "\<lbrakk>terminated data; n \<le> length (cstr data); i < 2 ^ 31; put i (take n data) s = Inr s'\<rbrakk> \<Longrightarrow>
      emit data n (of_nat i) s = Inr (True, s')"
    and emit_char: "\<lbrakk>i < 2 ^ 31; put i [c] s = Inr s'\<rbrakk> \<Longrightarrow> emit (c # stk) 1 (of_nat i) s = Inr (True, s')"
begin

lemma piece_string:
  assumes "terminated data" "n \<le> length (cstr data)" "i + n \<le> 0x7FFFFFFF" "put i (take n data) s = Inr s'"
  shows "emit_piece emit ch data n (of_nat i) s = Inr (Some (of_nat (i + n)), s')"
proof -
  have "i < 2 ^ 31" using assms(3) by simp
  then show ?thesis using emit_string [OF assms(1,2) _ assms(4)] maxrem_ok [OF assms(3)] by (simp add: emit_piece_def)
qed

lemma piece_char:
  assumes "i + 1 \<le> 0x7FFFFFFF" "put i [c] s = Inr s'"
  shows "emit_piece emit ch (c # stk) 1 (of_nat i) s = Inr (Some (of_nat (i + 1)), s')"
proof -
  have "i < 2 ^ 31" using assms(1) by simp
  then show ?thesis using emit_char [OF _ assms(2)] maxrem_ok [OF assms(1)] by (simp add: emit_piece_def)
qed

lemma literal_ok:
  assumes "NUL \<notin> set (c # fmt)" "x = c # takeWhile (\<lambda>c. c \<noteq> CHR ''%'') fmt" "i + length x \<le> 0x7FFFFFFF" "put i x s = Inr s'"
  shows "literal emit (c # fmt @ NUL # rest) (of_nat i) s =
    Inr (dropWhile (\<lambda>c. c \<noteq> CHR ''%'') fmt @ NUL # rest, Some (of_nat (i + length x)), s')"
proof -
  let ?n = "length (takeWhile (\<lambda>c. c \<noteq> CHR ''%'') fmt)"
  have le: "?n \<le> length fmt" by (rule length_takeWhile_le)
  have "terminated (c # fmt @ NUL # rest)" "cstr (c # fmt @ NUL # rest) = c # fmt"
    using cstr_stop [of "c # fmt" rest] assms(1) by auto
  then have "emit_piece emit True (c # fmt @ NUL # rest) (1 + ?n) (of_nat i) s = Inr (Some (of_nat (i + (1 + ?n))), s')"
    using assms le by (intro piece_string) (simp_all add: takeWhile_eq_take [symmetric])
  then show ?thesis
    using assms literal_run_ok [of fmt rest] le by (simp add: literal_def dropWhile_eq_drop)
qed

definition converted :: "string \<Rightarrow> string \<Rightarrow> nat \<Rightarrow> 's \<Rightarrow> string \<Rightarrow> 's \<Rightarrow> (string \<times> arg list \<times> string \<times> u32 option \<times> 's) res \<Rightarrow> bool" where
  "converted fmt rest i s out s' r \<longleftrightarrow> (\<exists>x out' fmt' args' buf' s1.
     r = Inr (fmt' @ NUL # rest, args', buf', Some (of_nat (i + length x)), s1) \<and> out = x @ out' \<and>
     render fmt' args' = Some out' \<and> length fmt' \<le> length fmt \<and> NUL \<notin> set fmt' \<and> length buf' = 11 \<and>
     put i x s = Inr s1 \<and> put (i + length x) out' s1 = Inr s')"

lemma convertedI:
  assumes "emit_piece emit ch data (length x) (of_nat i) s = Inr (Some (of_nat (i + length x)), s1) \<Longrightarrow>
      r = Inr (fmt' @ NUL # rest, args', buf', Some (of_nat (i + length x)), s1)"
    and "render fmt' args' = Some out'" "length fmt' \<le> length fmt" "NUL \<notin> set fmt'" "length buf' = 11" "out = x @ out'"
    and "put i out s = Inr s'" "put i x s = Inr s1" "i + length out \<le> 0x7FFFFFFF"
    and "(terminated data \<and> length x \<le> length (cstr data) \<and> take (length x) data = x) \<or> (\<exists>c. data = c # stk \<and> x = [c])"
  shows "converted fmt rest i s out s' r"
proof -
  have le: "i + length x \<le> 0x7FFFFFFF" using assms(6,9) by simp
  have "emit_piece emit ch data (length x) (of_nat i) s = Inr (Some (of_nat (i + length x)), s1)"
    using assms(10) piece_string [OF _ _ le] piece_char assms(8) le by auto
  moreover have "put (i + length x) out' s1 = Inr s'"
    using assms(6,7,8) by (simp add: put_append)
  ultimately show ?thesis unfolding converted_def using assms by blast
qed

lemma put_prefix: "put i (x @ out') s = Inr s' \<Longrightarrow> \<exists>s1. put i x s = Inr s1"
  by (auto simp: put_append rbind_eq_Inr)

lemma convert_ok:
  assumes rd: "render (CHR ''%'' # f # fmt) args = Some out" and f: "f \<noteq> CHR ''%''" and nul: "NUL \<notin> set (f # fmt)"
    and buf: "length buf = 11" and le: "i + length out \<le> 0x7FFFFFFF" and p: "put i out s = Inr s'"
  shows "converted (f # fmt) rest i s out s' (convert emit stk (f # fmt @ NUL # rest) args buf (of_nat i) s)"
proof -
  consider (c) "f = CHR ''c''" | (s) "f = CHR ''s''" | (i) "f = CHR ''i''" | (x) "f = CHR ''x''"
    | (other) "f \<noteq> CHR ''c''" "f \<noteq> CHR ''s''" "f \<noteq> CHR ''i''" "f \<noteq> CHR ''x''" by blast
  then show ?thesis
  proof cases
    case c
    then obtain n args' out' where a: "args = ArgInt n # args'" "render fmt args' = Some out'" "out = [char_of (nat (n mod 256))] @ out'"
      using rd by (auto simp: render.simps split: list.splits arg.splits)
    obtain s1 where s1: "put i [char_of (nat (n mod 256))] s = Inr s1" using put_prefix p a(3) by blast
    show ?thesis
      by (rule convertedI [where data = "char_of (nat (n mod 256)) # stk" and ch = True, OF _ a(2) _ _ buf a(3) p s1 le])
        (use c nul a in \<open>simp_all add: convert_def va_int_def\<close>)
  next
    case s
    then obtain t args' out' where a: "args = ArgStr t # args'" "render fmt args' = Some out'" "out = cstr t @ out'" "terminated t"
      using rd by (auto simp: render.simps split: list.splits arg.splits if_splits)
    obtain s1 where s1: "put i (cstr t) s = Inr s1" using put_prefix p a(3) by blast
    show ?thesis
      by (rule convertedI [where data = t and ch = True, OF _ a(2) _ _ buf a(3) p s1 le])
        (use s nul a in \<open>simp_all add: convert_def va_str_def strlen_cstr terminated_take\<close>)
  next
    case i
    then obtain n args' out' where a: "args = ArgInt n # args'" "render fmt args' = Some out'" "out = dec n @ out'"
      "-1000000000 < n" "n \<le> INT_MAX"
      using rd by (auto simp: render.simps split: list.splits arg.splits if_splits)
    obtain r where r: "itoa n buf 10 = Inr (dec n @ NUL # r)" "length (dec n @ NUL # r) = 11"
      using itoa_dec_text [OF a(4,5) buf] by blast
    obtain s1 where s1: "put i (dec n) s = Inr s1" using put_prefix p a(3) by blast
    note d = cstr_stop(1) [OF dec_NUL, of n r] cstr_stop(2) [of "dec n" r]
    show ?thesis
      by (rule convertedI [where data = "dec n @ NUL # r" and ch = False, OF _ a(2) _ _ r(2) a(3) p s1 le])
        (use i nul a r d in \<open>simp_all add: convert_def va_int_def strlen_cstr\<close>)
  next
    case x
    then obtain n args' out' where a: "args = ArgInt n # args'" "render fmt args' = Some out'" "out = hex n @ out'"
      "INT_MIN \<le> n" "n \<le> INT_MAX"
      using rd by (auto simp: render.simps split: list.splits arg.splits if_splits)
    obtain r where r: "itoa n buf 16 = Inr (hex n @ NUL # r)" "length (hex n @ NUL # r) = 11"
      using itoa_hex_text [OF a(4,5) buf] by blast
    obtain s1 where s1: "put i (hex n) s = Inr s1" using put_prefix p a(3) by blast
    have "NUL \<notin> set (hex n)" by (simp add: hex_def text_of_NUL)
    note d = cstr_stop(1) [OF this, of r] cstr_stop(2) [of "hex n" r]
    show ?thesis
      by (rule convertedI [where data = "hex n @ NUL # r" and ch = False, OF _ a(2) _ _ r(2) a(3) p s1 le])
        (use x nul a r d in \<open>simp_all add: convert_def va_int_def strlen_cstr\<close>)
  next
    case other
    have fn: "f \<noteq> NUL" using nul by auto
    from other have out: "out = (CHR ''%'' # f # fmt) @ []" using rd f by (auto simp: render.simps)
    obtain s1 where s1: "put i (CHR ''%'' # f # fmt) s = Inr s1" using put_prefix p out by blast
    have "NUL \<notin> set (CHR ''%'' # f # fmt)" using nul by simp
    note d = cstr_stop(1) [OF this, of rest] cstr_stop(2) [of "CHR ''%'' # f # fmt" rest]
    show ?thesis
      by (rule convertedI [where data = "CHR ''%'' # f # fmt @ NUL # rest" and ch = True and fmt' = "[]" and args' = args, OF _ _ _ _ buf out p s1 le])
        (use other fn nul d in \<open>simp_all add: convert_def strlen_cstr\<close>)
  qed
qed

lemma loop_ok:
  "\<lbrakk>render fmt args = Some out; NUL \<notin> set fmt; length buf = 11; i + length out \<le> 0x7FFFFFFF; put i out s = Inr s'\<rbrakk> \<Longrightarrow>
   format_loop emit stk (fmt @ NUL # rest) args buf (of_nat i) s = Inr (Some (of_nat (i + length out)), s')"
proof (induction "length fmt" arbitrary: fmt args out buf i s rule: less_induct)
  case less
  note step = format_loop.simps [of emit stk "fmt @ NUL # rest" args buf "of_nat i" s]
  have lit: "format_loop emit stk (fmt @ NUL # rest) args buf (of_nat i) s = Inr (Some (of_nat (i + length out)), s')"
    if start: "fmt = c # f \<and> c \<noteq> CHR ''%'' \<or> fmt = CHR ''%'' # c # f \<and> c = CHR ''%''"
      and rd: "map_option (Cons c) (render f args) = Some out" for c f
  proof -
    let ?t = "takeWhile (\<lambda>c. c \<noteq> CHR ''%'') f" and ?d = "dropWhile (\<lambda>c. c \<noteq> CHR ''%'') f"
    have nf: "NUL \<notin> set (c # f)" "length f < length fmt" using start less.prems(2) by auto
    have "CHR ''%'' \<notin> set ?t" by (auto dest: set_takeWhileD)
    then obtain out' where o: "render ?d args = Some out'" "out = (c # ?t) @ out'"
      using rd render_run [of ?t ?d args] by auto
    obtain s1 where s1: "put i (c # ?t) s = Inr s1" using put_prefix less.prems(5) o(2) by blast
    have le: "i + length (c # ?t) \<le> 0x7FFFFFFF" "i + length (c # ?t) + length out' \<le> 0x7FFFFFFF"
      using less.prems(4) o(2) by simp_all
    have nd: "NUL \<notin> set ?d" using nf(1) by (auto dest: set_dropWhileD)
    have "length ?d < length fmt" using nf(2) length_dropWhile_le [of _ f] by (rule le_less_trans [rotated])
    moreover have "put (i + length (c # ?t)) out' s1 = Inr s'" using less.prems(5) o(2) s1 by (simp add: put_append [of i "c # ?t" out', simplified])
    ultimately have ih: "format_loop emit stk (?d @ NUL # rest) args buf (of_nat (i + length (c # ?t))) s1 =
        Inr (Some (of_nat (i + length (c # ?t) + length out')), s')"
      by (intro less.hyps o(1) nd less.prems(3) le(2))
    have "literal emit (c # f @ NUL # rest) (of_nat i) s = Inr (?d @ NUL # rest, Some (of_nat (i + length (c # ?t))), s1)"
      by (rule literal_ok [OF nf(1) refl le(1) s1])
    then show ?thesis
      using start nf(1) ih o(2) by (subst step) (auto simp: add.assoc)
  qed
  have conv: "format_loop emit stk (fmt @ NUL # rest) args buf (of_nat i) s = Inr (Some (of_nat (i + length out)), s')"
    if start: "fmt = CHR ''%'' # F" "F = [] \<or> hd F \<noteq> CHR ''%''"
      and cv: "converted F rest i s out s' (convert emit stk (F @ NUL # rest) args buf (of_nat i) s)" for F
  proof -
    from cv obtain x out' fmt' args' buf' s1 where
      r: "convert emit stk (F @ NUL # rest) args buf (of_nat i) s = Inr (fmt' @ NUL # rest, args', buf', Some (of_nat (i + length x)), s1)"
      and o: "out = x @ out'" "render fmt' args' = Some out'" "length fmt' \<le> length F" "NUL \<notin> set fmt'" "length buf' = 11"
        "put (i + length x) out' s1 = Inr s'"
      unfolding converted_def by blast
    have "length fmt' < length fmt" "i + length x + length out' \<le> 0x7FFFFFFF" using o(1,3) start(1) less.prems(4) by simp_all
    then have "format_loop emit stk (fmt' @ NUL # rest) args' buf' (of_nat (i + length x)) s1 =
        Inr (Some (of_nat (i + length x + length out')), s')"
      by (intro less.hyps o)
    then show ?thesis using r o(1) start by (subst step) (cases F; simp add: add.assoc)
  qed
  show ?case
  proof (cases fmt)
    case Nil
    then show ?thesis using less.prems(1,5) put_nil by (subst step) auto
  next
    case (Cons c f)
    show ?thesis
    proof (cases "c = CHR ''%''")
      case False
      then show ?thesis using lit [of c f] Cons less.prems(1) by (simp add: render_literal)
    next
      case c: True
      show ?thesis
      proof (cases f)
        case Nil
        then have out: "out = ''%'' @ []" using less.prems(1) Cons c by (simp add: render.simps)
        obtain s1 where s1: "put i ''%'' s = Inr s1" using put_prefix less.prems(5) out by blast
        have "converted [] rest i s out s' (convert emit stk ([] @ NUL # rest) args buf (of_nat i) s)"
          by (rule convertedI [where data = "CHR ''%'' # NUL # rest" and ch = True and fmt' = "[]" and args' = args,
                OF _ _ _ _ less.prems(3) out less.prems(5) s1 less.prems(4)])
            (simp_all add: convert_def)
        then show ?thesis using conv [of "[]"] Cons c Nil by simp
      next
        case f: (Cons g r)
        show ?thesis
        proof (cases "g = CHR ''%''")
          case True
          then show ?thesis using lit [of g r] Cons c f less.prems(1) by (simp add: render.simps(2) [of "CHR ''%''"])
        next
          case False
          have "converted (g # r) rest i s out s' (convert emit stk (g # r @ NUL # rest) args buf (of_nat i) s)"
            using less.prems Cons c f False by (intro convert_ok) simp_all
          then show ?thesis using conv [of "g # r"] Cons c f False by simp
        qed
      qed
    qed
  qed
qed

end

subsection \<open>The terminal and the string\<close>

primrec putchars :: "string \<Rightarrow> console \<Rightarrow> console res" where
  "putchars [] c = Inr c"
| "putchars (ch # s) c = rbind (term_write [ch] c) (\<lambda>(_, c). putchars s c)"

lemma putchars_append: "putchars (xs @ ys) c = rbind (putchars xs c) (putchars ys)"
  by (induction xs arbitrary: c) (auto simp: rbind_assoc split_def)

lemma print_loop_ok:
  "i + n \<le> length data \<Longrightarrow>
   print_loop data i n c = rbind (putchars (take n (drop i data)) c) (\<lambda>c. Inr (True, c))"
proof (induction n arbitrary: i c)
  case (Suc n)
  then have d: "drop i data = data ! i # drop (Suc i) data" by (simp add: Cons_nth_drop_Suc)
  have "of_char (data ! i) \<noteq> EOF" by (simp add: EOF_def) (metis of_nat_of_char of_nat_0_le_iff not_numeral_le_zero neg_0_le_iff_le zero_le_numeral not_one_le_zero neg_le_0_iff_le)
  then show ?case using Suc by (simp add: d putchar_def rbind_assoc split_def)
qed simp

interpretation kprint: text_sink print_k "\<lambda>_. putchars" "[]"
proof
  fix data :: string and n i :: nat and s s' :: console
  assume "terminated data" "n \<le> length (cstr data)" and p: "putchars (take n data) s = Inr s'"
  then have "n \<le> length data" using terminated_cstr [of data] by (metis length_append le_add1 order_trans)
  then show "print_k data n (of_nat i) s = Inr (True, s')" using p by (simp add: print_k_def print_loop_ok)
next
  fix i :: nat and c :: char and s s' :: console
  assume "putchars [c] s = Inr s'"
  then show "print_k [c] 1 (of_nat i) s = Inr (True, s')"
    using print_loop_ok [of 0 1 "[c]" s] by (simp add: print_k_def del: print_loop.simps putchars.simps)
qed (auto simp: putchars_append)

definition put_str :: "nat \<Rightarrow> string \<Rightarrow> string \<Rightarrow> string res" where
  "put_str i xs str =
     (if i + length xs \<le> length str then Inr (take i str @ xs @ drop (i + length xs) str) else Inl (Fault ''sprint''))"

interpretation sprinter: text_sink sprint put_str "xs @ NUL # ys" for xs ys
proof
  fix i :: nat and xs ys s :: string
  show "put_str i (xs @ ys) s = rbind (put_str i xs s) (put_str (i + length xs) ys)"
    by (auto simp: put_str_def ac_simps)
next
  fix i :: nat and s s' :: string
  show "put_str i [] s = Inr s' \<Longrightarrow> s' = s" by (auto simp: put_str_def split: if_splits)
next
  fix data s s' :: string and n i :: nat
  assume t: "terminated data" "n \<le> length (cstr data)" and i: "i < 2 ^ 31" and p: "put_str i (take n data) s = Inr s'"
  have d: "length (take n data) = n"
    using terminated_cstr [OF t(1)] t(2) by (metis length_append length_take le_add1 min.absorb2 order_trans)
  then have room: "i + n \<le> length s" "s' = take i s @ take n data @ drop (i + n) s"
    using p by (auto simp: put_str_def split: if_splits)
  have "take n (cstr data) = take n data" using t terminated_take [OF t(1)] by (metis min.absorb1 take_take)
  then have "strncpy (drop i s) data n = Inr (take n data @ drop (i + n) s)"
    using room(1) t by (simp add: strncpy_ok add.commute)
  moreover have "unat (of_nat i :: u32) = i" using i by (intro unat_small) simp
  ultimately show "sprint data n (of_nat i) s = Inr (True, s')" using room by (simp add: sprint_def)
next
  fix i :: nat and c :: char and s s' :: string
  assume i: "i < 2 ^ 31" and p: "put_str i [c] s = Inr s'"
  then have room: "i + 1 \<le> length s" "s' = take i s @ [c] @ drop (i + 1) s"
    by (auto simp: put_str_def split: if_splits)
  have t: "terminated (c # xs @ NUL # ys)" using cstr_stop(2) [of "c # xs" ys] by simp
  have "strncpy (drop i s) (c # xs @ NUL # ys) 1 = Inr ([c] @ drop (i + 1) s)"
    using room(1) strncpy_ok [OF t, of 1 "drop i s"] by (auto simp: add.commute split: if_splits)
  moreover have "unat (of_nat i :: u32) = i" using i by (intro unat_small) simp
  ultimately show "sprint (c # xs @ NUL # ys) 1 (of_nat i) s = Inr (True, s')" using room by (simp add: sprint_def)
qed

subsection \<open>Properties\<close>

lemma putchars_screen:
  "\<lbrakk>console_ok c; screen_write (t_color (con_vga c)) out (screen_of (con_vga c)) = Some s\<rbrakk> \<Longrightarrow>
   \<exists>c'. putchars out c = Inr c' \<and> console_ok c' \<and> screen_of (con_vga c') = s \<and> con_kb c' = con_kb c \<and>
     t_color (con_vga c') = t_color (con_vga c)"
proof (induction out arbitrary: c)
  case (Cons ch out)
  obtain s1 where s1: "screen_put (t_color (con_vga c)) ch (screen_of (con_vga c)) = Some s1"
    "screen_write (t_color (con_vga c)) out s1 = Some s" using Cons.prems(2) by (auto split: option.splits)
  from putchar_screen_ex [OF _ s1(1), of "con_io c"] Cons.prems(1) obtain v' io' where
    v': "terminal_putchar ch (con_vga c) (con_io c) = Inr (v', io')" "screen_ok v'" "t_color v' = t_color (con_vga c)" "screen_of v' = s1"
    by (auto simp: console_ok_def)
  let ?c = "c\<lparr>con_vga := v', con_io := io'\<rparr>"
  have "term_write [ch] c = Inr (1, ?c)" using v'(1) by (simp add: term_write_def)
  moreover have "\<exists>c'. putchars out ?c = Inr c' \<and> console_ok c' \<and> screen_of (con_vga c') = s \<and> con_kb c' = con_kb ?c \<and>
      t_color (con_vga c') = t_color (con_vga ?c)"
    using Cons.prems(1) v' s1(2) by (intro Cons.IH) (simp_all add: console_ok_def)
  ultimately show ?case using v'(3) by simp
qed simp

lemma sint_small: "n \<le> 0x7FFFFFFF \<Longrightarrow> sint (of_nat n :: u32) = int n"
  by (simp add: signed_of_nat signed_take_bit_int_eq_self)

lemma printf_shows:
  assumes "render fmt args = Some out" "NUL \<notin> set fmt" "length buf = 11" "length out \<le> 0x7FFFFFFF"
    and "console_ok c" "screen_write (t_color (con_vga c)) out (screen_of (con_vga c)) = Some s"
  shows "\<exists>c'. printf buf (fmt @ NUL # rest) args c = Inr (int (length out), c') \<and> console_ok c' \<and>
    screen_of (con_vga c') = s \<and> con_kb c' = con_kb c \<and> t_color (con_vga c') = t_color (con_vga c)"
proof -
  obtain c' where c': "putchars out c = Inr c'" "console_ok c'" "screen_of (con_vga c') = s" "con_kb c' = con_kb c"
      "t_color (con_vga c') = t_color (con_vga c)"
    using putchars_screen [OF assms(5,6)] by blast
  have "format_loop print_k [] (fmt @ NUL # rest) args buf 0 c = Inr (Some (of_nat (length out)), c')"
    using kprint.loop_ok [OF assms(1-3), of 0 c c' rest] assms(4) c'(1) by simp
  then have "printf buf (fmt @ NUL # rest) args c = Inr (int (length out), c')"
    by (simp add: printf_def printf_with_def sint_small [OF assms(4)])
  with c' show ?thesis by blast
qed

text \<open>
  C32: \<open>printf\<close> of the kernel puts the text of its format on the screen. For a format whose
  arguments the library can handle (the text \<open>render\<close> gives), on a terminal in order and with
  text the screen can take, it returns the number of characters, and the screen is the one
  that writing the text gives.
\<close>

theorem printf_screen:
  assumes "render fmt args = Some out" "NUL \<notin> set fmt" "length buf = 11" "length out \<le> 0x7FFFFFFF"
    and "console_ok c" "screen_write (t_color (con_vga c)) out (screen_of (con_vga c)) = Some s"
  shows "\<exists>c'. printf buf (fmt @ NUL # rest) args c = Inr (int (length out), c') \<and> console_ok c' \<and>
    screen_of (con_vga c') = s \<and> con_kb c' = con_kb c"
  using printf_shows [OF assms] by blast

lemma screen_write_some: "CHR 0x7F \<notin> set out \<Longrightarrow> \<exists>s'. screen_write color out s = Some s'"
proof (induction out arbitrary: s)
  case (Cons ch out)
  obtain s1 where "screen_put color ch s = Some s1" using screen_put_Some [of ch color s] Cons.prems by auto
  then show ?case using Cons by simp
qed simp

lemma demo_console_ok: "console_ok demo_console"
  using demo_kb_ok by (simp add: console_ok_def demo_console_def screen_ok_def demo_vga_def)

lemma dec_small: "dec 42 = ''42''" "dec (- 7) = ''-7''" "hex 255 = ''ff''"
  by code_simp+

lemma bang: "char_of (33 :: nat) = CHR ''!''"
  by code_simp

lemma printf_screen_witness:
  "\<exists>c'. printf (replicate 11 NUL) (''%i%%'' @ [NUL]) [ArgInt (- 7)] demo_console = Inr (3, c') \<and> console_ok c'"
proof -
  have rd: "render ''%i%%'' [ArgInt (- 7)] = Some ''-7%''" by (simp add: render.simps dec_small INT_MAX_def)
  have "CHR 0x7F \<notin> set ''-7%''" by simp
  then obtain s where s: "screen_write (t_color (con_vga demo_console)) ''-7%'' (screen_of (con_vga demo_console)) = Some s"
    using screen_write_some by blast
  show ?thesis
    using printf_screen [OF rd _ _ _ demo_console_ok s, of "replicate 11 NUL" "[]"] by auto
qed

lemma sprintf_ok:
  assumes "render fmt args = Some out" "NUL \<notin> set fmt" "length buf = 11" "terminated stk"
    and "length out < length str" "length out \<le> 0x7FFFFFFF"
  shows "sprintf buf stk str (fmt @ NUL # rest) args =
    Inr (int (length out), out @ NUL # drop (length out + 1) str)"
proof -
  obtain ys where stk: "stk = cstr stk @ NUL # ys" using terminated_cstr [OF assms(4)] by blast
  have "put_str 0 out str = Inr (out @ drop (length out) str)" using assms(5) by (simp add: put_str_def)
  then have "format_loop sprint (cstr stk @ NUL # ys) (fmt @ NUL # rest) args buf 0 str =
      Inr (Some (of_nat (length out)), out @ drop (length out) str)"
    using sprinter.loop_ok [OF assms(1-3), of 0] assms(6) by simp
  moreover have "unat (of_nat (length out) :: u32) = length out" using assms(6) by (intro unat_small) simp
  moreover have "drop (length out) str = str ! length out # drop (length out + 1) str"
    using assms(5) by (simp add: Cons_nth_drop_Suc)
  ultimately show ?thesis
    using stk assms(5) by (simp add: sprintf_def sint_small [OF assms(6)] aset_middle)
qed

text \<open>
  \<open>sprintf\<close> writes exactly the text and its terminator into a buffer that has room for
  them, leaves the rest of the buffer alone and returns the length.
\<close>

theorem sprintf_text:
  assumes "render fmt args = Some out" "NUL \<notin> set fmt" "length buf = 11" "terminated stk"
    and "length out < length str" "length out \<le> 0x7FFFFFFF"
  shows "sprintf buf stk str (fmt @ NUL # rest) args =
    Inr (int (length out), out @ NUL # drop (length out + 1) str)"
  using assms by (rule sprintf_ok)

lemma sprintf_text_witness:
  "sprintf (replicate 11 NUL) [NUL] (replicate 16 (CHR ''z'')) (''%s=%i 0x%x%c'' @ [NUL])
     [ArgStr (''brk'' @ [NUL]), ArgInt 42, ArgInt 255, ArgInt 33] = Inr (12, ''brk=42 0xff!'' @ NUL # ''zzz'')"
proof -
  have "render ''%s=%i 0x%x%c'' [ArgStr (''brk'' @ [NUL]), ArgInt 42, ArgInt 255, ArgInt 33] = Some ''brk=42 0xff!''"
    by (simp add: render.simps dec_small bang INT_MAX_def INT_MIN_def)
  from sprintf_text [OF this, of "replicate 11 NUL" "[NUL]" "replicate 16 (CHR ''z'')" "[]"] show ?thesis
    by (simp add: drop_replicate numeral_3_eq_3)
qed

text \<open>
  Both overrun their eleven-byte buffer on a decimal conversion of a number with eleven
  characters.
\<close>

theorem printf_overrun:
  assumes "INT_MIN < i" "i \<le> - 1000000000" "length buf = 11"
  shows "printf buf (''%i'' @ [NUL]) [ArgInt i] c = Inl (Fault ''itoa'') \<and>
    sprintf buf stk str (''%i'' @ [NUL]) [ArgInt i] = Inl (Fault ''itoa'')"
  using itoa_11_overrun [OF assms]
  by (simp_all add: printf_def printf_with_def sprintf_def format_loop.simps convert_def va_int_def)

lemma printf_overrun_witness:
  "printf (replicate 11 NUL) (''%i'' @ [NUL]) [ArgInt (- 1234567890)] demo_console = Inl (Fault ''itoa'') \<and>
   sprintf (replicate 11 NUL) [] [] (''%i'' @ [NUL]) [ArgInt (- 1234567890)] = Inl (Fault ''itoa'')"
  by (rule printf_overrun) (simp_all add: INT_MIN_def)

end
