(* ===== verification/Ata.thy ===== *)
theory Ata
  imports Ports Vfat Printf
begin

section \<open>ATA identification and the ATAPI driver\<close>

text \<open>
  \<open>kernel/kernel/drv/atapio.c\<close>, \<open>ata.c\<close> and \<open>atapi.c\<close>, over the ports: what a drive answers is the
  function \<open>io_dev\<close>. The polling loops have no bound in the code and take fuel. With the scheduler
  running (\<open>running\<close> is the flag \<open>kmode\<close>) a transfer suspends the thread until the drive's
  interrupt; \<open>suspend\<close> is what the ports see meanwhile. The messages are not modelled.
\<close>

definition ATA_TYPE_ATAPI :: nat where "ATA_TYPE_ATAPI = 2"
definition CDROM_SECTOR_SIZE :: u32 where "CDROM_SECTOR_SIZE = 2048"

record ata_device =
  ata_type :: nat
  ata_bus :: u16
  ata_select :: u8
  identifydata :: "u8 list"
  identified :: bool

text \<open>Reading a port \<open>n\<close> times for the delay.\<close>

primrec inb_times :: "nat \<Rightarrow> u16 \<Rightarrow> io \<Rightarrow> io" where
  "inb_times 0 port io = io"
| "inb_times (Suc n) port io = inb_times n port (snd (inb port io))"

text \<open>The parameter of \<open>ata_io_wait\<close> is a \<open>uint8_t\<close>.\<close>

definition ata_io_wait :: "u16 \<Rightarrow> io \<Rightarrow> io" where
  "ata_io_wait port io = inb_times 4 (ucast (ucast port :: u8) + 0x206 + 0) io"

subsection \<open>Identification\<close>

primrec wait_not_busy :: "nat \<Rightarrow> u16 \<Rightarrow> io \<Rightarrow> io res" where
  "wait_not_busy 0 bus io = Inl (Fault ''ata: fuel'')"
| "wait_not_busy (Suc n) bus io =
     (let (b, io) = inb (bus + 7) io in if b AND 0x80 = 0x80 then wait_not_busy n bus io else Inr io)"

primrec wait_data :: "nat \<Rightarrow> u16 \<Rightarrow> u8 \<Rightarrow> io \<Rightarrow> (u8 \<times> io) res" where
  "wait_data 0 bus status io = Inl (Fault ''ata: fuel'')"
| "wait_data (Suc n) bus status io =
     (if status AND 9 = 0 then let (b, io) = inb (bus + 7) io in wait_data n bus b io else Inr (status, io))"

primrec read_bytes :: "nat \<Rightarrow> u16 \<Rightarrow> io \<Rightarrow> u8 list \<times> io" where
  "read_bytes 0 port io = ([], io)"
| "read_bytes (Suc n) port io = (let (b, io) = inb port io; (bs, io) = read_bytes n port io in (b # bs, io))"

definition atapio_identify :: "nat \<Rightarrow> u16 \<Rightarrow> u8 \<Rightarrow> ata_device \<Rightarrow> io \<Rightarrow> (ata_device \<times> io) res" where
  "atapio_identify fuel bus sel device io =
     (let device = device\<lparr>ata_bus := bus, ata_select := sel\<rparr>;
          io = outb (bus + 6) sel io;
          io = outb (bus + 2) 0 io;
          io = outb (bus + 3) 0 io;
          io = outb (bus + 4) 0 io;
          io = outb (bus + 5) 0 io;
          io = outb (bus + 7) 0xEC io;
          io = inb_times 9 (bus + 7) io;
          (status, io) = inb (bus + 7) io in
      if status = 0 then Inr (device\<lparr>ata_type := 0\<rparr>, io)
      else
        rbind (wait_not_busy fuel bus io) (\<lambda>io.
        let (lbamid, io) = inb (bus + 4) io;
            (lbahi, io) = inb (bus + 5) io in
        if lbamid = 0x14 \<and> lbahi = 0xEB then Inr (device\<lparr>ata_type := 2\<rparr>, io)
        else if lbamid = 0x3C \<and> lbahi = 0xC3 then Inr (device\<lparr>ata_type := 3\<rparr>, io)
        else if lbamid = 0x69 \<and> lbahi = 0x96 then Inr (device\<lparr>ata_type := 4\<rparr>, io)
        else if lbamid = 0 \<and> lbahi = 0 then
          let device = device\<lparr>ata_type := 1\<rparr>; (status, io) = inb (bus + 7) io in
          rbind (wait_data fuel bus status io) (\<lambda>(status, io).
          if status AND 1 = 0 then
            let (bs, io) = read_bytes 256 bus io in Inr (device\<lparr>identifydata := bs, identified := True\<rparr>, io)
          else Inr (device, io))
        else Inr (device, io)))"

definition identify_slot :: "nat \<Rightarrow> u16 \<Rightarrow> u8 \<Rightarrow> nat \<Rightarrow> ata_device list \<Rightarrow> io \<Rightarrow> (ata_device list \<times> io) res" where
  "identify_slot fuel bus sel i atadevices io =
     rbind (aget ''atadevices'' atadevices i) (\<lambda>device.
     rbind (atapio_identify fuel bus sel device io) (\<lambda>(device, io). Inr (atadevices[i := device], io)))"

definition detect_bus :: "nat \<Rightarrow> u16 \<Rightarrow> u16 \<Rightarrow> nat \<Rightarrow> ata_device list \<Rightarrow> io \<Rightarrow> (ata_device list \<times> io) res" where
  "detect_bus fuel port bus i atadevices io =
     (let (b, io) = inb port io in
      if b = 0xFF then Inr (atadevices, io)
      else
        rbind (identify_slot fuel bus 0xA0 i atadevices io) (\<lambda>(atadevices, io).
        identify_slot fuel bus 0xB0 (i + 1) atadevices io))"

definition atapio_detect_disks :: "nat \<Rightarrow> ata_device list \<Rightarrow> io \<Rightarrow> (ata_device list \<times> io) res" where
  "atapio_detect_disks fuel atadevices io =
     rbind (detect_bus fuel 0x1F7 0x1F0 0 atadevices io) (\<lambda>(atadevices, io).
     detect_bus fuel 0x177 0x170 2 atadevices io)"

definition atapio_readstatus :: "u16 \<Rightarrow> u8 \<Rightarrow> io \<Rightarrow> u8 \<times> io" where
  "atapio_readstatus bus sel io = inb (bus + 7) (inb_times 14 (bus + 7) (outb (bus + 6) sel io))"

subsection \<open>Packet commands\<close>

text \<open>The twelve bytes of a command go out as six words.\<close>

fun words_of :: "u8 list \<Rightarrow> u16 list" where
  "words_of (a # b # bs) = (ucast a OR push_bit 8 (ucast b)) # words_of bs"
| "words_of _ = []"

definition read_cmd :: "u32 \<Rightarrow> u32 \<Rightarrow> u8 list" where
  "read_cmd lba sectors = [0xA8, 0, ucast (drop_bit 24 lba), ucast (drop_bit 16 lba), ucast (drop_bit 8 lba), ucast lba,
     ucast (drop_bit 24 sectors), ucast (drop_bit 16 sectors), ucast (drop_bit 8 sectors), ucast sectors, 0, 0]"

definition capacity_cmd :: "u8 list" where
  "capacity_cmd = 0x25 # replicate 11 0"

text \<open>Polling until the drive wants the packet or has data: False when it reports an error.\<close>

primrec poll_ready :: "nat \<Rightarrow> u16 \<Rightarrow> io \<Rightarrow> (bool \<times> io) res" where
  "poll_ready 0 port io = Inl (Fault ''ata: fuel'')"
| "poll_ready (Suc n) port io =
     (let (status, io) = inb (port + 7) io in
      if status AND 1 \<noteq> 0 then Inr (False, io)
      else if status AND 0x80 = 0 \<and> status AND 8 \<noteq> 0 then Inr (True, io)
      else poll_ready n port io)"

definition start_packet :: "ata_device \<Rightarrow> io \<Rightarrow> io" where
  "start_packet device io =
     (let port = ata_bus device;
          io = outb (port + 6) (ata_select device) io;
          io = ata_io_wait port io;
          io = outb (port + 1) 0 io;
          io = outb (port + 4) 0x00 io;
          io = outb (port + 5) 0x08 io;
          io = outb (port + 7) 0xA0 io in
      ata_io_wait port io)"

text \<open>The size of a transfer: the high byte is read first.\<close>

definition transfer_size :: "u16 \<Rightarrow> io \<Rightarrow> nat \<times> io" where
  "transfer_size port io =
     (let (hi, io) = inb (port + 5) io; (lo, io) = inb (port + 4) io in (unat hi * 256 + unat lo, io))"

primrec bytes_of :: "u16 list \<Rightarrow> string" where
  "bytes_of [] = []"
| "bytes_of (w # ws) = char_of (unat w mod 256) # char_of (unat w div 256) # bytes_of ws"

text \<open>The interrupt of the drive: 14 for the primary bus.\<close>

definition drive_irq :: "u16 \<Rightarrow> nat" where "drive_irq port = (if port = 0x1F0 then 14 else 15)"

primrec read_sectors ::
  "nat \<Rightarrow> bool \<Rightarrow> (nat \<Rightarrow> io \<Rightarrow> io) \<Rightarrow> u16 \<Rightarrow> nat list \<Rightarrow> string \<Rightarrow> io \<Rightarrow> (int \<times> string \<times> io) res" where
  "read_sectors fuel running suspend port [] buffer io = Inr (0, buffer, io)"
| "read_sectors fuel running suspend port (i # is) buffer io =
     rbind (if running then Inr (True, suspend (drive_irq port) io) else poll_ready fuel port io) (\<lambda>(ready, io).
     if \<not> ready then Inr (1, buffer, io)
     else
       let (status, io) = inb (port + 7) io in
       if status AND 1 \<noteq> 0 then Inr (0, buffer, io)
       else
         let (size, io) = transfer_size port io; (ws, io) = insw (port + 0) (size div 2) io in
         rbind (put_slice buffer (i * 0x800) (bytes_of ws)) (\<lambda>buffer.
         read_sectors fuel running suspend port is buffer io))"

definition read_cdrom ::
  "nat \<Rightarrow> bool \<Rightarrow> (nat \<Rightarrow> io \<Rightarrow> io) \<Rightarrow> ata_device \<Rightarrow> u32 \<Rightarrow> u32 \<Rightarrow> string \<Rightarrow> io \<Rightarrow> (int \<times> string \<times> io) res" where
  "read_cdrom fuel running suspend device lba sectors buffer io =
     (if ata_type device \<noteq> ATA_TYPE_ATAPI then Inl (Panic ''read_cdrom() called on non ATAPI device'')
      else
        rbind (poll_ready fuel (ata_bus device) (start_packet device io)) (\<lambda>(ready, io).
        if \<not> ready then Inr (1, buffer, io)
        else
          read_sectors fuel running suspend (ata_bus device) [0..<unat sectors] buffer
            (outsw (ata_bus device + 0) (words_of (read_cmd lba sectors)) io)))"

text \<open>
  \<open>get_cdrom_capacity\<close> waits for the interrupt, \<open>get_cdrom_capacity_polling\<close> polls; the rest is
  the same. The buffer has \<open>size / 4\<close> words of 32 bits.
\<close>

definition cdrom_capacity :: "nat \<Rightarrow> bool \<Rightarrow> (nat \<Rightarrow> io \<Rightarrow> io) \<Rightarrow> ata_device \<Rightarrow> io \<Rightarrow> (u32 \<times> io) res" where
  "cdrom_capacity fuel polling suspend device io =
     (if ata_type device \<noteq> ATA_TYPE_ATAPI then Inl (Panic ''get_cdrom_capacity() called on non ATAPI device'')
      else
        let port = ata_bus device in
        rbind (poll_ready fuel port (start_packet device io)) (\<lambda>(ready, io).
        if \<not> ready then Inr (1, io)
        else
          let io = outsw (port + 0) (words_of capacity_cmd) io in
          rbind (if polling then poll_ready fuel port io else Inr (True, suspend (drive_irq port) io)) (\<lambda>(ready, io).
          if \<not> ready then Inr (1, io)
          else
            let (status, io) = inb (port + 7) io in
            if status AND 1 \<noteq> 0 then Inr (0, io)
            else
              let (size, io) = transfer_size port io; (ws, io) = insw (port + 0) (size div 2) io in
              if 4 * (size div 4) < length (bytes_of ws) then Inl (Fault ''buf'')
              else rbind (buf32 (bytes_of ws) 0) (\<lambda>n. Inr (n + 1, io)))))"

definition get_cdrom_capacity :: "nat \<Rightarrow> (nat \<Rightarrow> io \<Rightarrow> io) \<Rightarrow> ata_device \<Rightarrow> io \<Rightarrow> (u32 \<times> io) res" where
  "get_cdrom_capacity fuel suspend device io = cdrom_capacity fuel False suspend device io"

definition get_cdrom_capacity_polling :: "nat \<Rightarrow> ata_device \<Rightarrow> io \<Rightarrow> (u32 \<times> io) res" where
  "get_cdrom_capacity_polling fuel device io = cdrom_capacity fuel True (\<lambda>_ io. io) device io"

text \<open>The block function of the VFS: the result of the transfer is not looked at.\<close>

definition atapi_block ::
  "nat \<Rightarrow> bool \<Rightarrow> (nat \<Rightarrow> io \<Rightarrow> io) \<Rightarrow> ata_device \<Rightarrow> u8 \<Rightarrow> string \<Rightarrow> bool \<Rightarrow> u32 \<Rightarrow> io \<Rightarrow> (u32 \<times> string \<times> io) res" where
  "atapi_block fuel running suspend device ispartition data write index io =
     (if write then Inr (0, data, io)
      else if ispartition \<noteq> 0 then
        rbind (read_cdrom fuel running suspend device index 1 data io) (\<lambda>(_, data, io). Inr (CDROM_SECTOR_SIZE, data, io))
      else Inr (0, data, io))"

subsection \<open>Registration\<close>

text \<open>
  The block devices of the file system work on the bytes of a medium, without the ports:
  \<open>disc i\<close> stands for what \<open>atapi_block\<close> gets from drive \<open>i\<close>, with its contents.
\<close>

record atapi_state =
  atapi_disc :: int
  atapi_disccount :: int

definition atapi_register ::
  "nat \<Rightarrow> (nat \<Rightarrow> block_fn \<times> string) \<Rightarrow> nat \<Rightarrow> ata_device \<Rightarrow> atapi_state \<times> vfs \<times> io \<Rightarrow> (atapi_state \<times> vfs \<times> io) res" where
  "atapi_register fuel disc i device st =
     (case st of (a, v, io) \<Rightarrow>
        if ata_type device = ATA_TYPE_ATAPI then
          rbind (get_cdrom_capacity_polling fuel device io) (\<lambda>(blocks, io).
          let (bdid, v) = vfs_register_blockdevice v \<lparr>bd_block = fst (disc i), bd_medium = snd (disc i),
                bd_blocksize = CDROM_SECTOR_SIZE, bd_blocks = blocks, bd_name = ''atapi'' @ dec (int i), bd_mountpoint = None,
                bd_mounted = False, bd_ispartition = 2, bd_id = 0\<rparr> in
          Inr (a\<lparr>atapi_disc := int bdid, atapi_disccount := atapi_disccount a + 1\<rparr>, v, io))
        else Inr st)"

primrec atapi_init_loop ::
  "nat \<Rightarrow> (nat \<Rightarrow> block_fn \<times> string) \<Rightarrow> ata_device list \<Rightarrow> nat list \<Rightarrow> atapi_state \<times> vfs \<times> io \<Rightarrow> (atapi_state \<times> vfs \<times> io) res" where
  "atapi_init_loop fuel disc atadevices [] st = Inr st"
| "atapi_init_loop fuel disc atadevices (i # is) st =
     rbind (aget ''atadevices'' atadevices i) (\<lambda>device.
     rbind (atapi_register fuel disc i device st) (atapi_init_loop fuel disc atadevices is))"

definition atapi_init :: "nat \<Rightarrow> (nat \<Rightarrow> block_fn \<times> string) \<Rightarrow> ata_device list \<Rightarrow> atapi_state \<times> vfs \<times> io \<Rightarrow> (atapi_state \<times> vfs \<times> io) res" where
  "atapi_init fuel disc atadevices st = atapi_init_loop fuel disc atadevices [0..<4] st"

subsection \<open>A drive that follows the protocol\<close>

text \<open>
  The reference drive: the packet command starts a packet, the words written to the data port
  are the packet, the words read from it the sector the packet names. \<open>busy\<close> says when it keeps
  the driver waiting. What it answers depends on the accesses so far, like \<open>io_dev\<close>.
\<close>

fun drive_step :: "u16 \<Rightarrow> u16 list \<times> nat \<Rightarrow> ioevent \<Rightarrow> u16 list \<times> nat" where
  "drive_step P (pkt, taken) (Out p v) = (if p = P + 7 \<and> v = 0xA0 then ([], 0) else (pkt, taken))"
| "drive_step P (pkt, taken) (OutW p w) = (if p = P then (pkt @ [w], 0) else (pkt, taken))"
| "drive_step P (pkt, taken) (In p) = (if p = P then (pkt, taken + 1) else (pkt, taken))"

definition drive_state :: "u16 \<Rightarrow> ioevent list \<Rightarrow> u16 list \<times> nat" where
  "drive_state P log = foldl (drive_step P) ([], 0) log"

definition packet_bytes :: "u16 list \<Rightarrow> u8 list" where
  "packet_bytes ws = concat (map (\<lambda>w. [ucast w, ucast (drop_bit 8 w)]) ws)"

definition be32 :: "u8 \<Rightarrow> u8 \<Rightarrow> u8 \<Rightarrow> u8 \<Rightarrow> u32" where
  "be32 a b c d = push_bit 24 (ucast a) OR push_bit 16 (ucast b) OR push_bit 8 (ucast c) OR ucast d"

definition packet_lba :: "u16 list \<Rightarrow> u32" where
  "packet_lba ws = (let b = packet_bytes ws in be32 (b ! 2) (b ! 3) (b ! 4) (b ! 5))"

definition drive_dev :: "(u32 \<Rightarrow> u16 list) \<Rightarrow> (ioevent list \<Rightarrow> bool) \<Rightarrow> u16 \<Rightarrow> ioevent list \<Rightarrow> u16 \<Rightarrow> u16" where
  "drive_dev sector busy P log p =
     (if p = P + 7 then if busy log then 0x80 else 0x08
      else if p = P + 5 then 8
      else if p = P + 4 then 0
      else if p = P then case drive_state P log of (pkt, taken) \<Rightarrow> sector (packet_lba pkt) ! taken
      else 0)"

text \<open>Every wait of the drive is over before the fuel of a polling loop is.\<close>

definition responsive :: "nat \<Rightarrow> (ioevent list \<Rightarrow> bool) \<Rightarrow> u16 \<Rightarrow> bool" where
  "responsive fuel busy P \<longleftrightarrow> (\<forall>log. \<exists>k<fuel. \<not> busy (log @ replicate k (In (P + 7))))"

lemma drive_state_append: "drive_state P (xs @ ys) = foldl (drive_step P) (drive_state P xs) ys"
  by (simp add: drive_state_def)

lemma drive_step_other: "p \<noteq> P \<Longrightarrow> drive_step P st (In p) = st"
  by (cases st) simp

lemma drive_step_out: "drive_step P st (Out p v) = (if p = P + 7 \<and> v = 0xA0 then ([], 0) else st)"
  by (cases st) simp

lemma drive_state_reads: "p \<noteq> P \<Longrightarrow> foldl (drive_step P) st (replicate n (In p)) = st"
  by (induction n) (simp_all add: drive_step_other)

lemma drive_state_words: "foldl (drive_step P) (pkt, 0) (map (OutW P) ws) = (pkt @ ws, 0)"
  by (induction ws arbitrary: pkt) simp_all

lemma drive_state_taken: "foldl (drive_step P) (pkt, t) (replicate n (In P)) = (pkt, t + n)"
  by (induction n arbitrary: t) simp_all

text \<open>The driver and the drive agree on the bytes of a packet.\<close>

lemma packet_bytes_words:
  "even (length bs) \<Longrightarrow> packet_bytes (words_of bs) = bs"
proof (induction bs rule: words_of.induct)
  case (1 a b bs)
  have "ucast (ucast a OR push_bit 8 (ucast b) :: u16) = a"
    by (rule bit_word_eqI) (auto simp: bit_simps)
  moreover have "ucast (drop_bit 8 (ucast a OR push_bit 8 (ucast b) :: u16)) = b"
    by (rule bit_word_eqI) (auto simp: bit_simps dest: bit_imp_le_length)
  ultimately  show ?case using 1 by (simp add: packet_bytes_def)
qed (auto simp: packet_bytes_def)

lemma be32_bytes: "be32 (ucast (drop_bit 24 x)) (ucast (drop_bit 16 x)) (ucast (drop_bit 8 x)) (ucast x) = x"
proof (rule bit_word_eqI)
  fix n assume "n < LENGTH(32)"
  then have "n < 8 \<or> 8 \<le> n \<and> n < 16 \<or> 16 \<le> n \<and> n < 24 \<or> 24 \<le> n \<and> n < 32" by auto
  then show "bit (be32 (ucast (drop_bit 24 x)) (ucast (drop_bit 16 x)) (ucast (drop_bit 8 x)) (ucast x)) n = bit x n"
    by (elim disjE) (simp_all add: be32_def bit_simps, linarith+)
qed

lemma packet_lba_read: "packet_lba (words_of (read_cmd lba n)) = lba"
proof -
  have "packet_bytes (words_of (read_cmd lba n)) = read_cmd lba n"
    by (rule packet_bytes_words) (simp add: read_cmd_def)
  then show ?thesis by (simp add: packet_lba_def read_cmd_def be32_bytes)
qed

definition bus_ok :: "u16 \<Rightarrow> bool" where "bus_ok P \<longleftrightarrow> P = 0x1F0 \<or> P = 0x170"

lemma bus_distinct:
  assumes "bus_ok P"
  shows "P + 7 \<noteq> P" "P + 5 \<noteq> P" "P + 4 \<noteq> P" "P + 7 \<noteq> P + 5" "P + 7 \<noteq> P + 4" "P + 5 \<noteq> P + 4" "P + 6 \<noteq> P + 7"
    "P + 1 \<noteq> P + 7" "ucast (ucast P :: u8) + 0x206 + 0 \<noteq> P"
  using assms by (auto simp: bus_ok_def)

lemma inb_times_log: "inb_times n p io = io\<lparr>io_log := io_log io @ replicate n (In p)\<rparr>"
  by (induction n arbitrary: io) (simp_all add: inb_def)

lemma start_packet_state:
  assumes "bus_ok (ata_bus device)"
  shows "\<exists>L'. start_packet device \<lparr>io_log = L, io_dev = D\<rparr> = \<lparr>io_log = L', io_dev = D\<rparr> \<and> drive_state (ata_bus device) L' = ([], 0)"
  using bus_distinct [OF assms]
  by (simp add: start_packet_def ata_io_wait_def inb_times_log outb_def Let_def drive_state_append drive_state_reads drive_step_out)

lemma poll_ready_drive:
  assumes "\<exists>k<fuel. \<not> busy (L @ replicate k (In (P + 7)))" "\<And>log. D log (P + 7) = (if busy log then 0x80 else 8)"
  shows "\<exists>k. poll_ready fuel P \<lparr>io_log = L, io_dev = D\<rparr> = Inr (True, \<lparr>io_log = L @ replicate (Suc k) (In (P + 7)), io_dev = D\<rparr>)"
  using assms(1)
proof (induction fuel arbitrary: L)
  case (Suc fuel)
  show ?case
  proof (cases "busy L")
    case True
    from Suc.prems obtain k where k: "k < Suc fuel" "\<not> busy (L @ replicate k (In (P + 7)))" by blast
    with True obtain j where j: "k = Suc j" by (cases k) auto
    have "\<exists>k<fuel. \<not> busy ((L @ [In (P + 7)]) @ replicate k (In (P + 7)))" using k j by auto
    from Suc.IH [OF this] obtain i where
      i: "poll_ready fuel P \<lparr>io_log = L @ [In (P + 7)], io_dev = D\<rparr> =
        Inr (True, \<lparr>io_log = (L @ [In (P + 7)]) @ replicate (Suc i) (In (P + 7)), io_dev = D\<rparr>)" by blast
    then have "poll_ready (Suc fuel) P \<lparr>io_log = L, io_dev = D\<rparr> =
        Inr (True, \<lparr>io_log = L @ replicate (Suc (Suc i)) (In (P + 7)), io_dev = D\<rparr>)"
      using True by (simp add: inb_def assms(2))
    then show ?thesis by blast
  next
    case False
    then have "poll_ready (Suc fuel) P \<lparr>io_log = L, io_dev = D\<rparr> =
        Inr (True, \<lparr>io_log = L @ replicate (Suc 0) (In (P + 7)), io_dev = D\<rparr>)"
      by (simp add: inb_def assms(2))
    then show ?thesis by blast
  qed
qed simp

lemma insw_drive:
  "bus_ok P \<Longrightarrow> drive_state P L = (pkt, t) \<Longrightarrow>
   insw P n \<lparr>io_log = L, io_dev = drive_dev sector busy P\<rparr> =
     (map (\<lambda>j. sector (packet_lba pkt) ! j) [t..<t + n], \<lparr>io_log = L @ replicate n (In P), io_dev = drive_dev sector busy P\<rparr>)"
proof (induction n arbitrary: L t)
  case (Suc n)
  note d = bus_distinct [OF Suc.prems(1)]
  have "drive_state P (L @ [In P]) = (pkt, t + 1)" using Suc.prems(2) by (simp add: drive_state_append)
  from Suc.IH [OF Suc.prems(1) this] show ?case
    using Suc.prems(2) d by (simp add: inw_def drive_dev_def upt_conv_Cons del: upt_Suc)
qed simp

theorem read_cdrom_drive:
  assumes bus: "bus_ok (ata_bus device)" and t: "ata_type device = ATA_TYPE_ATAPI" and r: "responsive fuel busy (ata_bus device)"
    and io: "io_dev io = drive_dev sector busy (ata_bus device)" and sec: "length (sector lba) = 1024" and len: "length buffer = 2048"
  shows "\<exists>L'. read_cdrom fuel False suspend device lba 1 buffer io = Inr (0, bytes_of (sector lba), io\<lparr>io_log := L'\<rparr>)"
proof -
  let ?P = "ata_bus device" and ?D = "drive_dev sector busy (ata_bus device)"
  note d = bus_distinct [OF bus]
  have io': "io = \<lparr>io_log = io_log io, io_dev = ?D\<rparr>" using io by (cases io) simp
  have st: "?D log (?P + 7) = (if busy log then 0x80 else 8)" for log by (simp add: drive_dev_def)
  obtain L1 where L1: "start_packet device io = \<lparr>io_log = L1, io_dev = ?D\<rparr>" "drive_state ?P L1 = ([], 0)"
    using start_packet_state [OF bus, of "io_log io" ?D] io' by auto
  have ready: "\<exists>k. poll_ready fuel ?P \<lparr>io_log = L, io_dev = ?D\<rparr> = Inr (True, \<lparr>io_log = L @ replicate (Suc k) (In (?P + 7)), io_dev = ?D\<rparr>)" for L
    by (rule poll_ready_drive [where busy = busy and P = ?P and D = ?D, OF _ st]) (use r in \<open>auto simp: responsive_def\<close>)
  obtain k where k: "poll_ready fuel ?P \<lparr>io_log = L1, io_dev = ?D\<rparr> = Inr (True, \<lparr>io_log = L1 @ replicate (Suc k) (In (?P + 7)), io_dev = ?D\<rparr>)"
    using ready by blast
  define L2 where "L2 = (L1 @ replicate (Suc k) (In (?P + 7))) @ map (OutW ?P) (words_of (read_cmd lba 1))"
  have s2: "drive_state ?P L2 = (words_of (read_cmd lba 1), 0)"
    using L1(2) d(1) by (simp add: L2_def drive_state_append drive_state_reads drive_state_words drive_step_other)
  obtain j where j: "poll_ready fuel ?P \<lparr>io_log = L2, io_dev = ?D\<rparr> = Inr (True, \<lparr>io_log = L2 @ replicate (Suc j) (In (?P + 7)), io_dev = ?D\<rparr>)"
    using ready by blast
  define L3 where "L3 = (L2 @ replicate (Suc j) (In (?P + 7))) @ [In (?P + 7), In (?P + 5), In (?P + 4)]"
  have s3: "drive_state ?P L3 = (words_of (read_cmd lba 1), 0)"
    using s2 d by (simp add: L3_def drive_state_append drive_state_reads drive_step_other)
  have "map (\<lambda>i. sector lba ! i) [0..<0 + 1024] = sector lba" using map_nth [of "sector lba"] sec by simp
  then have ins: "insw ?P 1024 \<lparr>io_log = L3, io_dev = ?D\<rparr> = (sector lba, \<lparr>io_log = L3 @ replicate 1024 (In ?P), io_dev = ?D\<rparr>)"
    using insw_drive [OF bus s3, of 1024 sector busy] by (simp only: packet_lba_read)
  have bl: "length (bytes_of ws) = 2 * length ws" for ws by (induction ws) simp_all
  have put: "put_slice buffer 0 (bytes_of (sector lba)) = Inr (bytes_of (sector lba))"
    using len sec by (simp add: put_slice_def bl)
  have run: "read_sectors fuel False suspend ?P [0] buffer \<lparr>io_log = L2, io_dev = ?D\<rparr> =
      Inr (0, bytes_of (sector lba), \<lparr>io_log = L3 @ replicate 1024 (In ?P), io_dev = ?D\<rparr>)"
  proof -
    let ?io = "\<lparr>io_log = L2 @ replicate (Suc j) (In (?P + 7)), io_dev = ?D\<rparr>"
    have s: "inb (?P + 7) ?io = (if busy (io_log ?io) then 0x80 else 8, ?io\<lparr>io_log := io_log ?io @ [In (?P + 7)]\<rparr>)"
      by (simp add: inb_def st)
    have z: "transfer_size ?P (?io\<lparr>io_log := io_log ?io @ [In (?P + 7)]\<rparr>) = (2048, \<lparr>io_log = L3, io_dev = ?D\<rparr>)"
      using d by (simp add: transfer_size_def inb_def drive_dev_def L3_def)
    show ?thesis using s z j ins put by (simp del: replicate_Suc split: if_splits)
  qed
  have "io\<lparr>io_log := L3 @ replicate 1024 (In ?P)\<rparr> = \<lparr>io_log = L3 @ replicate 1024 (In ?P), io_dev = ?D\<rparr>"
    using io by (cases io) simp
  moreover have "outsw (?P + 0) (words_of (read_cmd lba 1)) \<lparr>io_log = L1 @ replicate (Suc k) (In (?P + 7)), io_dev = ?D\<rparr> =
      \<lparr>io_log = L2, io_dev = ?D\<rparr>" by (simp add: outsw_def L2_def)
  ultimately show ?thesis
    using t L1(1) k run unfolding read_cdrom_def by (intro exI [of _ "L3 @ replicate 1024 (In ?P)"]) simp
qed

subsection \<open>Properties\<close>


definition demo_drive :: ata_device where
  "demo_drive = \<lparr>ata_type = 2, ata_bus = 0x1F0, ata_select = 0xA0, identifydata = [], identified = False\<rparr>"

definition demo_sector :: "u32 \<Rightarrow> u16 list" where
  "demo_sector lba = replicate 1024 (ucast lba)"


text \<open>
  A failed read looks like a good one: when the drive reports an error instead of taking the
  packet, \<open>read_cdrom\<close> returns 1, but \<open>atapi_block\<close> does not look at it and returns the block
  size with the buffer as it was.
\<close>

theorem atapi_error_ignored:
  assumes "ata_type device = ATA_TYPE_ATAPI" "part \<noteq> 0" "poll_ready fuel (ata_bus device) (start_packet device io) = Inr (False, io')"
  shows "read_cdrom fuel running suspend device lba 1 data io = Inr (1, data, io') \<and>
    atapi_block fuel running suspend device part data False lba io = Inr (2048, data, io')"
  using assms by (simp add: atapi_block_def read_cdrom_def CDROM_SECTOR_SIZE_def)

lemma atapi_error_ignored_witness:
  "\<exists>io'. atapi_block 1 False (\<lambda>_ io. io) demo_drive 2 (replicate 2048 NUL) False 7 \<lparr>io_log = [], io_dev = \<lambda>_ _. 1\<rparr> =
    Inr (2048, replicate 2048 NUL, io')"
proof -
  have t: "ata_type demo_drive = ATA_TYPE_ATAPI" by (simp add: demo_drive_def ATA_TYPE_ATAPI_def)
  let ?io = "\<lparr>io_log = [], io_dev = \<lambda>_ _. 1\<rparr>"
  obtain io' where p: "poll_ready 1 (ata_bus demo_drive) (start_packet demo_drive ?io) = Inr (False, io')"
    by (simp add: start_packet_def ata_io_wait_def inb_times_log outb_def inb_def Let_def)
  have "(2 :: u8) \<noteq> 0" by simp
  from atapi_error_ignored [OF t this p] show ?thesis by blast
qed

text \<open>
  The delay of both buses reads other ports than their alternate status, 0x3F6 and 0x376: the
  bus number does not fit the parameter.
\<close>

lemma ata_io_wait_ports:
  "ata_io_wait 0x1F0 io = io\<lparr>io_log := io_log io @ replicate 4 (In 0x2F6)\<rparr>"
  "ata_io_wait 0x170 io = io\<lparr>io_log := io_log io @ replicate 4 (In 0x276)\<rparr>"
  by (simp_all add: ata_io_wait_def inb_times_log)

end
