(* ===== verification/Descr.thy ===== *)
theory Descr
  imports Prelude
begin

section \<open>Descriptor tables\<close>

text \<open>
  \<open>kernel/kernel/i386/gdt.c\<close>, \<open>idt.c\<close>, the gates of \<open>exceptionx86.c\<close> and \<open>irq.c\<close>. The bit fields are
  words of their width, so an assignment cuts off what does not fit. The addresses of the
  task state segment, of the tables and of the entry points in \<open>boot.S\<close> are arguments; loading
  the tables into the processor is what \<open>lgdt\<close> and \<open>lidt\<close> make of the pointers.
\<close>

subsection \<open>The segments\<close>

record gdt_entry_bits =
  limit_low :: "16 word"
  base_low :: "24 word"
  accessed :: "1 word"
  read_write :: "1 word"
  conforming_expand_down :: "1 word"
  code_bit :: "1 word"
  code_data_segment :: "1 word"
  DPL :: "2 word"
  present_bit :: "1 word"
  limit_high :: "4 word"
  available :: "1 word"
  long_mode :: "1 word"
  big :: "1 word"
  gran :: "1 word"
  base_high :: "8 word"

record tss_entry_struct =
  tss_prev :: u32   tss_esp0 :: u32   tss_ss0 :: u32
  tss_esp1 :: u32   tss_ss1 :: u32    tss_esp2 :: u32   tss_ss2 :: u32
  tss_cr3 :: u32    tss_eip :: u32    tss_eflags :: u32
  tss_eax :: u32    tss_ecx :: u32    tss_edx :: u32    tss_ebx :: u32
  tss_esp :: u32    tss_ebp :: u32    tss_esi :: u32    tss_edi :: u32
  tss_es :: u32     tss_cs :: u32     tss_ss :: u32     tss_ds :: u32   tss_fs :: u32   tss_gs :: u32
  tss_ldt :: u32    tss_trap :: u16   iomap_base :: u16 tss_ssp :: u32

definition TSS_SIZE :: nat where "TSS_SIZE = 25 * 4 + 2 * 2 + 4"

definition zero_tss :: tss_entry_struct where
  "zero_tss = \<lparr>tss_prev = 0, tss_esp0 = 0, tss_ss0 = 0, tss_esp1 = 0, tss_ss1 = 0, tss_esp2 = 0, tss_ss2 = 0,
     tss_cr3 = 0, tss_eip = 0, tss_eflags = 0, tss_eax = 0, tss_ecx = 0, tss_edx = 0, tss_ebx = 0, tss_esp = 0, tss_ebp = 0,
     tss_esi = 0, tss_edi = 0, tss_es = 0, tss_cs = 0, tss_ss = 0, tss_ds = 0, tss_fs = 0, tss_gs = 0, tss_ldt = 0,
     tss_trap = 0, iomap_base = 0, tss_ssp = 0\<rparr>"

record gdt_state =
  gdt :: "gdt_entry_bits list"
  gp_limit :: u16
  gp_base :: u32
  tss_entry :: tss_entry_struct

definition upd_gdt :: "gdt_state \<Rightarrow> nat \<Rightarrow> (gdt_entry_bits \<Rightarrow> gdt_entry_bits) \<Rightarrow> gdt_state res" where
  "upd_gdt g num f =
     rbind (aget ''gdt'' (gdt g) num) (\<lambda>e. Inr (g\<lparr>gdt := (gdt g)[num := f e]\<rparr>))"

definition gdt_set_gate :: "gdt_state \<Rightarrow> nat \<Rightarrow> u8 \<Rightarrow> gdt_state res" where
  "gdt_set_gate g num access =
     upd_gdt g num (\<lambda>e. e\<lparr>base_low := 0, base_high := 0, limit_low := 0xFFFF, limit_high := 0xF,
       gran := 1, big := 1, long_mode := 0, available := 0,
       present_bit := ucast (drop_bit 7 access),
       DPL := ucast (drop_bit 5 access AND 3),
       code_data_segment := ucast (drop_bit 4 access AND 1),
       code_bit := ucast (drop_bit 3 access AND 1),
       conforming_expand_down := ucast (drop_bit 2 access AND 1),
       read_write := ucast (drop_bit 1 access AND 1),
       accessed := ucast (access AND 1)\<rparr>)"

definition gdt_set_gate_null :: "gdt_state \<Rightarrow> nat \<Rightarrow> gdt_state res" where
  "gdt_set_gate_null g num =
     upd_gdt g num (\<lambda>e. \<lparr>limit_low = 0, base_low = 0, accessed = 0, read_write = 0, conforming_expand_down = 0,
       code_bit = 0, code_data_segment = 0, DPL = 0, present_bit = 0, limit_high = 0, available = 0, long_mode = 0,
       big = 0, gran = 0, base_high = 0\<rparr>)"

text \<open>\<open>base\<close> is the address of \<open>tss_entry\<close>, \<open>esp\<close> the stack pointer at the call.\<close>

definition write_tss :: "u32 \<Rightarrow> u32 \<Rightarrow> gdt_state \<Rightarrow> nat \<Rightarrow> gdt_state res" where
  "write_tss base esp g num =
     (let lim = (of_nat TSS_SIZE :: u32) in
      rbind (upd_gdt g num (\<lambda>_. \<lparr>limit_low = ucast lim, base_low = ucast base, accessed = 1, read_write = 0,
        conforming_expand_down = 0, code_bit = 1, code_data_segment = 0, DPL = 0, present_bit = 1,
        limit_high = ucast (drop_bit 16 (lim AND push_bit 16 0xF)), available = 0, long_mode = 0, big = 0, gran = 0,
        base_high = ucast (drop_bit 24 (base AND push_bit 24 0xFF))\<rparr>)) (\<lambda>g.
      Inr (g\<lparr>tss_entry := zero_tss\<lparr>tss_ss0 := 0x10, tss_esp0 := esp, iomap_base := of_nat TSS_SIZE\<rparr>\<rparr>)))"

definition gdt_setup :: "u32 \<Rightarrow> u32 \<Rightarrow> u32 \<Rightarrow> gdt_state \<Rightarrow> gdt_state res" where
  "gdt_setup gdt_addr tss_addr esp g =
     rbind (gdt_set_gate_null (g\<lparr>gp_limit := 8 * 6 - 1, gp_base := gdt_addr\<rparr>) 0) (\<lambda>g.
     rbind (gdt_set_gate g 1 0x9A) (\<lambda>g.
     rbind (gdt_set_gate g 2 0x92) (\<lambda>g.
     rbind (gdt_set_gate g 3 0xFA) (\<lambda>g.
     rbind (gdt_set_gate g 4 0xF2) (\<lambda>g.
     write_tss tss_addr esp g 5)))))"

text \<open>\<open>set_kernel_stack\<close> of a thread with saved stack pointer \<open>esp_k\<close>.\<close>

definition set_kernel_stack :: "u32 \<Rightarrow> nat \<Rightarrow> gdt_state \<Rightarrow> gdt_state" where
  "set_kernel_stack esp privilege_level g =
     (let newesp0 = (if privilege_level \<noteq> 0 then esp + 76 else esp + 68) in
      g\<lparr>tss_entry := (tss_entry g)\<lparr>tss_esp0 := newesp0\<rparr>\<rparr>)"

subsection \<open>The gates\<close>

record idt_entry =
  offset_lo :: u16
  sel :: u16
  always0 :: u8
  flags :: u8
  offset_hi :: u16

definition idt_set_gate :: "idt_entry list \<Rightarrow> u8 \<Rightarrow> u32 \<Rightarrow> u8 \<Rightarrow> idt_entry list res" where
  "idt_set_gate idt num func fl =
     aset ''idt'' idt (unat num) \<lparr>offset_lo = ucast (func AND 0xFFFF), sel = 8, always0 = 0, flags = fl,
       offset_hi = ucast (drop_bit 16 func AND 0xFFFF)\<rparr>"

primrec set_gates :: "(u8 \<times> u32 \<times> u8) list \<Rightarrow> idt_entry list \<Rightarrow> idt_entry list res" where
  "set_gates [] idt = Inr idt"
| "set_gates (g # gs) idt =
     (case g of (num, func, fl) \<Rightarrow> rbind (idt_set_gate idt num func fl) (set_gates gs))"

text \<open>\<open>isr n\<close> and \<open>irq n\<close> are the entry points; the last one is for vector 0x80.\<close>

definition exception_vectors :: "nat list" where
  "exception_vectors = [0, 1, 2, 3, 4, 5, 6, 7, 8, 9, 10, 11, 12, 13, 14, 16, 17, 18, 19, 20, 21, 28, 29, 30]"

definition isrs_install :: "(nat \<Rightarrow> u32) \<Rightarrow> idt_entry list \<Rightarrow> idt_entry list res" where
  "isrs_install isr = set_gates (map (\<lambda>n. (of_nat n, isr n, 0x8F)) exception_vectors)"

definition irq_gates :: "(nat \<Rightarrow> u32) \<Rightarrow> (u8 \<times> u32 \<times> u8) list" where
  "irq_gates irq = map (\<lambda>n. (of_nat (32 + n), irq n, 0x8E)) [0..<16] @ [(48, irq 16, 0xEE), (0x80, irq 0x60, 0xEE)]"

definition zero_gate :: idt_entry where
  "zero_gate = \<lparr>offset_lo = 0, sel = 0, always0 = 0, flags = 0, offset_hi = 0\<rparr>"

text \<open>The size of the table and its entries after \<open>idt_setup\<close>, given where it lies.\<close>

definition idt_setup :: "u32 \<Rightarrow> (nat \<Rightarrow> u32) \<Rightarrow> ((u16 \<times> u32) \<times> idt_entry list) res" where
  "idt_setup idt_addr isr =
     rbind (isrs_install isr (replicate 256 zero_gate)) (\<lambda>idt. Inr ((8 * 256 - 1, idt_addr), idt))"

subsection \<open>What the processor reads\<close>

text \<open>A descriptor as the eight bytes in memory, and the fields the processor takes from them.\<close>

definition encode :: "gdt_entry_bits \<Rightarrow> 64 word" where
  "encode e = ucast (limit_low e) OR push_bit 16 (ucast (base_low e)) OR push_bit 40 (ucast (accessed e)) OR
     push_bit 41 (ucast (read_write e)) OR push_bit 42 (ucast (conforming_expand_down e)) OR push_bit 43 (ucast (code_bit e)) OR
     push_bit 44 (ucast (code_data_segment e)) OR push_bit 45 (ucast (DPL e)) OR push_bit 47 (ucast (present_bit e)) OR
     push_bit 48 (ucast (limit_high e)) OR push_bit 52 (ucast (available e)) OR push_bit 53 (ucast (long_mode e)) OR
     push_bit 54 (ucast (big e)) OR push_bit 55 (ucast (gran e)) OR push_bit 56 (ucast (base_high e))"

definition seg_base :: "64 word \<Rightarrow> u32" where
  "seg_base d = ucast (drop_bit 16 d AND mask 24) OR push_bit 24 (ucast (drop_bit 56 d))"

definition seg_limit :: "64 word \<Rightarrow> u32" where
  "seg_limit d = ucast (d AND mask 16) OR push_bit 16 (ucast (drop_bit 48 d AND mask 4))"

definition seg_access :: "64 word \<Rightarrow> u8" where
  "seg_access d = ucast (drop_bit 40 d)"

definition gate_offset :: "idt_entry \<Rightarrow> u32" where
  "gate_offset e = ucast (offset_lo e) OR push_bit 16 (ucast (offset_hi e))"

definition gate_present :: "idt_entry \<Rightarrow> bool" where "gate_present e \<longleftrightarrow> bit (flags e) 7"

text \<open>The least privileged ring that may call the gate with \<open>int\<close>.\<close>

definition gate_dpl :: "idt_entry \<Rightarrow> nat" where "gate_dpl e = unat (drop_bit 5 (flags e) AND 3)"

subsection \<open>The segments after the setup\<close>

lemma upd_gdt_ok: "num < length (gdt g) \<Longrightarrow> upd_gdt g num f = Inr (g\<lparr>gdt := (gdt g)[num := f (gdt g ! num)]\<rparr>)"
  by (simp add: upd_gdt_def)

definition flat_segment :: "gdt_entry_bits \<Rightarrow> u8 \<Rightarrow> gdt_entry_bits" where
  "flat_segment e access = e\<lparr>base_low := 0, base_high := 0, limit_low := 0xFFFF, limit_high := 0xF,
       gran := 1, big := 1, long_mode := 0, available := 0,
       present_bit := ucast (drop_bit 7 access), DPL := ucast (drop_bit 5 access AND 3),
       code_data_segment := ucast (drop_bit 4 access AND 1), code_bit := ucast (drop_bit 3 access AND 1),
       conforming_expand_down := ucast (drop_bit 2 access AND 1), read_write := ucast (drop_bit 1 access AND 1),
       accessed := ucast (access AND 1)\<rparr>"

lemma encode_flat:
  "encode (flat_segment e 0x9A) = 0x00CF9A000000FFFF" "encode (flat_segment e 0x92) = 0x00CF92000000FFFF"
  "encode (flat_segment e 0xFA) = 0x00CFFA000000FFFF" "encode (flat_segment e 0xF2) = 0x00CFF2000000FFFF"
  by (simp_all add: encode_def flat_segment_def)

lemma gdt_set_gate_ok: "num < length (gdt g) \<Longrightarrow> gdt_set_gate g num a = Inr (g\<lparr>gdt := (gdt g)[num := flat_segment (gdt g ! num) a]\<rparr>)"
  by (simp add: gdt_set_gate_def upd_gdt_ok flat_segment_def)

definition tss_segment :: "u32 \<Rightarrow> gdt_entry_bits" where
  "tss_segment base = \<lparr>limit_low = 108, base_low = ucast base, accessed = 1, read_write = 0,
        conforming_expand_down = 0, code_bit = 1, code_data_segment = 0, DPL = 0, present_bit = 1,
        limit_high = 0, available = 0, long_mode = 0, big = 0, gran = 0, base_high = ucast (drop_bit 24 base)\<rparr>"

lemma high_powers:
  "n < 24 \<Longrightarrow> \<not> bit (16777216 :: 'a :: semiring_bit_operations) n" "n < 24 \<Longrightarrow> \<not> bit (134217728 :: 'a) n"
  "n < 24 \<Longrightarrow> \<not> bit (2147483648 :: 'a) n" "n < 16 \<Longrightarrow> \<not> bit (1099511627776 :: 'a) n"
  "n < 16 \<Longrightarrow> \<not> bit (8796093022208 :: 'a) n" "n < 16 \<Longrightarrow> \<not> bit (140737488355328 :: 'a) n"
proof -
  have e: "(16777216 :: 'a) = 2 ^ 24" "(134217728 :: 'a) = 2 ^ 27" "(2147483648 :: 'a) = 2 ^ 31"
    "(1099511627776 :: 'a) = 2 ^ 40" "(8796093022208 :: 'a) = 2 ^ 43" "(140737488355328 :: 'a) = 2 ^ 47"
    by simp_all
  show "n < 24 \<Longrightarrow> \<not> bit (16777216 :: 'a) n" "n < 24 \<Longrightarrow> \<not> bit (134217728 :: 'a) n" "n < 24 \<Longrightarrow> \<not> bit (2147483648 :: 'a) n"
    "n < 16 \<Longrightarrow> \<not> bit (1099511627776 :: 'a) n" "n < 16 \<Longrightarrow> \<not> bit (8796093022208 :: 'a) n"
    "n < 16 \<Longrightarrow> \<not> bit (140737488355328 :: 'a) n"
    unfolding e by (simp_all only: bit_exp_iff) simp_all
qed

lemma low_bits: "bit (108 :: 16 word) n \<Longrightarrow> n < 16" "bit (108 :: u32) n \<Longrightarrow> n < 16" "bit (108 :: 64 word) n \<Longrightarrow> n < 16"
  "bit (108 :: int) n \<Longrightarrow> n < 16" "bit (108 :: nat) n \<Longrightarrow> n < 16"
proof -
  have e: "(108 :: u32) = take_bit 16 108" "(108 :: 64 word) = take_bit 16 108" "(108 :: int) = take_bit 16 108"
    "(108 :: nat) = take_bit 16 108" by simp_all
  show "bit (108 :: 16 word) n \<Longrightarrow> n < 16" by (auto dest: bit_imp_le_length)
  show "bit (108 :: u32) n \<Longrightarrow> n < 16" by (subst (asm) e) (simp only: bit_take_bit_iff)
  show "bit (108 :: 64 word) n \<Longrightarrow> n < 16" by (subst (asm) e) (simp only: bit_take_bit_iff)
  show "bit (108 :: int) n \<Longrightarrow> n < 16" by (subst (asm) e) (simp only: bit_take_bit_iff)
  show "bit (108 :: nat) n \<Longrightarrow> n < 16" by (subst (asm) e) (simp only: bit_take_bit_iff)
qed

lemma tss_fields:
  "seg_base (encode (tss_segment base)) = base" "seg_limit (encode (tss_segment base)) = 108" "seg_access (encode (tss_segment base)) = 0x89"
proof -
  show "seg_base (encode (tss_segment base)) = base"
    by (rule bit_word_eqI) (auto simp: seg_base_def encode_def tss_segment_def bit_simps high_powers)
  show "seg_limit (encode (tss_segment base)) = 108"
    by (rule bit_word_eqI) (auto simp: seg_limit_def encode_def tss_segment_def bit_simps high_powers dest: low_bits)
  show "seg_access (encode (tss_segment base)) = 0x89"
  proof (rule bit_word_eqI)
    fix n assume "n < LENGTH(8)"
    then have "n \<in> {0, 1, 2, 3, 4, 5, 6, 7}" by auto
    then show "bit (seg_access (encode (tss_segment base))) n = bit (0x89 :: u8) n"
      by (auto simp: seg_access_def encode_def tss_segment_def bit_simps)
  qed
qed

text \<open>
  After \<open>gdt_setup\<close> the processor sees a null descriptor, code and data segments that span
  all four gigabytes for the kernel and for user programs, and a task state segment at the
  address of \<open>tss_entry\<close>, whose stack is the kernel's; the table pointer covers the six.
\<close>

theorem gdt_setup_table:
  assumes "length (gdt g) = 6"
  shows "\<exists>g'. gdt_setup gdt_addr tss_addr esp g = Inr g' \<and> length (gdt g') = 6 \<and>
    map encode (take 5 (gdt g')) = [0, 0x00CF9A000000FFFF, 0x00CF92000000FFFF, 0x00CFFA000000FFFF, 0x00CFF2000000FFFF] \<and>
    seg_base (encode (gdt g' ! 5)) = tss_addr \<and> seg_limit (encode (gdt g' ! 5)) = 108 \<and>
    seg_access (encode (gdt g' ! 5)) = 0x89 \<and> gp_limit g' = 47 \<and> gp_base g' = gdt_addr \<and>
    tss_ss0 (tss_entry g') = 0x10 \<and> tss_esp0 (tss_entry g') = esp"
proof -
  obtain a b c d e f where g: "gdt g = [a, b, c, d, e, f]"
    using assms by (auto simp: length_Suc_conv numeral_eq_Suc)
  let ?null = "\<lparr>limit_low = 0, base_low = 0, accessed = 0, read_write = 0, conforming_expand_down = 0,
       code_bit = 0, code_data_segment = 0, DPL = 0, present_bit = 0, limit_high = 0, available = 0, long_mode = 0,
       big = 0, gran = 0, base_high = 0\<rparr> :: gdt_entry_bits"
  have null: "encode ?null = 0" by (simp add: encode_def)
  have high: "(ucast (drop_bit 24 (x AND 0xFF000000)) :: 8 word) = ucast (drop_bit 24 x)" for x :: u32
  proof -
    have m: "(0xFF000000 :: u32) = push_bit 24 (mask 8)" by (simp add: mask_eq_exp_minus_1)
    show ?thesis unfolding m by (rule bit_word_eqI) (auto simp: bit_simps)
  qed
  have "gdt_setup gdt_addr tss_addr esp g = Inr (g\<lparr>gp_limit := 47, gp_base := gdt_addr,
      gdt := [?null, flat_segment b 0x9A, flat_segment c 0x92, flat_segment d 0xFA, flat_segment e 0xF2, tss_segment tss_addr],
      tss_entry := zero_tss\<lparr>tss_ss0 := 0x10, tss_esp0 := esp, iomap_base := 108\<rparr>\<rparr>)"
    using g high [of tss_addr]
    by (simp add: gdt_setup_def gdt_set_gate_null_def upd_gdt_ok gdt_set_gate_ok write_tss_def TSS_SIZE_def tss_segment_def)
  then show ?thesis by (simp add: encode_flat null tss_fields)
qed

definition demo_gdt :: gdt_state where
  "demo_gdt = \<lparr>gdt = replicate 6 (tss_segment 0), gp_limit = 0, gp_base = 0, tss_entry = zero_tss\<rparr>"

lemma gdt_setup_table_witness:
  "\<exists>g'. gdt_setup 0xC0100000 0xC0102000 0xC0200000 demo_gdt = Inr g' \<and> seg_base (encode (gdt g' ! 5)) = 0xC0102000 \<and>
     encode (gdt g' ! 3) = 0x00CFFA000000FFFF"
proof -
  have "length (gdt demo_gdt) = 6" by (simp add: demo_gdt_def)
  from gdt_setup_table [OF this, of "0xC0100000" "0xC0102000" "0xC0200000"] show ?thesis
  proof (elim exE conjE)
    fix g'
    assume g: "gdt_setup 0xC0100000 0xC0102000 0xC0200000 demo_gdt = Inr g'" "length (gdt g') = 6"
      "map encode (take 5 (gdt g')) = [0, 0x00CF9A000000FFFF, 0x00CF92000000FFFF, 0x00CFFA000000FFFF, 0x00CFF2000000FFFF]"
      "seg_base (encode (gdt g' ! 5)) = 0xC0102000"
    have "map encode (take 5 (gdt g')) ! 3 = 0x00CFFA000000FFFF" unfolding g(3) by simp
    then have "encode (gdt g' ! 3) = 0x00CFFA000000FFFF" using g(2) by simp
    with g(1,4) show ?thesis by blast
  qed
qed

subsection \<open>The gates after the setup\<close>

definition mk_gate :: "u32 \<Rightarrow> u8 \<Rightarrow> idt_entry" where
  "mk_gate func fl = \<lparr>offset_lo = ucast (func AND 0xFFFF), sel = 8, always0 = 0, flags = fl,
     offset_hi = ucast (drop_bit 16 func AND 0xFFFF)\<rparr>"

lemma gate_offset_mk: "gate_offset (mk_gate func fl) = func"
proof -
  have m: "(0xFFFF :: u32) = mask 16" by (simp add: mask_eq_exp_minus_1)
  show ?thesis unfolding gate_offset_def mk_gate_def idt_entry.simps m
    by (rule bit_word_eqI) (auto simp: bit_simps)
qed

lemma set_gates_spec:
  "\<lbrakk>length idt = 256; distinct (map fst gs)\<rbrakk> \<Longrightarrow> \<exists>idt'. set_gates gs idt = Inr idt' \<and> length idt' = 256 \<and>
     (\<forall>n f fl. (n, f, fl) \<in> set gs \<longrightarrow> idt' ! unat n = mk_gate f fl) \<and>
     (\<forall>v. (\<forall>n\<in>fst ` set gs. unat n \<noteq> v) \<longrightarrow> idt' ! v = idt ! v)"
proof (induction gs arbitrary: idt)
  case (Cons g gs)
  obtain n f fl where g: "g = (n, f, fl)" by (cases g)
  let ?idt = "idt[unat n := mk_gate f fl]"
  have lt: "unat n < 256" using unsigned_less [of n] by simp
  have new: "n \<notin> fst ` set gs" using Cons.prems(2) g by simp
  from Cons.IH [of ?idt] Cons.prems obtain idt' where i: "set_gates gs ?idt = Inr idt'" "length idt' = 256"
    "\<forall>n f fl. (n, f, fl) \<in> set gs \<longrightarrow> idt' ! unat n = mk_gate f fl"
    "\<forall>v. (\<forall>n\<in>fst ` set gs. unat n \<noteq> v) \<longrightarrow> idt' ! v = ?idt ! v" by auto
  have "\<forall>k\<in>fst ` set gs. unat k \<noteq> unat n" using new by (metis word_eq_iff_unsigned)
  then have "idt' ! unat n = mk_gate f fl" using i(4) lt Cons.prems(1) by simp
  moreover have "set_gates (g # gs) idt = Inr idt'"
    using i(1) lt Cons.prems(1) g by (simp add: idt_set_gate_def mk_gate_def)
  ultimately show ?case using i g by auto
qed simp

lemma set_gates_append: "set_gates (xs @ ys) = (\<lambda>idt. rbind (set_gates xs idt) (set_gates ys))"
  by (induction xs) (auto simp: rbind_assoc)

definition all_gates :: "(nat \<Rightarrow> u32) \<Rightarrow> (nat \<Rightarrow> u32) \<Rightarrow> (u8 \<times> u32 \<times> u8) list" where
  "all_gates isr irq = map (\<lambda>n. (of_nat n, isr n, 0x8F)) exception_vectors @ irq_gates irq"

text \<open>The handler of each vector, and its flags.\<close>

definition vector_gate :: "(nat \<Rightarrow> u32) \<Rightarrow> (nat \<Rightarrow> u32) \<Rightarrow> nat \<Rightarrow> idt_entry" where
  "vector_gate isr irq v =
     (if v \<in> set exception_vectors then mk_gate (isr v) 0x8F
      else if v \<in> {32..<48} then mk_gate (irq (v - 32)) 0x8E
      else if v = 48 then mk_gate (irq 16) 0xEE
      else if v = 0x80 then mk_gate (irq 0x60) 0xEE
      else zero_gate)"

lemma all_gates_distinct: "distinct (map fst (all_gates isr irq))"
  by (simp add: all_gates_def exception_vectors_def irq_gates_def upt_rec)

lemma tables_ok:
  assumes "v < 256"
  shows "\<exists>idt. rbind (idt_setup a isr) (\<lambda>(p, idt). set_gates (irq_gates irq) idt) = Inr idt \<and> length idt = 256 \<and>
    idt ! v = vector_gate isr irq v"
proof -
  obtain idt where i: "set_gates (all_gates isr irq) (replicate 256 zero_gate) = Inr idt" "length idt = 256"
    "\<forall>n f fl. (n, f, fl) \<in> set (all_gates isr irq) \<longrightarrow> idt ! unat n = mk_gate f fl"
    "\<forall>v. (\<forall>n\<in>fst ` set (all_gates isr irq). unat n \<noteq> v) \<longrightarrow> idt ! v = replicate 256 zero_gate ! v"
    using set_gates_spec [of "replicate 256 zero_gate", OF _ all_gates_distinct [of isr irq]] by auto
  have u: "unat (of_nat n :: u8) = n" if "n < 256" for n using that by (simp add: unat_of_nat)
  have g: "(of_nat v, f, fl) \<in> set (all_gates isr irq) \<Longrightarrow> idt ! v = mk_gate f fl" for f fl
    using i(3) u [OF assms] by metis
  have "idt ! v = vector_gate isr irq v"
  proof (cases "v \<in> set exception_vectors \<or> v \<in> {32..<48} \<or> v = 48 \<or> v = 0x80")
    case True
    have low: "k \<in> set exception_vectors \<Longrightarrow> k < 32" for k by (auto simp: exception_vectors_def)
    consider "v \<in> set exception_vectors" | n where "v = 32 + n" "n < 16" | "v = 48" | "v = 0x80"
    proof -
      have "v = 32 + (v - 32)" "v - 32 < 16" if "v \<in> {32..<48}" using that by auto
      then show thesis using True that by blast
    qed
    then show ?thesis
    proof cases
      case 1
      then show ?thesis by (intro trans [OF g [of "isr v" "0x8F"]]) (auto simp: all_gates_def vector_gate_def)
    next
      case 2
      then have "(of_nat v, irq n, 0x8E) \<in> set (irq_gates irq)" by (auto simp: irq_gates_def image_iff intro!: bexI [of _ n])
      then show ?thesis using 2 low [of v]
        by (intro trans [OF g [of "irq n" "0x8E"]]) (auto simp: all_gates_def vector_gate_def)
    next
      case 3
      then show ?thesis using low [of v]
        by (intro trans [OF g [of "irq 16" "0xEE"]]) (auto simp: all_gates_def irq_gates_def vector_gate_def)
    next
      case 4
      then show ?thesis using low [of v]
        by (intro trans [OF g [of "irq 0x60" "0xEE"]]) (auto simp: all_gates_def irq_gates_def vector_gate_def)
    qed
  next
    case False
    then have "unat n \<noteq> v" if "n \<in> fst ` set (all_gates isr irq)" for n
      using that by (auto simp: all_gates_def irq_gates_def exception_vectors_def upt_rec)
    then show ?thesis using i(4) False assms by (auto simp: vector_gate_def)
  qed
  moreover have "rbind (idt_setup a isr) (\<lambda>(p, idt). set_gates (irq_gates irq) idt) = Inr idt"
    using i(1) by (simp add: idt_setup_def isrs_install_def all_gates_def set_gates_append rbind_assoc)
  ultimately show ?thesis using i(2) by blast
qed

lemma tables_all:
  "\<exists>idt. rbind (idt_setup a isr) (\<lambda>(p, idt). set_gates (irq_gates irq) idt) = Inr idt \<and>
    (\<forall>v<256. idt ! v = vector_gate isr irq v)"
proof -
  obtain idt where i: "rbind (idt_setup a isr) (\<lambda>(p, idt). set_gates (irq_gates irq) idt) = Inr idt"
    using tables_ok [of 0 a isr irq] by auto
  have "idt ! v = vector_gate isr irq v" if "v < 256" for v
    using tables_ok [OF that, of a isr irq] i by (metis sum.inject(2))
  with i show ?thesis by blast
qed

lemma gate_bits: "gate_present (mk_gate f 0x8F)" "gate_present (mk_gate f 0x8E)" "gate_present (mk_gate f 0xEE)"
  "\<not> gate_present zero_gate" "gate_dpl (mk_gate f 0x8F) = 0" "gate_dpl (mk_gate f 0x8E) = 0" "gate_dpl (mk_gate f 0xEE) = 3"
  by (simp_all add: gate_present_def mk_gate_def gate_dpl_def zero_gate_def)

text \<open>The entry point of a vector.\<close>

definition vector_entry :: "(nat \<Rightarrow> u32) \<Rightarrow> (nat \<Rightarrow> u32) \<Rightarrow> nat \<Rightarrow> u32" where
  "vector_entry isr irq v = (if v < 32 then isr v else if v = 0x80 then irq 0x60 else irq (v - 32))"

text \<open>
  C18: After \<open>idt_setup\<close> and \<open>irq_install\<close> a vector has a handler exactly when it is one of the
  processor's exceptions that the kernel handles, one of the sixteen hardware interrupts, the
  yield (48) or the system call (0x80); the gate leads to that vector's entry point in the
  kernel's code segment; and the only ones a program may call are the yield and the system
  call.
\<close>

theorem idt_vectors:
  "\<exists>idt. rbind (idt_setup a isr) (\<lambda>(p, idt). set_gates (irq_gates irq) idt) = Inr idt \<and>
    (\<forall>v<256. (gate_present (idt ! v) \<longleftrightarrow> v \<in> set exception_vectors \<or> 32 \<le> v \<and> v \<le> 48 \<or> v = 0x80) \<and>
      (gate_present (idt ! v) \<longrightarrow> sel (idt ! v) = 8 \<and> gate_offset (idt ! v) = vector_entry isr irq v \<and>
        (gate_dpl (idt ! v) = 3 \<longleftrightarrow> v = 48 \<or> v = 0x80)))"
proof -
  obtain idt where i: "rbind (idt_setup a isr) (\<lambda>(p, idt). set_gates (irq_gates irq) idt) = Inr idt"
    "\<And>v. v < 256 \<Longrightarrow> idt ! v = vector_gate isr irq v" using tables_all by blast
  have low: "k \<in> set exception_vectors \<Longrightarrow> k < 32" for k by (auto simp: exception_vectors_def)
  have sel: "sel (mk_gate f fl) = 8" for f fl by (simp add: mk_gate_def)
  have "(gate_present (idt ! v) \<longleftrightarrow> v \<in> set exception_vectors \<or> 32 \<le> v \<and> v \<le> 48 \<or> v = 0x80) \<and>
      (gate_present (idt ! v) \<longrightarrow> sel (idt ! v) = 8 \<and> gate_offset (idt ! v) = vector_entry isr irq v \<and>
        (gate_dpl (idt ! v) = 3 \<longleftrightarrow> v = 48 \<or> v = 0x80))" if "v < 256" for v
    unfolding i(2) [OF that] using low [of v] sel
    by (auto simp: vector_gate_def gate_bits gate_offset_mk vector_entry_def)
  with i(1) show ?thesis by blast
qed

lemma idt_vectors_witness:
  "\<exists>idt. rbind (idt_setup 0xC0108000 (\<lambda>n. 0xC0100000 + of_nat n)) (\<lambda>(p, idt). set_gates (irq_gates (\<lambda>n. 0xC0101000 + of_nat n)) idt) = Inr idt \<and>
     gate_offset (idt ! 0x80) = 0xC0101060 \<and> gate_dpl (idt ! 14) \<noteq> 3"
proof -
  let ?isr = "\<lambda>n. 0xC0100000 + of_nat n" and ?irq = "\<lambda>n. 0xC0101000 + of_nat n"
  obtain idt where i: "rbind (idt_setup 0xC0108000 ?isr) (\<lambda>(p, idt). set_gates (irq_gates ?irq) idt) = Inr idt"
    and v: "\<forall>v<256. (gate_present (idt ! v) \<longleftrightarrow> v \<in> set exception_vectors \<or> 32 \<le> v \<and> v \<le> 48 \<or> v = 0x80) \<and>
      (gate_present (idt ! v) \<longrightarrow> sel (idt ! v) = 8 \<and> gate_offset (idt ! v) = vector_entry ?isr ?irq v \<and>
        (gate_dpl (idt ! v) = 3 \<longleftrightarrow> v = 48 \<or> v = 0x80))"
    using idt_vectors [of "0xC0108000" ?isr ?irq] by blast
  from v [rule_format, of "0x80"] v [rule_format, of 14] i show ?thesis
    by (intro exI [of _ idt]) (simp add: vector_entry_def exception_vectors_def)
qed

end
