(* ===== verification/VfsPath.thy ===== *)
theory VfsPath
  imports Vfs
begin

section \<open>Paths of the virtual file system\<close>

text \<open>
  \<open>vfs_get_path_directory\<close> and \<open>vfs_find_directory\<close> against the tree of directories: on a
  well-formed tree the path a directory is given leads back to it. The lookup has a flaw on
  directories that contain a directory of their own name, which the last section exhibits.
\<close>

subsection \<open>Splitting and joining\<close>

fun join :: "string list \<Rightarrow> string" where
  "join [] = []"
| "join [n] = n"
| "join (n # m # ns) = n @ CHR ''/'' # join (m # ns)"

lemma join_Cons: "ns \<noteq> [] \<Longrightarrow> join (n # ns) = n @ CHR ''/'' # join ns"
  by (cases ns) auto

definition good_name :: "string \<Rightarrow> bool" where
  "good_name nm \<longleftrightarrow> nm \<noteq> [] \<and> CHR ''/'' \<notin> set nm \<and> NUL \<notin> set nm \<and> nm \<noteq> ''..''"

lemma tokens_join: "\<forall>n\<in>set ns. good_name n \<Longrightarrow> tokens {CHR ''/''} (join ns) = ns"
proof (induction ns rule: join.induct)
  case 1
  show ?case by (simp add: tokens_Nil)
next
  case (2 n)
  then show ?case by (simp add: tokens_last good_name_def)
next
  case (3 n m ns)
  then show ?case by (simp add: tokens_step good_name_def del: join.simps(2))
qed

lemma NUL_join: "\<forall>n\<in>set ns. good_name n \<Longrightarrow> NUL \<notin> set (join ns)"
  by (induction ns rule: join.induct) (auto simp: good_name_def)

lemma join_eq_Nil: "\<forall>n\<in>set ns. good_name n \<Longrightarrow> join ns = [] \<longleftrightarrow> ns = []"
  by (cases ns rule: join.cases) (auto simp: good_name_def)

definition good_volume :: "string \<Rightarrow> bool" where
  "good_volume vol \<longleftrightarrow> vol \<noteq> [] \<and> CHR '':'' \<notin> set vol \<and> NUL \<notin> set vol \<and> length vol \<le> 16"

lemma path_entries_join:
  assumes "good_volume vol" "\<forall>n\<in>set ns. good_name n"
  shows "path_entries (vol @ CHR '':'' # join ns) = Inr ns"
proof -
  have first: "strtok_r ((vol @ CHR '':'' # join ns) @ [NUL]) (Some 0) [CHR '':'', NUL] 0 =
      Inr (Some 0, vol @ NUL # join ns @ [NUL], Suc (length vol))"
    using strtok_r_more [of "[CHR '':'', NUL]" "[]" vol "CHR '':''" "join ns @ [NUL]" "[]"] assms(1)
    by (simp add: good_volume_def terminated_def strtok_r_def)
  have "strtok_list ((vol @ [NUL]) @ join ns @ NUL # []) [CHR ''/'', NUL] (length (vol @ [NUL])) =
      Inr (tokens (set (cstr [CHR ''/'', NUL])) (join ns))"
    using NUL_join [OF assms(2)] by (intro strtok_list_ok) (simp_all add: terminated_def)
  then show ?thesis
    using first tokens_join [OF assms(2)] by (simp add: path_entries_def)
qed

lemma volume_loop_ok:
  "CHR '':'' \<notin> set vol \<Longrightarrow> length vol < n \<Longrightarrow> volume_loop (vol @ CHR '':'' # w) n = Some vol"
proof (induction vol arbitrary: n)
  case Nil
  then show ?case by (cases n) auto
next
  case (Cons c vol)
  then show ?case by (cases n) auto
qed

subsection \<open>Well-formed trees\<close>

text \<open>Going down from directory \<open>r\<close> along the names.\<close>

primrec reach :: "vfs \<Rightarrow> nat \<Rightarrow> string list \<Rightarrow> nat \<Rightarrow> bool" where
  "reach v r [] d \<longleftrightarrow> r = d"
| "reach v r (n # ns) d \<longleftrightarrow> (\<exists>p c. dir_at v r = Inr p \<and> c \<in> set (d_dirs p) \<and>
     (\<exists>x. dir_at v c = Inr x \<and> d_name x = Some n) \<and> reach v c ns d)"

definition named :: "vfs \<Rightarrow> nat \<Rightarrow> string \<Rightarrow> bool" where
  "named v c nm \<longleftrightarrow> (\<exists>x. dir_at v c = Inr x \<and> d_name x = Some nm)"

text \<open>
  Every directory is listed in its parent, on the same volume, under a usable name that is
  unique there; the root is the root of its volume. No directory contains one of its own name.
\<close>

definition dir_ok :: "vfs \<Rightarrow> nat \<Rightarrow> vdir \<Rightarrow> bool" where
  "dir_ok v d x \<longleftrightarrow>
     (case d_parent x of
        None \<Rightarrow> \<exists>m. mount_at v (d_volume x) = Inr m \<and> mp_root m = d
      | Some p \<Rightarrow> \<exists>px nm. dir_at v p = Inr px \<and> d \<in> set (d_dirs px) \<and> d_volume px = d_volume x \<and>
          d_name x = Some nm \<and> good_name nm) \<and>
     (\<forall>c\<in>set (d_dirs x). \<exists>y nm. dir_at v c = Inr y \<and> d_parent y = Some d \<and> d_name y = Some nm \<and>
        (d_parent x \<noteq> None \<longrightarrow> d_name x \<noteq> Some nm)) \<and>
     (\<forall>i<length (d_dirs x). \<forall>j<length (d_dirs x). \<forall>nm.
        named v (d_dirs x ! i) nm \<and> named v (d_dirs x ! j) nm \<longrightarrow> i = j)"

definition tree_ok :: "vfs \<Rightarrow> bool" where
  "tree_ok v \<longleftrightarrow> (\<forall>d x. dir_at v d = Inr x \<longrightarrow> dir_ok v d x)"

lemma tree_dir: "tree_ok v \<Longrightarrow> dir_at v d = Inr x \<Longrightarrow> dir_ok v d x"
  by (simp add: tree_ok_def)

lemma tree_parent:
  assumes "tree_ok v" "dir_at v d = Inr x" "d_parent x = Some p"
  obtains px nm where "dir_at v p = Inr px" "d \<in> set (d_dirs px)" "d_volume px = d_volume x"
    "d_name x = Some nm" "good_name nm"
  using tree_dir [OF assms(1,2)] assms(3) by (auto simp: dir_ok_def)

lemma tree_root:
  assumes "tree_ok v" "dir_at v d = Inr x" "d_parent x = None"
  shows "\<exists>m. mount_at v (d_volume x) = Inr m \<and> mp_root m = d"
  using tree_dir [OF assms(1,2)] assms(3) by (simp add: dir_ok_def)

lemma tree_child:
  assumes "tree_ok v" "dir_at v d = Inr x" "c \<in> set (d_dirs x)"
  obtains y nm where "dir_at v c = Inr y" "d_parent y = Some d" "d_name y = Some nm"
    "d_parent x \<noteq> None \<longrightarrow> d_name x \<noteq> Some nm"
  using tree_dir [OF assms(1,2)] assms(3) that unfolding dir_ok_def by metis

lemma tree_distinct:
  assumes "tree_ok v" "dir_at v d = Inr x" "i < length (d_dirs x)" "j < length (d_dirs x)"
    "named v (d_dirs x ! i) nm" "named v (d_dirs x ! j) nm"
  shows "i = j"
  using tree_dir [OF assms(1,2)] assms(3-6) unfolding dir_ok_def by metis

text \<open>The volume of the path leads to the mount point \<open>mi\<close>.\<close>

definition volume_ok :: "vfs \<Rightarrow> nat \<Rightarrow> bool" where
  "volume_ok v mi \<longleftrightarrow> (\<exists>m. mount_at v mi = Inr m \<and> good_volume (mp_name m) \<and>
     (\<exists>i b. find_volume v (bdevs v) (mp_name m) 0 = Inr (Some i) \<and> bdev_at v i = Inr b \<and>
        bd_mountpoint b = Some mi))"

subsection \<open>The lookup follows the names\<close>

lemma scan_miss:
  assumes "dir_at v d = Inr x" "\<forall>c\<in>set (d_dirs x). \<exists>nm. named v c nm \<and> nm \<noteq> entry"
  shows "scan_dirs v entry i d hit = Inr (d, hit)"
proof (induction "length (d_dirs x) - i" arbitrary: i)
  case 0
  then show ?case using assms(1) by (subst scan_dirs.simps) simp
next
  case (Suc n)
  then have i: "i < length (d_dirs x)" by simp
  then have "d_dirs x ! i \<in> set (d_dirs x)" by simp
  then obtain c nm where "dir_at v (d_dirs x ! i) = Inr c" "d_name c = Some nm" "nm \<noteq> entry"
    using assms(2) by (auto simp: named_def)
  moreover have "scan_dirs v entry (Suc i) d hit = Inr (d, hit)" using Suc by (intro Suc.hyps) simp
  ultimately show ?case using assms(1) i by (subst scan_dirs.simps) simp
qed

lemma scan_hit:
  assumes x: "dir_at v d = Inr x" and k: "k < length (d_dirs x)" "named v (d_dirs x ! k) entry"
    and before: "\<forall>j<k. \<exists>nm. named v (d_dirs x ! j) nm \<and> nm \<noteq> entry"
    and child: "dir_at v (d_dirs x ! k) = Inr y" "\<forall>c\<in>set (d_dirs y). \<exists>nm. named v c nm \<and> nm \<noteq> entry"
    and i: "i \<le> k"
  shows "scan_dirs v entry i d hit = Inr (d_dirs x ! k, True)"
  using i
proof (induction "k - i" arbitrary: i)
  case 0
  then have "i = k" by simp
  with x k child scan_miss [OF child] show ?case by (subst scan_dirs.simps) (simp add: named_def)
next
  case (Suc n)
  then have "i < k" by simp
  with before obtain c nm where "dir_at v (d_dirs x ! i) = Inr c" "d_name c = Some nm" "nm \<noteq> entry"
    by (auto simp: named_def)
  moreover have "scan_dirs v entry (Suc i) d hit = Inr (d_dirs x ! k, True)" using Suc by (intro Suc.hyps) simp_all
  ultimately show ?case using x k \<open>i < k\<close> by (subst scan_dirs.simps) simp
qed

lemma scan_child:
  assumes tree: "tree_ok v" and x: "dir_at v d = Inr x" and c: "c \<in> set (d_dirs x)" "dir_at v c = Inr y"
    and y: "d_name y = Some nm"
  shows "scan_dirs v nm 0 d False = Inr (c, True)"
proof -
  obtain k where k: "k < length (d_dirs x)" "d_dirs x ! k = c" using c(1) by (auto simp: in_set_conv_nth)
  have namek: "named v c nm" using c(2) y by (simp add: named_def)
  have py: "d_parent y = Some d" using tree_child [OF tree x c(1)] c(2) by (metis sum.inject(2))
  have before: "\<exists>nm'. named v (d_dirs x ! j) nm' \<and> nm' \<noteq> nm" if "j < k" for j
  proof -
    have "d_dirs x ! j \<in> set (d_dirs x)" using that k by simp
    then obtain z nm' where "dir_at v (d_dirs x ! j) = Inr z" "d_name z = Some nm'"
      using tree_child [OF tree x] by metis
    then have nm': "named v (d_dirs x ! j) nm'" by (simp add: named_def)
    have "nm' \<noteq> nm"
    proof
      assume "nm' = nm"
      with nm' namek k that have "j = k" by (intro tree_distinct [OF tree x, of j k nm]) simp_all
      with that show False by simp
    qed
    with nm' show ?thesis by blast
  qed
  have "\<exists>nm'. named v e nm' \<and> nm' \<noteq> nm" if e: "e \<in> set (d_dirs y)" for e
  proof -
    obtain z nm' where "dir_at v e = Inr z" "d_name z = Some nm'" "d_parent y \<noteq> None \<longrightarrow> d_name y \<noteq> Some nm'"
      by (rule tree_child [OF tree c(2) e])
    with y py show ?thesis by (auto simp: named_def)
  qed
  then show ?thesis
    using scan_hit [OF x k(1), of nm y 0 False] before namek k c(2) by simp
qed

lemma find_entries_reach:
  assumes "tree_ok v" "reach v r ns d"
  shows "find_entries v ns r = Inr (Some d)"
  using assms(2)
proof (induction ns arbitrary: r)
  case (Cons n ns)
  then obtain p c y where p: "dir_at v r = Inr p" and c: "c \<in> set (d_dirs p)" "dir_at v c = Inr y"
    and y: "d_name y = Some n" and rest: "reach v c ns d" by auto
  have "d_parent y = Some r" using tree_child [OF assms(1) p c(1)] c(2) by (metis sum.inject(2))
  then have "n \<noteq> ''..''" using tree_parent [OF assms(1) c(2)] y by (metis good_name_def option.inject)
  then show ?case using scan_child [OF assms(1) p c y] Cons.IH [OF rest] by simp
qed simp

subsection \<open>The path of a directory names it\<close>

lemma reach_good:
  assumes "tree_ok v" "reach v r ns d"
  shows "\<forall>n\<in>set ns. good_name n"
  using assms(2)
proof (induction ns arbitrary: r)
  case (Cons n ns)
  then obtain p c y where p: "dir_at v r = Inr p" and c: "c \<in> set (d_dirs p)" "dir_at v c = Inr y"
    and y: "d_name y = Some n" and rest: "reach v c ns d" by auto
  have "d_parent y = Some r" using tree_child [OF assms(1) p c(1)] c(2) by (metis sum.inject(2))
  then have "good_name n" using tree_parent [OF assms(1) c(2)] y by (metis option.inject)
  with Cons.IH [OF rest] show ?case by simp
qed simp

lemma path_up_reach:
  assumes tree: "tree_ok v" and "path_up v sz n d (join ms) = Inr (Some w)" and "reach v d ms t"
    and "dir_at v d = Inr x"
  shows "\<exists>r y ns. reach v r ns t \<and> w = join ns \<and> dir_at v r = Inr y \<and> d_parent y = None \<and> d_volume y = d_volume x"
  using assms(2-)
proof (induction n arbitrary: d ms x)
  case (Suc n)
  show ?case
  proof (cases "d_parent x")
    case None
    with Suc.prems show ?thesis by auto
  next
    case (Some p)
    obtain px nm where px: "dir_at v p = Inr px" "d \<in> set (d_dirs px)" "d_volume px = d_volume x"
      and nm: "d_name x = Some nm" "good_name nm"
      using tree_parent [OF tree Suc.prems(3) Some] by metis
    have "(if length (join ms) \<noteq> 0 then nm @ CHR ''/'' # join ms else nm) = join (nm # ms)"
      using join_eq_Nil [OF reach_good [OF tree Suc.prems(2)]] by (cases "ms = []") (auto simp: join_Cons)
    then have "path_up v sz n p (join (nm # ms)) = Inr (Some w)"
      using Suc.prems(1,3) Some nm by (auto split: if_splits)
    moreover have "reach v p (nm # ms) t" using px Suc.prems nm by auto
    ultimately obtain r y ns where "reach v r ns t \<and> w = join ns \<and> dir_at v r = Inr y \<and> d_parent y = None \<and>
        d_volume y = d_volume px"
      using Suc.IH px(1) by blast
    with px(3) show ?thesis by auto
  qed
qed simp

text \<open>
  C31: The path of a directory leads back to it. On a well-formed tree, whatever
  \<open>vfs_get_path_directory\<close> stores for a directory of a mounted volume, \<open>vfs_find_directory\<close>
  finds that directory under it; the result is the length of the path, which fits in the
  buffer with its terminator.
\<close>

theorem vfs_path_roundtrip:
  assumes "tree_ok v" "dir_at v d = Inr x" "volume_ok v (d_volume x)"
    and "vfs_get_path_directory v (Some d) sz = Inr (n, Some path)"
  shows "vfs_find_directory v path = Inr (Some d) \<and> n = int (length path) \<and> length path < sz"
proof -
  obtain w m where w: "path_up v sz (length (vdirs v)) d [] = Inr (Some w)"
    and m: "mount_at v (d_volume x) = Inr m"
    and fits: "length (mp_name m) + 1 + length w + 1 \<le> sz"
    and path: "n = int (length (mp_name m) + 1 + length w)" "path = mp_name m @ CHR '':'' # w"
    using assms(2,4) by (auto simp: vfs_get_path_directory_def rbind_eq_Inr Let_def split: if_splits option.splits)
  obtain r y ns where r: "reach v r ns d" "w = join ns" "dir_at v r = Inr y" "d_parent y = None" "d_volume y = d_volume x"
    using path_up_reach [OF assms(1), of sz "length (vdirs v)" d "[]" w d x] w assms(2) by auto
  obtain i b where vol: "good_volume (mp_name m)" "find_volume v (bdevs v) (mp_name m) 0 = Inr (Some i)"
    "bdev_at v i = Inr b" "bd_mountpoint b = Some (d_volume x)"
    using assms(3) m by (auto simp: volume_ok_def)
  have root: "mp_root m = r" using tree_root [OF assms(1) r(3,4)] r(5) m by simp
  have "volume_loop path 17 = Some (mp_name m)"
    unfolding path(2) using vol(1) by (intro volume_loop_ok) (auto simp: good_volume_def)
  moreover have "path_entries path = Inr ns"
    unfolding path(2) r(2) by (rule path_entries_join [OF vol(1) reach_good [OF assms(1) r(1)]])
  ultimately have "vfs_find_directory v path = Inr (Some d)"
    using vol(2-4) m root find_entries_reach [OF assms(1) r(1)]
    by (simp add: vfs_find_directory_def vfs_find_block_device_by_path_def)
  then show ?thesis using path fits by simp
qed

subsection \<open>A volume for the witnesses\<close>

definition demo_dir :: "string option \<Rightarrow> nat option \<Rightarrow> nat list \<Rightarrow> vdir" where
  "demo_dir nm parent subs = \<lparr>d_name = nm, d_parent = parent, d_volume = 0, d_files = [], d_files_size = 32,
     d_dirs = subs, d_dirs_size = 32, d_id = 0, d_attributes = 0\<rparr>"

definition demo_bdev :: bdev where
  "demo_bdev = \<lparr>bd_block = (\<lambda>medium write index data. Inr (512, replicate 512 NUL, medium)), bd_medium = [],
     bd_blocksize = 512, bd_blocks = 64, bd_name = ''rd0'', bd_mountpoint = Some 0, bd_mounted = True,
     bd_ispartition = 2, bd_id = 1\<rparr>"

definition demo_vfs :: "vdir list \<Rightarrow> vfs" where
  "demo_vfs ds = \<lparr>bdevs = [demo_bdev], bdevs_size = 512, fsdrivers = [0], fsdrivers_size = 32,
     vmounts = [\<lparr>mp_name = ''cd'', mp_bd = 0, mp_fs = 0, mp_root = 0, mp_extra = NoExtra, mp_rw = False\<rparr>],
     vdirs = ds, vfiles = [], junk = (\<lambda>i. NUL)\<rparr>"

definition demo_tree :: vfs where
  "demo_tree = demo_vfs [demo_dir None None [1, 2], demo_dir (Some ''boot'') (Some 0) [3],
     demo_dir (Some ''etc'') (Some 0) [], demo_dir (Some ''grub'') (Some 1) []]"

lemma dir_at_Inr: "dir_at v d = Inr x \<longleftrightarrow> d < length (vdirs v) \<and> x = vdirs v ! d"
  by (auto simp: dir_at_def aget_Inr)

lemma demo_volume_ok [simp]: "volume_ok (demo_vfs ds) 0"
  by (simp add: volume_ok_def mount_at_def bdev_at_def demo_vfs_def demo_bdev_def good_volume_def)

lemma vfs_path_roundtrip_witness:
  "vfs_get_path_directory demo_tree (Some 3) 64 = Inr (12, Some ''cd:boot/grub'') \<and>
   vfs_find_directory demo_tree ''cd:boot/grub'' = Inr (Some 3)"
proof -
  let ?x = "demo_dir (Some ''grub'') (Some 1) []"
  have dirs: "dir_at demo_tree 0 = Inr (demo_dir None None [1, 2])"
    "dir_at demo_tree (Suc 0) = Inr (demo_dir (Some ''boot'') (Some 0) [3])"
    "dir_at demo_tree 2 = Inr (demo_dir (Some ''etc'') (Some 0) [])" "dir_at demo_tree 3 = Inr ?x"
    by (simp_all add: dir_at_def demo_tree_def demo_vfs_def)
  have tree: "tree_ok demo_tree"
    unfolding tree_ok_def
  proof (intro allI impI)
    fix d x assume d: "dir_at demo_tree d = Inr x"
    then have "d < 4" by (simp add: dir_at_Inr demo_tree_def demo_vfs_def)
    then consider "d = 0" | "d = Suc 0" | "d = 2" | "d = 3" by linarith
    then show "dir_ok demo_tree d x"
      using d dirs
      by cases (auto simp: dir_ok_def demo_dir_def mount_at_def demo_tree_def demo_vfs_def good_name_def
          named_def less_Suc_eq numeral_2_eq_2)
  qed
  have get: "vfs_get_path_directory demo_tree (Some 3) 64 = Inr (12, Some ''cd:boot/grub'')"
    by (simp add: vfs_get_path_directory_def dir_at_def mount_at_def demo_tree_def demo_vfs_def demo_dir_def
        eval_nat_numeral)
  have vol: "volume_ok demo_tree (d_volume ?x)" by (simp add: demo_tree_def demo_dir_def)
  from vfs_path_roundtrip [OF tree dirs(4) vol get] get show ?thesis by simp
qed

subsection \<open>A directory inside one of the same name\<close>

definition nested_tree :: vfs where
  "nested_tree = demo_vfs [demo_dir None None [1], demo_dir (Some ''a'') (Some 0) [2, 3],
     demo_dir (Some ''b'') (Some 1) [], demo_dir (Some ''a'') (Some 1) []]"

text \<open>
  \<open>vfs_find_directory\<close> goes on scanning in the directory it has just entered, so a
  directory that contains one of its own name further down its list cannot be reached: both
  \<open>cd:a\<close> and \<open>cd:a/a\<close> are the path of a directory, and looking up the first gives the
  directory of the second.
\<close>

theorem vfs_find_directory_nested:
  "vfs_get_path_directory nested_tree (Some 1) 64 = Inr (4, Some ''cd:a'') \<and>
   vfs_get_path_directory nested_tree (Some 3) 64 = Inr (6, Some ''cd:a/a'') \<and>
   vfs_find_directory nested_tree ''cd:a'' = Inr (Some 3)"
proof -
  have e: "path_entries ''cd:a'' = Inr [''a'']"
    using path_entries_join [of "''cd''" "[''a'']"] by (simp add: good_volume_def good_name_def)
  have scan: "scan_dirs nested_tree ''a'' 0 0 False = Inr (3, True)"
    by (simp add: scan_dirs.simps dir_at_def nested_tree_def demo_vfs_def demo_dir_def eval_nat_numeral)
  have "vfs_find_directory nested_tree ''cd:a'' = Inr (Some 3)"
    using e scan
    by (simp add: vfs_find_directory_def vfs_find_block_device_by_path_def bdev_at_def mount_at_def
        nested_tree_def demo_vfs_def demo_bdev_def eval_nat_numeral)
  moreover have "vfs_get_path_directory nested_tree (Some 1) 64 = Inr (4, Some ''cd:a'')"
    "vfs_get_path_directory nested_tree (Some 3) 64 = Inr (6, Some ''cd:a/a'')"
    by (simp_all add: vfs_get_path_directory_def dir_at_def mount_at_def nested_tree_def demo_vfs_def
        demo_dir_def eval_nat_numeral)
  ultimately show ?thesis by simp
qed

subsection \<open>The table of open files\<close>

lemma cur_proc_put_cur:
  assumes "cur_proc s = Inr p"
  shows "cur_proc (put_cur q s) = Inr q" "currentps (put_cur q s) = currentps s"
  using assms by (auto simp: cur_proc_def put_cur_def rbind_eq_Inr deref_Inr proc_Inr last_pid_def)

lemma put_cur_twice: "put_cur q (put_cur p s) = put_cur q s"
  by (simp add: put_cur_def put_proc_def split: option.splits)

lemma vfs_open_Inr:
  assumes cur: "cur_proc s = Inr p" and "vfs_open s v path flags = Inr (fd, s', v')" "0 \<le> fd"
  obtains fi f e where "vfs_find_file v path = Inr (Some fi)" "file_at v fi = Inr f" "of_file e = fi"
    "fd = int (openfiles_loc p)" "v' = v\<lparr>vfiles := (vfiles v)[fi := f\<lparr>f_open := f_open f + 1\<rparr>]\<rparr>"
    "of_loc e = (if flags AND VFS_FILE_MODE_APPEND \<noteq> 0 then f_size f else 0)" "of_id e = fd"
    "openfiles_loc p < length (openfiles p @ replicate 32 None)"
    "s' = put_cur (p\<lparr>openfiles := (if openfiles_loc p \<ge> length (openfiles p)
         then openfiles p @ replicate 32 None else openfiles p)[openfiles_loc p := Some e],
       openfiles_loc := openfiles_loc p + 1\<rparr>) s"
proof -
  from assms obtain bd b fi where l: "vfs_find_block_device_by_path v path = Inr (Some bd)" "bdev_at v bd = Inr b"
    "bd_mountpoint b \<noteq> None" "vfs_find_file v path = Inr (Some fi)"
    unfolding vfs_open_def by (auto simp: rbind_eq_Inr split: option.splits if_splits)
  with assms(2) obtain f m where fm: "file_at v fi = Inr f" "mount_at v (f_volume f) = Inr m"
    unfolding vfs_open_def by (auto simp: rbind_eq_Inr)
  define e where "e = \<lparr>of_file = fi, of_fsdriver = mp_fs m,
    of_loc = (if flags AND VFS_FILE_MODE_APPEND \<noteq> 0 then f_size f else 0), of_flags = flags, of_id = int (openfiles_loc p)\<rparr>"
  let ?tab = "if openfiles_loc p \<ge> length (openfiles p) then openfiles p @ replicate 32 None else openfiles p"
  have run: "rbind (aset ''openfiles'' ?tab (openfiles_loc p) (Some e)) (\<lambda>tab. Inr (int (openfiles_loc p),
      put_cur (p\<lparr>openfiles := tab, openfiles_loc := openfiles_loc p + 1\<rparr>) s,
      v\<lparr>vfiles := (vfiles v)[fi := f\<lparr>f_open := f_open f + 1\<rparr>]\<rparr>)) = Inr (fd, s', v')"
    using assms(2) cur l fm by (simp add: vfs_open_def upd_file_def Let_def e_def)
  then have "openfiles_loc p < length ?tab" by (simp only: rbind_eq_Inr aset_Inr) blast
  with run l fm show ?thesis
    by (intro that [of fi f e]) (auto simp: e_def split: if_splits)
qed

text \<open>
  Descriptors. A successful \<open>vfs_open\<close> returns the first descriptor never used before and
  leaves every other descriptor as it was; the descriptor names the file that was looked up,
  reading starts at its beginning, or at its end in append mode. \<open>vfs_close\<close> on it restores
  the file's count of open streams, and a second \<open>vfs_close\<close> answers \<open>EBADF\<close> and changes
  nothing.
\<close>

theorem vfs_open_close:
  assumes "cur_proc s = Inr p" "vfs_open s v path flags = Inr (fd, s', v')" "0 \<le> fd"
  shows "fd = int (openfiles_loc p) \<and>
    (\<exists>fi f p' e. vfs_find_file v path = Inr (Some fi) \<and> file_at v fi = Inr f \<and>
       cur_proc s' = Inr p' \<and> fd_entry p' fd = Inr (Some e) \<and> of_file e = fi \<and>
       of_loc e = (if flags AND VFS_FILE_MODE_APPEND \<noteq> 0 then f_size f else 0) \<and>
       vfs_file_name s' v' fd = Inr (Some (f_name f)) \<and>
       (\<forall>i. i < openfiles_loc p \<and> i < length (openfiles p) \<longrightarrow> openfiles p' ! i = openfiles p ! i)) \<and>
    (\<exists>s''. vfs_close s' v' fd = Inr (0, s'', v) \<and> vfs_close s'' v fd = Inr (- EBADF, s'', v))"
proof -
  obtain fi f e where o: "vfs_find_file v path = Inr (Some fi)" "file_at v fi = Inr f" "of_file e = fi"
    "fd = int (openfiles_loc p)" "v' = v\<lparr>vfiles := (vfiles v)[fi := f\<lparr>f_open := f_open f + 1\<rparr>]\<rparr>"
    "of_loc e = (if flags AND VFS_FILE_MODE_APPEND \<noteq> 0 then f_size f else 0)"
    "openfiles_loc p < length (openfiles p @ replicate 32 None)"
    "s' = put_cur (p\<lparr>openfiles := (if openfiles_loc p \<ge> length (openfiles p)
         then openfiles p @ replicate 32 None else openfiles p)[openfiles_loc p := Some e],
       openfiles_loc := openfiles_loc p + 1\<rparr>) s"
    by (rule vfs_open_Inr [OF assms])
  define tab where "tab = (if openfiles_loc p \<ge> length (openfiles p) then openfiles p @ replicate 32 None else openfiles p)"
  define q where "q = p\<lparr>openfiles := tab[openfiles_loc p := Some e], openfiles_loc := openfiles_loc p + 1\<rparr>"
  have s': "s' = put_cur q s" using o(8) by (simp add: q_def tab_def)
  have len: "openfiles_loc p < length tab" using o(7) by (simp add: tab_def)
  have cur: "cur_proc s' = Inr q" unfolding s' by (rule cur_proc_put_cur [OF assms(1)])
  have entry: "fd_entry q fd = Inr (Some e)"
    using len by (simp add: fd_entry_def vfs_fd_is_open_def o(4) q_def)
  have fi: "fi < length (vfiles v)" "f = vfiles v ! fi" using o(2) by (auto simp: file_at_def aget_Inr)
  have fa: "file_at v' fi = Inr (f\<lparr>f_open := f_open f + 1\<rparr>)"
    using fi by (simp add: o(5) file_at_def)
  have fname: "vfs_file_name s' v' fd = Inr (Some (f_name f))"
    using cur entry fa o(3) by (simp add: vfs_file_name_def)
  have keep: "openfiles q ! i = openfiles p ! i" if "i < openfiles_loc p" "i < length (openfiles p)" for i
    using that by (simp add: q_def tab_def nth_append)
  let ?r = "q\<lparr>openfiles := tab[openfiles_loc p := None]\<rparr>"
  have "(vfiles v)[fi := f\<lparr>f_open := f_open f + 1\<rparr>, fi := f] = vfiles v" using fi by simp
  then have restored: "upd_file v' fi (\<lambda>f. f\<lparr>f_open := f_open f - 1\<rparr>) = Inr v"
    using fa by (simp add: upd_file_def o(5))
  have close: "vfs_close s' v' fd = Inr (0, put_cur ?r s', v)"
    using cur entry o(3,4) restored len by (simp add: vfs_close_def q_def)
  have cur2: "cur_proc (put_cur ?r s') = Inr ?r" by (rule cur_proc_put_cur [OF cur])
  have "fd_entry ?r fd = Inr None"
    using len by (simp add: fd_entry_def vfs_fd_is_open_def o(4) q_def)
  then have "vfs_close (put_cur ?r s') v fd = Inr (- EBADF, put_cur ?r s', v)"
    using cur2 by (simp add: vfs_close_def)
  then show ?thesis using o cur entry fname keep close by blast
qed

definition demo_files :: vfs where
  "demo_files = demo_tree\<lparr>vdirs := (vdirs demo_tree)[0 := (demo_dir None None [1, 2])\<lparr>d_files := [0]\<rparr>],
     vfiles := [\<lparr>f_name = ''init'', f_parent = 0, f_volume = 0, f_id = 0, f_size = 100, f_created = 0,
       f_modified = 0, f_attributes = 0, f_open = 0\<rparr>]\<rparr>"

lemma vfs_open_close_witness:
  "\<exists>s' v'. vfs_open demo demo_files ''cd:init'' 1 = Inr (0, s', v') \<and>
     vfs_file_name s' v' 0 = Inr (Some ''init'')"
proof -
  have cur: "cur_proc demo = Inr (demo_process 1 3)"
    by (simp add: cur_proc_def demo_def proc_Inr last_pid_def)
  have e: "path_entries ''cd:'' = Inr []"
    using path_entries_join [of "''cd''" "[]"] by (simp add: good_volume_def)
  have vol: "vfs_find_block_device_by_path demo_files ''cd:init'' = Inr (Some 0)"
      "vfs_find_block_device_by_path demo_files ''cd:'' = Inr (Some 0)"
    by (simp_all add: vfs_find_block_device_by_path_def demo_files_def demo_tree_def demo_vfs_def mount_at_def
        demo_bdev_def eval_nat_numeral)
  have split: "split_path ''cd:init'' = Inr (Some (''cd:'', ''init''))"
    by (simp add: split_path_def strrchr_def)
  have "vfs_find_directory demo_files ''cd:'' = Inr (Some 0)"
    using e vol by (simp add: vfs_find_directory_def bdev_at_def mount_at_def demo_files_def demo_tree_def
        demo_vfs_def demo_bdev_def)
  then have find: "vfs_find_file demo_files ''cd:init'' = Inr (Some 0)"
    using split by (simp add: vfs_find_file_def dir_at_def file_at_def demo_files_def demo_tree_def demo_vfs_def demo_dir_def)
  obtain s' v' where run: "vfs_open demo demo_files ''cd:init'' 1 = Inr (0, s', v')"
    using cur find vol
    by (simp add: vfs_open_def bdev_at_def file_at_def mount_at_def upd_file_def demo_files_def demo_tree_def
        demo_vfs_def demo_bdev_def demo_process_def)
  from vfs_open_close [OF cur run] find run show ?thesis
    by (auto simp: file_at_def demo_files_def)
qed

end
