(* ===== verification/Syscall.thy ===== *)
theory Syscall
  imports VfsPath Console CStdlib
begin

section \<open>System calls\<close>

text \<open>
  \<open>kernel/kernel/i386/syscall.c\<close>, and \<open>pload_create_process_file\<close> of \<open>pload.c\<close>, which the
  exec call uses. The state of a call is the kernel, the file system, the console behind
  \<open>currentps->terminal\<close> and the registers the interrupt saved; the arguments are read from the
  registers, as \<open>syscall_handler\<close> does. The version string contains the branch the build
  inserts, so it is a parameter, like the file system drivers.
\<close>

record sys =
  ker :: kernel
  fsys :: vfs
  cons :: console
  sregs :: regs

definition arg :: "sys \<Rightarrow> nat \<Rightarrow> u32" where
  "arg s i = (let r = sregs s in [r_ecx r, r_edx r, r_ebx r, r_esi r, r_edi r, r_ebp r] ! i)"

definition on_ker :: "(kernel \<Rightarrow> ('a \<times> kernel) res) \<Rightarrow> sys \<Rightarrow> ('a \<times> sys) res" where
  "on_ker f s = rbind (f (ker s)) (\<lambda>(x, k). Inr (x, s\<lparr>ker := k\<rparr>))"

definition kmem_of :: "sys \<Rightarrow> mem" where "kmem_of s = kmem (ker s)"

definition to_user :: "sys \<Rightarrow> u32 \<Rightarrow> string \<Rightarrow> int \<times> sys" where
  "to_user s dst data =
     (let (r, m) = safecpy_to_user (kmem_of s) dst data in (r, s\<lparr>ker := (ker s)\<lparr>kmem := m\<rparr>\<rparr>))"

definition upd_cur :: "sys \<Rightarrow> (process \<Rightarrow> process) \<Rightarrow> sys res" where
  "upd_cur s f = rbind (cur_proc (ker s)) (\<lambda>p. Inr (s\<lparr>ker := put_cur (f p) (ker s)\<rparr>))"

subsection \<open>Limits and copies from user memory\<close>

definition MAX_SYSCALL_IO_SIZE :: u32 where "MAX_SYSCALL_IO_SIZE = 1024 * 1024"
definition MAX_PATH_LEN :: u32 where "MAX_PATH_LEN = 4096"
definition MAX_ENV_NAME_SIZE :: u32 where "MAX_ENV_NAME_SIZE = 4096"
definition MAX_ENV_VALUE_SIZE :: u32 where "MAX_ENV_VALUE_SIZE = 65536"
definition MAX_ENVIRON_VARS :: nat where "MAX_ENVIRON_VARS = 4096"
definition MAX_INTERFACE_NAME_LEN :: u32 where "MAX_INTERFACE_NAME_LEN = 1024"
definition MAX_EXEC_ARGS :: nat where "MAX_EXEC_ARGS = 1024"
definition MAX_EXEC_ARG_SIZE :: u32 where "MAX_EXEC_ARG_SIZE = 65536"
definition MAX_EXEC_ARGS_TOTAL :: u32 where "MAX_EXEC_ARGS_TOTAL = 1024 * 1024"
definition USER_STACK_REGION_SIZE :: u32 where "USER_STACK_REGION_SIZE = 0x400000"

definition user_buffer_ok :: "u32 \<Rightarrow> u32 \<Rightarrow> bool" where
  "user_buffer_ok ptr sz =
     (if sz = 0 then True
      else if ptr \<ge> KERNEL_START then False
      else sz \<le> KERNEL_START - ptr)"

text \<open>The string, or the error; the copy is the C string at the start of the buffer.\<close>

definition kstrdup_user :: "mem \<Rightarrow> u32 \<Rightarrow> u32 \<Rightarrow> int + string" where
  "kstrdup_user m uptr maxlen =
     (let (n, err) = safelen_max_err m uptr maxlen in
      if n < 0 then Inl err
      else case safecpy_from_user m uptr (of_int n + 1) of
          None \<Rightarrow> Inl (- EFAULT)
        | Some buf \<Rightarrow> Inr (takeWhile (\<lambda>c. c \<noteq> NUL) buf))"

text \<open>
  The loop of \<open>kargv_user\<close>: \<open>argv\<close> holds the strings copied so far, \<open>cap\<close> is the capacity of
  the array. An error releases everything.
\<close>

function kargv_loop :: "mem \<Rightarrow> u32 \<Rightarrow> nat \<Rightarrow> string list \<Rightarrow> u32 \<Rightarrow> (int + string list) res" where
  "kargv_loop m uargv cap av tot =
     (let ac = length av in
      case safecpy_from_user m (uargv + of_nat ac * 4) 4 of
        None \<Rightarrow> Inr (Inl (- EFAULT))
      | Some b \<Rightarrow>
          rbind (get32 b 0) (\<lambda>uarg.
          if uarg = 0 then
            (if ac < cap then Inr (Inr av) else Inl (Fault ''argv''))
          else if ac \<ge> MAX_EXEC_ARGS then Inr (Inl (- E2BIG))
          else
            let (n, lerr) = safelen_max_err m uarg MAX_EXEC_ARG_SIZE in
            if n < 0 then Inr (Inl (if lerr = - ENAMETOOLONG then - E2BIG else lerr))
            else if of_int n + 1 > MAX_EXEC_ARGS_TOTAL - tot then Inr (Inl (- E2BIG))
            else
              let tot = tot + (of_int n + 1);
                  cap = (if ac + 1 \<ge> cap then min (cap * 2) (MAX_EXEC_ARGS + 1) else cap) in
              case safecpy_from_user m uarg (of_int n + 1) of
                None \<Rightarrow> Inr (Inl (- EFAULT))
              | Some buf \<Rightarrow>
                  if ac < cap
                  then kargv_loop m uargv cap (av @ [takeWhile (\<lambda>c. c \<noteq> NUL) buf]) tot
                  else Inl (Fault ''argv'')))"
  by pat_completeness auto
termination
  by (relation "measure (\<lambda>(m, u, cap, av, tot). MAX_EXEC_ARGS - length av)") auto

declare kargv_loop.simps [simp del]

text \<open>A null vector is \<open>None\<close>.\<close>

definition kargv_user :: "mem \<Rightarrow> u32 \<Rightarrow> (int + string list option) res" where
  "kargv_user m uargv =
     (if uargv = 0 then Inr (Inr None)
      else rbind (kargv_loop m uargv 8 [] 0) (\<lambda>r.
        Inr (case r of Inl err \<Rightarrow> Inl err | Inr av \<Rightarrow> Inr (Some av))))"

subsection \<open>Running a file\<close>

definition pload_create_process_file ::
  "drivers \<Rightarrow> kernel \<Rightarrow> vfs \<Rightarrow> string \<Rightarrow> string list option \<Rightarrow> bool \<Rightarrow> (int \<times> kernel \<times> vfs) res" where
  "pload_create_process_file drv s v path args nodup =
     rbind (vfs_open s v path 0) (\<lambda>(fd, s, v).
     if fd < 0 then Inr (fd, s, v)
     else
       rbind (vfs_fstat s v fd) (\<lambda>(r, st).
       if r = -1 then rbind (vfs_close s v fd) (\<lambda>(_, s, v). Inr (-1, s, v))
       else
         rbind (deref ''stat'' st) (\<lambda>st.
         rbind (vfs_read drv s v fd (st_size st)) (\<lambda>(r, data, s).
         rbind (put_slice (fresh_block v (unat (st_size st + 1))) 0 data) (\<lambda>image.
         if r = -1 then rbind (vfs_close s v fd) (\<lambda>(_, s, v). Inr (-1, s, v))
         else
           rbind (vfs_file_name s v fd) (\<lambda>nm.
           rbind (deref ''file name'' nm) (\<lambda>nm.
           rbind (pload_create_process s image 3 nm args nodup) (\<lambda>(retval, s).
           rbind (vfs_close s v fd) (\<lambda>(_, s, v). Inr (retval, s, v))))))))))"

subsection \<open>Processes\<close>

definition syscall_exit :: "sys \<Rightarrow> (int \<times> sys) res" where
  "syscall_exit s = on_ker (\<lambda>k. sched_exit_process k (arg s 0)) s"

definition syscall_wait :: "sys \<Rightarrow> (int \<times> sys) res" where
  "syscall_wait s = on_ker (\<lambda>k. sched_wait_process k (sint (arg s 0))) s"

definition syscall_brk :: "sys \<Rightarrow> (int \<times> sys) res" where
  "syscall_brk s = rbind (on_ker (\<lambda>k. sched_setbrk k (arg s 0)) s) (\<lambda>(r, s). Inr (sint r, s))"

definition syscall_eret :: "sys \<Rightarrow> (int \<times> sys) res" where
  "syscall_eret s =
     (if sint (arg s 0) < 0 then
        if sint (arg s 0) = INT_MIN then Inl (Fault ''signed overflow'')
        else on_ker (\<lambda>k. sched_exit_process k (- arg s 0)) s
      else Inr (0, s))"

definition syscall_ehndlr :: "sys \<Rightarrow> (int \<times> sys) res" where
  "syscall_ehndlr s =
     (if arg s 0 \<noteq> 0 \<and> arg s 0 \<ge> KERNEL_START then Inr (- EFAULT, s)
      else rbind (upd_cur s (\<lambda>p. p\<lparr>procerrhandler := arg s 0\<rparr>)) (\<lambda>s. Inr (0, s)))"

definition syscall_exec :: "drivers \<Rightarrow> sys \<Rightarrow> (int \<times> sys) res" where
  "syscall_exec drv s =
     (case kstrdup_user (kmem_of s) (arg s 0) MAX_PATH_LEN of
        Inl err \<Rightarrow> Inr (err, s)
      | Inr path \<Rightarrow>
          rbind (kargv_user (kmem_of s) (arg s 1)) (\<lambda>r.
          case r of Inl err \<Rightarrow> Inr (err, s)
          | Inr av \<Rightarrow>
              rbind (pload_create_process_file drv (ker s) (fsys s) path av False) (\<lambda>(retval, k, v).
              Inr (retval, s\<lparr>ker := k, fsys := v\<rparr>))))"

definition syscall_kill :: "sys \<Rightarrow> (int \<times> sys) res" where
  "syscall_kill s = on_ker (\<lambda>k. sched_kill_process k (sint (arg s 0))) s"

definition syscall_tfork :: "sys \<Rightarrow> (int \<times> sys) res" where
  "syscall_tfork s = on_ker (\<lambda>k. sched_fork_thread k (currenttid k) (sregs s)) s"

definition syscall_texit :: "sys \<Rightarrow> (int \<times> sys) res" where
  "syscall_texit s = on_ker (\<lambda>k. rbind (sched_exit_thread k) (\<lambda>k. Inr (0, k))) s"

definition syscall_pscount :: "sys \<Rightarrow> (int \<times> sys) res" where
  "syscall_pscount s = Inr (processes_count (ker s), s)"

text \<open>The pids of the processes that exist, at most \<open>max\<close> of them.\<close>

primrec pslist_loop :: "process option list \<Rightarrow> int \<Rightarrow> u32 \<Rightarrow> nat \<Rightarrow> nat \<Rightarrow> sys \<Rightarrow> int \<times> sys" where
  "pslist_loop [] i dst mx count s = (int count, s)"
| "pslist_loop (p # ps) i dst mx count s =
     (if \<not> count < mx then (int count, s)
      else case p of None \<Rightarrow> pslist_loop ps (i + 1) dst mx count s
        | Some _ \<Rightarrow>
            let (r, s) = to_user s (dst + 4 * of_nat count) (bytes32 (of_int i)) in
            if r \<noteq> 0 then (- EFAULT, s) else pslist_loop ps (i + 1) dst mx (count + 1) s)"

definition syscall_pslist :: "sys \<Rightarrow> (int \<times> sys) res" where
  "syscall_pslist s = Inr (pslist_loop (processes (ker s)) 0 (arg s 0) (unat (arg s 1)) 0 s)"

text \<open>\<open>reboot\<close> does not return: it stops the machine.\<close>

definition syscall_spstate :: "sys \<Rightarrow> (int \<times> sys) res" where
  "syscall_spstate s =
     (let a = sint (arg s 0) in
      if a = 0 then Inr (0, s)
      else if a = 1 then Inr (- ENOSYS, s)
      else if a = 2 then
        rbind (cur_proc (ker s)) (\<lambda>p.
        if p_pid p \<noteq> 1 then Inr (- EACCES, s) else Inl (Panic ''reboot''))
      else Inr (- EINVAL, s))"

definition syscall_memusage :: "sys \<Rightarrow> (int \<times> sys) res" where
  "syscall_memusage s =
     (let used = pmm_used (kmem_of s); avail = of_nat (pmm_available (kmem_of s)) in
      rbind (cur_proc (ker s)) (\<lambda>p.
      Inr (sint (pages_used p * 4096 + brk_offset p),
           s\<lparr>sregs := (sregs s)\<lparr>r_ecx := used * 4096, r_edx := avail * 4096,
               r_ebx := (used + avail) * 4096\<rparr>\<rparr>)))"

subsection \<open>Files\<close>

text \<open>Copy the part of the kernel buffer the driver filled.\<close>

definition read_copy :: "sys \<Rightarrow> int \<Rightarrow> string \<Rightarrow> u32 \<Rightarrow> (int \<times> sys) res" where
  "read_copy s retval newbuf count =
     (let copycount = (if retval > 0 then min (nat retval) (unat count) else 0) in
      if copycount \<noteq> 0 then
        let (r, s) = to_user s (arg s 1) (take copycount newbuf) in
        Inr (if r = -1 then - EFAULT else retval, s)
      else Inr (retval, s))"

definition clip_count :: "u32 \<Rightarrow> u32" where
  "clip_count count = (if count > MAX_SYSCALL_IO_SIZE then MAX_SYSCALL_IO_SIZE else count)"

definition read_stdin :: "sys \<Rightarrow> u32 \<Rightarrow> (int \<times> sys) res" where
  "read_stdin s count =
     rbind (vmm_user_range_writable (kmem_of s) (arg s 1) count) (\<lambda>writable.
     if \<not> writable then Inr (- EFAULT, s)
     else
       rbind (ps2kb_read_chars (unat count) (con_kb (cons s))) (\<lambda>(cs, k).
       let s = s\<lparr>cons := (cons s)\<lparr>con_kb := k\<rparr>\<rparr>; retval = int (length cs) in
       rbind (if retval = 0 then
                rbind (sched_suspend_thread (ker s) 1 (currenttid (ker s))) (\<lambda>k. Inr (s\<lparr>ker := k\<rparr>))
              else Inr s) (\<lambda>s.
       read_copy s retval cs count)))"

definition syscall_read :: "drivers \<Rightarrow> sys \<Rightarrow> (int \<times> sys) res" where
  "syscall_read drv s =
     (let count = clip_count (arg s 2); fd = sint (arg s 0) in
      if arg s 2 = 0 then Inr (0, s)
      else if \<not> user_buffer_ok (arg s 1) count then Inr (- EFAULT, s)
      else if fd = 0 then read_stdin s count
      else if fd = 1 \<or> fd = 2 then Inr (0, s)
      else if fd - 3 < INT_MIN then Inl (Fault ''signed overflow'')
      else
        rbind (vfs_read drv (ker s) (fsys s) (fd - 3) count) (\<lambda>(retval, data, k).
        rbind (put_slice (fresh_block (fsys s) (unat count)) 0 data) (\<lambda>newbuf.
        read_copy (s\<lparr>ker := k\<rparr>) retval newbuf count)))"

definition syscall_write :: "drivers \<Rightarrow> sys \<Rightarrow> (int \<times> sys) res" where
  "syscall_write drv s =
     (let count = clip_count (arg s 2); fd = sint (arg s 0) in
      if arg s 2 = 0 then Inr (0, s)
      else if \<not> user_buffer_ok (arg s 1) count then Inr (- EFAULT, s)
      else case safecpy_from_user (kmem_of s) (arg s 1) count of
          None \<Rightarrow> Inr (- EFAULT, s)
        | Some newbuf \<Rightarrow>
            if fd = 0 then Inr (0, s)
            else if fd = 1 \<or> fd = 2 then
              rbind (term_write newbuf (cons s)) (\<lambda>(n, c). Inr (sint n, s\<lparr>cons := c\<rparr>))
            else if fd - 3 < INT_MIN then Inl (Fault ''signed overflow'')
            else on_ker (\<lambda>k. vfs_write drv k (fsys s) (fd - 3) newbuf count) s)"

definition syscall_open :: "sys \<Rightarrow> (int \<times> sys) res" where
  "syscall_open s =
     (case kstrdup_user (kmem_of s) (arg s 0) MAX_PATH_LEN of
        Inl err \<Rightarrow> Inr (err, s)
      | Inr path \<Rightarrow>
          rbind (vfs_open (ker s) (fsys s) path (sint (arg s 1))) (\<lambda>(retval, k, v).
          Inr (if retval \<ge> 0 then retval + 3 else retval, s\<lparr>ker := k, fsys := v\<rparr>)))"

definition syscall_close :: "sys \<Rightarrow> (int \<times> sys) res" where
  "syscall_close s =
     (let fd = sint (arg s 0) in
      if fd < 3 then Inr (- EBADF, s)
      else rbind (vfs_close (ker s) (fsys s) (fd - 3)) (\<lambda>(r, k, v). Inr (r, s\<lparr>ker := k, fsys := v\<rparr>)))"

definition syscall_size :: "sys \<Rightarrow> (int \<times> sys) res" where
  "syscall_size s =
     (let fd = sint (arg s 0) in
      if fd < 3 then Inr (- EBADF, s)
      else rbind (vfs_size (ker s) (fsys s) (fd - 3)) (\<lambda>r. Inr (r, s)))"

definition syscall_chdir :: "sys \<Rightarrow> (int \<times> sys) res" where
  "syscall_chdir s =
     (case kstrdup_user (kmem_of s) (arg s 0) MAX_PATH_LEN of
        Inl err \<Rightarrow> Inr (err, s)
      | Inr path \<Rightarrow>
          rbind (vfs_find_directory (fsys s) path) (\<lambda>newdir.
          if newdir = None then Inr (- ENOENT, s)
          else
            rbind (vfs_get_path_directory (fsys s) newdir (unat MAX_PATH_LEN)) (\<lambda>(r, newpwd).
            if r = -1 then Inr (- ENAMETOOLONG, s)
            else
              rbind (deref ''pwd'' newpwd) (\<lambda>newpwd.
              rbind (upd_cur s (\<lambda>p. p\<lparr>pwd := Some newpwd\<rparr>)) (\<lambda>s. Inr (0, s))))))"

definition syscall_getcwd :: "sys \<Rightarrow> (int \<times> sys) res" where
  "syscall_getcwd s =
     rbind (cur_proc (ker s)) (\<lambda>p.
     case pwd p of None \<Rightarrow> Inr (- ENOENT, s)
     | Some dirname \<Rightarrow>
         let n = min (length dirname + 1) (unat (arg s 1));
             (r, s') = to_user s (arg s 0) (take n (dirname @ [NUL])) in
         Inr (if r = -1 then - EFAULT else sint (arg s 0), s'))"

text \<open>The names of the entries of a directory; the two loops of \<open>syscall_list\<close>.\<close>

primrec entry_names :: "vfs \<Rightarrow> bool \<Rightarrow> nat list \<Rightarrow> string list res" where
  "entry_names v dirs [] = Inr []"
| "entry_names v dirs (i # is) =
     rbind (if dirs then rbind (dir_at v i) (\<lambda>d. deref ''directory name'' (d_name d))
            else rbind (file_at v i) (\<lambda>f. Inr (f_name f))) (\<lambda>nm.
     rbind (entry_names v dirs is) (\<lambda>nms. Inr (nm # nms)))"

primrec list_needed :: "nat \<Rightarrow> nat \<Rightarrow> string list \<Rightarrow> nat" where
  "list_needed bound needed [] = needed"
| "list_needed bound needed (nm # nms) =
     (if length nm + 1 > bound - needed then bound
      else list_needed bound (needed + (length nm + 1)) nms)"

primrec list_fill :: "nat \<Rightarrow> string \<Rightarrow> string list \<Rightarrow> string" where
  "list_fill needed buf [] = buf"
| "list_fill needed buf (nm # nms) =
     (if length nm + 1 > needed - length buf then buf
      else list_fill needed (buf @ nm @ [CHR 0x0A]) nms)"

text \<open>The bytes copied out: the last new line becomes the terminator.\<close>

definition list_text :: "nat \<Rightarrow> string list \<Rightarrow> string res" where
  "list_text bound nms =
     (let needed = list_needed bound 0 nms;
          needed = (if needed = 0 then 1 else needed);
          buf = list_fill needed [] nms;
          byteswritten = (if length buf > 0 then length buf - 1 else length buf) in
      if byteswritten < needed then Inr (take byteswritten buf @ [NUL]) else Inl (Fault ''buf''))"

definition syscall_list :: "sys \<Rightarrow> (int \<times> sys) res" where
  "syscall_list s =
     (case kstrdup_user (kmem_of s) (arg s 0) MAX_PATH_LEN of
        Inl err \<Rightarrow> Inr (err, s)
      | Inr path \<Rightarrow>
          rbind (vfs_find_directory (fsys s) path) (\<lambda>dp.
          let userbuf = arg s 1; bound = arg s 2; dirs = (arg s 3 \<noteq> 0) in
          case dp of None \<Rightarrow> Inr (- ENOENT, s)
          | Some dp \<Rightarrow>
              rbind (dir_at (fsys s) dp) (\<lambda>d.
              let entries = (if dirs then d_dirs d else d_files d); count = int (length entries) in
              if bound = 0 then Inr (count, s)
              else if \<not> safecpy_check_user userbuf bound then Inr (- EFAULT, s)
              else
                rbind (entry_names (fsys s) dirs entries) (\<lambda>nms.
                rbind (list_text (unat bound) nms) (\<lambda>data.
                let (ret, s) = to_user s userbuf data in
                Inr (if ret = -1 then - EFAULT else count, s))))))"

subsection \<open>Environment\<close>

text \<open>The first variable with this name: the name, an equals sign, the value.\<close>

definition env_match :: "string \<Rightarrow> string \<Rightarrow> bool" where
  "env_match nm var \<longleftrightarrow> length var > length nm \<and> take (length nm) var = nm \<and> var ! length nm = CHR ''=''"

fun env_index :: "string list \<Rightarrow> string \<Rightarrow> nat \<Rightarrow> nat option" where
  "env_index [] nm i = None"
| "env_index (var # vars) nm i = (if env_match nm var then Some i else env_index vars nm (Suc i))"

definition env_value :: "string list \<Rightarrow> string \<Rightarrow> string option" where
  "env_value vars nm =
     (case env_index vars nm 0 of None \<Rightarrow> None | Some i \<Rightarrow> Some (drop (length nm + 1) (vars ! i)))"

definition syscall_getenv :: "sys \<Rightarrow> (int \<times> sys) res" where
  "syscall_getenv s =
     (case kstrdup_user (kmem_of s) (arg s 0) MAX_ENV_NAME_SIZE of
        Inl err \<Rightarrow> Inr (err, s)
      | Inr nm \<Rightarrow>
          rbind (cur_proc (ker s)) (\<lambda>p.
          case env_value (environ p) nm of None \<Rightarrow> Inr (- ENOENT, s)
          | Some val \<Rightarrow>
              let sz = arg s 2 in
              if sz = 0 then Inr (0, s)
              else if of_nat (length val) + 1 > sz then
                let n = sz - 1;
                    (r, s1) = (if n > 0 then to_user s (arg s 1) (take (unat n) val) else (0, s)) in
                if r = -1 then Inr (- EFAULT, s1)
                else
                  let (r, s2) = to_user s1 (arg s 1 + n) [NUL] in
                  Inr (if r = -1 then - EFAULT else 0, s2)
              else
                let (r, s) = to_user s (arg s 1) (val @ [NUL]) in
                Inr (if r = -1 then - EFAULT else 0, s)))"

text \<open>Store a variable: in place of the one with its name, or at the end.\<close>

definition put_var :: "process \<Rightarrow> nat option \<Rightarrow> string \<Rightarrow> process" where
  "put_var p eindex newvar =
     (case eindex of
        Some i \<Rightarrow> p\<lparr>environ := (environ p)[i := newvar]\<rparr>
      | None \<Rightarrow>
          let c = int (length (environ p));
              newsize = (if environ_size p \<noteq> 0 then environ_size p * 2 else 4);
              newsize = (if newsize \<le> c then c + 4 else newsize) in
          p\<lparr>environ := environ p @ [newvar],
            environ_size := (if c + 1 \<ge> environ_size p then newsize else environ_size p)\<rparr>)"

definition syscall_setenv :: "sys \<Rightarrow> (int \<times> sys) res" where
  "syscall_setenv s =
     (case kstrdup_user (kmem_of s) (arg s 0) MAX_ENV_NAME_SIZE of
        Inl err \<Rightarrow> Inr (err, s)
      | Inr nm \<Rightarrow>
          if length nm = 0 then Inr (- EINVAL, s)
          else
            let (n, err) = safelen_max_err (kmem_of s) (arg s 1) (MAX_ENV_VALUE_SIZE + 1) in
            if n = -1 then Inr (if err = - ENAMETOOLONG then - E2BIG else err, s)
            else
              rbind (cur_proc (ker s)) (\<lambda>p.
              case safecpy_from_user (kmem_of s) (arg s 1) (of_int n) of
                None \<Rightarrow> Inr (- EFAULT, s)
              | Some val \<Rightarrow>
                  let eindex = env_index (environ p) nm 0; newvar = nm @ CHR ''='' # val in
                  if eindex = None \<and> length (environ p) \<ge> MAX_ENVIRON_VARS then Inr (- ENOSPC, s)
                  else rbind (upd_cur s (\<lambda>p. put_var p eindex newvar)) (\<lambda>s. Inr (0, s))))"

subsection \<open>Start of a process\<close>

text \<open>
  Plain stores of the kernel to the user's stack, a byte at a time: a missing stack page is
  mapped by the fault handler.
\<close>

primrec write_bytes :: "kernel \<Rightarrow> u32 \<Rightarrow> string \<Rightarrow> kernel res" where
  "write_bytes k va [] = Inr k"
| "write_bytes k va (c # cs) = rbind (write_stack k va [c]) (\<lambda>k. write_bytes k (va + 1) cs)"

text \<open>The length of an argument is rounded up to 4; the copy takes what follows it in the heap.\<close>

definition padded :: "vfs \<Rightarrow> string \<Rightarrow> string" where
  "padded v str =
     (let n = length str + 1; n = (if n mod 4 \<noteq> 0 then n + (4 - n mod 4) else n) in
      str @ NUL # fresh_block v (n - (length str + 1)))"

definition set_esp :: "sys \<Rightarrow> u32 \<Rightarrow> sys" where
  "set_esp s a = s\<lparr>sregs := (sregs s)\<lparr>r_useresp := a\<rparr>\<rparr>"

text \<open>The result: whether everything fitted, the addresses of the arguments and the state.\<close>

primrec push_args :: "u32 \<Rightarrow> string list \<Rightarrow> u32 list \<Rightarrow> sys \<Rightarrow> (bool \<times> u32 list \<times> sys) res" where
  "push_args stackbase [] targv s = Inr (True, targv, s)"
| "push_args stackbase (a # as) targv s =
     (let data = padded (fsys s) a; esp = r_useresp (sregs s) in
      if of_nat (length data) > esp - stackbase then Inr (False, targv, s)
      else
        let esp = esp - of_nat (length data) in
        rbind (write_bytes (ker s) esp data) (\<lambda>k.
        push_args stackbase as (targv @ [esp]) (set_esp (s\<lparr>ker := k\<rparr>) esp)))"

definition push_words :: "u32 \<Rightarrow> u32 list \<Rightarrow> sys \<Rightarrow> (bool \<times> sys) res" where
  "push_words stackbase ws s =
     (let n = of_nat (4 * length ws); esp = r_useresp (sregs s) in
      if n > esp - stackbase then Inr (False, s)
      else
        rbind (write_bytes (ker s) (esp - n) (concat (map bytes32 ws))) (\<lambda>k.
        Inr (True, set_esp (s\<lparr>ker := k\<rparr>) (esp - n))))"

definition syscall_setup :: "sys \<Rightarrow> (int \<times> sys) res" where
  "syscall_setup s =
     rbind (cur_thread (ker s)) (\<lambda>t.
     rbind (cur_proc (ker s)) (\<lambda>p.
     let stackbase = of_int (stackpdi t) * USER_STACK_REGION_SIZE;
         stackend = stackbase + USER_STACK_REGION_SIZE in
     if argc p < 0 then Inr (- EINVAL, s)
     else if r_useresp (sregs s) < stackbase \<or> r_useresp (sregs s) > stackend then Inr (- EFAULT, s)
     else if nat (argc p) > length (argv p) then Inl (Fault ''argv'')
     else
       rbind (push_args stackbase (take (nat (argc p)) (argv p)) [] s) (\<lambda>(done, targv, s).
       if \<not> done then Inr (- E2BIG, s)
       else
         rbind (push_words stackbase (targv @ [0]) s) (\<lambda>(done, s).
         if \<not> done then Inr (- E2BIG, s)
         else
           rbind (push_words stackbase [of_int (argc p), r_useresp (sregs s)] s) (\<lambda>(done, s).
           if \<not> done then Inr (- E2BIG, s) else Inr (0, s))))))"

definition syscall_getver :: "string \<Rightarrow> sys \<Rightarrow> (int \<times> sys) res" where
  "syscall_getver version s =
     (let n = min (length version + 1) (unat (arg s 1));
          (r, s) = to_user s (arg s 0) (take n (version @ [NUL])) in
      Inr (if r = -1 then - EFAULT else 0, s))"

subsection \<open>Interfaces\<close>

definition interface_name_user :: "mem \<Rightarrow> u32 \<Rightarrow> int + string" where
  "interface_name_user m uptr = kstrdup_user m uptr MAX_INTERFACE_NAME_LEN"

definition with_name :: "(string \<Rightarrow> process \<Rightarrow> kernel \<Rightarrow> (int \<times> kernel) res) \<Rightarrow> sys \<Rightarrow> (int \<times> sys) res" where
  "with_name f s =
     (case interface_name_user (kmem_of s) (arg s 0) of
        Inl err \<Rightarrow> Inr (err, s)
      | Inr nm \<Rightarrow> rbind (cur_proc (ker s)) (\<lambda>p. on_ker (f nm p) s))"

definition syscall_intfc :: "sys \<Rightarrow> (int \<times> sys) res" where
  "syscall_intfc s = with_name (\<lambda>nm p k. Inr (interface_create k nm (p_pid p) (arg s 1))) s"

definition syscall_intfd :: "sys \<Rightarrow> (int \<times> sys) res" where
  "syscall_intfd s = with_name (\<lambda>nm p k. Inr (interface_delete k nm (p_pid p))) s"

definition syscall_intfs :: "sys \<Rightarrow> (int \<times> sys) res" where
  "syscall_intfs s =
     with_name (\<lambda>nm p k. interface_send k nm (p_pid p) (sint (arg s 1)) (arg s 2) (arg s 3)) s"

definition syscall_intfr :: "sys \<Rightarrow> (int \<times> sys) res" where
  "syscall_intfr s =
     with_name (\<lambda>nm p k. Inr (interface_recv k nm (p_pid p) (arg s 1) (arg s 2) (arg s 3))) s"

definition syscall_intfw :: "sys \<Rightarrow> (int \<times> sys) res" where
  "syscall_intfw s =
     (case interface_name_user (kmem_of s) (arg s 0) of
        Inl err \<Rightarrow> Inr (err, s)
      | Inr nm \<Rightarrow> on_ker (\<lambda>k. interface_wait k nm (currenttid k)) s)"

subsection \<open>Dispatch\<close>

text \<open>The table \<open>syscall_init\<close> fills, by number; \<open>None\<close> for an empty entry.\<close>

definition syscalltable :: "drivers \<Rightarrow> string \<Rightarrow> (sys \<Rightarrow> (int \<times> sys) res) option list" where
  "syscalltable drv version =
     [None, Some syscall_exit, Some syscall_wait, Some (syscall_read drv), Some (syscall_write drv),
      Some syscall_open, Some syscall_close, Some (syscall_exec drv), Some syscall_brk,
      Some syscall_size, Some syscall_eret, Some syscall_ehndlr, Some syscall_getenv,
      Some syscall_setenv, Some syscall_setup, Some (syscall_getver version), Some syscall_chdir,
      Some syscall_list, Some syscall_getcwd, Some syscall_memusage, Some syscall_intfc,
      Some syscall_intfd, Some syscall_intfs, Some syscall_intfr, Some syscall_intfw,
      Some syscall_tfork, Some syscall_spstate, Some syscall_kill, Some syscall_pscount,
      Some syscall_pslist, Some syscall_texit] @ replicate 225 None"

definition set_kmode :: "bool \<Rightarrow> sys \<Rightarrow> sys" where
  "set_kmode b s = s\<lparr>ker := (ker s)\<lparr>kmode := b\<rparr>\<rparr>"

definition set_eax :: "sys \<Rightarrow> u32 \<Rightarrow> sys" where
  "set_eax s a = s\<lparr>sregs := (sregs s)\<lparr>r_eax := a\<rparr>\<rparr>"

definition syscall_handler :: "drivers \<Rightarrow> string \<Rightarrow> sys \<Rightarrow> sys res" where
  "syscall_handler drv version s =
     (let s = set_kmode False s; n = r_eax (sregs s) in
      if n < 31 \<and> n \<noteq> 0 then
        rbind (aget ''syscalltable'' (syscalltable drv version) (unat n)) (\<lambda>f.
        rbind (deref ''null function'' f) (\<lambda>f.
        rbind (f s) (\<lambda>(r, s). Inr (set_kmode True (set_eax s (of_int r))))))
      else Inr (set_kmode True (set_eax s (of_int (- ENOSYS)))))"

end
