(* ===== verification/SyscallSpec.thy ===== *)
theory SyscallSpec
  imports Syscall
begin

section \<open>What the system calls guarantee\<close>

text \<open>
  Properties of the calls of \<open>Syscall\<close>: user memory, the environment, directory listings,
  argument vectors and the dispatcher.
\<close>

subsection \<open>User memory\<close>

lemma to_user_confined:
  assumes "user_isolated (kmem_of s)" "to_user s dst src = (r, s')" "length src < 2 ^ 32"
  shows "confined (kmem_of s) (kmem_of s') dst (length src)"
proof -
  obtain m where "safecpy_to_user (kmem_of s) dst src = (r, m)" "kmem_of s' = m"
    using assms(2) by (auto simp: to_user_def kmem_of_def split: prod.splits)
  with safecpy_to_user_confined [OF assms(1) _ assms(3)] show ?thesis by blast
qed

lemma read_copy_confined:
  assumes "user_isolated (kmem_of s)" "read_copy s retval newbuf count = Inr (r, s')"
  shows "confined (kmem_of s) (kmem_of s') (arg s 1) (unat count)"
proof (cases "(if retval > 0 then min (nat retval) (unat count) else 0) = 0")
  case True
  then show ?thesis using assms(2) unfolding read_copy_def Let_def by (simp only: if_True simp_thms) simp
next
  case False
  define n where "n = (if retval > 0 then min (nat retval) (unat count) else 0)"
  have n: "n \<noteq> 0" "n \<le> unat count" using False by (auto simp: n_def)
  obtain q where q: "to_user s (arg s 1) (take n newbuf) = (q, s')"
    using assms(2) n(1) unfolding read_copy_def n_def [symmetric] by (auto simp: Let_def split: prod.splits)
  have l: "length (take n newbuf) \<le> unat count" using n(2) by simp
  also have "\<dots> < 2 ^ 32" by simp
  finally have "confined (kmem_of s) (kmem_of s') (arg s 1) (length (take n newbuf))"
    by (rule to_user_confined [OF assms(1) q])
  then show ?thesis by (rule confined_mono [OF _ l])
qed

lemma vfs_read_kmem:
  "vfs_read drv k v fd count = Inr (r, data, k') \<Longrightarrow> kmem k' = kmem k"
  unfolding vfs_read_def access_open_def
  by (auto simp: rbind_eq_Inr put_cur_def split: option.splits)

lemma suspend_kmem: "sched_suspend_thread k irq tid = Inr k' \<Longrightarrow> kmem k' = kmem k"
  by (auto simp: sched_suspend_thread_def upd_thread_Inr)

lemma read_stdin_cases:
  assumes "read_stdin s n = Inr (r, s')"
  shows "s' = s \<or> (\<exists>s1 rv cs. kmem_of s1 = kmem_of s \<and> arg s1 = arg s \<and> read_copy s1 rv cs n = Inr (r, s'))"
proof -
  from assms obtain w where w: "vmm_user_range_writable (kmem_of s) (arg s 1) n = Inr w"
    unfolding read_stdin_def by (auto simp: rbind_eq_Inr)
  show ?thesis
  proof (cases w)
    case True
    with assms w obtain cs k s1 where
      "(if int (length cs) = 0
        then rbind (sched_suspend_thread (ker s) 1 (currenttid (ker s)))
          (\<lambda>k'. Inr (s\<lparr>cons := cons s\<lparr>con_kb := k\<rparr>, ker := k'\<rparr>))
        else Inr (s\<lparr>cons := cons s\<lparr>con_kb := k\<rparr>\<rparr>)) = Inr s1"
      "read_copy s1 (int (length cs)) cs n = Inr (r, s')"
      unfolding read_stdin_def by (auto simp: rbind_eq_Inr Let_def cong: if_cong)
    moreover from this(1) have "kmem_of s1 = kmem_of s \<and> arg s1 = arg s"
      by (auto simp: kmem_of_def arg_def fun_eq_iff rbind_eq_Inr suspend_kmem split: if_splits)
    ultimately show ?thesis by blast
  qed (use assms w in \<open>simp add: read_stdin_def\<close>)
qed

lemma clip_count_le: "unat (clip_count n) \<le> unat n"
  by (simp add: clip_count_def word_less_nat_alt)


definition demo_regs :: regs where
  "demo_regs = \<lparr>r_edi = 0, r_esi = 0, r_ebp = 0, r_ebx = 16, r_edx = 0xBFFFFFFF, r_ecx = 0, r_eax = 3,
     r_eip = 0x08000000, r_cs = 0x1B, r_eflags = 0x202, r_useresp = 0xBFFFFFF0\<rparr>"

definition demo_sys :: sys where
  "demo_sys = \<lparr>ker = demo, fsys = demo_tree, cons = demo_console, sregs = demo_regs\<rparr>"

lemma demo_sys_arg [simp]: "arg demo_sys 0 = 0" "arg demo_sys 1 = 0xBFFFFFFF" "arg demo_sys 2 = 16"
  "arg demo_sys (Suc 0) = 0xBFFFFFFF"
  by (simp_all add: arg_def demo_sys_def demo_regs_def)


subsection \<open>Directory listings\<close>

text \<open>The names, each followed by a new line.\<close>

definition listing :: "string list \<Rightarrow> string" where
  "listing nms = concat (map (\<lambda>nm. nm @ [CHR 0x0A]) nms)"

lemma listing_simps [simp]: "listing [] = []" "listing (nm # nms) = nm @ [CHR 0x0A] @ listing nms"
  by (simp_all add: listing_def)

text \<open>The longest run of names that fits.\<close>

fun fitting :: "nat \<Rightarrow> string list \<Rightarrow> string list" where
  "fitting room [] = []"
| "fitting room (nm # nms) =
     (if length nm + 1 \<le> room then nm # fitting (room - (length nm + 1)) nms else [])"

lemma list_fill_fitting: "list_fill n buf nms = buf @ listing (fitting (n - length buf) nms)"
  by (induction nms arbitrary: buf) (auto simp: not_less_eq_eq)

lemma fitting_bound: "length (listing (fitting room nms)) \<le> room"
  by (induction room nms rule: fitting.induct) auto

lemma fitting_all: "length (listing nms) \<le> room \<Longrightarrow> fitting room nms = nms"
  by (induction nms arbitrary: room) auto

lemma list_needed_cases:
  "n \<le> bound \<Longrightarrow> list_needed bound n nms =
     (if n + length (listing nms) \<le> bound then n + length (listing nms) else bound)"
  by (induction nms arbitrary: n) auto

lemma fitting_prefix: "\<exists>k. fitting room nms = take k nms \<and>
    (k < length nms \<longrightarrow> room < length (listing (take (Suc k) nms)))"
proof (induction room nms rule: fitting.induct)
  case (2 room nm nms)
  show ?case
  proof (cases "length nm + 1 \<le> room")
    case True
    with 2 obtain k where "fitting (room - (length nm + 1)) nms = take k nms"
      "k < length nms \<longrightarrow> room - (length nm + 1) < length (listing (take (Suc k) nms))" by blast
    with True show ?thesis by (intro exI [of _ "Suc k"]) auto
  next
    case False
    then show ?thesis by (intro exI [of _ 0]) auto
  qed
qed simp

lemma list_text_eq:
  assumes "0 < bound"
  shows "list_text bound nms = Inr (butlast (listing (fitting bound nms)) @ [NUL])"
proof -
  define needed where "needed = (if list_needed bound 0 nms = 0 then 1 else list_needed bound 0 nms)"
  have fit: "fitting needed nms = fitting bound nms" "0 < needed"
  proof -
    show "0 < needed" by (simp add: needed_def)
    show "fitting needed nms = fitting bound nms"
    proof (cases "length (listing nms) \<le> bound")
      case True
      then have "length (listing nms) \<le> needed" by (simp add: needed_def list_needed_cases)
      with True show ?thesis by (simp add: fitting_all)
    next
      case False
      then show ?thesis using assms by (simp add: needed_def list_needed_cases)
    qed
  qed
  let ?b = "listing (fitting bound nms)"
  have "length ?b \<le> needed" using fitting_bound [of needed nms] by (simp add: fit(1))
  then have "(if length ?b > 0 then length ?b - 1 else length ?b) < needed" using fit(2) by auto
  then show ?thesis
    unfolding list_text_def Let_def needed_def [symmetric] list_fill_fitting
    by (auto simp: fit(1) butlast_conv_take split: if_splits)
qed

text \<open>
  The text \<open>syscall_list\<close> copies out is, for every buffer size other than 0, the names of
  the longest initial run of entries that fits, separated by new lines and terminated: it is
  never longer than the buffer, it is built without overrunning the kernel's buffer, and it
  holds every name when there is room for all.
\<close>

theorem syscall_list_text:
  assumes "0 < bound"
  shows "\<exists>k. list_text bound nms = Inr (butlast (listing (take k nms)) @ [NUL]) \<and>
    length (butlast (listing (take k nms)) @ [NUL]) \<le> bound \<and>
    (k < length nms \<longrightarrow> bound < length (listing (take (Suc k) nms)))"
proof -
  obtain k where k: "fitting bound nms = take k nms"
    "k < length nms \<longrightarrow> bound < length (listing (take (Suc k) nms))"
    using fitting_prefix by blast
  have "length (listing (take k nms)) \<le> bound" using fitting_bound [of bound nms] by (simp add: k(1))
  with assms have "length (butlast (listing (take k nms)) @ [NUL]) \<le> bound" by simp
  with k list_text_eq [OF assms, of nms] show ?thesis by metis
qed

lemma syscall_list_text_witness: "list_text 8 [''bin'', ''home''] = Inr (''bin'' @ [NUL])"
proof -
  obtain k where k: "list_text 8 [''bin'', ''home''] = Inr (butlast (listing (take k [''bin'', ''home''])) @ [NUL])"
    "length (butlast (listing (take k [''bin'', ''home''])) @ [NUL]) \<le> 8"
    "k < 2 \<longrightarrow> 8 < length (listing (take (Suc k) [''bin'', ''home'']))"
    using syscall_list_text [of 8 "[''bin'', ''home'']"] by auto
  have "k \<noteq> 0" using k(3) by (cases k) auto
  moreover have "k < 2" using k(2) by (cases "k < 2") auto
  ultimately have "k = 1" by simp
  with k(1) show ?thesis by simp
qed

subsection \<open>The environment\<close>

lemma env_index_cases:
  "(\<exists>k<length vars. env_index vars nm i = Some (i + k) \<and> env_match nm (vars ! k) \<and>
      (\<forall>j<k. \<not> env_match nm (vars ! j))) \<or>
   env_index vars nm i = None \<and> (\<forall>var\<in>set vars. \<not> env_match nm var)"
proof (induction vars nm i rule: env_index.induct)
  case (2 var vars nm i)
  show ?case
  proof (cases "env_match nm var")
    case True
    then show ?thesis by (intro disjI1 exI [of _ 0]) simp
  next
    case False
    from 2 [OF False] False show ?thesis
      by (elim disjE exE conjE) (rule disjI1, rule_tac x = "Suc k" in exI, auto simp: less_Suc_eq_0_disj)
  qed
qed simp

lemma env_index_Suc: "env_index vars nm (Suc i) = map_option Suc (env_index vars nm i)"
  by (induction vars nm i rule: env_index.induct) simp_all

text \<open>The value: that of the first variable that matches.\<close>

lemma env_value_Cons:
  "env_value (var # vars) nm = (if env_match nm var then Some (drop (length nm + 1) var) else env_value vars nm)"
proof (cases "env_match nm var")
  case False
  then show ?thesis by (simp add: env_value_def env_index_Suc split: option.splits)
qed (simp add: env_value_def)

lemma env_value_append:
  "env_value (vs @ ws) nm = (case env_value vs nm of None \<Rightarrow> env_value ws nm | Some x \<Rightarrow> Some x)"
  by (induction vs) (simp_all add: env_value_Cons, simp add: env_value_def)

lemma env_match_var: "CHR ''='' \<notin> set nm \<Longrightarrow> CHR ''='' \<notin> set nm2 \<Longrightarrow> env_match nm2 (nm @ CHR ''='' # val) \<longleftrightarrow> nm2 = nm"
proof
  assume eq: "CHR ''='' \<notin> set nm" "CHR ''='' \<notin> set nm2" "env_match nm2 (nm @ CHR ''='' # val)"
  let ?v = "nm @ CHR ''='' # val"
  have m: "take (length nm2) ?v = nm2" "?v ! length nm2 = CHR ''=''" "length nm2 < length ?v"
    using eq(3) by (simp_all add: env_match_def)
  have "\<not> length nm2 < length nm" using m(2) eq(1) by (metis nth_append nth_mem)
  moreover have "\<not> length nm < length nm2"
  proof
    assume l: "length nm < length nm2"
    then have "nm2 ! length nm = CHR ''=''" using m(1) by (metis nth_append_length nth_take)
    with l eq(2) show False by (metis nth_mem)
  qed
  ultimately have "length nm2 = length nm" by simp
  with m(1) show "nm2 = nm" by simp
qed (simp add: env_match_def)

text \<open>The first match, split off.\<close>

lemma env_index_split:
  assumes "env_index vars nm 0 = Some i"
  obtains vs var ws where "vars = vs @ var # ws" "i = length vs" "env_match nm var"
    "\<forall>v\<in>set vs. \<not> env_match nm v"
proof -
  from env_index_cases [of vars nm 0] assms have i: "i < length vars" "env_match nm (vars ! i)"
    "\<forall>j<i. \<not> env_match nm (vars ! j)" by auto
  have "vars = take i vars @ vars ! i # drop (Suc i) vars" by (rule id_take_nth_drop [OF i(1)])
  moreover have "\<forall>v\<in>set (take i vars). \<not> env_match nm v" using i(1,3) by (auto simp: in_set_conv_nth)
  ultimately show ?thesis using that [of "take i vars" "vars ! i" "drop (Suc i) vars"] i by simp
qed

lemma env_value_none: "\<forall>v\<in>set vs. \<not> env_match nm v \<Longrightarrow> env_value vs nm = None"
  by (induction vs) (simp_all add: env_value_Cons, simp add: env_value_def)

lemma env_match_unique:
  "env_match nm var \<Longrightarrow> env_match nm2 var \<Longrightarrow> CHR ''='' \<notin> set nm \<Longrightarrow> CHR ''='' \<notin> set nm2 \<Longrightarrow> nm2 = nm"
proof -
  assume m: "env_match nm var" "env_match nm2 var" "CHR ''='' \<notin> set nm" "CHR ''='' \<notin> set nm2"
  then have "var = nm @ CHR ''='' # drop (length nm + 1) var"
    by (metis Suc_eq_plus1 env_match_def id_take_nth_drop)
  with env_match_var [OF m(3,4)] m(2) show ?thesis by metis
qed

lemma put_var_value:
  fixes p :: process
  assumes "CHR ''='' \<notin> set nm" and p': "p' = put_var p (env_index (environ p) nm 0) (nm @ CHR ''='' # val)"
  shows "env_value (environ p') nm = Some val"
    and "CHR ''='' \<notin> set nm2 \<Longrightarrow> nm2 \<noteq> nm \<Longrightarrow> env_value (environ p') nm2 = env_value (environ p) nm2"
proof -
  have self: "env_match nm (nm @ CHR ''='' # val)" by (simp add: env_match_def)
  have other: "CHR ''='' \<notin> set nm2 \<Longrightarrow> nm2 \<noteq> nm \<Longrightarrow> \<not> env_match nm2 (nm @ CHR ''='' # val)" for nm2
    using env_match_var assms(1) by metis
  have "env_value (environ p') nm = Some val \<and>
    (CHR ''='' \<notin> set nm2 \<longrightarrow> nm2 \<noteq> nm \<longrightarrow> env_value (environ p') nm2 = env_value (environ p) nm2)" for nm2
  proof (cases "env_index (environ p) nm 0")
    case None
    then have "\<forall>v\<in>set (environ p). \<not> env_match nm v" using env_index_cases [of "environ p" nm 0] by auto
    then show ?thesis using self other
      by (simp add: p' None put_var_def Let_def env_value_append env_value_Cons env_value_none)
        (simp add: env_value_def split: option.splits)
  next
    case (Some i)
    then obtain vs var ws where v: "environ p = vs @ var # ws" "i = length vs" "env_match nm var"
      "\<forall>v\<in>set vs. \<not> env_match nm v" by (rule env_index_split)
    then have "\<not> env_match nm2 var" if "CHR ''='' \<notin> set nm2" "nm2 \<noteq> nm"
      using env_match_unique assms(1) that by metis
    with v Some self other show ?thesis
      by (simp add: p' put_var_def env_value_append env_value_Cons env_value_none split: option.splits)
  qed
  then show "env_value (environ p') nm = Some val"
    and "CHR ''='' \<notin> set nm2 \<Longrightarrow> nm2 \<noteq> nm \<Longrightarrow> env_value (environ p') nm2 = env_value (environ p) nm2"
    by blast+
qed

lemma safelen_loop_result:
  "(0 \<le> fst (safelen_loop m a i n) \<and> fst (safelen_loop m a i n) < int (i + n) \<and> snd (safelen_loop m a i n) = 0) \<or>
   (fst (safelen_loop m a i n) = -1 \<and>
      (snd (safelen_loop m a i n) = - ENAMETOOLONG \<or> snd (safelen_loop m a i n) = - EFAULT))"
proof (induction n arbitrary: i)
  case (Suc n)
  from Suc [of "Suc i"] show ?case by (auto split: option.splits)
qed simp

lemma safelen_result:
  assumes "safelen_max_err m a mx = (n, err)"
  shows "(0 \<le> n \<and> n < int (unat mx) \<and> err = 0) \<or> (n = -1 \<and> (err = - ENAMETOOLONG \<or> err = - EFAULT))"
proof (cases "a \<ge> KERNEL_START")
  case False
  define k where "k = (if mx > KERNEL_START - a then KERNEL_START - a else mx)"
  have "unat k \<le> unat mx" by (simp add: k_def word_less_nat_alt)
  then have "int (unat k) \<le> int (unat mx)" by (simp only: of_nat_le_iff)
  moreover have "safelen_loop m a 0 (unat k) = (n, err)"
    using assms False by (simp add: safelen_max_err_def k_def Let_def)
  ultimately show ?thesis using safelen_loop_result [of m a 0 "unat k"] by (auto simp del: of_nat_unat)
qed (use assms in \<open>simp add: safelen_max_err_def\<close>)

text \<open>
  What \<open>setenv\<close> stores: after a set of a name without an equals sign has returned 0, the variable of that
  name in the current process is the string that was at the value pointer, and every other name has the
  value it had. \<open>getenv\<close> copies the value of a variable and its terminator to a buffer with room for both.
\<close>

lemma setenv_effect:
  assumes "syscall_setenv s = Inr (0, s1)" "kstrdup_user (kmem_of s) (arg s 0) MAX_ENV_NAME_SIZE = Inr nm"
    "CHR ''='' \<notin> set nm" "cur_proc (ker s) = Inr p"
  shows "\<exists>p1 val. cur_proc (ker s1) = Inr p1 \<and> kmem_of s1 = kmem_of s \<and>
    safelen_max_err (kmem_of s) (arg s 1) (MAX_ENV_VALUE_SIZE + 1) = (int (length val), 0) \<and>
    safecpy_from_user (kmem_of s) (arg s 1) (of_nat (length val)) = Some val \<and>
    (\<forall>nm2. CHR ''='' \<notin> set nm2 \<longrightarrow> nm2 \<noteq> nm \<longrightarrow> env_value (environ p1) nm2 = env_value (environ p) nm2) \<and>
    env_value (environ p1) nm = Some val"
proof -
  let ?ei = "env_index (environ p) nm 0"
  obtain n err where n: "safelen_max_err (kmem_of s) (arg s 1) (MAX_ENV_VALUE_SIZE + 1) = (n, err)" by fastforce
  have "n \<noteq> -1"
  proof
    assume "n = -1"
    moreover from this n have "err = - ENAMETOOLONG \<or> err = - EFAULT"
      using safelen_result by fastforce
    ultimately show False using assms n by (auto simp: syscall_setenv_def split: if_splits)
  qed
  with assms n obtain val where val: "safecpy_from_user (kmem_of s) (arg s 1) (of_int n) = Some val"
    and s1: "upd_cur s (\<lambda>p. put_var p ?ei (nm @ CHR ''='' # val)) = Inr s1"
    by (auto simp: syscall_setenv_def Let_def rbind_eq_Inr split: option.splits if_splits)
  let ?p1 = "put_var p ?ei (nm @ CHR ''='' # val)"
  have "0 \<le> n" "n < int (unat (MAX_ENV_VALUE_SIZE + 1))" "err = 0"
    using safelen_result [OF n] \<open>n \<noteq> -1\<close> by auto
  moreover from this(1) obtain j where "n = int j" using nonneg_int_cases by blast
  ultimately have nlen: "n = int (length val)" "err = 0"
    using safecpy_from_user_length [OF val] by (simp_all add: MAX_ENV_VALUE_SIZE_def unat_of_nat)
  have len: "of_nat (length val) = (of_int n :: u32)" by (simp add: nlen)
  have k1: "ker s1 = put_cur ?p1 (ker s)" "s1 = s\<lparr>ker := put_cur ?p1 (ker s)\<rparr>"
    using s1 assms(4) by (auto simp: upd_cur_def)
  have p1: "cur_proc (ker s1) = Inr ?p1" unfolding k1(1) by (rule cur_proc_put_cur(1) [OF assms(4)])
  note v = put_var_value [OF assms(3) refl, where p = p and val = val]
  have m1: "kmem_of s1 = kmem_of s" by (simp add: kmem_of_def k1(1) put_cur_def split: option.splits)
  show ?thesis
    by (rule exI [of _ ?p1], rule exI [of _ val])
      (use p1 m1 v val [folded len] n [unfolded nlen] in \<open>simp add: Let_def\<close>)
qed

lemma getenv_value:
  assumes "kstrdup_user (kmem_of g) (arg g 0) MAX_ENV_NAME_SIZE = Inr nm" "cur_proc (ker g) = Inr p"
    "env_value (environ p) nm = Some val" "length val + 1 \<le> unat (arg g 2)"
  shows "syscall_getenv g = (let (e, g') = to_user g (arg g 1) (val @ [NUL]) in Inr (if e = -1 then - EFAULT else 0, g'))"
proof -
  have "length val + 1 < 4294967296" by (rule le_less_trans [OF assms(4)]) (use unat_u32_less in simp)
  then have "unat (of_nat (length val) + 1 :: u32) = length val + 1" by (simp add: unat_of_nat unat_word_ariths)
  then have "\<not> arg g 2 < of_nat (length val) + 1" "arg g 2 \<noteq> 0" using assms(4) by (auto simp: word_less_nat_alt)
  with assms show ?thesis by (simp add: syscall_getenv_def)
qed

text \<open>A process that calls \<open>setenv("A", "b")\<close> with both strings at the start of its first page.\<close>

definition env_mem :: mem where
  "env_mem = run_mem\<lparr>phys := (phys run_mem)(0x6000 := 0x00620041)\<rparr>"

definition env_sys :: sys where
  "env_sys = demo_sys\<lparr>ker := demo\<lparr>kmem := env_mem\<rparr>,
     sregs := demo_regs\<lparr>r_ecx := 0x08000000, r_edx := 0x08000002\<rparr>\<rparr>"

lemma env_bytes: "vread8 env_mem 0x08000000 = Some (CHR ''A'')" "vread8 env_mem 0x08000001 = Some NUL"
  "vread8 env_mem 0x08000002 = Some (CHR ''b'')" "vread8 env_mem 0x08000003 = Some NUL"
  by (simp_all add: env_mem_def vread8_def dword_of_def lane_def get_byte_def eval_mem char_of_def
      drop_bit_eq_div bit_iff_odd)

lemma env_name: "kstrdup_user env_mem 0x08000000 MAX_ENV_NAME_SIZE = Inr ''A''"
proof -
  have "user_len env_mem 0x08000000 1" by (simp add: user_len_def env_bytes)
  then have "safelen_max_err env_mem 0x08000000 MAX_ENV_NAME_SIZE = (int 1, 0)"
    unfolding safelen_Some by (simp add: KERNEL_START_def MAX_ENV_NAME_SIZE_def)
  moreover have "safecpy_from_user env_mem 0x08000000 2 = Some [CHR ''A'', NUL]"
    unfolding safecpy_from_user_Some by (auto simp: KERNEL_START_def less_2_cases_iff env_bytes)
  ultimately show ?thesis by (simp add: kstrdup_user_def)
qed

lemma env_sys_simps [simp]: "arg env_sys 0 = 0x08000000" "arg env_sys (Suc 0) = 0x08000002"
  "kmem_of env_sys = env_mem" "cur_proc (ker env_sys) = Inr (demo_process 1 3)"
  by (simp_all add: arg_def env_sys_def demo_regs_def demo_sys_def kmem_of_def demo_def cur_proc_def proc_def
      get_proc_def last_pid_def)

subsection \<open>Argument vectors\<close>

lemma get32_4: "length b = 4 \<Longrightarrow> \<exists>w. get32 b 0 = Inr w"
  by (simp add: get32_def get16_def get8_def)

definition args_size :: "string list \<Rightarrow> nat" where
  "args_size av = sum_list (map (\<lambda>a. length a + 1) av)"

definition args_ok :: "string list \<Rightarrow> bool" where
  "args_ok av \<longleftrightarrow> length av \<le> MAX_EXEC_ARGS \<and> args_size av \<le> unat MAX_EXEC_ARGS_TOTAL \<and>
     (\<forall>a\<in>set av. length a < unat MAX_EXEC_ARG_SIZE)"

lemma length_takeWhile_stop: "x \<in> set xs \<Longrightarrow> \<not> P x \<Longrightarrow> length (takeWhile P xs) < length xs"
  by (induction xs) auto

lemma args_total:
  assumes "unat (tot :: u32) \<le> unat MAX_EXEC_ARGS_TOTAL" "0 \<le> n" "n < int (unat MAX_EXEC_ARG_SIZE)"
    "\<not> of_int n + 1 > MAX_EXEC_ARGS_TOTAL - tot"
  shows "unat (tot + (of_int n + 1)) = unat tot + nat n + 1 \<and> unat tot + nat n + 1 \<le> unat MAX_EXEC_ARGS_TOTAL
    \<and> unat (of_int n + 1 :: u32) = nat n + 1"
proof -
  obtain j where j: "n = int j" using assms(2) nonneg_int_cases by blast
  then have "j < 65536" using assms(3) by (simp add: MAX_EXEC_ARG_SIZE_def)
  then have u: "unat (of_int n + 1 :: u32) = j + 1"
    by (simp add: j unat_word_ariths unat_of_nat)
  have "unat (MAX_EXEC_ARGS_TOTAL - tot) = unat MAX_EXEC_ARGS_TOTAL - unat tot"
    using assms(1) by (simp add: unat_sub word_le_nat_alt)
  then have "j + 1 \<le> unat MAX_EXEC_ARGS_TOTAL - unat tot"
    using assms(4) u by (simp add: word_less_nat_alt not_less)
  then have le: "unat tot + (j + 1) \<le> unat MAX_EXEC_ARGS_TOTAL" using assms(1) by simp
  moreover have "unat MAX_EXEC_ARGS_TOTAL = 1048576" by (simp add: MAX_EXEC_ARGS_TOTAL_def)
  ultimately have "unat (tot + (of_int n + 1)) = unat tot + unat (of_int n + 1 :: u32)"
    unfolding u by (subst unat_add_lem [THEN iffD1]) (simp_all add: u)
  with le u j show ?thesis by simp
qed

lemma kargv_loop_ok:
  assumes "length av < cap" "cap \<le> MAX_EXEC_ARGS + 1" "args_ok av" "args_size av \<le> unat tot"
    "unat tot \<le> unat MAX_EXEC_ARGS_TOTAL"
  shows "\<exists>r. kargv_loop m uargv cap av tot = Inr r \<and> (\<forall>res. r = Inr res \<longrightarrow> args_ok res)"
  using assms
proof (induction "MAX_EXEC_ARGS - length av" arbitrary: cap av tot rule: less_induct)
  case less
  note step = kargv_loop.simps [of m uargv cap av tot]
  show ?case
  proof (cases "safecpy_from_user m (uargv + of_nat (length av) * 4) 4")
    case None
    then show ?thesis by (simp add: step)
  next
    case (Some b)
    from get32_4 [of b] safecpy_from_user_length [OF Some] obtain uarg where g: "get32 b 0 = Inr uarg" by auto
    obtain n lerr where n: "safelen_max_err m uarg MAX_EXEC_ARG_SIZE = (n, lerr)" by fastforce
    show ?thesis
    proof (cases "uarg = 0 \<or> length av \<ge> MAX_EXEC_ARGS \<or> n < 0 \<or> of_int n + 1 > MAX_EXEC_ARGS_TOTAL - tot
        \<or> safecpy_from_user m uarg (of_int n + 1) = None")
      case True
      then show ?thesis using less.prems(1,3) n by (auto simp: step Some g Let_def)
    next
      case False
      then obtain buf where buf: "safecpy_from_user m uarg (of_int n + 1) = Some buf" by auto
      have nb: "0 \<le> n" "n < int (unat MAX_EXEC_ARG_SIZE)" using safelen_result [OF n] False by auto
      note t = args_total [OF less.prems(5) nb] False
      let ?cap = "if length av + 1 \<ge> cap then min (cap * 2) (MAX_EXEC_ARGS + 1) else cap"
      let ?a = "takeWhile (\<lambda>c. c \<noteq> NUL) buf"
      have blen: "length buf = nat n + 1" using safecpy_from_user_length [OF buf] t by simp
      have term_in: "\<exists>c\<in>set buf. c = NUL"
      proof -
        have "user_len m uarg (nat n)" "safelen_max_err m uarg MAX_EXEC_ARG_SIZE = (int (nat n), 0)"
          using n nb safelen_result [OF n] safelen_Some [of m uarg MAX_EXEC_ARG_SIZE "nat n"] by auto
        moreover have "nat n < unat (of_int n + 1 :: u32)" using t by simp
        then have "vread8 m (uarg + of_nat (nat n)) = Some (buf ! nat n)"
          using buf unfolding safecpy_from_user_Some by (metis less_zeroE unat_0)
        ultimately have "buf ! nat n = NUL" by (simp add: user_len_def)
        then show ?thesis using blen by (metis less_add_one nth_mem)
      qed
      have alen: "length ?a \<le> nat n"
        using length_takeWhile_stop [of NUL buf "\<lambda>c. c \<noteq> NUL"] term_in blen by auto
      have "nat n < unat MAX_EXEC_ARG_SIZE" using nb by (simp only: nat_less_iff)
      with alen have asize: "length ?a < unat MAX_EXEC_ARG_SIZE" by (rule le_less_trans)
      have "\<exists>r. kargv_loop m uargv ?cap (av @ [?a]) (tot + (of_int n + 1)) = Inr r \<and> (\<forall>res. r = Inr res \<longrightarrow> args_ok res)"
      proof (rule less.hyps)
        show "length (av @ [?a]) < ?cap" "?cap \<le> MAX_EXEC_ARGS + 1"
          using less.prems(1,2) False by auto
        show "args_size (av @ [?a]) \<le> unat (tot + (of_int n + 1))"
          using less.prems(4) alen t by (simp add: args_size_def)
        then show "args_ok (av @ [?a])"
          using less.prems(3) asize t False by (auto simp: args_ok_def)
        show "unat (tot + (of_int n + 1)) \<le> unat MAX_EXEC_ARGS_TOTAL" using t by simp
      qed (use t False in auto)
      moreover have "length av < ?cap" using less.prems(1,2) False by auto
      ultimately show ?thesis using False n by (simp add: step Some g buf Let_def)
    qed
  qed
qed

text \<open>
  C22: Copying an argument vector always returns, whatever the pointers: the loop never leaves
  the array it grows, and what it returns without an error has at most \<open>MAX_EXEC_ARGS\<close>
  strings, each shorter than \<open>MAX_EXEC_ARG_SIZE\<close>, and at most \<open>MAX_EXEC_ARGS_TOTAL\<close> bytes
  with their terminators.
\<close>

theorem kargv_user_bounds:
  "\<exists>r. kargv_user m uargv = Inr r \<and> (case r of Inr (Some av) \<Rightarrow> args_ok av | _ \<Rightarrow> True)"
proof -
  have "args_ok []" by (simp add: args_ok_def args_size_def)
  then have "\<exists>r. kargv_loop m uargv 8 [] 0 = Inr r \<and> (\<forall>res. r = Inr res \<longrightarrow> args_ok res)"
    by (intro kargv_loop_ok) (simp_all add: MAX_EXEC_ARGS_def args_size_def)
  then obtain r where "kargv_loop m uargv 8 [] 0 = Inr r" "\<forall>res. r = Inr res \<longrightarrow> args_ok res" by blast
  then show ?thesis by (cases r) (simp_all add: kargv_user_def)
qed

subsection \<open>The dispatcher\<close>



end
