(* ===== verification/Irq.thy ===== *)
theory Irq
  imports Descr Printf Brk SyscallSpec
begin

section \<open>Interrupts and exceptions\<close>

text \<open>
  \<open>kernel/kernel/i386/irq.c\<close> and \<open>exception_handle\<close> of \<open>exceptionx86.c\<close>, over the whole system.
  \<open>int_no\<close>, \<open>err_code\<close> and \<open>cr2\<close> are what the processor and the stubs of \<open>boot.S\<close> deliver; the
  other saved registers are \<open>sregs\<close>. A handler that ends in \<open>int $0x30\<close> on a stack that is about to be deleted
  never gets back there: the result says so (True).
\<close>

subsection \<open>Exceptions\<close>

definition cpumessages :: "string list" where
  "cpumessages = [''Division Error'', ''Debug'', ''Non-maskable Interrupt'', ''Breakpoint'', ''Overflow'',
     ''Bound Range Exceeded'', ''Invalid Opcode'', ''Device Not Available'', ''Double Fault'',
     ''Coprocessor Segment Overrun'', ''Invalid TSS'', ''Segment Not Present'', ''Stack-Segment Fault'',
     ''General Protection Fault'', ''Page Fault'', ''Unknown'', ''x87 Floating-Point Exception'', ''Alignment Check'',
     ''Machine Check'', ''SIMD Floating-Point Exception'', ''Virtualization Exception'', ''Control Protection Exception'',
     ''Unknown'', ''Unknown'', ''Unknown'', ''Unknown'', ''Unknown'', ''Unknown'', ''Hypervisor Injection Exception'',
     ''VMM Communication Exception'', ''Security Exception'', ''Unknown'']"

text \<open>The first part: a fault of a program goes to the scheduler, one of the kernel stops it.\<close>

definition exception_fault :: "u32 \<Rightarrow> u32 \<Rightarrow> u32 \<Rightarrow> kernel \<Rightarrow> kernel res" where
  "exception_fault int_no err_code cr2 k =
     (if currenttid k = -1 then Inr k
      else
        rbind (cur_thread k) (\<lambda>t.
        if t_privilege t \<noteq> 0 then sched_user_fault k (uint int_no) err_code cr2
        else if int_no < 32 then
          rbind (aget ''cpumessages'' cpumessages (unat int_no)) (\<lambda>msg.
          Inl (Panic (''CPU exception occurred: '' @ msg @ '' (0x'' @ hex (uint int_no) @ '')'')))
        else Inr k))"

text \<open>Killing the process and giving up the processor.\<close>

definition exit_and_yield :: "bool \<Rightarrow> sys \<Rightarrow> (bool \<times> sys) res" where
  "exit_and_yield reset s =
     rbind (cur_proc (ker s)) (\<lambda>p.
     rbind (sched_exit_process (ker s) (ucast (procerr p))) (\<lambda>(_, k).
     rbind (upd_cur (s\<lparr>ker := k\<rparr>) (\<lambda>p. p\<lparr>procerr_unhandled := (if reset then False else procerr_unhandled p), procerr := 0\<rparr>)) (\<lambda>s.
     Inr (True, s))))"

definition fault_frame :: "regs \<Rightarrow> process \<Rightarrow> string" where
  "fault_frame r p = bytes32 (r_eip r) @ bytes32 (ucast (procerr p))"

definition exception_deliver :: "sys \<Rightarrow> (bool \<times> sys) res" where
  "exception_deliver s =
     (if currentps (ker s) = None then Inr (False, s)
      else
        rbind (cur_proc (ker s)) (\<lambda>p.
        if procerr p = 0 then Inr (False, s)
        else if r_cs (sregs s) AND 3 \<noteq> 0 then
          if procerr_unhandled p then exit_and_yield True s
          else if procerrhandler p \<noteq> 0 then
            (let r = sregs s; newesp = r_useresp r - 8;
                 (c, s') = (if r_useresp r < 8 then (-1, s) else to_user s newesp (fault_frame r p)) in
             if c = -1 then exit_and_yield False s'
             else
               rbind (upd_cur (s'\<lparr>sregs := r\<lparr>r_useresp := newesp, r_eip := procerrhandler p\<rparr>\<rparr>)
                 (\<lambda>p. p\<lparr>procerr_unhandled := True, procerr := 0\<rparr>)) (\<lambda>s. Inr (False, s)))
          else exit_and_yield False s
        else Inl (Panic (''Kernel process crashed: code '' @ dec (uint (procerr p))))))"

definition exception_handle :: "u32 \<Rightarrow> u32 \<Rightarrow> u32 \<Rightarrow> sys \<Rightarrow> (bool \<times> sys) res" where
  "exception_handle int_no err_code cr2 s =
     rbind (exception_fault int_no err_code cr2 (ker s)) (\<lambda>k. exception_deliver (s\<lparr>ker := k\<rparr>))"

subsection \<open>Interrupts\<close>

definition out_wait :: "u16 \<Rightarrow> u8 \<Rightarrow> io \<Rightarrow> io" where "out_wait port val io = io_wait (outb port val io)"

definition irq_remap :: "io \<Rightarrow> io" where
  "irq_remap io =
     fold (\<lambda>(port, val). out_wait port val)
       [(0x20, 0x11), (0xA0, 0x11), (0x21, 0x20), (0xA1, 0x28), (0x21, 0x04), (0xA1, 0x02), (0x21, 0x01), (0xA1, 0x01),
        (0x21, 0x0), (0xA1, 0x0)] io"

definition irq_install :: "(nat \<Rightarrow> u32) \<Rightarrow> idt_entry list \<Rightarrow> io \<Rightarrow> (idt_entry list \<times> io) res" where
  "irq_install irq idt io = rbind (set_gates (irq_gates irq) idt) (\<lambda>idt. Inr (idt, irq_remap io))"

text \<open>The handlers that the kernel installs.\<close>

datatype handler = Ps2kb_handler | Syscall_handler

definition irq_install_handler :: "handler option list \<Rightarrow> nat \<Rightarrow> handler \<Rightarrow> handler option list res" where
  "irq_install_handler irq_routines irq h = aset ''irq_routines'' irq_routines irq (Some h)"

definition irq_uninstall_handler :: "handler option list \<Rightarrow> nat \<Rightarrow> handler option list res" where
  "irq_uninstall_handler irq_routines irq = aset ''irq_routines'' irq_routines irq None"

definition on_keyboard :: "(kb \<Rightarrow> io \<Rightarrow> (kb \<times> io) res) \<Rightarrow> sys \<Rightarrow> sys res" where
  "on_keyboard f s =
     rbind (f (con_kb (cons s)) (con_io (cons s))) (\<lambda>(k, io).
     Inr (s\<lparr>cons := (cons s)\<lparr>con_kb := k, con_io := io\<rparr>\<rparr>))"

definition run_handler :: "drivers \<Rightarrow> string \<Rightarrow> handler \<Rightarrow> sys \<Rightarrow> sys res" where
  "run_handler drv version h s =
     (case h of Ps2kb_handler \<Rightarrow> on_keyboard ps2kb_handler s | Syscall_handler \<Rightarrow> syscall_handler drv version s)"

definition sys_outb :: "u16 \<Rightarrow> u8 \<Rightarrow> sys \<Rightarrow> sys" where
  "sys_outb port val s = s\<lparr>cons := (cons s)\<lparr>con_io := outb port val (con_io (cons s))\<rparr>\<rparr>"

text \<open>The end of an interrupt is told to the controllers it came through.\<close>

definition end_of_interrupt :: "u32 \<Rightarrow> sys \<Rightarrow> sys" where
  "end_of_interrupt int_no s =
     (if int_no \<ge> 48 then s
      else sys_outb 0x20 0x20 (if int_no \<ge> 40 then sys_outb 0xA0 0x20 s else s))"

definition irq_handler ::
  "drivers \<Rightarrow> string \<Rightarrow> handler option list \<Rightarrow> u32 \<Rightarrow> u32 \<Rightarrow> u32 \<Rightarrow> sys \<Rightarrow> (bool \<times> sys) res" where
  "irq_handler drv version irq_routines int_no err_code cr2 s =
     rbind (on_keyboard ps2kb_loop s) (\<lambda>s.
     if int_no < 32 then exception_handle int_no err_code cr2 s
     else
       let s = s\<lparr>ker := sched_check_suspended_threads (ker s) (uint int_no - 32)\<rparr> in
       rbind (aget ''irq_routines'' irq_routines (unat int_no - 32)) (\<lambda>h.
       rbind (case h of None \<Rightarrow> Inr s | Some h \<Rightarrow> run_handler drv version h s) (\<lambda>s.
       Inr (False, end_of_interrupt int_no s))))"

subsection \<open>Reaping keeps the current process pointer\<close>

lemma reap_currentps:
  assumes "proc s pid = Inr p" "sched_reap_process s pid = Inr s'"
  shows "currentps s' = currentps s"
proof -
  have rel: "currentps t' = currentps t" if "release_process t pid = Inr t'" for t t'
    using that by (auto simp: release_process_def rbind_eq_Inr on_mem_Inr on_mem0_Inr put_proc_def split: if_splits)
  have "0 \<le> pid" "pid < last_pid s" "processes s ! nat pid \<noteq> None" using assms(1) by (auto simp: proc_Inr)
  then obtain t where t: "(if threadcount p \<noteq> 0 then
      rbind (mark_dead s (tids p) [0..<threadcount p]) (\<lambda>s. Inr (put_proc pid (Some (p\<lparr>tids_size := 0, threadcount := 0\<rparr>)) s))
      else Inr s) = Inr t" "release_process t pid = Inr s'"
    using assms by (auto simp: sched_reap_process_def rbind_eq_Inr)
  have "currentps t = currentps s"
  proof (cases "threadcount p = 0")
    case False
    then obtain u where "mark_dead s (tids p) [0..<threadcount p] = Inr u"
      "t = put_proc pid (Some (p\<lparr>tids_size := 0, threadcount := 0\<rparr>)) u" using t(1) by (auto simp: rbind_eq_Inr)
    then show ?thesis using mark_dead_effect [of s "tids p" "[0..<threadcount p]" u] by (simp add: put_proc_def)
  qed (use t(1) in simp)
  then show ?thesis using rel [OF t(2)] by simp
qed

text \<open>What \<open>sched_exit_process\<close> of the current process leaves behind.\<close>

lemma exit_effect:
  assumes c: "currentps k = Some pid" "cur_proc k = Inr p" "p_pid p = pid" and run: "sched_exit_process k code = Inr (r, k')"
  shows "currentps k' = Some pid \<and> all_dead k k' (live_tids p) \<and>
    (\<forall>i. i \<noteq> nat pid \<longrightarrow> processes k' ! i = processes k ! i) \<and> length (processes k') = length (processes k) \<and>
    (if waiting_threads p = 0 then processes k' ! nat pid = None
     else \<exists>q. processes k' ! nat pid = Some q \<and> threadcount q = 0 \<and> exitcode q = code \<and> p_state q = PROCESS_EXITING)"
proof -
  let ?p = "p\<lparr>exitcode := code, p_state := PROCESS_EXITING\<rparr>" and ?k = "put_cur (p\<lparr>exitcode := code, p_state := PROCESS_EXITING\<rparr>) k"
  have pr: "proc k pid = Inr p" using c by (simp add: cur_proc_def)
  have reap: "sched_reap_process ?k pid = Inr k'" using run c by (auto simp: sched_exit_process_def rbind_eq_Inr)
  have pk: "proc ?k pid = Inr ?p" using pr c(1) by (auto simp: proc_Inr put_cur_def put_proc_def last_pid_def)
  have same: "currentps ?k = Some pid" "threads ?k = threads k" "length (processes ?k) = length (processes k)"
    "\<forall>i. i \<noteq> nat pid \<longrightarrow> processes ?k ! i = processes k ! i"
    using c(1) by (simp_all add: put_cur_def put_proc_def)
  have "currentps k' = Some pid" using reap_currentps [OF pk reap] same(1) by simp
  moreover have "all_dead k k' (live_tids p)"
    using reap_effect [OF pk reap] same(2) by (auto simp: all_dead_def live_tids_def thread_Inr last_tid_def)
  moreover have "\<forall>i. i \<noteq> nat pid \<longrightarrow> processes k' ! i = processes k ! i" "length (processes k') = length (processes k)"
    "if waiting_threads p = 0 then processes k' ! nat pid = None
     else \<exists>q. processes k' ! nat pid = Some q \<and> threadcount q = 0 \<and> exitcode q = code \<and> p_state q = PROCESS_EXITING"
    using reap_effect [OF pk reap] same(3,4) by (auto split: if_splits)
  ultimately show ?thesis by blast
qed

subsection \<open>Properties\<close>

text \<open>
  C11: A fault of a program that has a handler. For any exception but the debugger's and a page
  fault in the thread's own stack, when the program is not handling one already and its stack
  takes the frame, the program continues in its handler, in the place of the faulting
  instruction, with that instruction's address and the fault number plus one on its stack; the
  kernel notes that the handler runs and nothing else of the process changes.
\<close>

theorem fault_to_handler:
  assumes u: "currenttid (ker s) \<noteq> -1" "cur_thread (ker s) = Inr t" "t_privilege t \<noteq> 0"
    and e: "int_no < 32" "int_no \<noteq> 1"
      "int_no = 14 \<Longrightarrow> err_code AND 1 \<noteq> 0 \<or> \<not> (cr2 \<ge> stack_base t \<and> cr2 < stack_base t + 0x400000)"
    and p: "currentps (ker s) = Some pid" "proc (ker s) pid = Inr p" "procerr_unhandled p = False" "procerrhandler p \<noteq> 0"
    and r: "r_cs (sregs s) AND 3 \<noteq> 0" "r_useresp (sregs s) \<ge> 8"
    and st: "safecpy_to_user (kmem (ker s)) (r_useresp (sregs s) - 8) (bytes32 (r_eip (sregs s)) @ bytes32 (int_no + 1)) = (0, m)"
  shows "exception_handle int_no err_code cr2 s =
    Inr (False, s\<lparr>ker := (put_proc pid (Some (p\<lparr>procerr_unhandled := True, procerr := 0\<rparr>)) (ker s))\<lparr>kmem := m\<rparr>,
      sregs := (sregs s)\<lparr>r_useresp := r_useresp (sregs s) - 8, r_eip := procerrhandler p\<rparr>\<rparr>)"
proof -
  obtain n where n: "int_no = of_nat n" "n < 32"
    using e(1) by (intro that [of "unat int_no"]) (simp_all add: word_less_nat_alt)
  have un: "uint int_no = int n" using n by (simp add: unsigned_of_nat take_bit_nat_eq_self)
  have ne: "uint int_no \<noteq> 1" "uint int_no = 14 \<longleftrightarrow> int_no = 14"
    using e(2) by (auto simp: word_uint_eq_iff)
  have u8: "unat (of_nat (n + 1) :: u8) = n + 1" using n(2) by (simp add: unsigned_of_nat take_bit_nat_eq_self del: of_nat_Suc)
  have code: "(of_int (uint int_no + 1) :: u8) = of_nat (n + 1)" by (simp add: un)
  have c0: "(of_nat (n + 1) :: u8) \<noteq> 0" using u8 by (metis unat_0 add_is_0 zero_neq_one)
  have "unat (ucast (of_nat (n + 1) :: u8) :: u32) = n + 1"
    using u8 n(2) by (simp add: unsigned_ucast_eq take_bit_nat_eq_self)
  then have cu: "(ucast (of_nat (n + 1) :: u8) :: u32) = int_no + 1" using n(1) word_of_unat by fastforce
  define c8 :: u8 where "c8 = of_int (uint int_no + 1)"
  have c0: "c8 \<noteq> 0" and cu: "(ucast c8 :: u32) = int_no + 1" using c0 cu code by (simp_all only: c8_def not_False_eq_True)
  let ?p = "p\<lparr>procerr := c8\<rparr>" and ?k = "put_proc pid (Some (p\<lparr>procerr := c8\<rparr>)) (ker s)"
  have fault: "exception_fault int_no err_code cr2 (ker s) = Inr ?k"
    using u e p ne by (auto simp: exception_fault_def sched_user_fault_def upd_proc_def Let_def c8_def)
  have cp: "cur_proc ?k = Inr ?p" using p(1,2) by (auto simp: cur_proc_def proc_Inr put_proc_def last_pid_def)
  let ?s = "s\<lparr>ker := ?k\<rparr>" and ?new = "r_useresp (sregs s) - 8"
  have tu: "to_user ?s ?new (fault_frame (sregs s) ?p) = (0, s\<lparr>ker := ?k\<lparr>kmem := m\<rparr>\<rparr>)"
    using st cu by (simp add: to_user_def kmem_of_def fault_frame_def put_proc_def)
  have up: "upd_cur (s\<lparr>ker := ?k\<lparr>kmem := m\<rparr>, sregs := r'\<rparr>) f =
      Inr (s\<lparr>ker := (put_proc pid (Some (f ?p)) (ker s))\<lparr>kmem := m\<rparr>, sregs := r'\<rparr>)" for f r'
    using p(1,2) by (simp add: upd_cur_def cur_proc_def proc_def get_proc_def put_proc_def put_cur_def last_pid_def proc_Inr
        deref_def split: if_splits)
  have r8: "\<not> r_useresp (sregs s) < 8" using r(2) by (simp add: not_less)
  have "exception_deliver ?s = Inr (False, s\<lparr>ker := (put_proc pid (Some (p\<lparr>procerr_unhandled := True, procerr := 0\<rparr>)) (ker s))\<lparr>kmem := m\<rparr>,
      sregs := (sregs s)\<lparr>r_useresp := ?new, r_eip := procerrhandler p\<rparr>\<rparr>)"
    using p(1,3,4) r(1) r8 cp tu up c0 by (simp add: exception_deliver_def Let_def del: not_less)
  then show ?thesis by (simp add: exception_handle_def fault)
qed

lemma run_mem_frame: "length data = 8 \<Longrightarrow> \<exists>m. safecpy_to_user run_mem 0x08000010 data = (0, m)"
proof -
  assume len: "length data = 8"
  let ?f = "\<lambda>i :: nat. 0x6010 + of_nat i :: u32"
  have w: "\<forall>i<length data. walk run_mem 3 (0x08000010 + of_nat i) = Some (?f i)"
  proof -
    have "walk run_mem 3 0x08000010 = Some 0x6010" "walk run_mem 3 0x08000011 = Some 0x6011"
      "walk run_mem 3 0x08000012 = Some 0x6012" "walk run_mem 3 0x08000013 = Some 0x6013"
      "walk run_mem 3 0x08000014 = Some 0x6014" "walk run_mem 3 0x08000015 = Some 0x6015"
      "walk run_mem 3 0x08000016 = Some 0x6016" "walk run_mem 3 0x08000017 = Some 0x6017"
      by (simp_all add: eval_mem)
    then show ?thesis by (auto simp: len less_Suc_eq numeral_eq_Suc)
  qed
  have "inj_on ?f {..<length data}"
  proof (rule inj_onI)
    fix x y assume "x \<in> {..<length data}" "y \<in> {..<length data}" "?f x = ?f y"
    then have "of_nat x = (of_nat y :: u32)" "x < 1024" "y < 1024" using len by simp_all
    then show "x = y" using of_nat_index by metis
  qed
  moreover have "unat (0x08000010 :: u32) + length data \<le> unat KERNEL_START" by (simp add: KERNEL_START_def len)
  moreover have "safecpy_check_user 0x08000010 (of_nat (length data))" by (simp add: safecpy_check_user_def KERNEL_START_def len)
  ultimately show ?thesis using to_user_loop_ok [OF run_mem_isolated _ w] len by (auto simp: safecpy_to_user_def)
qed

definition fault_sys :: sys where
  "fault_sys = demo_sys\<lparr>ker := demo\<lparr>processes := [Some (demo_process 0 0), Some ((demo_process 1 3)\<lparr>procerrhandler := 0x08000100\<rparr>)]\<rparr>,
     sregs := demo_regs\<lparr>r_cs := 0x1B, r_useresp := 0x08000018, r_eip := 0x08000200\<rparr>\<rparr>"

lemma fault_to_handler_witness:
  "\<exists>s'. exception_handle 6 0 0 fault_sys = Inr (False, s') \<and> r_eip (sregs s') = 0x08000100 \<and> r_useresp (sregs s') = 0x08000010"
proof -
  let ?p = "(demo_process 1 3)\<lparr>procerrhandler := 0x08000100\<rparr>"
  have "length (bytes32 0x08000200 @ bytes32 (6 + 1)) = 8" by (simp add: bytes32_def)
  then obtain m where m: "safecpy_to_user run_mem 0x08000010 (bytes32 0x08000200 @ bytes32 (6 + 1)) = (0, m)"
    using run_mem_frame by blast
  have st: "safecpy_to_user (kmem (ker fault_sys)) (r_useresp (sregs fault_sys) - 8) (bytes32 (r_eip (sregs fault_sys)) @ bytes32 (6 + 1)) = (0, m)"
    using m by (simp add: fault_sys_def demo_def)
  have k: "currenttid (ker fault_sys) \<noteq> -1" "cur_thread (ker fault_sys) = Inr (demo_thread 1 3)" "t_privilege (demo_thread 1 3) \<noteq> 0"
    "currentps (ker fault_sys) = Some 1" "proc (ker fault_sys) 1 = Inr ?p"
    by (simp_all add: fault_sys_def demo_def cur_thread_def thread_Inr proc_Inr last_pid_def last_tid_def demo_thread_def)
  have r: "r_cs (sregs fault_sys) AND 3 \<noteq> 0" "r_useresp (sregs fault_sys) \<ge> 8" by (simp_all add: fault_sys_def)
  have p: "procerr_unhandled ?p = False" "procerrhandler ?p \<noteq> 0" by (simp_all add: demo_process_def)
  have v: "(6 :: u32) < 32" "(6 :: u32) \<noteq> 1" "(6 :: u32) = 14 \<Longrightarrow> (0 :: u32) AND 1 \<noteq> 0 \<or> \<not> (0 \<ge> stack_base (demo_thread 1 3) \<and> 0 < stack_base (demo_thread 1 3) + 0x400000)"
    by simp_all
  from fault_to_handler [OF k(1-3) v k(4,5) p r st] show ?thesis by (simp add: fault_sys_def)
qed

text \<open>
  C16: A fault that the program cannot handle (it has no handler, or its handler is running) ends
  the process: its threads are dead, no other process changes, and the exit code is the fault.
  When another thread waits for the process, the record stays with that code and the kernel
  yields for good. When nobody waits, the record has been freed by then, and the kernel writes
  to it through \<open>currentps\<close>: a use after free.
\<close>

theorem fault_ends_process:
  assumes p: "currentps (ker s) = Some pid" "cur_proc (ker s) = Inr p" "p_pid p = pid" "procerr p \<noteq> 0"
    and u: "r_cs (sregs s) AND 3 \<noteq> 0" "procerr_unhandled p \<or> procerrhandler p = 0"
    and run: "sched_exit_process (ker s) (ucast (procerr p)) = Inr (r, k)"
  shows "all_dead (ker s) k (live_tids p) \<and> (\<forall>i. i \<noteq> nat pid \<longrightarrow> processes k ! i = processes (ker s) ! i) \<and>
    (if waiting_threads p = 0 then \<exists>why. exception_deliver s = Inl (Fault why)
     else \<exists>s' q. exception_deliver s = Inr (True, s') \<and> threads (ker s') = threads k \<and> processes (ker s') ! nat pid = Some q \<and>
       threadcount q = 0 \<and> exitcode q = ucast (procerr p) \<and> p_state q = PROCESS_EXITING \<and> procerr q = 0)"
proof -
  note eff = exit_effect [OF p(1-3) run]
  have pid: "0 \<le> pid" "pid < last_pid (ker s)" using p by (auto simp: cur_proc_def proc_Inr)
  have lk: "last_pid k = last_pid (ker s)" using eff by (simp add: last_pid_def)
  obtain c where del: "exception_deliver s = exit_and_yield c s"
    using p u by (cases "procerr_unhandled p") (auto simp: exception_deliver_def)
  have step: "exit_and_yield c s = rbind (upd_cur (s\<lparr>ker := k\<rparr>) (\<lambda>p. p\<lparr>procerr_unhandled := (if c then False else procerr_unhandled p), procerr := 0\<rparr>)) (\<lambda>s. Inr (True, s))"
    using p(2) run by (simp add: exit_and_yield_def)
  show ?thesis
  proof (cases "waiting_threads p = 0")
    case True
    then have "processes k ! nat pid = None" "currentps k = Some pid" using eff by simp_all
    then have "upd_cur (s\<lparr>ker := k\<rparr>) f = Inl (Fault ''null process'')" for f
      using pid lk by (simp add: upd_cur_def cur_proc_def proc_def get_proc_def)
    then show ?thesis using True eff del step by simp
  next
    case False
    then obtain q where q: "processes k ! nat pid = Some q" "threadcount q = 0" "exitcode q = ucast (procerr p)" "p_state q = PROCESS_EXITING"
      and cp: "currentps k = Some pid" using eff by auto
    let ?q = "q\<lparr>procerr_unhandled := (if c then False else procerr_unhandled q), procerr := 0\<rparr>"
    have "exception_deliver s = Inr (True, s\<lparr>ker := put_proc pid (Some ?q) k\<rparr>)"
      using pid lk q(1) cp by (simp add: del step upd_cur_def cur_proc_def proc_def get_proc_def put_cur_def)
    moreover have "nat pid < length (processes k)" using pid lk by (simp add: last_pid_def)
    ultimately show ?thesis using False eff q by (auto simp: put_proc_def)
  qed
qed

definition dying_sys :: sys where
  "dying_sys = fault_sys\<lparr>ker := demo\<lparr>processes := [Some (demo_process 0 0), Some ((demo_process 1 3)\<lparr>procerr := 7, waiting_threads := 1\<rparr>)]\<rparr>\<rparr>"

lemma fault_ends_process_witness:
  "\<exists>s' q. exception_deliver dying_sys = Inr (True, s') \<and> processes (ker s') ! 1 = Some q \<and> exitcode q = 7 \<and>
     p_state q = PROCESS_EXITING"
proof -
  let ?p = "(demo_process 1 3)\<lparr>procerr := 7, waiting_threads := 1\<rparr>"
  have p: "currentps (ker dying_sys) = Some 1" "cur_proc (ker dying_sys) = Inr ?p" "p_pid ?p = 1" "procerr ?p \<noteq> 0"
    by (simp_all add: dying_sys_def demo_def cur_proc_def proc_Inr last_pid_def demo_process_def)
  have u: "r_cs (sregs dying_sys) AND 3 \<noteq> 0" "procerr_unhandled ?p \<or> procerrhandler ?p = 0"
    by (simp_all add: dying_sys_def fault_sys_def demo_process_def)
  have "\<exists>k. sched_exit_process (ker dying_sys) (ucast (procerr ?p)) = Inr (0, k)"
    by (simp add: sched_exit_process_def p(2) sched_reap_process_def release_process_def)
      (simp add: dying_sys_def demo_def demo_process_def demo_thread_def put_cur_def put_proc_def proc_def get_proc_def
        upd_thread_def thread_def get_thread_def put_thread_def last_pid_def last_tid_def deref_def)
  then obtain k where k: "sched_exit_process (ker dying_sys) (ucast (procerr ?p)) = Inr (0, k)" by blast
  have w: "waiting_threads ?p \<noteq> 0" by simp
  have c: "ucast (procerr ?p) = (7 :: u32)" by simp
  from fault_ends_process [OF p u k] w show ?thesis unfolding c by auto
qed

text \<open>
  C17: A hardware interrupt without a routine of its own, the keyboard's command queue being
  empty: every thread suspended on that interrupt can run again, every other thread is as it
  was, and the interrupt is acknowledged to the controllers it came through, the second one
  exactly for interrupts 8 to 15, and nothing else is written to a port.
\<close>

theorem irq_wakes_and_acknowledges:
  assumes n: "32 \<le> int_no" "int_no < 48" and h: "irq_routines ! (unat int_no - 32) = None" "length irq_routines = 224"
    and kb: "command_queue_end (con_kb (cons s)) = command_queue_start (con_kb (cons s))"
  shows "\<exists>s'. irq_handler drv version irq_routines int_no err_code cr2 s = Inr (False, s') \<and>
    (\<forall>tid < length (threads (ker s)). threads (ker s') ! tid =
      (case threads (ker s) ! tid of None \<Rightarrow> None
       | Some t \<Rightarrow> Some (if t_state t = THREAD_SUSPENDED \<and> wait t = uint int_no - 32 then t\<lparr>t_state := THREAD_RUNNING\<rparr> else t))) \<and>
    io_log (con_io (cons s')) = io_log (con_io (cons s)) @ (if 40 \<le> int_no then [Out 0xA0 0x20] else []) @ [Out 0x20 0x20]"
proof -
  have u: "32 \<le> unat int_no" "unat int_no < 48" using n by (simp_all add: word_le_nat_alt word_less_nat_alt)
  have loop: "on_keyboard ps2kb_loop s = Inr s" using kb by (simp add: on_keyboard_def ps2kb_loop_def)
  let ?s = "s\<lparr>ker := sched_check_suspended_threads (ker s) (uint int_no - 32)\<rparr>"
  have "irq_handler drv version irq_routines int_no err_code cr2 s = Inr (False, end_of_interrupt int_no ?s)"
    using leD [OF n(1)] u h loop by (simp add: irq_handler_def Let_def del: not_less)
  moreover have "threads (ker (end_of_interrupt int_no ?s)) = map (wake_suspended (uint int_no - 32)) (threads (ker s))"
    by (simp add: end_of_interrupt_def sys_outb_def sched_check_suspended_threads_def)
  moreover have "io_log (con_io (cons (end_of_interrupt int_no ?s))) =
      io_log (con_io (cons s)) @ (if 40 \<le> int_no then [Out 0xA0 0x20] else []) @ [Out 0x20 0x20]"
    using less_le_not_le [THEN iffD1, OF n(2)] by (simp add: end_of_interrupt_def sys_outb_def outb_def del: not_le)
  ultimately show ?thesis by (auto simp: wake_suspended_def split: option.splits)
qed

lemma irq_wakes_and_acknowledges_witness:
  "\<exists>s'. irq_handler (\<lambda>_. undefined) [] (replicate 224 None) 46 0 0
      (demo_sys\<lparr>ker := demo\<lparr>threads := [Some ((demo_thread 1 3)\<lparr>t_state := THREAD_SUSPENDED, wait := 14\<rparr>)]\<rparr>\<rparr>) = Inr (False, s') \<and>
     threads (ker s') ! 0 = Some ((demo_thread 1 3)\<lparr>wait := 14\<rparr>) \<and>
     io_log (con_io (cons s')) = [Out 0xA0 0x20, Out 0x20 0x20]"
proof -
  let ?s = "demo_sys\<lparr>ker := demo\<lparr>threads := [Some ((demo_thread 1 3)\<lparr>t_state := THREAD_SUSPENDED, wait := 14\<rparr>)]\<rparr>\<rparr>"
  have n: "32 \<le> (46 :: u32)" "(46 :: u32) < 48" "replicate 224 (None :: handler option) ! (unat (46 :: u32) - 32) = None"
    "length (replicate 224 (None :: handler option)) = 224"
    by simp_all
  have kb: "command_queue_end (con_kb (cons ?s)) = command_queue_start (con_kb (cons ?s))"
    by (simp add: demo_sys_def demo_console_def demo_kb_def)
  have lg: "io_log (con_io (cons ?s)) = []" by (simp add: demo_sys_def demo_console_def demo_io_def)
  have th: "threads (ker ?s) = [Some ((demo_thread 1 3)\<lparr>t_state := THREAD_SUSPENDED, wait := 14\<rparr>)]" by simp
  from irq_wakes_and_acknowledges [OF n kb, of "\<lambda>_. undefined" "[]" 0 0] show ?thesis
    unfolding lg th by (auto simp: demo_thread_def)
qed

end
