(* ===== verification/VfatNames.thy ===== *)
theory VfatNames
  imports Vfat
begin

section \<open>File names of the FAT driver\<close>

text \<open>
  The conversion of the 8.3 names of directory entries, where it is right and where it loses
  the dot, and the long names.
\<close>

lemma upt11: "[0..<11] = [0, 1, 2, 3, 4, 5, 6, 7, 8, 9, 10 :: nat]"
  by (simp add: upt_rec numeral_eq_Suc)

lemma length_le3_cases:
  assumes "length xs \<le> 3"
  obtains "xs = []" | a where "xs = [a]" | a b where "xs = [a, b]" | a b c where "xs = [a, b, c]"
  using assms by (auto simp: le_Suc_eq length_Suc_conv numeral_eq_Suc)

lemma length_8_cases:
  assumes "xs \<noteq> []" "length xs \<le> 8"
  obtains a where "xs = [a]" | a b where "xs = [a, b]" | a b c where "xs = [a, b, c]"
    | a b c d where "xs = [a, b, c, d]" | a b c d e where "xs = [a, b, c, d, e]"
    | a b c d e f where "xs = [a, b, c, d, e, f]" | a b c d e f g where "xs = [a, b, c, d, e, f, g]"
    | a b c d e f g h where "xs = [a, b, c, d, e, f, g, h]"
  using assms by (auto simp: le_Suc_eq length_Suc_conv numeral_eq_Suc)

text \<open>Names and extensions as they stand in an entry: no spaces, filled up with spaces.\<close>

definition entry_name :: "string \<Rightarrow> string \<Rightarrow> string" where
  "entry_name base ext = base @ replicate (8 - length base) CHR '' '' @ ext @ replicate (3 - length ext) CHR '' ''"

definition plain :: "string \<Rightarrow> bool" where
  "plain s \<longleftrightarrow> (\<forall>c\<in>set s. c \<noteq> CHR '' '' \<and> c \<noteq> NUL)"

lemma tolower_dot: "tolower CHR ''.'' = CHR ''.''"
  by (simp add: tolower_def uchar_def)

lemmas short_name_eval = short_name_def entry_name_def plain_def upt11 tolower_dot eval_nat_numeral

text \<open>
  Short names. A base of one to seven characters with an extension of up to three, and a
  base of eight with none or with a full extension, gets its lower-case name with a dot before
  the extension, if there is one.
\<close>

theorem short_name_ok:
  assumes "plain base" "plain ext" "base \<noteq> []" "length base \<le> 8" "length ext \<le> 3" "hd base \<noteq> CHR ''.''"
    and "length base < 8 \<or> length ext = 0 \<or> length ext = 3"
  shows "short_name (entry_name base ext @ rest) =
    Some (map tolower (if ext = [] then base else base @ CHR ''.'' # ext))"
  by (rule length_8_cases [OF assms(3,4)]; rule length_le3_cases [OF assms(5)];
      use assms(1,2,6,7) in \<open>simp add: short_name_eval\<close>)

lemma short_name_ok_witness:
  "short_name (entry_name ''KERNEL'' ''BIN'' @ replicate 21 NUL) = Some ''kernel.bin''"
  using short_name_ok [of "''KERNEL''" "''BIN''" "replicate 21 NUL"]
  by (simp add: plain_def tolower_def uchar_def char_of_def bit_Suc_0_iff)

text \<open>
  The dot is lost. A base of all eight characters followed by an extension of one or two
  runs into the extension: the first space is only found behind it, and the code then takes the
  whole as a name without extension.
\<close>

theorem short_name_no_dot:
  assumes "plain base" "plain ext" "length base = 8" "length ext = 1 \<or> length ext = 2" "hd base \<noteq> CHR ''.''"
  shows "short_name (entry_name base ext @ rest) = Some (map tolower (base @ ext))"
proof -
  have e: "base \<noteq> []" "length base \<le> 8" "length ext \<le> 3" using assms by auto
  show ?thesis
    by (rule length_8_cases [OF e(1,2)]; rule length_le3_cases [OF e(3)];
        use assms in \<open>simp add: short_name_eval\<close>)
qed

lemma short_name_no_dot_witness:
  "short_name (entry_name ''INTERFAC'' ''C'' @ []) = Some ''interfacc''"
  using short_name_no_dot [of "''INTERFAC''" "''C''" "[]"]
  by (simp add: plain_def tolower_def uchar_def char_of_def bit_Suc_0_iff)

subsection \<open>Long names\<close>

text \<open>
  A long-name entry as the FAT format has it: the sequence number, five characters at byte 1,
  attribute 0x0F, type and checksum, six characters at byte 14, the zero cluster, two characters
  at byte 28, each character in two bytes, low byte first.
\<close>

definition utf16 :: "string \<Rightarrow> string" where
  "utf16 s = concat (map (\<lambda>c. [c, NUL]) s)"

definition lfn_entry :: "char \<Rightarrow> char \<Rightarrow> string \<Rightarrow> string" where
  "lfn_entry index checksum s =
     index # utf16 (take 5 s) @ [char_of (15 :: nat), NUL, checksum] @ utf16 (take 6 (drop 5 s)) @ [NUL, NUL] @
     utf16 (take 2 (drop 11 s))"

text \<open>
  Long names are lost. \<open>struct fat_lfn\<close> is not packed, so the code reads each character one
  byte too far, where the high byte is: from the entry of any name whose first characters are
  ASCII the copied name starts with a terminator, and the file is entered under the empty name.
\<close>

theorem lfn_name_empty:
  assumes "length s = 13" "lfn_copy (lfn_entry index checksum s @ x # xs) 0 lfn_offsets empty_lfn 0 = Inr (lfnbuf, lfni)"
  shows "takeWhile (\<lambda>c. c \<noteq> NUL) lfnbuf = [] \<and> lfni = 13"
proof -
  obtain a b c d e f g h i j k l m where s: "s = [a, b, c, d, e, f, g, h, i, j, k, l, m]"
    using assms(1) by (auto simp: length_Suc_conv eval_nat_numeral)
  show ?thesis
    using assms(2) by (auto simp: s lfn_entry_def utf16_def lfn_offsets_def empty_lfn_def rbind_eq_Inr aget_Inr aset_Inr eval_nat_numeral)
qed

lemma lfn_name_empty_witness:
  "\<exists>lfnbuf lfni. lfn_copy (lfn_entry (CHR ''A'') NUL ''interface.txt'' @ NUL # replicate 31 NUL) 0 lfn_offsets empty_lfn 0
     = Inr (lfnbuf, lfni) \<and> takeWhile (\<lambda>c. c \<noteq> NUL) lfnbuf = []"
proof -
  let ?e = "lfn_entry (CHR ''A'') NUL ''interface.txt'' @ NUL # replicate 31 NUL"
  obtain lfnbuf lfni where run: "lfn_copy ?e 0 lfn_offsets empty_lfn 0 = Inr (lfnbuf, lfni)"
    by (simp add: lfn_entry_def utf16_def lfn_offsets_def empty_lfn_def eval_nat_numeral)
  with lfn_name_empty [of "''interface.txt''" "CHR ''A''" NUL NUL "replicate 31 NUL" lfnbuf lfni] show ?thesis
    by simp
qed

end
