(* ===== verification/CSearch.thy ===== *)
theory CSearch
  imports CString
begin

section \<open>The word-wise byte search memchr\<close>

text \<open>
  \<open>libc/string/memchr.c\<close>. Up to the first aligned address the bytes are compared one by
  one; then whole words are read, and a word is skipped when the test
  \<open>(x - 0x01010101) & ~x & 0x80808080\<close> says that none of its four bytes equals the target.
  \<open>memchr_bytes\<close>, the loop the code ends with, is the reference: \<open>memchr_eq_bytes\<close> says
  that alignment and word skipping never change the result. \<open>size_t\<close> has 32 bits.
\<close>

fun memchr_bytes :: "string \<Rightarrow> char \<Rightarrow> nat \<Rightarrow> nat option res" where
  "memchr_bytes p t 0 = Inr None"
| "memchr_bytes [] t (Suc n) = Inl (Fault ''memchr'')"
| "memchr_bytes (x # p) t (Suc n) =
     (if x = t then Inr (Some 0) else rbind (memchr_bytes p t n) (\<lambda>r. Inr (map_option Suc r)))"

text \<open>Reading a little-endian word.\<close>

fun load32 :: "string \<Rightarrow> u32 res" where
  "load32 (a # b # c # d # r) =
     Inr (word_of_int (uchar a + 256 * uchar b + 65536 * uchar c + 16777216 * uchar d))"
| "load32 p = Inl (Fault ''memchr'')"

text \<open>The loop that copies the target into every byte of \<open>mask\<close>.\<close>

fun mask_loop :: "u32 \<Rightarrow> nat \<Rightarrow> u32 \<Rightarrow> u32" where
  "mask_loop t 0 m = m"
| "mask_loop t (Suc k) m = mask_loop t k (push_bit 8 m OR t)"

definition high_bits :: u32 where "high_bits = (- 1 div 0xff) * 0x80"

definition low_bits :: u32 where "low_bits = - 1 div 0xff"

function memchr_words :: "string \<Rightarrow> u32 \<Rightarrow> char \<Rightarrow> nat \<Rightarrow> nat option res" where
  "memchr_words p m t n =
     (if n \<ge> 4 then
        rbind (load32 p) (\<lambda>w.
        let word = w XOR m in
        if (word - low_bits) AND NOT word AND high_bits \<noteq> 0 then memchr_bytes p t n
        else rbind (memchr_words (drop 4 p) m t (n - 4)) (\<lambda>r. Inr (map_option (\<lambda>i. i + 4) r)))
      else memchr_bytes p t n)"
  by pat_completeness auto
termination by (relation "measure (\<lambda>(p, m, t, n). n)") auto

declare memchr_words.simps [simp del]

fun memchr :: "u32 \<Rightarrow> string \<Rightarrow> char \<Rightarrow> nat \<Rightarrow> nat option res" where
  "memchr s p t n =
     (if s AND 3 \<noteq> 0 then
        (case n of
           0 \<Rightarrow> Inr None
         | Suc n' \<Rightarrow> (case p of
             [] \<Rightarrow> Inl (Fault ''memchr'')
           | x # p' \<Rightarrow>
               if x = t then Inr (Some 0)
               else rbind (memchr (s + 1) p' t n') (\<lambda>r. Inr (map_option Suc r))))
      else memchr_words p (mask_loop (word_of_int (uchar t)) 4 0) t n)"

declare memchr.simps [simp del]

text \<open>\<open>__rawmemchr\<close>: for the terminator it is \<open>strlen\<close>.\<close>

definition rawmemchr :: "u32 \<Rightarrow> string \<Rightarrow> char \<Rightarrow> nat option res" where
  "rawmemchr s p c =
     (if c \<noteq> NUL then memchr s p c (2 ^ 32 - 1) else rbind (strlen p) (\<lambda>n. Inr (Some n)))"

subsection \<open>The reference search\<close>

lemma memchr_bytes_spec:
  "n \<le> length p \<Longrightarrow> memchr_bytes p t n =
     Inr (if t \<in> set (take n p) then Some (length (takeWhile (\<lambda>c. c \<noteq> t) p)) else None)"
  by (induction p t n rule: memchr_bytes.induct) auto

lemma memchr_bytes_ok: "n \<le> length p \<Longrightarrow> \<exists>r. memchr_bytes p t n = Inr r"
  by (simp add: memchr_bytes_spec)

lemma memchr_bytes_skip:
  assumes "t \<notin> set q"
  shows "memchr_bytes (q @ p) t (length q + n) =
    rbind (memchr_bytes p t n) (\<lambda>r. Inr (map_option (\<lambda>i. i + length q) r))"
  using assms
proof (induction q)
  case Nil
  then show ?case by (cases "memchr_bytes p t n") (auto simp: option.map_ident)
next
  case (Cons x q)
  then show ?case
    by (cases "memchr_bytes p t n") (auto simp: option.map_comp o_def)
qed

subsection \<open>The word test finds every zero byte\<close>

definition byte_of :: "nat \<Rightarrow> int \<Rightarrow> int" where
  "byte_of i n = take_bit 8 (drop_bit (8 * i) n)"

lemma byte_of_arith: "byte_of i n = n div 2 ^ (8 * i) mod 256"
  by (simp add: byte_of_def drop_bit_eq_div take_bit_eq_mod)

lemma byte_of_xor: "byte_of i (m XOR n) = byte_of i m XOR byte_of i n"
  by (simp add: byte_of_def)

lemma mask_loop_bits:
  assumes "\<And>n. bit m n \<longleftrightarrow> n < 8 * j \<and> bit t (n mod 8)" "\<And>n. bit t n \<Longrightarrow> n < 8" "j + k \<le> 4"
  shows "bit (mask_loop t k m) n \<longleftrightarrow> n < 8 * (j + k) \<and> bit t (n mod 8)"
  using assms(1,3)
proof (induction k arbitrary: j m)
  case (Suc k)
  have "bit (push_bit 8 m OR t) n \<longleftrightarrow> n < 8 * Suc j \<and> bit t (n mod 8)" for n
  proof (cases "n < 8")
    case True
    then show ?thesis by (simp add: bit_simps)
  next
    case False
    then have "(n - 8) mod 8 = n mod 8" by (simp add: le_mod_geq)
    moreover have "\<not> bit t n" using False assms(2) by blast
    moreover have "n < 8 * Suc j \<Longrightarrow> n < 32" using Suc.prems by simp
    ultimately show ?thesis
      using False Suc.prems(1) [of "n - 8"] by (simp add: bit_simps) linarith
  qed
  then show ?case using Suc.IH [of "push_bit 8 m OR t" "Suc j"] Suc.prems(2) by simp
qed simp

lemma bit_uchar: "bit (uchar t) n \<Longrightarrow> n < 8"
proof (rule ccontr)
  assume "bit (uchar t) n" "\<not> n < 8"
  then have "(256::int) \<le> 2 ^ n"
    using power_increasing [of 8 n "2::int"] by simp
  with uchar_range [of t] have "uchar t div 2 ^ n = 0" by (simp add: div_pos_pos_trivial)
  with \<open>bit (uchar t) n\<close> show False by (simp add: bit_iff_odd)
qed

lemma byte_of_mask:
  assumes "i < 4"
  shows "byte_of i (uint (mask_loop (word_of_int (uchar t)) 4 0)) = uchar t"
proof (rule bit_eqI)
  fix n
  let ?t = "word_of_int (uchar t) :: u32"
  have t: "bit ?t n \<longleftrightarrow> bit (uchar t) n" for n
    using bit_uchar [of t n] by (auto simp: bit_word_of_int_iff)
  have "bit (mask_loop ?t 4 0) k \<longleftrightarrow> k < 32 \<and> bit (uchar t) (k mod 8)" for k
    using mask_loop_bits [of 0 0 ?t 4 k] t bit_uchar by simp
  then have "bit (byte_of i (uint (mask_loop ?t 4 0))) n
      \<longleftrightarrow> n < 8 \<and> 8 * i + n < 32 \<and> bit (uchar t) ((8 * i + n) mod 8)"
    by (simp add: byte_of_def bit_simps)
  also have "\<dots> \<longleftrightarrow> bit (uchar t) n"
    using assms bit_uchar [of t n] by auto
  finally show "bit (byte_of i (uint (mask_loop ?t 4 0))) n \<longleftrightarrow> bit (uchar t) n" .
qed

lemma byte_of_Horner:
  assumes "0 \<le> a" "a < 256"
  shows "byte_of 0 (a + 256 * x) = a" "byte_of (Suc i) (a + 256 * x) = byte_of i x"
proof -
  show "byte_of 0 (a + 256 * x) = a" using assms by (simp add: byte_of_arith)
  have "(a + 256 * x) div 256 = x" using assms by simp
  moreover have "(2::int) ^ (8 * Suc i) = 256 * 2 ^ (8 * i)" by (simp add: power_add)
  ultimately show "byte_of (Suc i) (a + 256 * x) = byte_of i x"
    by (simp add: byte_of_arith zdiv_zmult2_eq)
qed

lemma byte_of_load32:
  assumes "load32 (a # b # c # d # r) = Inr w" "i < 4"
  shows "byte_of i (uint w) = uchar ([a, b, c, d] ! i)"
proof -
  let ?n = "uchar a + 256 * (uchar b + 256 * (uchar c + 256 * (uchar d + 256 * 0)))"
  have w: "w = word_of_int ?n" using assms(1) by (simp add: algebra_simps)
  have "0 \<le> ?n" "?n < 2 ^ 32"
    using uchar_range [of a] uchar_range [of b] uchar_range [of c] uchar_range [of d] by simp_all
  then have "take_bit 32 ?n = ?n" by (rule take_bit_int_eq_self)
  moreover have "uint w = take_bit 32 ?n" unfolding w uint_word_of_int_eq by simp
  ultimately have "uint w = ?n" by (rule trans [rotated])
  moreover note H = byte_of_Horner [OF conjunct1 [OF uchar_range] conjunct2 [OF uchar_range]]
  consider "i = 0" | "i = Suc 0" | "i = Suc (Suc 0)" | "i = Suc (Suc (Suc 0))"
    using assms(2) by linarith
  then have "byte_of i ?n = uchar ([a, b, c, d] ! i)"
    by cases (simp_all only: H nth_Cons_0 nth_Cons_Suc)
  ultimately show ?thesis by simp
qed

text \<open>
  A word with a zero byte \<open>i\<close> and no zero byte below it: no borrow reaches byte \<open>i\<close>, so the
  subtraction sets its top bit, and that bit is clear in the word itself.
\<close>

fun ones :: "nat \<Rightarrow> int" where
  "ones 0 = 0"
| "ones (Suc k) = 1 + 256 * ones k"

lemma div_shift8: "(n :: int) div 2 ^ (8 + k) = n div 256 div 2 ^ k"
  by (simp add: power_add zdiv_zmult2_eq)

lemma byte_of_Suc: "byte_of (Suc i) n = byte_of i (n div 256)"
  using div_shift8 [of n "8 * i"] by (simp add: byte_of_arith)

lemma bit_shift8: "bit (n :: int) (8 * Suc i + 7) \<longleftrightarrow> bit (n div 256) (8 * i + 7)"
proof -
  have "8 * Suc i + 7 = 8 + (8 * i + 7)" by simp
  then show ?thesis by (simp only: bit_iff_odd div_shift8)
qed

lemma borrow_bit:
  assumes "i < k" "byte_of i n = 0" "\<And>j. j < i \<Longrightarrow> byte_of j n \<noteq> 0"
  shows "bit (n - ones k) (8 * i + 7)"
  using assms
proof (induction i arbitrary: n k)
  case 0
  then obtain k' where k: "k = Suc k'" by (cases k) auto
  from 0 have "n mod 256 = 0" by (simp add: byte_of_arith)
  then obtain q where "n = 256 * q" by auto
  then have "n - (1 + 256 * ones k') = 127 + 128 * (2 * (q - ones k' - 1) + 1)" by simp
  then have "(n - (1 + 256 * ones k')) div 128 = 2 * (q - ones k' - 1) + 1" by simp
  then have "odd ((n - (1 + 256 * ones k')) div 128)" by (simp only: odd_two_times_div_two_succ even_add even_mult_iff) simp
  then show ?case by (simp add: k bit_iff_odd)
next
  case (Suc i)
  then obtain k' where k: "k = Suc k'" by (cases k) auto
  have b: "bit (n div 256 - ones k') (8 * i + 7)"
  proof (rule Suc.IH)
    show "byte_of j (n div 256) \<noteq> 0" if "j < i" for j
      using Suc.prems(3) [of "Suc j"] that by (simp add: byte_of_Suc)
  qed (use Suc.prems k in \<open>simp_all add: byte_of_Suc\<close>)
  have "n mod 256 \<noteq> 0" using Suc.prems(3) [of 0] by (simp add: byte_of_arith)
  then have "0 \<le> n mod 256 - 1" "n mod 256 - 1 < 256"
    using pos_mod_sign [of 256 n] pos_mod_bound [of 256 n] by simp_all
  moreover have "n - (1 + 256 * ones k') = (n mod 256 - 1) + 256 * (n div 256 - ones k')"
    using div_mult_mod_eq [of n 256] by (simp add: algebra_simps)
  ultimately have "(n - (1 + 256 * ones k')) div 256 = n div 256 - ones k'"
    by (simp only: div_mult_self2 div_pos_pos_trivial)
  with b show ?case by (simp only: k ones.simps bit_shift8)
qed

lemma top_bit_of_zero_byte: "byte_of i n = 0 \<Longrightarrow> \<not> bit n (8 * i + 7)"
proof
  assume "byte_of i n = 0" "bit n (8 * i + 7)"
  then have "bit (byte_of i n) 7"
    unfolding byte_of_def bit_take_bit_iff bit_drop_bit_eq by simp
  with \<open>byte_of i n = 0\<close> show False by simp
qed

lemma zero_byte_test:
  fixes x :: u32
  assumes "i < 4" "byte_of i (uint x) = 0"
  shows "(x - low_bits) AND NOT x AND high_bits \<noteq> 0"
proof -
  obtain k where k: "byte_of k (uint x) = 0" "k < 4" "\<And>j. j < k \<Longrightarrow> byte_of j (uint x) \<noteq> 0"
  proof
    let ?k = "LEAST j. byte_of j (uint x) = 0"
    show "byte_of ?k (uint x) = 0" using assms(2) by (rule LeastI)
    show "?k < 4" using Least_le [of "\<lambda>j. byte_of j (uint x) = 0" i] assms by simp
    show "byte_of j (uint x) \<noteq> 0" if "j < ?k" for j using that by (rule not_less_Least)
  qed
  let ?n = "8 * k + 7"
  have lt: "?n < 32" using k(2) by simp
  have "ones 4 = 16843009" by (simp add: eval_nat_numeral)
  with borrow_bit [OF k(2) k(1) k(3)] have "bit (uint x - 16843009) ?n" by simp
  moreover have "x - low_bits = word_of_int (uint x - 16843009)"
    by (simp add: low_bits_def)
  ultimately have "bit (x - low_bits) ?n" using lt by (simp only: bit_word_of_int_iff) simp
  moreover have "bit (NOT x) ?n"
    using top_bit_of_zero_byte [OF k(1)] lt by (simp add: bit_not_iff bit_uint_iff)
  moreover have "bit high_bits ?n"
  proof -
    consider "k = 0" | "k = 1" | "k = 2" | "k = 3" using k(2) by linarith
    then show ?thesis by cases (simp_all add: high_bits_def)
  qed
  ultimately have "bit ((x - low_bits) AND NOT x AND high_bits) ?n"
    by (simp add: bit_and_iff)
  then show ?thesis by auto
qed

subsection \<open>Equivalence\<close>

lemma at_least_four: "4 \<le> length (p :: string) \<Longrightarrow> \<exists>a b c d r. p = [a, b, c, d] @ r"
  by (cases p rule: load32.cases) auto

lemma memchr_words_eq:
  assumes "n \<le> length p"
  shows "memchr_words p (mask_loop (word_of_int (uchar t)) 4 0) t n = memchr_bytes p t n"
  using assms
proof (induction "n" arbitrary: p rule: less_induct)
  case (less n)
  let ?m = "mask_loop (word_of_int (uchar t)) 4 0"
  show ?case
  proof (cases "4 \<le> n")
    case False
    then show ?thesis by (simp add: memchr_words.simps [of p])
  next
    case True
    then obtain a b c d r where p: "p = [a, b, c, d] @ r"
      using less.prems
      using at_least_four [of p] by fastforce
    obtain w where w: "load32 p = Inr w" using p by simp
    have dr: "drop 4 p = r" using p by simp
    let ?x = "w XOR ?m"
    show ?thesis
    proof (cases "(?x - low_bits) AND NOT ?x AND high_bits \<noteq> 0")
      case True
      with \<open>4 \<le> n\<close> w show ?thesis by (simp add: memchr_words.simps [of p])
    next
      case skip: False
      have "t \<notin> set [a, b, c, d]"
      proof
        assume "t \<in> set [a, b, c, d]"
        then obtain i where "i < length [a, b, c, d]" "[a, b, c, d] ! i = t"
          unfolding in_set_conv_nth by blast
        then have i: "i < 4" "[a, b, c, d] ! i = t" by simp_all
        have "byte_of i (uint ?x) = byte_of i (uint w) XOR byte_of i (uint ?m)"
          by (simp add: unsigned_xor_eq byte_of_xor)
        with w p i have "byte_of i (uint ?x) = 0"
          by (simp add: byte_of_load32 byte_of_mask)
        with zero_byte_test [OF i(1)] skip show False by blast
      qed
      then have "memchr_bytes ([a, b, c, d] @ r) t (length [a, b, c, d] + (n - 4))
          = rbind (memchr_bytes r t (n - 4)) (\<lambda>q. Inr (map_option (\<lambda>i. i + length [a, b, c, d]) q))"
        by (rule memchr_bytes_skip)
      moreover have "length [a, b, c, d] + (n - 4) = n" "length [a, b, c, d] = 4"
        using \<open>4 \<le> n\<close> by simp_all
      moreover have "memchr_words r ?m t (n - 4) = memchr_bytes r t (n - 4)"
        using less.prems \<open>4 \<le> n\<close> p by (intro less.IH) auto
      moreover have "memchr_words p ?m t n
          = rbind (memchr_words r ?m t (n - 4)) (\<lambda>r. Inr (map_option (\<lambda>i. i + 4) r))"
        using \<open>4 \<le> n\<close> skip dr by (subst memchr_words.simps) (simp add: w Let_def)
      ultimately show ?thesis by (simp only: p)
    qed
  qed
qed

lemma memchr_eq_bytes: "n \<le> length p \<Longrightarrow> memchr s p t n = memchr_bytes p t n"
proof (induction s p t n rule: memchr.induct)
  case (1 s p t n)
  show ?case
  proof (cases "s AND 3 = 0")
    case True
    then show ?thesis using 1 by (simp add: memchr.simps [of s] memchr_words_eq)
  next
    case False
    then show ?thesis
      using 1 by (cases n; cases p) (auto simp: memchr.simps [of s])
  qed
qed

section \<open>The property\<close>

text \<open>
  For every address of the object, searching \<open>n\<close> bytes that are all inside the object
  never faults and returns the offset of the first byte equal to the target, or null when none
  of the \<open>n\<close> bytes is. The word-at-a-time loop with its carry trick, the alignment prologue
  and the byte epilogue together agree with the byte-wise search.
\<close>

theorem memchr_first:
  assumes "n \<le> length p"
  shows "memchr s p t n =
    Inr (if t \<in> set (take n p) then Some (length (takeWhile (\<lambda>c. c \<noteq> t) p)) else None)"
  using assms by (simp add: memchr_eq_bytes memchr_bytes_spec)

lemma memchr_first_witness:
  "memchr 1 ''galaxy-os kernel'' (CHR ''k'') 16 = Inr (Some 10)"
  using memchr_first [of 16 "''galaxy-os kernel''" 1 "CHR ''k''"] by simp

end
