(* ===== verification/Gsh.thy ===== *)
theory Gsh
  imports Printf CToken
begin

section \<open>The shell\<close>

text \<open>
  \<open>userland/bin/gsh/main.c\<close>: reading a line with rubbing out, splitting it into arguments, finding the
  program to run, changing the directory. The calls into the system are a record of functions on the
  state outside the shell, with strings where the calls pass addresses (the calls themselves are the
  theory \<open>UserLib\<close>). What \<open>printf\<close> is given to print is the text of its format.
\<close>

definition MAX_BUF :: nat where "MAX_BUF = 1024"

record 's os =
  os_chdir :: "string \<Rightarrow> 's \<Rightarrow> int \<times> 's"
  os_exec :: "string \<Rightarrow> string list \<Rightarrow> 's \<Rightarrow> int \<times> 's"
  os_wait :: "int \<Rightarrow> 's \<Rightarrow> 's"
  os_print :: "string \<Rightarrow> 's \<Rightarrow> 's"

subsection \<open>Reading a line\<close>

text \<open>
  \<open>inp\<close> is what the calls of \<open>read\<close> give, \<open>None\<close> for an error. The result, once there is one, is the
  buffer, what was printed and the rest of the input.
\<close>

definition end_line :: "string \<Rightarrow> nat \<Rightarrow> string \<Rightarrow> char option list \<Rightarrow> (string \<times> string \<times> char option list) option res" where
  "end_line buffer i out inp = rbind (aset ''buffer'' buffer i NUL) (\<lambda>buffer. Inr (Some (buffer, out, inp)))"

fun read_line :: "char option list \<Rightarrow> string \<Rightarrow> nat \<Rightarrow> string \<Rightarrow> (string \<times> string \<times> char option list) option res" where
  "read_line [] buffer i out = (if i < MAX_BUF - 1 then Inr None else end_line buffer i out [])"
| "read_line (r # inp) buffer i out =
     (if i < MAX_BUF - 1 then
        (case r of
           None \<Rightarrow> end_line buffer i (out @ ''Got 0 from read()!!'' @ [CHR 0x0A]) inp
         | Some ch \<Rightarrow>
             if ch = CHR 0x7F then
               if i = 0 then read_line inp buffer i out
               else rbind (aset ''buffer'' buffer i NUL) (\<lambda>buffer. read_line inp buffer (i - 1) (out @ [ch]))
             else if ch = CHR 0x0A then end_line buffer i (out @ [ch]) inp
             else rbind (aset ''buffer'' buffer i ch) (\<lambda>buffer. read_line inp buffer (i + 1) (out @ [ch])))
      else end_line buffer i out (r # inp))"

subsection \<open>Arguments\<close>

text \<open>The tokens that a loop over \<open>strtok\<close> takes which stops after \<open>n\<close> of them; \<open>p\<close> is its first argument.\<close>

fun token_loop :: "nat \<Rightarrow> string \<Rightarrow> nat option \<Rightarrow> string \<Rightarrow> nat \<Rightarrow> string list res" where
  "token_loop 0 buf p delim olds = Inr []"
| "token_loop (Suc n) buf p delim olds =
     rbind (strtok buf p delim olds) (\<lambda>(tok, buf, olds).
     case tok of None \<Rightarrow> Inr []
     | Some t \<Rightarrow> rbind (token_loop n buf None delim olds) (\<lambda>ts. Inr (cstr (drop t buf) # ts)))"

definition blanks :: string where "blanks = [CHR '' '', CHR 0x09, CHR 0x0D, CHR 0x0A, NUL]"

definition parse_args :: "string \<Rightarrow> string \<Rightarrow> string list res" where
  "parse_args block cmdline =
     rbind (strdup block cmdline) (\<lambda>cmdline_copy. token_loop (MAX_BUF - 1) cmdline_copy (Some 0) blanks 0)"

text \<open>The entries of \<open>PATH\<close>.\<close>

definition path_list :: "string \<Rightarrow> string list res" where
  "path_list pathevar = token_loop 256 pathevar (Some 0) [CHR '';'', NUL] 0"

subsection \<open>Changing the directory\<close>

definition chdir_to :: "'s os \<Rightarrow> string \<Rightarrow> 's \<Rightarrow> 's" where
  "chdir_to os path s =
     (let (r, s) = os_chdir os path s in
      if r = - ENOENT then os_print os (''cd: directory does not exist'' @ [CHR 0x0A]) s else s)"

text \<open>\<open>cwd\<close> is the array of \<open>MAX_BUF\<close> bytes; the result is the array and the state.\<close>

definition cd :: "'s os \<Rightarrow> string \<Rightarrow> string list \<Rightarrow> 's \<Rightarrow> (string \<times> 's) res" where
  "cd os cwd argv s =
     (if length argv < 2 then Inr (cwd, os_print os ''cd: not enough arguments'' s)
      else
        let cdpath = argv ! 1 @ [NUL] in
        rbind (strchr cdpath (CHR '':'')) (\<lambda>colon.
        if colon \<noteq> None then Inr (cwd, chdir_to os (cstr cdpath) s)
        else
          rbind (strlen cwd) (\<lambda>len.
          rbind (if len = 0 then Inl (Fault ''cwd'') else aget ''cwd'' cwd (len - 1)) (\<lambda>c.
          rbind (if c = CHR '':'' then Inr cwd else strncat cwd [CHR ''/'', NUL] (MAX_BUF - 1)) (\<lambda>cwd.
          rbind (strncat cwd cdpath (MAX_BUF - 1)) (\<lambda>cwd.
          Inr (cwd, chdir_to os (cstr cwd) s)))))))"

subsection \<open>Running a command\<close>

text \<open>The two loops over the first argument with its terminator.\<close>

definition ispath :: "string \<Rightarrow> nat" where
  "ispath arg0 =
     foldl (\<lambda>r c. if c = CHR '':'' then 2 else r) (foldl (\<lambda>r c. if c = CHR ''/'' then 1 else r) 0 (arg0 @ [NUL])) (arg0 @ [NUL])"

definition report :: "'s os \<Rightarrow> string \<Rightarrow> string \<Rightarrow> string \<Rightarrow> int \<Rightarrow> 's \<Rightarrow> 's" where
  "report os pre post buffer pid s =
     (if pid < 0 then
        os_print os (if pid = - ENOENT then pre @ cstr buffer @ post @ [CHR 0x0A]
          else ''Could not execute '' @ cstr buffer @ '' ('' @ dec pid @ '')'' @ [CHR 0x0A]) s
      else s)"

definition fullpath_format :: string where "fullpath_format = ''%s/%s.elf'' @ [NUL]"

text \<open>
  The search along the path. \<open>fullpath\<close> is the array of twice \<open>MAX_BUF\<close> bytes; \<open>pid\<close> is the result of the
  last call. \<open>ibuf\<close> and \<open>stk\<close> are what the stack of \<open>sprintf\<close> holds.
\<close>

primrec search :: "'s os \<Rightarrow> string \<Rightarrow> string \<Rightarrow> string list \<Rightarrow> string \<Rightarrow> string list \<Rightarrow> int \<Rightarrow> 's \<Rightarrow> (int \<times> 's) res" where
  "search os ibuf stk [] fullpath argv pid s = Inr (pid, s)"
| "search os ibuf stk (e # es) fullpath argv pid s =
     rbind (sprintf ibuf stk fullpath fullpath_format [ArgStr (e @ [NUL]), ArgStr (argv ! 0 @ [NUL])]) (\<lambda>(n, fullpath).
     let (pid, s) = os_exec os (cstr fullpath) argv s in
     if pid \<noteq> - ENOENT then Inr (pid, s) else search os ibuf stk es fullpath argv pid s)"

text \<open>\<open>block\<close> is the block of \<open>MAX_BUF\<close> bytes from \<open>malloc\<close>.\<close>

definition relative_path :: "string \<Rightarrow> string \<Rightarrow> string \<Rightarrow> string res" where
  "relative_path block cwd arg0 =
     rbind (strncpy block cwd (MAX_BUF - 1)) (\<lambda>truepath.
     rbind (strncat truepath [CHR ''/'', NUL] (MAX_BUF - 1)) (\<lambda>truepath.
     strncat truepath (arg0 @ [NUL]) (MAX_BUF - 1)))"

text \<open>
  One command: \<open>None\<close> when the shell exits. A line of blanks has no first argument, and the null pointer
  at its place goes to \<open>strlen\<close>.
\<close>

definition run_command ::
  "'s os \<Rightarrow> string \<Rightarrow> string \<Rightarrow> string \<Rightarrow> string \<Rightarrow> string list \<Rightarrow> string \<Rightarrow> string \<Rightarrow> string list \<Rightarrow> 's \<Rightarrow> ((string \<times> 's) option) res" where
  "run_command os ibuf stk block fullpath pathentries cwd buffer argv s =
     (case argv of [] \<Rightarrow> Inl (Fault ''null argument'')
      | arg0 # _ \<Rightarrow>
          rbind
            (if ispath arg0 = 2 then
               let (pid, s) = os_exec os arg0 argv s in Inr (Some (cwd, pid, report os ''File '' '' does not exist'' buffer pid s))
             else if ispath arg0 = 1 then
               rbind (relative_path block cwd arg0) (\<lambda>truepath.
               let (pid, s) = os_exec os (cstr truepath) argv s in
               Inr (Some (cwd, pid, report os ''File '' '' does not exist'' buffer pid s)))
             else if arg0 = ''cd'' then rbind (cd os cwd argv s) (\<lambda>(cwd, s). Inr (Some (cwd, -99, s)))
             else if arg0 = ''exit'' then Inr None
             else
               rbind (search os ibuf stk pathentries fullpath argv (-99) s) (\<lambda>(pid, s).
               Inr (Some (cwd, pid, report os ''Invalid command '' '''' buffer pid s))))
            (\<lambda>r. case r of None \<Rightarrow> Inr None
              | Some (cwd, pid, s) \<Rightarrow> Inr (Some (cwd, if pid > -1 then os_wait os pid s else s))))"

text \<open>What the shell does with a line that was read: an empty one is skipped.\<close>

definition handle_line ::
  "'s os \<Rightarrow> string \<Rightarrow> string \<Rightarrow> string \<Rightarrow> string \<Rightarrow> string \<Rightarrow> string list \<Rightarrow> string \<Rightarrow> string \<Rightarrow> 's \<Rightarrow> ((string \<times> 's) option) res" where
  "handle_line os ibuf stk dup block fullpath pathentries cwd buffer s =
     rbind (aget ''buffer'' buffer 0) (\<lambda>c.
     if c = NUL then Inr (Some (cwd, s))
     else
       rbind (parse_args dup buffer) (\<lambda>argv.
       run_command os ibuf stk block fullpath pathentries cwd buffer argv s))"

subsection \<open>The line editor\<close>

text \<open>What the characters typed so far make of the line.\<close>

definition edit :: "string \<Rightarrow> char \<Rightarrow> string" where
  "edit l c = (if c = CHR 0x7F then butlast l else l @ [c])"

definition edited :: "string \<Rightarrow> string" where "edited cs = foldl edit [] cs"

lemma edited_simps [simp]: "edited [] = []" "edited (cs @ [c]) = edit (edited cs) c"
  by (simp_all add: edited_def)

text \<open>An output that never rubs out what is not of the line.\<close>

definition keeps_prompt :: "string \<Rightarrow> bool" where
  "keeps_prompt out \<longleftrightarrow> (\<forall>k<length out. out ! k = CHR 0x7F \<longrightarrow> edited (take k out) \<noteq> [])"

lemma keeps_prompt_snoc:
  "keeps_prompt (out @ [c]) \<longleftrightarrow> keeps_prompt out \<and> (c = CHR 0x7F \<longrightarrow> edited out \<noteq> [])"
  by (auto simp: keeps_prompt_def nth_append less_Suc_eq)

definition line_state :: "string \<Rightarrow> string \<Rightarrow> nat \<Rightarrow> string \<Rightarrow> bool" where
  "line_state cs buffer i out \<longleftrightarrow> length buffer = MAX_BUF \<and> i = length (edited cs) \<and> take i buffer = edited cs \<and>
     edited out = edited cs \<and> keeps_prompt out"

lemma read_line_char:
  assumes st: "line_state cs buffer i out" and i: "i < MAX_BUF - 1" and c: "c \<noteq> CHR 0x0A"
  shows "\<exists>b' i' o'. read_line (Some c # inp) buffer i out = read_line inp b' i' o' \<and> line_state (cs @ [c]) b' i' o'"
proof -
  have s: "length buffer = 1024" "length (edited cs) = i" "take i buffer = edited cs" "edited out = edited cs" "keeps_prompt out"
    using st unfolding line_state_def MAX_BUF_def by blast+
  have len: "i < 1023" using i by (simp add: MAX_BUF_def)
  consider (rub) "c = CHR 0x7F" "i \<noteq> 0" | (home) "c = CHR 0x7F" "i = 0" | (char) "c \<noteq> CHR 0x7F" by blast
  then show ?thesis
  proof cases
    case rub
    have t: "take (i - 1) (buffer[i := NUL]) = butlast (edited cs)"
      using len s(1) rub(2) by (simp add: s(3) [symmetric] butlast_take)
    have e: "edited (cs @ [c]) = butlast (edited cs)" "edited cs \<noteq> []" using rub s(2) by (auto simp: edit_def)
    have "read_line (Some c # inp) buffer i out = read_line inp (buffer[i := NUL]) (i - 1) (out @ [c])"
      using rub len s(1) by (simp add: MAX_BUF_def aset_ok)
    moreover have "line_state (cs @ [c]) (buffer[i := NUL]) (i - 1) (out @ [c])"
      unfolding line_state_def e(1) using s(1,2,4,5) t e(2) rub(1) by (simp add: MAX_BUF_def edit_def keeps_prompt_snoc)
    ultimately show ?thesis by blast
  next
    case home
    then have e: "edited (cs @ [c]) = edited cs" using s(2) by (simp add: edit_def)
    have "read_line (Some c # inp) buffer i out = read_line inp buffer i out" using home len by (simp add: MAX_BUF_def)
    moreover have "line_state (cs @ [c]) buffer i out" using st unfolding line_state_def e .
    ultimately show ?thesis by blast
  next
    case char
    have t: "take (Suc i) (buffer[i := c]) = edited cs @ [c]" using s(1,3) len by (simp add: take_Suc_update)
    have e: "edited (cs @ [c]) = edited cs @ [c]" using char by (simp add: edit_def)
    have "read_line (Some c # inp) buffer i out = read_line inp (buffer[i := c]) (Suc i) (out @ [c])"
      using char len s(1) c by (simp add: MAX_BUF_def aset_ok)
    moreover have "line_state (cs @ [c]) (buffer[i := c]) (Suc i) (out @ [c])"
      unfolding line_state_def e using s(1,2,4,5) t char by (simp add: MAX_BUF_def edit_def keeps_prompt_snoc)
    ultimately show ?thesis by blast
  qed
qed

lemma read_line_chars:
  assumes "line_state cs0 buffer i out" "CHR 0x0A \<notin> set cs"
    "\<forall>k<length cs. length (edited (cs0 @ take k cs)) < MAX_BUF - 1"
  shows "\<exists>b' i' o'. read_line (map Some cs @ inp) buffer i out = read_line inp b' i' o' \<and> line_state (cs0 @ cs) b' i' o'"
  using assms
proof (induction cs arbitrary: cs0 buffer i out)
  case Nil
  then show ?case by auto
next
  case (Cons c cs)
  have "i < MAX_BUF - 1" using Cons.prems(1) Cons.prems(3) [rule_format, of 0] by (simp add: line_state_def)
  moreover have "c \<noteq> CHR 0x0A" using Cons.prems(2) by auto
  ultimately obtain b i' o' where
    step: "read_line (Some c # map Some cs @ inp) buffer i out = read_line (map Some cs @ inp) b i' o'"
      "line_state (cs0 @ [c]) b i' o'" using read_line_char [OF Cons.prems(1), of c "map Some cs @ inp"] by blast
  have "\<forall>k<length cs. length (edited ((cs0 @ [c]) @ take k cs)) < MAX_BUF - 1"
    using Cons.prems(3) by (metis Suc_mono append.assoc append_Cons append_Nil length_Cons take_Suc_Cons)
  from Cons.IH [OF step(2) _ this] Cons.prems(2) step(1) show ?case by auto
qed



subsection \<open>Splitting and running\<close>

lemma token_loop_take:
  "strtok_list buf delim olds = Inr ts \<Longrightarrow> token_loop n buf None delim olds = Inr (take n ts)"
proof (induction n arbitrary: buf olds ts)
  case (Suc n)
  from Suc.prems obtain tok b o' where t: "strtok_r buf None delim olds = Inr (tok, b, o')"
    "(case tok of None \<Rightarrow> Inr [] | Some p \<Rightarrow> rbind (strtok_list b delim o') (\<lambda>ts. Inr (cstr (drop p b) # ts))) = Inr ts"
    by (subst (asm) strtok_list.simps) (auto simp: rbind_eq_Inr)
  then show ?case by (cases tok) (auto simp: strtok_eq rbind_eq_Inr Suc.IH)
qed simp

lemma token_loop_first: "token_loop n buf (Some 0) delim 0 = token_loop n buf None delim 0"
  by (cases n) (simp_all add: strtok_def)

lemma token_loop_tokens:
  assumes "terminated delim" "NUL \<notin> set s"
  shows "token_loop n (s @ NUL # r) (Some 0) delim 0 = Inr (take n (tokens (set (cstr delim)) s))"
  using strtok_list_ok [OF assms, of "[]" r] by (simp add: token_loop_first token_loop_take)

definition blank :: "char set" where "blank = {CHR '' '', CHR 0x09, CHR 0x0D, CHR 0x0A}"

lemma parse_args_tokens:
  assumes "NUL \<notin> set line" "length line < length block"
  shows "parse_args block (line @ NUL # r) = Inr (take (MAX_BUF - 1) (tokens blank line))"
proof -
  have "strdup block (line @ NUL # r) = Inr (line @ [NUL])"
    using strdup_ok [of "line @ NUL # r" block] assms by (simp add: cstr_stop)
  moreover have "terminated blanks" "set (cstr blanks) = blank" by (auto simp: blanks_def blank_def)
  ultimately show ?thesis using token_loop_tokens [OF _ assms(1), of blanks "MAX_BUF - 1" "[]"]
    by (simp add: parse_args_def)
qed

text \<open>The file of a command in a directory of the path.\<close>

definition command_file :: "string \<Rightarrow> string \<Rightarrow> string" where
  "command_file e a = e @ ''/'' @ a @ ''.elf''"

definition path_ok :: "string \<Rightarrow> string \<Rightarrow> string list \<Rightarrow> string \<Rightarrow> bool" where
  "path_ok ibuf stk es a \<longleftrightarrow> length ibuf = 11 \<and> terminated stk \<and> NUL \<notin> set a \<and>
     (\<forall>e\<in>set es. NUL \<notin> set e \<and> length (command_file e a) < 2 * MAX_BUF)"

lemma fullpath_text:
  assumes "path_ok ibuf stk es (argv ! 0)" "e \<in> set es" "length fullpath = 2 * MAX_BUF"
  shows "\<exists>f. sprintf ibuf stk fullpath fullpath_format [ArgStr (e @ [NUL]), ArgStr (argv ! 0 @ [NUL])] =
      Inr (int (length (command_file e (argv ! 0))), f) \<and> cstr f = command_file e (argv ! 0) \<and> length f = 2 * MAX_BUF"
proof -
  let ?a = "argv ! 0"
  have r: "render ''%s/%s.elf'' [ArgStr (e @ [NUL]), ArgStr (?a @ [NUL])] = Some (command_file e ?a)"
    using assms(1,2) by (simp add: path_ok_def render.simps cstr_stop command_file_def)
  have "length (command_file e ?a) < length fullpath" using assms by (auto simp: path_ok_def)
  moreover have "NUL \<notin> set (command_file e ?a)" using assms(1,2) by (auto simp: command_file_def path_ok_def)
  ultimately show ?thesis
    using sprintf_ok [OF r, of ibuf stk fullpath "[]"] assms by (auto simp: fullpath_format_def path_ok_def cstr_stop MAX_BUF_def)
qed

lemma search_find:
  assumes "path_ok ibuf stk es (argv ! 0)" "length fullpath = 2 * MAX_BUF"
    "\<forall>e\<in>set es. fst (os_exec os (command_file e (argv ! 0)) argv s) = - ENOENT \<longrightarrow>
      os_exec os (command_file e (argv ! 0)) argv s = (- ENOENT, s)"
  shows "search os ibuf stk es fullpath argv pid s = Inr
    (case find (\<lambda>e. fst (os_exec os (command_file e (argv ! 0)) argv s) \<noteq> - ENOENT) es of
       None \<Rightarrow> (if es = [] then pid else - ENOENT, s)
     | Some e \<Rightarrow> os_exec os (command_file e (argv ! 0)) argv s)"
  using assms
proof (induction es arbitrary: fullpath pid)
  case (Cons e es)
  obtain f where f: "sprintf ibuf stk fullpath fullpath_format [ArgStr (e @ [NUL]), ArgStr (argv ! 0 @ [NUL])] =
      Inr (int (length (command_file e (argv ! 0))), f)" "cstr f = command_file e (argv ! 0)" "length f = 2 * MAX_BUF"
    using fullpath_text [OF Cons.prems(1) list.set_intros(1) Cons.prems(2)] by blast
  have "path_ok ibuf stk es (argv ! 0)" using Cons.prems(1) by (simp add: path_ok_def)
  then have IH': "search os ibuf stk es f argv (- ENOENT) s = Inr
    (case find (\<lambda>e. fst (os_exec os (command_file e (argv ! 0)) argv s) \<noteq> - ENOENT) es of
       None \<Rightarrow> (- ENOENT, s) | Some e \<Rightarrow> os_exec os (command_file e (argv ! 0)) argv s)"
    using Cons.IH [of f "- ENOENT"] f(3) Cons.prems(3) by simp
  let ?r = "os_exec os (command_file e (argv ! 0)) argv s"
  show ?case
  proof (cases "fst ?r = - ENOENT")
    case True
    then have r: "?r = (- ENOENT, s)" using Cons.prems(3) by simp
    have "search os ibuf stk (e # es) fullpath argv pid s = search os ibuf stk es f argv (- ENOENT) s" by (simp add: f(1,2) r)
    moreover have "find (\<lambda>e. fst (os_exec os (command_file e (argv ! 0)) argv s) \<noteq> - ENOENT) (e # es) =
        find (\<lambda>e. fst (os_exec os (command_file e (argv ! 0)) argv s) \<noteq> - ENOENT) es" by (simp add: True)
    ultimately show ?thesis using IH' by simp
  next
    case False
    then show ?thesis by (simp add: f(1,2) split_def)
  qed
qed simp

lemma mark_absent: "d \<notin> set xs \<Longrightarrow> foldl (\<lambda>r c. if c = d then v else r) r xs = r"
  by (induction xs) auto

lemma ispath_plain: "CHR '':'' \<notin> set a \<Longrightarrow> CHR ''/'' \<notin> set a \<Longrightarrow> ispath a = 0"
  unfolding ispath_def by (subst mark_absent, simp)+ simp

text \<open>
  C25: A line that names a command runs the first file of that name along the path: for a line that is not
  empty and whose first word is no built-in command and has neither a colon nor a slash, the shell calls
  the directories of the path in their order with the words of the line as arguments, until one has the
  file. When that gives a process, the shell waits for it; when no directory has the file, it says so.
\<close>

theorem gsh_runs_command:
  assumes line: "NUL \<notin> set line" "length line < length dup" "tokens blank line = a # as" "length (a # as) < MAX_BUF"
    and a: "CHR '':'' \<notin> set a" "CHR ''/'' \<notin> set a" "a \<noteq> ''cd''" "a \<noteq> ''exit''"
    and path: "path_ok ibuf stk es a" "es \<noteq> []" "length fullpath = 2 * MAX_BUF"
    and absent: "\<forall>e\<in>set es. fst (os_exec os (command_file e a) (a # as) s) = - ENOENT \<longrightarrow>
      os_exec os (command_file e a) (a # as) s = (- ENOENT, s)"
  shows "handle_line os ibuf stk dup block fullpath es cwd (line @ NUL # r) s =
    Inr (Some (cwd, case find (\<lambda>e. fst (os_exec os (command_file e a) (a # as) s) \<noteq> - ENOENT) es of
      None \<Rightarrow> os_print os (''Invalid command '' @ line @ [CHR 0x0A]) s
    | Some e \<Rightarrow> (case os_exec os (command_file e a) (a # as) s of (pid, s') \<Rightarrow>
        if pid < 0 then os_print os (''Could not execute '' @ line @ '' ('' @ dec pid @ '')'' @ [CHR 0x0A]) s' else os_wait os pid s')))"
proof -
  have "line \<noteq> []" using line(3) by (auto simp: tokens.simps)
  then obtain c l where c: "line = c # l" "c \<noteq> NUL" using line(1) by (cases line) auto
  have args: "parse_args dup (line @ NUL # r) = Inr (a # as)" using parse_args_tokens [OF line(1,2)] line(3,4) by simp
  have buf: "cstr (line @ NUL # r) = line" by (rule cstr_stop(1) [OF line(1)])
  have srch: "search os ibuf stk es fullpath (a # as) (-99) s = Inr
    (case find (\<lambda>e. fst (os_exec os (command_file e a) (a # as) s) \<noteq> - ENOENT) es of
       None \<Rightarrow> (- ENOENT, s) | Some e \<Rightarrow> os_exec os (command_file e a) (a # as) s)"
    using search_find [of ibuf stk es "a # as" fullpath os s "-99", unfolded nth_Cons_0] path absent by simp
  have h: "handle_line os ibuf stk dup block fullpath es cwd (line @ NUL # r) s =
      run_command os ibuf stk block fullpath es cwd (line @ NUL # r) (a # as) s"
    using args c by (simp add: handle_line_def)
  show ?thesis
  proof (cases "find (\<lambda>e. fst (os_exec os (command_file e a) (a # as) s) \<noteq> - ENOENT) es")
    case None
    then show ?thesis using a srch by (simp add: h run_command_def ispath_plain report_def buf)
  next
    case (Some e)
    then have "fst (os_exec os (command_file e a) (a # as) s) \<noteq> - ENOENT" by (auto simp: find_Some_iff)
    with Some show ?thesis using a srch by (auto simp: h run_command_def ispath_plain report_def buf split: prod.splits)
  qed
qed

definition demo_os :: "string list os" where
  "demo_os = \<lparr>os_chdir = (\<lambda>p s. (0, s)),
     os_exec = (\<lambda>p av s. if p = ''cd:bin/ls.elf'' then (3, s @ [p]) else (- ENOENT, s)),
     os_wait = (\<lambda>pid s. s @ [''wait'']), os_print = (\<lambda>out s. s @ [out])\<rparr>"

lemma gsh_runs_command_witness:
  "handle_line demo_os (replicate 11 NUL) [NUL] (replicate 6 NUL) [] (replicate 2048 NUL) [''cd:sys'', ''cd:bin''] [] (''ls -l'' @ NUL # []) [] =
     Inr (Some ([], [''cd:bin/ls.elf'', ''wait'']))"
proof -
  have t: "tokens blank ''ls -l'' = ''ls'' # [''-l'']" by (simp add: blank_def tokens.simps)
  have p: "path_ok (replicate 11 NUL) [NUL] [''cd:sys'', ''cd:bin''] ''ls''" by (simp add: path_ok_def command_file_def MAX_BUF_def)
  have f: "fst (os_exec demo_os (command_file e ''ls'') as s) = - ENOENT \<longrightarrow>
      os_exec demo_os (command_file e ''ls'') as s = (- ENOENT, s)" for e as s
    by (simp add: demo_os_def)
  have fd: "find (\<lambda>e. fst (os_exec demo_os (command_file e ''ls'') [''ls'', ''-l''] []) \<noteq> - ENOENT) [''cd:sys'', ''cd:bin''] = Some ''cd:bin''"
    by (simp add: demo_os_def command_file_def)
  have ex: "os_exec demo_os (command_file ''cd:bin'' ''ls'') [''ls'', ''-l''] [] = (3, [''cd:bin/ls.elf''])"
    by (simp add: demo_os_def command_file_def)
  have h: "handle_line demo_os (replicate 11 NUL) [NUL] (replicate 6 NUL) [] (replicate 2048 NUL) [''cd:sys'', ''cd:bin''] [] (''ls -l'' @ NUL # []) [] =
    Inr (Some ([], case find (\<lambda>e. fst (os_exec demo_os (command_file e ''ls'') [''ls'', ''-l''] []) \<noteq> - ENOENT) [''cd:sys'', ''cd:bin''] of
      None \<Rightarrow> os_print demo_os (''Invalid command '' @ ''ls -l'' @ [CHR 0x0A]) []
    | Some e \<Rightarrow> (case os_exec demo_os (command_file e ''ls'') [''ls'', ''-l''] [] of (pid, s') \<Rightarrow>
        if pid < 0 then os_print demo_os (''Could not execute '' @ ''ls -l'' @ '' ('' @ dec pid @ '')'' @ [CHR 0x0A]) s' else os_wait demo_os pid s')))"
    by (rule gsh_runs_command [OF _ _ t _ _ _ _ _ p]) (simp_all add: f MAX_BUF_def)
  show ?thesis unfolding h fd option.case ex prod.case by (simp add: demo_os_def)
qed

text \<open>
  A line of blanks ends the shell: it has no first word, and the null pointer in its place is read.
\<close>

lemma gsh_blank_line:
  assumes "line \<noteq> []" "set line \<subseteq> blank" "length line < length dup"
  shows "handle_line os ibuf stk dup block fullpath es cwd (line @ NUL # r) s = Inl (Fault ''null argument'')"
proof -
  have "NUL \<notin> set line" using assms(2) by (auto simp: blank_def)
  moreover from this obtain c l where "line = c # l" "c \<noteq> NUL" using assms(1) by (cases line) auto
  moreover have "tokens blank line = []" using assms(2) by (intro tokens_Nil) auto
  ultimately show ?thesis using parse_args_tokens [of line dup r] assms(3)
    by (simp add: handle_line_def run_command_def)
qed

text \<open>
  Changing to a directory whose path does not fit into the rest of the array of the current one writes
  behind the array: \<open>strncat\<close> gets the size of the whole.
\<close>

lemma strncat_copy_overrun:
  "terminated src \<Longrightarrow> length (cstr src) \<le> n \<Longrightarrow> length dest \<le> length (cstr src) \<Longrightarrow> strncat_copy dest src n = Inl (Fault ''strncat'')"
proof (induction dest src n rule: strncat_copy.induct)
  case (1 dest src)
  then show ?case by (simp add: aset_def)
next
  case (2 d ds s ss n)
  then show ?case by (auto split: if_splits)
qed auto

lemma strncat_overrun:
  "terminated src \<Longrightarrow> length (cstr src) \<le> n \<Longrightarrow> terminated dest \<Longrightarrow> length dest \<le> length (cstr dest) + length (cstr src) \<Longrightarrow>
   strncat dest src n = Inl (Fault ''strncat'')"
  by (induction dest src n rule: strncat.induct) (auto simp: strncat_copy_overrun)

lemma gsh_cd_overrun:
  assumes "cwd = d @ NUL # r" "NUL \<notin> set d" "d \<noteq> []" "last d = CHR '':''" "length cwd = MAX_BUF"
    "NUL \<notin> set p" "CHR '':'' \<notin> set p" "length p < MAX_BUF" "MAX_BUF \<le> length d + length p"
  shows "cd os cwd [c, p] s = Inl (Fault ''strncat'')"
proof -
  have p: "terminated (p @ [NUL])" "cstr (p @ [NUL]) = p" using assms(6) by (simp_all add: cstr_stop)
  have d: "terminated cwd" "cstr cwd = d" using assms(1,2) by (simp_all add: cstr_stop)
  have "strchr (p @ [NUL]) (CHR '':'') = Inr None" using p assms(7) by (intro strchr_none) simp_all
  moreover have "strlen cwd = Inr (length d)" using d by (simp add: strlen_Inr)
  moreover have "aget ''cwd'' cwd (length d - 1) = Inr (CHR '':'')"
    using assms(1,3,4) by (auto simp: aget_Inr nth_append last_conv_nth)
  moreover have "strncat cwd (p @ [NUL]) (MAX_BUF - 1) = Inl (Fault ''strncat'')"
    using p d assms(5,8,9) by (intro strncat_overrun) simp_all
  ultimately show ?thesis using assms(3) by (simp add: cd_def)
qed

end
