(* ===== verification/Table.thy ===== *)
theory Table
  imports Pload
begin

section \<open>The table of processes\<close>

text \<open>
  What every operation of the scheduler and the loader does to the table of processes: the relation
  \<open>keeps\<close> between the states before and after, in the collection \<open>table\<close>, and \<open>creates\<close> for the ones that
  make a process. The theory \<open>System\<close> carries them to system calls, interrupts and whole runs.
\<close>

named_theorems table \<open>what operations of the kernel do to the table of processes\<close>

definition live :: "process option list \<Rightarrow> nat" where
  "live ps = length (filter (\<lambda>p. p \<noteq> None) ps)"

text \<open>A process lies at its pid, and \<open>processes_count\<close> counts the processes.\<close>

definition table_ok :: "kernel \<Rightarrow> bool" where
  "table_ok k \<longleftrightarrow> processes_count k = int (live (processes k)) \<and>
     (\<forall>i<length (processes k). \<forall>p\<in>set_option (processes k ! i). p_pid p = int i)"

text \<open>
  Processes of before keep their privilege, a pid that named no process names none afterwards, though it
  was given out, and every new process is one of a program.
\<close>

definition evolves :: "kernel \<Rightarrow> kernel \<Rightarrow> bool" where
  "evolves k k' \<longleftrightarrow> (table_ok k \<longrightarrow> table_ok k') \<and> length (processes k) \<le> length (processes k') \<and>
     (\<forall>i<length (processes k'). \<forall>q\<in>set_option (processes k' ! i).
        if i < length (processes k) then \<exists>p. processes k ! i = Some p \<and> p_privilege q = p_privilege p else p_privilege q = 3)"

text \<open>The same without new processes.\<close>

definition keeps :: "kernel \<Rightarrow> kernel \<Rightarrow> bool" where
  "keeps k k' \<longleftrightarrow> evolves k k' \<and> length (processes k') = length (processes k)"

abbreviation same_id :: "process \<Rightarrow> process \<Rightarrow> bool" where
  "same_id p q \<equiv> p_pid q = p_pid p \<and> p_privilege q = p_privilege p"

lemma live_count_simps [simp]:
  "live [] = 0" "live (p # ps) = (if p = None then 0 else 1) + live ps" "live (xs @ ys) = live xs + live ys"
  by (simp_all add: live_def)

lemma live_update:
  assumes "i < length ps"
  shows "live (ps[i := p]) + (if ps ! i = None then 0 else 1) = live ps + (if p = None then 0 else 1)"
proof -
  have "live ps = live (take i ps @ ps ! i # drop (Suc i) ps)" using assms by (simp only: id_take_nth_drop [symmetric])
  then show ?thesis using assms by (simp add: upd_conv_take_nth_drop)
qed

lemma keeps_refl [simp]: "keeps k k" and evolves_refl [simp]: "evolves k k"
  by (simp_all add: keeps_def evolves_def)

lemma evolves_origin:
  "evolves k k' \<Longrightarrow> i < length (processes k') \<Longrightarrow> processes k' ! i = Some q \<Longrightarrow>
   if i < length (processes k) then \<exists>p. processes k ! i = Some p \<and> p_privilege q = p_privilege p else p_privilege q = 3"
  by (simp add: evolves_def)

lemma evolves_trans: "evolves k k' \<Longrightarrow> evolves k' k'' \<Longrightarrow> evolves k k''"
proof -
  assume e: "evolves k k'" "evolves k' k''"
  have len: "length (processes k) \<le> length (processes k')" using e(1) by (simp add: evolves_def)
  have "if i < length (processes k) then \<exists>p. processes k ! i = Some p \<and> p_privilege q = p_privilege p else p_privilege q = 3"
    if i: "i < length (processes k'')" "processes k'' ! i = Some q" for i q
    using evolves_origin [OF e(2) i] evolves_origin [OF e(1), of i] len by (auto split: if_splits)
  then show ?thesis using e by (auto simp: evolves_def)
qed

lemma keeps_trans: "keeps k k' \<Longrightarrow> keeps k' k'' \<Longrightarrow> keeps k k''"
  by (auto simp: keeps_def intro: evolves_trans)

lemma keeps_evolves: "keeps k k' \<Longrightarrow> evolves k k'"
  by (simp add: keeps_def)

lemma keeps_length: "keeps k k' \<Longrightarrow> length (processes k') = length (processes k)"
  by (simp add: keeps_def)

text \<open>Nothing else of the kernel matters.\<close>

lemma keeps_cong:
  "processes k1 = processes k \<Longrightarrow> processes_count k1 = processes_count k \<Longrightarrow>
   processes k1' = processes k' \<Longrightarrow> processes_count k1' = processes_count k' \<Longrightarrow> keeps k1 k1' = keeps k k'"
  by (simp add: keeps_def evolves_def table_ok_def)

lemma keeps_same: "processes k' = processes k \<Longrightarrow> processes_count k' = processes_count k \<Longrightarrow> keeps k k'"
  using keeps_cong [of k k k' k] by simp

lemma put_proc_count [simp]: "processes_count (put_proc pid p k) = processes_count k"
  by (simp add: put_proc_def)

lemma put_thread_count [simp]: "processes_count (put_thread tid t k) = processes_count k"
  by (simp add: put_thread_def)

lemma proc_cong: "processes k' = processes k \<Longrightarrow> proc k' pid = proc k pid"
  by (simp add: proc_def get_proc_def last_pid_def)

lemma keeps_put:
  assumes "proc k pid = Inr p" "same_id p q" "processes k' = (processes k)[nat pid := Some q]" "processes_count k' = processes_count k"
  shows "keeps k k'"
proof -
  have pid: "nat pid < length (processes k)" "processes k ! nat pid = Some p" using assms(1) by (auto simp: proc_Inr last_pid_def)
  have "live (processes k') = live (processes k)" using live_update [OF pid(1), of "Some q"] pid(2) assms(3) by simp
  then have "table_ok k'" if "table_ok k"
    using that pid assms(2-4) by (auto simp: table_ok_def nth_list_update split: if_splits)
  then show ?thesis using pid assms(2,3) by (auto simp: keeps_def evolves_def nth_list_update)
qed

lemma keeps_free:
  assumes "proc k pid = Inr p" "processes k' = (processes k)[nat pid := None]" "processes_count k' = processes_count k - 1"
  shows "keeps k k'"
proof -
  have pid: "nat pid < length (processes k)" "processes k ! nat pid = Some p" using assms(1) by (auto simp: proc_Inr last_pid_def)
  have "Suc (live (processes k')) = live (processes k)" using live_update [OF pid(1), of None] pid(2) assms(2) by simp
  then have "table_ok k'" if "table_ok k"
    using that pid assms(2,3) by (auto simp: table_ok_def nth_list_update split: if_splits)
  then show ?thesis using pid assms(2) by (auto simp: keeps_def evolves_def nth_list_update)
qed

lemma keeps_fields [simp]:
  "keeps k (k'\<lparr>kmem := x0\<rparr>) = keeps k k'" "keeps (k\<lparr>kmem := x0\<rparr>) k' = keeps k k'"
  "keeps k (k'\<lparr>processes_size := x1\<rparr>) = keeps k k'" "keeps (k\<lparr>processes_size := x1\<rparr>) k' = keeps k k'"
  "keeps k (k'\<lparr>processes_cap := x2\<rparr>) = keeps k k'" "keeps (k\<lparr>processes_cap := x2\<rparr>) k' = keeps k k'"
  "keeps k (k'\<lparr>threads := x3\<rparr>) = keeps k k'" "keeps (k\<lparr>threads := x3\<rparr>) k' = keeps k k'"
  "keeps k (k'\<lparr>threads_size := x4\<rparr>) = keeps k k'" "keeps (k\<lparr>threads_size := x4\<rparr>) k' = keeps k k'"
  "keeps k (k'\<lparr>threads_cap := x5\<rparr>) = keeps k k'" "keeps (k\<lparr>threads_cap := x5\<rparr>) k' = keeps k k'"
  "keeps k (k'\<lparr>queue := x6\<rparr>) = keeps k k'" "keeps (k\<lparr>queue := x6\<rparr>) k' = keeps k k'"
  "keeps k (k'\<lparr>queue_cap := x7\<rparr>) = keeps k k'" "keeps (k\<lparr>queue_cap := x7\<rparr>) k' = keeps k k'"
  "keeps k (k'\<lparr>queue_start := x8\<rparr>) = keeps k k'" "keeps (k\<lparr>queue_start := x8\<rparr>) k' = keeps k k'"
  "keeps k (k'\<lparr>queue_loc := x9\<rparr>) = keeps k k'" "keeps (k\<lparr>queue_loc := x9\<rparr>) k' = keeps k k'"
  "keeps k (k'\<lparr>queue_end := x10\<rparr>) = keeps k k'" "keeps (k\<lparr>queue_end := x10\<rparr>) k' = keeps k k'"
  "keeps k (k'\<lparr>currenttid := x11\<rparr>) = keeps k k'" "keeps (k\<lparr>currenttid := x11\<rparr>) k' = keeps k k'"
  "keeps k (k'\<lparr>currentps := x12\<rparr>) = keeps k k'" "keeps (k\<lparr>currentps := x12\<rparr>) k' = keeps k k'"
  "keeps k (k'\<lparr>idletid := x13\<rparr>) = keeps k k'" "keeps (k\<lparr>idletid := x13\<rparr>) k' = keeps k k'"
  "keeps k (k'\<lparr>kmode := x14\<rparr>) = keeps k k'" "keeps (k\<lparr>kmode := x14\<rparr>) k' = keeps k k'"
  "keeps k (k'\<lparr>eflags := x15\<rparr>) = keeps k k'" "keeps (k\<lparr>eflags := x15\<rparr>) k' = keeps k k'"
  "keeps k (k'\<lparr>intfaces := x16\<rparr>) = keeps k k'" "keeps (k\<lparr>intfaces := x16\<rparr>) k' = keeps k k'"
  "keeps k (k'\<lparr>intfaces_size := x17\<rparr>) = keeps k k'" "keeps (k\<lparr>intfaces_size := x17\<rparr>) k' = keeps k k'"
  "keeps k (k'\<lparr>next_intf := x18\<rparr>) = keeps k k'" "keeps (k\<lparr>next_intf := x18\<rparr>) k' = keeps k k'"
  by (rule keeps_cong; simp)+

lemma proc_fields [simp]:
  "proc (k\<lparr>kmem := x0\<rparr>) pid = proc k pid"
  "proc (k\<lparr>processes_size := x1\<rparr>) pid = proc k pid"
  "proc (k\<lparr>processes_cap := x2\<rparr>) pid = proc k pid"
  "proc (k\<lparr>threads := x3\<rparr>) pid = proc k pid"
  "proc (k\<lparr>threads_size := x4\<rparr>) pid = proc k pid"
  "proc (k\<lparr>threads_cap := x5\<rparr>) pid = proc k pid"
  "proc (k\<lparr>queue := x6\<rparr>) pid = proc k pid"
  "proc (k\<lparr>queue_cap := x7\<rparr>) pid = proc k pid"
  "proc (k\<lparr>queue_start := x8\<rparr>) pid = proc k pid"
  "proc (k\<lparr>queue_loc := x9\<rparr>) pid = proc k pid"
  "proc (k\<lparr>queue_end := x10\<rparr>) pid = proc k pid"
  "proc (k\<lparr>currenttid := x11\<rparr>) pid = proc k pid"
  "proc (k\<lparr>currentps := x12\<rparr>) pid = proc k pid"
  "proc (k\<lparr>idletid := x13\<rparr>) pid = proc k pid"
  "proc (k\<lparr>kmode := x14\<rparr>) pid = proc k pid"
  "proc (k\<lparr>eflags := x15\<rparr>) pid = proc k pid"
  "proc (k\<lparr>intfaces := x16\<rparr>) pid = proc k pid"
  "proc (k\<lparr>intfaces_size := x17\<rparr>) pid = proc k pid"
  "proc (k\<lparr>next_intf := x18\<rparr>) pid = proc k pid"
  by (rule proc_cong; simp)+

lemma keeps_put_thread [simp]: "keeps k (put_thread tid t k') = keeps k k'" "keeps (put_thread tid t k) k' = keeps k k'"
  by (rule keeps_cong; simp)+

lemma keeps_put_cur:
  assumes "cur_proc k = Inr p" "same_id p q" "processes k1 = processes k" "processes_count k1 = processes_count k"
    "currentps k1 = currentps k"
  shows "keeps k (put_cur q k1)"
proof -
  from assms(1) obtain pid where pid: "currentps k = Some pid" "proc k pid = Inr p" by (auto simp: cur_proc_def rbind_eq_Inr deref_Inr)
  then show ?thesis using assms by (intro keeps_put [OF pid(2)]) (simp_all add: put_cur_def)
qed

lemma keeps_upd_proc: "upd_proc k pid f = Inr k' \<Longrightarrow> (\<And>p. same_id p (f p)) \<Longrightarrow> keeps k k'"
  unfolding upd_proc_Inr by (elim exE conjE) (rule keeps_put, simp_all)

lemma keeps_upd_thread [table]: "upd_thread k tid f = Inr k' \<Longrightarrow> keeps k k'"
  by (auto simp: upd_thread_Inr intro: keeps_same)

lemma on_mem_keeps [table]: "on_mem f k = Inr (r, k') \<Longrightarrow> keeps k k'"
  by (auto simp: on_mem_Inr intro: keeps_same)

lemma on_mem0_keeps [table]: "on_mem0 f k = Inr k' \<Longrightarrow> keeps k k'"
  by (auto simp: on_mem0_Inr intro: keeps_same)

subsection \<open>The scheduler\<close>

lemma release_process_keeps [table]: "release_process k pid = Inr k' \<Longrightarrow> keeps k k'"
proof -
  assume r: "release_process k pid = Inr k'"
  then obtain p where p: "proc k pid = Inr p" by (auto simp: release_process_def rbind_eq_Inr)
  show ?thesis
  proof (cases "waiting_threads p = 0")
    case True
    with r p show ?thesis
      by (auto simp: release_process_def rbind_eq_Inr on_mem_Inr on_mem0_Inr intro!: keeps_free [OF p])
  qed (use r p in \<open>simp add: release_process_def\<close>)
qed

lemma mark_dead_processes: "mark_dead k ts is = Inr k' \<Longrightarrow> processes k' = processes k \<and> processes_count k' = processes_count k"
  by (induction "is" arbitrary: k) (fastforce simp: rbind_eq_Inr upd_thread_Inr)+

lemma reap_keeps [table]: "sched_reap_process k pid = Inr k' \<Longrightarrow> keeps k k'"
proof -
  assume r: "sched_reap_process k pid = Inr k'"
  show ?thesis
  proof (cases "pid < 0 \<or> pid \<ge> last_pid k \<or> processes k ! nat pid = None")
    case False
    with r obtain p k1 where p: "proc k pid = Inr p" "release_process k1 pid = Inr k'"
      and k1: "(if threadcount p \<noteq> 0 then
                 rbind (mark_dead k (tids p) [0..<threadcount p]) (\<lambda>s.
                 Inr (put_proc pid (Some (p\<lparr>tids_size := 0, threadcount := 0\<rparr>)) s))
               else Inr k) = Inr k1"
      by (auto simp: sched_reap_process_def rbind_eq_Inr simp del: not_less not_le)
    have "keeps k k1"
    proof (cases "threadcount p = 0")
      case f: False
      with k1 obtain k0 where k0: "mark_dead k (tids p) [0..<threadcount p] = Inr k0"
        and k1': "k1 = put_proc pid (Some (p\<lparr>tids_size := 0, threadcount := 0\<rparr>)) k0"
        by (auto simp: rbind_eq_Inr)
      show ?thesis unfolding k1' by (rule keeps_put [OF p(1)]) (simp_all add: mark_dead_processes [OF k0])
    qed (use k1 in simp)
    then show ?thesis using release_process_keeps [OF p(2)] by (rule keeps_trans)
  qed (use r in \<open>auto simp: sched_reap_process_def\<close>)
qed

lemma exit_process_keeps [table]: "sched_exit_process k code = Inr (r, k') \<Longrightarrow> keeps k k'"
proof -
  assume "sched_exit_process k code = Inr (r, k')"
  then obtain p where p: "cur_proc k = Inr p"
    and r: "sched_reap_process (put_cur (p\<lparr>exitcode := code, p_state := PROCESS_EXITING\<rparr>) k) (p_pid p) = Inr k'"
    by (auto simp: sched_exit_process_def rbind_eq_Inr)
  have "keeps k (put_cur (p\<lparr>exitcode := code, p_state := PROCESS_EXITING\<rparr>) k)" by (rule keeps_put_cur [OF p]) simp_all
  then show ?thesis using reap_keeps [OF r] by (rule keeps_trans)
qed

lemma exit_thread_keeps [table]: "sched_exit_thread k = Inr k' \<Longrightarrow> keeps k k'"
  by (simp add: sched_exit_thread_def keeps_upd_thread)

lemma kill_keeps [table]: "sched_kill_process k pid = Inr (r, k') \<Longrightarrow> keeps k k'"
proof -
  assume run: "sched_kill_process k pid = Inr (r, k')"
  have "k' = k \<or> (\<exists>p c. proc k pid = Inr p \<and> sched_reap_process
      (put_proc pid (Some (p\<lparr>exitcode := c, p_state := PROCESS_EXITING\<rparr>)) k) pid = Inr k')"
    using run by (auto simp: sched_kill_process_def rbind_eq_Inr split: if_splits)
  then show ?thesis
  proof (elim disjE exE conjE)
    fix p c assume p: "proc k pid = Inr p"
      and r: "sched_reap_process (put_proc pid (Some (p\<lparr>exitcode := c, p_state := PROCESS_EXITING\<rparr>)) k) pid = Inr k'"
    have "keeps k (put_proc pid (Some (p\<lparr>exitcode := c, p_state := PROCESS_EXITING\<rparr>)) k)" by (rule keeps_put [OF p]) simp_all
    then show ?thesis using reap_keeps [OF r] by (rule keeps_trans)
  qed simp
qed

lemma suspend_keeps [table]: "sched_suspend_thread k irq tid = Inr k' \<Longrightarrow> keeps k k'"
  by (simp add: sched_suspend_thread_def keeps_upd_thread)

lemma wait_keeps [table]: "sched_wait_process k pid = Inr (r, k') \<Longrightarrow> keeps k k'"
proof -
  assume run: "sched_wait_process k pid = Inr (r, k')"
  have "k' = k \<or> (\<exists>k1 k2 f. upd_thread k (currenttid k) f = Inr k1 \<and>
      upd_proc k1 pid (\<lambda>p. p\<lparr>waiting_threads := waiting_threads p + 1\<rparr>) = Inr k2 \<and>
      upd_thread k2 (currenttid k2) (\<lambda>t. t\<lparr>t_state := THREAD_WAITING\<rparr>) = Inr k')"
    using run by (auto simp: sched_wait_process_def rbind_eq_Inr split: if_splits)
  then show ?thesis
  proof (elim disjE exE conjE)
    fix k1 k2 f assume "upd_thread k (currenttid k) f = Inr k1"
      "upd_proc k1 pid (\<lambda>p. p\<lparr>waiting_threads := waiting_threads p + 1\<rparr>) = Inr k2"
      "upd_thread k2 (currenttid k2) (\<lambda>t. t\<lparr>t_state := THREAD_WAITING\<rparr>) = Inr k'"
    then have "keeps k k1" "keeps k1 k2" "keeps k2 k'" by (auto intro: keeps_upd_thread keeps_upd_proc)
    then show ?thesis by (blast intro: keeps_trans)
  qed simp
qed

lemma grow_pid: "grow_brk m p a b = Inr (r, p', m') \<Longrightarrow> same_id p p'"
  by (auto simp: grow_brk_def Let_def rbind_eq_Inr split: if_splits)

lemma shrink_pid: "shrink_brk m p a b = Inr (r, p', m') \<Longrightarrow> same_id p p'"
  by (auto simp: shrink_brk_def Let_def rbind_eq_Inr)

lemma setbrk_true_pid: "sched_setbrk_true m p a = Inr (r, p', m') \<Longrightarrow> same_id p p'"
  by (auto simp: sched_setbrk_true_def Let_def rbind_eq_Inr split: if_splits dest: grow_pid shrink_pid)

lemma setbrk_keeps [table]: "sched_setbrk k a = Inr (r, k') \<Longrightarrow> keeps k k'"
proof -
  assume "sched_setbrk k a = Inr (r, k')"
  then obtain p p' m' where p: "cur_proc k = Inr p" "sched_setbrk_true (kmem k) p a = Inr (r, p', m')" "k' = put_cur p' (k\<lparr>kmem := m'\<rparr>)"
    by (auto simp: sched_setbrk_def rbind_eq_Inr)
  show ?thesis unfolding p(3) by (rule keeps_put_cur [OF p(1) setbrk_true_pid [OF p(2)]]) simp_all
qed

lemma queue_add_keeps [table]: "queue_add k tid = Inr k' \<Longrightarrow> keeps k k'"
  by (auto simp: queue_add_def Let_def intro!: keeps_same split: if_splits)

lemma keeps_put1:
  assumes "proc k1 pid = Inr p" "same_id p q" "keeps k k1"
  shows "keeps k (put_proc pid (Some q) k1)"
  using assms(3) keeps_put [OF assms(1,2), of "put_proc pid (Some q) k1"] by (auto intro: keeps_trans)

lemma keeps_then: "keeps k1 k2 \<Longrightarrow> keeps k k1 \<Longrightarrow> keeps k k2"
  by (rule keeps_trans)

lemma keeps_put2:
  "proc k pid = Inr p \<Longrightarrow> same_id p q \<Longrightarrow> processes k1 = processes k \<Longrightarrow> processes_count k1 = processes_count k \<Longrightarrow>
   keeps k (put_proc pid (Some q) k1)"
  by (rule keeps_put) simp_all

lemma create_thread_keeps [table]: "sched_create_thread k pid noqueue entry = Inr (tid, k') \<Longrightarrow> keeps k k'"
  unfolding sched_create_thread_def Let_def
  apply (split if_split_asm, simp)
  apply (split if_split_asm, simp)
  apply (elim rbind_InrE)
  apply (simp split: prod.splits)
  apply (elim rbind_InrE)
  by (simp_all add: queue_add_def split: if_split_asm) (auto simp: on_mem_Inr intro!: keeps_put1)

text \<open>A new process gets the next pid.\<close>

definition creates :: "kernel \<Rightarrow> int \<Rightarrow> nat \<Rightarrow> kernel \<Rightarrow> bool" where
  "creates k pid priv k' \<longleftrightarrow> (\<exists>k1. pid = last_pid k \<and> (table_ok k \<longrightarrow> table_ok k1) \<and>
     (\<exists>p. processes k1 = processes k @ [Some p] \<and> p_privilege p = priv) \<and> keeps k1 k')"

lemma creates_keeps: "creates k pid priv k' \<Longrightarrow> keeps k' k'' \<Longrightarrow> creates k pid priv k''"
  by (auto simp: creates_def intro: keeps_trans)

lemma creates_new:
  assumes "processes k' = processes k @ [Some p]" "p_pid p = last_pid k" "processes_count k' = processes_count k + 1"
  shows "creates k (last_pid k) (p_privilege p) k'"
proof -
  have "table_ok k'" if "table_ok k"
    using that assms by (auto simp: table_ok_def last_pid_def nth_append less_Suc_eq)
  then show ?thesis using assms(1) by (auto simp: creates_def intro!: exI [of _ k'])
qed

lemma creates_evolves: "creates k pid 3 k' \<Longrightarrow> evolves k k'"
proof -
  assume "creates k pid 3 k'"
  then obtain k1 p where k1: "table_ok k \<longrightarrow> table_ok k1" "processes k1 = processes k @ [Some p]" "p_privilege p = 3" "keeps k1 k'"
    by (auto simp: creates_def)
  then have "evolves k k1" by (auto simp: evolves_def nth_append split: if_splits)
  then show ?thesis using keeps_evolves [OF k1(4)] by (rule evolves_trans)
qed

lemma creates_last_pid: "creates k pid priv k' \<Longrightarrow> pid = last_pid k \<and> last_pid k' = last_pid k + 1"
  by (auto simp: creates_def last_pid_def keeps_def)

lemma create_process_creates: "sched_create_process k privilege nm = Inr (pid, k') \<Longrightarrow> creates k pid privilege k'"
  unfolding sched_create_process_def Let_def
  apply (split if_split_asm, simp)
  apply (split if_split_asm, simp)
  apply (elim rbind_InrE)
  apply (simp split: prod.splits)
  apply (elim rbind_InrE)
  by (auto simp: on_mem_Inr on_mem0_Inr split: if_split_asm intro!: creates_new [THEN back_subst [of "\<lambda>v. creates k (last_pid k) v _"]])

subsection \<open>Picking the next thread\<close>

lemma pop_keeps [table]: "sched_pop_next_tid k = Inr (tid, k') \<Longrightarrow> keeps k k'"
  by (auto simp: sched_pop_next_tid_def rbind_eq_Inr split: if_splits)

lemma candidate_keeps [table]: "next_candidate k loop = Inr (tid, k', l) \<Longrightarrow> keeps k k'"
  unfolding next_candidate_def
  by (elim rbind_InrE) (auto split: if_splits elim!: rbind_InrE dest!: pop_keeps; meson keeps_trans)

lemma run_thread_keeps [table]: "run_thread k tid = Inr k' \<Longrightarrow> keeps k k'"
  unfolding run_thread_def
  by (elim rbind_InrE) (auto split: if_splits elim!: rbind_InrE dest!: on_mem0_keeps)

lemma dequeue_keeps [table]: "dequeue k = Inr k' \<Longrightarrow> keeps k k'"
  by (auto simp: dequeue_def Let_def split: if_splits)

lemma check_suspended_keeps [table]: "keeps k (sched_check_suspended_threads k irq)"
  by (simp add: sched_check_suspended_threads_def)

lemma unwait_keeps: "upd_proc k pid (\<lambda>p. p\<lparr>waiting_threads := waiting_threads p - 1\<rparr>) = Inr k' \<Longrightarrow> keeps k k'"
  by (rule keeps_upd_proc, assumption) simp

lemma check_waiting_keeps [table]: "sched_check_waiting_thread k tid = Inr (pid, k') \<Longrightarrow> keeps k k'"
  unfolding sched_check_waiting_thread_def Let_def
  by (elim rbind_InrE)
    (auto split: if_splits elim!: rbind_InrE dest!: keeps_upd_thread unwait_keeps; meson keeps_trans)

lemma pick_waiting_keeps [table]: "pick_waiting k tid t = Inr k' \<Longrightarrow> keeps k k'"
  unfolding pick_waiting_def
  by (auto split: option.splits if_splits elim!: rbind_InrE
      dest!: keeps_upd_thread check_waiting_keeps run_thread_keeps reap_keeps; meson keeps_trans)

lemma pick_dead_keeps [table]: "pick_dead k tid t = Inr k' \<Longrightarrow> keeps k k'"
proof -
  assume "pick_dead k tid t = Inr k'"
  then obtain k1 k2 where k1: "dequeue k = Inr k1" "k' = put_thread tid None k2"
    and k2: "k2 = k1 \<or> (\<exists>p. proc k1 (wait t) = Inr p \<and> k2 = put_proc (wait t) (Some (p\<lparr>waiting_threads := waiting_threads p - 1\<rparr>)) k1)"
    by (auto simp: pick_dead_def get_proc_Inr proc_Inr split: option.splits if_splits elim!: rbind_InrE)
  have "keeps k k1" using k1(1) by (rule dequeue_keeps)
  then show ?thesis using k2 unfolding k1(2) by (auto intro: keeps_put1)
qed

text \<open>The loader as the scheduler sees it.\<close>

locale table_loader =
  fixes load :: loader
  assumes load_keeps: "load k pid tid = Inr (r, k') \<Longrightarrow> keeps k k'"
begin

lemma pick_thread_keeps: "pick_thread load k tid = Inr k' \<Longrightarrow> keeps k k'"
  unfolding pick_thread_def pick_starting_def
  by (auto split: option.splits if_splits tstate.splits pstate.splits elim!: rbind_InrE;
      erule load_keeps keeps_upd_thread pick_waiting_keeps pick_dead_keeps run_thread_keeps)

lemma pick_loop_keeps: "pick_loop n load k loop = Some (Inr k') \<Longrightarrow> keeps k k'"
proof (induction n arbitrary: k loop)
  case (Suc n)
  show ?case
  proof (cases "currenttid k = -1")
    case True
    with Suc.prems obtain k1 l where k1: "pick_round load k loop = Inr (k1, l)" "pick_loop n load k1 l = Some (Inr k')"
      by (auto split: sum.splits)
    from k1(1) have "keeps k k1"
      by (auto simp: pick_round_def elim!: rbind_InrE dest!: candidate_keeps pick_thread_keeps; meson keeps_trans)
    then show ?thesis using Suc.IH [OF k1(2)] by (rule keeps_trans)
  qed (use Suc.prems in simp)
qed simp

lemma pick_next_keeps: "sched_pick_next load k = Inr k' \<Longrightarrow> keeps k k'"
  by (auto simp: sched_pick_next_def split: option.splits dest!: pick_loop_keeps)

lemma loop_keeps: "sched_loop load k = Inr (tid, k') \<Longrightarrow> keeps k k'"
  by (auto simp: sched_loop_def elim!: rbind_InrE split: if_splits dest: pick_next_keeps)

end

lemma load_loop_pid: "load_loop m p data phoff sz fin is = Inr (d, fin', p', m') \<Longrightarrow> same_id p p'"
  by (induction "is" arbitrary: m p fin) (fastforce simp: Let_def elim!: rbind_InrE split: if_splits prod.splits)+

lemma loaded_id [simp]: "p_pid (loaded_process p fin) = p_pid p" "p_privilege (loaded_process p fin) = p_privilege p"
  by (simp_all add: loaded_process_def Let_def)

lemma load_process_keeps [table]: "pload_load_process k pid tid = Inr (r, k') \<Longrightarrow> keeps k k'"
proof -
  assume run: "pload_load_process k pid tid = Inr (r, k')"
  have p0: "proc (k\<lparr>kmode := False\<rparr>) pid = proc k pid" by simp
  show ?thesis using run unfolding pload_load_process_def Let_def p0
    by (auto split: if_splits elim!: rbind_InrE dest!: load_loop_pid) (erule keeps_put2; simp)+
qed

interpretation loader_table: table_loader pload_load_process
  by unfold_locales (rule load_process_keeps)

lemmas pick_next_keeps [table] = loader_table.pick_next_keeps
lemmas sched_loop_keeps [table] = loader_table.loop_keeps

subsection \<open>Faults, forks, new processes\<close>

lemma user_fault_keeps [table]: "sched_user_fault k eno code cr2 = Inr k' \<Longrightarrow> keeps k k'"
  unfolding sched_user_fault_def Let_def
  by (auto split: if_splits elim!: rbind_InrE dest!: on_mem0_keeps simp: upd_proc_Inr) (erule keeps_put2; simp)+

lemma touch_keeps [table]: "touch k bits va = Inr k' \<Longrightarrow> keeps k k'"
  by (auto simp: touch_def split: if_splits option.splits dest!: user_fault_keeps)

lemma read_stack_keeps [table]: "read_stack k va n = Inr (x, k') \<Longrightarrow> keeps k k'"
  by (auto simp: read_stack_def elim!: rbind_InrE split: option.splits dest!: touch_keeps)

lemma write_stack_keeps [table]: "write_stack k va x = Inr k' \<Longrightarrow> keeps k k'"
  by (auto simp: write_stack_def Let_def elim!: rbind_InrE split: if_splits prod.splits dest!: touch_keeps)

lemma switch_to_keeps [table]: "switch_to k tid = Inr k' \<Longrightarrow> keeps k k'"
  by (auto simp: switch_to_def elim!: rbind_InrE dest!: on_mem0_keeps)

lemma copy_stack_keeps [table]: "copy_stack k oldtid newtid src dst rest = Inr k' \<Longrightarrow> keeps k k'"
proof (induction k oldtid newtid src dst rest rule: copy_stack.induct)
  case (1 k oldtid newtid src dst rest)
  show ?case
  proof (cases "rest = 0")
    case False
    let ?c = "min (4096 - unat (offset src)) rest"
    from 1(2) False obtain data k1 k2 k3 k4 where st: "read_stack k src ?c = Inr (data, k1)" "switch_to k1 newtid = Inr k2"
        "write_stack (k2\<lparr>currenttid := newtid\<rparr>) dst data = Inr k3" "switch_to (k3\<lparr>currenttid := oldtid\<rparr>) oldtid = Inr k4"
      and rec: "copy_stack k4 oldtid newtid (src + of_nat ?c) (dst + of_nat ?c) (rest - ?c) = Inr k'"
      by (subst (asm) copy_stack.simps) (auto simp: Let_def elim!: rbind_InrE)
    from st have k: "keeps k k1" "keeps k1 k2" "keeps k2 k3" "keeps k3 k4"
      by (auto dest!: read_stack_keeps switch_to_keeps write_stack_keeps)
    have "keeps k4 k'" using 1(1) [OF False refl st(1) _ st(2,3,4) rec] by simp
    with k show ?thesis by (meson keeps_trans)
  qed (use 1(2) in \<open>simp add: copy_stack.simps\<close>)
qed

lemma fork_keeps [table]: "sched_fork_thread k tid r = Inr (x, k') \<Longrightarrow> keeps k k'"
  unfolding sched_fork_thread_def Let_def
  by (auto split: if_splits elim!: rbind_InrE dest!: create_thread_keeps copy_stack_keeps; meson keeps_trans)

text \<open>A call that may make a process: no process, and the table as it was, or the next pid.\<close>

definition may_create :: "kernel \<Rightarrow> int \<Rightarrow> nat \<Rightarrow> kernel \<Rightarrow> bool" where
  "may_create k r priv k' \<longleftrightarrow> r < 0 \<and> keeps k k' \<or> creates k r priv k'"

lemma setup_keeps:
  "upd_proc k pid (\<lambda>p. p\<lparr>p_state := st, p_entrypoint := e\<rparr>) = Inr k' \<Longrightarrow> keeps k k'"
  "upd_proc k pid (\<lambda>p. p\<lparr>argc := n, argv := av\<rparr>) = Inr k' \<Longrightarrow> keeps k k'"
  "upd_proc k pid (\<lambda>p. p\<lparr>environ := ev, environ_size := sz, pwd := d\<rparr>) = Inr k' \<Longrightarrow> keeps k k'"
  by (erule keeps_upd_proc; simp)+

lemma load_create: "pload_create_process k data priv nm args nodup = Inr (pid, k') \<Longrightarrow> may_create k pid priv k'"
proof -
  assume run: "pload_create_process k data priv nm args nodup = Inr (pid, k')"
  then obtain ev where ev: "elf_isvalid data = Inr ev" by (auto simp: pload_create_process_def elim!: rbind_InrE)
  show ?thesis
  proof (cases "ev = 0")
    case True
    with run ev obtain k1 k2 k3 k4 where c: "creates k pid priv k1" "keeps k1 k2" "keeps k2 k3" "keeps k3 k4" "keeps k4 k'"
      unfolding pload_create_process_def
      by (auto elim!: rbind_InrE split: option.splits if_splits
          dest!: create_process_creates create_thread_keeps setup_keeps; meson keeps_refl)
    then have "keeps k1 k'" by (meson keeps_trans)
    then show ?thesis using creates_keeps [OF c(1)] by (simp add: may_create_def)
  qed (use run ev in \<open>simp add: pload_create_process_def may_create_def\<close>)
qed

end
