(* ===== verification/System.thy ===== *)
theory System
  imports Table Irq
begin

section \<open>The system as a whole\<close>

text \<open>
  The kernel and its programs as one transition system: an interrupt, which is a system call, a fault or
  the hardware's; a switch to another thread; whatever a program does to its registers and memory. What
  the operations do to the table of processes, from the theory \<open>Table\<close>, is carried over the system calls
  and the interrupts and along runs by rule induction.
\<close>

subsection \<open>System calls and the table of processes\<close>

lemma on_ker_keeps:
  "on_ker f s = Inr (r, s') \<Longrightarrow> (\<And>r k'. f (ker s) = Inr (r, k') \<Longrightarrow> keeps (ker s) k') \<Longrightarrow> keeps (ker s) (ker s')"
  by (auto simp: on_ker_def elim!: rbind_InrE)

lemma to_user_keeps: "to_user s dst data = (r, s') \<Longrightarrow> keeps (ker s) (ker s')"
  by (auto simp: to_user_def split: prod.splits)

lemma put_cur_keeps: "cur_proc k = Inr p \<Longrightarrow> same_id p q \<Longrightarrow> keeps k (put_cur q k)"
  by (rule keeps_put_cur) simp_all

lemma upd_cur_keeps: "upd_cur s f = Inr s' \<Longrightarrow> (\<And>p. same_id p (f p)) \<Longrightarrow> keeps (ker s) (ker s')"
  by (auto simp: upd_cur_def elim!: rbind_InrE) (erule put_cur_keeps; simp)

lemma vfs_open_keeps: "vfs_open k v path fl = Inr (r, k', v') \<Longrightarrow> keeps k k'"
  unfolding vfs_open_def Let_def
  by (elim rbind_InrE) (auto split: option.splits if_splits elim!: rbind_InrE; erule put_cur_keeps; simp)

lemma vfs_close_keeps: "vfs_close k v fd = Inr (r, k', v') \<Longrightarrow> keeps k k'"
  unfolding vfs_close_def
  by (elim rbind_InrE) (auto split: option.splits elim!: rbind_InrE; erule put_cur_keeps; simp)

lemma access_open_keeps: "access_open drv w k v fd buf n = Inr (r, d, k') \<Longrightarrow> keeps k k'"
  unfolding access_open_def
  by (elim rbind_InrE) (auto split: option.splits elim!: rbind_InrE; erule put_cur_keeps; simp)

lemma create_file_evolves: "pload_create_process_file drv k v path av nodup = Inr (r, k', v') \<Longrightarrow> evolves k k'"
proof -
  assume run: "pload_create_process_file drv k v path av nodup = Inr (r, k', v')"
  have "keeps k k' \<or> (\<exists>k1 k2 pid. keeps k k1 \<and> may_create k1 pid 3 k2 \<and> keeps k2 k')"
    using run unfolding pload_create_process_file_def vfs_read_def
    by (auto split: if_splits elim!: rbind_InrE dest!: vfs_open_keeps vfs_close_keeps access_open_keeps load_create;
        meson keeps_trans)
  then show ?thesis by (auto simp: may_create_def intro: evolves_trans dest!: keeps_evolves creates_evolves)
qed

lemma process_calls_keep:
  "syscall_exit s = Inr (r, s') \<Longrightarrow> keeps (ker s) (ker s')"
  "syscall_wait s = Inr (r, s') \<Longrightarrow> keeps (ker s) (ker s')"
  "syscall_kill s = Inr (r, s') \<Longrightarrow> keeps (ker s) (ker s')"
  "syscall_tfork s = Inr (r, s') \<Longrightarrow> keeps (ker s) (ker s')"
  "syscall_texit s = Inr (r, s') \<Longrightarrow> keeps (ker s) (ker s')"
  "syscall_brk s = Inr (r, s') \<Longrightarrow> keeps (ker s) (ker s')"
  "syscall_eret s = Inr (r, s') \<Longrightarrow> keeps (ker s) (ker s')"
  unfolding syscall_exit_def syscall_wait_def syscall_kill_def syscall_tfork_def syscall_texit_def syscall_brk_def syscall_eret_def
  by (auto simp: on_ker_def split: if_splits elim!: rbind_InrE
      dest!: exit_process_keeps wait_keeps kill_keeps fork_keeps exit_thread_keeps setbrk_keeps)

lemma pslist_keeps: "pslist_loop ps i dst mx n s = (r, s') \<Longrightarrow> keeps (ker s) (ker s')"
  by (induction ps arbitrary: i n s)
    (auto split: if_splits option.splits prod.splits dest!: to_user_keeps, meson keeps_trans)

lemma small_calls_keep:
  "syscall_ehndlr s = Inr (r, s') \<Longrightarrow> keeps (ker s) (ker s')"
  "syscall_pscount s = Inr (r, s') \<Longrightarrow> keeps (ker s) (ker s')"
  "syscall_pslist s = Inr (r, s') \<Longrightarrow> keeps (ker s) (ker s')"
  "syscall_spstate s = Inr (r, s') \<Longrightarrow> keeps (ker s) (ker s')"
  "syscall_memusage s = Inr (r, s') \<Longrightarrow> keeps (ker s) (ker s')"
  "syscall_getver ver s = Inr (r, s') \<Longrightarrow> keeps (ker s) (ker s')"
  unfolding syscall_ehndlr_def syscall_pscount_def syscall_pslist_def syscall_spstate_def syscall_memusage_def syscall_getver_def Let_def
  by (auto split: if_splits prod.splits elim!: rbind_InrE dest!: pslist_keeps to_user_keeps upd_cur_keeps)

lemma read_copy_keeps: "read_copy s n buf count = Inr (r, s') \<Longrightarrow> keeps (ker s) (ker s')"
  by (auto simp: read_copy_def Let_def split: if_splits prod.splits dest!: to_user_keeps)

lemma file_calls_keep:
  "syscall_open s = Inr (r, s') \<Longrightarrow> keeps (ker s) (ker s')"
  "syscall_close s = Inr (r, s') \<Longrightarrow> keeps (ker s) (ker s')"
  "syscall_size s = Inr (r, s') \<Longrightarrow> keeps (ker s) (ker s')"
  "syscall_chdir s = Inr (r, s') \<Longrightarrow> keeps (ker s) (ker s')"
  "syscall_getcwd s = Inr (r, s') \<Longrightarrow> keeps (ker s) (ker s')"
  "syscall_list s = Inr (r, s') \<Longrightarrow> keeps (ker s) (ker s')"
  unfolding syscall_open_def syscall_close_def syscall_size_def syscall_chdir_def syscall_getcwd_def syscall_list_def Let_def
  by (auto split: if_splits prod.splits sum.splits option.splits elim!: rbind_InrE
      dest!: vfs_open_keeps vfs_close_keeps to_user_keeps upd_cur_keeps)

lemma read_stdin_keeps: "read_stdin s count = Inr (r, s') \<Longrightarrow> keeps (ker s) (ker s')"
  unfolding read_stdin_def Let_def
  by (elim rbind_InrE) (auto split: if_splits prod.splits elim!: rbind_InrE dest!: suspend_keeps read_copy_keeps; meson keeps_trans)

lemma io_calls_keep:
  "syscall_read drv s = Inr (r, s') \<Longrightarrow> keeps (ker s) (ker s')"
  "syscall_write drv s = Inr (r, s') \<Longrightarrow> keeps (ker s) (ker s')"
proof -
  show "syscall_read drv s = Inr (r, s') \<Longrightarrow> keeps (ker s) (ker s')"
    unfolding syscall_read_def Let_def vfs_read_def
    by (auto split: if_splits elim!: rbind_InrE dest!: read_stdin_keeps access_open_keeps read_copy_keeps; meson keeps_trans)
  show "syscall_write drv s = Inr (r, s') \<Longrightarrow> keeps (ker s) (ker s')"
    unfolding syscall_write_def Let_def on_ker_def vfs_write_def
    by (auto split: if_splits option.splits elim!: rbind_InrE dest!: access_open_keeps)
qed

lemma put_var_id [simp]: "p_pid (put_var p i v) = p_pid p" "p_privilege (put_var p i v) = p_privilege p"
  by (simp_all add: put_var_def Let_def split: option.splits)

lemma environ_calls_keep:
  "syscall_getenv s = Inr (r, s') \<Longrightarrow> keeps (ker s) (ker s')"
  "syscall_setenv s = Inr (r, s') \<Longrightarrow> keeps (ker s) (ker s')"
  unfolding syscall_getenv_def syscall_setenv_def Let_def
  by (auto split: if_splits prod.splits sum.splits option.splits elim!: rbind_InrE dest!: to_user_keeps upd_cur_keeps;
      meson keeps_trans)+

lemma write_bytes_keeps: "write_bytes k va cs = Inr k' \<Longrightarrow> keeps k k'"
  by (induction cs arbitrary: k va) (auto elim!: rbind_InrE dest!: write_stack_keeps, meson keeps_trans)

lemma set_esp_ker [simp]: "ker (set_esp s a) = ker s" "fsys (set_esp s a) = fsys s"
  by (simp_all add: set_esp_def)

lemma push_args_keeps: "push_args sb as targv s = Inr (d, ts, s') \<Longrightarrow> keeps (ker s) (ker s')"
  by (induction as arbitrary: s targv)
    (auto simp: Let_def split: if_splits elim!: rbind_InrE dest!: write_bytes_keeps, fastforce intro: keeps_trans)

lemma push_words_keeps: "push_words sb ws s = Inr (d, s') \<Longrightarrow> keeps (ker s) (ker s')"
  by (auto simp: push_words_def Let_def split: if_splits elim!: rbind_InrE dest!: write_bytes_keeps)

lemma setup_call_keeps: "syscall_setup s = Inr (r, s') \<Longrightarrow> keeps (ker s) (ker s')"
  unfolding syscall_setup_def Let_def
  by (elim rbind_InrE) (auto split: if_splits elim!: rbind_InrE dest!: push_args_keeps push_words_keeps; meson keeps_trans)

lemma put_intf_keeps [simp]: "keeps k (put_intf i q k') = keeps k k'"
  by (simp add: put_intf_def)

lemma interface_keeps:
  "interface_create k nm pid fl = (r, k') \<Longrightarrow> keeps k k'"
  "interface_delete k nm pid = (r, k') \<Longrightarrow> keeps k k'"
  "interface_send k nm pid to buf sz = Inr (r, k') \<Longrightarrow> keeps k k'"
  "interface_recv k nm pid buf sz out = (r, k') \<Longrightarrow> keeps k k'"
  "interface_wait k nm tid = Inr (r, k') \<Longrightarrow> keeps k k'"
  unfolding interface_create_def interface_delete_def interface_send_def interface_recv_def interface_wait_def Let_def
  by (auto split: if_splits prod.splits option.splits elim!: rbind_InrE dest!: keeps_upd_thread)

lemma message_calls_keep:
  "syscall_intfc s = Inr (r, s') \<Longrightarrow> keeps (ker s) (ker s')"
  "syscall_intfd s = Inr (r, s') \<Longrightarrow> keeps (ker s) (ker s')"
  "syscall_intfs s = Inr (r, s') \<Longrightarrow> keeps (ker s) (ker s')"
  "syscall_intfr s = Inr (r, s') \<Longrightarrow> keeps (ker s) (ker s')"
  "syscall_intfw s = Inr (r, s') \<Longrightarrow> keeps (ker s) (ker s')"
  unfolding syscall_intfc_def syscall_intfd_def syscall_intfs_def syscall_intfr_def syscall_intfw_def with_name_def on_ker_def
  by (auto split: sum.splits prod.splits elim!: rbind_InrE dest!: interface_keeps)

lemma exec_evolves: "syscall_exec drv s = Inr (r, s') \<Longrightarrow> evolves (ker s) (ker s')"
  unfolding syscall_exec_def
  by (auto split: sum.splits elim!: rbind_InrE dest!: create_file_evolves)

lemmas calls_keep = process_calls_keep small_calls_keep file_calls_keep io_calls_keep environ_calls_keep setup_call_keeps message_calls_keep

lemma table_entry:
  "Some f \<in> set (syscalltable drv ver) \<Longrightarrow> f s = Inr (r, s') \<Longrightarrow> evolves (ker s) (ker s')"
  unfolding syscalltable_def by (auto dest!: exec_evolves calls_keep intro: keeps_evolves)

text \<open>Only the table and the count matter here, too.\<close>

lemma evolves_cong:
  "processes k1 = processes k \<Longrightarrow> processes_count k1 = processes_count k \<Longrightarrow>
   processes k1' = processes k' \<Longrightarrow> processes_count k1' = processes_count k' \<Longrightarrow> evolves k1 k1' = evolves k k'"
  by (simp add: evolves_def table_ok_def)

lemma evolves_kmode [simp]: "evolves (k\<lparr>kmode := b\<rparr>) k' = evolves k k'" "evolves k (k'\<lparr>kmode := b\<rparr>) = evolves k k'"
  by (rule evolves_cong; simp)+

lemma evolves_suspended [simp]:
  "evolves (sched_check_suspended_threads k i) k' = evolves k k'" "evolves k (sched_check_suspended_threads k' i) = evolves k k'"
  by (rule evolves_cong; simp add: sched_check_suspended_threads_def)+

lemma set_ker [simp]: "ker (set_kmode b s) = (ker s)\<lparr>kmode := b\<rparr>" "ker (set_eax s a) = ker s"
  by (simp_all add: set_kmode_def set_eax_def)

lemma syscall_evolves: "syscall_handler drv ver s = Inr s' \<Longrightarrow> evolves (ker s) (ker s')"
proof -
  assume "syscall_handler drv ver s = Inr s'"
  then consider "ker s' = (ker s)\<lparr>kmode := True\<rparr>"
    | f r s1 where "Some f \<in> set (syscalltable drv ver)" "f (set_kmode False s) = Inr (r, s1)" "ker s' = (ker s1)\<lparr>kmode := True\<rparr>"
    unfolding syscall_handler_def Let_def
    by (auto split: if_splits elim!: rbind_InrE simp: aget_Inr deref_Inr) (metis nth_mem set_ker)
  then show ?thesis
  proof cases
    case 2
    have "evolves (ker (set_kmode False s)) (ker s1)" by (rule table_entry [OF 2(1,2)])
    then show ?thesis by (simp add: 2(3))
  qed simp
qed

subsection \<open>Interrupts\<close>

lemma keyboard_ker: "on_keyboard f s = Inr s' \<Longrightarrow> ker s' = ker s"
  by (auto simp: on_keyboard_def elim!: rbind_InrE)

lemma end_of_interrupt_ker [simp]: "ker (end_of_interrupt n s) = ker s"
  by (simp add: end_of_interrupt_def sys_outb_def)

lemma exit_and_yield_keeps: "exit_and_yield b s = Inr (r, s') \<Longrightarrow> keeps (ker s) (ker s')"
  unfolding exit_and_yield_def
  by (elim rbind_InrE) (auto elim!: rbind_InrE dest!: exit_process_keeps upd_cur_keeps; meson keeps_trans)

lemma exception_keeps: "exception_handle n code cr2 s = Inr (r, s') \<Longrightarrow> keeps (ker s) (ker s')"
proof -
  assume "exception_handle n code cr2 s = Inr (r, s')"
  then obtain k where k: "exception_fault n code cr2 (ker s) = Inr k" "exception_deliver (s\<lparr>ker := k\<rparr>) = Inr (r, s')"
    by (auto simp: exception_handle_def elim!: rbind_InrE)
  have "keeps (ker s) k" using k(1) unfolding exception_fault_def
    by (auto split: if_splits elim!: rbind_InrE dest!: user_fault_keeps)
  moreover have "keeps k (ker s')" using k(2) unfolding exception_deliver_def Let_def
    by (auto split: if_splits prod.splits elim!: rbind_InrE dest!: exit_and_yield_keeps to_user_keeps upd_cur_keeps;
        meson keeps_trans)
  ultimately show ?thesis by (rule keeps_trans)
qed

lemma interrupt_evolves: "irq_handler drv ver hs n code cr2 s = Inr (r, s') \<Longrightarrow> evolves (ker s) (ker s')"
  unfolding irq_handler_def Let_def run_handler_def
  by (auto split: if_splits option.splits handler.splits elim!: rbind_InrE
      dest!: keyboard_ker exception_keeps syscall_evolves keeps_evolves)

subsection \<open>Context switches\<close>

text \<open>
  The stub of \<open>boot.S\<close> that every interrupt goes through: the registers are pushed below what the processor
  pushed, the handler runs, the stack pointer is stored in the thread, and the next thread is taken up from
  its own stack. The segment registers, \<open>esp\<close> and \<open>ss\<close> are words of the frame that nobody reads.
\<close>

record frame_rest =
  fr_gs :: u32
  fr_fs :: u32
  fr_es :: u32
  fr_ds :: u32
  fr_esp :: u32
  fr_ss :: u32

definition frame_of :: "u32 \<Rightarrow> u32 \<Rightarrow> frame_rest \<Rightarrow> regs \<Rightarrow> u32 list" where
  "frame_of int_no err_code f r =
     [fr_gs f, fr_fs f, fr_es f, fr_ds f, r_edi r, r_esi r, r_ebp r, fr_esp f, r_ebx r, r_edx r, r_ecx r, r_eax r,
      int_no, err_code, r_eip r, r_cs r, r_eflags r, r_useresp r, fr_ss f]"

text \<open>A frame of a kernel thread has no stack pointer of a program.\<close>

definition regs_of :: "u32 list \<Rightarrow> regs res" where
  "regs_of w =
     (if length w < 17 then Inl (Fault ''frame'')
      else Inr \<lparr>r_edi = w ! 4, r_esi = w ! 5, r_ebp = w ! 6, r_ebx = w ! 8, r_edx = w ! 9, r_ecx = w ! 10, r_eax = w ! 11,
        r_eip = w ! 14, r_cs = w ! 15, r_eflags = w ! 16, r_useresp = (if length w > 17 then w ! 17 else 0)\<rparr>)"

lemma regs_of_frame [simp]: "regs_of (frame_of n code f r) = Inr r"
  by (simp add: regs_of_def frame_of_def)

definition switch_thread :: "u32 list \<Rightarrow> sys \<Rightarrow> sys res" where
  "switch_thread w s =
     rbind (set_thread_stack (ker s) w) (\<lambda>k.
     rbind (sched_loop pload_load_process k) (\<lambda>(tid, k).
     rbind (thread k tid) (\<lambda>t.
     rbind (regs_of (esp_k t)) (\<lambda>r.
     Inr (s\<lparr>ker := k\<lparr>kmem := (kmem k)\<lparr>cr3 := t_cr3 t\<rparr>\<rparr>, sregs := r\<rparr>)))))"

definition irq_common_stub ::
  "drivers \<Rightarrow> string \<Rightarrow> handler option list \<Rightarrow> u32 \<Rightarrow> u32 \<Rightarrow> frame_rest \<Rightarrow> sys \<Rightarrow> sys res" where
  "irq_common_stub drv version hs int_no err_code f s =
     rbind (irq_handler drv version hs int_no err_code 0 s) (\<lambda>(_, s).
     switch_thread (frame_of int_no err_code f (sregs s)) s)"

lemma evolves_kmem [simp]: "evolves k (k'\<lparr>kmem := m\<rparr>) = evolves k k'"
  by (rule evolves_cong; simp)

lemma switch_evolves: "switch_thread w s = Inr s' \<Longrightarrow> evolves (ker s) (ker s')"
proof -
  assume "switch_thread w s = Inr s'"
  then obtain k tid k1 m where k: "set_thread_stack (ker s) w = Inr k" "sched_loop pload_load_process k = Inr (tid, k1)"
    "ker s' = k1\<lparr>kmem := m\<rparr>"
    by (auto simp: switch_thread_def elim!: rbind_InrE)
  have "keeps (ker s) k" using k(1) by (auto simp: set_thread_stack_def split: if_splits dest!: keeps_upd_thread)
  then show ?thesis using sched_loop_keeps [OF k(2)] by (simp add: k(3)) (blast intro: keeps_evolves keeps_trans)
qed

lemma stub_evolves: "irq_common_stub drv ver hs n code f s = Inr s' \<Longrightarrow> evolves (ker s) (ker s')"
  by (auto simp: irq_common_stub_def elim!: rbind_InrE dest!: interrupt_evolves switch_evolves intro: evolves_trans)

subsection \<open>Runs\<close>

text \<open>
  What happens next: an interrupt with a switch, an exception, or the running program computes and stores
  wherever the page tables let it.
\<close>

inductive step :: "drivers \<Rightarrow> string \<Rightarrow> handler option list \<Rightarrow> sys \<Rightarrow> sys \<Rightarrow> bool" for drv ver hs where
  interrupt: "32 \<le> n \<Longrightarrow> irq_common_stub drv ver hs n code f s = Inr s' \<Longrightarrow> step drv ver hs s s'"
| exception: "n < 32 \<Longrightarrow> exception_handle n code cr2 s = Inr (gone, s') \<Longrightarrow> step drv ver hs s s'"
| program: "to_user_loop (kmem_of s) va data = (r, m) \<Longrightarrow> step drv ver hs s (s\<lparr>ker := (ker s)\<lparr>kmem := m\<rparr>, sregs := regs\<rparr>)"

inductive_cases step_elim: "step drv ver hs s s'"

inductive run :: "drivers \<Rightarrow> string \<Rightarrow> handler option list \<Rightarrow> sys \<Rightarrow> sys \<Rightarrow> bool" for drv ver hs where
  here: "run drv ver hs s s"
| later: "run drv ver hs s s1 \<Longrightarrow> step drv ver hs s1 s2 \<Longrightarrow> run drv ver hs s s2"

lemma step_evolves: "step drv ver hs s s' \<Longrightarrow> evolves (ker s) (ker s')"
  by (erule step_elim) (auto dest!: stub_evolves exception_keeps keeps_evolves)

lemma run_evolves: "run drv ver hs s s' \<Longrightarrow> evolves (ker s) (ker s')"
  by (induction rule: run.induct) (auto dest!: step_evolves intro: evolves_trans)

text \<open>
  C12: The table of processes stays well formed in every run of the system: whatever programs compute, call
  and fault on, and whatever the hardware reports, every process lies at its own pid, and \<open>pscount\<close>
  answers the number of processes there are.
\<close>

theorem system_table:
  assumes "run drv ver hs s s'" "table_ok (ker s)"
  shows "table_ok (ker s') \<and> syscall_pscount s' = Inr (int (live (processes (ker s'))), s') \<and>
    (\<forall>pid p. proc (ker s') pid = Inr p \<longrightarrow> p_pid p = pid)"
proof -
  have "table_ok (ker s')" using run_evolves [OF assms(1)] assms(2) by (simp add: evolves_def)
  then show ?thesis by (force simp: table_ok_def syscall_pscount_def proc_Inr last_pid_def dest!: spec [of _ "nat _"])
qed

text \<open>
  C13: A pid is never given out twice: once the process of a pid is gone, no later state of the system has
  a process there, and killing it or waiting for it answers that there is none.
\<close>

theorem pids_never_reused:
  assumes "run drv ver hs s s'" "0 \<le> pid" "pid < last_pid (ker s)" "processes (ker s) ! nat pid = None"
  shows "processes (ker s') ! nat pid = None \<and> sched_kill_process (ker s') pid = Inr (- ESRCH, ker s') \<and>
    sched_wait_process (ker s') pid = Inr (- ESRCH, ker s')"
proof -
  have e: "evolves (ker s) (ker s')" by (rule run_evolves [OF assms(1)])
  have i: "nat pid < length (processes (ker s))" using assms(2,3) by (simp add: last_pid_def)
  then have "nat pid < length (processes (ker s'))" using e by (simp add: evolves_def)
  then have "processes (ker s') ! nat pid = None"
    using evolves_origin [OF e, of "nat pid"] i assms(4) by (cases "processes (ker s') ! nat pid") auto
  then show ?thesis by (simp add: sched_kill_process_def sched_wait_process_def)
qed

text \<open>
  C14: No program gains privilege: in every run, a process that was there before has the privilege it had,
  and every process that was started since is an unprivileged one.
\<close>

theorem privileges_fixed:
  assumes "run drv ver hs s s'" "proc (ker s') pid = Inr q"
  shows "if pid < last_pid (ker s) then \<exists>p. proc (ker s) pid = Inr p \<and> p_privilege q = p_privilege p else p_privilege q = 3"
proof -
  have "nat pid < length (processes (ker s'))" "processes (ker s') ! nat pid = Some q" "0 \<le> pid"
    using assms(2) by (auto simp: proc_Inr last_pid_def)
  with evolves_origin [OF run_evolves [OF assms(1)], of "nat pid" q] show ?thesis
    by (auto simp: proc_Inr last_pid_def split: if_splits)
qed

text \<open>A debug trap of a program and a computation of it, in a system where process 2 is gone.\<close>

definition two_sys :: sys where
  "two_sys = demo_sys\<lparr>ker := demo\<lparr>processes := [Some (demo_process 0 0), Some (demo_process 1 3), None], processes_count := 2\<rparr>\<rparr>"

lemma two_sys_run: "run drv ver hs two_sys (two_sys\<lparr>sregs := r\<rparr>)"
proof -
  have "exception_handle 1 0 0 two_sys = Inr (False, two_sys)"
    by (simp add: exception_handle_def exception_fault_def exception_deliver_def two_sys_def demo_sys_def demo_def cur_thread_def
        thread_Inr cur_proc_def proc_Inr last_tid_def last_pid_def sched_user_fault_def demo_thread_def demo_process_def
        thread_def get_thread_def proc_def get_proc_def)
  then have "step drv ver hs two_sys two_sys" by (intro step.exception) auto
  then have "run drv ver hs two_sys two_sys" by (rule run.later [OF run.here])
  moreover have "step drv ver hs two_sys (two_sys\<lparr>sregs := r\<rparr>)"
    using step.program [of two_sys 0 "[]" 0 "kmem_of two_sys" drv ver hs r] by (simp add: kmem_of_def)
  ultimately show ?thesis by (rule run.later)
qed

lemma system_table_witness: "table_ok (ker (two_sys\<lparr>sregs := demo_regs\<rparr>))"
proof -
  have "table_ok (ker two_sys)"
    by (simp add: table_ok_def two_sys_def demo_def nth_Cons' demo_process_def)
  from system_table [OF two_sys_run this] show ?thesis by blast
qed

lemma pids_never_reused_witness: "sched_kill_process (ker (two_sys\<lparr>sregs := demo_regs\<rparr>)) 2 = Inr (- ESRCH, ker (two_sys\<lparr>sregs := demo_regs\<rparr>))"
  using pids_never_reused [OF two_sys_run, of 2] by (simp add: two_sys_def demo_def last_pid_def)

lemma privileges_fixed_witness: "\<exists>p. proc (ker two_sys) 1 = Inr p \<and> p_privilege p = 3"
proof -
  have "proc (ker (two_sys\<lparr>sregs := sregs two_sys\<rparr>)) 1 = Inr (demo_process 1 3)"
    by (simp add: two_sys_def demo_def proc_Inr last_pid_def)
  from privileges_fixed [OF two_sys_run this] show ?thesis
    by (auto simp: two_sys_def demo_def last_pid_def demo_process_def)
qed

end
