(* ===== verification/Boot.thy ===== *)
theory Boot
  imports System Ata Iso9660
begin

section \<open>Start of the kernel\<close>

text \<open>
  \<open>kernel/kernel/kernel.c\<close> with the boot log (\<open>init/klog.c\<close>), the panic screen (\<open>init/exception.c\<close>), the
  initialisation of the devices (\<open>init/devinit.c\<close>) and the reset of the machine (\<open>i386/power.c\<close>).
  \<open>buf\<close> is what the stack holds at the place of \<open>printf\<close>'s array. In the other theories a panic is the
  value \<open>Inl (Panic msg)\<close>; what it shows is here.
\<close>

subsection \<open>The boot log\<close>

definition set_fg :: "u8 \<Rightarrow> console \<Rightarrow> console" where
  "set_fg color c = c\<lparr>con_vga := terminal_setfgcolor color (con_vga c)\<rparr>"

definition set_bg :: "u8 \<Rightarrow> console \<Rightarrow> console" where
  "set_bg color c = c\<lparr>con_vga := terminal_setbgcolor color (con_vga c)\<rparr>"

definition say :: "string \<Rightarrow> string \<Rightarrow> arg list \<Rightarrow> console \<Rightarrow> console res" where
  "say buf fmt args c = rbind (printf buf (fmt @ [NUL]) args c) (\<lambda>(_, c). Inr c)"

abbreviation newline :: string where "newline \<equiv> [CHR 0x0A]"

definition log_ok :: "string \<Rightarrow> string \<Rightarrow> console \<Rightarrow> console res" where
  "log_ok buf message c =
     rbind (say buf ''[ '' [] (set_fg 13 c)) (\<lambda>c.
     rbind (say buf ''OK '' [] (set_fg 2 c)) (\<lambda>c.
     rbind (say buf ''] '' [] (set_fg 13 c)) (\<lambda>c.
     rbind (say buf message [] c) (\<lambda>c.
     rbind (say buf newline [] c) (\<lambda>c. Inr (set_fg 7 c))))))"

definition log_info :: "string \<Rightarrow> string \<Rightarrow> console \<Rightarrow> console res" where
  "log_info buf message c =
     rbind (say buf ''['' [] (set_fg 13 c)) (\<lambda>c.
     rbind (say buf ''INFO'' [] (set_fg 9 c)) (\<lambda>c.
     rbind (say buf ''] '' [] (set_fg 13 c)) (\<lambda>c.
     rbind (say buf message [] c) (\<lambda>c.
     rbind (say buf newline [] c) (\<lambda>c. Inr (set_fg 7 c))))))"

definition log_fail :: "string \<Rightarrow> string \<Rightarrow> console \<Rightarrow> console res" where
  "log_fail buf message c =
     rbind (say buf ''['' [] (set_fg 13 c)) (\<lambda>c.
     rbind (say buf ''FAIL'' [] (set_fg 4 c)) (\<lambda>c.
     rbind (say buf ''] '' [] (set_fg 13 c)) (\<lambda>c.
     rbind (say buf message [] c) (\<lambda>c.
     rbind (say buf newline [] c) (\<lambda>c. Inr (set_fg 7 c))))))"

definition log_warn :: "string \<Rightarrow> string \<Rightarrow> console \<Rightarrow> console res" where
  "log_warn buf message c =
     rbind (say buf ''['' [] (set_fg 13 c)) (\<lambda>c.
     rbind (say buf ''WARN'' [] (set_fg 14 c)) (\<lambda>c.
     rbind (say buf ''] '' [] (set_fg 13 c)) (\<lambda>c.
     rbind (say buf message [] c) (\<lambda>c.
     rbind (say buf newline [] c) (\<lambda>c. Inr (set_fg 7 c))))))"

definition pmm_log :: "string \<Rightarrow> mem \<Rightarrow> console \<Rightarrow> console res" where
  "pmm_log buf m c =
     rbind (say buf ''['' [] (set_fg 13 c)) (\<lambda>c.
     rbind (say buf ''INFO'' [] (set_fg 9 c)) (\<lambda>c.
     say buf (''] [PMM] Detected %iM bytes of memory available.'' @ newline) [ArgInt (int (pmm_available m) div 256)] (set_fg 13 c)))"

subsection \<open>The panic screen\<close>

text \<open>What is on the terminal when the processor halts; the message is the format of \<open>printf\<close>.\<close>

definition panic :: "string \<Rightarrow> string \<Rightarrow> string \<Rightarrow> console \<Rightarrow> console res" where
  "panic buf version message c =
     rbind (term_clear (set_fg 15 (set_bg 4 c))) (\<lambda>c.
     rbind (say buf (''KERNEL PANIC'' @ newline) [] c) (\<lambda>c.
     rbind (say buf (''Version: %s'' @ newline) [ArgStr (version @ [NUL])] c) (\<lambda>c.
     say buf message [] c)))"

definition panic_trace :: "string \<Rightarrow> string \<Rightarrow> string \<Rightarrow> console \<Rightarrow> console res" where
  "panic_trace buf version message c =
     rbind (term_clear (set_fg 15 (set_bg 4 c))) (\<lambda>c.
     rbind (say buf (''KERNEL PANIC'' @ newline) [] c) (\<lambda>c.
     rbind (say buf (''Version: %s'' @ newline) [ArgStr (version @ [NUL])] c) (\<lambda>c.
     say buf message [] c)))"

lemma term_clear_ok:
  assumes "console_ok c"
  shows "\<exists>c'. term_clear c = Inr c' \<and> console_ok c' \<and> screen_of (con_vga c') = (0, replicate 2000 (blank (t_color (con_vga c)))) \<and>
    t_color (con_vga c') = t_color (con_vga c)"
proof -
  have len: "length (t_buffer (con_vga c)) = 2000" using assms by (simp add: console_ok_def screen_ok_def)
  have "fill_loop (t_buffer (con_vga c)) (blank (t_color (con_vga c))) (cells 0 25) =
      Inr (replicate 2000 (blank (t_color (con_vga c))))"
    using fill_range [of 0 2000 "t_buffer (con_vga c)"] len by (simp add: cells_range)
  then show ?thesis using assms
    by (simp add: term_clear_def terminal_clear_def console_ok_def screen_ok_def screen_of_def)
qed

lemma say_ok:
  assumes "render fmt args = Some out" "NUL \<notin> set fmt" "length buf = 11" "length out \<le> 0x7FFFFFFF" "CHR 0x7F \<notin> set out"
    "console_ok c"
  shows "\<exists>c'. say buf fmt args c = Inr c' \<and> console_ok c' \<and> t_color (con_vga c') = t_color (con_vga c) \<and>
    screen_write (t_color (con_vga c)) out (screen_of (con_vga c)) = Some (screen_of (con_vga c'))"
proof -
  from screen_write_some [OF assms(5)] obtain s
    where s: "screen_write (t_color (con_vga c)) out (screen_of (con_vga c)) = Some s" by blast
  from printf_shows [OF assms(1-4,6) s, of "[]"] s show ?thesis by (auto simp: say_def)
qed

lemma screen_write_append:
  "screen_write color (xs @ ys) s = (case screen_write color xs s of None \<Rightarrow> None | Some s \<Rightarrow> screen_write color ys s)"
  by (induction xs arbitrary: s) (auto split: option.splits)

lemma set_color_ok [simp]: "console_ok (set_fg a c) = console_ok c" "console_ok (set_bg a c) = console_ok c"
  by (simp_all add: console_ok_def set_fg_def set_bg_def screen_ok_def terminal_setfgcolor_def terminal_setbgcolor_def)

lemma render_plain: "CHR ''%'' \<notin> set xs \<Longrightarrow> render xs args = Some xs"
  using render_run [of xs "[]" args] by simp

text \<open>
  C33: A panic shows what happened: from any terminal in order, the screen is cleared to white on red and has
  exactly the banner, the version and the message, when the message has no percent sign and no control
  character.
\<close>

theorem panic_screen:
  assumes "console_ok c" "length buf = 11" "NUL \<notin> set version" "CHR 0x7F \<notin> set version" "length version < 0x7FFFFF00"
    "NUL \<notin> set message" "CHR 0x7F \<notin> set message" "CHR ''%'' \<notin> set message" "length message \<le> 0x7FFFFFFF"
  shows "\<exists>c'. panic buf version message c = Inr c' \<and> console_ok c' \<and>
    screen_write 0x4F (''KERNEL PANIC'' @ newline @ ''Version: '' @ version @ newline @ message)
      (0, replicate 2000 (blank 0x4F)) = Some (screen_of (con_vga c'))"
proof -
  let ?c = "set_fg 15 (set_bg 4 c)"
  have color: "t_color (con_vga ?c) = 0x4F"
    by (simp add: set_fg_def set_bg_def terminal_setfgcolor_def terminal_setbgcolor_def vga_entry_color_def)
  from term_clear_ok [of ?c] assms(1) obtain c1 where c1: "term_clear ?c = Inr c1" "console_ok c1" "t_color (con_vga c1) = 0x4F"
    "screen_of (con_vga c1) = (0, replicate 2000 (blank 0x4F))" by (auto simp: color)
  let ?t1 = "''KERNEL PANIC'' @ newline"
  from say_ok [of ?t1 "[]" ?t1 buf c1] render_plain [of ?t1] c1(2) assms(2) obtain c2 where c2: "say buf ?t1 [] c1 = Inr c2"
    "console_ok c2" "t_color (con_vga c2) = 0x4F"
    "screen_write 0x4F ?t1 (screen_of (con_vga c1)) = Some (screen_of (con_vga c2))" by (auto simp: c1(3))
  let ?t2 = "''Version: '' @ version @ newline"
  have "render (''Version: %s'' @ newline) [ArgStr (version @ [NUL])] = Some ?t2"
    using assms(3) by (simp add: render.simps(2) cstr_stop)
  from say_ok [OF this, of buf c2] c2(2) assms(2,4,5) obtain c3 where c3: "say buf (''Version: %s'' @ newline) [ArgStr (version @ [NUL])] c2 = Inr c3"
    "console_ok c3" "t_color (con_vga c3) = 0x4F"
    "screen_write 0x4F ?t2 (screen_of (con_vga c2)) = Some (screen_of (con_vga c3))" by (auto simp: c2(3))
  from say_ok [OF render_plain [OF assms(8)] assms(6,2,9,7) c3(2), of "[]"] obtain c4 where c4: "say buf message [] c3 = Inr c4"
    "console_ok c4" "screen_write 0x4F message (screen_of (con_vga c3)) = Some (screen_of (con_vga c4))" by (auto simp: c3(3))
  have "screen_write 0x4F (?t1 @ ?t2 @ message) (0, replicate 2000 (blank 0x4F)) = Some (screen_of (con_vga c4))"
    using c2(4) c3(4) c4(3) by (simp only: screen_write_append c1(4) option.case)
  then show ?thesis using c1(1) c2(1) c3(1) c4(1,2) by (simp only: panic_def rbind_Inr append_assoc) blast
qed

lemma panic_screen_witness:
  "\<exists>c'. panic (replicate 11 NUL) ''1'' ''out'' demo_console = Inr c' \<and> fst (screen_of (con_vga c')) = 163"
proof -
  obtain c' where c': "panic (replicate 11 NUL) ''1'' ''out'' demo_console = Inr c'"
    "screen_write 0x4F (''KERNEL PANIC'' @ newline @ ''Version: '' @ ''1'' @ newline @ ''out'')
      (0, replicate 2000 (blank 0x4F)) = Some (screen_of (con_vga c'))"
    using panic_screen [of demo_console "replicate 11 NUL" "''1''" "''out''"] demo_console_ok by auto
  have "map_option fst (screen_write 0x4F (''KERNEL PANIC'' @ newline @ ''Version: '' @ ''1'' @ newline @ ''out'')
      (0, replicate 2000 (blank 0x4F))) = Some 163"
    by (simp add: screen_put_def scroll_end_def)
  then have "fst (screen_of (con_vga c')) = 163" by (simp only: c'(2) option.map option.inject)
  then show ?thesis using c'(1) by blast
qed

subsection \<open>Resetting the machine\<close>

text \<open>The keyboard controller is emptied, without a bound, and then pulses the reset line.\<close>

primrec reboot :: "nat \<Rightarrow> io \<Rightarrow> io option" where
  "reboot 0 io = None"
| "reboot (Suc n) io =
     (let (temp, io) = inb 0x64 io;
          io = (if temp AND 1 \<noteq> 0 then snd (inb 0x60 io) else io) in
      if temp AND 2 \<noteq> 0 then reboot n io else Some (outb 0x64 0xFE io))"

lemma reboot_last: "reboot n io = Some io' \<Longrightarrow> \<exists>log. io_log io' = log @ [Out 0x64 0xFE]"
  by (induction n arbitrary: io) (auto simp: outb_def Let_def split: if_splits prod.splits)

subsection \<open>The whole machine\<close>

record machine =
  m_sys :: sys
  m_handlers :: "handler option list"
  m_gdt :: gdt_state
  m_idt :: "(u16 \<times> u32) \<times> idt_entry list"
  m_ps2 :: ps2
  m_ata :: "ata_device list"
  m_atapi :: atapi_state
  m_cmdline :: string

text \<open>
  What the kernel takes from outside itself: the addresses of its tables and entry points, the stack
  pointer, the answer of \<open>init_fpu\<close>, the drivers by their numbers, the discs, the version string, the
  bytes on the stack, and the bounds for the loops over device registers that have none.
\<close>

record outside =
  o_buf :: string
  o_version :: string
  o_drv :: drivers
  o_disc :: "nat \<Rightarrow> block_fn \<times> string"
  o_fuel :: nat
  o_gdt :: u32
  o_tss :: u32
  o_idt :: u32
  o_esp :: u32
  o_isr :: "nat \<Rightarrow> u32"
  o_irq :: "nat \<Rightarrow> u32"
  o_fpu :: bool
  o_idle_loop :: u32
  o_kernel_loop :: u32

text \<open>The fields of the boot information that the kernel reads; \<open>mb_cmdline\<close> is the string the address leads to.\<close>

record multiboot_info =
  mb_flags :: u32
  mb_cmdline :: string
  mb_mmap_length :: u32
  mb_mmap_addr :: u32

definition MULTIBOOT_BOOTLOADER_MAGIC :: u32 where "MULTIBOOT_BOOTLOADER_MAGIC = 0x2BADB002"

definition on_console :: "(console \<Rightarrow> console res) \<Rightarrow> machine \<Rightarrow> machine res" where
  "on_console f m = rbind (f (cons (m_sys m))) (\<lambda>c. Inr (m\<lparr>m_sys := (m_sys m)\<lparr>cons := c\<rparr>\<rparr>))"

definition upd_io :: "io \<Rightarrow> machine \<Rightarrow> machine" where
  "upd_io io m = m\<lparr>m_sys := (m_sys m)\<lparr>cons := (cons (m_sys m))\<lparr>con_io := io\<rparr>\<rparr>\<rparr>"

abbreviation io_of :: "machine \<Rightarrow> io" where "io_of m \<equiv> con_io (cons (m_sys m))"

subsection \<open>Devices\<close>

text \<open>The handlers that \<open>ps2kb_init\<close> installs.\<close>

definition keyboard_handlers :: "kb \<Rightarrow> handler option list \<Rightarrow> handler option list res" where
  "keyboard_handlers k hs =
     rbind (if kb_irq1 k then irq_install_handler hs 1 Ps2kb_handler else Inr hs) (\<lambda>hs.
     if kb_irq12 k then irq_install_handler hs 12 Ps2kb_handler else Inr hs)"

definition devinit_tty :: "machine \<Rightarrow> machine res" where
  "devinit_tty m =
     on_console (\<lambda>c. rbind (terminal_initialize (con_vga c) (con_io c)) (\<lambda>(v, io). Inr (c\<lparr>con_vga := v, con_io := io\<rparr>))) m"

definition devinit :: "outside \<Rightarrow> machine \<Rightarrow> machine res" where
  "devinit out m =
     rbind (ps2_init (o_fuel out) (m_ps2 m) (io_of m)) (\<lambda>(p, io).
     let m = upd_io io (m\<lparr>m_ps2 := p\<rparr>) in
     rbind (ps2kb_init p (con_kb (cons (m_sys m)))) (\<lambda>k.
     rbind (keyboard_handlers k (m_handlers m)) (\<lambda>hs.
     let m = m\<lparr>m_handlers := hs, m_sys := (m_sys m)\<lparr>cons := (cons (m_sys m))\<lparr>con_kb := k\<rparr>\<rparr>\<rparr> in
     rbind (atapio_detect_disks (o_fuel out) (m_ata m) (io_of m)) (\<lambda>(disks, io).
     let m = upd_io io (m\<lparr>m_ata := disks\<rparr>) in
     rbind (atapi_init (o_fuel out) (o_disc out) disks (m_atapi m, vfs_init (fsys (m_sys m)), io_of m)) (\<lambda>(a, v, io).
     let m = upd_io io (m\<lparr>m_atapi := a, m_sys := (m_sys m)\<lparr>fsys := iso9660_init (vfat_init v)\<rparr>\<rparr>) in
     on_console (log_ok (o_buf out) ''Device initialization complete.'') m)))))"

subsection \<open>The system volume\<close>

definition K_SYSVOLNAME :: string where "K_SYSVOLNAME = ''local''"

definition stop_with :: "string \<Rightarrow> 'a option \<Rightarrow> 'a res" where
  "stop_with msg x = (case x of None \<Rightarrow> Inl (Panic msg) | Some y \<Rightarrow> Inr y)"

text \<open>The disc in the drive is mounted, and the image on it becomes the RAM disk that is the system volume.\<close>

definition mount_cd :: "outside \<Rightarrow> atapi_state \<Rightarrow> vfs \<Rightarrow> console \<Rightarrow> (vfs \<times> console) res" where
  "mount_cd out a v c =
     (let drv = o_drv out; disc = nat (atapi_disc a) in
      rbind (vfs_detect_fs drv v disc) (\<lambda>fs.
      rbind (deref ''null driver'' fs) (\<lambda>fs.
      rbind (vfs_mount drv v disc fs False ''cd'') (\<lambda>(mp, v).
      rbind (stop_with ''Error finding system volume: vfs_mount() call returned NULL'' mp) (\<lambda>_.
      rbind (log_ok (o_buf out) (''Mounted CD at '' @ [CHR 0x22] @ ''cd'' @ [CHR 0x22]) c) (\<lambda>c.
      rbind (vfs_read_file_k drv v ''cd:boot.img'') (\<lambda>img.
      rbind (stop_with (''Error finding system volume: CD does not contain a valid '' @ [CHR 0x22] @ ''boot.img'' @ [CHR 0x22]) img) (\<lambda>(buf, sz).
      let (bdid, v) = rdisk_create v (round_up_integer sz 512 div 512) ''rdisk'' in
      rbind (deref ''null device'' (vfs_get_block_device v (of_nat bdid))) (\<lambda>bd.
      rbind (bdev_at v bd) (\<lambda>b.
      rbind (get_slice buf 0 (unat sz)) (\<lambda>data.
      rbind (put_slice (bd_medium b) 0 data) (\<lambda>medium.
      rbind (upd_bdev v bd (\<lambda>b. b\<lparr>bd_medium := medium\<rparr>)) (\<lambda>v.
      rbind (vfs_detect_fs drv v bd) (\<lambda>fs.
      rbind (stop_with ''Error mounting system volume: Filesystem not supported'' fs) (\<lambda>fs.
      rbind (vfs_mount drv v bd fs True K_SYSVOLNAME) (\<lambda>(mp, v).
      rbind (stop_with ''Error mounting system volume: vfs_mount() call returned NULL'' mp) (\<lambda>_. Inr (v, c))))))))))))))))))"

definition mount_named :: "outside \<Rightarrow> string \<Rightarrow> vfs \<Rightarrow> vfs res" where
  "mount_named out info v =
     (let drv = o_drv out in
      rbind (stop_with ''Error finding system volume: The block device does not exist''
        (vfs_find_block_device_by_name v (cstr info))) (\<lambda>bd.
      rbind (vfs_detect_fs drv v bd) (\<lambda>fs.
      rbind (stop_with ''Error mounting system volume: Filesystem not supported'' fs) (\<lambda>fs.
      rbind (vfs_mount drv v bd fs False K_SYSVOLNAME) (\<lambda>(mp, v).
      rbind (stop_with ''Error mounting system volume: vfs_mount() call returned NULL'' mp) (\<lambda>_. Inr v))))))"

definition kernel_mount_system_volume :: "outside \<Rightarrow> string \<Rightarrow> atapi_state \<Rightarrow> vfs \<Rightarrow> console \<Rightarrow> (vfs \<times> console) res" where
  "kernel_mount_system_volume out info a v c =
     rbind (strlen info) (\<lambda>n.
     if n = 0 then Inl (Panic ''Error finding system volume: No information provided'')
     else
       rbind (strcmp info (''cd'' @ [NUL])) (\<lambda>d.
       rbind
         (if d = 0 then
            if atapi_disccount a = 1 then mount_cd out a v c
            else if atapi_disccount a > 1 then Inl (Panic ''Error finding system volume: Please remove all other discs and reboot'')
            else Inl (Panic ''Error finding system volume: No CD in drive'')
          else rbind (mount_named out info v) (\<lambda>v. Inr (v, c))) (\<lambda>(v, c).
       rbind (log_ok (o_buf out) (''System volume mounted at '' @ [CHR 0x22] @ K_SYSVOLNAME @ [CHR 0x22]) c) (\<lambda>c. Inr (v, c)))))"

text \<open>When the kernel goes on, the last thing mounted is the system volume.\<close>

lemma vfs_mount_named:
  assumes "vfs_mount drv v bd fs rw nm = Inr (Some mp, v')" "length nm \<le> 16"
  shows "\<exists>b m. bdev_at v' bd = Inr b \<and> bd_mounted b \<and> bd_mountpoint b = Some mp \<and> mount_at v' mp = Inr m \<and> mp_name m = nm"
  using assms unfolding vfs_mount_def upd_bdev_def upd_mount_def bdev_at_def mount_at_def
  by (auto split: if_splits elim!: rbind_InrE simp: aget_Inr aset_Inr deref_Inr)

lemma system_volume_mounted:
  assumes "kernel_mount_system_volume out info a v c = Inr (v', c')"
  shows "\<exists>bd b mp m. bdev_at v' bd = Inr b \<and> bd_mounted b \<and> bd_mountpoint b = Some mp \<and> mount_at v' mp = Inr m \<and>
    mp_name m = K_SYSVOLNAME"
proof -
  from assms obtain v0 bd fs rw mp where "vfs_mount (o_drv out) v0 bd fs rw K_SYSVOLNAME = Inr (Some mp, v')"
    unfolding kernel_mount_system_volume_def mount_cd_def mount_named_def Let_def
    by (auto elim!: rbind_InrE split: if_splits prod.splits option.splits simp: stop_with_def)
  from vfs_mount_named [OF this] show ?thesis by (auto simp: K_SYSVOLNAME_def)
qed

subsection \<open>The first processes\<close>

definition start_processes :: "outside \<Rightarrow> sys \<Rightarrow> sys res" where
  "start_processes out s =
     rbind (sched_init (ker s) (o_idle_loop out)) (\<lambda>k.
     rbind (sched_create_process k 0 ''glxykrnl.elf'') (\<lambda>(pid, k).
     rbind (sched_create_thread k pid False (o_kernel_loop out)) (\<lambda>(tid, k).
     rbind (sched_pick_next pload_load_process k) (\<lambda>k.
     rbind (sched_pick_next pload_load_process k) (\<lambda>k.
     rbind (pload_create_process_file (o_drv out) k (fsys s) (K_SYSVOLNAME @ '':galaxyos/init.elf'') (Some [[]]) True) (\<lambda>(r, k, v).
     rbind (if r < 0 then say (o_buf out) (''creating init process returned negative!!'' @ newline) [] (cons s) else Inr (cons s)) (\<lambda>c.
     Inr (s\<lparr>ker := k\<lparr>kmode := True\<rparr>, fsys := v, cons := c\<rparr>))))))))"

definition syscall_init :: "handler option list \<Rightarrow> handler option list res" where
  "syscall_init hs = irq_install_handler hs 0x60 Syscall_handler"

text \<open>
  Up to the point where interrupts are switched on and the processor halts until the first one. The memory
  is set up from the boot information before the kernel looks whether there is any.
\<close>

definition kernel_main :: "outside \<Rightarrow> multiboot_info \<Rightarrow> u32 \<Rightarrow> u32 \<Rightarrow> machine \<Rightarrow> machine res" where
  "kernel_main out mbd magic pagetable m =
     rbind (if drop_bit 2 (mb_flags mbd) AND 1 \<noteq> 0 then strncpy (m_cmdline m) (mb_cmdline mbd) 512 else Inr (m_cmdline m)) (\<lambda>cmd.
     rbind (gdt_setup (o_gdt out) (o_tss out) (o_esp out) (m_gdt m)) (\<lambda>g.
     rbind (idt_setup (o_idt out) (o_isr out)) (\<lambda>(idtp, idt).
     rbind (irq_install (o_irq out) idt (io_of m)) (\<lambda>(idt, io).
     rbind (pmm_init (kmem_of (m_sys m)) (mb_mmap_addr mbd) (mb_mmap_length mbd)) (\<lambda>mem.
     rbind (vmm_init mem pagetable) (\<lambda>mem.
     rbind (syscall_init (m_handlers m)) (\<lambda>hs.
     let s = m_sys m;
         m = upd_io io (m\<lparr>m_cmdline := cmd, m_gdt := g, m_idt := (idtp, idt), m_handlers := hs,
               m_sys := s\<lparr>ker := (ker s)\<lparr>kmem := mem\<rparr>\<rparr>\<rparr>) in
     rbind (devinit_tty m) (\<lambda>m.
     rbind (on_console (log_ok (o_buf out) ''Terminal initialized'') m) (\<lambda>m.
     rbind (on_console (pmm_log (o_buf out) (kmem_of (m_sys m))) m) (\<lambda>m.
     if magic \<noteq> MULTIBOOT_BOOTLOADER_MAGIC then Inl (Panic ''The OS was not loaded with a multiboot compliant bootloader'')
     else if drop_bit 6 (mb_flags mbd) AND 1 = 0 then Inl (Panic ''The bootloader did not provide a memory map'')
     else if o_fpu out then Inl (Panic ''CPU not supported'')
     else
       rbind (on_console (log_ok (o_buf out) ''FPU initialized'') m) (\<lambda>m.
       rbind (devinit out m) (\<lambda>m.
       let s = (m_sys m)\<lparr>ker := interface_init (ker (m_sys m))\<rparr> in
       rbind (kernel_mount_system_volume out (m_cmdline m) (m_atapi m) (fsys s) (cons s)) (\<lambda>(v, c).
       rbind (start_processes out (s\<lparr>fsys := v, cons := c\<rparr>)) (\<lambda>s. Inr (m\<lparr>m_sys := s\<rparr>)))))))))))))))"

text \<open>The kernel's own thread: it waits for \<open>init\<close>; \<open>gap\<close> is all that happens until it runs again.\<close>

definition kernel_loop :: "(sys \<Rightarrow> sys) \<Rightarrow> sys \<Rightarrow> sys res" where
  "kernel_loop gap s =
     rbind (on_ker (\<lambda>k. sched_wait_process k 2) s) (\<lambda>(_, s).
     let s = gap s in Inl (Panic ''System process died''))"

text \<open>Process 0 and 1 are the kernel's, the table is in order.\<close>

definition kernel_only :: "nat \<Rightarrow> kernel \<Rightarrow> bool" where
  "kernel_only n k \<longleftrightarrow> table_ok k \<and> n \<le> length (processes k) \<and>
     (\<forall>i<n. \<forall>p\<in>set_option (processes k ! i). p_privilege p = 0)"

definition booted :: "kernel \<Rightarrow> bool" where "booted k \<longleftrightarrow> kernel_only 2 k"

lemma kernel_only_evolves: "kernel_only n k \<Longrightarrow> evolves k k' \<Longrightarrow> kernel_only n k'"
proof -
  assume k: "kernel_only n k" and e: "evolves k k'"
  have "p_privilege q = 0" if "i < n" "processes k' ! i = Some q" for i q
  proof -
    have i: "i < length (processes k)" "i < length (processes k')" using that(1) k e by (auto simp: kernel_only_def evolves_def)
    from evolves_origin [OF e i(2) that(2)] i(1) k that(1) show ?thesis by (auto simp: kernel_only_def)
  qed
  then show ?thesis using k e by (auto simp: kernel_only_def evolves_def)
qed

lemma kernel_only_creates:
  assumes "kernel_only n k" "length (processes k) = n" "creates k pid 0 k'"
  shows "kernel_only (Suc n) k' \<and> length (processes k') = Suc n"
proof -
  from assms(3) obtain k1 p where k1: "table_ok k \<longrightarrow> table_ok k1" "processes k1 = processes k @ [Some p]" "p_privilege p = 0"
    "keeps k1 k'" by (auto simp: creates_def)
  have "kernel_only (Suc n) k1" using assms(1,2) k1 by (auto simp: kernel_only_def nth_append less_Suc_eq)
  then show ?thesis using keeps_evolves [OF k1(4)] keeps_length [OF k1(4)] k1(2) assms(2)
    by (auto intro: kernel_only_evolves)
qed

lemma sched_init_only:
  assumes "sched_init k idle = Inr k'"
  shows "kernel_only 1 k' \<and> length (processes k') = 1"
proof -
  define k0 where "k0 = k\<lparr>processes := [], processes_cap := 1024 * 116 div 4, processes_count := 0,
    threads := [], threads_cap := 1024 * 37 div 4, queue := (\<lambda>_. 0), queue_cap := 1024, queue_start := 0, queue_loc := 0,
    queue_end := 0, processes_size := 1024, threads_size := 1024, currenttid := -1\<rparr>"
  have k00: "processes k0 = []" "processes_count k0 = 0" by (simp_all add: k0_def)
  have "rbind (sched_create_process_idle k0 idle) (\<lambda>(pid, s). Inr s) = Inr k'"
    using assms by (simp add: sched_init_def k0_def)
  then obtain pid k1 tid k2 where k: "sched_create_process k0 0 ''(idle)'' = Inr (pid, k1)"
    "sched_create_thread k1 pid True idle = Inr (tid, k2)" "k' = k2\<lparr>idletid := tid\<rparr>"
    by (auto simp: sched_create_process_idle_def elim!: rbind_InrE)
  have "kernel_only 0 k0" "length (processes k0) = 0" using k00 by (simp_all add: kernel_only_def table_ok_def)
  from kernel_only_creates [OF this create_process_creates [OF k(1)]]
  have k1: "kernel_only 1 k1" "length (processes k1) = 1" by simp_all
  have "keeps k1 k'" using create_thread_keeps [OF k(2)] by (simp add: k(3))
  then show ?thesis using k1 keeps_length [OF \<open>keeps k1 k'\<close>] by (auto intro: kernel_only_evolves keeps_evolves)
qed

text \<open>What the start of the kernel leaves: two kernel processes, and \<open>init\<close>, if it could be made, with pid 2.\<close>

lemma start_processes_booted:
  assumes "start_processes out s = Inr s'"
  shows "booted (ker s') \<and> kmode (ker s')"
proof -
  from assms obtain k1 pid k2 tid k3 k4 k5 r k6 v where k:
    "sched_init (ker s) (o_idle_loop out) = Inr k1" "sched_create_process k1 0 ''glxykrnl.elf'' = Inr (pid, k2)"
    "sched_create_thread k2 pid False (o_kernel_loop out) = Inr (tid, k3)" "sched_pick_next pload_load_process k3 = Inr k4"
    "sched_pick_next pload_load_process k4 = Inr k5"
    "pload_create_process_file (o_drv out) k5 (fsys s) (K_SYSVOLNAME @ '':galaxyos/init.elf'') (Some [[]]) True = Inr (r, k6, v)"
    "ker s' = k6\<lparr>kmode := True\<rparr>"
    unfolding start_processes_def by (auto elim!: rbind_InrE)
  have "kernel_only 2 k2"
    using kernel_only_creates [OF _ _ create_process_creates [OF k(2)]] sched_init_only [OF k(1)] by (simp add: numeral_2_eq_2)
  moreover have "evolves k2 k6"
    using create_thread_keeps [OF k(3)] pick_next_keeps [OF k(4)] pick_next_keeps [OF k(5)] create_file_evolves [OF k(6)]
    by (meson evolves_trans keeps_evolves)
  ultimately have "kernel_only 2 k6" by (rule kernel_only_evolves)
  then have "kernel_only 2 (k6\<lparr>kmode := True\<rparr>)" by (simp add: kernel_only_def table_ok_def)
  then show ?thesis by (simp add: booted_def k(7))
qed

text \<open>
  C15: No program can restart the machine, \<open>init\<close> among them, though the check of \<open>syscall_spstate\<close> is there to
  let it: from a state as the start of the kernel leaves it, in every run, the call is refused to every
  process that is not privileged, and changes nothing. The pid it asks for belongs to the kernel.
\<close>

theorem no_program_reboots:
  assumes "booted (ker s0)" "run drv ver hs s0 s" "cur_proc (ker s) = Inr p" "p_privilege p \<noteq> 0" "arg s 0 = 2"
  shows "syscall_spstate s = Inr (- EACCES, s)"
proof -
  have k: "kernel_only 2 (ker s)" using kernel_only_evolves [OF _ run_evolves [OF assms(2)]] assms(1) by (simp add: booted_def)
  obtain pid where pid: "proc (ker s) pid = Inr p" using assms(3) by (auto simp: cur_proc_def elim!: rbind_InrE)
  then have i: "nat pid < length (processes (ker s))" "processes (ker s) ! nat pid = Some p" "0 \<le> pid"
    by (auto simp: proc_Inr last_pid_def)
  then have "p_pid p = pid" using k by (auto simp: kernel_only_def table_ok_def)
  moreover have "\<forall>q\<in>set_option (processes (ker s) ! 1). p_privilege q = 0" 
    using k unfolding kernel_only_def by (meson one_less_numeral_iff semiring_norm(76))
  then have "nat pid \<noteq> 1" using i(2) assms(4) by auto
  ultimately have "p_pid p \<noteq> 1" by auto
  then show ?thesis using assms(3,5) by (simp add: syscall_spstate_def)
qed

text \<open>\<open>init\<close> is running and asks for it.\<close>

definition init_sys :: sys where
  "init_sys = demo_sys\<lparr>ker := demo\<lparr>processes := [Some (demo_process 0 0), Some (demo_process 1 0), Some (demo_process 2 3)],
     currenttid := 2, currentps := Some 2\<rparr>, sregs := demo_regs\<lparr>r_eax := 26, r_ecx := 2\<rparr>\<rparr>"

lemma no_program_reboots_witness: "syscall_spstate init_sys = Inr (- EACCES, init_sys)"
proof -
  have "kernel_only 2 (ker init_sys)"
    by (auto simp: kernel_only_def init_sys_def table_ok_def demo_def nth_Cons' demo_process_def less_2_cases_iff)
  moreover have "cur_proc (ker init_sys) = Inr (demo_process 2 3)"
    by (simp add: cur_proc_def init_sys_def demo_def proc_Inr last_pid_def)
  ultimately show ?thesis
    using no_program_reboots [OF _ run.here, of init_sys "demo_process 2 3"]
    by (simp add: booted_def demo_process_def init_sys_def arg_def)
qed

end
