(* ===== verification/UserLib.thy ===== *)
theory UserLib
  imports SyscallSpec VfatRead
begin

section \<open>System calls as programs make them\<close>

text \<open>
  The C functions of \<open>userland/lib/glcore\<close> and \<open>libc\<close> around \<open>int $0x80\<close>. A wrapper puts the number of
  the call into eax and its arguments into ecx, edx, ebx, esi, and takes the result from eax. Pointers
  are addresses of the program. What other threads and the interrupt handlers do while a program that
  calls more than once is between two calls is a function on the state, one for each such gap.
\<close>

definition load_args :: "u32 list \<Rightarrow> regs \<Rightarrow> regs" where
  "load_args as r =
     r\<lparr>r_ecx := (if 0 < length as then as ! 0 else r_ecx r), r_edx := (if 1 < length as then as ! 1 else r_edx r),
       r_ebx := (if 2 < length as then as ! 2 else r_ebx r), r_esi := (if 3 < length as then as ! 3 else r_esi r)\<rparr>"

definition enter :: "u32 \<Rightarrow> u32 list \<Rightarrow> sys \<Rightarrow> sys" where
  "enter num as s = s\<lparr>sregs := load_args as ((sregs s)\<lparr>r_eax := num\<rparr>)\<rparr>"

definition trap :: "drivers \<Rightarrow> string \<Rightarrow> u32 \<Rightarrow> u32 list \<Rightarrow> sys \<Rightarrow> (u32 \<times> sys) res" where
  "trap drv version num as s =
     rbind (syscall_handler drv version (enter num as s)) (\<lambda>s. Inr (r_eax (sregs s), s))"

text \<open>A call whose result is an \<open>int\<close>.\<close>

definition call :: "drivers \<Rightarrow> string \<Rightarrow> u32 \<Rightarrow> u32 list \<Rightarrow> sys \<Rightarrow> (int \<times> sys) res" where
  "call drv version num as s = rbind (trap drv version num as s) (\<lambda>(r, s). Inr (sint r, s))"

subsection \<open>Processes and threads\<close>

definition psWait :: "drivers \<Rightarrow> string \<Rightarrow> u32 \<Rightarrow> sys \<Rightarrow> (int \<times> sys) res" where
  "psWait drv version pid = call drv version 2 [pid]"

definition psExecA :: "drivers \<Rightarrow> string \<Rightarrow> u32 \<Rightarrow> u32 \<Rightarrow> sys \<Rightarrow> (int \<times> sys) res" where
  "psExecA drv version path args = call drv version 7 [path, args]"

definition psExecS :: "u32 \<Rightarrow> u32 \<Rightarrow> int" where
  "psExecS path args = -1"

definition psKill :: "drivers \<Rightarrow> string \<Rightarrow> u32 \<Rightarrow> sys \<Rightarrow> (int \<times> sys) res" where
  "psKill drv version pid = call drv version 27 [pid]"

definition psCount :: "drivers \<Rightarrow> string \<Rightarrow> sys \<Rightarrow> (int \<times> sys) res" where
  "psCount drv version = call drv version 28 []"

definition psList :: "drivers \<Rightarrow> string \<Rightarrow> u32 \<Rightarrow> u32 \<Rightarrow> sys \<Rightarrow> (int \<times> sys) res" where
  "psList drv version list sz = call drv version 29 [list, sz]"

definition psThreadFork :: "drivers \<Rightarrow> string \<Rightarrow> sys \<Rightarrow> (int \<times> sys) res" where
  "psThreadFork drv version = call drv version 25 []"

text \<open>These two do not come back: the state is the one the kernel leaves.\<close>

definition psExitThread :: "drivers \<Rightarrow> string \<Rightarrow> sys \<Rightarrow> sys res" where
  "psExitThread drv version s = rbind (trap drv version 30 [] s) (\<lambda>(_, s). Inr s)"

definition exit_u :: "drivers \<Rightarrow> string \<Rightarrow> u32 \<Rightarrow> sys \<Rightarrow> sys res" where
  "exit_u drv version status s = rbind (trap drv version 1 [status] s) (\<lambda>(_, s). Inr s)"

definition psExit :: "drivers \<Rightarrow> string \<Rightarrow> u32 \<Rightarrow> sys \<Rightarrow> sys res" where
  "psExit drv version code = exit_u drv version code"

definition psGetEVar :: "drivers \<Rightarrow> string \<Rightarrow> u32 \<Rightarrow> u32 \<Rightarrow> u32 \<Rightarrow> sys \<Rightarrow> (int \<times> sys) res" where
  "psGetEVar drv version nm buf sz = call drv version 12 [nm, buf, sz]"

definition psSetEVar :: "drivers \<Rightarrow> string \<Rightarrow> u32 \<Rightarrow> u32 \<Rightarrow> sys \<Rightarrow> (int \<times> sys) res" where
  "psSetEVar drv version nm val = call drv version 13 [nm, val]"

subsection \<open>Messages\<close>

definition psInterfaceCreate :: "drivers \<Rightarrow> string \<Rightarrow> u32 \<Rightarrow> u32 \<Rightarrow> sys \<Rightarrow> (int \<times> sys) res" where
  "psInterfaceCreate drv version nm fl = call drv version 20 [nm, fl]"

definition psInterfaceDelete :: "drivers \<Rightarrow> string \<Rightarrow> u32 \<Rightarrow> sys \<Rightarrow> (int \<times> sys) res" where
  "psInterfaceDelete drv version nm = call drv version 21 [nm]"

definition psInterfaceSend :: "drivers \<Rightarrow> string \<Rightarrow> u32 \<Rightarrow> u32 \<Rightarrow> u32 \<Rightarrow> u32 \<Rightarrow> sys \<Rightarrow> (int \<times> sys) res" where
  "psInterfaceSend drv version nm pid buf sz = call drv version 22 [nm, pid, buf, sz]"

definition psInterfaceRecieveNB :: "drivers \<Rightarrow> string \<Rightarrow> u32 \<Rightarrow> u32 \<Rightarrow> u32 \<Rightarrow> u32 \<Rightarrow> sys \<Rightarrow> (int \<times> sys) res" where
  "psInterfaceRecieveNB drv version nm buf sz sizeout = call drv version 23 [nm, buf, sz, sizeout]"

definition psInterfaceWait :: "drivers \<Rightarrow> string \<Rightarrow> u32 \<Rightarrow> sys \<Rightarrow> (int \<times> sys) res" where
  "psInterfaceWait drv version nm = call drv version 24 [nm]"

text \<open>\<open>gap\<close> is what happens from the second call, which puts the thread to sleep, until it runs again.\<close>

definition psInterfaceRecieve ::
  "drivers \<Rightarrow> string \<Rightarrow> u32 \<Rightarrow> u32 \<Rightarrow> u32 \<Rightarrow> u32 \<Rightarrow> (sys \<Rightarrow> sys) \<Rightarrow> sys \<Rightarrow> (int \<times> sys) res" where
  "psInterfaceRecieve drv version nm buf sz sizeout gap s =
     rbind (psInterfaceRecieveNB drv version nm buf sz sizeout s) (\<lambda>(retvalue, s).
     if retvalue = - EAGAIN then
       rbind (psInterfaceWait drv version nm s) (\<lambda>(_, s).
       psInterfaceRecieveNB drv version nm buf sz sizeout (gap s))
     else Inr (retvalue, s))"

subsection \<open>Files\<close>

definition fsList :: "drivers \<Rightarrow> string \<Rightarrow> u32 \<Rightarrow> u32 \<Rightarrow> u32 \<Rightarrow> u32 \<Rightarrow> sys \<Rightarrow> (int \<times> sys) res" where
  "fsList drv version path buf sz dirs = call drv version 17 [path, buf, sz, dirs]"

definition fsSize :: "drivers \<Rightarrow> string \<Rightarrow> u32 \<Rightarrow> sys \<Rightarrow> (int \<times> sys) res" where
  "fsSize drv version fd = call drv version 9 [fd]"

definition chdir :: "drivers \<Rightarrow> string \<Rightarrow> u32 \<Rightarrow> sys \<Rightarrow> (int \<times> sys) res" where
  "chdir drv version path = call drv version 16 [path]"

definition getcwd :: "drivers \<Rightarrow> string \<Rightarrow> u32 \<Rightarrow> u32 \<Rightarrow> sys \<Rightarrow> (u32 \<times> sys) res" where
  "getcwd drv version buf sz = trap drv version 18 [buf, sz]"

definition write_call :: "drivers \<Rightarrow> string \<Rightarrow> u32 \<Rightarrow> u32 \<Rightarrow> u32 \<Rightarrow> sys \<Rightarrow> (int \<times> sys) res" where
  "write_call drv version fd buf count = call drv version 4 [fd, buf, count]"

text \<open>\<open>open\<close> with the value \<open>errno\<close> gets, if it gets one. The third argument goes along for two flags.\<close>

definition open_call ::
  "drivers \<Rightarrow> string \<Rightarrow> u32 \<Rightarrow> u32 \<Rightarrow> u32 \<Rightarrow> sys \<Rightarrow> (int \<times> int option \<times> sys) res" where
  "open_call drv version path fl mode s =
     rbind (call drv version 5 (if fl AND 0x30 \<noteq> 0 then [path, fl, mode] else [path, fl]) s) (\<lambda>(r, s).
     Inr (if r < 0 then (-1, Some (- r), s) else (r, None, s)))"

text \<open>
  The loops of \<open>read\<close> and \<open>close\<close> call again as long as the result is 0. Every element of \<open>gaps\<close> is one
  more call and what happens after it; \<open>None\<close> means that the function has not returned after all of them.
\<close>

primrec until_nonzero ::
  "(sys \<Rightarrow> (int \<times> sys) res) \<Rightarrow> (sys \<Rightarrow> sys) list \<Rightarrow> sys \<Rightarrow> (int option \<times> sys) res" where
  "until_nonzero f [] s = Inr (None, s)"
| "until_nonzero f (gap # gaps) s =
     rbind (f s) (\<lambda>(r, s). if r = 0 then until_nonzero f gaps (gap s) else Inr (Some r, s))"

definition read_call ::
  "drivers \<Rightarrow> string \<Rightarrow> u32 \<Rightarrow> u32 \<Rightarrow> u32 \<Rightarrow> (sys \<Rightarrow> sys) list \<Rightarrow> sys \<Rightarrow> (int option \<times> sys) res" where
  "read_call drv version fd buf count = until_nonzero (call drv version 3 [fd, buf, count])"

definition close_call :: "drivers \<Rightarrow> string \<Rightarrow> u32 \<Rightarrow> (sys \<Rightarrow> sys) list \<Rightarrow> sys \<Rightarrow> (int option \<times> sys) res" where
  "close_call drv version fd = until_nonzero (call drv version 6 [fd])"

subsection \<open>The system\<close>

definition sysSetPowerState :: "drivers \<Rightarrow> string \<Rightarrow> u32 \<Rightarrow> sys \<Rightarrow> (int \<times> sys) res" where
  "sysSetPowerState drv version state = call drv version 26 [state]"

definition sysVersionN :: "drivers \<Rightarrow> string \<Rightarrow> u32 \<Rightarrow> u32 \<Rightarrow> sys \<Rightarrow> (int \<times> sys) res" where
  "sysVersionN drv version out sz = call drv version 15 [out, sz]"

definition sysVersion :: "drivers \<Rightarrow> string \<Rightarrow> u32 \<Rightarrow> sys \<Rightarrow> (int \<times> sys) res" where
  "sysVersion drv version out = sysVersionN drv version out 10000"

record gl_mem_usage =
  ps_memusage :: u32
  total_memusage :: u32
  total_memfree :: u32
  total_mem :: u32

text \<open>The structure that is filled in, on success.\<close>

definition sysMemUsage :: "drivers \<Rightarrow> string \<Rightarrow> sys \<Rightarrow> (int \<times> gl_mem_usage option \<times> sys) res" where
  "sysMemUsage drv version s =
     rbind (trap drv version 19 [] s) (\<lambda>(psusage, s).
     let r = sregs s in
     Inr (if psusage = 0xFFFFFFFF then (sint (- r_ecx r), None, s)
          else (0, Some \<lparr>ps_memusage = psusage, total_memusage = r_ecx r, total_memfree = r_edx r, total_mem = r_ebx r\<rparr>, s)))"

subsection \<open>Library and kernel agree on the numbers\<close>

text \<open>What a program sees of a call: the function of the table on the arguments, its result as an \<open>int\<close>.\<close>

definition serve :: "(sys \<Rightarrow> (int \<times> sys) res) \<Rightarrow> sys \<Rightarrow> (int \<times> sys) res" where
  "serve f s = rbind (f (set_kmode False s)) (\<lambda>(r, s). Inr (sint (of_int r :: u32), set_kmode True (set_eax s (of_int r))))"

lemma enter_simps [simp]:
  "r_eax (sregs (enter num as s)) = num" "ker (enter num as s) = ker s" "fsys (enter num as s) = fsys s"
  "cons (enter num as s) = cons s" "kmem_of (enter num as s) = kmem_of s"
  "i < length as \<Longrightarrow> i < 4 \<Longrightarrow> arg (enter num as s) i = as ! i"
  by (auto simp: enter_def load_args_def kmem_of_def arg_def less_Suc_eq numeral_eq_Suc)

lemma set_kmode_simps [simp]:
  "arg (set_kmode b s) = arg s" "kmem_of (set_kmode b s) = kmem_of s" "fsys (set_kmode b s) = fsys s"
  "cons (set_kmode b s) = cons s" "sregs (set_kmode b s) = sregs s" "ker (set_kmode b s) = (ker s)\<lparr>kmode := b\<rparr>"
  "kmem_of (set_eax s x) = kmem_of s" "fsys (set_eax s x) = fsys s" "ker (set_eax s x) = ker s"
  by (auto simp: arg_def set_kmode_def kmem_of_def set_eax_def fun_eq_iff)

lemma cur_proc_kmode [simp]: "cur_proc (k\<lparr>kmode := b\<rparr>) = cur_proc k"
  by (simp add: cur_proc_def proc_def [abs_def] get_proc_def [abs_def] last_pid_def cong: if_cong)

lemma call_eq:
  assumes "0 < n" "n < 31" "syscalltable drv version ! unat n = Some f"
  shows "call drv version n as s = serve f (enter n as s)"
proof -
  have "unat n < 256" using assms(2) by (simp add: word_less_nat_alt)
  then have "aget ''syscalltable'' (syscalltable drv version) (unat n) = Inr (Some f)"
    using assms(3) by (simp add: aget_ok syscalltable_def)
  with assms(1,2) show ?thesis
    by (auto simp: call_def trap_def serve_def syscall_handler_def Let_def rbind_assoc set_kmode_def set_eax_def
        intro!: rbind_cong split: prod.splits)
qed

lemma call_numbers:
  "call drv ver 2 as s = serve syscall_wait (enter 2 as s)"
  "call drv ver 3 as s = serve (syscall_read drv) (enter 3 as s)"
  "call drv ver 4 as s = serve (syscall_write drv) (enter 4 as s)"
  "call drv ver 5 as s = serve syscall_open (enter 5 as s)"
  "call drv ver 6 as s = serve syscall_close (enter 6 as s)"
  "call drv ver 7 as s = serve (syscall_exec drv) (enter 7 as s)"
  "call drv ver 9 as s = serve syscall_size (enter 9 as s)"
  "call drv ver 12 as s = serve syscall_getenv (enter 12 as s)"
  "call drv ver 13 as s = serve syscall_setenv (enter 13 as s)"
  "call drv ver 15 as s = serve (syscall_getver ver) (enter 15 as s)"
  "call drv ver 16 as s = serve syscall_chdir (enter 16 as s)"
  "call drv ver 17 as s = serve syscall_list (enter 17 as s)"
  "call drv ver 20 as s = serve syscall_intfc (enter 20 as s)"
  "call drv ver 21 as s = serve syscall_intfd (enter 21 as s)"
  "call drv ver 22 as s = serve syscall_intfs (enter 22 as s)"
  "call drv ver 23 as s = serve syscall_intfr (enter 23 as s)"
  "call drv ver 24 as s = serve syscall_intfw (enter 24 as s)"
  "call drv ver 25 as s = serve syscall_tfork (enter 25 as s)"
  "call drv ver 26 as s = serve syscall_spstate (enter 26 as s)"
  "call drv ver 27 as s = serve syscall_kill (enter 27 as s)"
  "call drv ver 28 as s = serve syscall_pscount (enter 28 as s)"
  "call drv ver 29 as s = serve syscall_pslist (enter 29 as s)"
  by (rule call_eq; simp add: syscalltable_def nth_append)+

text \<open>
  The numbers the library loads and the table of the kernel agree: every wrapper reaches the kernel
  function it is named after, with its arguments, and returns its result.
\<close>

theorem wrappers_reach:
  "psWait drv ver pid s = serve syscall_wait (enter 2 [pid] s) \<and>
   psExecA drv ver path as s = serve (syscall_exec drv) (enter 7 [path, as] s) \<and>
   psKill drv ver pid s = serve syscall_kill (enter 27 [pid] s) \<and>
   psCount drv ver s = serve syscall_pscount (enter 28 [] s) \<and>
   psList drv ver lst sz s = serve syscall_pslist (enter 29 [lst, sz] s) \<and>
   psThreadFork drv ver s = serve syscall_tfork (enter 25 [] s) \<and>
   psGetEVar drv ver nm buf sz s = serve syscall_getenv (enter 12 [nm, buf, sz] s) \<and>
   psSetEVar drv ver nm val s = serve syscall_setenv (enter 13 [nm, val] s) \<and>
   psInterfaceCreate drv ver nm fl s = serve syscall_intfc (enter 20 [nm, fl] s) \<and>
   psInterfaceDelete drv ver nm s = serve syscall_intfd (enter 21 [nm] s) \<and>
   psInterfaceSend drv ver nm pid buf sz s = serve syscall_intfs (enter 22 [nm, pid, buf, sz] s) \<and>
   psInterfaceRecieveNB drv ver nm buf sz out s = serve syscall_intfr (enter 23 [nm, buf, sz, out] s) \<and>
   psInterfaceWait drv ver nm s = serve syscall_intfw (enter 24 [nm] s) \<and>
   fsList drv ver path buf sz dirs s = serve syscall_list (enter 17 [path, buf, sz, dirs] s) \<and>
   fsSize drv ver fd s = serve syscall_size (enter 9 [fd] s) \<and>
   chdir drv ver path s = serve syscall_chdir (enter 16 [path] s) \<and>
   write_call drv ver fd buf count s = serve (syscall_write drv) (enter 4 [fd, buf, count] s) \<and>
   sysSetPowerState drv ver state s = serve syscall_spstate (enter 26 [state] s) \<and>
   sysVersionN drv ver out sz s = serve (syscall_getver ver) (enter 15 [out, sz] s)"
  by (simp add: psWait_def psExecA_def psKill_def psCount_def psList_def psThreadFork_def psGetEVar_def psSetEVar_def
      psInterfaceCreate_def psInterfaceDelete_def psInterfaceSend_def psInterfaceRecieveNB_def psInterfaceWait_def
      fsList_def fsSize_def chdir_def write_call_def sysSetPowerState_def sysVersionN_def call_numbers)

subsection \<open>Closing and reading to the end\<close>

text \<open>What happens in between leaves the current process with its files and the file system alone.\<close>

definition undisturbed :: "(sys \<Rightarrow> sys) \<Rightarrow> bool" where
  "undisturbed gap \<longleftrightarrow> (\<forall>s. fsys (gap s) = fsys s \<and> cur_proc (ker (gap s)) = cur_proc (ker s) \<and> kmem_of (gap s) = kmem_of s)"

text \<open>
  \<open>close\<close> never reports success. When the kernel closes the file, the loop of \<open>close\<close> takes its 0 for
  not done and closes again, and the program gets \<open>-EBADF\<close> for a file that was open and now is closed.
\<close>

theorem close_reports_EBADF:
  assumes "3 \<le> sint fd" "cur_proc (ker s) = Inr p" "fd_entry p (sint fd - 3) = Inr (Some x)"
    "of_file x < length (vfiles (fsys s))" "undisturbed gap"
  shows "\<exists>s' p'. close_call drv version fd (gap # gap2 # gaps) s = Inr (Some (- EBADF), s') \<and>
    cur_proc (ker s') = Inr p' \<and> openfiles p' = (openfiles p)[nat (sint fd - 3) := None] \<and>
    vfiles (fsys s') = (vfiles (fsys s))[of_file x := (vfiles (fsys s) ! of_file x)\<lparr>f_open := f_open (vfiles (fsys s) ! of_file x) - 1\<rparr>]"
proof -
  let ?f = "call drv version 6 [fd]" and ?i = "sint fd - 3"
  let ?v = "fsys s\<lparr>vfiles := (vfiles (fsys s))[of_file x := (vfiles (fsys s) ! of_file x)\<lparr>f_open := f_open (vfiles (fsys s) ! of_file x) - 1\<rparr>]\<rparr>"
  let ?p = "p\<lparr>openfiles := (openfiles p)[nat ?i := None]\<rparr>"
  have i: "vfs_fd_is_open p ?i" "nat ?i < length (openfiles p)"
    using assms(3) by (auto simp: fd_entry_def aget_Inr split: if_splits)
  have call: "?f t = rbind (vfs_close ((ker t)\<lparr>kmode := False\<rparr>) (fsys t) ?i)
      (\<lambda>(r, k, v). Inr (sint (of_int r :: u32), set_kmode True (set_eax ((set_kmode False (enter 6 [fd] t))\<lparr>ker := k, fsys := v\<rparr>) (of_int r))))" for t
    using assms(1) by (simp add: call_numbers serve_def syscall_close_def Let_def rbind_assoc split_def)
  obtain k1 where k1: "vfs_close ((ker s)\<lparr>kmode := False\<rparr>) (fsys s) ?i = Inr (0, k1, ?v)" "cur_proc k1 = Inr ?p"
  proof
    have c: "cur_proc ((ker s)\<lparr>kmode := False\<rparr>) = Inr p" using assms(2) by simp
    show "vfs_close ((ker s)\<lparr>kmode := False\<rparr>) (fsys s) ?i = Inr (0, put_cur ?p ((ker s)\<lparr>kmode := False\<rparr>), ?v)"
      using c assms(3,4) i by (simp add: vfs_close_def upd_file_def file_at_def aset_ok)
    show "cur_proc (put_cur ?p ((ker s)\<lparr>kmode := False\<rparr>)) = Inr ?p" by (rule cur_proc_put_cur(1) [OF c])
  qed
  obtain s1 where s1: "?f s = Inr (0, s1)" "cur_proc (ker s1) = Inr ?p" "fsys s1 = ?v"
    using k1 by (simp add: call)
  have s2: "fsys (gap s1) = ?v" "cur_proc (ker (gap s1)) = Inr ?p" using assms(5) s1 by (simp_all add: undisturbed_def)
  have "fd_entry ?p ?i = Inr None" using i by (simp add: fd_entry_def vfs_fd_is_open_def aget_ok)
  then have "vfs_close ((ker (gap s1))\<lparr>kmode := False\<rparr>) (fsys (gap s1)) ?i = Inr (- EBADF, (ker (gap s1))\<lparr>kmode := False\<rparr>, fsys (gap s1))"
    using s2 by (simp add: vfs_close_def)
  then obtain s3 where "?f (gap s1) = Inr (- EBADF, s3)" "cur_proc (ker s3) = Inr ?p" "fsys s3 = ?v"
    using s2 by (simp add: call)
  then show ?thesis using s1(1) by (auto simp: close_call_def intro!: exI [of _ s3] exI [of _ ?p])
qed

lemma until_nonzero_stuck:
  assumes "P s" "\<And>t. P t \<Longrightarrow> \<exists>t'. f t = Inr (0, t') \<and> (\<forall>gap\<in>set gaps. P (gap t'))"
  shows "\<exists>s'. until_nonzero f gaps s = Inr (None, s')"
  using assms
proof (induction gaps arbitrary: s)
  case (Cons gap gaps)
  from Cons.prems obtain t' where t': "f s = Inr (0, t')" "P (gap t')" by fastforce
  have "\<exists>s'. until_nonzero f gaps (gap t') = Inr (None, s')"
    by (rule Cons.IH [OF t'(2)]) (use Cons.prems(2) in fastforce)
  with t'(1) show ?case by simp
qed simp

lemma read_nothing: "\<exists>s'. read_call drv version fd buf 0 gaps s = Inr (None, s')"
  unfolding read_call_def
  by (rule until_nonzero_stuck [where P = "\<lambda>_. True"]) (simp_all add: call_numbers serve_def syscall_read_def)

lemma vfat_end_of_file:
  assumes "bdev_at v bd = Inr b" "bd_mountpoint b = Some mi" "mount_at v mi = Inr m" "mp_extra m = FatExtra fi"
    "vfat_sectors_to_blocks (ucast (sectors_per_cluster (fatbs fi))) (fatbs fi) b = Inr n"
  shows "vfat_accessfile v bd False f buf len (f_size f) = Inr (0, [])"
  using assms by (simp add: vfat_accessfile_def fat_info_of_def)

text \<open>
  \<open>read\<close> never reports the end of a file. When the driver has nothing more to give, and answers 0, the
  loop of \<open>read\<close> calls again, however often, and the program hangs.
\<close>

theorem read_hangs_at_end:
  assumes "3 \<le> sint fd" "user_buffer_ok buf (clip_count count)" "cur_proc (ker s) = Inr p"
    "fd_entry p (sint fd - 3) = Inr (Some x)" "file_at (fsys s) (of_file x) = Inr f" "mount_at (fsys s) (f_volume f) = Inr m"
    "fs_accessfile (drv (of_fsdriver x)) (fsys s) (mp_bd m) False f [] (clip_count count) (of_loc x) = Inr (0, [])"
    "\<forall>gap\<in>set gaps. undisturbed gap"
  shows "\<exists>s'. read_call drv version fd buf count gaps s = Inr (None, s')"
proof (cases "count = 0")
  case True
  then show ?thesis by (simp add: read_nothing)
next
  case count: False
  let ?P = "\<lambda>t. cur_proc (ker t) = Inr p \<and> fsys t = fsys s"
  show ?thesis unfolding read_call_def
  proof (rule until_nonzero_stuck [where P = ?P])
    fix t :: sys assume t: "?P t"
    have tab: "openfiles p ! nat (sint fd - 3) = Some x" "nat (sint fd - 3) < length (openfiles p)"
      using assms(4) by (auto simp: fd_entry_def aget_Inr split: if_splits)
    have same: "aset ''openfiles'' (openfiles p) (nat (sint fd - 3)) (Some x) = Inr (openfiles p)"
      using tab by (simp add: aset_ok list_update_same_conv)
    have "vfs_read drv ((ker t)\<lparr>kmode := False\<rparr>) (fsys t) (sint fd - 3) (clip_count count) =
        Inr (0, [], put_cur p ((ker t)\<lparr>kmode := False\<rparr>))"
      using t by (simp add: vfs_read_def access_open_def assms(4-7) same)
    moreover have "cur_proc (put_cur p ((ker t)\<lparr>kmode := False\<rparr>)) = Inr p" using t by (intro cur_proc_put_cur(1)) simp
    moreover have "\<not> sint fd - 3 < INT_MIN" using assms(1) by (simp add: INT_MIN_def)
    ultimately show "\<exists>t'. call drv version 3 [fd, buf, count] t = Inr (0, t') \<and> (\<forall>gap\<in>set gaps. ?P (gap t'))"
      using count assms(1,2,8) t
      by (simp add: call_numbers serve_def syscall_read_def Let_def put_slice_def read_copy_def undisturbed_def)
  qed (use assms in simp)
qed

definition demo_open :: sys where
  "demo_open = demo_sys\<lparr>fsys := demo_fat_vfs (replicate 2048 NUL),
     ker := put_cur ((demo_process 1 3)\<lparr>openfiles := [Some \<lparr>of_file = 0, of_fsdriver = 0, of_loc = 600, of_flags = 1, of_id = 0\<rparr>],
       openfiles_loc := 1\<rparr>) demo\<rparr>"

lemma demo_open_proc:
  "\<exists>p. cur_proc (ker demo_open) = Inr p \<and> openfiles p = [Some \<lparr>of_file = 0, of_fsdriver = 0, of_loc = 600, of_flags = 1, of_id = 0\<rparr>] \<and>
    openfiles_loc p = 1"
  by (auto simp: demo_open_def demo_sys_def cur_proc_def put_cur_def proc_Inr demo_def put_proc_def last_pid_def nth_Cons')

lemma demo_open_fsys: "fsys demo_open = demo_fat_vfs (replicate 2048 NUL)"
  by (simp add: demo_open_def)

lemma undisturbed_id: "undisturbed (\<lambda>s. s)"
  by (simp add: undisturbed_def)

lemma close_reports_EBADF_witness:
  "\<exists>s' p'. close_call (\<lambda>_. undefined) ''1'' 3 [\<lambda>s. s, \<lambda>s. s] demo_open = Inr (Some (- EBADF), s') \<and>
    cur_proc (ker s') = Inr p' \<and> openfiles p' = [None]"
proof -
  from demo_open_proc obtain p where p: "cur_proc (ker demo_open) = Inr p"
    "openfiles p = [Some \<lparr>of_file = 0, of_fsdriver = 0, of_loc = 600, of_flags = 1, of_id = 0\<rparr>]" "openfiles_loc p = 1" by blast
  have "fd_entry p (sint (3 :: u32) - 3) = Inr (Some \<lparr>of_file = 0, of_fsdriver = 0, of_loc = 600, of_flags = 1, of_id = 0\<rparr>)"
    using p by (simp add: fd_entry_def vfs_fd_is_open_def aget_ok)
  from close_reports_EBADF [OF _ p(1) this _ undisturbed_id, of "\<lambda>_. undefined" "''1''" "\<lambda>s. s" "[]"] p(2)
  show ?thesis by (fastforce simp: demo_open_fsys demo_fat_vfs_def)
qed

lemma read_hangs_at_end_witness:
  "\<exists>s'. read_call (\<lambda>_. vfat_vfsdrvinfo 10) ''1'' 3 0x08000000 16 (replicate 9 (\<lambda>s. s)) demo_open = Inr (None, s')"
proof -
  let ?v = "demo_fat_vfs (replicate 2048 NUL)"
  let ?m = "\<lparr>mp_name = ''cd'', mp_bd = 0, mp_fs = 0, mp_root = 0, mp_extra = FatExtra demo_fat, mp_rw = False\<rparr>"
  from demo_open_proc obtain p where p: "cur_proc (ker demo_open) = Inr p"
    "openfiles p = [Some \<lparr>of_file = 0, of_fsdriver = 0, of_loc = 600, of_flags = 1, of_id = 0\<rparr>]" "openfiles_loc p = 1" by blast
  have e: "fd_entry p (sint (3 :: u32) - 3) = Inr (Some \<lparr>of_file = 0, of_fsdriver = 0, of_loc = 600, of_flags = 1, of_id = 0\<rparr>)"
    using p by (simp add: fd_entry_def vfs_fd_is_open_def aget_ok)
  have v: "file_at ?v 0 = Inr demo_fat_file" "mount_at ?v 0 = Inr ?m" "bdev_at ?v 0 = Inr (rdisk_dev (replicate 2048 NUL) ''rd0'' 0)"
    by (simp_all add: file_at_def mount_at_def bdev_at_def demo_fat_vfs_def)
  have "vfat_accessfile ?v 0 False demo_fat_file [] (clip_count 16) (f_size demo_fat_file) = Inr (0, [])"
    by (rule vfat_end_of_file [OF v(3) _ v(2)])
      (simp_all add: rdisk_dev_def vfat_sectors_to_blocks_def demo_fat_def div_by_def round_up_integer_def)
  then have d: "fs_accessfile (vfat_vfsdrvinfo 10) ?v 0 False demo_fat_file [] (clip_count 16) 600 = Inr (0, [])"
    by (simp add: vfat_vfsdrvinfo_def demo_fat_file_def)
  have "user_buffer_ok 0x08000000 (clip_count 16)"
    by (simp add: user_buffer_ok_def clip_count_def MAX_SYSCALL_IO_SIZE_def KERNEL_START_def word_le_nat_alt)
  from read_hangs_at_end [OF _ this p(1) e, of demo_fat_file ?m "\<lambda>_. vfat_vfsdrvinfo 10" "replicate 9 (\<lambda>s. s)" "''1''"] v d
  show ?thesis by (simp add: demo_open_fsys undisturbed_id demo_fat_file_def)
qed

subsection \<open>Environment variables\<close>

lemma kstrdup_errors: "kstrdup_user m a mx = Inl err \<Longrightarrow> err = - ENAMETOOLONG \<or> err = - EFAULT"
  using safelen_result [of m a mx "fst (safelen_max_err m a mx)" "snd (safelen_max_err m a mx)"]
  by (auto simp: kstrdup_user_def split: prod.splits if_splits option.splits)

lemma setenv_results:
  assumes "syscall_setenv s = Inr (r, s1)"
  shows "- 100 < r \<and> r \<le> 0"
proof (cases "kstrdup_user (kmem_of s) (arg s 0) MAX_ENV_NAME_SIZE")
  case (Inl err)
  then show ?thesis using assms kstrdup_errors [OF Inl] by (auto simp: syscall_setenv_def)
next
  case (Inr nm)
  obtain n err where n: "safelen_max_err (kmem_of s) (arg s 1) (MAX_ENV_VALUE_SIZE + 1) = (n, err)" by fastforce
  then have "n = -1 \<longrightarrow> err = - ENAMETOOLONG \<or> err = - EFAULT" using safelen_result by fastforce
  with assms Inr n show ?thesis
    by (auto simp: syscall_setenv_def Let_def rbind_eq_Inr split: if_splits option.splits)
qed

lemma psSetEVar_effect:
  assumes "psSetEVar drv version nm val s = Inr (0, s1)" "kstrdup_user (kmem_of s) nm MAX_ENV_NAME_SIZE = Inr n"
    "CHR ''='' \<notin> set n" "cur_proc (ker s) = Inr p"
  shows "\<exists>p1 v. cur_proc (ker s1) = Inr p1 \<and> kmem_of s1 = kmem_of s \<and> env_value (environ p1) n = Some v \<and>
    safelen_max_err (kmem_of s) val (MAX_ENV_VALUE_SIZE + 1) = (int (length v), 0) \<and>
    safecpy_from_user (kmem_of s) val (of_nat (length v)) = Some v"
proof -
  let ?e = "set_kmode False (enter 13 [nm, val] s)"
  from assms(1) obtain r s2 where s2: "syscall_setenv ?e = Inr (r, s2)" "sint (of_int r :: u32) = 0"
    "s1 = set_kmode True (set_eax s2 (of_int r))"
    by (auto simp: psSetEVar_def call_numbers serve_def rbind_eq_Inr)
  have "- 100 < r \<and> r \<le> 0" by (rule setenv_results [OF s2(1)])
  moreover from this have "sint (of_int r :: u32) = r" by (simp add: signed_of_int signed_take_bit_int_eq_self)
  ultimately have "r = 0" using s2(2) by simp
  with s2(1) have "syscall_setenv ?e = Inr (0, s2)" by simp
  from setenv_effect [OF this, of n p] assms(2-4) show ?thesis
    by (auto simp: s2(3) kmem_of_def)
qed

lemma user_string_unique:
  assumes "safecpy_from_user m a (of_nat (Suc (length v))) = Some (v @ [NUL])" "NUL \<notin> set v" "length v + 1 < 4294967296"
    "safelen_max_err m a mx = (int (length w), 0)" "safecpy_from_user m a (of_nat (length w)) = Some w"
  shows "w = v"
proof -
  have len: "unat (of_nat (Suc (length v)) :: u32) = Suc (length v)" unfolding unat_of_nat using assms(3) by simp
  then have "(of_nat (Suc (length v)) :: u32) \<noteq> 0" by (metis unat_0 nat.distinct(1))
  with assms(1) have v: "\<forall>i<Suc (length v). vread8 m (a + of_nat i) = Some ((v @ [NUL]) ! i)"
    unfolding safecpy_from_user_Some len by blast
  have "vread8 m (a + of_nat i) = Some (v ! i) \<and> v ! i \<noteq> NUL" if "i < length v" for i
  proof
    show "vread8 m (a + of_nat i) = Some (v ! i)" using v [rule_format, of i] that by (simp add: nth_append)
    show "v ! i \<noteq> NUL" using nth_mem [OF that] assms(2) by metis
  qed
  moreover have "vread8 m (a + of_nat (length v)) = Some NUL" using v [rule_format, of "length v"] by simp
  ultimately have "user_len m a (length v)" by (simp add: user_len_def)
  moreover have "user_len m a (length w)" using assms(4) unfolding safelen_Some by blast
  ultimately have lw: "length w = length v" by (rule user_len_unique [symmetric])
  have "w ! i = v ! i" if "i < length w" for i
  proof -
    have "unat (of_nat (length w) :: u32) = length w" using assms(3) lw by (simp add: unat_of_nat)
    then have "vread8 m (a + of_nat i) = Some (w ! i)" using assms(5) that unfolding safecpy_from_user_Some by auto
    then show ?thesis using v [rule_format, of i] that lw by (simp add: nth_append)
  qed
  with lw show ?thesis by (rule nth_equalityI)
qed

text \<open>
  C23: What a program puts into its environment with \<open>psSetEVar\<close> it gets back with \<open>psGetEVar\<close>, byte for byte
  with the terminator, in any buffer of its own with room for it, whatever other threads did in between
  without touching the process or its memory.
\<close>

theorem psEVar_roundtrip:
  assumes "psSetEVar drv version nm val s = Inr (0, s1)" "kstrdup_user (kmem_of s) nm MAX_ENV_NAME_SIZE = Inr n"
    "CHR ''='' \<notin> set n" "cur_proc (ker s) = Inr p" "safecpy_from_user (kmem_of s) val (of_nat (Suc (length v))) = Some (v @ [NUL])"
    "NUL \<notin> set v" "undisturbed gap" "user_isolated (kmem_of s)"
    "unat buf + length v + 1 \<le> unat KERNEL_START" "length v + 1 \<le> unat sz"
    "\<forall>i\<le>length v. walk (kmem_of s) 3 (buf + of_nat i) = Some (f i)" "inj_on f {..length v}"
  shows "\<exists>s2. psGetEVar drv version nm buf sz (gap s1) = Inr (0, s2) \<and>
    safecpy_from_user (kmem_of s2) buf (of_nat (Suc (length v))) = Some (v @ [NUL])"
proof -
  from psSetEVar_effect [OF assms(1-4)] obtain p1 w where p1: "cur_proc (ker s1) = Inr p1" "kmem_of s1 = kmem_of s"
    "env_value (environ p1) n = Some w"
    and w: "safelen_max_err (kmem_of s) val (MAX_ENV_VALUE_SIZE + 1) = (int (length w), 0)"
      "safecpy_from_user (kmem_of s) val (of_nat (length w)) = Some w" by blast
  have "w = v"
    by (rule user_string_unique [OF assms(5,6) _ w]) (use assms(10) unat_u32_less [of sz] in linarith)
  let ?g = "set_kmode False (enter 12 [nm, buf, sz] (gap s1))"
  have g: "cur_proc (ker ?g) = Inr p1" "kmem_of ?g = kmem_of s" using assms(7) p1 by (simp_all add: undisturbed_def)
  obtain m' where m': "safecpy_to_user (kmem_of s) buf (v @ [NUL]) = (0, m')"
    "safecpy_from_user m' buf (of_nat (length (v @ [NUL]))) = Some (v @ [NUL])"
    using safecpy_roundtrip [OF assms(8), of buf "v @ [NUL]" f] assms(9,11,12) by (auto simp: less_Suc_eq_le lessThan_Suc_atMost)
  have "syscall_getenv ?g = Inr (0, ?g\<lparr>ker := (ker ?g)\<lparr>kmem := m'\<rparr>\<rparr>)"
    using getenv_value [of ?g n p1 v] g p1(3) assms(2,10) m'(1) by (simp add: \<open>w = v\<close> to_user_def g(2) [simplified])
  then show ?thesis using m'(2) by (simp add: psGetEVar_def call_numbers serve_def kmem_of_def set_eax_def set_kmode_def)
qed

lemma env_mem_tables:
  "walk env_mem 3 va = walk run_mem 3 va" "user_isolated env_mem"
proof -
  have cr: "cr3 env_mem = cr3 run_mem" by (simp add: env_mem_def)
  have "frame a \<noteq> 0x6000" if "table_frame run_mem (frame a)" for a using run_mem_table_frame [OF that] by auto
  moreover have "frame 0x6000 = 0x6000" by (simp add: frame_def)
  ultimately have same: "phys env_mem a = phys run_mem a" if "table_frame run_mem (frame a)" for a
    using that by (auto simp: env_mem_def)
  note w = walk_frames [OF cr same]
  show "walk env_mem 3 va = walk run_mem 3 va" for va by (rule w(2)) simp_all
  moreover have "table_frame env_mem f = table_frame run_mem f" for f using w(1) cr by (auto simp: table_frame_def)
  ultimately show "user_isolated env_mem" using run_mem_isolated by (simp add: user_isolated_def)
qed

lemma psEVar_roundtrip_witness:
  "\<exists>s1 s2. psSetEVar (\<lambda>_. undefined) ''1'' 0x08000000 0x08000002 env_sys = Inr (0, s1) \<and>
    psGetEVar (\<lambda>_. undefined) ''1'' 0x08000000 0x08000010 16 s1 = Inr (0, s2) \<and>
    safecpy_from_user (kmem_of s2) 0x08000010 2 = Some [CHR ''b'', NUL]"
proof -
  have "user_len env_mem 0x08000002 1" by (simp add: user_len_def env_bytes)
  then have len: "safelen_max_err env_mem 0x08000002 (MAX_ENV_VALUE_SIZE + 1) = (int 1, 0)"
    unfolding safelen_Some by (simp add: KERNEL_START_def MAX_ENV_VALUE_SIZE_def)
  have data: "safecpy_from_user env_mem 0x08000002 1 = Some [CHR ''b'']"
    unfolding safecpy_from_user_Some by (auto simp: KERNEL_START_def env_bytes)
  have data2: "safecpy_from_user env_mem 0x08000002 (of_nat (Suc (length ''b''))) = Some (''b'' @ [NUL])"
    unfolding safecpy_from_user_Some by (auto simp: KERNEL_START_def env_bytes less_2_cases_iff)
  obtain s1 where s1: "psSetEVar (\<lambda>_. undefined) ''1'' 0x08000000 0x08000002 env_sys = Inr (0, s1)"
    by (simp add: psSetEVar_def call_numbers serve_def syscall_setenv_def env_name len data MAX_ENVIRON_VARS_def upd_cur_def
        demo_process_def)
  have w: "\<forall>i\<le>length ''b''. walk (kmem_of env_sys) 3 (0x08000010 + of_nat i) = Some (0x6010 + of_nat i)"
  proof -
    have "walk run_mem 3 0x08000010 = Some 0x6010" "walk run_mem 3 0x08000011 = Some 0x6011" by (simp_all add: eval_mem)
    then show ?thesis by (auto simp: env_mem_tables le_Suc_eq)
  qed
  have "inj_on (\<lambda>i. 0x6010 + of_nat i :: u32) {..length ''b''}" by (auto simp: inj_on_def le_Suc_eq)
  from psEVar_roundtrip [OF s1 _ _ env_sys_simps(4) data2 [folded env_sys_simps(3)] _ undisturbed_id _ _ _ w this, of "''A''" 16]
  show ?thesis using s1 env_name env_mem_tables(2) by (simp add: KERNEL_START_def)
qed

end
