(* ===== verification/Programs.thy ===== *)
theory Programs
  imports Gsh UserLib
begin

section \<open>The other programs\<close>

text \<open>
  \<open>init\<close> with its power management thread (\<open>userland/bin/init\<close>), the client side of it
  (\<open>userland/lib/usercom\<close>, \<open>powerctl\<close>), and \<open>ls\<close>, \<open>cat\<close>, \<open>kill\<close> and \<open>ver\<close>. As for the shell, the calls into
  the system are a record of functions, with strings and lists where the calls pass addresses, and
  \<open>printf\<close> is given by the text of its format.
\<close>

text \<open>
  \<open>l_read\<close> gives the bytes that were stored, \<open>l_receive\<close> the result of the call and the bytes of the message,
  at most as many as asked for.
\<close>

record 's lib =
  l_print :: "string \<Rightarrow> 's \<Rightarrow> 's"
  l_version :: "'s \<Rightarrow> string \<times> 's"
  l_chdir :: "string \<Rightarrow> 's \<Rightarrow> 's"
  l_getcwd :: "'s \<Rightarrow> string \<times> 's"
  l_open :: "string \<Rightarrow> 's \<Rightarrow> int \<times> 's"
  l_size :: "int \<Rightarrow> 's \<Rightarrow> int \<times> 's"
  l_read :: "int \<Rightarrow> nat \<Rightarrow> 's \<Rightarrow> string \<times> 's"
  l_close :: "int \<Rightarrow> 's \<Rightarrow> 's"
  l_list :: "string \<Rightarrow> bool \<Rightarrow> 's \<Rightarrow> (int \<times> string) \<times> 's"
  l_setvar :: "string \<Rightarrow> string \<Rightarrow> 's \<Rightarrow> 's"
  l_exec :: "string \<Rightarrow> string list \<Rightarrow> 's \<Rightarrow> int \<times> 's"
  l_wait :: "int \<Rightarrow> 's \<Rightarrow> 's"
  l_count :: "'s \<Rightarrow> int \<times> 's"
  l_pids :: "nat \<Rightarrow> 's \<Rightarrow> int list \<times> 's"
  l_kill :: "int \<Rightarrow> 's \<Rightarrow> int \<times> 's"
  l_create :: "string \<Rightarrow> nat \<Rightarrow> 's \<Rightarrow> 's"
  l_send :: "string \<Rightarrow> int \<Rightarrow> string \<Rightarrow> 's \<Rightarrow> int \<times> 's"
  l_receive :: "string \<Rightarrow> nat \<Rightarrow> 's \<Rightarrow> (int \<times> string) \<times> 's"
  l_power :: "int \<Rightarrow> 's \<Rightarrow> int \<times> 's"

definition nl :: string where "nl = [CHR 0x0A]"

subsection \<open>\<open>init\<close>\<close>

text \<open>
  A file as a string: \<open>None\<close> when it cannot be opened. The block of \<open>malloc\<close> holds \<open>block\<close>; \<open>read\<close> may
  store less than the size.
\<close>

definition read_config :: "'s lib \<Rightarrow> (nat \<Rightarrow> string) \<Rightarrow> string \<Rightarrow> 's \<Rightarrow> (string option \<times> 's) res" where
  "read_config lib block path s =
     (let (fd, s) = l_open lib path s in
      if fd < 0 then Inr (None, s)
      else
        let (sz, s) = l_size lib fd s; buf = block (nat (sz + 1)) in
        if sz < 0 then Inl (Fault ''malloc'')
        else
          let (data, s) = l_read lib fd (nat sz) s in
          rbind (put_slice buf 0 data) (\<lambda>buf.
          let s = l_close lib fd s in
          rbind (aset ''config'' buf (nat sz) NUL) (\<lambda>buf. Inr (Some buf, s))))"

text \<open>
  \<open>main\<close> up to the fork. The result is the path of the shell, or \<open>None\<close> for the return value -1.
\<close>

definition init_start :: "'s lib \<Rightarrow> (nat \<Rightarrow> string) \<Rightarrow> string list \<Rightarrow> 's \<Rightarrow> (string option \<times> 's) res" where
  "init_start lib block av s =
     (if length av \<noteq> 1 then Inr (None, l_print lib (''init must be ran by the kernel'' @ nl) s)
      else if av ! 0 \<noteq> [] then Inr (None, l_print lib (''init must be ran by the kernel'' @ nl) s)
      else
        let (ver, s) = l_version lib s;
            s = l_print lib (nl @ ''Welcome to '' @ ver @ nl @ nl) s;
            s = l_chdir lib ''local:'' s in
        rbind (read_config lib block ''local:galaxyos/config/cmdline'' s) (\<lambda>(shpath, s).
        if shpath = None then Inr (None, s)
        else
          rbind (read_config lib block ''local:galaxyos/config/path'' s) (\<lambda>(pathvar, s).
          case pathvar of None \<Rightarrow> Inr (None, s)
          | Some pathvar \<Rightarrow>
              let s = l_print lib (''init: setting path variable'' @ nl) s;
                  s = l_setvar lib ''PATH'' (cstr pathvar) s;
                  s = l_print lib (''init: starting confsrv'' @ nl) s;
                  (_, s) = l_exec lib ''local:galaxyos/i386/confsrv.elf'' [''confsrv.elf''] s in
              Inr (map_option cstr shpath, l_print lib (''init: starting power management thread'' @ nl) s))))"

text \<open>
  One round of the loop around the shell. \<open>teardown\<close> is read after the wait, from the state: it is the other
  thread that sets it. False: the thread ends.
\<close>

definition shell_round :: "'s lib \<Rightarrow> ('s \<Rightarrow> int) \<Rightarrow> string \<Rightarrow> 's \<Rightarrow> bool \<times> 's" where
  "shell_round lib teardown shpath s =
     (let (pid, s) = l_exec lib shpath [shpath] s;
          s = (if pid = -1 then l_print lib (''psExecA() failed'' @ nl) s else s);
          s = l_wait lib pid s in
      if teardown s = 1 then (False, s)
      else (True, l_print lib (''init: shell died, starting it again'' @ nl) s))"

subsection \<open>Power management\<close>

definition sys_power :: string where "sys_power = ''sys:power''"

text \<open>Waiting for the processes to go: every element of \<open>gaps\<close> is what happens after one more look.\<close>

primrec wait_count :: "'s lib \<Rightarrow> ('s \<Rightarrow> 's) list \<Rightarrow> 's \<Rightarrow> 's option" where
  "wait_count lib [] s = None"
| "wait_count lib (gap # gaps) s =
     (let (n, s) = l_count lib s in if n \<noteq> 3 then wait_count lib gaps (gap s) else Some s)"

definition kill_listed :: "'s lib \<Rightarrow> int list \<Rightarrow> 's \<Rightarrow> 's" where
  "kill_listed lib pids s =
     fold (\<lambda>pid s. if pid > 2 then snd (l_kill lib pid (l_print lib (''killed '' @ dec pid @ nl) s)) else s) pids s"

text \<open>\<open>set_teardown\<close> is the assignment to the variable that both threads share. The answer is the byte 0.\<close>

definition init_reboot :: "'s lib \<Rightarrow> ('s \<Rightarrow> 's) \<Rightarrow> ('s \<Rightarrow> 's) list \<Rightarrow> int \<Rightarrow> 's \<Rightarrow> (int \<times> 's) option" where
  "init_reboot lib set_teardown gaps sender s =
     (let s = l_print lib (''init: rebooting now'' @ nl) s;
          s = set_teardown s;
          (n, s) = l_count lib s;
          (pids, s) = l_pids lib (nat n) s;
          (_, s) = l_send lib sys_power sender [NUL] s;
          s = kill_listed lib pids s in
      map_option (l_power lib 2) (wait_count lib gaps s))"

text \<open>The first byte of the \<open>int\<close> is the message.\<close>

definition power_answer :: "'s lib \<Rightarrow> int \<Rightarrow> int \<Rightarrow> 's \<Rightarrow> 's" where
  "power_answer lib sender ret s = snd (l_send lib sys_power sender (take 1 (bytes32 (word_of_int ret))) s)"

text \<open>
  One round of the thread; \<open>buf\<close> is its array of 256 bytes, which keeps what earlier messages left.
\<close>

definition power_round ::
  "'s lib \<Rightarrow> ('s \<Rightarrow> 's) \<Rightarrow> ('s \<Rightarrow> 's) list \<Rightarrow> string \<Rightarrow> 's \<Rightarrow> (string \<times> 's) option res" where
  "power_round lib set_teardown gaps buf s =
     (let ((sender, data), s) = l_receive lib sys_power 256 s in
      if sender < 0 then Inr (Some (buf, s))
      else
        rbind (put_slice buf 0 data) (\<lambda>buf.
        rbind (strncmp buf (''shutdown'' @ [NUL]) 256) (\<lambda>c.
        if c = 0 then Inr (Some (buf, power_answer lib sender (- ENOSYS) s))
        else
          rbind (strncmp buf (''reboot'' @ [NUL]) 256) (\<lambda>c.
          if c = 0 then Inr (map_option (\<lambda>(_, s). (buf, s)) (init_reboot lib set_teardown gaps sender s))
          else Inr (Some (buf, power_answer lib sender (- ENOSYS) s))))))"

text \<open>Before its loop, the thread makes the interface, which is private.\<close>

definition power_start :: "'s lib \<Rightarrow> 's \<Rightarrow> 's" where
  "power_start lib s = l_create lib sys_power 1 s"

subsection \<open>The clients\<close>

text \<open>The answer is read into the first byte of a zeroed \<open>int\<close>.\<close>

definition power_request :: "'s lib \<Rightarrow> string \<Rightarrow> 's \<Rightarrow> int \<times> 's" where
  "power_request lib msg s =
     (let (rval, s) = l_send lib sys_power 0 msg s in
      if rval < 0 then (rval, s)
      else
        let ((rval, data), s) = l_receive lib sys_power 1 s in
        if rval < 0 then (rval, s)
        else (case take 1 data of [] \<Rightarrow> 0 | b # _ \<Rightarrow> int (of_char b), s))"

definition powerShutdown :: "'s lib \<Rightarrow> 's \<Rightarrow> int \<times> 's" where
  "powerShutdown lib s = power_request lib (''shutdown'' @ [NUL]) s"

definition powerReboot :: "'s lib \<Rightarrow> 's \<Rightarrow> int \<times> 's" where
  "powerReboot lib s = power_request lib (''reboot'' @ [NUL]) s"

definition powerctl :: "'s lib \<Rightarrow> string list \<Rightarrow> 's \<Rightarrow> int \<times> 's" where
  "powerctl lib av s =
     (if length av < 2 then
        (0, l_print lib ''  reboot   - reboot machine'' (l_print lib ''  shutdown - power off machine''
          (l_print lib ''valid commands:'' (l_print lib (''usage: powerctl <command>'' @ nl) s))))
      else if av ! 1 = ''shutdown'' then
        (let (r, s) = powerShutdown lib s in
         (0, if r = - ENOENT then l_print lib (''powerctl: shutdown operation failed, interface does not exist'' @ nl) s else s))
      else if av ! 1 = ''reboot'' then
        (let (r, s) = powerReboot lib s in
         (0, if r = - ENOENT then l_print lib (''powerctl: reboot operation failed, interface does not exist'' @ nl) s else s))
      else (0, s))"

subsection \<open>Small programs\<close>

text \<open>The names of a listing, with a blank after each; \<open>n\<close> bounds the loop over \<open>strtok\<close>.\<close>

definition print_names :: "'s lib \<Rightarrow> string \<Rightarrow> string \<Rightarrow> 's \<Rightarrow> 's res" where
  "print_names lib label txt s =
     (let s = l_print lib label s in
      rbind (token_loop (Suc (length txt)) txt (Some 0) [CHR 0x0A, NUL] 0) (\<lambda>names.
      Inr (l_print lib nl (fold (\<lambda>nm. l_print lib (nm @ '' '')) names s))))"

definition ls :: "'s lib \<Rightarrow> string list \<Rightarrow> 's \<Rightarrow> 's res" where
  "ls lib av s =
     (let (dir, s) = (if length av > 1 then (av ! 1, s) else l_getcwd lib s);
          ((dirs, dirbuf), s) = l_list lib dir True s;
          ((files, fbuf), s) = l_list lib dir False s in
      rbind (if dirs \<noteq> 0 then print_names lib ''dirs: '' dirbuf s else Inr s) (\<lambda>s.
      if files \<noteq> 0 then print_names lib ''files: '' fbuf s else Inr s))"

text \<open>The contents of the file are the format of \<open>printf\<close>: \<open>fmt\<close> is the text it makes of them.\<close>

definition cat :: "'s lib \<Rightarrow> (nat \<Rightarrow> string) \<Rightarrow> (string \<Rightarrow> string) \<Rightarrow> string list \<Rightarrow> 's \<Rightarrow> (int \<times> 's) res" where
  "cat lib block fmt av s =
     (if length av > 1 then
        rbind (read_config lib block (av ! 1) s) (\<lambda>(data, s).
        case data of None \<Rightarrow> Inr (-1, l_print lib (''cat: failed to open file'' @ nl) s)
        | Some data \<Rightarrow> Inr (0, l_print lib nl (l_print lib (fmt (cstr data)) s)))
      else Inr (-1, l_print lib (''cat: not enough arguments'' @ nl) s))"

definition kill_main :: "'s lib \<Rightarrow> string list \<Rightarrow> 's \<Rightarrow> (int \<times> 's) res" where
  "kill_main lib av s =
     (if length av < 2 then Inr (0, l_print lib (''kill: not enough arguments'' @ nl) s)
      else
        rbind (atoi (av ! 1 @ [NUL])) (\<lambda>pid.
        let (r, s) = l_kill lib pid s;
            s = (if r = - ESRCH then l_print lib (''kill: no such process'' @ nl) s else s);
            s = (if r = - EINVAL then l_print lib (''kill: invalid argument'' @ nl) s else s);
            s = (if r = - EACCES then l_print lib (''kill: no permission'' @ nl) s else s) in
        Inr (r, s)))"

definition ver :: "'s lib \<Rightarrow> 's \<Rightarrow> 's" where
  "ver lib s = (let (v, s) = l_version lib s in l_print lib (v @ nl) s)"

subsection \<open>Requests\<close>

lemma strncmp_total: "terminated s \<Longrightarrow> terminated t \<Longrightarrow> \<exists>r. strncmp s t n = Inr r"
  by (induction s t n rule: strncmp.induct) auto

text \<open>
  C26: What the power management thread does with a request: a message with its terminator that is exactly
  \<open>reboot\<close> makes it tear the system down; \<open>shutdown\<close> and everything else is answered with the first byte
  of \<open>-ENOSYS\<close>, whatever was in its buffer before.
\<close>

theorem power_round_requests:
  assumes "l_receive lib sys_power 256 s = ((sender, cmd @ [NUL]), s1)" "0 \<le> sender" "NUL \<notin> set cmd" "length cmd < 256"
    "length buf = 256"
  shows "power_round lib set_teardown gaps buf s =
    (let buf' = cmd @ NUL # drop (length cmd + 1) buf in
     Inr (if cmd = ''reboot'' then map_option (\<lambda>(_, s). (buf', s)) (init_reboot lib set_teardown gaps sender s1)
          else Some (buf', power_answer lib sender (- ENOSYS) s1)))"
proof -
  let ?b = "cmd @ NUL # drop (length cmd + 1) buf"
  have put: "put_slice buf 0 (cmd @ [NUL]) = Inr ?b" using assms(4,5) by (simp add: put_slice_def)
  have b: "terminated ?b" "cstr ?b = cmd" using assms(3) by (simp_all add: cstr_stop)
  have cmp: "\<exists>r. strncmp ?b (w @ [NUL]) 256 = Inr r \<and> (r = 0 \<longleftrightarrow> cmd = w)" if "NUL \<notin> set w" "length w < 256" for w
  proof -
    have w: "terminated (w @ [NUL])" "cstr (w @ [NUL]) = w" using that(1) by (simp_all add: cstr_stop)
    from strncmp_total [OF b(1) w(1), of 256] obtain r where r: "strncmp ?b (w @ [NUL]) 256 = Inr r" by blast
    then have "r = 0 \<longleftrightarrow> cmd = w" using strncmp_eq_0 [OF b(1) w(1), of 256] b(2) w(2) assms(4) that(2) by simp
    with r show ?thesis by blast
  qed
  from cmp [of "''shutdown''"] obtain r1 where r1: "strncmp ?b (''shutdown'' @ [NUL]) 256 = Inr r1" "r1 = 0 \<longleftrightarrow> cmd = ''shutdown''" by auto
  from cmp [of "''reboot''"] obtain r2 where r2: "strncmp ?b (''reboot'' @ [NUL]) 256 = Inr r2" "r2 = 0 \<longleftrightarrow> cmd = ''reboot''" by auto
  have "\<not> sender < 0" using assms(2) by simp
  then show ?thesis
    by (auto simp only: power_round_def assms(1) Let_def prod.case if_False put rbind_Inr r1 r2 split: if_split)
qed

text \<open>
  The client cannot learn that its request was refused: it makes room for one byte of the answer and
  zeroes the rest, so the refusal \<open>-ENOSYS\<close> of the power management thread arrives as 255, which is no
  error.
\<close>

lemma power_refusal_lost:
  assumes "l_send lib sys_power 0 msg s = (0, s1)"
    "l_receive lib sys_power 1 s1 = ((server, take 1 (bytes32 (word_of_int (- ENOSYS)))), s2)" "0 \<le> server"
  shows "power_request lib msg s = (255, s2)"
proof -
  have "take 1 (bytes32 (word_of_int (- ENOSYS))) = [char_of (255 :: nat)]" 
    by (simp add: bytes32_def get_byte_def unsigned_minus_1_eq_mask mask_eq_exp_minus_1)
  then show ?thesis using assms by (simp add: power_request_def)
qed

text \<open>A system with one interface, whose queue is the state.\<close>

definition demo_lib :: "(int \<times> string) list lib" where
  "demo_lib = \<lparr>l_print = \<lambda>_ s. s, l_version = \<lambda>s. (''1'', s), l_chdir = \<lambda>_ s. s, l_getcwd = \<lambda>s. ([], s), l_open = \<lambda>_ s. (-1, s),
     l_size = \<lambda>_ s. (-1, s), l_read = \<lambda>_ _ s. ([], s), l_close = \<lambda>_ s. s, l_list = \<lambda>_ _ s. ((0, []), s), l_setvar = \<lambda>_ _ s. s,
     l_exec = \<lambda>_ _ s. (-1, s), l_wait = \<lambda>_ s. s, l_count = \<lambda>s. (3, s), l_pids = \<lambda>_ s. ([], s), l_kill = \<lambda>_ s. (0, s),
     l_create = \<lambda>_ _ s. s, l_send = \<lambda>_ pid msg s. (0, s @ [(pid, msg)]),
     l_receive = \<lambda>_ n s. ((2, take n (snd (hd s))), tl s), l_power = \<lambda>_ s. (- EACCES, s)\<rparr>"

lemma power_round_requests_witness:
  "power_round demo_lib (\<lambda>s. s) [] (replicate 256 NUL) [(0, ''off'' @ [NUL])] =
     Inr (Some (''off'' @ NUL # replicate 252 NUL, [(2, take 1 (bytes32 (word_of_int (- ENOSYS))))]))"
proof -
  have "l_receive demo_lib sys_power 256 [(0, ''off'' @ [NUL])] = ((2, ''off'' @ [NUL]), [])" by (simp add: demo_lib_def)
  from power_round_requests [OF this, of "replicate 256 NUL" "\<lambda>s. s" "[]"] show ?thesis
    by (simp add: power_answer_def demo_lib_def)
qed

lemma power_refusal_lost_witness:
  "power_request (demo_lib\<lparr>l_send := \<lambda>_ pid msg s. (0, [(2, take 1 (bytes32 (word_of_int (- ENOSYS))))])\<rparr>) ''shutdown'' [] = (255, [])"
  by (rule power_refusal_lost [where server = 2 and ?s1.0 = "[(2, take 1 (bytes32 (word_of_int (- ENOSYS))))]"])
    (simp_all add: demo_lib_def)

text \<open>
  The buffer is not cleared between messages: after a message \<open>reboot\<close>, its first letter without a
  terminator is taken for another one.
\<close>

lemma power_stale_buffer:
  assumes "l_receive lib sys_power 256 s = ((sender, ''r''), s1)" "0 \<le> sender"
  shows "power_round lib set_teardown gaps (''reboot'' @ replicate 250 NUL) s =
    Inr (map_option (\<lambda>(_, s). (''reboot'' @ replicate 250 NUL, s)) (init_reboot lib set_teardown gaps sender s1))"
proof -
  have n: "replicate 250 NUL = NUL # replicate 249 NUL" by (simp add: replicate_Suc [symmetric] del: replicate_Suc)
  have "strncmp (''reboot'' @ replicate 250 NUL) (''shutdown'' @ [NUL]) 256 = Inr (uchar (CHR ''r'') - uchar (CHR ''s''))"
    "strncmp (''reboot'' @ replicate 250 NUL) (''reboot'' @ [NUL]) 256 = Inr 0"
    unfolding n by (simp_all add: numeral_eq_Suc)
  moreover have "put_slice (''reboot'' @ replicate 250 NUL) 0 ''r'' = Inr (''reboot'' @ replicate 250 NUL)"
    by (simp add: put_slice_def)
  ultimately show ?thesis using assms by (simp add: power_round_def uchar_def)
qed

end
