(* ===== verification/Safetest.thy ===== *)
theory Safetest
  imports UserLib
begin

section \<open>The test program of the system calls\<close>

text \<open>
  \<open>userland/bin/safetest\<close>: it makes every system call that takes an address with bad ones, and counts. The
  calls are the wrappers of the C library over the kernel. The program's own strings, arrays and blocks lie
  at the addresses of \<open>data\<close>; what it stores and reads itself goes through the page tables like every
  access of a program. \<open>say\<close> is what printing a text does to the state.
\<close>

record data =
  at_local :: u32
  at_missing :: u32
  at_name_a :: u32
  at_alpha :: u32
  at_name_b :: u32
  at_beta :: u32
  at_name_long :: u32
  at_abcdef :: u32
  at_iface :: u32
  at_canary :: u32
  at_evalbuf :: u32
  at_evalbuf2 :: u32
  at_msgsrc :: u32
  at_msgsize :: u32
  at_msgdst :: u32
  at_nullargs :: u32
  at_kernelargs :: u32
  at_longargs :: u32
  at_missingargs :: u32
  at_exec :: u32

text \<open>The rest of the program's surroundings: the allocator, and what other threads do while it waits.\<close>

record around =
  a_drv :: drivers
  a_version :: string
  a_say :: "string \<Rightarrow> sys \<Rightarrow> sys"
  a_malloc :: "u32 \<Rightarrow> sys \<Rightarrow> (u32 \<times> sys) res"
  a_free :: "u32 \<Rightarrow> sys \<Rightarrow> sys res"
  a_gap :: "sys \<Rightarrow> sys"
  a_gaps :: "(sys \<Rightarrow> sys) list"

record tally =
  retval :: int
  successes :: nat
  failures :: nat
  tests :: nat

definition store :: "u32 \<Rightarrow> string \<Rightarrow> sys \<Rightarrow> sys res" where
  "store a bytes s =
     (let (r, m) = to_user_loop (kmem_of s) a bytes in
      if r = 0 then Inr (s\<lparr>ker := (ker s)\<lparr>kmem := m\<rparr>\<rparr>) else Inl (Fault ''store''))"

definition load :: "u32 \<Rightarrow> nat \<Rightarrow> sys \<Rightarrow> string res" where
  "load a n s = deref ''load'' (from_user_loop (kmem_of s) a n)"

subsection \<open>A test\<close>

text \<open>A test gives the new value of the variable \<open>retval\<close>, and the text of its failure.\<close>

type_synonym outcome = "(int \<times> string option \<times> sys) res"

definition verdict :: "bool \<Rightarrow> int \<Rightarrow> string option" where
  "verdict good r = (if good then None else Some (''fail ('' @ dec r @ '')'' @ [CHR 0x0A]))"

definition expect :: "(int \<Rightarrow> bool) \<Rightarrow> (sys \<Rightarrow> (int \<times> sys) res) \<Rightarrow> int \<Rightarrow> sys \<Rightarrow> outcome" where
  "expect good f old s = rbind (f s) (\<lambda>(r, s). Inr (r, verdict (good r) r, s))"

definition begin_test :: "(string \<Rightarrow> sys \<Rightarrow> sys) \<Rightarrow> string \<Rightarrow> tally \<times> sys \<Rightarrow> tally \<times> sys" where
  "begin_test say label = (\<lambda>(t, s). (t\<lparr>tests := tests t + 1\<rparr>, say (label @ '': '') s))"

definition end_test :: "(string \<Rightarrow> sys \<Rightarrow> sys) \<Rightarrow> tally \<Rightarrow> int \<times> string option \<times> sys \<Rightarrow> tally \<times> sys" where
  "end_test say t = (\<lambda>(r, bad, s).
     case bad of None \<Rightarrow> (t\<lparr>retval := r, successes := successes t + 1\<rparr>, say (''success'' @ [CHR 0x0A]) s)
     | Some txt \<Rightarrow> (t\<lparr>retval := r, failures := failures t + 1\<rparr>, say txt s))"

definition run_test ::
  "(string \<Rightarrow> sys \<Rightarrow> sys) \<Rightarrow> string \<Rightarrow> (int \<Rightarrow> sys \<Rightarrow> outcome) \<Rightarrow> tally \<times> sys \<Rightarrow> (tally \<times> sys) res" where
  "run_test say label f c =
     (let (t, s) = begin_test say label c in rbind (f (retval t) s) (\<lambda>res. Inr (end_test say t res)))"

primrec run_all :: "(tally \<times> sys \<Rightarrow> (tally \<times> sys) res) list \<Rightarrow> tally \<times> sys \<Rightarrow> (tally \<times> sys) res" where
  "run_all [] c = Inr c"
| "run_all (f # fs) c = rbind (f c) (run_all fs)"

text \<open>A call that has not returned after all the gaps is an error.\<close>

definition returned :: "(int option \<times> sys) res \<Rightarrow> (int \<times> sys) res" where
  "returned x = rbind x (\<lambda>(r, s). rbind (deref ''not returned'' r) (\<lambda>r. Inr (r, s)))"

text \<open>The values of pointers as \<open>int\<close>, and \<open>brk\<close>, which also sets \<open>errno\<close>.\<close>

definition getcwd_int :: "around \<Rightarrow> u32 \<Rightarrow> u32 \<Rightarrow> sys \<Rightarrow> (int \<times> sys) res" where
  "getcwd_int x buf sz s = rbind (getcwd (a_drv x) (a_version x) buf sz s) (\<lambda>(r, s). Inr (sint r, s))"

definition brk_u :: "around \<Rightarrow> u32 \<Rightarrow> sys \<Rightarrow> (int \<times> int option \<times> sys) res" where
  "brk_u x a s =
     rbind (trap (a_drv x) (a_version x) 8 [a] s) (\<lambda>(r, s).
     Inr (if r \<noteq> a then (-1, Some ENOMEM, s) else (0, None, s)))"

subsection \<open>Null addresses\<close>

text \<open>\<open>errno\<close> is cleared before the calls that are judged by it.\<close>

definition open_errno :: "around \<Rightarrow> u32 \<Rightarrow> sys \<Rightarrow> (int \<times> sys) res" where
  "open_errno x path s =
     rbind (open_call (a_drv x) (a_version x) path 0 0 s) (\<lambda>(r, e, s).
     Inr (case e of None \<Rightarrow> 0 | Some e \<Rightarrow> e, s))"

definition null_tests :: "around \<Rightarrow> (tally \<times> sys \<Rightarrow> (tally \<times> sys) res) list" where
  "null_tests x =
     (let d = a_drv x; v = a_version x; ptr = 0; say = a_say x; faults = expect (\<lambda>r. r = - EFAULT) in
      [run_test say ''read()'' (faults (\<lambda>s. returned (read_call d v 0 ptr 100 (a_gaps x) s))),
       run_test say ''write()'' (faults (write_call d v 1 ptr 100)),
       run_test say ''open()'' (\<lambda>old s. rbind (open_errno x ptr s) (\<lambda>(e, s). Inr (old, verdict (e = EFAULT) old, s))),
       run_test say ''chdir()'' (faults (chdir d v ptr)),
       run_test say ''getcwd()'' (faults (getcwd_int x ptr 100)),
       run_test say ''psGetEVar()'' (faults (psGetEVar d v ptr ptr 100)),
       run_test say ''psSetEVar()'' (faults (psSetEVar d v ptr ptr)),
       run_test say ''psInterfaceCreate()'' (faults (psInterfaceCreate d v ptr 0)),
       run_test say ''psInterfaceDelete()'' (faults (psInterfaceDelete d v ptr)),
       run_test say ''psInterfaceSend()'' (faults (psInterfaceSend d v ptr (-1) ptr 10)),
       run_test say ''psInterfaceRecieve()'' (faults (psInterfaceRecieve d v ptr ptr 100 ptr (a_gap x))),
       run_test say ''psInterfaceWait()'' (faults (psInterfaceWait d v ptr)),
       run_test say ''fsList() invalid path'' (faults (fsList d v ptr ptr 100 1))])"

subsection \<open>Listing a directory\<close>

definition list_tests :: "around \<Rightarrow> data \<Rightarrow> (tally \<times> sys \<Rightarrow> (tally \<times> sys) res) list" where
  "list_tests x a =
     (let say = a_say x; lst = fsList (a_drv x) (a_version x) (at_local a); faults = expect (\<lambda>r. r = - EFAULT) in
      [run_test say ''fsList() invalid buffer'' (faults (lst 0 100 1)),
       run_test say ''fsList() kernel buffer'' (faults (lst 0xC0000000 100 1)),
       run_test say ''fsList() wrapping buffer'' (faults (lst 0xBFFFFFFF 2 1)),
       run_test say ''fsList() zero length'' (expect (\<lambda>r. 0 \<le> r) (lst 0 0 1))])"

definition canary :: char where "canary = CHR 0xAA"

definition truncation_test :: "around \<Rightarrow> data \<Rightarrow> tally \<times> sys \<Rightarrow> (tally \<times> sys) res" where
  "truncation_test x a = run_test (a_say x) ''fsList() truncation'' (\<lambda>_ s.
     rbind (store (at_canary a) (replicate 16 canary) s) (\<lambda>s.
     rbind (fsList (a_drv x) (a_version x) (at_local a) (at_canary a) 4 1 s) (\<lambda>(r, s).
     rbind (load (at_canary a) 16 s) (\<lambda>bytes.
     Inr (r, verdict (0 \<le> r \<and> drop 4 bytes = replicate 12 canary) r, s)))))"

subsection \<open>Kernel addresses and numbers out of range\<close>

definition range_tests :: "around \<Rightarrow> (tally \<times> sys \<Rightarrow> (tally \<times> sys) res) list" where
  "range_tests x =
     (let d = a_drv x; v = a_version x; say = a_say x; faults = expect (\<lambda>r. r = - EFAULT) in
      [run_test say ''sysVersion()'' (faults (sysVersion d v 0)),
       run_test say ''sysVersion() kernel buffer'' (faults (sysVersionN d v 0xC0000000 100)),
       run_test say ''getcwd() kernel buffer'' (faults (getcwd_int x 0xC0000000 100)),
       run_test say ''close() negative fd'' (expect (\<lambda>r. r = - EBADF) (\<lambda>s. returned (close_call d v 0 (a_gaps x) s))),
       run_test say ''fsSize() negative fd'' (expect (\<lambda>r. r = - EBADF) (fsSize d v 0)),
       run_test say ''psWait() out of range'' (expect (\<lambda>r. r < 0) (psWait d v 0x7FFFFFFF)),
       run_test say ''psKill() out of range'' (expect (\<lambda>r. r < 0) (psKill d v 0x7FFFFFFF)),
       run_test say ''psList() kernel buffer'' (faults (psList d v 0xC0000000 10)),
       run_test say ''brk() kernel address'' (\<lambda>_ s. rbind (brk_u x 0xC0000000 s) (\<lambda>(r, e, s).
         Inr (r, verdict (r = -1 \<and> e = Some ENOMEM) r, s)))])"

subsection \<open>The environment\<close>

definition environ_tests :: "around \<Rightarrow> data \<Rightarrow> (tally \<times> sys \<Rightarrow> (tally \<times> sys) res) list" where
  "environ_tests x a =
     (let set = psSetEVar (a_drv x) (a_version x); get = psGetEVar (a_drv x) (a_version x); say = a_say x in
      [run_test say ''psSetEVar() growth'' (\<lambda>_ s.
         rbind (set (at_name_a a) (at_alpha a) s) (\<lambda>(_, s).
         rbind (set (at_name_b a) (at_beta a) s) (\<lambda>(_, s).
         rbind (store (at_evalbuf a) (replicate 16 NUL) s) (\<lambda>s.
         rbind (get (at_name_b a) (at_evalbuf a) 16 s) (\<lambda>(r, s).
         rbind (if r = 0 then rbind (load (at_evalbuf a) 16 s) (\<lambda>b. rbind (strcmp b (''beta'' @ [NUL])) (\<lambda>c. Inr (c = 0)))
                else Inr False) (\<lambda>good.
         Inr (r, verdict good r, s))))))),
       run_test say ''psGetEVar() truncation'' (\<lambda>_ s.
         rbind (set (at_name_long a) (at_abcdef a) s) (\<lambda>(_, s).
         rbind (store (at_evalbuf2 a) (replicate 8 canary) s) (\<lambda>s.
         rbind (get (at_name_long a) (at_evalbuf2 a) 4 s) (\<lambda>(r, s).
         rbind (load (at_evalbuf2 a) 8 s) (\<lambda>b.
         Inr (r, verdict (r = 0 \<and> b = ''abc'' @ NUL # replicate 4 canary) r, s)))))),
       run_test say ''psGetEVar() kernel buffer'' (expect (\<lambda>r. r = - EFAULT) (get (at_name_b a) 0xC0000000 16))])"

subsection \<open>Messages\<close>

definition msg_text :: string where "msg_text = ''message'' @ [NUL]"

definition message_tests :: "around \<Rightarrow> data \<Rightarrow> (tally \<times> sys \<Rightarrow> (tally \<times> sys) res) list" where
  "message_tests x a =
     (let d = a_drv x; v = a_version x; say = a_say x; faults = expect (\<lambda>r. r = - EFAULT); nm = at_iface a in
      [run_test say ''psInterfaceSend() oversized'' (\<lambda>_ s.
         rbind (psInterfaceCreate d v nm 0 s) (\<lambda>(_, s).
         expect (\<lambda>r. r = - EMSGSIZE) (psInterfaceSend d v nm 0 (at_evalbuf a) (2 * 1024 * 1024)) 0 s)),
       run_test say ''psInterfaceSend() kernel buffer'' (faults (psInterfaceSend d v nm 0 0xC0000000 16)),
       run_test say ''psInterfaceRecieve() kernel buffer'' (\<lambda>_ s.
         rbind (store (at_msgsrc a) msg_text s) (\<lambda>s.
         rbind (psInterfaceSend d v nm 0 (at_msgsrc a) 8 s) (\<lambda>(_, s).
         rbind (store (at_msgsize a) (bytes32 0) s) (\<lambda>s.
         faults (psInterfaceRecieveNB d v nm 0xC0000000 16 (at_msgsize a)) 0 s)))),
       run_test say ''psInterfaceRecieve() valid'' (\<lambda>_ s.
         rbind (store (at_msgdst a) (replicate 8 NUL) s) (\<lambda>s.
         rbind (psInterfaceRecieveNB d v nm (at_msgdst a) 8 (at_msgsize a) s) (\<lambda>(r, s).
         rbind (load (at_msgsize a) 4 s) (\<lambda>n.
         rbind (load (at_msgdst a) 8 s) (\<lambda>dst.
         rbind (load (at_msgsrc a) 8 s) (\<lambda>src.
         rbind (memcmp dst src 8) (\<lambda>c.
         Inr (r, verdict (0 \<le> r \<and> n = bytes32 8 \<and> c = 0) r, s)))))))),
       \<lambda>(t, s). rbind (psInterfaceDelete d v nm s) (\<lambda>(_, s). Inr (t, s))])"

subsection \<open>Running programs\<close>

text \<open>The path of 8191 letters is used by three tests and then freed.\<close>

definition path_tests :: "around \<Rightarrow> data \<Rightarrow> tally \<times> sys \<Rightarrow> (tally \<times> sys) res" where
  "path_tests x a c =
     (let d = a_drv x; v = a_version x; say = a_say x; too_long = (\<lambda>r. r = - ENAMETOOLONG);
          (t, s) = begin_test say ''open() overlong path'' c in
      rbind (a_malloc x 8192 s) (\<lambda>(p, s).
      rbind (store p (replicate 8191 (CHR ''a'') @ [NUL]) s) (\<lambda>s.
      rbind (open_errno x p s) (\<lambda>(e, s).
      run_all
        [run_test say ''exec() overlong path'' (\<lambda>_ s.
           rbind (store (at_nullargs a) (bytes32 0) s) (\<lambda>s. expect too_long (psExecA d v p (at_nullargs a)) 0 s)),
         run_test say ''chdir() overlong path'' (\<lambda>_ s.
           rbind (chdir d v p s) (\<lambda>(r, s). rbind (a_free x p s) (\<lambda>s. Inr (r, verdict (too_long r) r, s))))]
        (end_test say t
          (retval t, if too_long (- e) then None else Some (''fail (errno '' @ dec e @ '')'' @ [CHR 0x0A]), s))))))"

definition exec_tests :: "around \<Rightarrow> data \<Rightarrow> (tally \<times> sys \<Rightarrow> (tally \<times> sys) res) list" where
  "exec_tests x a =
     (let say = a_say x; exec = psExecA (a_drv x) (a_version x); faults = expect (\<lambda>r. r = - EFAULT) in
      [run_test say ''exec() invalid path'' (faults (exec 0 (at_nullargs a))),
       run_test say ''exec() invalid argv'' (faults (exec (at_missing a) 0xC0000000)),
       run_test say ''exec() kernel argv string'' (\<lambda>_ s.
         rbind (store (at_kernelargs a) (bytes32 0xC0000000 @ bytes32 0) s) (\<lambda>s.
         faults (exec (at_missing a) (at_kernelargs a)) 0 s)),
       run_test say ''exec() overlong argv'' (\<lambda>_ s.
         rbind (a_malloc x 70000 s) (\<lambda>(p, s).
         rbind (store p (replicate 69999 (CHR ''a'') @ [NUL]) s) (\<lambda>s.
         rbind (store (at_longargs a) (bytes32 p @ bytes32 0) s) (\<lambda>s.
         rbind (exec (at_missing a) (at_longargs a) s) (\<lambda>(r, s).
         rbind (a_free x p s) (\<lambda>s. Inr (r, verdict (r = - E2BIG) r, s))))))),
       run_test say ''exec() missing file'' (\<lambda>_ s.
         rbind (store (at_missingargs a) (bytes32 (at_exec a) @ bytes32 0) s) (\<lambda>s.
         expect (\<lambda>r. r = - ENOENT) (exec (at_missing a) (at_missingargs a)) 0 s))])"

text \<open>The whole program.\<close>

definition safetest :: "around \<Rightarrow> data \<Rightarrow> sys \<Rightarrow> (tally \<times> sys) res" where
  "safetest x a s =
     rbind (run_all (null_tests x @ list_tests x a @ [truncation_test x a] @ range_tests x @ environ_tests x a @
         message_tests x a @ [path_tests x a] @ exec_tests x a)
       (\<lparr>retval = 0, successes = 0, failures = 0, tests = 0\<rparr>, s)) (\<lambda>(t, s).
     Inr (t, a_say x (dec (int (successes t)) @ ''/'' @ dec (int (tests t)) @ '' success'' @ [CHR 0x0A]) s))"

subsection \<open>What the tests rely on\<close>

text \<open>
  Page 0 is not mapped for programs, the string \<open>local:\<close> lies where the program thinks, the volume of
  that name has a root that can be listed, and the process has a working directory and an ordinary break.
\<close>

definition tester :: "data \<Rightarrow> sys \<Rightarrow> bool" where
  "tester a s \<longleftrightarrow> self_mapped (kmem_of s) \<and> walk (kmem_of s) 1 0 = None \<and>
     kstrdup_user (kmem_of s) (at_local a) MAX_PATH_LEN = Inr ''local:'' \<and>
     (\<exists>dp d nms. vfs_find_directory (fsys s) ''local:'' = Inr (Some dp) \<and> dir_at (fsys s) dp = Inr d \<and>
        entry_names (fsys s) True (d_dirs d) = Inr nms \<and> length (d_dirs d) < 2 ^ 31) \<and>
     (\<exists>p. cur_proc (ker s) = Inr p \<and> pwd p \<noteq> None \<and> brk p \<noteq> 0xC0000000) \<and> last_pid (ker s) \<le> 0x7FFFFFFF"

lemma last_pid_kmode [simp]: "last_pid (k\<lparr>kmode := b\<rparr>) = last_pid k"
  by (simp add: last_pid_def)

lemma tester_regs [simp]: "tester a (enter n as s) = tester a s" "tester a (set_kmode b s) = tester a s"
  "tester a (set_eax s w) = tester a s"
  by (simp_all add: tester_def)

lemma set_kmode_twice [simp]: "set_kmode b (set_kmode c s) = set_kmode b s"
  by (simp add: set_kmode_def)

lemma testerD:
  "tester a s \<Longrightarrow> self_mapped (kmem_of s) \<and> walk (kmem_of s) 1 0 = None \<and> last_pid (ker s) \<le> 0x7FFFFFFF"
  by (simp add: tester_def)

subsection \<open>Bad addresses\<close>

lemma walk_0:
  assumes "walk m 1 0 = None"
  shows "vread8 m 0 = None" "vwrite8 m 0 c = None"
  using assms walk_mono [of m 0] by (auto simp: vread8_def vwrite8_def) (cases "walk m 3 0"; auto)+

lemma null_strdup: "walk m 1 0 = None \<Longrightarrow> 0 < mx \<Longrightarrow> kstrdup_user m 0 mx = Inl (- EFAULT)"
proof -
  assume a: "walk m 1 0 = None" "0 < mx"
  define n where "n = (if mx > KERNEL_START - 0 then KERNEL_START - 0 else mx)"
  have "n \<noteq> 0" using a(2) by (auto simp: n_def KERNEL_START_def)
  then obtain k where k: "unat n = Suc k" by (cases "unat n") (auto simp: unat_eq_0)
  have "\<not> KERNEL_START \<le> 0" by (simp add: KERNEL_START_def)
  then have "safelen_max_err m 0 mx = safelen_loop m 0 0 (unat n)" by (simp add: safelen_max_err_def Let_def n_def)
  then show ?thesis using walk_0(1) [OF a(1)] by (simp add: kstrdup_user_def k)
qed

lemma null_load: "walk m 1 0 = None \<Longrightarrow> n \<noteq> 0 \<Longrightarrow> safecpy_from_user m 0 n = None"
proof -
  assume a: "walk m 1 0 = None" "n \<noteq> 0"
  then obtain k where "unat n = Suc k" by (cases "unat n") (auto simp: unat_eq_0)
  then show ?thesis using a walk_0(1) [OF a(1)] by (simp add: safecpy_from_user_def)
qed

lemma bad_store:
  assumes "walk (kmem_of s) 1 0 = None" "a = 0 \<or> KERNEL_START \<le> a" "bytes \<noteq> []"
  shows "to_user s a bytes = (-1, s)"
proof -
  have "to_user_loop (kmem_of s) 0 bytes = (-1, kmem_of s)"
    using assms(3) walk_0(2) [OF assms(1)] by (cases bytes) auto
  then have "safecpy_to_user (kmem_of s) a bytes = (-1, kmem_of s)"
    using assms(2,3) by (auto simp: safecpy_to_user_def safecpy_check_user_def)
  then show ?thesis by (simp add: to_user_def kmem_of_def)
qed

lemma null_not_writable:
  assumes "self_mapped m" "walk m 1 0 = None" "n \<noteq> 0"
  shows "vmm_user_range_writable m 0 n = Inr False"
proof -
  have one: "e AND 1 = 1" if "e AND 7 = 7" for e :: u32
  proof -
    have "e AND (7 AND 1) = 7 AND 1" by (simp only: that flip: and.assoc)
    then show ?thesis by simp
  qed
  have "walk m 7 0 = None" using assms(2) one unfolding walk_def by (auto split: if_splits)
  moreover have "0 < unat n" using assms(3) by (simp add: unat_gt_0)
  ultimately show ?thesis unfolding user_range_eq [OF assms(1)] using assms(3) by fastforce
qed

subsection \<open>Tests that are passed\<close>

definition passes :: "data \<Rightarrow> (tally \<times> sys \<Rightarrow> (tally \<times> sys) res) \<Rightarrow> bool" where
  "passes a f \<longleftrightarrow> (\<forall>t s. tester a s \<longrightarrow> (\<exists>t' s'. f (t, s) = Inr (t', s') \<and> tester a s' \<and>
     successes t' = Suc (successes t) \<and> failures t' = failures t \<and> tests t' = Suc (tests t)))"

lemma run_all_passes:
  assumes "\<forall>f\<in>set fs. passes a f" "tester a s"
  shows "\<exists>t' s'. run_all fs (t, s) = Inr (t', s') \<and> tester a s' \<and>
    successes t' = successes t + length fs \<and> failures t' = failures t \<and> tests t' = tests t + length fs"
  using assms
proof (induction fs arbitrary: t s)
  case (Cons f fs)
  have "passes a f" using Cons.prems(1) by simp
  then obtain t1 s1 where 1: "f (t, s) = Inr (t1, s1)" "tester a s1" "successes t1 = Suc (successes t)"
    "failures t1 = failures t" "tests t1 = Suc (tests t)" using Cons.prems(2) unfolding passes_def by blast
  from Cons.IH [OF _ 1(2), of t1] Cons.prems(1) 1 show ?case by fastforce
qed simp

lemma run_test_passes:
  assumes "\<forall>txt s. tester a s \<longrightarrow> tester a (say txt s)"
    "\<And>old s. tester a s \<Longrightarrow> \<exists>r s'. f old s = Inr (r, None, s') \<and> tester a s'"
  shows "passes a (run_test say label f)"
  unfolding passes_def
proof (intro allI impI)
  fix t :: tally and s assume "tester a s"
  then have "tester a (say (label @ '': '') s)" using assms(1) by blast
  from assms(2) [OF this, of "retval t"] obtain r s' where
    "f (retval t) (say (label @ '': '') s) = Inr (r, None, s')" "tester a s'" by blast
  then show "\<exists>t' s'. run_test say label f (t, s) = Inr (t', s') \<and> tester a s' \<and>
      successes t' = Suc (successes t) \<and> failures t' = failures t \<and> tests t' = Suc (tests t)"
    by (auto simp: run_test_def begin_test_def end_test_def intro: assms(1) [rule_format])
qed

text \<open>What a call gives that leaves the state as it is.\<close>

definition answers :: "data \<Rightarrow> (sys \<Rightarrow> (int \<times> sys) res) \<Rightarrow> int \<Rightarrow> bool" where
  "answers a f r \<longleftrightarrow> (\<forall>s. tester a s \<longrightarrow> (\<exists>s'. f s = Inr (r, s') \<and> tester a s'))"

lemma expect_passes:
  assumes "\<forall>txt s. tester a s \<longrightarrow> tester a (say txt s)" "answers a f r" "good r"
  shows "passes a (run_test say label (expect good f))"
  by (rule run_test_passes [OF assms(1)]) (use assms(2,3) in \<open>auto simp: answers_def expect_def verdict_def\<close>)

lemma sint_of_small: "- (2 ^ 31) \<le> k \<Longrightarrow> k < 2 ^ 31 \<Longrightarrow> sint (of_int k :: u32) = k"
  by (simp add: signed_of_int signed_take_bit_int_eq_self)

lemma call_answers:
  assumes "\<And>s. tester a s \<Longrightarrow> \<exists>e. f (set_kmode False (enter n as s)) = Inr (r, e) \<and> tester a e"
    "- (2 ^ 31) \<le> r" "r < 2 ^ 31"
  shows "answers a (\<lambda>s. serve f (enter n as s)) r"
  unfolding answers_def
proof (intro allI impI)
  fix s assume "tester a s"
  then obtain e where e: "f (set_kmode False (enter n as s)) = Inr (r, e)" "tester a e" using assms(1) by blast
  then show "\<exists>s'. serve f (enter n as s) = Inr (r, s') \<and> tester a s'"
    using sint_of_small [OF assms(2,3)] by (simp add: serve_def)
qed

lemmas calls_defs = write_call_def chdir_def psGetEVar_def psSetEVar_def psInterfaceCreate_def psInterfaceDelete_def
  psInterfaceSend_def psInterfaceRecieveNB_def psInterfaceWait_def fsList_def sysVersion_def sysVersionN_def fsSize_def
  psWait_def psKill_def psList_def

lemma null_answers:
  "answers a (write_call d v 1 0 100) (- EFAULT)" "answers a (chdir d v 0) (- EFAULT)"
  "answers a (psGetEVar d v 0 b n) (- EFAULT)" "answers a (psSetEVar d v 0 b) (- EFAULT)"
  "answers a (psInterfaceCreate d v 0 n) (- EFAULT)" "answers a (psInterfaceDelete d v 0) (- EFAULT)"
  "answers a (psInterfaceSend d v 0 pid b n) (- EFAULT)" "answers a (psInterfaceRecieveNB d v 0 b n out) (- EFAULT)"
  "answers a (psInterfaceWait d v 0) (- EFAULT)" "answers a (fsList d v 0 b n dirs) (- EFAULT)"
  unfolding calls_defs call_numbers
  by (rule call_answers; (frule testerD)?; auto simp: null_strdup null_load syscall_write_def user_buffer_ok_def syscall_chdir_def
      syscall_getenv_def syscall_setenv_def syscall_intfc_def syscall_intfd_def syscall_intfs_def syscall_intfr_def
      syscall_intfw_def syscall_list_def with_name_def interface_name_user_def MAX_PATH_LEN_def MAX_ENV_NAME_SIZE_def
      MAX_INTERFACE_NAME_LEN_def clip_count_def MAX_SYSCALL_IO_SIZE_def KERNEL_START_def)+

lemma read_answers: "answers a (call d v 3 [0, 0, 100]) (- EFAULT)"
  unfolding call_numbers
proof (rule call_answers)
  fix s assume s: "tester a s"
  have "read_stdin (set_kmode False (enter 3 [0, 0, 100] s)) 100 = Inr (- EFAULT, set_kmode False (enter 3 [0, 0, 100] s))"
    using testerD [OF s] by (simp add: read_stdin_def null_not_writable)
  moreover have "user_buffer_ok 0 100" by (simp add: user_buffer_ok_def KERNEL_START_def)
  ultimately show "\<exists>e. syscall_read d (set_kmode False (enter 3 [0, 0, 100] s)) = Inr (- EFAULT, e) \<and> tester a e"
    using s by (simp add: syscall_read_def clip_count_def MAX_SYSCALL_IO_SIZE_def)
qed simp_all

lemma close_answers: "answers a (call d v 6 [0]) (- EBADF)" "answers a (fsSize d v 0) (- EBADF)"
  unfolding calls_defs call_numbers by (rule call_answers; simp add: syscall_close_def syscall_size_def)+

lemma on_ker_same: "f (ker s) = Inr (r, ker s) \<Longrightarrow> on_ker f s = Inr (r, s)"
  by (simp add: on_ker_def)

lemma pid_answers: "answers a (psWait d v 0x7FFFFFFF) (- ESRCH)" "answers a (psKill d v 0x7FFFFFFF) (- ESRCH)"
  unfolding calls_defs call_numbers syscall_wait_def syscall_kill_def
  by (rule call_answers; (frule testerD)?;
      auto intro!: on_ker_same exI simp: sched_wait_process_def sched_kill_process_def)+

lemma version_answers:
  assumes "b = 0 \<or> KERNEL_START \<le> b" "n \<noteq> 0"
  shows "answers a (sysVersionN d v b n) (- EFAULT)"
  unfolding sysVersionN_def call_numbers
proof (rule call_answers)
  fix s assume s: "tester a s"
  let ?e = "set_kmode False (enter 15 [b, n] s)"
  have "take (min (length v + 1) (unat n)) (v @ [NUL]) \<noteq> []" using assms(2) unat_gt_0 [of n] by (cases v) auto
  then have "to_user ?e b (take (min (length v + 1) (unat n)) (v @ [NUL])) = (-1, ?e)"
    using testerD [OF s] assms(1) by (intro bad_store) simp_all
  then show "\<exists>e. syscall_getver v ?e = Inr (- EFAULT, e) \<and> tester a e" using s by (simp add: syscall_getver_def)
qed simp_all

lemma cwd_answers:
  assumes "b = 0 \<or> KERNEL_START \<le> b"
  shows "answers a (getcwd_int x b 100) (- EFAULT)"
proof -
  have "getcwd_int x b 100 = (\<lambda>s. serve syscall_getcwd (enter 18 [b, 100] s))"
    using call_eq [of 18 "a_drv x" "a_version x" syscall_getcwd "[b, 100]"]
    by (simp add: getcwd_int_def [abs_def] getcwd_def call_def syscalltable_def nth_append)
  moreover have "answers a (\<lambda>s. serve syscall_getcwd (enter 18 [b, 100] s)) (- EFAULT)"
  proof (rule call_answers)
    fix s assume s: "tester a s"
    let ?e = "set_kmode False (enter 18 [b, 100] s)"
    obtain p dirname where p: "cur_proc (ker s) = Inr p" "pwd p = Some dirname" using s by (auto simp: tester_def)
    have "take (min (length dirname + 1) 100) (dirname @ [NUL]) \<noteq> []" by (cases dirname) auto
    then have "to_user ?e b (take (min (length dirname + 1) 100) (dirname @ [NUL])) = (-1, ?e)"
      using testerD [OF s] assms(1) by (intro bad_store) simp_all
    then show "\<exists>e. syscall_getcwd ?e = Inr (- EFAULT, e) \<and> tester a e" using s p by (simp add: syscall_getcwd_def)
  qed simp_all
  ultimately show ?thesis by simp
qed

lemma list_answers:
  assumes "b = 0 \<or> KERNEL_START \<le> b \<or> KERNEL_START - b < n" "n \<noteq> 0"
  shows "answers a (fsList d v (at_local a) b n 1) (- EFAULT)"
  unfolding calls_defs call_numbers
proof (rule call_answers)
  fix s assume s: "tester a s"
  let ?e = "set_kmode False (enter 17 [at_local a, b, n, 1] s)"
  obtain dp x nms where x: "vfs_find_directory (fsys s) ''local:'' = Inr (Some dp)" "dir_at (fsys s) dp = Inr x"
    "entry_names (fsys s) True (d_dirs x) = Inr nms" and "kstrdup_user (kmem_of s) (at_local a) MAX_PATH_LEN = Inr ''local:''"
    using s by (auto simp: tester_def)
  moreover have "to_user ?e b (butlast (listing (fitting (unat n) nms)) @ [NUL]) = (-1, ?e)" if "safecpy_check_user b n"
    using testerD [OF s] assms(1) that by (intro bad_store) (auto simp: safecpy_check_user_def)
  ultimately show "\<exists>e. syscall_list ?e = Inr (- EFAULT, e) \<and> tester a e"
    using s assms(2) by (auto simp: syscall_list_def list_text_eq unat_gt_0 Let_def)
qed simp_all

lemma list_count_answers: "tester a s \<Longrightarrow> \<exists>r s'. fsList d v (at_local a) b 0 1 s = Inr (r, s') \<and> 0 \<le> r \<and> tester a s'"
proof -
  assume s: "tester a s"
  then obtain dp x nms where x: "vfs_find_directory (fsys s) ''local:'' = Inr (Some dp)" "dir_at (fsys s) dp = Inr x"
    "kstrdup_user (kmem_of s) (at_local a) MAX_PATH_LEN = Inr ''local:''" "length (d_dirs x) < 2 ^ 31"
    by (auto simp: tester_def)
  have "sint (of_int (int (length (d_dirs x))) :: u32) = int (length (d_dirs x))"
    by (rule sint_of_small) (use x(4) in simp_all)
  then show ?thesis using s x by (simp add: fsList_def call_numbers serve_def syscall_list_def)
qed

lemma pslist_bad:
  assumes "walk (kmem_of s) 1 0 = None" "KERNEL_START \<le> dst" "\<exists>p\<in>set ps. p \<noteq> None" "0 < mx"
  shows "pslist_loop ps i dst mx 0 s = (- EFAULT, s)"
  using assms(3)
proof (induction ps arbitrary: i)
  case (Cons p ps)
  have "to_user s dst (bytes32 (of_int i)) = (-1, s)" by (rule bad_store) (use assms(1,2) in \<open>simp_all add: bytes32_def\<close>)
  then show ?case using Cons assms(4) by (auto split: option.splits)
qed simp

lemma pslist_answers: "answers a (psList d v 0xC0000000 10) (- EFAULT)"
  unfolding calls_defs call_numbers
proof (rule call_answers)
  fix s assume s: "tester a s"
  let ?e = "set_kmode False (enter 29 [0xC0000000, 10] s)"
  obtain pid p where "proc (ker s) pid = Inr p" using s by (auto simp: tester_def cur_proc_def elim!: rbind_InrE)
  then have "Some p \<in> set (processes (ker s))" by (auto simp: proc_Inr last_pid_def in_set_conv_nth intro!: exI [of _ "nat pid"])
  then have "\<exists>p\<in>set (processes (ker s)). p \<noteq> None" by auto
  then have "pslist_loop (processes (ker s)) 0 0xC0000000 10 0 ?e = (- EFAULT, ?e)"
    using testerD [OF s] by (intro pslist_bad) (simp_all add: KERNEL_START_def)
  then show "\<exists>e. syscall_pslist ?e = Inr (- EFAULT, e) \<and> tester a e" using s by (simp add: syscall_pslist_def)
qed simp_all

lemma put_cur_same: "cur_proc k = Inr p \<Longrightarrow> put_cur p k = k"
  by (auto simp: cur_proc_def put_cur_def put_proc_def proc_Inr list_update_same_conv last_pid_def deref_Inr elim!: rbind_InrE)

lemma brk_refused:
  assumes "tester a s"
  shows "\<exists>s'. brk_u x 0xC0000000 s = Inr (-1, Some ENOMEM, s') \<and> tester a s'"
proof -
  let ?e = "set_kmode False (enter 8 [0xC0000000] s)"
  obtain p where p: "cur_proc (ker s) = Inr p" "brk p \<noteq> 0xC0000000" using assms by (auto simp: tester_def)
  have "sched_setbrk_true (kmem (ker ?e)) p 0xC0000000 = Inr (brk p, p, kmem (ker ?e))"
    by (simp add: sched_setbrk_true_def Let_def KERNEL_START_def)
  then have "sched_setbrk (ker ?e) 0xC0000000 = Inr (brk p, ker ?e)"
    using p by (simp add: sched_setbrk_def put_cur_same)
  then have "on_ker (\<lambda>k. sched_setbrk k 0xC0000000) ?e = Inr (brk p, ?e)" by (rule on_ker_same)
  then have "syscall_brk ?e = Inr (sint (brk p), ?e)" by (simp add: syscall_brk_def)
  moreover have "call (a_drv x) (a_version x) 8 [0xC0000000] s = serve syscall_brk (enter 8 [0xC0000000] s)"
    by (rule call_eq) (simp_all add: syscalltable_def nth_append)
  ultimately obtain w s' where "trap (a_drv x) (a_version x) 8 [0xC0000000] s = Inr (w, s')" "sint w = sint (brk p)" "tester a s'"
    using assms by (auto simp: serve_def call_def elim!: rbind_InrE)
  moreover from this(2) have "w = brk p" by (rule signed_word_eqI)
  ultimately show ?thesis using p(2) by (simp add: brk_u_def)
qed

subsection \<open>The results\<close>

lemma first_call_returns: "answers a f r \<Longrightarrow> r \<noteq> 0 \<Longrightarrow> gaps \<noteq> [] \<Longrightarrow> answers a (\<lambda>s. returned (until_nonzero f gaps s)) r"
  by (cases gaps) (fastforce simp: answers_def returned_def)+

lemma open_fails: "tester a s \<Longrightarrow> \<exists>s'. open_errno x 0 s = Inr (EFAULT, s') \<and> tester a s'"
  by (frule testerD) (simp add: open_errno_def open_call_def call_numbers serve_def syscall_open_def null_strdup MAX_PATH_LEN_def)

lemma recieve_answers: "answers a (psInterfaceRecieve d v 0 b n out gap) (- EFAULT)"
  using null_answers(8) [of a d v b n out] by (fastforce simp: answers_def psInterfaceRecieve_def)

lemma loops_answer:
  assumes "gaps \<noteq> []"
  shows "answers a (\<lambda>s. returned (read_call d v 0 0 100 gaps s)) (- EFAULT)"
    and "answers a (\<lambda>s. returned (close_call d v 0 gaps s)) (- EBADF)"
  unfolding read_call_def close_call_def
  by (rule first_call_returns [OF read_answers _ assms] first_call_returns [OF close_answers(1) _ assms]; simp)+

lemma open_passes:
  assumes "\<forall>txt s. tester a s \<longrightarrow> tester a (say txt s)"
  shows "passes a (run_test say l (\<lambda>old s. rbind (open_errno x 0 s) (\<lambda>(e, s). Inr (old, verdict (e = EFAULT) old, s))))"
proof (rule run_test_passes [OF assms])
  fix old s assume "tester a s"
  from open_fails [OF this, of x]
  show "\<exists>r s'. rbind (open_errno x 0 s) (\<lambda>(e, s). Inr (old, verdict (e = EFAULT) old, s)) = Inr (r, None, s') \<and> tester a s'"
    by (auto simp: verdict_def)
qed

lemma count_passes:
  assumes "\<forall>txt s. tester a s \<longrightarrow> tester a (say txt s)"
  shows "passes a (run_test say l (expect (\<lambda>r. 0 \<le> r) (fsList d v (at_local a) b 0 1)))"
proof (rule run_test_passes [OF assms])
  fix old s assume "tester a s"
  from list_count_answers [OF this, of d v b]
  show "\<exists>r s'. expect (\<lambda>r. 0 \<le> r) (fsList d v (at_local a) b 0 1) old s = Inr (r, None, s') \<and> tester a s'"
    by (fastforce simp: expect_def verdict_def)
qed

lemma brk_passes:
  assumes "\<forall>txt s. tester a s \<longrightarrow> tester a (say txt s)"
  shows "passes a (run_test say l (\<lambda>_ s. rbind (brk_u x 0xC0000000 s) (\<lambda>(r, e, s).
    Inr (r, verdict (r = -1 \<and> e = Some ENOMEM) r, s))))"
proof (rule run_test_passes [OF assms])
  fix old s assume "tester a s"
  from brk_refused [OF this, of x]
  show "\<exists>r s'. rbind (brk_u x 0xC0000000 s) (\<lambda>(r, e, s). Inr (r, verdict (r = -1 \<and> e = Some ENOMEM) r, s)) =
      Inr (r, None, s') \<and> tester a s'" by (auto simp: verdict_def)
qed


text \<open>A program with the string at the start of its page, on a machine with an empty volume.\<close>

definition test_mem :: mem where
  "test_mem = run_mem\<lparr>phys := (phys run_mem)(0x6000 := 0x61636F6C, 0x6004 := 0x00003A6C)\<rparr>"

definition test_sys :: sys where
  "test_sys = demo_sys\<lparr>ker := demo\<lparr>kmem := test_mem\<rparr>,
     fsys := (demo_vfs [demo_dir None None []])\<lparr>vmounts := [\<lparr>mp_name = ''local'', mp_bd = 0, mp_fs = 0, mp_root = 0,
       mp_extra = NoExtra, mp_rw = False\<rparr>]\<rparr>\<rparr>"

definition test_data :: data where
  "test_data = \<lparr>at_local = 0x08000000, at_missing = 0, at_name_a = 0, at_alpha = 0, at_name_b = 0, at_beta = 0, at_name_long = 0,
     at_abcdef = 0, at_iface = 0, at_canary = 0, at_evalbuf = 0, at_evalbuf2 = 0, at_msgsrc = 0, at_msgsize = 0, at_msgdst = 0,
     at_nullargs = 0, at_kernelargs = 0, at_longargs = 0, at_missingargs = 0, at_exec = 0\<rparr>"

definition test_around :: around where
  "test_around = \<lparr>a_drv = (\<lambda>_. undefined), a_version = ''1'', a_say = (\<lambda>_ s. s), a_malloc = (\<lambda>_ s. Inr (0, s)),
     a_free = (\<lambda>_ s. Inr s), a_gap = (\<lambda>s. s), a_gaps = [\<lambda>s. s]\<rparr>"

lemma test_bytes: "i < 7 \<Longrightarrow> vread8 test_mem (0x08000000 + of_nat i) = Some ((''local:'' @ [NUL]) ! i)"
proof -
  assume "i < 7"
  then consider "i = 0" | "i = 1" | "i = 2" | "i = 3" | "i = 4" | "i = 5" | "i = 6" by linarith
  then show ?thesis
    by cases (simp_all add: test_mem_def vread8_def dword_of_def lane_def get_byte_def eval_mem char_of_def
        drop_bit_eq_div bit_iff_odd)
qed

lemma test_name: "kstrdup_user test_mem 0x08000000 MAX_PATH_LEN = Inr ''local:''"
proof -
  have b: "vread8 test_mem (0x08000000 + of_nat i) = Some (''local:'' ! i)" "''local:'' ! i \<noteq> NUL" if "i < 6" for i
  proof -
    show "vread8 test_mem (0x08000000 + of_nat i) = Some (''local:'' ! i)"
      using test_bytes [of i] nth_append [of "''local:''" "[NUL]" i] that by simp
    show "''local:'' ! i \<noteq> NUL" using that by (auto simp: less_Suc_eq numeral_eq_Suc)
  qed
  have "user_len test_mem 0x08000000 6"
    unfolding user_len_def using b test_bytes [of 6] by auto
  then have "safelen_max_err test_mem 0x08000000 MAX_PATH_LEN = (int 6, 0)"
    unfolding safelen_Some by (simp add: KERNEL_START_def MAX_PATH_LEN_def)
  moreover have "safecpy_from_user test_mem 0x08000000 7 = Some (''local:'' @ [NUL])"
    unfolding safecpy_from_user_Some using test_bytes by (auto simp: KERNEL_START_def)
  ultimately show ?thesis by (simp add: kstrdup_user_def)
qed

lemma test_sys_tester: "tester test_data test_sys"
proof -
  have m: "kmem_of test_sys = test_mem" by (simp add: test_sys_def kmem_of_def)
  have "path_entries ''local:'' = Inr []"
    using path_entries_join [of "''local''" "[]"] by (simp add: good_volume_def)
  moreover have "vfs_find_block_device_by_path (fsys test_sys) ''local:'' = Inr (Some 0)"
    by (simp add: vfs_find_block_device_by_path_def test_sys_def demo_vfs_def demo_bdev_def mount_at_def eval_nat_numeral)
  ultimately have "vfs_find_directory (fsys test_sys) ''local:'' = Inr (Some 0)"
    by (simp add: vfs_find_directory_def test_sys_def demo_vfs_def demo_bdev_def bdev_at_def mount_at_def)
  moreover have "dir_at (fsys test_sys) 0 = Inr (demo_dir None None [])" by (simp add: test_sys_def demo_vfs_def dir_at_def)
  moreover have "self_mapped test_mem" "walk test_mem 1 0 = None" by (simp_all add: test_mem_def eval_mem)
  moreover have "cur_proc (ker test_sys) = Inr (demo_process 1 3)" "last_pid (ker test_sys) = 3"
    by (simp_all add: test_sys_def demo_def cur_proc_def proc_def get_proc_def last_pid_def)
  ultimately show ?thesis
    by (simp add: tester_def m test_data_def test_name) (simp add: demo_dir_def demo_process_def)
qed


end
