(* ===== verification/Startup.thy ===== *)
theory Startup
  imports UserLib
begin

section \<open>Around the main function of a program\<close>

text \<open>
  \<open>_start\<close> and the entry to the error handler in \<open>crt0.S\<close>, and the default handler \<open>_libc_procerrhandler\<close>.
  The constructors that \<open>_init\<close> runs are generated by the compiler and are not modelled; \<open>say\<close> is what printing a text
  does to the state.
\<close>

definition libc_cpumessages :: "string list" where
  "libc_cpumessages =
     [''Division Error'', ''Debug'', ''Non-maskable Interrupt'', ''Breakpoint'', ''Overflow'', ''Bound Range Exceeded'',
      ''Invalid Opcode'', ''Device Not Available'', ''Double Fault'', ''Coprocessor Segment Overrun'', ''Invalid TSS'',
      ''Segment Not Present'', ''Stack-Segment Fault'', ''General Protection Fault'', ''Page Fault'', ''Unknown'',
      ''x87 Floating-Point Exception'', ''Alignment Check'', ''Machine Check'', ''SIMD Floating-Point Exception'',
      ''Virtualization Exception'', ''Control Protection Exception'', ''Unknown'', ''Unknown'', ''Unknown'', ''Unknown'',
      ''Unknown'', ''Unknown'', ''Hypervisor Injection Exception'', ''VMM Communication Exception'',
      ''Security Exception'', ''Unknown'']"

text \<open>
  The variable \<open>inhandler\<close> is the first component of the state: a fault inside \<open>printf\<close> enters the handler again.
\<close>

definition libc_procerrhandler :: "(string \<Rightarrow> sys \<Rightarrow> sys) \<Rightarrow> int \<Rightarrow> int \<times> sys \<Rightarrow> (int \<times> int \<times> sys) res" where
  "libc_procerrhandler say errcode = (\<lambda>(inhandler, s).
     rbind
       (if inhandler = 0 then
          if errcode < 1 then Inl (Fault ''cpumessages'')
          else rbind (aget ''cpumessages'' libc_cpumessages (nat (errcode - 1))) (\<lambda>msg.
            Inr (say (''Process died: '' @ msg @ [CHR 0x0A]) s))
        else Inr s) (\<lambda>s. Inr (-1, 0, s)))"

text \<open>\<open>__procerrhandler\<close>: the result goes to the kernel; what is behind that call only runs if it returns.\<close>

definition procerrhandler_entry ::
  "drivers \<Rightarrow> string \<Rightarrow> (string \<Rightarrow> sys \<Rightarrow> sys) \<Rightarrow> int \<Rightarrow> int \<times> sys \<Rightarrow> (int \<times> sys) res" where
  "procerrhandler_entry drv version say errcode c =
     rbind (libc_procerrhandler say errcode c) (\<lambda>(r, inhandler, s).
     rbind (trap drv version 10 [of_int r] s) (\<lambda>(_, s). Inr (inhandler, s)))"

text \<open>\<open>_start\<close>: the arguments onto the stack, the address of the handler to the kernel, \<open>main\<close>, \<open>exit\<close>.\<close>

definition c_start ::
  "drivers \<Rightarrow> string \<Rightarrow> u32 \<Rightarrow> (sys \<Rightarrow> (int \<times> sys) res) \<Rightarrow> sys \<Rightarrow> sys res" where
  "c_start drv version handler main s =
     rbind (trap drv version 14 [] s) (\<lambda>(_, s).
     rbind (trap drv version 11 [handler] s) (\<lambda>(_, s).
     rbind (main s) (\<lambda>(r, s). exit_u drv version (of_int r) s)))"

text \<open>A call as a program makes it, with the state the kernel leaves.\<close>

lemma trap_eq:
  assumes "0 < n" "n < 31" "syscalltable drv version ! unat n = Some f"
  shows "trap drv version n as s =
    rbind (f (set_kmode False (enter n as s))) (\<lambda>(r, s). Inr (of_int r, set_kmode True (set_eax s (of_int r))))"
proof -
  have "unat n < 256" using assms(2) by (simp add: word_less_nat_alt)
  then have "aget ''syscalltable'' (syscalltable drv version) (unat n) = Inr (Some f)"
    using assms(3) by (simp add: aget_ok syscalltable_def)
  with assms(1,2) show ?thesis
    by (auto simp: trap_def syscall_handler_def Let_def rbind_assoc set_kmode_def set_eax_def intro!: rbind_cong split: prod.splits)
qed

text \<open>
  The whole life of a fault that a program leaves to the library: for every error code the kernel delivers,
  the default handler prints the name of the fault, once, and ends the process with exit code 1.
\<close>

theorem default_handler_ends:
  assumes "1 \<le> errcode" "errcode \<le> 32"
  shows "procerrhandler_entry drv version say errcode (inhandler, s) =
    (let text = ''Process died: '' @ libc_cpumessages ! nat (errcode - 1) @ [CHR 0x0A]; s1 = (if inhandler = 0 then say text s else s) in
     rbind (sched_exit_process ((ker s1)\<lparr>kmode := False\<rparr>) 1) (\<lambda>(r, k).
     Inr (0, set_kmode True (set_eax ((set_kmode False (enter 10 [-1] s1))\<lparr>ker := k\<rparr>) (of_int r)))))"
proof -
  have len: "length libc_cpumessages = 32" by (simp add: libc_cpumessages_def)
  have "trap drv version 10 [of_int (-1)] t = rbind (syscall_eret (set_kmode False (enter 10 [-1] t)))
      (\<lambda>(r, s). Inr (of_int r, set_kmode True (set_eax s (of_int r))))" for t
    using trap_eq [of 10 drv version syscall_eret "[of_int (-1)]" t] by (simp add: syscalltable_def nth_append)
  moreover have "sint (-1 :: u32) = -1" by simp
  ultimately show ?thesis
    using assms len
    by (simp add: procerrhandler_entry_def libc_procerrhandler_def aget_ok syscall_eret_def on_ker_def rbind_assoc INT_MIN_def
        Let_def split_def)
qed

end
