(* ===== verification/Dbgsh.thy ===== *)
theory Dbgsh
  imports Boot
begin

section \<open>The debug shell of the kernel\<close>

text \<open>
  \<open>kernel/kernel/dbgsh\<close>. The call that starts it is commented out in \<open>kernel_main\<close>; it works on the tables
  of the kernel directly, and prints names and files as formats of \<open>printf\<close>. Every line that is read takes
  a list of what the interrupts do meanwhile; \<open>None\<close> means that the shell still waits for the line.
\<close>

record dbg =
  dbg_ker :: kernel
  dbg_vfs :: vfs
  dbg_con :: console
  cmdbuf :: string

type_synonym typed = "(console \<Rightarrow> console) list"

definition put :: "outside \<Rightarrow> string \<Rightarrow> arg list \<Rightarrow> dbg \<Rightarrow> dbg res" where
  "put out fmt args d = rbind (say (o_buf out) fmt args (dbg_con d)) (\<lambda>c. Inr (d\<lparr>dbg_con := c\<rparr>))"

primrec put_all :: "outside \<Rightarrow> string list \<Rightarrow> dbg \<Rightarrow> dbg res" where
  "put_all out [] d = Inr d"
| "put_all out (fmt # fmts) d = rbind (put out fmt [] d) (put_all out fmts)"

definition ask :: "outside \<Rightarrow> string \<Rightarrow> typed \<Rightarrow> dbg \<Rightarrow> dbg option res" where
  "ask out prompt fs d =
     rbind (put out prompt [] d) (\<lambda>d.
     rbind (term_readline fs (cmdbuf d) 256 (dbg_con d)) (\<lambda>r.
     Inr (map_option (\<lambda>(_, buf, c). d\<lparr>cmdbuf := buf, dbg_con := c\<rparr>) r)))"

text \<open>The line as a string: without a terminator, reading it runs over the end of the array.\<close>

definition line_of :: "dbg \<Rightarrow> string res" where
  "line_of d = rbind (strlen (cmdbuf d)) (\<lambda>n. Inr (take n (cmdbuf d)))"

text \<open>Going on with what was read.\<close>

definition reading :: "'a option res \<Rightarrow> ('a \<Rightarrow> 'b option res) \<Rightarrow> 'b option res" where
  "reading r f = rbind r (\<lambda>x. case x of None \<Rightarrow> Inr None | Some y \<Rightarrow> f y)"

definition shown :: "dbg res \<Rightarrow> dbg option res" where "shown r = rbind r (\<lambda>d. Inr (Some d))"

definition dbgsh_cmdline :: "outside \<Rightarrow> typed \<Rightarrow> dbg \<Rightarrow> dbg option res" where
  "dbgsh_cmdline out fs d = ask out ''kdbgsh> '' fs d"

subsection \<open>The commands\<close>

definition help_text :: "string list" where
  "help_text =
     [''exit      - exit kdbgsh'' @ newline, ''ver       - display kernel version'' @ newline,
      ''ps        - list processes'' @ newline, ''mem       - list memory usage (mb)'' @ newline,
      ''memk      - list memory usage (kb)'' @ newline, ''lsblk     - list block devices'' @ newline,
      ''blocktest - test block device'' @ newline, ''lsmount   - list mountpoints'' @ newline,
      ''mount     - mount device'' @ newline, ''ls        - list directory'' @ newline,
      ''cat       - show file contents'' @ newline, ''clear     - clear screen'' @ newline]"

primrec list_processes :: "outside \<Rightarrow> process option list \<Rightarrow> nat \<Rightarrow> dbg \<Rightarrow> dbg res" where
  "list_processes out [] i d = Inr d"
| "list_processes out (p # ps) i d =
     rbind (deref ''null process'' p) (\<lambda>p.
     rbind (put out (''%i %i %s'' @ newline) [ArgInt (int i), ArgInt (int (p_privilege p)), ArgStr (name p @ [NUL])] d)
       (list_processes out ps (Suc i)))"

definition memory_use :: "outside \<Rightarrow> (u32 \<Rightarrow> u32) \<Rightarrow> string \<Rightarrow> dbg \<Rightarrow> dbg res" where
  "memory_use out unit suffix d =
     (let m = kmem (dbg_ker d) in
      rbind (put out (''used: %i'' @ suffix @ newline) [ArgInt (sint (unit (pmm_used m)))] d) (\<lambda>d.
      rbind (put out (''allocated: %i'' @ suffix @ newline) [ArgInt (sint (unit (pmm_used_alloc m)))] d) (\<lambda>d.
      put out (''available: %i'' @ suffix @ newline) [ArgInt (sint (unit (of_nat (pmm_available m))))] d)))"

text \<open>The block is read into a buffer of the heap and thrown away.\<close>

definition block_test :: "outside \<Rightarrow> dbg \<Rightarrow> dbg res" where
  "block_test out d =
     rbind (line_of d) (\<lambda>line.
     case vfs_find_block_device_by_name (dbg_vfs d) line of
        None \<Rightarrow> put out (''device doesn'' @ [CHR 0x27] @ ''t exist'' @ newline) [] d
      | Some bd \<Rightarrow>
          rbind (bdev_at (dbg_vfs d) bd) (\<lambda>b.
          rbind (bd_block b (bd_medium b) False 16 []) (\<lambda>(n, data, medium).
          rbind (upd_bdev (dbg_vfs d) bd (\<lambda>b. b\<lparr>bd_medium := medium\<rparr>)) (\<lambda>v.
          if length data > unat (bd_blocksize b) then Inl (Fault ''blockbuf'')
          else if n \<noteq> 0 then put out (''%i bytes read successfully'' @ newline) [ArgInt (sint n)] (d\<lparr>dbg_vfs := v\<rparr>)
          else put out (''block read failed'' @ newline) [] (d\<lparr>dbg_vfs := v\<rparr>)))))"

definition list_devices :: "outside \<Rightarrow> dbg \<Rightarrow> dbg res" where
  "list_devices out d =
     (if bdevs (dbg_vfs d) = [] then put out (''no block devices'' @ newline) [] d
      else put_all out (concat (map (\<lambda>b. [bd_name b, newline]) (bdevs (dbg_vfs d)))) d)"

text \<open>The flag tells whether a device was mounted.\<close>

primrec list_mounts :: "outside \<Rightarrow> bdev list \<Rightarrow> bool \<Rightarrow> dbg \<Rightarrow> (bool \<times> dbg) res" where
  "list_mounts out [] found d = Inr (found, d)"
| "list_mounts out (b # bs) found d =
     (if bd_mounted b then
        rbind (deref ''mountpoint'' (bd_mountpoint b)) (\<lambda>mp.
        rbind (mount_at (dbg_vfs d) mp) (\<lambda>m.
        rbind (put_all out [bd_name b, '' -> '', mp_name m, newline] d) (list_mounts out bs True)))
      else list_mounts out bs found d)"

definition list_mounted :: "outside \<Rightarrow> dbg \<Rightarrow> dbg res" where
  "list_mounted out d =
     (if bdevs (dbg_vfs d) = [] then put out (''no block devices'' @ newline) [] d
      else
        rbind (list_mounts out (bdevs (dbg_vfs d)) False d) (\<lambda>(found, d).
        if \<not> found then put out (''no mounted devices'' @ newline) [] d else Inr d))"

text \<open>
  The names of the drivers, \<open>names\<close>, are not in the model of the file system; the name of the mount is read
  into a second buffer of 16 bytes, which lies on the stack.
\<close>

definition mount_device :: "outside \<Rightarrow> (nat \<Rightarrow> string) \<Rightarrow> string \<Rightarrow> typed \<Rightarrow> dbg \<Rightarrow> dbg option res" where
  "mount_device out names namebuf fs d =
     (let drv = o_drv out in
      rbind (line_of d) (\<lambda>line.
      case vfs_find_block_device_by_name (dbg_vfs d) line of
        None \<Rightarrow> shown (put out (''device doesn'' @ [CHR 0x27] @ ''t exist'' @ newline) [] d)
      | Some bd \<Rightarrow>
          rbind (vfs_detect_fs drv (dbg_vfs d) bd) (\<lambda>fsd.
          case fsd of None \<Rightarrow> shown (put out (''filesystem not supported'' @ newline) [] d)
          | Some fsd \<Rightarrow>
              rbind (put_all out [''filesystem '', names fsd, newline, ''name: ''] d) (\<lambda>d.
              reading (term_readline fs namebuf 16 (dbg_con d)) (\<lambda>(_, nm, c).
              rbind (vfs_mount drv (dbg_vfs d) bd fsd False (cstr nm)) (\<lambda>(mp, v).
              let d = d\<lparr>dbg_con := c, dbg_vfs := v\<rparr> in
              shown (if mp = None then put out (''vfs_mount() call returned NULL'' @ newline) [] d else Inr d)))))))"

definition list_directory :: "outside \<Rightarrow> dbg \<Rightarrow> dbg res" where
  "list_directory out d =
     (let v = dbg_vfs d in
      rbind (line_of d) (\<lambda>line.
      rbind (vfs_find_directory v line) (\<lambda>found.
      case found of None \<Rightarrow> put out (''directory doesn'' @ [CHR 0x27] @ ''t exist'' @ newline) [] d
      | Some i \<Rightarrow>
          rbind (dir_at v i) (\<lambda>x.
          rbind (put out ''dirs (%i): '' [ArgInt (int (length (d_dirs x)))] d) (\<lambda>d.
          rbind (entry_names v True (d_dirs x)) (\<lambda>dirs.
          rbind (put_all out (concat (map (\<lambda>nm. [nm, '' '']) dirs) @ [newline]) d) (\<lambda>d.
          rbind (put out ''files (%i): '' [ArgInt (int (length (d_files x)))] d) (\<lambda>d.
          rbind (entry_names v False (d_files x)) (\<lambda>files.
          put_all out (concat (map (\<lambda>nm. [nm, '' '']) files) @ [newline]) d)))))))))"

text \<open>The errors of the calls are negative numbers; only -1 is looked for.\<close>

definition show_file :: "outside \<Rightarrow> dbg \<Rightarrow> dbg res" where
  "show_file out d =
     (let drv = o_drv out in
      rbind (line_of d) (\<lambda>line.
      rbind (vfs_open (dbg_ker d) (dbg_vfs d) line 0) (\<lambda>(fd, k, v).
      let d = d\<lparr>dbg_ker := k, dbg_vfs := v\<rparr>;
          closing = (\<lambda>d. rbind (vfs_close (dbg_ker d) (dbg_vfs d) fd) (\<lambda>(r, k, v).
            Inr (r, d\<lparr>dbg_ker := k, dbg_vfs := v\<rparr>))) in
      if fd = -1 then put out (''open() failed'' @ newline) [] d
      else
        rbind (vfs_fstat k v fd) (\<lambda>(r, st).
        if r = -1 then
          rbind (put out (''fstat() failed'' @ newline) [] d) (\<lambda>d. rbind (closing d) (\<lambda>(_, d). Inr d))
        else
          rbind (deref ''stat'' st) (\<lambda>st.
          rbind (vfs_read drv k v fd (st_size st)) (\<lambda>(r, data, k).
          let d = d\<lparr>dbg_ker := k\<rparr> in
          if r = -1 then
            rbind (put out (''read() failed'' @ newline) [] d) (\<lambda>d. rbind (closing d) (\<lambda>(_, d). Inr d))
          else
            rbind (put_slice (fresh_block v (unat (st_size st + 1))) 0 data) (\<lambda>buf.
            rbind (aset ''data'' buf (unat (st_size st)) NUL) (\<lambda>buf.
            rbind (put_all out [cstr buf, newline] d) (\<lambda>d.
            rbind (closing d) (\<lambda>(r, d).
            if r = -1 then put out (''close() failed'' @ newline) [] d else Inr d))))))))))"

subsection \<open>A round\<close>

text \<open>The command that is typed; the comparisons go through the list from the front.\<close>

primrec command_of :: "string \<Rightarrow> string list \<Rightarrow> string option res" where
  "command_of buf [] = Inr None"
| "command_of buf (w # ws) = rbind (strcmp buf (w @ [NUL])) (\<lambda>c. if c = 0 then Inr (Some w) else command_of buf ws)"

definition commands :: "string list" where
  "commands = [''exit'', ''ver'', ''help'', ''ps'', ''memk'', ''mem'', ''blocktest'', ''lsblk'', ''lsmount'', ''mount'',
     ''ls'', ''cat'', ''clear'']"

definition run_dbg_command ::
  "outside \<Rightarrow> (nat \<Rightarrow> string) \<Rightarrow> string \<Rightarrow> typed \<Rightarrow> typed \<Rightarrow> string \<Rightarrow> dbg \<Rightarrow> dbg option res" where
  "run_dbg_command out names namebuf fs2 fs3 cmd d =
     (if cmd = ''ver'' then shown (put out (''%s'' @ newline) [ArgStr (o_version out @ [NUL])] d)
      else if cmd = ''help'' then shown (put_all out help_text d)
      else if cmd = ''ps'' then
        shown (rbind (put out (''id pl name'' @ newline) [] d) (list_processes out (processes (dbg_ker d)) 0))
      else if cmd = ''memk'' then shown (memory_use out (\<lambda>n. n * 4) ''kb'' d)
      else if cmd = ''mem'' then shown (memory_use out (\<lambda>n. n div 256) ''mb'' d)
      else if cmd = ''blocktest'' then reading (ask out ''device: '' fs2 d) (\<lambda>d. shown (block_test out d))
      else if cmd = ''lsblk'' then shown (list_devices out d)
      else if cmd = ''lsmount'' then shown (list_mounted out d)
      else if cmd = ''mount'' then reading (ask out ''device: '' fs2 d) (mount_device out names namebuf fs3)
      else if cmd = ''ls'' then reading (ask out ''path: '' fs2 d) (\<lambda>d. shown (list_directory out d))
      else if cmd = ''cat'' then reading (ask out ''path: '' fs2 d) (\<lambda>d. shown (show_file out d))
      else if cmd = ''clear'' then shown (rbind (term_clear (dbg_con d)) (\<lambda>c. Inr (d\<lparr>dbg_con := c\<rparr>)))
      else Inr (Some d))"

text \<open>One round of the loop of \<open>dbgsh_main\<close>; the flag is \<open>running\<close>.\<close>

definition dbgsh_round ::
  "outside \<Rightarrow> (nat \<Rightarrow> string) \<Rightarrow> string \<Rightarrow> typed \<times> typed \<times> typed \<Rightarrow> dbg \<Rightarrow> (bool \<times> dbg) option res" where
  "dbgsh_round out names namebuf = (\<lambda>(fs1, fs2, fs3) d.
     reading (dbgsh_cmdline out fs1 d) (\<lambda>d.
     rbind (command_of (cmdbuf d) commands) (\<lambda>cmd.
     case cmd of None \<Rightarrow> Inr (Some (True, d))
     | Some cmd \<Rightarrow>
         if cmd = ''exit'' then Inr (Some (False, d))
         else reading (run_dbg_command out names namebuf fs2 fs3 cmd d) (\<lambda>d. Inr (Some (True, d))))))"

primrec dbgsh_loop ::
  "outside \<Rightarrow> (nat \<Rightarrow> string) \<Rightarrow> string \<Rightarrow> (typed \<times> typed \<times> typed) list \<Rightarrow> dbg \<Rightarrow> dbg option res" where
  "dbgsh_loop out names namebuf [] d = Inr None"
| "dbgsh_loop out names namebuf (fs # fss) d =
     reading (dbgsh_round out names namebuf fs d) (\<lambda>(running, d).
     if running then dbgsh_loop out names namebuf fss d else Inr (Some d))"

definition dbgsh_main ::
  "outside \<Rightarrow> (nat \<Rightarrow> string) \<Rightarrow> string \<Rightarrow> (typed \<times> typed \<times> typed) list \<Rightarrow> dbg \<Rightarrow> dbg option res" where
  "dbgsh_main out names namebuf fss d =
     rbind (put_all out [''You are now in kdbgsh.'' @ newline,
       ''Type '' @ [CHR 0x22] @ ''help'' @ [CHR 0x22] @ '' for a list of commands.'' @ newline] d)
       (dbgsh_loop out names namebuf fss)"

text \<open>\<open>getchar\<close> of the kernel: a character that may not have been typed; \<open>tchar\<close> is what was on the stack.\<close>

definition getchar_k :: "char \<Rightarrow> console \<Rightarrow> (int \<times> console) res" where
  "getchar_k tchar c =
     rbind (term_read 1 c) (\<lambda>(cs, c). Inr (let n = int (of_char (case cs of [] \<Rightarrow> tchar | x # _ \<Rightarrow> x)) in
       if n < 128 then n else n - 256, c))"

subsection \<open>Facts\<close>

text \<open>The command is the line, when it is one of them.\<close>

lemma command_of_commands:
  assumes "terminated buf" "\<forall>w\<in>set ws. NUL \<notin> set w"
  shows "command_of buf ws = Inr (if cstr buf \<in> set ws then Some (cstr buf) else None)"
  using assms(2)
proof (induction ws)
  case (Cons w ws)
  have w: "terminated (w @ [NUL])" "cstr (w @ [NUL]) = w" using Cons.prems by (simp_all add: cstr_stop)
  obtain r where r: "strcmp buf (w @ [NUL]) = Inr r" "r = 0 \<longleftrightarrow> cstr buf = w"
    using strcmp_ok [OF assms(1) w(1)] strcmp_eq_0 [OF assms(1) w(1)] w(2) by (auto simp: ok_iff)
  then show ?case using Cons by auto
qed simp

text \<open>
  A file that is not there: \<open>vfs_open\<close> answers \<open>-ENOENT\<close>, the shell looks for -1 only, and goes on with
  the size from a structure that nothing has filled.
\<close>

lemma cat_missing_file:
  assumes "terminated (cmdbuf d)" "vfs_open (dbg_ker d) (dbg_vfs d) (cstr (cmdbuf d)) 0 = Inr (- ENOENT, k, v)" "cur_proc k = Inr p"
  shows "show_file out d = Inl (Fault ''stat'')"
proof -
  have "line_of d = Inr (cstr (cmdbuf d))"
    using assms(1) by (simp add: line_of_def strlen_cstr cstr_def takeWhile_eq_take [symmetric])
  moreover have "fd_entry p (- ENOENT) = Inr None" by (simp add: fd_entry_def vfs_fd_is_open_def)
  ultimately show ?thesis using assms(2,3) by (simp add: show_file_def vfs_fstat_def)
qed

lemma dbgsh_round_line:
  assumes "dbgsh_cmdline out fs1 d = Inr (Some d1)" "terminated (cmdbuf d1)"
  shows "dbgsh_round out names namebuf (fs1, fs2, fs3) d =
    (let cmd = cstr (cmdbuf d1) in
     if cmd = ''exit'' then Inr (Some (False, d1))
     else if cmd \<in> set commands then reading (run_dbg_command out names namebuf fs2 fs3 cmd d1) (\<lambda>d. Inr (Some (True, d)))
     else Inr (Some (True, d1)))"
proof -
  have "\<forall>w\<in>set commands. NUL \<notin> set w" "''exit'' \<in> set commands" by (simp_all add: commands_def)
  with command_of_commands [OF assms(2) this(1)] assms(1) show ?thesis by (auto simp: dbgsh_round_def reading_def Let_def)
qed

end
