(* ===== verification/EndToEnd.thy ===== *)
theory EndToEnd
  imports UserLib Printf
begin

section \<open>From programs to devices and back\<close>

text \<open>
  What a program gets from a call that goes through many components. From \<open>read\<close> in the C library to the sectors of
  the disk and back: the wrapper, the system call, the table of open files, the FAT driver, the RAM disk and the
  copy into user memory. From \<open>write\<close> to the cells of the screen: the copy out of user memory, the terminal
  layer and the text terminal.
\<close>

subsection \<open>Files on the disk\<close>

text \<open>
  File \<open>f\<close> lies on a RAM disk with a FAT file system, in clusters of \<open>z\<close> bytes, and its contents are \<open>body\<close>.
\<close>

definition fat_contents :: "vfs \<Rightarrow> vfile \<Rightarrow> nat \<Rightarrow> string \<Rightarrow> bool" where
  "fat_contents v f z body \<longleftrightarrow> (\<exists>m disk nm fi c cs.
     let b = rdisk_dev disk nm (f_volume f) in
     mount_at v (f_volume f) = Inr m \<and> bdev_at v (mp_bd m) = Inr b \<and> mp_extra m = FatExtra fi \<and> fat_ok fi b \<and>
     first_cluster fi f = Inr c \<and> chain (rdisk_blocks disk) fi b c cs \<and> z = csize fi b \<and> z < 2 ^ 31 \<and>
     unat (f_size f) \<le> length cs * z \<and>
     body = take (unat (f_size f)) (concat (map (cluster_bytes (rdisk_sector disk) fi b) cs)))"

lemma fat_contents_length: "fat_contents v f z body \<Longrightarrow> length body = unat (f_size f)"
proof -
  assume "fat_contents v f z body"
  then obtain disk nm fi c cs where c: "chain (rdisk_blocks disk) fi (rdisk_dev disk nm (f_volume f)) c cs"
    "z = csize fi (rdisk_dev disk nm (f_volume f))" "unat (f_size f) \<le> length cs * z"
    "body = take (unat (f_size f)) (concat (map (cluster_bytes (rdisk_sector disk) fi (rdisk_dev disk nm (f_volume f))) cs))"
    by (auto simp: fat_contents_def Let_def)
  have "\<forall>x\<in>set (map (cluster_bytes (rdisk_sector disk) fi (rdisk_dev disk nm (f_volume f))) cs). length x = z"
    using rdisk.chain_cluster_lengths [OF c(1)] c(2) by simp
  then have "length (concat (map (cluster_bytes (rdisk_sector disk) fi (rdisk_dev disk nm (f_volume f))) cs)) = length cs * z"
    by (induction cs) auto
  with c(3,4) show ?thesis by simp
qed

lemma fat_contents_read:
  assumes "fat_contents v f z body" "mount_at v (f_volume f) = Inr m" "unat loc < length body"
    "n = min (unat len) (length body - unat loc)" "0 < n" "n < 2 ^ 31" "unat loc mod z + n \<le> pages_up n z * z"
  shows "vfat_accessfile v (mp_bd m) False f buffer len loc = Inr (int n, take n (drop (unat loc) body))"
proof -
  from assms(1,2) obtain disk nm fi c cs where b: "bdev_at v (mp_bd m) = Inr (rdisk_dev disk nm (f_volume f))"
    and x: "mp_extra m = FatExtra fi" "fat_ok fi (rdisk_dev disk nm (f_volume f))" "first_cluster fi f = Inr c"
      "chain (rdisk_blocks disk) fi (rdisk_dev disk nm (f_volume f)) c cs"
    and z: "z = csize fi (rdisk_dev disk nm (f_volume f))" "z < 2 ^ 31" "unat (f_size f) \<le> length cs * z"
    and body: "body = take (unat (f_size f)) (concat (map (cluster_bytes (rdisk_sector disk) fi (rdisk_dev disk nm (f_volume f))) cs))"
    by (auto simp: fat_contents_def Let_def)
  note len = fat_contents_length [OF assms(1)]
  have "bd_mountpoint (rdisk_dev disk nm (f_volume f)) = Some (f_volume f)" by (simp add: rdisk_dev_def)
  from rdisk.accessfile_spec [OF b this assms(2) x(1-4), of loc n len buffer] z assms(3-7)
  have "vfat_accessfile v (mp_bd m) False f buffer len loc = Inr (int n, take n (drop (unat loc)
      (concat (map (cluster_bytes (rdisk_sector disk) fi (rdisk_dev disk nm (f_volume f))) cs))))"
    by (simp add: len)
  moreover have "take n (drop (unat loc) body) = take n (drop (unat loc)
      (concat (map (cluster_bytes (rdisk_sector disk) fi (rdisk_dev disk nm (f_volume f))) cs)))"
    using assms(3,4) by (simp add: body drop_take min_def len [unfolded body] split: if_splits)
  ultimately show ?thesis by simp
qed

subsection \<open>Reading\<close>

lemma user_buffer_end: "unat buf + unat n \<le> unat KERNEL_START \<Longrightarrow> user_buffer_ok buf n"
proof (cases "n = 0")
  case False
  assume end_ok: "unat buf + unat n \<le> unat KERNEL_START"
  moreover have "0 < unat n" using False by (simp add: unat_gt_0)
  ultimately have "buf < KERNEL_START" by (simp add: word_less_nat_alt)
  then have "safecpy_check_user buf n" using end_ok by (simp add: check_user_iff)
  then show ?thesis by (auto simp: user_buffer_ok_def safecpy_check_user_def split: if_splits)
qed (simp add: user_buffer_ok_def)

text \<open>The system call: what the driver read is in the buffer of the program, and the position has moved.\<close>

lemma syscall_read_delivers:
  assumes "sint (arg s 0) = 3 + fd" "0 \<le> fd" "arg s 2 \<noteq> 0" "arg s 2 \<le> MAX_SYSCALL_IO_SIZE"
    "unat (arg s 1) + unat (arg s 2) \<le> unat KERNEL_START"
    "cur_proc (ker s) = Inr p" "fd_entry p fd = Inr (Some x)" "file_at (fsys s) (of_file x) = Inr f"
    "mount_at (fsys s) (f_volume f) = Inr m"
    "fs_accessfile (drv (of_fsdriver x)) (fsys s) (mp_bd m) False f [] (arg s 2) (of_loc x) = Inr (int (length bytes), bytes)"
    "bytes \<noteq> []" "length bytes \<le> unat (arg s 2)"
    "user_isolated (kmem_of s)" "\<forall>i<length bytes. walk (kmem_of s) 3 (arg s 1 + of_nat i) = Some (g i)" "inj_on g {..<length bytes}"
  shows "\<exists>s' p'. syscall_read drv s = Inr (int (length bytes), s') \<and>
    safecpy_from_user (kmem_of s') (arg s 1) (of_nat (length bytes)) = Some bytes \<and> cur_proc (ker s') = Inr p' \<and>
    openfiles p' = (openfiles p)[nat fd := Some (x\<lparr>of_loc := of_loc x + of_nat (length bytes)\<rparr>)]"
proof -
  have clip: "clip_count (arg s 2) = arg s 2" using assms(4) by (auto simp: clip_count_def)
  let ?p = "p\<lparr>openfiles := (openfiles p)[nat fd := Some (x\<lparr>of_loc := of_loc x + of_nat (length bytes)\<rparr>)]\<rparr>"
  let ?k = "put_cur ?p (ker s)"
  have "nat fd < length (openfiles p)" using assms(7) by (auto simp: fd_entry_def aget_Inr split: if_splits)
  then have rd: "vfs_read drv (ker s) (fsys s) fd (arg s 2) = Inr (int (length bytes), bytes, ?k)"
    using assms(6-10) by (simp add: vfs_read_def access_open_def aset_ok)
  have km: "kmem_of (s\<lparr>ker := ?k\<rparr>) = kmem_of s" by (simp add: kmem_of_def put_cur_def put_proc_def split: option.splits)
  have "unat (arg s 1) + length bytes \<le> unat KERNEL_START" using assms(5,12) by linarith
  from safecpy_roundtrip [OF assms(13) this assms(11,14,15)] obtain m' where
    m': "safecpy_to_user (kmem_of s) (arg s 1) bytes = (0, m')" "safecpy_from_user m' (arg s 1) (of_nat (length bytes)) = Some bytes"
    by blast
  have put: "put_slice (fresh_block (fsys s) (unat (arg s 2))) 0 bytes =
      Inr (bytes @ drop (length bytes) (fresh_block (fsys s) (unat (arg s 2))))"
    using assms(12) by (simp add: put_slice_def fresh_block_def)
  have args: "arg (s\<lparr>ker := ?k\<rparr>) = arg s" by (simp add: arg_def fun_eq_iff)
  have copied: "read_copy (s\<lparr>ker := ?k\<rparr>) (int (length bytes)) (bytes @ drop (length bytes) (fresh_block (fsys s) (unat (arg s 2)))) (arg s 2)
      = Inr (int (length bytes), s\<lparr>ker := ?k\<lparr>kmem := m'\<rparr>\<rparr>)"
    using assms(11,12) m'(1) by (simp add: read_copy_def to_user_def km args min_absorb1 Let_def)
  have "syscall_read drv s = Inr (int (length bytes), s\<lparr>ker := ?k\<lparr>kmem := m'\<rparr>\<rparr>)"
    using assms(1-3) user_buffer_end [OF assms(5)] rd put copied by (simp add: syscall_read_def clip INT_MIN_def)
  moreover have "cur_proc (?k\<lparr>kmem := m'\<rparr>) = Inr ?p"
    using cur_proc_put_cur(1) [OF assms(6)] by (simp add: cur_proc_def proc_def [abs_def] get_proc_def [abs_def] last_pid_def cong: if_cong)
  ultimately show ?thesis using m'(2) by (auto simp: kmem_of_def)
qed


text \<open>A disk whose first file begins with the letters \<open>init\<close>, and a program that has opened it.\<close>

definition word_disk :: string where "word_disk = replicate 512 NUL @ ''init'' @ replicate 1532 NUL"

definition word_sys :: sys where
  "word_sys = demo_sys\<lparr>fsys := demo_fat_vfs word_disk,
     ker := put_cur ((demo_process 1 3)\<lparr>openfiles := [Some \<lparr>of_file = 0, of_fsdriver = 0, of_loc = 0, of_flags = 1, of_id = 0\<rparr>],
       openfiles_loc := 1\<rparr>) demo\<rparr>"

lemma word_contents: "\<exists>body. fat_contents (demo_fat_vfs word_disk) demo_fat_file 512 body \<and> take 4 body = ''init''"
proof -
  let ?b = "rdisk_dev word_disk ''rd0'' 0"
  let ?m = "\<lparr>mp_name = ''cd'', mp_bd = 0, mp_fs = 0, mp_root = 0, mp_extra = FatExtra demo_fat, mp_rw = False\<rparr>"
  let ?content = "concat (map (cluster_bytes (rdisk_sector word_disk) demo_fat ?b) [2, 3])"
  have len: "length word_disk = 2048" by (simp add: word_disk_def)
  have bpc: "blocks_per_cluster demo_fat ?b = 1"
    by (simp add: blocks_per_cluster_def demo_fat_def rdisk_dev_def round_up_integer_def)
  have z: "csize demo_fat ?b = 512" by (simp add: csize_def bpc) (simp add: rdisk_dev_def)
  have lba: "cluster_lba demo_fat ?b 2 = 1" "cluster_lba demo_fat ?b 3 = 2"
    by (simp_all add: cluster_lba_def demo_fat_def rdisk_dev_def vfat_cluster_to_sector_def)
  have nxt: "vfat_next_cluster 2 demo_fat = Inr 3" "vfat_next_cluster 3 demo_fat = Inr 65535"
    by (simp_all add: vfat_next_cluster_def demo_fat_def buf16_def buf8_def)
  have ch: "chain (rdisk_blocks word_disk) demo_fat ?b 2 [2, 3]" by (simp add: bpc lba nxt rdisk_blocks_def len)
  have first: "first_cluster demo_fat demo_fat_file = Inr 2"
    by (simp add: first_cluster_def demo_fat_def demo_fat_file_def buf16_def buf8_def nth_append nth_Cons')
  have fine: "fat_ok demo_fat ?b" by (simp add: fat_ok_def z) (simp add: demo_fat_def)
  have dev: "bdev_at (demo_fat_vfs word_disk) 0 = Inr ?b" "mount_at (demo_fat_vfs word_disk) 0 = Inr ?m"
    by (simp_all add: bdev_at_def mount_at_def demo_fat_vfs_def)
  have fl: "f_volume demo_fat_file = 0" "unat (f_size demo_fat_file) = 600" by (simp_all add: demo_fat_file_def)
  have "fat_contents (demo_fat_vfs word_disk) demo_fat_file 512 (take 600 ?content)"
    unfolding fat_contents_def Let_def fl
    by (rule exI [of _ ?m], rule exI [of _ word_disk], rule exI [of _ "''rd0''"], rule exI [of _ demo_fat],
        rule exI [of _ "2 :: u32"], rule exI [of _ "[2, 3]"]) (use ch first fine dev z in simp)
  moreover have "cluster_bytes (rdisk_sector word_disk) demo_fat ?b 2 = rdisk_sector word_disk 1"
    by (simp add: cluster_bytes_def bpc lba)
  moreover have "take 4 (rdisk_sector word_disk 1) = ''init''" by (simp add: rdisk_sector_def word_disk_def)
  moreover have "length (rdisk_sector word_disk 1) = 512" by (simp add: rdisk_sector_def len)
  ultimately have "fat_contents (demo_fat_vfs word_disk) demo_fat_file 512 (take 600 ?content) \<and> take 4 (take 600 ?content) = ''init''"
    by simp
  then show ?thesis by blast
qed


subsection \<open>Text on the screen\<close>



end
