(* ===== verification/Spec2Isabelle.thy ===== *)
theory Spec2Isabelle
  imports HeapSpec IsoSpec Ata Irq SyscallSpec VfatNames VfatRead CToken CSearch CStdlib
    Gsh Boot Programs Safetest Startup Dbgsh EndToEnd
begin

text \<open>
  GalaxyOS: a 32-bit kernel for the i386 with its C library and its programs.

  THE PROGRAM. The kernel (\<open>src/kernel\<close>) owns the physical page frames (\<open>mem/pmm.c\<close>) and maps them through
  page tables that contain themselves (\<open>mem/vmm.c\<close>); its heap (\<open>mem/liballoc.c\<close>) takes pages from there.
  Processes and threads are tables and a queue (\<open>sched/sched.c\<close>), filled from ELF images (\<open>sched/pload.c\<close>) and
  connected by message queues (\<open>sched/interface.c\<close>). Files come through a layer of drivers
  (\<open>drv/fs/vfs.c\<close> over \<open>vfat.c\<close>, \<open>iso9660.c\<close>, \<open>rdisk.c\<close>) from ATA devices (\<open>drv/ata*.c\<close>). The keyboard
  (\<open>drv/ps2*.c\<close>) and the text screen (\<open>drv/vgatty.c\<close>) make the terminal. Interrupts
  (\<open>i386/irq.c\<close>, \<open>exceptionx86.c\<close>, \<open>boot.S\<close>) lead into the system calls (\<open>i386/syscall.c\<close>), which
  touch user memory only through \<open>sched/safecpy.c\<close>. Programs (\<open>src/userland\<close>) use the wrappers of
  \<open>lib/glcore\<close> and \<open>src/libc\<close>: \<open>init\<close>, the shell \<open>gsh\<close> and small tools.

  THEORIES AND CODE, each over the ones before:
  Prelude: outcomes \<open>'a res\<close> (\<open>Inr\<close> a result, \<open>Inl\<close> a panic or an access outside an object), sequencing \<open>rbind\<close>,
    checked arrays, machine words, error numbers.
  Mem, Pmm, Vmm, Paging: physical memory and the page walk of the processor; the frame stack; the page table
    operations; what they do to the address space as the processor sees it.
  CString, CToken, CSearch, CStdlib: the string and number routines of \<open>src/libc\<close> over byte lists that end where the
    object ends.
  Safecpy: checked copies to and from user memory. Kstate: the structures and tables of \<open>sched.h\<close>.
  Interface, Sched, Schedule, Brk, Pload, Table: messages; the scheduler; its queue discipline; the program break and kill;
    the loader; what all of them do to the table of processes.
  Liballoc, HeapInv, HeapMalloc, HeapFree, HeapPages, HeapSpec: the allocator as an explicit heap of headers at
    addresses; its invariant; \<open>malloc\<close>, \<open>free\<close>, \<open>realloc\<close>; the page sources of the kernel and of programs; the theorems for both.
  Vfs, VfsPath, Vfat, VfatNames, VfatRead, Iso9660, IsoSpec: the file layer, paths, the FAT driver with the
    RAM disk, the ISO 9660 driver, and reading of files as one byte string.
  Ports, Ata, Vgatty, Console, Printf: ports and the PS/2 controller, the discs, the screen, keyboard and terminal, formatted output.
  Descr, Irq, Syscall, SyscallSpec, System: descriptor tables; interrupts and faults; the system calls; their
    theorems; the kernel with its programs as one transition system (\<open>step\<close>, \<open>run\<close>).
  Boot, Dbgsh: from \<open>kernel_main\<close> to the first processes, log and panic screens, reset; the debug shell.
  UserLib, Startup, Gsh, Programs, Safetest: the calls as programs make them, \<open>crt0.S\<close> and the default fault
    handler, the shell, \<open>init\<close> and the tools, the test program of the system calls.
  EndToEnd: from a program's \<open>read\<close> to the disk and back, and from its \<open>write\<close> to the screen.

  STATE. A C structure is a record, an array a list or, on the heap, a function with its capacity; pointers between
  kernel objects are indices, NULL is \<open>None\<close> or 0. \<open>mem\<close> holds physical dwords, the page directory
  register and the allocator's variables; \<open>kernel\<close> adds the tables of the scheduler; \<open>sys\<close> adds files, the console
  and the saved registers; \<open>machine\<close> adds what only the start of the kernel changes. Ids are lengths: \<open>last_pid\<close> and
  \<open>last_tid\<close> count up and nothing is ever removed from the tables. Integers have their width (\<open>u32\<close>, \<open>u16\<close>, \<open>u8\<close>) wherever
  the code relies on it; an \<open>int\<close> of C whose overflow would be undefined is an \<open>int\<close> with a fault at the overflow.
  The contents of fresh blocks and stacks are parameters (\<open>junk\<close>, \<open>buf\<close>), division by zero is a panic.

  INTERFACES, as locales, each interpreted on the code's own definitions: \<open>frame_stack\<close> (the frame allocator, by
  \<open>pmm_alloc_page\<close> and \<open>pmm_free_page\<close>), \<open>page_source\<close> (where a heap gets its pages, by the kernel's and by the
  library's back end), \<open>program_loader\<close> and \<open>table_loader\<close> (what the scheduler needs of \<open>pload_load_process\<close>),
  \<open>block_reader\<close> (a block device, by the RAM disk), \<open>char_source\<close> (the keyboard), \<open>text_sink\<close> (where \<open>printf\<close>
  puts its text, by the terminal and by \<open>sprintf\<close>'s buffer).

  WHAT THE THEOREMS SHOW.
  Memory: the table walks of the kernel agree with the processor; user ranges are judged right; copies to user memory change
  only writable user pages; the heap keeps its invariant, allocations never overlap and keep their contents.
  Scheduling: the next thread is found and is runnable, threads take turns; the break stays in bounds; killing does what it says.
  System: in every run the table of processes is in order, a pid is never used twice, a program never gains privilege,
  and none can reset the machine; faults go to the handler or end the process; interrupts wake who waits.
  Calls: numbers and arguments agree between library and kernel, unknown numbers are refused, reading is
  confined, argument vectors are bounded, the environment gives back what was put, and the test program passes its
  tests with bad arguments in every state.
  Files: paths and directories correspond; the path table of an ISO volume is parsed to the directories it encodes; reading a FAT
  file gives its bytes, or overruns in the case stated; a program that reads an open file gets the bytes of the disk in its
  own memory.
  Terminal: what a program writes is on the screen, which refines a stream of characters, \<open>printf\<close> shows the rendered format, keys arrive as
  typed, a panic shows its message; the shell reads the edited line and runs the first match on the path; \<open>init\<close> obeys
  exactly the requests it should.
  Some lemmas show behaviour the code does not mean to have: \<open>malloc_wraps\<close>, \<open>fault_ends_process\<close>, \<open>read_hangs_at_end\<close>,
  \<open>close_reports_EBADF\<close>, \<open>printf_overrun\<close>, \<open>short_name_no_dot\<close>, \<open>lfn_name_empty\<close>, \<open>keyboard_overrun\<close>, \<open>power_refusal_lost\<close>,
  \<open>gsh_blank_line\<close>, \<open>vfs_find_directory_nested\<close>, \<open>cat_missing_file\<close> and others next to them.

  BOUNDS. The walk over a range of pages has \<open>2 ^ 20\<close> steps of fuel, the number of pages there are, and its theorem shows
  that it suffices. Mounting a volume follows directories and searches records that need not end on a broken disk, where the code
  loops: it takes fuel, one unit for each round; reading a file takes exactly the clusters that are asked for. Recursion over queues, tables, strings and
  heap lists ends by a measure. Loops over device registers have no bound in the code: they take fuel, and their theorems assume a drive
  that answers within it. A loop of a program around a call, and a wait for the keyboard, take a list of what happens
  meanwhile: \<open>None\<close> when it is still waiting after the last entry.

  NOT MODELLED. Interrupt flag, translation cache and the depth of the kernel stack; consumption and failure of \<open>kmalloc\<close> in
  the components above the heap, whose objects are typed values; locks, since the kernel runs calls with interrupts off; log
  messages except those of the start; the code of \<open>boot.S\<close> before \<open>kernel_main\<close>, \<open>init_fpu\<close> and the vector stubs
  (\<open>safecpy_asm\<close> is its effect through the page walk); discs, PS/2 devices and the rest of the machine behind the ports,
  which are an arbitrary function of the accesses so far; programs between interrupts, which change registers and store
  through the page walk arbitrarily; \<open>free\<close> (float), \<open>idle_loop\<close>, \<open>abort\<close>, \<open>fopen\<close> and empty programs. \<open>init\<close>, the shell and the tools
  are modelled over a record of the calls they make; \<open>Safetest\<close> runs on the kernel itself.
\<close>

end
